(* ===== verification/Prelude.thy ===== *)
theory Prelude
  imports Main "HOL-Library.Char_ord" "HOL-Library.List_Lexorder" "HOL-Library.Product_Lexorder"
    "HOL-Library.Sublist" "HOL-Library.Word"
begin

text \<open>
  What every other theory of the development shares: the reading of JavaScript strings,
  the string operations of the standard library the source calls, and generic lemmas on
  lists and options.

  A JavaScript string is a \<^typ>\<open>string\<close>: a list of code units, each below 256. The code
  under \<^verbatim>\<open>src/\<close> compares, splits and measures strings by code unit, which is what the
  list operations do. Code units from 256 on are outside the model; every string the
  protocol itself defines (hashes, keys, tickets, invoices, header names) is ASCII.
  A \<open>number\<close> the code only ever uses as a whole number is an \<^typ>\<open>int\<close> or a \<^typ>\<open>nat\<close>, a value the
  code masks to 32 bits is a \<^typ>\<open>32 word\<close>.
\<close>

unbundle bit_operations_syntax

named_theorems char_simps \<open>character classes and case folding\<close>
named_theorems text_simps \<open>operations on strings\<close>

type_synonym bytes = "8 word list"

subsection \<open>Characters\<close>

definition code :: "char \<Rightarrow> nat" where
  "code c = of_char c"

definition is_digit :: "char \<Rightarrow> bool" where
  "is_digit c \<longleftrightarrow> 48 \<le> code c \<and> code c \<le> 57"

definition is_lower_hex :: "char \<Rightarrow> bool" where
  "is_lower_hex c \<longleftrightarrow> is_digit c \<or> (97 \<le> code c \<and> code c \<le> 102)"

definition is_hex_char :: "char \<Rightarrow> bool" where
  "is_hex_char c \<longleftrightarrow> is_lower_hex c \<or> (65 \<le> code c \<and> code c \<le> 70)"

definition is_letter :: "char \<Rightarrow> bool" where
  "is_letter c \<longleftrightarrow> (65 \<le> code c \<and> code c \<le> 90) \<or> (97 \<le> code c \<and> code c \<le> 122)"

text \<open>The class \<^verbatim>\<open>\w\<close> of a regular expression.\<close>

definition is_word_char :: "char \<Rightarrow> bool" where
  "is_word_char c \<longleftrightarrow> is_letter c \<or> is_digit c \<or> c = CHR ''_''"

text \<open>
  \<^verbatim>\<open>toLowerCase\<close> on one code unit below 256: the ASCII capitals and the Latin-1 capitals
  move up by 32.
\<close>

definition lower_char :: "char \<Rightarrow> char" where
  "lower_char c =
     (if (65 \<le> code c \<and> code c \<le> 90) \<or> (192 \<le> code c \<and> code c \<le> 222 \<and> code c \<noteq> 215)
      then char_of (code c + 32) else c)"

definition upper_char :: "char \<Rightarrow> char" where
  "upper_char c = (if 97 \<le> code c \<and> code c \<le> 122 then char_of (code c - 32) else c)"

definition lower :: "string \<Rightarrow> string" where
  "lower s = map lower_char s"

definition upper :: "string \<Rightarrow> string" where
  "upper s = map upper_char s"

lemma code_less [simp]: "code c < 256"
  by (simp add: code_def)

lemma code_inject [simp]: "code c = code d \<longleftrightarrow> c = d"
  by (simp add: code_def)

lemma char_of_code [simp]: "char_of (code c) = c"
  by (simp add: code_def)

lemma code_char_of [simp]: "n < 256 \<Longrightarrow> code (char_of n) = n"
  by (simp add: code_def)

lemma lower_char_idem [simp]: "lower_char (lower_char c) = lower_char c"
proof (cases "(65 \<le> code c \<and> code c \<le> 90) \<or> (192 \<le> code c \<and> code c \<le> 222 \<and> code c \<noteq> 215)")
  case True
  then have *: "lower_char c = char_of (code c + 32)" by (simp only: lower_char_def if_True)
  have "code (lower_char c) = code c + 32"
    unfolding * by (rule code_char_of) (use True in linarith)
  with True show ?thesis
    by (subst lower_char_def) auto
next
  case False
  then have "lower_char c = c" by (simp only: lower_char_def if_False)
  then show ?thesis by simp
qed

lemma lower_idem [simp]: "lower (lower s) = lower s"
  by (simp add: lower_def)

lemma length_lower [simp]: "length (lower s) = length s"
  by (simp add: lower_def)

lemma lower_char_lower_hex [char_simps]: "is_lower_hex c \<Longrightarrow> lower_char c = c"
  by (auto simp: lower_char_def is_lower_hex_def is_digit_def)

lemma lower_char_digit [char_simps]: "is_digit c \<Longrightarrow> lower_char c = c"
  by (auto simp: lower_char_def is_digit_def)

lemma is_lower_hex_is_hex [intro]: "is_lower_hex c \<Longrightarrow> is_hex_char c"
  by (simp add: is_hex_char_def)

lemma is_digit_is_lower_hex [intro]: "is_digit c \<Longrightarrow> is_lower_hex c"
  by (simp add: is_lower_hex_def)

lemma lower_lower_hex [text_simps]: "list_all is_lower_hex s \<Longrightarrow> lower s = s"
  by (induction s) (auto simp: lower_def char_simps)

subsection \<open>String operations of the standard library\<close>

definition starts_with :: "string \<Rightarrow> string \<Rightarrow> bool" where
  "starts_with p s \<longleftrightarrow> prefix p s"

definition ends_with :: "string \<Rightarrow> string \<Rightarrow> bool" where
  "ends_with p s \<longleftrightarrow> suffix p s"

lemma starts_with_code [code]: "starts_with p s \<longleftrightarrow> take (length p) s = p"
  unfolding starts_with_def by (metis append_eq_conv_conj prefix_def take_is_prefix)

lemma ends_with_code [code]:
  "ends_with p s \<longleftrightarrow> length p \<le> length s \<and> drop (length s - length p) s = p"
  unfolding ends_with_def suffix_def
  by (metis append_take_drop_id add_diff_cancel_right' append_eq_conv_conj le_add2 length_append)

text \<open>\<^verbatim>\<open>s.slice(from, to)\<close> for \<open>0 \<le> from \<le> to\<close>, and \<^verbatim>\<open>s.slice(from)\<close>.\<close>

definition slice :: "nat \<Rightarrow> nat \<Rightarrow> 'a list \<Rightarrow> 'a list" where
  "slice from to xs = take (to - from) (drop from xs)"

text \<open>\<^verbatim>\<open>indexOf\<close> and \<^verbatim>\<open>lastIndexOf\<close> of one element, \<^const>\<open>None\<close> for \<open>-1\<close>.\<close>

fun index_of :: "'a \<Rightarrow> 'a list \<Rightarrow> nat option" where
  "index_of x [] = None"
| "index_of x (y # ys) = (if y = x then Some 0 else map_option Suc (index_of x ys))"

fun last_index_of :: "'a \<Rightarrow> 'a list \<Rightarrow> nat option" where
  "last_index_of x [] = None"
| "last_index_of x (y # ys) =
     (case last_index_of x ys of
        Some i \<Rightarrow> Some (Suc i)
      | None \<Rightarrow> (if y = x then Some 0 else None))"

lemma last_index_of_None [simp]: "last_index_of x xs = None \<longleftrightarrow> x \<notin> set xs"
  by (induction xs) (auto split: option.splits)

lemma last_index_of_append_Cons [text_simps]:
  "x \<notin> set ys \<Longrightarrow> last_index_of x (xs @ x # ys) = Some (length xs)"
  by (induction xs) (auto split: option.splits)

lemma last_index_of_SomeD:
  "last_index_of x xs = Some i \<Longrightarrow>
     i < length xs \<and> xs ! i = x \<and> x \<notin> set (drop (Suc i) xs)"
  by (induction xs arbitrary: i) (auto split: option.splits if_splits)

lemma index_of_SomeD: "index_of x xs = Some i \<Longrightarrow> i < length xs \<and> xs ! i = x"
  by (induction xs arbitrary: i) (auto split: if_splits)

lemma index_of_None [simp]: "index_of x xs = None \<longleftrightarrow> x \<notin> set xs"
  by (induction xs) auto

text \<open>\<^verbatim>\<open>split\<close> on a separator of one character: the pieces between the separators.\<close>

fun split_on :: "char \<Rightarrow> string \<Rightarrow> string list" where
  "split_on c [] = [[]]"
| "split_on c (x # xs) =
     (if x = c then [] # split_on c xs
      else (case split_on c xs of
              [] \<Rightarrow> [[x]]
            | piece # rest \<Rightarrow> (x # piece) # rest))"

text \<open>\<^verbatim>\<open>parts.join(c)\<close>.\<close>

fun join :: "string \<Rightarrow> string list \<Rightarrow> string" where
  "join sep [] = []"
| "join sep [x] = x"
| "join sep (x # y # ys) = x @ sep @ join sep (y # ys)"

lemma split_on_not_Nil [simp]: "split_on c s \<noteq> []"
  by (induction s) (auto split: list.splits)

lemma join_split_on [text_simps]: "join [c] (split_on c s) = s"
proof (induction s)
  case (Cons x xs)
  obtain p ps where ps: "split_on c xs = p # ps"
    by (cases "split_on c xs") auto
  with Cons.IH have "join [c] (p # ps) = xs" by simp
  then show ?case by (cases ps) (auto simp: ps)
qed simp

lemma split_on_clean: "c \<notin> set s \<Longrightarrow> split_on c s = [s]"
  by (induction s) auto

lemma split_on_append: "c \<notin> set s \<Longrightarrow> split_on c (s @ c # t) = s # split_on c t"
  by (induction s) auto

lemma split_on_join [text_simps]:
  "xs \<noteq> [] \<Longrightarrow> \<forall>x\<in>set xs. c \<notin> set x \<Longrightarrow> split_on c (join [c] xs) = xs"
  by (induction "[c]" xs rule: join.induct) (auto simp: split_on_clean split_on_append)

lemma split_on_pieces: "p \<in> set (split_on c s) \<Longrightarrow> c \<notin> set p"
proof (induction s arbitrary: p)
  case (Cons x xs)
  then show ?case by (auto split: list.splits if_splits)
qed auto

subsection \<open>Decimal and hexadecimal numerals\<close>

definition digit_char :: "nat \<Rightarrow> char" where
  "digit_char n = char_of (48 + n)"

fun show_nat :: "nat \<Rightarrow> string" where
  "show_nat n = (if n < 10 then [digit_char n] else show_nat (n div 10) @ [digit_char (n mod 10)])"

declare show_nat.simps [simp del]

definition show_int :: "int \<Rightarrow> string" where
  "show_int i = (if i < 0 then CHR ''-'' # show_nat (nat (- i)) else show_nat (nat i))"

definition digit_value :: "char \<Rightarrow> nat" where
  "digit_value c = code c - 48"

text \<open>\<^verbatim>\<open>Number(digits)\<close> on a string of decimal digits.\<close>

definition number_of_digits :: "string \<Rightarrow> nat" where
  "number_of_digits s = foldl (\<lambda>n c. n * 10 + digit_value c) 0 s"

definition is_decimal :: "string \<Rightarrow> bool" where
  "is_decimal s \<longleftrightarrow> s \<noteq> [] \<and> list_all is_digit s"

lemma is_digit_digit_char [simp]: "n < 10 \<Longrightarrow> is_digit (digit_char n)"
  by (simp add: is_digit_def digit_char_def)

lemma digit_value_digit_char [simp]: "n < 10 \<Longrightarrow> digit_value (digit_char n) = n"
  by (simp add: digit_value_def digit_char_def)

lemma number_of_digits_snoc: "number_of_digits (s @ [c]) = number_of_digits s * 10 + digit_value c"
  by (simp add: number_of_digits_def)

lemma number_of_show_nat [text_simps]: "number_of_digits (show_nat n) = n"
proof (induction n rule: show_nat.induct)
  case (1 n)
  show ?case
  proof (cases "n < 10")
    case True
    then show ?thesis
      by (subst show_nat.simps) (simp add: number_of_digits_def)
  next
    case False
    with 1 show ?thesis
      by (subst show_nat.simps) (simp add: number_of_digits_snoc)
  qed
qed

lemma is_decimal_show_nat [text_simps]: "is_decimal (show_nat n)"
proof (induction n rule: show_nat.induct)
  case (1 n)
  then show ?case
    by (subst show_nat.simps) (auto simp: is_decimal_def)
qed

lemma show_nat_not_Nil [simp]: "show_nat n \<noteq> []"
  by (subst show_nat.simps) simp

lemma show_nat_inject [simp]: "show_nat m = show_nat n \<longleftrightarrow> m = n"
  by (metis number_of_show_nat)

lemma is_digit_neq: "is_digit c \<Longrightarrow> \<not> is_digit d \<Longrightarrow> c \<noteq> d"
  by auto

lemma is_decimal_notin: "is_decimal s \<Longrightarrow> \<not> is_digit c \<Longrightarrow> c \<notin> set s"
  by (auto simp: is_decimal_def list_all_iff)

lemma is_lower_hex_notin: "list_all is_lower_hex s \<Longrightarrow> \<not> is_lower_hex c \<Longrightarrow> c \<notin> set s"
  by (auto simp: list_all_iff)

subsection \<open>UTF-8\<close>

text \<open>
  \<^verbatim>\<open>new TextEncoder().encode(text)\<close> on code units below 256: one byte below 128, two from
  there on.
\<close>

definition utf8_char :: "char \<Rightarrow> bytes" where
  "utf8_char c =
     (if code c < 128 then [of_nat (code c)]
      else [192 OR of_nat (code c div 64), 128 OR of_nat (code c mod 64)])"

definition utf8 :: "string \<Rightarrow> bytes" where
  "utf8 s = concat (map utf8_char s)"

lemma utf8_append [text_simps]: "utf8 (s @ t) = utf8 s @ utf8 t"
  by (simp add: utf8_def)

lemma utf8_Nil [simp]: "utf8 [] = []"
  by (simp add: utf8_def)

subsection \<open>Words\<close>

lemma unat_of_nat_small: "n < 2 ^ LENGTH('a::len) \<Longrightarrow> unat (of_nat n :: 'a word) = n"
  by (simp add: unat_of_nat)

lemma xor_word_eq_0_iff: "a XOR b = 0 \<longleftrightarrow> a = b" for a b :: "'a::len word"
  by (metis xor.assoc xor.left_neutral xor.right_neutral xor_self_eq)

lemma utf8_lead:
  "unat (hd (utf8_char c)) = (if code c < 128 then code c else 192 + code c div 64)"
  "code c < 128 \<Longrightarrow> length (utf8_char c) = 1" "128 \<le> code c \<Longrightarrow> length (utf8_char c) = 2"
  "128 \<le> code c \<Longrightarrow> unat (utf8_char c ! 1) = 128 + code c mod 64"
proof -
  have small: "code c < 256" by simp
  have lead: "unat (of_nat (code c) :: 8 word) = code c"
    using small by (simp add: unat_of_nat_small)
  have two: "unat (192 OR of_nat (code c div 64) :: 8 word) = 192 + code c div 64" if "128 \<le> code c"
  proof -
    have "2 \<le> code c div 64" "code c div 64 < 4" using that small by linarith+
    then have "code c div 64 = 2 \<or> code c div 64 = 3" by linarith
    then show ?thesis by auto
  qed
  have rest: "unat (128 OR of_nat (code c mod 64) :: 8 word) = 128 + code c mod 64"
  proof -
    define m where "m = code c mod 64"
    have m: "m < 64" by (simp add: m_def)
    have "\<not> bit (128 AND of_nat m :: 8 word) i" for i
    proof (cases "i = 7")
      case True
      have "\<not> bit m 7" using m by (simp add: bit_iff_odd)
      then have "\<not> bit (of_nat m :: 8 word) 7" by (simp only: bit_of_nat_iff) simp
      then show ?thesis by (simp add: True bit_and_iff)
    next
      case False
      have "(128 :: 8 word) = 2 ^ 7" by simp
      then have "\<not> bit (128 :: 8 word) i" using False by (simp only: bit_exp_iff) simp
      then show ?thesis by (simp only: bit_and_iff simp_thms)
    qed
    then have "128 AND of_nat m = (0 :: 8 word)" by (intro bit_eqI) simp
    then have "(128 OR of_nat m :: 8 word) = of_nat (128 + m)" using disjunctive_add_eq_or [of "128 :: 8 word" "of_nat m"] by simp
    moreover have "unat (of_nat (128 + m) :: 8 word) = 128 + m" using m by (intro unat_of_nat_small) simp
    ultimately show ?thesis by (simp only: m_def)
  qed
  show "unat (hd (utf8_char c)) = (if code c < 128 then code c else 192 + code c div 64)"
    using lead two by (simp add: utf8_char_def)
  show "code c < 128 \<Longrightarrow> length (utf8_char c) = 1" "128 \<le> code c \<Longrightarrow> length (utf8_char c) = 2"
    by (simp_all add: utf8_char_def)
  show "128 \<le> code c \<Longrightarrow> unat (utf8_char c ! 1) = 128 + code c mod 64"
    using rest by (simp add: utf8_char_def)
qed

lemma utf8_char_inject:
  assumes "utf8_char c @ xs = utf8_char d @ ys"
  shows "c = d \<and> xs = ys"
proof -
  have nonempty: "utf8_char e \<noteq> []" for e by (simp add: utf8_char_def)
  have "hd (utf8_char c) = hd (utf8_char d)" using arg_cong [OF assms, of hd] nonempty by simp
  then have lead: "(if code c < 128 then code c else 192 + code c div 64) = (if code d < 128 then code d else 192 + code d div 64)"
    by (metis utf8_lead(1))
  have same: "code c < 128 \<longleftrightarrow> code d < 128" using lead by (auto split: if_splits)
  show ?thesis
  proof (cases "code c < 128")
    case True
    then have "code c = code d" using lead same by simp
    then show ?thesis using assms by simp
  next
    case False
    then have div': "code c div 64 = code d div 64" using lead same by simp
    have len: "length (utf8_char c) = length (utf8_char d)" using utf8_lead(3) False same by simp
    then have eq: "utf8_char c = utf8_char d" using assms by simp
    have "code c mod 64 = code d mod 64"
      using utf8_lead(4) [of c] utf8_lead(4) [of d] eq False same by simp
    then have "code c = code d" using div' by (metis div_mult_mod_eq)
    then show ?thesis using assms by simp
  qed
qed

lemma utf8_inject [simp]: "utf8 s = utf8 t \<longleftrightarrow> s = t"
proof
  show "utf8 s = utf8 t \<Longrightarrow> s = t"
  proof (induction s arbitrary: t)
    case Nil
    then show ?case by (cases t) (simp_all add: utf8_def utf8_char_def split: if_splits)
  next
    case (Cons c s)
    then obtain d t' where t: "t = d # t'" by (cases t) (auto simp: utf8_def utf8_char_def split: if_splits)
    have "utf8_char c @ utf8 s = utf8_char d @ utf8 t'" using Cons.prems by (simp add: utf8_def t)
    then show ?case using utf8_char_inject Cons.IH t by blast
  qed
qed simp

subsection \<open>Lists\<close>

lemma slice_append_left: "slice 0 (length xs) (xs @ ys) = xs"
  by (simp add: slice_def)

lemma drop_length_append [simp]: "drop (length xs) (xs @ ys) = ys"
  by simp

lemma find_SomeD: "find P xs = Some x \<Longrightarrow> x \<in> set xs \<and> P x"
  by (auto simp: find_Some_iff)

lemma find_None_iff_ball: "find P xs = None \<longleftrightarrow> (\<forall>x\<in>set xs. \<not> P x)"
  by (auto simp: find_None_iff)

lemma sort_key_set [simp]: "set (sort_key f xs) = set xs"
  by simp

lemma fold_invariant:
  assumes "P s" and "\<And>x s. x \<in> set xs \<Longrightarrow> P s \<Longrightarrow> P (f x s)"
  shows "P (fold f xs s)"
  using assms by (induction xs arbitrary: s) auto

text \<open>All of the values, when there is one everywhere.\<close>

fun those_of :: "'a option list \<Rightarrow> 'a list option" where
  "those_of [] = Some []"
| "those_of (x # xs) =
     (case x of None \<Rightarrow> None | Some y \<Rightarrow> map_option (\<lambda>ys. y # ys) (those_of xs))"

lemma those_of_map_Some [simp]: "those_of (map (\<lambda>x. Some (f x)) xs) = Some (map f xs)"
  by (induction xs) auto

subsection \<open>Errors as values\<close>

text \<open>The next step of a computation that may have failed already.\<close>

fun and_then :: "'e + 'a \<Rightarrow> ('a \<Rightarrow> 'e + 'b) \<Rightarrow> 'e + 'b" where
  "and_then (Inl e) f = Inl e"
| "and_then (Inr x) f = f x"

lemma and_then_InrE [elim!]:
  assumes "and_then r f = Inr y"
  obtains x where "r = Inr x" "f x = Inr y"
  using assms by (cases r) auto

end
