(* ===== verification/Json.thy ===== *)
theory Json
  imports Prelude Complex_Main
begin

text \<open>
  JSON values as the code sees them after \<^verbatim>\<open>JSON.parse\<close>, and \<^verbatim>\<open>Number(text)\<close>. An object is
  the list of its members in order, each key once. A number is \<open>JNum\<close> when it is whole and
  \<open>JFraction\<close> otherwise, which is the only distinction the code draws
  (\<^verbatim>\<open>Number.isInteger\<close>). The text of a value, \<^verbatim>\<open>JSON.stringify\<close> and
  \<^verbatim>\<open>JSON.parse\<close>, is theory JsonText.
\<close>

datatype json =
    JNull
  | JBool bool
  | JNum int
  | JFraction string
  | JStr string
  | JArr "json list"
  | JObj "(string \<times> json) list"

text \<open>\<^verbatim>\<open>fields[name]\<close>, \<^const>\<open>None\<close> for \<^verbatim>\<open>undefined\<close>.\<close>

definition field :: "(string \<times> json) list \<Rightarrow> string \<Rightarrow> json option" where
  "field fields name = map_of fields name"

text \<open>\<^verbatim>\<open>value === undefined || value === null\<close>.\<close>

definition missing :: "json option \<Rightarrow> bool" where
  "missing v \<longleftrightarrow> v = None \<or> v = Some JNull"

definition nullable :: "('a \<Rightarrow> json) \<Rightarrow> 'a option \<Rightarrow> json" where
  "nullable f v = (case v of None \<Rightarrow> JNull | Some x \<Rightarrow> f x)"

text \<open>Readers of a member that has to be there, with \<^const>\<open>None\<close> for any other shape.\<close>

fun json_string :: "json option \<Rightarrow> string option" where
  "json_string (Some (JStr s)) = Some s"
| "json_string _ = None"

fun json_int :: "json option \<Rightarrow> int option" where
  "json_int (Some (JNum n)) = Some n"
| "json_int _ = None"

fun json_nullable_string :: "json option \<Rightarrow> string option option" where
  "json_nullable_string (Some (JStr s)) = Some (Some s)"
| "json_nullable_string (Some JNull) = Some None"
| "json_nullable_string _ = None"

fun json_nullable_int :: "json option \<Rightarrow> int option option" where
  "json_nullable_int (Some (JNum n)) = Some (Some n)"
| "json_nullable_int (Some JNull) = Some None"
| "json_nullable_int _ = None"

lemma field_Cons [simp]: "field ((k, v) # fs) name = (if k = name then Some v else field fs name)"
  by (auto simp: field_def)

lemma field_Nil [simp]: "field [] name = None"
  by (simp add: field_def)

lemma field_append [simp]:
  "field (fs @ gs) name = (case field fs name of None \<Rightarrow> field gs name | Some v \<Rightarrow> Some v)"
  by (simp add: field_def map_add_def split: option.split)

subsection \<open>Number(text)\<close>

definition is_space :: "char \<Rightarrow> bool" where
  "is_space c \<longleftrightarrow> (9 \<le> code c \<and> code c \<le> 13) \<or> code c = 32 \<or> code c = 160"

definition trim :: "string \<Rightarrow> string" where
  "trim s = rev (dropWhile is_space (rev (dropWhile is_space s)))"

definition signed :: "(string \<Rightarrow> 'a option) \<Rightarrow> ('a \<Rightarrow> 'a) \<Rightarrow> string \<Rightarrow> 'a option" where
  "signed read negate s =
     (case s of
        c # rest \<Rightarrow> (if c = CHR ''-'' then map_option negate (read rest)
                      else if c = CHR ''+'' then read rest else read s)
      | [] \<Rightarrow> read [])"

text \<open>
  A decimal literal \<^verbatim>\<open>12.50e3\<close> is its digits times a power of ten; the result is whole when
  the power is not negative or divides the digits. The arithmetic is exact, where a double
  rounds from \<open>2\<^sup>5\<^sup>3\<close> on.
\<close>

definition scaled :: "int \<Rightarrow> int \<Rightarrow> int option" where
  "scaled m e =
     (if e \<ge> 0 then Some (m * 10 ^ nat e)
      else if m mod 10 ^ nat (- e) = 0 then Some (m div 10 ^ nat (- e)) else None)"

definition decimal_parts :: "string \<Rightarrow> (int \<times> int) option" where
  "decimal_parts s =
     (let mantissa = takeWhile (\<lambda>c. c \<noteq> CHR ''e'' \<and> c \<noteq> CHR ''E'') s;
          after = drop (length mantissa) s;
          whole = takeWhile is_digit mantissa;
          rest = drop (length whole) mantissa;
          frac = (case rest of [] \<Rightarrow> Some [] | c # ds \<Rightarrow> (if c = CHR ''.'' \<and> list_all is_digit ds then Some ds else None));
          power = (case after of [] \<Rightarrow> Some 0
                   | _ # ds \<Rightarrow> signed (\<lambda>t. if is_decimal t then Some (int (number_of_digits t)) else None) uminus ds)
      in case (frac, power) of
           (Some ds, Some e) \<Rightarrow>
             (if whole @ ds = [] then None
              else Some (int (number_of_digits (whole @ ds)), e - int (length ds)))
         | _ \<Rightarrow> None)"

definition decimal_literal :: "string \<Rightarrow> int option" where
  "decimal_literal s = Option.bind (decimal_parts s) (\<lambda>(m, e). scaled m e)"

definition decimal_value :: "string \<Rightarrow> rat option" where
  "decimal_value s =
     map_option (\<lambda>(m, e). if e \<ge> 0 then of_int m * 10 ^ nat e else of_int m / 10 ^ nat (- e)) (decimal_parts s)"

definition radix_literal :: "nat \<Rightarrow> (char \<Rightarrow> nat option) \<Rightarrow> string \<Rightarrow> int option" where
  "radix_literal base value digits =
     (case those_of (map value digits) of
        None \<Rightarrow> None
      | Some vs \<Rightarrow> (if vs = [] then None else Some (int (foldl (\<lambda>n v. n * base + v) 0 vs))))"

definition digit_below :: "nat \<Rightarrow> char \<Rightarrow> nat option" where
  "digit_below base c =
     (let v = (if is_digit c then code c - 48
               else if 97 \<le> code c \<and> code c \<le> 102 then code c - 87
               else if 65 \<le> code c \<and> code c \<le> 70 then code c - 55 else base)
      in if v < base then Some v else None)"

text \<open>\<^verbatim>\<open>Number(text)\<close> where the result is whole, \<^const>\<open>None\<close> for a fraction, an infinity or \<^verbatim>\<open>NaN\<close>.\<close>

definition js_whole :: "string \<Rightarrow> int option" where
  "js_whole text =
     (let s = trim text; mark = lower (take 2 s)
      in if s = [] then Some 0
         else if mark = ''0x'' then radix_literal 16 (digit_below 16) (drop 2 s)
         else if mark = ''0o'' then radix_literal 8 (digit_below 8) (drop 2 s)
         else if mark = ''0b'' then radix_literal 2 (digit_below 2) (drop 2 s)
         else signed decimal_literal uminus s)"

text \<open>\<^verbatim>\<open>Number(text)\<close> with its fractions; an infinity reads as \<^const>\<open>None\<close>, like \<^verbatim>\<open>NaN\<close>.\<close>

definition js_number :: "string \<Rightarrow> rat option" where
  "js_number s =
     (case js_whole s of
        Some n \<Rightarrow> Some (of_int n)
      | None \<Rightarrow> signed decimal_value uminus (trim s))"

text \<open>\<^verbatim>\<open>Number(value)\<close>, as a comparison with a number converts its operand.\<close>

fun number_of_json :: "json \<Rightarrow> rat option" where
  "number_of_json JNull = Some 0"
| "number_of_json (JBool b) = Some (if b then 1 else 0)"
| "number_of_json (JNum n) = Some (of_int n)"
| "number_of_json (JFraction t) = js_number t"
| "number_of_json (JStr s) = js_number s"
| "number_of_json (JArr []) = Some 0"
| "number_of_json (JArr [v]) =
     (case v of JBool _ \<Rightarrow> None | _ \<Rightarrow> number_of_json v)"
| "number_of_json _ = None"

text \<open>\<^verbatim>\<open>!value\<close>.\<close>

fun falsy :: "json option \<Rightarrow> bool" where
  "falsy None \<longleftrightarrow> True"
| "falsy (Some JNull) \<longleftrightarrow> True"
| "falsy (Some (JBool b)) \<longleftrightarrow> \<not> b"
| "falsy (Some (JNum n)) \<longleftrightarrow> n = 0"
| "falsy (Some (JStr s)) \<longleftrightarrow> s = []"
| "falsy (Some _) \<longleftrightarrow> False"

text \<open>\<^verbatim>\<open>String(value)\<close>, with a fraction in the text it came in.\<close>

fun spelled :: "json \<Rightarrow> string" where
  "spelled JNull = ''null''"
| "spelled (JBool b) = (if b then ''true'' else ''false'')"
| "spelled (JNum n) = show_int n"
| "spelled (JFraction t) = t"
| "spelled (JStr s) = s"
| "spelled (JArr vs) = join '','' (map (\<lambda>v. if v = JNull then [] else spelled v) vs)"
| "spelled (JObj ms) = ''[object Object]''"

lemma takeWhile_all: "list_all P s \<Longrightarrow> takeWhile P s = s"
  by (induction s) auto

lemma is_digit_not_space: "is_digit c \<Longrightarrow> \<not> is_space c"
  by (auto simp: is_digit_def is_space_def)

lemma trim_digits: "list_all is_digit s \<Longrightarrow> trim s = s"
proof -
  have "dropWhile is_space t = t" if "list_all is_digit t" for t
    using that by (cases t) (auto dest: is_digit_not_space)
  then show "list_all is_digit s \<Longrightarrow> trim s = s" by (simp add: trim_def list_all_rev)
qed

lemma decimal_literal_digits:
  assumes "is_decimal s"
  shows "decimal_literal s = Some (int (number_of_digits s))"
proof -
  have not_e: "is_digit c \<Longrightarrow> c \<noteq> CHR ''e'' \<and> c \<noteq> CHR ''E''" for c
    by (auto simp: is_digit_def code_def)
  then have no_exp: "takeWhile (\<lambda>c. c \<noteq> CHR ''e'' \<and> c \<noteq> CHR ''E'') s = s"
    using assms by (intro takeWhile_all) (auto simp: is_decimal_def list_all_iff)
  have all: "takeWhile is_digit s = s"
    using assms by (intro takeWhile_all) (simp add: is_decimal_def)
  have "s \<noteq> []" using assms by (simp add: is_decimal_def)
  then show ?thesis
    unfolding decimal_literal_def decimal_parts_def Let_def no_exp all by (simp add: scaled_def)
qed

lemma js_whole_digits:
  assumes "is_decimal s"
  shows "js_whole s = Some (int (number_of_digits s))"
proof -
  have digits: "list_all is_digit s" "s \<noteq> []" using assms by (simp_all add: is_decimal_def)
  have "lower (take 2 s) = take 2 s"
    using digits by (intro lower_lower_hex) (auto simp: list_all_iff dest: in_set_takeD)
  moreover have "take 2 s \<noteq> ''0x'' \<and> take 2 s \<noteq> ''0o'' \<and> take 2 s \<noteq> ''0b''"
    using digits by (cases s; cases "tl s") (auto simp: is_digit_def code_def)
  moreover have "signed decimal_literal uminus s = decimal_literal s"
    using digits by (cases s) (auto simp: signed_def is_digit_def code_def)
  ultimately show ?thesis
    using digits assms by (simp add: js_whole_def trim_digits decimal_literal_digits Let_def)
qed

end
