(* ===== verification/JsonText.thy ===== *)
theory JsonText
  imports Json
begin

text \<open>
  \<^verbatim>\<open>JSON.stringify\<close> and \<^verbatim>\<open>JSON.parse\<close> on the values of theory Json, and their round trip. The
  parser is recursive descent with fuel; the length of the text is always enough
  (\<open>parse_print\<close>). Escapes \<^verbatim>\<open>\uXXXX\<close> above code unit 255 are outside the model's strings and
  read as an error, and an object keeps its members in the order written (JavaScript moves
  keys that look like array indexes to the front; the program never uses such keys).
\<close>

subsection \<open>JSON.stringify\<close>

definition escape_char :: "char \<Rightarrow> string" where
  "escape_char c =
     (if code c = 34 then [char_of (92::nat), char_of (34::nat)]
      else if code c = 92 then [char_of (92::nat), char_of (92::nat)]
      else if code c = 8 then [char_of (92::nat), CHR ''b'']
      else if code c = 12 then [char_of (92::nat), CHR ''f'']
      else if code c = 10 then [char_of (92::nat), CHR ''n'']
      else if code c = 13 then [char_of (92::nat), CHR ''r'']
      else if code c = 9 then [char_of (92::nat), CHR ''t'']
      else if code c < 32 then
        [char_of (92::nat), CHR ''u'', CHR ''0'', CHR ''0'',
         (if code c div 16 = 0 then CHR ''0'' else CHR ''1''),
         (if code c mod 16 < 10 then char_of (48 + code c mod 16) else char_of (87 + code c mod 16))]
      else [c])"

definition quote :: "string \<Rightarrow> string" where
  "quote s = CHR ''\"'' # concat (map escape_char s) @ [CHR ''\"'']"

fun stringify :: "json \<Rightarrow> string" where
  "stringify JNull = ''null''"
| "stringify (JBool b) = (if b then ''true'' else ''false'')"
| "stringify (JNum n) = show_int n"
| "stringify (JFraction t) = t"
| "stringify (JStr s) = quote s"
| "stringify (JArr vs) = ''['' @ join '','' (map stringify vs) @ '']''"
| "stringify (JObj fs) = ''{'' @ join '','' (map (\<lambda>(k, v). quote k @ '':'' @ stringify v) fs) @ ''}''"

subsection \<open>JSON.parse\<close>

definition is_json_space :: "char \<Rightarrow> bool" where
  "is_json_space c \<longleftrightarrow> code c = 32 \<or> code c = 9 \<or> code c = 10 \<or> code c = 13"

definition skip_space :: "string \<Rightarrow> string" where
  "skip_space s = dropWhile is_json_space s"

definition simple_escape :: "char \<Rightarrow> char option" where
  "simple_escape c =
     (if code c = 34 \<or> code c = 92 \<or> code c = 47 then Some c
      else if c = CHR ''b'' then Some (char_of (8::nat))
      else if c = CHR ''f'' then Some (char_of (12::nat))
      else if c = CHR ''n'' then Some (char_of (10::nat))
      else if c = CHR ''r'' then Some (char_of (13::nat))
      else if c = CHR ''t'' then Some (char_of (9::nat)) else None)"

definition hex_escape :: "char \<Rightarrow> char \<Rightarrow> char \<Rightarrow> char \<Rightarrow> char option" where
  "hex_escape a b c d =
     (case (digit_below 16 c, digit_below 16 d) of
        (Some x, Some y) \<Rightarrow> (if a = CHR ''0'' \<and> b = CHR ''0'' then Some (char_of (16 * x + y)) else None)
      | _ \<Rightarrow> None)"

fun prepend_char :: "char option \<Rightarrow> (string \<times> string) option \<Rightarrow> (string \<times> string) option" where
  "prepend_char (Some c) (Some (s, rest)) = Some (c # s, rest)"
| "prepend_char _ _ = None"

text \<open>What follows the opening quote, up to the closing one.\<close>

function read_quoted :: "string \<Rightarrow> (string \<times> string) option" where
  "read_quoted s =
     (case s of
        [] \<Rightarrow> None
      | c # r \<Rightarrow>
          if code c = 34 then Some ([], r)
          else if code c < 32 then None
          else if code c = 92 then
            (case r of
               e # r' \<Rightarrow>
                 (if e = CHR ''u'' then
                    (case r' of
                       h1 # h2 # h3 # h4 # r'' \<Rightarrow>
                         prepend_char (hex_escape h1 h2 h3 h4) (read_quoted r'')
                     | _ \<Rightarrow> None)
                  else prepend_char (simple_escape e) (read_quoted r'))
             | [] \<Rightarrow> None)
          else prepend_char (Some c) (read_quoted r))"
  by pat_completeness auto
termination by (relation "measure length") auto

declare read_quoted.simps [simp del]

definition is_number_char :: "char \<Rightarrow> bool" where
  "is_number_char c \<longleftrightarrow> is_digit c \<or> c \<in> {CHR ''-'', CHR ''+'', CHR ''.'', CHR ''e'', CHR ''E''}"

text \<open>The grammar \<^verbatim>\<open>-?(0|[1-9]\d*)(\.\d+)?([eE][+-]?\d+)?\<close>.\<close>

definition exponent_ok :: "string \<Rightarrow> bool" where
  "exponent_ok t =
     (case t of
        [] \<Rightarrow> True
      | c # ds \<Rightarrow> (c = CHR ''e'' \<or> c = CHR ''E'') \<and>
          is_decimal (case ds of [] \<Rightarrow> [] | d # ds' \<Rightarrow> if d = CHR ''-'' \<or> d = CHR ''+'' then ds' else ds))"

definition unsigned_number_ok :: "string \<Rightarrow> bool" where
  "unsigned_number_ok u =
     (let whole = takeWhile is_digit u; rest = dropWhile is_digit u
      in whole \<noteq> [] \<and> (hd whole = CHR ''0'' \<longrightarrow> length whole = 1) \<and>
         (case rest of
            [] \<Rightarrow> True
          | c # r \<Rightarrow>
              if c = CHR ''.'' then takeWhile is_digit r \<noteq> [] \<and> exponent_ok (dropWhile is_digit r)
              else exponent_ok rest))"

definition number_ok :: "string \<Rightarrow> bool" where
  "number_ok t =
     (case t of [] \<Rightarrow> False | c # u \<Rightarrow> if c = CHR ''-'' then unsigned_number_ok u else unsigned_number_ok t)"

definition read_number :: "string \<Rightarrow> (json \<times> string) option" where
  "read_number s =
     (let t = takeWhile is_number_char s; rest = dropWhile is_number_char s
      in if number_ok t
         then Some (case js_whole t of Some n \<Rightarrow> JNum n | None \<Rightarrow> JFraction t, rest)
         else None)"

definition read_literal :: "string \<Rightarrow> json \<Rightarrow> string \<Rightarrow> (json \<times> string) option" where
  "read_literal word v s = (if take (length word) s = word then Some (v, drop (length word) s) else None)"

text \<open>A member written twice keeps its place and takes the later value.\<close>

fun put_member :: "string \<Rightarrow> json \<Rightarrow> (string \<times> json) list \<Rightarrow> (string \<times> json) list" where
  "put_member k v [] = [(k, v)]"
| "put_member k v ((k', v') # fs) = (if k' = k then (k, v) # fs else (k', v') # put_member k v fs)"

definition object_of :: "(string \<times> json) list \<Rightarrow> json" where
  "object_of kvs = JObj (foldl (\<lambda>fs (k, v). put_member k v fs) [] kvs)"

fun read_value :: "nat \<Rightarrow> string \<Rightarrow> (json \<times> string) option"
  and read_elements :: "nat \<Rightarrow> string \<Rightarrow> (json list \<times> string) option"
  and read_members :: "nat \<Rightarrow> string \<Rightarrow> ((string \<times> json) list \<times> string) option" where
  "read_value 0 s = None"
| "read_value (Suc n) s =
     (case skip_space s of
        [] \<Rightarrow> None
      | c # r \<Rightarrow>
          if c = CHR ''\"'' then map_option (\<lambda>(t, rest). (JStr t, rest)) (read_quoted r)
          else if c = CHR ''['' then
            (case skip_space r of
               [] \<Rightarrow> None
             | d # rest \<Rightarrow>
                 if d = CHR '']'' then Some (JArr [], rest)
                 else map_option (\<lambda>(vs, rest). (JArr vs, rest)) (read_elements n r))
          else if c = CHR ''{'' then
            (case skip_space r of
               [] \<Rightarrow> None
             | d # rest \<Rightarrow>
                 if d = CHR ''}'' then Some (JObj [], rest)
                 else map_option (\<lambda>(kvs, rest). (object_of kvs, rest)) (read_members n r))
          else if c = CHR ''n'' then read_literal ''null'' JNull (c # r)
          else if c = CHR ''t'' then read_literal ''true'' (JBool True) (c # r)
          else if c = CHR ''f'' then read_literal ''false'' (JBool False) (c # r)
          else read_number (c # r))"
| "read_elements 0 s = None"
| "read_elements (Suc n) s =
     (case read_value n s of
        None \<Rightarrow> None
      | Some (v, r) \<Rightarrow>
          (case skip_space r of
             [] \<Rightarrow> None
           | c # r' \<Rightarrow>
               if c = CHR '','' then map_option (\<lambda>(vs, rest). (v # vs, rest)) (read_elements n r')
               else if c = CHR '']'' then Some ([v], r') else None))"
| "read_members 0 s = None"
| "read_members (Suc n) s =
     (case skip_space s of
        [] \<Rightarrow> None
      | c # r \<Rightarrow>
          if c \<noteq> CHR ''\"'' then None
          else
            (case read_quoted r of
               None \<Rightarrow> None
             | Some (k, r1) \<Rightarrow>
                 (case skip_space r1 of
                    [] \<Rightarrow> None
                  | d # r2 \<Rightarrow>
                      if d \<noteq> CHR '':'' then None
                      else
                        (case read_value n r2 of
                           None \<Rightarrow> None
                         | Some (v, r3) \<Rightarrow>
                             (case skip_space r3 of
                                [] \<Rightarrow> None
                              | e # r4 \<Rightarrow>
                                  if e = CHR '','' then
                                    map_option (\<lambda>(kvs, rest). ((k, v) # kvs, rest)) (read_members n r4)
                                  else if e = CHR ''}'' then Some ([(k, v)], r4) else None)))))"

definition parse_json :: "string \<Rightarrow> json option" where
  "parse_json s =
     (case read_value (length s) s of
        Some (v, rest) \<Rightarrow> (if skip_space rest = [] then Some v else None)
      | None \<Rightarrow> None)"

subsection \<open>Strings\<close>

lemma read_quoted_Cons:
  "code c \<noteq> 34 \<Longrightarrow> code c \<noteq> 92 \<Longrightarrow> 32 \<le> code c \<Longrightarrow>
     read_quoted (c # r) = prepend_char (Some c) (read_quoted r)"
  by (subst read_quoted.simps) simp

lemma read_quoted_close [simp]: "read_quoted (CHR ''\"'' # r) = Some ([], r)"
  by (subst read_quoted.simps) (simp add: code_def)

lemma read_quoted_escape:
  "e \<noteq> CHR ''u'' \<Longrightarrow>
     read_quoted (char_of (92::nat) # e # r) = prepend_char (simple_escape e) (read_quoted r)"
  by (subst read_quoted.simps) simp

lemma read_quoted_hex:
  "read_quoted (char_of (92::nat) # CHR ''u'' # h1 # h2 # h3 # h4 # r) =
     prepend_char (hex_escape h1 h2 h3 h4) (read_quoted r)"
  by (subst read_quoted.simps) simp

lemma code_eq: "n < 256 \<Longrightarrow> code c = n \<longleftrightarrow> c = char_of n"
  by (metis char_of_code code_char_of)

lemma char_eq_code: "c = d \<longleftrightarrow> code c = code d"
  by simp

lemma code_of_letters:
  "code (CHR ''b'') = 98" "code (CHR ''f'') = 102" "code (CHR ''n'') = 110" "code (CHR ''r'') = 114"
  "code (CHR ''t'') = 116" "code (CHR ''u'') = 117"
  by (simp_all add: code_def)

lemma hex_escape_control:
  "code c < 32 \<Longrightarrow>
     hex_escape (CHR ''0'') (CHR ''0'') (if code c div 16 = 0 then CHR ''0'' else CHR ''1'')
       (if code c mod 16 < 10 then char_of (48 + code c mod 16) else char_of (87 + code c mod 16)) = Some c"
proof -
  assume c: "code c < 32"
  have lo: "digit_below 16 (if code c mod 16 < 10 then char_of (48 + code c mod 16)
      else char_of (87 + code c mod 16)) = Some (code c mod 16)"
    by (auto simp: digit_below_def is_digit_def Let_def)
  have hi: "digit_below 16 (if code c div 16 = 0 then CHR ''0'' else CHR ''1'') = Some (code c div 16)"
  proof (cases "code c div 16 = 0")
    case True then show ?thesis by (simp add: digit_below_def is_digit_def code_def)
  next
    case False
    then have "code c div 16 = 1" using c by linarith
    then show ?thesis by (simp add: digit_below_def is_digit_def code_def)
  qed
  have "16 * (code c div 16) + code c mod 16 = code c" by simp
  then show ?thesis unfolding hex_escape_def lo hi by simp
qed

lemma read_quoted_escape_char:
  "read_quoted (escape_char c @ r) = prepend_char (Some c) (read_quoted r)"
proof -
  consider "code c \<in> {34, 92, 8, 12, 10, 13, 9}" | "code c \<notin> {34, 92, 8, 12, 10, 13, 9}" "code c < 32"
    | "code c \<notin> {34, 92, 8, 12, 10, 13, 9}" "32 \<le> code c" by linarith
  then show ?thesis
  proof cases
    case 1
    then consider "c = char_of (34::nat)" | "c = char_of (92::nat)" | "c = char_of (8::nat)"
      | "c = char_of (12::nat)" | "c = char_of (10::nat)" | "c = char_of (13::nat)" | "c = char_of (9::nat)"
      by (auto simp: code_eq simp del: code_inject)
    then show ?thesis
      by cases (hypsubst, simp add: escape_char_def simple_escape_def read_quoted_escape char_eq_code
          code_of_letters del: code_inject)+
  next
    case 2
    then have "escape_char c = [char_of (92::nat), CHR ''u'', CHR ''0'', CHR ''0'',
         (if code c div 16 = 0 then CHR ''0'' else CHR ''1''),
         (if code c mod 16 < 10 then char_of (48 + code c mod 16) else char_of (87 + code c mod 16))]"
      by (simp add: escape_char_def)
    then show ?thesis by (simp only: append.simps read_quoted_hex hex_escape_control [OF 2(2)])
  next
    case 3
    then show ?thesis by (simp add: escape_char_def read_quoted_Cons)
  qed
qed

lemma read_quoted_quote: "read_quoted (tl (quote s) @ r) = Some (s, r)"
proof -
  have "read_quoted (concat (map escape_char s) @ CHR ''\"'' # r) = Some (s, r)"
    by (induction s) (simp_all add: read_quoted_escape_char)
  then show ?thesis by (simp add: quote_def)
qed

lemma read_quoted_quote' [simp]: "read_quoted (concat (map escape_char s) @ CHR ''\"'' # r) = Some (s, r)"
  using read_quoted_quote [of s r] by (simp add: quote_def)

subsection \<open>Numbers\<close>

lemma hd_show_nat: "hd (show_nat n) = CHR ''0'' \<Longrightarrow> n = 0"
proof (induction n rule: show_nat.induct)
  case (1 n)
  show ?case
  proof (cases "n < 10")
    case True
    then have "show_nat n = [digit_char n]" by (subst show_nat.simps) simp
    with 1(2) have "code (digit_char n) = 48" by (simp add: code_def)
    then have "48 + n = 48" using True by (simp add: digit_char_def)
    then show ?thesis by simp
  next
    case False
    then have "show_nat n = show_nat (n div 10) @ [digit_char (n mod 10)]"
      by (subst show_nat.simps) simp
    with 1 False have "n div 10 = 0" by simp
    with False show ?thesis by simp
  qed
qed

lemma list_all_takeWhile: "list_all P xs \<Longrightarrow> takeWhile P xs = xs \<and> dropWhile P xs = []"
  by (induction xs) auto

lemma is_digit_number_char: "is_digit c \<Longrightarrow> is_number_char c"
  by (simp add: is_number_char_def)

lemma show_nat_digits [simp]: "list_all is_digit (show_nat n)"
  using is_decimal_show_nat [of n] by (simp add: is_decimal_def)

lemma show_nat_one: "hd (show_nat n) = CHR ''0'' \<Longrightarrow> length (show_nat n) = 1"
  using hd_show_nat [of n] by (subst show_nat.simps) simp

lemma unsigned_number_ok_show_nat: "unsigned_number_ok (show_nat n)"
proof -
  have all: "takeWhile is_digit (show_nat n) = show_nat n" "dropWhile is_digit (show_nat n) = []"
    using list_all_takeWhile [OF show_nat_digits [of n]] by blast+
  show ?thesis unfolding unsigned_number_ok_def Let_def all using show_nat_one [of n] by simp
qed

lemma number_ok_show_int: "number_ok (show_int n)"
proof (cases "n < 0")
  case True
  then show ?thesis by (simp add: number_ok_def show_int_def unsigned_number_ok_show_nat)
next
  case False
  obtain c u where cu: "show_nat (nat n) = c # u" by (cases "show_nat (nat n)") auto
  have "is_digit c" using show_nat_digits [of "nat n"] by (simp add: cu)
  then have "c \<noteq> CHR ''-''" by (auto simp: is_digit_def code_def)
  with False show ?thesis
    using unsigned_number_ok_show_nat [of "nat n"] by (simp add: number_ok_def show_int_def cu)
qed

lemma js_whole_show_int: "js_whole (show_int n) = Some n"
proof (cases "n < 0")
  case False
  then show ?thesis
    by (simp add: show_int_def js_whole_digits is_decimal_show_nat number_of_show_nat)
next
  case True
  define t where "t = show_nat (nat (- n))"
  have t: "is_decimal t" "list_all is_digit t" "t \<noteq> []"
    by (simp_all add: t_def is_decimal_show_nat)
  have minus: "\<not> is_space (CHR ''-'')" by (simp add: is_space_def code_def)
  have "dropWhile is_space (rev t @ [CHR ''-'']) = rev t @ [CHR ''-'']"
  proof -
    obtain u c where u: "t = u @ [c]" using t(3) by (metis rev_exhaust)
    then have "\<not> is_space c" using t(2) by (auto dest: is_digit_not_space)
    with u show ?thesis by simp
  qed
  then have trimmed: "trim (CHR ''-'' # t) = CHR ''-'' # t"
    by (simp add: trim_def minus)
  have "lower (take 2 (CHR ''-'' # t)) = CHR ''-'' # lower (take 1 t)"
    by (simp add: lower_def lower_char_def code_def)
  then have "js_whole (CHR ''-'' # t) = signed decimal_literal uminus (CHR ''-'' # t)"
    unfolding js_whole_def trimmed Let_def by simp
  also have "\<dots> = Some n"
    using t(1) True by (simp add: signed_def decimal_literal_digits t_def number_of_show_nat)
  finally show ?thesis using True by (simp add: show_int_def t_def)
qed

lemma show_int_inject [simp]: "show_int m = show_int n \<longleftrightarrow> m = n"
  by (metis js_whole_show_int option.inject)

definition ends_value :: "string \<Rightarrow> bool" where
  "ends_value rest \<longleftrightarrow> rest = [] \<or> hd rest \<in> {CHR '','', CHR '']'', CHR ''}''}"

lemma ends_value_number: "ends_value rest \<Longrightarrow> takeWhile is_number_char rest = [] \<and> dropWhile is_number_char rest = rest"
  by (cases rest) (auto simp: ends_value_def is_number_char_def is_digit_def code_def)

lemma show_int_number_chars: "list_all is_number_char (show_int n)"
  using show_nat_digits
  by (auto simp: show_int_def is_number_char_def list_all_iff)

lemma read_number_show_int:
  assumes "ends_value rest"
  shows "read_number (show_int n @ rest) = Some (JNum n, rest)"
proof -
  have all: "\<And>c. c \<in> set (show_int n) \<Longrightarrow> is_number_char c"
    using show_int_number_chars by (simp add: list_all_iff)
  have "takeWhile is_number_char (show_int n @ rest) = show_int n"
    and "dropWhile is_number_char (show_int n @ rest) = rest"
    using all ends_value_number [OF assms] by (simp_all add: takeWhile_append2 dropWhile_append2)
  then show ?thesis
    by (simp add: read_number_def number_ok_show_int js_whole_show_int)
qed

subsection \<open>The round trip\<close>

text \<open>Values without a fraction, whose objects have each key once: what the program writes.\<close>

fun json_plain :: "json \<Rightarrow> bool" where
  "json_plain (JFraction _) \<longleftrightarrow> False"
| "json_plain (JArr vs) \<longleftrightarrow> list_all json_plain vs"
| "json_plain (JObj fs) \<longleftrightarrow> list_all (\<lambda>(k, v). json_plain v) fs \<and> distinct (map fst fs)"
| "json_plain _ \<longleftrightarrow> True"

lemma skip_space_Cons [simp]: "\<not> is_json_space c \<Longrightarrow> skip_space (c # s) = c # s"
  by (simp add: skip_space_def)

lemma not_space_punctuation [simp]:
  "\<not> is_json_space (CHR ''\"'')" "\<not> is_json_space (CHR ''['')" "\<not> is_json_space (CHR '']'')"
  "\<not> is_json_space (CHR ''{'')" "\<not> is_json_space (CHR ''}'')" "\<not> is_json_space (CHR '','')"
  "\<not> is_json_space (CHR '':'')" "\<not> is_json_space (CHR ''n'')" "\<not> is_json_space (CHR ''t'')"
  "\<not> is_json_space (CHR ''f'')" "\<not> is_json_space (CHR ''-'')"
  by (simp_all add: is_json_space_def code_def)

lemma digit_head:
  assumes "is_digit c"
  shows "\<not> is_json_space c"
    and "c \<notin> {CHR ''\"'', CHR ''['', CHR '']'', CHR ''{'', CHR ''n'', CHR ''t'', CHR ''f''}"
  using assms by (auto simp: is_json_space_def is_digit_def code_def)

lemma show_int_head:
  obtains c t where "show_int n = c # t" "c = CHR ''-'' \<or> is_digit c"
proof (cases "n < 0")
  case False
  obtain c u where "show_nat (nat n) = c # u" by (cases "show_nat (nat n)") auto
  with False show ?thesis using that show_nat_digits [of "nat n"] by (auto simp: show_int_def)
qed (use that in \<open>auto simp: show_int_def\<close>)

lemma stringify_head:
  assumes "json_plain v"
  shows "\<exists>c t. stringify v = c # t \<and> \<not> is_json_space c \<and> c \<noteq> CHR '']''"
proof (cases v)
  case (JNum n)
  obtain c t where c: "show_int n = c # t" "c = CHR ''-'' \<or> is_digit c" by (rule show_int_head)
  from c(2) have "\<not> is_json_space c \<and> c \<noteq> CHR '']''"
    using digit_head [of c] by auto
  with c(1) JNum show ?thesis by simp
next
  case (JBool b)
  then show ?thesis by (cases b) simp_all
next
  case (JFraction t)
  with assms show ?thesis by simp
qed (simp_all add: quote_def)

definition member :: "string \<times> json \<Rightarrow> string" where
  "member f = quote (fst f) @ CHR '':'' # stringify (snd f)"

lemma stringify_JObj: "stringify (JObj fs) = ''{'' @ join '','' (map member fs) @ ''}''"
proof -
  have "(\<lambda>(k, v). quote k @ '':'' @ stringify v) = member"
    by (rule ext) (simp add: member_def case_prod_beta)
  then show ?thesis by simp
qed

lemma put_member_new: "k \<notin> fst ` set fs \<Longrightarrow> put_member k v fs = fs @ [(k, v)]"
  by (induction fs) auto

lemma object_of_distinct: "distinct (map fst kvs) \<Longrightarrow> object_of kvs = JObj kvs"
proof -
  have "distinct (map fst (acc @ kvs)) \<Longrightarrow> foldl (\<lambda>fs (k, v). put_member k v fs) acc kvs = acc @ kvs" for acc
    by (induction kvs arbitrary: acc) (auto simp: put_member_new)
  then show "distinct (map fst kvs) \<Longrightarrow> object_of kvs = JObj kvs" by (simp add: object_of_def)
qed

definition reads_back :: "json \<Rightarrow> bool" where
  "reads_back v \<longleftrightarrow>
     (\<forall>n rest. length (stringify v) \<le> n \<longrightarrow> ends_value rest \<longrightarrow>
        read_value n (stringify v @ rest) = Some (v, rest))"

lemma ends_value_simps [simp]:
  "ends_value (CHR '','' # r)" "ends_value (CHR '']'' # r)" "ends_value (CHR ''}'' # r)" "ends_value []"
  by (simp_all add: ends_value_def)

lemma read_elements_back:
  assumes "vs \<noteq> []" "\<forall>v\<in>set vs. reads_back v"
    and "Suc (length (join '','' (map stringify vs))) \<le> n"
  shows "read_elements n (join '','' (map stringify vs) @ CHR '']'' # rest) = Some (vs, rest)"
  using assms
proof (induction vs arbitrary: n)
  case (Cons v vs)
  obtain m where m: "n = Suc m" using Cons.prems(3) by (cases n) auto
  show ?case
  proof (cases vs)
    case Nil
    have "read_value m (stringify v @ CHR '']'' # rest) = Some (v, CHR '']'' # rest)"
      using Cons.prems m Nil by (simp add: reads_back_def)
    then show ?thesis by (simp add: Nil m)
  next
    case (Cons w ws)
    have "read_value m (stringify v @ CHR '','' # join '','' (map stringify vs) @ CHR '']'' # rest)
        = Some (v, CHR '','' # join '','' (map stringify vs) @ CHR '']'' # rest)"
      using Cons.prems m Cons by (simp add: reads_back_def)
    moreover have "read_elements m (join '','' (map stringify vs) @ CHR '']'' # rest) = Some (vs, rest)"
      using Cons.IH [of m] Cons.prems m Cons by simp
    ultimately show ?thesis by (simp add: Cons m)
  qed
qed simp

lemma read_members_back:
  assumes "fs \<noteq> []" "\<forall>f\<in>set fs. reads_back (snd f)"
    and "Suc (length (join '','' (map member fs))) \<le> n"
  shows "read_members n (join '','' (map member fs) @ CHR ''}'' # rest) = Some (fs, rest)"
  using assms
proof (induction fs arbitrary: n)
  case (Cons f fs)
  obtain k v where f: "f = (k, v)" by (cases f)
  obtain m where m: "n = Suc m" using Cons.prems(3) by (cases n) auto
  show ?case
  proof (cases fs)
    case Nil
    have "read_value m (stringify v @ CHR ''}'' # rest) = Some (v, CHR ''}'' # rest)"
      using Cons.prems m Nil f by (simp add: reads_back_def member_def)
    then show ?thesis by (simp add: Nil m f quote_def member_def)
  next
    case (Cons g gs)
    define more where "more = join '','' (map member fs)"
    have inner: "join '','' (map member (f # fs)) = member f @ CHR '','' # more"
      by (simp add: more_def Cons)
    have size: "length (member f) + length more < m"
      using Cons.prems(3) unfolding inner m by simp
    then have "length (stringify v) \<le> m" by (simp add: member_def f)
    then have "read_value m (stringify v @ CHR '','' # more @ CHR ''}'' # rest)
        = Some (v, CHR '','' # more @ CHR ''}'' # rest)"
      using Cons.prems(2) f by (simp add: reads_back_def)
    moreover have "read_members m (more @ CHR ''}'' # rest) = Some (fs, rest)"
      unfolding more_def using Cons.IH [of m] Cons.prems Cons size by (simp add: more_def)
    ultimately show ?thesis unfolding inner by (simp add: m f quote_def member_def)
  qed
qed simp

lemma reads_back: "json_plain v \<Longrightarrow> reads_back v"
proof (induction v)
  case (JNum k)
  show ?case unfolding reads_back_def
  proof (intro allI impI)
    fix n rest assume n: "length (stringify (JNum k)) \<le> n" and rest: "ends_value rest"
    obtain c t where c: "show_int k = c # t" "c = CHR ''-'' \<or> is_digit c" by (rule show_int_head)
    obtain m where m: "n = Suc m" using n c by (cases n) auto
    have "read_number (c # t @ rest) = Some (JNum k, rest)"
      using read_number_show_int [OF rest, of k] c(1) by simp
    then show "read_value n (stringify (JNum k) @ rest) = Some (JNum k, rest)"
      using c digit_head [of c] by (auto simp: m)
  qed
next
  case (JArr vs)
  show ?case unfolding reads_back_def
  proof (intro allI impI)
    fix n rest assume n: "length (stringify (JArr vs)) \<le> n" and rest: "ends_value rest"
    obtain m where m: "n = Suc m" using n by (cases n) auto
    define inner where "inner = join '','' (map stringify vs)"
    have "\<forall>v\<in>set vs. reads_back v" using JArr by (auto simp: list_all_iff)
    then have elements: "vs \<noteq> [] \<Longrightarrow> read_elements m (inner @ CHR '']'' # rest) = Some (vs, rest)"
      unfolding inner_def using n m by (intro read_elements_back) auto
    show "read_value n (stringify (JArr vs) @ rest) = Some (JArr vs, rest)"
    proof (cases vs)
      case (Cons v ws)
      obtain c t where c: "stringify v = c # t" "\<not> is_json_space c" "c \<noteq> CHR '']''"
        using JArr.prems Cons stringify_head [of v] by auto
      then obtain t' where t': "inner = c # t'"
        using Cons by (cases ws) (auto simp: inner_def)
      have "stringify (JArr vs) @ rest = CHR ''['' # c # t' @ CHR '']'' # rest"
        using t' by (simp add: inner_def)
      then show ?thesis using elements c Cons by (simp add: m t')
    qed (simp add: m)
  qed
next
  case (JObj fs)
  show ?case unfolding reads_back_def
  proof (intro allI impI)
    fix n rest assume n: "length (stringify (JObj fs)) \<le> n" and rest: "ends_value rest"
    obtain m where m: "n = Suc m" using n by (cases n) auto
    define inner where "inner = join '','' (map member fs)"
    have whole: "stringify (JObj fs) = CHR ''{'' # inner @ ''}''" by (simp only: stringify_JObj inner_def append.simps)
    have "\<forall>f\<in>set fs. reads_back (snd f)" using JObj by (fastforce simp: list_all_iff)
    then have members: "fs \<noteq> [] \<Longrightarrow> read_members m (inner @ CHR ''}'' # rest) = Some (fs, rest)"
      unfolding inner_def using n m whole by (intro read_members_back) (auto simp: inner_def)
    show "read_value n (stringify (JObj fs) @ rest) = Some (JObj fs, rest)"
    proof (cases fs)
      case (Cons f gs)
      obtain t' where t': "inner = CHR ''\"'' # t'"
        using Cons by (cases gs) (auto simp: inner_def quote_def member_def)
      show ?thesis
        unfolding whole using members JObj.prems Cons by (simp add: m t' object_of_distinct)
    qed (simp add: m)
  qed
next
  case (JStr s)
  show ?case unfolding reads_back_def
  proof (intro allI impI)
    fix n rest assume n: "length (stringify (JStr s)) \<le> n"
    then obtain m where "n = Suc m" by (cases n) (auto simp: quote_def)
    then show "read_value n (stringify (JStr s) @ rest) = Some (JStr s, rest)"
      by (simp add: quote_def)
  qed
next
  case (JBool b)
  show ?case unfolding reads_back_def
  proof (intro allI impI)
    fix n rest assume n: "length (stringify (JBool b)) \<le> n"
    then obtain m where "n = Suc m" by (cases n) (auto split: if_splits)
    then show "read_value n (stringify (JBool b) @ rest) = Some (JBool b, rest)"
      by (simp add: read_literal_def)
  qed
next
  case JNull
  show ?case unfolding reads_back_def
  proof (intro allI impI)
    fix n rest assume n: "length (stringify JNull) \<le> n"
    then obtain m where "n = Suc m" by (cases n) auto
    then show "read_value n (stringify JNull @ rest) = Some (JNull, rest)"
      by (simp add: read_literal_def)
  qed
qed simp

lemma skip_space_Nil [simp]: "skip_space [] = []"
  by (simp add: skip_space_def)

lemma parse_stringify:
  assumes "json_plain v"
  shows "parse_json (stringify v) = Some v"
proof -
  have "read_value (length (stringify v)) (stringify v @ []) = Some (v, [])"
    using reads_back [OF assms] by (simp only: reads_back_def order_refl ends_value_simps simp_thms)
  then show ?thesis by (simp add: parse_json_def)
qed

declare stringify.simps [simp del]

lemma stringify_inject: "json_plain v \<Longrightarrow> json_plain w \<Longrightarrow> stringify v = stringify w \<longleftrightarrow> v = w"
  by (metis parse_stringify option.inject)

end
