(* ===== verification/Payment.thy ===== *)
theory Payment
  imports JsonText "HOL-Library.Monad_Syntax"
begin

text \<open>
  \<^verbatim>\<open>src/payment.ts\<close>, the JSON text of a payment as the ledger stores it, and the timestamps of
  the wire. A payment is what it shows to the world (\<open>public_payment\<close>) extended by the webhooks
  it owes a delivery to. The lemmas show that a stored record is read back as it was written
  and that what is shown carries no webhook.
\<close>

datatype status = Pending | Paid | Expired

record public_payment =
  pay_id :: string
  lnAddress :: "string option"
  amountMsat :: "int option"
  pay_status :: status
  paymentHash :: string
  bolt11 :: "string option"
  preimage :: "string option"
  expiresAt :: int
  createdAt :: int
  verifyUrl :: string
  trigger :: "string option"
  replay :: int
  sealed :: "string option"
  caller :: "string option"

record payment = public_payment +
  webhooks :: "string list"

text \<open>A webhook is an object with one member, its URL. The model keeps the URL.\<close>

type_synonym webhook = string

record delivery =
  owed_origin :: string
  owed_seq :: int
  owed_id :: string
  owed_url :: string
  owed_body :: string

definition withoutSecrets :: "payment \<Rightarrow> public_payment" where
  "withoutSecrets p = public_payment.truncate p"

definition asPayment :: "public_payment \<Rightarrow> webhook list \<Rightarrow> payment" where
  "asPayment p hooks = public_payment.extend p \<lparr>webhooks = hooks\<rparr>"

subsection \<open>The stored record\<close>

fun status_text :: "status \<Rightarrow> string" where
  "status_text Pending = ''pending''"
| "status_text Paid = ''paid''"
| "status_text Expired = ''expired''"

definition status_of :: "string \<Rightarrow> status option" where
  "status_of s =
     (if s = ''pending'' then Some Pending else if s = ''paid'' then Some Paid
      else if s = ''expired'' then Some Expired else None)"

text \<open>The members in the order \<^verbatim>\<open>mint\<close>, \<^verbatim>\<open>watchOnly\<close> and \<^verbatim>\<open>insert\<close> build the object in: the id comes last.\<close>

definition described :: "'a public_payment_scheme \<Rightarrow> (string \<times> json) list" where
  "described p =
     [(''lnAddress'', nullable JStr (lnAddress p)),
      (''amountMsat'', nullable JNum (amountMsat p)),
      (''status'', JStr (status_text (pay_status p))),
      (''paymentHash'', JStr (paymentHash p)),
      (''bolt11'', nullable JStr (bolt11 p)),
      (''preimage'', nullable JStr (preimage p)),
      (''expiresAt'', JNum (expiresAt p)),
      (''createdAt'', JNum (createdAt p)),
      (''verifyUrl'', JStr (verifyUrl p)),
      (''trigger'', nullable JStr (trigger p)),
      (''replay'', JNum (replay p)),
      (''sealed'', nullable JStr (sealed p)),
      (''caller'', nullable JStr (caller p))]"

definition public_members :: "public_payment \<Rightarrow> (string \<times> json) list" where
  "public_members p = described p @ [(''id'', JStr (pay_id p))]"

definition payment_members :: "payment \<Rightarrow> (string \<times> json) list" where
  "payment_members p =
     described p @ [(''webhooks'', JArr (map (\<lambda>u. JObj [(''url'', JStr u)]) (webhooks p))), (''id'', JStr (pay_id p))]"

definition public_text :: "public_payment \<Rightarrow> string" where
  "public_text p = stringify (JObj (public_members p))"

definition payment_text :: "payment \<Rightarrow> string" where
  "payment_text p = stringify (JObj (payment_members p))"

text \<open>
  \<^verbatim>\<open>asStored\<close>: \<^verbatim>\<open>JSON.parse\<close>, with \<^verbatim>\<open>caller ?? null\<close> and \<^verbatim>\<open>replay ?? 0\<close> for records written
  before those members existed. A text of any other shape is \<^const>\<open>None\<close>.
\<close>

definition public_of :: "(string \<times> json) list \<Rightarrow> public_payment option" where
  "public_of f = do {
     i \<leftarrow> json_string (field f ''id'');
     address \<leftarrow> json_nullable_string (field f ''lnAddress'');
     amount \<leftarrow> json_nullable_int (field f ''amountMsat'');
     st \<leftarrow> Option.bind (json_string (field f ''status'')) status_of;
     hash \<leftarrow> json_string (field f ''paymentHash'');
     invoice \<leftarrow> json_nullable_string (field f ''bolt11'');
     proof_of \<leftarrow> json_nullable_string (field f ''preimage'');
     until \<leftarrow> json_int (field f ''expiresAt'');
     since \<leftarrow> json_int (field f ''createdAt'');
     url \<leftarrow> json_string (field f ''verifyUrl'');
     trig \<leftarrow> json_nullable_string (field f ''trigger'');
     rep \<leftarrow> (if missing (field f ''replay'') then Some 0 else json_int (field f ''replay''));
     blob \<leftarrow> json_nullable_string (field f ''sealed'');
     who \<leftarrow> (if missing (field f ''caller'') then Some None else json_nullable_string (field f ''caller''));
     Some \<lparr>pay_id = i, lnAddress = address, amountMsat = amount, pay_status = st, paymentHash = hash,
       bolt11 = invoice, preimage = proof_of, expiresAt = until, createdAt = since, verifyUrl = url,
       trigger = trig, replay = rep, sealed = blob, caller = who\<rparr>
   }"

fun hook_of :: "json \<Rightarrow> string option" where
  "hook_of (JObj f) = json_string (field f ''url'')"
| "hook_of _ = None"

fun hooks_of :: "json option \<Rightarrow> string list option" where
  "hooks_of (Some (JArr vs)) = those_of (map hook_of vs)"
| "hooks_of _ = None"

fun stored_members :: "json option \<Rightarrow> (string \<times> json) list option" where
  "stored_members (Some (JObj f)) = Some f"
| "stored_members _ = None"

definition asStoredPublic :: "string \<Rightarrow> public_payment option" where
  "asStoredPublic record_text = Option.bind (stored_members (parse_json record_text)) public_of"

definition asStored :: "string \<Rightarrow> payment option" where
  "asStored record_text = do {
     f \<leftarrow> stored_members (parse_json record_text);
     p \<leftarrow> public_of f;
     hooks \<leftarrow> hooks_of (field f ''webhooks'');
     Some (asPayment p hooks)
   }"

lemma status_of_text [simp]: "status_of (status_text s) = Some s"
  by (cases s) (simp_all add: status_of_def)

lemma json_nullable_string_nullable [simp]: "json_nullable_string (Some (nullable JStr v)) = Some v"
  by (cases v) (simp_all add: nullable_def)

lemma json_nullable_int_nullable [simp]: "json_nullable_int (Some (nullable JNum v)) = Some v"
  by (cases v) (simp_all add: nullable_def)

lemma missing_nullable [simp]: "missing (Some (nullable JStr v)) \<longleftrightarrow> v = None"
  by (cases v) (simp_all add: nullable_def missing_def)

lemma missing_simps [simp]: "missing None" "\<not> missing (Some (JNum n))" "\<not> missing (Some (JStr s))"
  by (simp_all add: missing_def)

lemma json_plain_nullable [simp]: "json_plain (nullable JStr v)" "json_plain (nullable JNum w)"
  by (cases v; simp add: nullable_def) (cases w; simp add: nullable_def)

lemma json_plain_public: "json_plain (JObj (public_members p))"
  by (simp add: public_members_def described_def)

lemma json_plain_payment: "json_plain (JObj (payment_members p))"
  by (simp add: payment_members_def described_def list_all_iff)

lemma public_of_public [simp]: "public_of (public_members p) = Some p"
  by (simp add: public_of_def public_members_def described_def)

lemma public_of_payment [simp]: "public_of (payment_members p) = Some (public_payment.truncate p)"
  by (simp add: public_of_def payment_members_def described_def public_payment.defs)

lemma asStoredPublic_text [simp]: "asStoredPublic (public_text p) = Some p"
  by (simp add: asStoredPublic_def public_text_def parse_stringify [OF json_plain_public])

lemma hooks_of_map [simp]: "those_of (map (hook_of \<circ> (\<lambda>u. JObj [(''url'', JStr u)])) us) = Some us"
  by (induction us) auto

lemma hooks_of_payment [simp]: "hooks_of (field (payment_members p) ''webhooks'') = Some (webhooks p)"
  by (simp add: payment_members_def described_def)

lemma asPayment_truncate [simp]: "asPayment (public_payment.truncate p) (webhooks p) = p"
  by (simp add: asPayment_def public_payment.defs)

lemma asStored_text [simp]: "asStored (payment_text p) = Some p"
  by (simp add: asStored_def payment_text_def parse_stringify [OF json_plain_payment])

lemma withoutSecrets_simps [simp]:
  "pay_id (withoutSecrets p) = pay_id p" "paymentHash (withoutSecrets p) = paymentHash p"
  "preimage (withoutSecrets p) = preimage p" "caller (withoutSecrets p) = caller p"
  "pay_status (withoutSecrets p) = pay_status p" "trigger (withoutSecrets p) = trigger p"
  "replay (withoutSecrets p) = replay p" "createdAt (withoutSecrets p) = createdAt p"
  "expiresAt (withoutSecrets p) = expiresAt p" "sealed (withoutSecrets p) = sealed p"
  "verifyUrl (withoutSecrets p) = verifyUrl p"
  by (simp_all add: withoutSecrets_def public_payment.defs)

lemma asPayment_simps [simp]:
  "webhooks (asPayment p hooks) = hooks" "withoutSecrets (asPayment p hooks) = p"
  "pay_id (asPayment p hooks) = pay_id p" "pay_status (asPayment p hooks) = pay_status p"
  "caller (asPayment p hooks) = caller p" "preimage (asPayment p hooks) = preimage p"
  "paymentHash (asPayment p hooks) = paymentHash p"
  by (simp_all add: asPayment_def withoutSecrets_def public_payment.defs)

subsection \<open>Timestamps\<close>

text \<open>
  \<^verbatim>\<open>new Date(unixSeconds * 1000).toISOString()\<close>: the proleptic Gregorian date of a day count,
  computed over the eras of 400 years that start on 1 March.
\<close>

definition civil_of_days :: "int \<Rightarrow> int \<times> int \<times> int" where
  "civil_of_days days =
     (let z = days + 719468;
          era = z div 146097;
          doe = z - era * 146097;
          yoe = (doe - doe div 1460 + doe div 36524 - doe div 146096) div 365;
          doy = doe - (365 * yoe + yoe div 4 - yoe div 100);
          mp = (5 * doy + 2) div 153;
          d = doy - (153 * mp + 2) div 5 + 1;
          m = (if mp < 10 then mp + 3 else mp - 9);
          y = yoe + era * 400 + (if m \<le> 2 then 1 else 0)
      in (y, m, d))"

definition padded :: "nat \<Rightarrow> int \<Rightarrow> string" where
  "padded width n = (let digits = show_int n in replicate (width - length digits) (CHR ''0'') @ digits)"

definition toTimestamp :: "int \<Rightarrow> string" where
  "toTimestamp unixSeconds =
     (case civil_of_days (unixSeconds div 86400) of
        (y, m, d) \<Rightarrow>
          (let s = unixSeconds mod 86400
           in (if 0 \<le> y \<and> y \<le> 9999 then padded 4 y
               else if y < 0 then CHR ''-'' # padded 6 (- y) else CHR ''+'' # padded 6 y)
              @ ''-'' @ padded 2 m @ ''-'' @ padded 2 d
              @ ''T'' @ padded 2 (s div 3600) @ '':'' @ padded 2 (s div 60 mod 60) @ '':'' @ padded 2 (s mod 60)
              @ ''.000Z''))"

end
