(* ===== verification/Bytes.thy ===== *)
theory Bytes
  imports Prelude
begin

text \<open>
  \<^verbatim>\<open>core/bytes.ts\<close> and the constant-time comparison of \<^verbatim>\<open>core/hmac.ts\<close>: byte strings to
  lowercase hex and back, and the test that a text is hex at all. The lemmas show that the
  two directions invert each other and that the comparison decides equality.
\<close>

subsection \<open>Hexadecimal digits\<close>

definition hex_digit :: "nat \<Rightarrow> char" where
  "hex_digit n = (if n < 10 then char_of (48 + n) else char_of (87 + n))"

definition hex_value :: "char \<Rightarrow> nat" where
  "hex_value c =
     (if is_digit c then code c - 48
      else if 97 \<le> code c then code c - 87
      else code c - 55)"

lemma hex_digit_is_lower_hex [simp]: "n < 16 \<Longrightarrow> is_lower_hex (hex_digit n)"
  by (auto simp: hex_digit_def is_lower_hex_def is_digit_def)

lemma hex_value_hex_digit [simp]: "n < 16 \<Longrightarrow> hex_value (hex_digit n) = n"
  by (auto simp: hex_digit_def hex_value_def is_digit_def)

lemma hex_value_less [simp]: "is_hex_char c \<Longrightarrow> hex_value c < 16"
  by (auto simp: hex_value_def is_hex_char_def is_lower_hex_def is_digit_def)

lemma code_injectD: "code c = n \<Longrightarrow> c = char_of n"
  by (metis char_of_code)

lemma hex_digit_hex_value [simp]: "is_lower_hex c \<Longrightarrow> hex_digit (hex_value c) = c"
  by (auto simp: hex_digit_def hex_value_def is_lower_hex_def is_digit_def intro: code_injectD[symmetric])

subsection \<open>bytesToHex, hexToBytes, isHex\<close>

text \<open>\<^verbatim>\<open>byte.toString(16).padStart(2, "0")\<close>: two digits, the high one first.\<close>

definition byte_to_hex :: "8 word \<Rightarrow> string" where
  "byte_to_hex b = [hex_digit (unat b div 16), hex_digit (unat b mod 16)]"

definition bytesToHex :: "bytes \<Rightarrow> string" where
  "bytesToHex bs = concat (map byte_to_hex bs)"

text \<open>
  \<^verbatim>\<open>parseInt(pair, 16)\<close> stored into a byte: it reads the longest prefix of hex digits, and
  where there is none its \<^verbatim>\<open>NaN\<close> is stored as 0. A pair that starts with white space, a
  sign or \<^verbatim>\<open>0x\<close> is read as a number by \<^verbatim>\<open>parseInt\<close> too; of two characters that leaves a
  space or a sign before one digit, and both are written out here.
\<close>

definition parse_space :: "char \<Rightarrow> bool" where
  "parse_space c \<longleftrightarrow> (9 \<le> code c \<and> code c \<le> 13) \<or> code c = 32 \<or> code c = 160"

fun parse_byte :: "string \<Rightarrow> 8 word" where
  "parse_byte [a, b] =
     (if is_hex_char a then
        (if is_hex_char b then of_nat (16 * hex_value a + hex_value b) else of_nat (hex_value a))
      else if is_hex_char b \<and> (parse_space a \<or> a = CHR ''+'') then of_nat (hex_value b)
      else if is_hex_char b \<and> a = CHR ''-'' then - of_nat (hex_value b)
      else 0)"
| "parse_byte _ = 0"

fun hexToBytes :: "string \<Rightarrow> bytes" where
  "hexToBytes (a # b # rest) = parse_byte [a, b] # hexToBytes rest"
| "hexToBytes _ = []"

definition isHex :: "string \<Rightarrow> bool" where
  "isHex s \<longleftrightarrow> s \<noteq> [] \<and> list_all is_hex_char s \<and> length s mod 2 = 0"

lemma bytesToHex_simps [simp]:
  "bytesToHex [] = []"
  "bytesToHex (b # bs) = byte_to_hex b @ bytesToHex bs"
  by (simp_all add: bytesToHex_def)

lemma length_bytesToHex [simp]: "length (bytesToHex bs) = 2 * length bs"
  by (induction bs) (auto simp: byte_to_hex_def)

lemma length_hexToBytes [simp]: "length (hexToBytes s) = length s div 2"
  by (induction s rule: hexToBytes.induct) auto

lemma unat_byte_less: "unat (b :: 8 word) < 256"
  using unsigned_less[of b] by simp

lemma parse_byte_to_hex [simp]: "parse_byte (byte_to_hex b) = b"
proof -
  have "unat b div 16 < 16" "unat b mod 16 < 16"
    using unat_byte_less[of b] by simp_all
  then have "is_hex_char (hex_digit (unat b div 16))" "is_hex_char (hex_digit (unat b mod 16))"
    "16 * hex_value (hex_digit (unat b div 16)) + hex_value (hex_digit (unat b mod 16)) = unat b"
    by (auto intro: is_lower_hex_is_hex)
  then show ?thesis by (simp add: byte_to_hex_def)
qed

lemma lower_hex_bytesToHex [text_simps]: "list_all is_lower_hex (bytesToHex bs)"
proof (induction bs)
  case (Cons b bs)
  have "unat b div 16 < 16" using unat_byte_less[of b] by simp
  with Cons show ?case by (simp add: byte_to_hex_def)
qed simp

lemma hexToBytes_bytesToHex [text_simps]: "hexToBytes (bytesToHex bs) = bs"
proof (induction bs)
  case (Cons b bs)
  then show ?case
    using parse_byte_to_hex[of b] by (simp add: byte_to_hex_def)
qed simp

lemma byte_to_hex_parse:
  assumes "is_lower_hex a" "is_lower_hex b"
  shows "byte_to_hex (parse_byte [a, b]) = [a, b]"
proof -
  have v: "hex_value a < 16" "hex_value b < 16"
    using assms by (simp_all add: is_lower_hex_is_hex)
  then have "unat (of_nat (16 * hex_value a + hex_value b) :: 8 word) = 16 * hex_value a + hex_value b"
    by (intro unat_of_nat_small) simp
  with v assms show ?thesis
    by (simp add: byte_to_hex_def is_lower_hex_is_hex)
qed

lemma bytesToHex_hexToBytes [text_simps]:
  "list_all is_lower_hex s \<Longrightarrow> length s mod 2 = 0 \<Longrightarrow> bytesToHex (hexToBytes s) = s"
proof (induction s rule: hexToBytes.induct)
  case (1 a b rest)
  then show ?case by (simp add: byte_to_hex_parse del: parse_byte.simps)
qed auto

lemma parse_byte_lower:
  assumes "is_hex_char a" "is_hex_char b"
  shows "parse_byte [lower_char a, lower_char b] = parse_byte [a, b]"
proof -
  have *: "is_hex_char (lower_char c) \<and> hex_value (lower_char c) = hex_value c" if "is_hex_char c" for c
    using that
    by (auto simp: is_hex_char_def is_lower_hex_def is_digit_def hex_value_def lower_char_def)
  show ?thesis using *[OF assms(1)] *[OF assms(2)] assms by simp
qed

lemma hexToBytes_lower:
  "list_all is_hex_char s \<Longrightarrow> hexToBytes (lower s) = hexToBytes s"
  by (induction s rule: hexToBytes.induct) (auto simp: lower_def parse_byte_lower simp del: parse_byte.simps)

lemma lower_is_lower_hex: "is_hex_char c \<Longrightarrow> is_lower_hex (lower_char c)"
  by (auto simp: is_hex_char_def is_lower_hex_def is_digit_def lower_char_def)

lemma isHex_lower_hex: "isHex s \<Longrightarrow> list_all is_lower_hex (lower s)"
  by (auto simp: isHex_def lower_def list_all_iff lower_is_lower_hex)

lemma lower_fixes [text_simps]: "list_all is_lower_hex s \<Longrightarrow> lower s = s"
  by (induction s) (auto simp: lower_def lower_char_def is_lower_hex_def is_digit_def)

subsection \<open>equalInConstantTime\<close>

text \<open>
  The loop runs over every position whatever it has seen, and folds the differences of the
  code units together.
\<close>

definition differences :: "string \<Rightarrow> string \<Rightarrow> 32 word" where
  "differences one other =
     foldl (\<lambda>difference (a, b). difference OR (of_nat (code a) XOR of_nat (code b))) 0 (zip one other)"

definition equalInConstantTime :: "string \<Rightarrow> string \<Rightarrow> bool" where
  "equalInConstantTime one other \<longleftrightarrow>
     (if length one \<noteq> length other then False else differences one other = 0)"

lemma xor_code_eq_0: "of_nat (code a) XOR of_nat (code b) = (0 :: 32 word) \<longleftrightarrow> a = b"
proof -
  have "(of_nat (code a) :: 32 word) = of_nat (code b) \<longleftrightarrow> code a = code b"
  proof
    assume "(of_nat (code a) :: 32 word) = of_nat (code b)"
    then have "unat (of_nat (code a) :: 32 word) = unat (of_nat (code b) :: 32 word)" by simp
    moreover have "code a < 2 ^ 32" "code b < 2 ^ 32"
      by (rule less_trans [OF code_less], simp)+
    ultimately show "code a = code b" by (simp add: unat_of_nat_small)
  qed simp
  then show ?thesis by (simp add: xor_word_eq_0_iff)
qed

lemma foldl_differences:
  "foldl (\<lambda>d (a, b). d OR (of_nat (code a) XOR of_nat (code b))) (d :: 32 word) ps = 0 \<longleftrightarrow>
     d = 0 \<and> (\<forall>(a, b)\<in>set ps. a = b)"
  by (induction ps arbitrary: d) (auto simp: or_eq_0_iff xor_code_eq_0)

lemma equalInConstantTime_iff [text_simps]: "equalInConstantTime one other \<longleftrightarrow> one = other"
proof -
  have "(\<forall>(a, b)\<in>set (zip one other). a = b) \<longleftrightarrow> one = other" if "length one = length other"
    using that by (induction one other rule: list_induct2) auto
  then show ?thesis
    by (auto simp: equalInConstantTime_def differences_def foldl_differences)
qed

end
