(* ===== verification/Url.thy ===== *)
theory Url
  imports Bytes
begin

text \<open>
  \<^verbatim>\<open>core/url.ts\<close>: which URLs, hosts and addresses the gateway is willing to talk to. The
  platform's URL parser is a parameter (\<open>parse_url\<close>, and \<open>resolve_url\<close> for a reference
  against a base): it gives the fields the code reads, or \<^const>\<open>None\<close> where
  \<^verbatim>\<open>new URL\<close> throws. The lemmas show that the address tests are exactly a list of reserved
  blocks, and that an IPv6 address that carries an IPv4 one is judged by the IPv4 rule.
\<close>

subsection \<open>URLs\<close>

record url =
  url_href :: string
  url_protocol :: string
  url_host :: string
  url_hostname :: string
  url_port :: string
  url_pathname :: string
  url_search :: string
  url_hash :: string
  url_origin :: string

type_synonym url_parser = "string \<Rightarrow> url option"
type_synonym url_resolver = "string \<Rightarrow> string \<Rightarrow> url option"

definition PRIVATE_SUFFIXES :: "string list" where
  "PRIVATE_SUFFIXES =
     [''localhost'', ''local'', ''internal'', ''lan'', ''arpa'', ''test'', ''invalid'']"

definition sameOrigin :: "url_parser \<Rightarrow> string \<Rightarrow> string \<Rightarrow> bool" where
  "sameOrigin parse_url one other =
     (case (parse_url one, parse_url other) of
        (Some a, Some b) \<Rightarrow> url_origin a = url_origin b
      | _ \<Rightarrow> False)"

subsection \<open>IPv4\<close>

text \<open>
  \<^verbatim>\<open>Number(part)\<close> on what the callers pass: decimal digits, or the empty text, which reads
  as 0. Every other text is \<^const>\<open>None\<close>, the code's \<^verbatim>\<open>!Number.isInteger(part)\<close>.
\<close>

definition part_number :: "string \<Rightarrow> nat option" where
  "part_number s =
     (if s = [] then Some 0
      else if list_all is_digit s then Some (number_of_digits s) else None)"

definition ipv4IsGlobal :: "string \<Rightarrow> bool" where
  "ipv4IsGlobal literal =
     (let parts = map part_number (split_on CHR ''.'' literal)
      in if length parts \<noteq> 4 \<or>
            list_ex (\<lambda>part. case part of None \<Rightarrow> True | Some n \<Rightarrow> n > 255) parts
         then False
         else let a = the (parts ! 0); b = the (parts ! 1); c = the (parts ! 2)
              in if a = 0 \<or> a = 10 \<or> a = 127 \<or> a \<ge> 224 then False
                 else if a = 100 \<and> b \<ge> 64 \<and> b < 128 then False
                 else if a = 169 \<and> b = 254 then False
                 else if a = 172 \<and> b \<ge> 16 \<and> b < 32 then False
                 else if a = 192 \<and> (b = 168 \<or> (b = 0 \<and> (c = 0 \<or> c = 2))) then False
                 else if a = 198 \<and> (b = 18 \<or> b = 19 \<or> (b = 51 \<and> c = 100)) then False
                 else if a = 203 \<and> b = 0 \<and> c = 113 then False
                 else True)"

definition dotted :: "nat \<Rightarrow> nat \<Rightarrow> nat \<Rightarrow> nat \<Rightarrow> string" where
  "dotted a b c d = join ''.'' (map show_nat [a, b, c, d])"

subsection \<open>IPv6\<close>

fun show_hex :: "nat \<Rightarrow> string" where
  "show_hex n = (if n < 16 then [hex_digit n] else show_hex (n div 16) @ [hex_digit (n mod 16)])"

declare show_hex.simps [simp del]

definition number_of_hex :: "string \<Rightarrow> nat" where
  "number_of_hex s = foldl (\<lambda>n c. n * 16 + hex_value c) 0 s"

definition is_short_decimal :: "string \<Rightarrow> bool" where
  "is_short_decimal s \<longleftrightarrow> is_decimal s \<and> length s \<le> 3"

text \<open>
  \<^verbatim>\<open>/^(.*:)(\d{1,3}\.\d{1,3}\.\d{1,3}\.\d{1,3})$/\<close>: the dotted part holds no colon, so the
  first grp ends at the last colon.
\<close>

definition withDottedTailAsGroups :: "string \<Rightarrow> string" where
  "withDottedTailAsGroups address =
     (case last_index_of CHR '':'' address of
        None \<Rightarrow> address
      | Some i \<Rightarrow>
          let front = take (Suc i) address; parts = split_on CHR ''.'' (drop (Suc i) address)
          in if length parts = 4 \<and> list_all is_short_decimal parts
                \<and> CHR 0x0A \<notin> set front \<and> CHR 0x0D \<notin> set front
             then let ns = map number_of_digits parts
                  in if list_ex (\<lambda>part. part > 255) ns then front @ ''x''
                     else front @ show_hex (ns ! 0 * 256 + ns ! 1) @ '':''
                                @ show_hex (ns ! 2 * 256 + ns ! 3)
             else address)"

text \<open>\<^verbatim>\<open>split("::")\<close>: the separator is found from the left, so \<^verbatim>\<open>:::\<close> leaves a colon behind.\<close>

fun split_double_colon :: "string \<Rightarrow> string list" where
  "split_double_colon (a # b # rest) =
     (if a = CHR '':'' \<and> b = CHR '':'' then [] # split_double_colon rest
      else (case split_double_colon (b # rest) of
              [] \<Rightarrow> [[a]]
            | piece # others \<Rightarrow> (a # piece) # others))"
| "split_double_colon s = [s]"

definition group_number :: "string \<Rightarrow> nat option" where
  "group_number grp =
     (if grp \<noteq> [] \<and> length grp \<le> 4 \<and> list_all is_lower_hex grp
      then Some (number_of_hex grp) else None)"

definition ipv6Groups :: "string \<Rightarrow> nat option list" where
  "ipv6Groups address =
     (let halves = split_double_colon (withDottedTailAsGroups address);
          head = hd halves;
          tail = (if length halves > 1 then Some (halves ! 1) else None);
          left = filter (\<lambda>grp. grp \<noteq> []) (split_on CHR '':'' head);
          right = filter (\<lambda>grp. grp \<noteq> [])
                    (split_on CHR '':'' (case tail of None \<Rightarrow> [] | Some t \<Rightarrow> t));
          missing = 8 - int (length left) - int (length right)
      in if length halves > 2 \<or> missing < 0 then [None]
         else let gap = (case tail of None \<Rightarrow> [] | Some _ \<Rightarrow> replicate (nat missing) ''0'')
              in map group_number (left @ gap @ right))"

definition embedded :: "nat \<Rightarrow> nat \<Rightarrow> bool" where
  "embedded one other =
     ipv4IsGlobal (dotted (one div 256) (one mod 256) (other div 256) (other mod 256))"

definition zeroBefore :: "nat list \<Rightarrow> nat \<Rightarrow> bool" where
  "zeroBefore groups count = list_all (\<lambda>grp. grp = 0) (take count groups)"

definition groups_global :: "nat list \<Rightarrow> bool" where
  "groups_global groups =
     (let first = groups ! 0; second = groups ! 1; third = groups ! 2; fourth = groups ! 3;
          fifth = groups ! 4; sixth = groups ! 5; high = groups ! 6; low = groups ! 7
      in if zeroBefore groups 5 \<and> sixth = 0xffff then embedded high low
         else if zeroBefore groups 6 \<or> (zeroBefore groups 4 \<and> fifth = 0xffff \<and> sixth = 0) then False
         else if first = 0x64 \<and> second = 0xff9b
              then third = 0 \<and> fourth = 0 \<and> fifth = 0 \<and> sixth = 0 \<and> embedded high low
         else if first = 0x2002 then embedded second third
         else if first = 0x2001 \<and> second = 0 then False
         else if first = 0x100 \<and> second = 0 \<and> third = 0 \<and> fourth = 0 then False
         else if first AND 0xfe00 = 0xfc00 \<or> first AND 0xff00 = 0xff00 then False
         else if first AND 0xffc0 = 0xfe80 \<or> first AND 0xffc0 = 0xfec0 then False
         else True)"

definition ipv6IsGlobal :: "string \<Rightarrow> bool" where
  "ipv6IsGlobal literal =
     (let groups = ipv6Groups (lower literal)
      in if length groups \<noteq> 8 \<or> list_ex (\<lambda>grp. grp = None) groups then False
         else groups_global (map the groups))"

definition publicAddress :: "string \<Rightarrow> bool" where
  "publicAddress literal =
     (if CHR '':'' \<in> set literal then ipv6IsGlobal literal else ipv4IsGlobal literal)"

subsection \<open>Hosts and URLs\<close>

definition without_last_dot :: "string \<Rightarrow> string" where
  "without_last_dot host = (if ends_with ''.'' host then butlast host else host)"

definition hostIsPublic :: "string \<Rightarrow> bool" where
  "hostIsPublic host =
     (if starts_with ''['' host then publicAddress (butlast (tl host))
      else let name = without_last_dot host; labels = split_on CHR ''.'' name
           in if length labels = 4 \<and> list_all is_decimal labels then publicAddress name
              else if length labels < 2 \<or> list_ex (\<lambda>label. label = []) labels then False
              else last labels \<notin> set PRIVATE_SUFFIXES)"

definition publicHttps :: "url_parser \<Rightarrow> string \<Rightarrow> bool" where
  "publicHttps parse_url raw =
     (case parse_url raw of
        None \<Rightarrow> False
      | Some u \<Rightarrow> url_protocol u = ''https:'' \<and> hostIsPublic (lower (url_hostname u)))"

text \<open>\<^verbatim>\<open>/^agent:([0-9a-f]{64})$/\<close>.\<close>

definition agentAddressed :: "string \<Rightarrow> string option" where
  "agentAddressed verifyUrl =
     (let name = drop 6 verifyUrl
      in if starts_with ''agent:'' verifyUrl \<and> length name = 64 \<and> list_all is_lower_hex name
         then Some name else None)"


subsection \<open>The reserved blocks\<close>

text \<open>
  A block is an address and a prefix length; an address is in it when the leading bits
  agree. The IPv4 blocks that are not global unicast, which the chain of tests above stands
  for.
\<close>

definition ipv4_address :: "nat \<Rightarrow> nat \<Rightarrow> nat \<Rightarrow> nat \<Rightarrow> nat" where
  "ipv4_address a b c d = a * 2 ^ 24 + b * 2 ^ 16 + c * 2 ^ 8 + d"

definition in_block :: "nat \<Rightarrow> nat \<times> nat \<Rightarrow> bool" where
  "in_block address block = (address div 2 ^ (32 - snd block) = fst block div 2 ^ (32 - snd block))"

definition ipv4_reserved :: "(nat \<times> nat) list" where
  "ipv4_reserved =
     [(ipv4_address 0 0 0 0, 8), (ipv4_address 10 0 0 0, 8), (ipv4_address 127 0 0 0, 8),
      (ipv4_address 224 0 0 0, 3), (ipv4_address 100 64 0 0, 10), (ipv4_address 169 254 0 0, 16),
      (ipv4_address 172 16 0 0, 12), (ipv4_address 192 168 0 0, 16), (ipv4_address 192 0 0 0, 24),
      (ipv4_address 192 0 2 0, 24), (ipv4_address 198 18 0 0, 15), (ipv4_address 198 51 100 0, 24),
      (ipv4_address 203 0 113 0, 24)]"

lemma not_digit_dot [simp]: "\<not> is_digit CHR ''.''" "\<not> is_digit CHR '':''"
  by (simp_all add: is_digit_def code_def)

lemma part_number_show_nat [simp]: "part_number (show_nat n) = Some n"
  using is_decimal_show_nat[of n] by (simp add: part_number_def is_decimal_def text_simps)

lemma dot_notin_show_nat [simp]: "CHR ''.'' \<notin> set (show_nat n)" "CHR '':'' \<notin> set (show_nat n)"
  by (rule is_decimal_notin [OF is_decimal_show_nat], simp)+

lemma split_dotted [simp]: "split_on CHR ''.'' (dotted a b c d) = map show_nat [a, b, c, d]"
  unfolding dotted_def by (rule split_on_join) auto

lemma octet_blocks:
  assumes "a < 256" "b < 256" "c < 256" "d < 256"
  shows "ipv4_address a b c d div 16777216 = a" "ipv4_address a b c d div 65536 = a * 256 + b"
    "ipv4_address a b c d div 256 = a * 65536 + b * 256 + c"
    "ipv4_address a b c d div 536870912 = a div 32"
    "ipv4_address a b c d div 4194304 = a * 4 + b div 64"
    "ipv4_address a b c d div 1048576 = a * 16 + b div 16"
    "ipv4_address a b c d div 131072 = a * 128 + b div 2"
  using assms unfolding ipv4_address_def by simp_all

lemma ipv4_reserved_iff:
  assumes "a < 256" "b < 256" "c < 256" "d < 256"
  shows "list_ex (in_block (ipv4_address a b c d)) ipv4_reserved \<longleftrightarrow>
    a = 0 \<or> a = 10 \<or> a = 127 \<or> a div 32 = 7 \<or> a * 4 + b div 64 = 401 \<or> a * 256 + b = 43518
    \<or> a * 16 + b div 16 = 2753 \<or> a * 256 + b = 49320 \<or> a * 65536 + b * 256 + c = 12582912
    \<or> a * 65536 + b * 256 + c = 12582914 \<or> a * 128 + b div 2 = 25353
    \<or> a * 65536 + b * 256 + c = 12989284 \<or> a * 65536 + b * 256 + c = 13303921"
  using assms by (simp add: ipv4_reserved_def in_block_def octet_blocks)

lemma digit_eq:
  fixes q r n :: nat
  assumes "r < n" "r' < n"
  shows "q * n + r = q' * n + r' \<longleftrightarrow> q = q' \<and> r = r'"
proof
  assume eq: "q * n + r = q' * n + r'"
  have "(q * n + r) mod n = r" "(q' * n + r') mod n = r'" using assms by simp_all
  with eq have "r = r'" by simp
  with eq assms show "q = q' \<and> r = r'" by simp
qed simp

lemma three_digits:
  fixes a b c :: nat
  assumes "b < 256" "c < 256" "q < 256" "r < 256"
  shows "a * 65536 + b * 256 + c = p * 65536 + q * 256 + r \<longleftrightarrow> a = p \<and> b = q \<and> c = r"
  using digit_eq[OF assms(2,4), of "a * 256 + b" "p * 256 + q"] digit_eq[OF assms(1,3), of a p]
  by (simp add: algebra_simps)

lemma reserved_arith:
  fixes a b c :: nat
  assumes "a < 256" "b < 256" "c < 256"
  shows "a div 32 = 7 \<longleftrightarrow> 224 \<le> a" "a * 4 + b div 64 = 401 \<longleftrightarrow> a = 100 \<and> 64 \<le> b \<and> b < 128"
    "a * 256 + b = 43518 \<longleftrightarrow> a = 169 \<and> b = 254"
    "a * 16 + b div 16 = 2753 \<longleftrightarrow> a = 172 \<and> 16 \<le> b \<and> b < 32"
    "a * 256 + b = 49320 \<longleftrightarrow> a = 192 \<and> b = 168"
    "a * 65536 + b * 256 + c = 12582912 \<longleftrightarrow> a = 192 \<and> b = 0 \<and> c = 0"
    "a * 65536 + b * 256 + c = 12582914 \<longleftrightarrow> a = 192 \<and> b = 0 \<and> c = 2"
    "a * 128 + b div 2 = 25353 \<longleftrightarrow> a = 198 \<and> (b = 18 \<or> b = 19)"
    "a * 65536 + b * 256 + c = 12989284 \<longleftrightarrow> a = 198 \<and> b = 51 \<and> c = 100"
    "a * 65536 + b * 256 + c = 13303921 \<longleftrightarrow> a = 203 \<and> b = 0 \<and> c = 113"
proof -
  show "a div 32 = 7 \<longleftrightarrow> 224 \<le> a" using assms by linarith
  have "b div 64 < 4" using assms by simp
  moreover have "b div 64 = 1 \<longleftrightarrow> 64 \<le> b \<and> b < 128" by linarith
  ultimately show "a * 4 + b div 64 = 401 \<longleftrightarrow> a = 100 \<and> 64 \<le> b \<and> b < 128"
    using digit_eq[of "b div 64" 4 1 a 100] by simp
  have "b div 16 < 16" using assms by simp
  moreover have "b div 16 = 1 \<longleftrightarrow> 16 \<le> b \<and> b < 32" by linarith
  ultimately show "a * 16 + b div 16 = 2753 \<longleftrightarrow> a = 172 \<and> 16 \<le> b \<and> b < 32"
    using digit_eq[of "b div 16" 16 1 a 172] by simp
  have "b div 2 < 128" using assms by simp
  moreover have "b div 2 = 9 \<longleftrightarrow> b = 18 \<or> b = 19" by linarith
  ultimately show "a * 128 + b div 2 = 25353 \<longleftrightarrow> a = 198 \<and> (b = 18 \<or> b = 19)"
    using digit_eq[of "b div 2" 128 9 a 198] by simp
  show "a * 256 + b = 43518 \<longleftrightarrow> a = 169 \<and> b = 254" "a * 256 + b = 49320 \<longleftrightarrow> a = 192 \<and> b = 168"
    using digit_eq[of b 256 254 a 169] digit_eq[of b 256 168 a 192] assms by simp_all
  show "a * 65536 + b * 256 + c = 12582912 \<longleftrightarrow> a = 192 \<and> b = 0 \<and> c = 0"
    "a * 65536 + b * 256 + c = 12582914 \<longleftrightarrow> a = 192 \<and> b = 0 \<and> c = 2"
    "a * 65536 + b * 256 + c = 12989284 \<longleftrightarrow> a = 198 \<and> b = 51 \<and> c = 100"
    "a * 65536 + b * 256 + c = 13303921 \<longleftrightarrow> a = 203 \<and> b = 0 \<and> c = 113"
    using three_digits[of b c 0 0 a 192] three_digits[of b c 0 2 a 192]
      three_digits[of b c 51 100 a 198] three_digits[of b c 0 113 a 203] assms by simp_all
qed

lemma if_False_else: "(if P then False else Q) \<longleftrightarrow> \<not> P \<and> Q"
  by simp

lemma ipv4IsGlobal_dotted:
  "ipv4IsGlobal (dotted a b c d) \<longleftrightarrow> a < 256 \<and> b < 256 \<and> c < 256 \<and> d < 256 \<and>
     \<not> list_ex (in_block (ipv4_address a b c d)) ipv4_reserved"
proof (cases "a < 256 \<and> b < 256 \<and> c < 256 \<and> d < 256")
  case True
  then have octets: "a < 256" "b < 256" "c < 256" "d < 256" by blast+
  let ?parts = "[Some a, Some b, Some c, Some d]"
  have parts: "map part_number (split_on CHR ''.'' (dotted a b c d)) = ?parts" by simp
  have in_range: "\<not> (length ?parts \<noteq> 4 \<or>
      list_ex (\<lambda>part. case part of None \<Rightarrow> True | Some n \<Rightarrow> n > 255) ?parts)"
    using octets by simp
  have digits: "?parts ! 0 = Some a" "?parts ! 1 = Some b" "?parts ! 2 = Some c" by simp_all
  have "\<not> list_ex (in_block (ipv4_address a b c d)) ipv4_reserved \<longleftrightarrow>
      \<not> (a = 0 \<or> a = 10 \<or> a = 127 \<or> 224 \<le> a) \<and> \<not> (a = 100 \<and> 64 \<le> b \<and> b < 128)
      \<and> \<not> (a = 169 \<and> b = 254) \<and> \<not> (a = 172 \<and> 16 \<le> b \<and> b < 32)
      \<and> \<not> (a = 192 \<and> (b = 168 \<or> (b = 0 \<and> (c = 0 \<or> c = 2))))
      \<and> \<not> (a = 198 \<and> (b = 18 \<or> b = 19 \<or> (b = 51 \<and> c = 100)))
      \<and> \<not> (a = 203 \<and> b = 0 \<and> c = 113)"
    unfolding ipv4_reserved_iff [OF octets] reserved_arith [OF octets(1-3)] by argo
  also have "\<dots> \<longleftrightarrow> ipv4IsGlobal (dotted a b c d)"
    unfolding ipv4IsGlobal_def Let_def parts if_not_P [OF in_range]
    by (simp only: digits option.sel if_False_else simp_thms)
  finally show ?thesis using octets by blast
next
  case False
  let ?parts = "[Some a, Some b, Some c, Some d]"
  have parts: "map part_number (split_on CHR ''.'' (dotted a b c d)) = ?parts" by simp
  have out: "length ?parts \<noteq> 4 \<or>
      list_ex (\<lambda>part. case part of None \<Rightarrow> True | Some n \<Rightarrow> n > 255) ?parts"
    using False by auto
  have "\<not> ipv4IsGlobal (dotted a b c d)"
    unfolding ipv4IsGlobal_def Let_def parts if_P [OF out] by (rule not_False_eq_True [THEN iffD2, OF TrueI])
  with False show ?thesis by blast
qed

lemma ipv4IsGlobal_shape:
  "ipv4IsGlobal s \<Longrightarrow> length (split_on CHR ''.'' s) = 4"
  by (rule ccontr) (simp add: ipv4IsGlobal_def)

text \<open>An IPv6 address that carries an IPv4 one, and which.\<close>

definition carried_ipv4 :: "nat list \<Rightarrow> (nat \<times> nat) option" where
  "carried_ipv4 g =
     (if take 6 g = [0, 0, 0, 0, 0, 0xffff] then Some (g ! 6, g ! 7)
      else if take 6 g = [0x64, 0xff9b, 0, 0, 0, 0] then Some (g ! 6, g ! 7)
      else if take 1 g = [0x2002] then Some (g ! 1, g ! 2)
      else None)"

definition ipv4_of_pair :: "nat \<times> nat \<Rightarrow> nat" where
  "ipv4_of_pair p = fst p * 2 ^ 16 + snd p"

definition group_block :: "nat \<Rightarrow> nat \<Rightarrow> nat \<Rightarrow> bool" where
  "group_block g p n \<longleftrightarrow> g div 2 ^ (16 - n) = p div 2 ^ (16 - n)"

text \<open>
  The IPv6 blocks that are never global: loopback, unspecified and IPv4-compatible
  (\<^verbatim>\<open>::/96\<close>), unique local, multicast, link local, site local, Teredo, discard-only.
\<close>

definition ipv6_reserved :: "nat list \<Rightarrow> bool" where
  "ipv6_reserved g \<longleftrightarrow>
     take 6 g = [0, 0, 0, 0, 0, 0] \<or> take 6 g = [0, 0, 0, 0, 0xffff, 0]
     \<or> group_block (g ! 0) 0xfc00 7 \<or> group_block (g ! 0) 0xff00 8
     \<or> group_block (g ! 0) 0xfe80 10 \<or> group_block (g ! 0) 0xfec0 10
     \<or> take 2 g = [0x2001, 0] \<or> take 4 g = [0x100, 0, 0, 0]
     \<or> (take 2 g = [0x64, 0xff9b] \<and> take 6 g \<noteq> [0x64, 0xff9b, 0, 0, 0, 0])"

lemma embedded_iff:
  assumes "x < 65536" "y < 65536"
  shows "embedded x y \<longleftrightarrow> \<not> list_ex (in_block (ipv4_of_pair (x, y))) ipv4_reserved"
proof -
  have "x div 256 < 256" "y div 256 < 256" using assms by simp_all
  moreover have "ipv4_address (x div 256) (x mod 256) (y div 256) (y mod 256) = ipv4_of_pair (x, y)"
    using div_mult_mod_eq[of x 256] div_mult_mod_eq[of y 256]
    unfolding ipv4_address_def ipv4_of_pair_def fst_conv snd_conv by (simp, linarith)
  ultimately show ?thesis by (simp add: embedded_def ipv4IsGlobal_dotted)
qed

lemma and_mask_high:
  fixes g :: nat assumes "g < 65536"
  shows "g AND 0xfe00 = 0xfc00 \<longleftrightarrow> group_block g 0xfc00 7"
    "g AND 0xff00 = 0xff00 \<longleftrightarrow> group_block g 0xff00 8"
    "g AND 0xffc0 = 0xfe80 \<longleftrightarrow> group_block g 0xfe80 10"
    "g AND 0xffc0 = 0xfec0 \<longleftrightarrow> group_block g 0xfec0 10"
proof -
  have clear: "g AND (2 ^ 16 - 2 ^ n) = g div 2 ^ n * 2 ^ n" if "n \<le> 16" for n
  proof -
    have "(2::nat) ^ 16 - 2 ^ n = push_bit n (mask (16 - n))"
      using that by (simp add: push_bit_eq_mult mask_eq_exp_minus_1 algebra_simps power_add[symmetric])
    moreover have "g AND push_bit n (mask (16 - n)) = push_bit n (drop_bit n g)"
    proof (rule bit_eqI)
      fix k
      have "take_bit 16 g = g" using assms by (simp add: take_bit_nat_eq_self)
      then have "k < 16" if "bit g k" using that bit_take_bit_iff[of 16 g k] by simp
      then show "bit (g AND push_bit n (mask (16 - n))) k = bit (push_bit n (drop_bit n g)) k"
        by (auto simp: bit_simps)
    qed
    ultimately show ?thesis by (simp add: push_bit_eq_mult drop_bit_eq_div)
  qed
  show "g AND 0xfe00 = 0xfc00 \<longleftrightarrow> group_block g 0xfc00 7"
    using clear[of 9] by (auto simp: group_block_def)
  show "g AND 0xff00 = 0xff00 \<longleftrightarrow> group_block g 0xff00 8"
    using clear[of 8] by (auto simp: group_block_def)
  show "g AND 0xffc0 = 0xfe80 \<longleftrightarrow> group_block g 0xfe80 10"
    using clear[of 6] by (auto simp: group_block_def)
  show "g AND 0xffc0 = 0xfec0 \<longleftrightarrow> group_block g 0xfec0 10"
    using clear[of 6] by (auto simp: group_block_def)
qed

lemma groups_global_iff:
  assumes "length g = 8" "\<forall>x\<in>set g. x < 65536"
  shows "groups_global g \<longleftrightarrow>
    (case carried_ipv4 g of
       Some pair \<Rightarrow> \<not> list_ex (in_block (ipv4_of_pair pair)) ipv4_reserved
     | None \<Rightarrow> \<not> ipv6_reserved g)"
proof -
  obtain a b c d e f h l where g: "g = [a, b, c, d, e, f, h, l]"
    using assms(1) by (auto simp: length_Suc_conv eval_nat_numeral)
  then have bounds: "a < 65536" "b < 65536" "c < 65536" "h < 65536" "l < 65536"
    using assms(2) by auto
  show ?thesis
    using bounds
    by (auto simp: g groups_global_def Let_def zeroBefore_def carried_ipv4_def ipv6_reserved_def
        embedded_iff and_mask_high numeral_eq_Suc[of "num.One"])
qed

subsection \<open>Reading a written IPv6 address\<close>

definition colon_hex :: "nat list \<Rightarrow> string" where
  "colon_hex gs = join '':'' (map show_hex gs)"

lemma number_of_hex_snoc: "number_of_hex (s @ [c]) = number_of_hex s * 16 + hex_value c"
  by (simp add: number_of_hex_def)

lemma number_of_show_hex [text_simps]: "number_of_hex (show_hex n) = n"
proof (induction n rule: show_hex.induct)
  case (1 n)
  then show ?case
    by (cases "n < 16"; subst show_hex.simps)
      (simp_all add: number_of_hex_snoc, simp add: number_of_hex_def)
qed

lemma lower_hex_show_hex [text_simps]: "list_all is_lower_hex (show_hex n) \<and> show_hex n \<noteq> []"
proof (induction n rule: show_hex.induct)
  case (1 n)
  then show ?case by (cases "n < 16") (simp_all add: show_hex.simps[of n])
qed

lemma length_show_hex: "0 < k \<Longrightarrow> n < 16 ^ k \<Longrightarrow> length (show_hex n) \<le> k"
proof (induction k arbitrary: n)
  case (Suc k)
  show ?case
  proof (cases "n < 16")
    case True
    then show ?thesis by (subst show_hex.simps) simp
  next
    case False
    with Suc.prems have "0 < k" by (cases k) auto
    moreover have "n div 16 < 16 ^ k" using Suc.prems by (simp add: less_mult_imp_div_less)
    ultimately have "length (show_hex (n div 16)) \<le> k" by (rule Suc.IH)
    with False show ?thesis by (subst show_hex.simps) simp
  qed
qed simp

lemma show_hex_clean:
  "CHR '':'' \<notin> set (show_hex n)" "CHR ''.'' \<notin> set (show_hex n)" "show_hex n \<noteq> []"
  using is_lower_hex_notin [OF conjunct1 [OF lower_hex_show_hex [of n]]] lower_hex_show_hex[of n]
  by (auto simp: is_lower_hex_def is_digit_def code_def)

lemma set_join: "set (join sep xs) \<subseteq> set sep \<union> (\<Union>x\<in>set xs. set x)"
  by (induction sep xs rule: join.induct) auto

lemma split_double_colon_single:
  "successively (\<lambda>a b. \<not> (a = CHR '':'' \<and> b = CHR '':'')) s \<Longrightarrow> split_double_colon s = [s]"
  by (induction s rule: split_double_colon.induct) auto

lemma successively_join:
  assumes "\<forall>x\<in>set xs. x \<noteq> [] \<and> CHR '':'' \<notin> set x"
  shows "successively (\<lambda>a b. \<not> (a = CHR '':'' \<and> b = CHR '':'')) (join '':'' xs)"
  using assms
proof (induction "'':''" xs rule: join.induct)
  case (2 x)
  have "CHR '':'' \<notin> set x \<Longrightarrow> successively (\<lambda>a b. \<not> (a = CHR '':'' \<and> b = CHR '':'')) x"
    by (induction x rule: induct_list012) auto
  with 2 show ?case by simp
next
  case (3 x y ys)
  have clean: "CHR '':'' \<notin> set x \<Longrightarrow> successively (\<lambda>a b. \<not> (a = CHR '':'' \<and> b = CHR '':'')) x"
    by (induction x rule: induct_list012) auto
  have hd: "hd (join '':'' (y # ys)) \<noteq> CHR '':''" "join '':'' (y # ys) \<noteq> []"
    using 3(2) by (cases y; cases ys; auto)+
  have "last x \<noteq> CHR '':''" using 3(2) by (metis last_in_set list.set_intros(1))
  with 3 clean hd show ?case
    by (auto simp: successively_append_iff successively_Cons)
qed simp

lemma colon_hex_no_dot: "CHR ''.'' \<notin> set (colon_hex gs)"
  using set_join[of "'':''" "map show_hex gs"] show_hex_clean(2) by (fastforce simp: colon_hex_def)

lemma colon_hex_dotted_tail: "withDottedTailAsGroups (colon_hex gs) = colon_hex gs"
proof (cases "last_index_of CHR '':'' (colon_hex gs)")
  case (Some i)
  have "CHR ''.'' \<notin> set (drop (Suc i) (colon_hex gs))"
    using colon_hex_no_dot[of gs] by (meson in_set_dropD)
  then show ?thesis using Some by (simp add: withDottedTailAsGroups_def split_on_clean)
next
  case None
  then show ?thesis by (simp only: withDottedTailAsGroups_def option.case)
qed

lemma ipv6Groups_colon_hex:
  assumes "length gs = 8" "\<forall>g\<in>set gs. g < 65536"
  shows "ipv6Groups (colon_hex gs) = map Some gs"
proof -
  have single: "split_double_colon (colon_hex gs) = [colon_hex gs]"
    unfolding colon_hex_def
    by (rule split_double_colon_single, rule successively_join) (auto simp: show_hex_clean)
  have pieces: "split_on CHR '':'' (colon_hex gs) = map show_hex gs"
    unfolding colon_hex_def by (rule split_on_join) (use assms in \<open>auto simp: show_hex_clean\<close>)
  have numbers: "group_number (show_hex g) = Some g" if "g \<in> set gs" for g
  proof -
    have "length (show_hex g) \<le> 4" by (rule length_show_hex) (use that assms in auto)
    then show ?thesis
      using lower_hex_show_hex[of g] by (simp add: group_number_def text_simps)
  qed
  have "filter (\<lambda>grp. grp \<noteq> []) (map show_hex gs) = map show_hex gs"
    by (simp add: show_hex_clean filter_id_conv)
  with single pieces show ?thesis
    using assms numbers by (simp add: ipv6Groups_def colon_hex_dotted_tail)
qed

lemma lower_colon_hex: "lower (colon_hex gs) = colon_hex gs"
proof -
  have "lower_char c = c" if "c \<in> set (colon_hex gs)" for c
  proof -
    from that set_join[of "'':''" "map show_hex gs"]
    have "c = CHR '':'' \<or> is_lower_hex c"
      using lower_hex_show_hex by (fastforce simp: colon_hex_def list_all_iff)
    then show ?thesis
    proof
      assume "c = CHR '':''"
      then show ?thesis by (simp add: lower_char_def code_def)
    qed (rule lower_char_lower_hex)
  qed
  then show ?thesis by (simp add: lower_def map_idI)
qed

text \<open>
  C15: an address the gateway is willing to reach is global. Written as a dotted quad, it lies
  in none of the reserved IPv4 blocks; written as eight groups, it lies in none of the
  reserved IPv6 blocks, and where it carries an IPv4 address (mapped, NAT64, 6to4) that
  address lies in none of the reserved IPv4 blocks. The converse holds too: nothing else is
  refused.
\<close>

theorem publicAddress_iff_not_reserved:
  assumes "length gs = 8" "\<forall>g\<in>set gs. g < 65536"
  shows "(publicAddress (dotted a b c d) \<longleftrightarrow>
      (a < 256 \<and> b < 256 \<and> c < 256 \<and> d < 256 \<and>
       \<not> list_ex (in_block (ipv4_address a b c d)) ipv4_reserved))
    \<and> (publicAddress (colon_hex gs) \<longleftrightarrow>
       (case carried_ipv4 gs of
          Some pair \<Rightarrow> \<not> list_ex (in_block (ipv4_of_pair pair)) ipv4_reserved
        | None \<Rightarrow> \<not> ipv6_reserved gs))"
proof
  have "CHR '':'' \<notin> set (dotted a b c d)"
    using set_join[of "''.''" "map show_nat [a, b, c, d]"] by (auto simp: dotted_def)
  then show "publicAddress (dotted a b c d) \<longleftrightarrow>
     (a < 256 \<and> b < 256 \<and> c < 256 \<and> d < 256 \<and>
      \<not> list_ex (in_block (ipv4_address a b c d)) ipv4_reserved)"
    by (simp add: publicAddress_def ipv4IsGlobal_dotted)
next
  obtain g h rest where "gs = g # h # rest" using assms(1) by (cases gs; cases "tl gs") auto
  then have "CHR '':'' \<in> set (colon_hex gs)" by (simp add: colon_hex_def)
  then show "publicAddress (colon_hex gs) \<longleftrightarrow>
       (case carried_ipv4 gs of
          Some pair \<Rightarrow> \<not> list_ex (in_block (ipv4_of_pair pair)) ipv4_reserved
        | None \<Rightarrow> \<not> ipv6_reserved gs)"
    using assms
    by (simp add: publicAddress_def ipv6IsGlobal_def lower_colon_hex ipv6Groups_colon_hex
        groups_global_iff list_ex_iff comp_def)
qed

theorem publicAddress_iff_not_reserved_witness:
  "\<not> publicAddress (colon_hex [0, 0, 0, 0, 0, 0xffff, 0x7f00, 1])
   \<and> publicAddress (colon_hex [0x2a00, 0x1450, 0x4014, 0, 0, 0, 0, 0x200e])
   \<and> publicAddress (dotted 1 1 1 1)"
  using publicAddress_iff_not_reserved [of "[0, 0, 0, 0, 0, 0xffff, 0x7f00, 1]" 1 1 1 1]
    publicAddress_iff_not_reserved [of "[0x2a00, 0x1450, 0x4014, 0, 0, 0, 0, 0x200e]" 1 1 1 1]
  by (simp add: carried_ipv4_def ipv4_of_pair_def ipv4_reserved_def in_block_def ipv4_address_def
      ipv6_reserved_def group_block_def)

end
