(* ===== verification/Outbound.thy ===== *)
theory Outbound
  imports Url
begin

text \<open>
  \<^verbatim>\<open>core/outbound.ts\<close> and the addressing part of \<^verbatim>\<open>core/pinned.ts\<close>: one outbound request with
  the redirects it follows. What answers is outside the program and may depend on
  everything sent so far, so the network is a record of functions of the trace of requests:
  the platform's URL parser, its address test \<^verbatim>\<open>isIP\<close>, the name resolver, the transport and
  the text decoder. The lemmas show which requests can leave the program at all.
\<close>

definition HOPS_FOLLOWED :: nat where "HOPS_FOLLOWED = 2"
definition REDIRECTS :: "nat list" where "REDIRECTS = [301, 302, 303, 307, 308]"
definition KEEPS_THE_METHOD :: "nat list" where "KEEPS_THE_METHOD = [307, 308]"
definition CREDENTIALS :: "string list" where
  "CREDENTIALS = [''authorization'', ''cookie'', ''proxy-authorization'']"
definition BODY_LIMIT_BYTES :: nat where "BODY_LIMIT_BYTES = 262144"

type_synonym headers = "(string \<times> string) list"

record sent =
  sent_method :: "string option"
  sent_headers :: headers
  sent_body :: "string option"
  staysOnOrigin :: bool

record verified =
  verified_address :: string
  verified_family :: nat

record request =
  request_url :: string
  request_sent :: sent
  request_at :: "verified list"

text \<open>A response: \<^verbatim>\<open>ok\<close> is a status from 200 to 299; a missing body is no chunk list at all.\<close>

record response =
  response_status :: nat
  response_headers :: headers
  response_chunks :: "bytes list option"

record answer =
  answer_status :: nat
  answer_ok :: bool
  answer_body :: string
  answer_truncated :: bool
  answer_headers :: headers

record network =
  parse_url :: url_parser
  resolve_url :: url_resolver
  is_ip :: "string \<Rightarrow> nat"
  dns :: "request list \<Rightarrow> string \<Rightarrow> (string list \<times> string list) option"
  send :: "request list \<Rightarrow> request \<Rightarrow> response option"
  decode_text :: "bytes \<Rightarrow> string"
  out_of_time :: "request list \<Rightarrow> bool"

datatype outbound_error =
    NotPublicHttps string
  | PrivateAddress string
  | SendFailed string
  | WithoutLocation string nat
  | UnusableLocation string
  | OffOrigin string string
  | TooManyRedirects string

text \<open>\<^verbatim>\<open>headers.get(name)\<close>: case-insensitive, several values joined by a comma.\<close>

definition header_get :: "headers \<Rightarrow> string \<Rightarrow> string option" where
  "header_get hs name =
     (let values = map snd (filter (\<lambda>(n, v). lower n = name) hs)
      in if values = [] then None else Some (join '', '' values))"

subsection \<open>Resolving\<close>

definition without_brackets :: "string \<Rightarrow> string" where
  "without_brackets host =
     (let opened = (if starts_with ''['' host then tl host else host)
      in if ends_with '']'' opened then butlast opened else opened)"

definition resolved :: "network \<Rightarrow> request list \<Rightarrow> url \<Rightarrow> verified list" where
  "resolved net trace u =
     (let host = without_brackets (url_hostname u); literal = is_ip net host
      in if literal \<noteq> 0 then [\<lparr>verified_address = host, verified_family = literal\<rparr>]
         else (case dns net trace host of
                 None \<Rightarrow> []
               | Some (four, six) \<Rightarrow>
                   map (\<lambda>a. \<lparr>verified_address = a, verified_family = 4\<rparr>) four @
                   map (\<lambda>a. \<lparr>verified_address = a, verified_family = 6\<rparr>) six))"

definition all_public :: "verified list \<Rightarrow> bool" where
  "all_public found \<longleftrightarrow> found \<noteq> [] \<and> list_all (\<lambda>one. publicAddress (verified_address one)) found"

definition resolvesNothingPrivate :: "network \<Rightarrow> request list \<Rightarrow> string \<Rightarrow> bool option" where
  "resolvesNothingPrivate net trace u = map_option (\<lambda>parsed. all_public (resolved net trace parsed)) (parse_url net u)"

definition addressesToReach :: "network \<Rightarrow> request list \<Rightarrow> string \<Rightarrow> outbound_error + verified list" where
  "addressesToReach net trace u =
     (if \<not> publicHttps (parse_url net) u then Inl (NotPublicHttps u)
      else (case parse_url net u of
              None \<Rightarrow> Inl (NotPublicHttps u)
            | Some parsed \<Rightarrow>
                let found = resolved net trace parsed
                in if \<not> all_public found then Inl (PrivateAddress u) else Inr found))"

subsection \<open>Asking\<close>

definition withoutBody :: "sent \<Rightarrow> sent" where
  "withoutBody s =
     s\<lparr>sent_method := Some ''GET'',
       sent_headers := filter (\<lambda>(name, _). lower name \<noteq> ''content-type'') (sent_headers s),
       sent_body := None\<rparr>"

definition withoutCredentials :: "sent \<Rightarrow> sent" where
  "withoutCredentials s =
     s\<lparr>sent_headers := filter (\<lambda>(name, _). lower name \<notin> set CREDENTIALS) (sent_headers s)\<rparr>"

text \<open>The chunks read, and whether the rest was short off: reading stops once the limit is passed.\<close>

fun read_chunks :: "bytes list \<Rightarrow> nat \<Rightarrow> bytes \<times> bool" where
  "read_chunks chunks read =
     (if read \<le> BODY_LIMIT_BYTES
      then (case chunks of
              [] \<Rightarrow> ([], False)
            | c # cs \<Rightarrow> (case read_chunks cs (read + length c) of (body, short) \<Rightarrow> (c @ body, short)))
      else ([], True))"

declare read_chunks.simps [simp del]

definition answerOf :: "network \<Rightarrow> response \<Rightarrow> answer" where
  "answerOf net r =
     (let ok = (200 \<le> response_status r \<and> response_status r < 300)
      in case response_chunks r of
           None \<Rightarrow> \<lparr>answer_status = response_status r, answer_ok = ok, answer_body = [],
                    answer_truncated = False, answer_headers = response_headers r\<rparr>
         | Some chunks \<Rightarrow>
             (case read_chunks chunks 0 of
                (body, short) \<Rightarrow>
                  \<lparr>answer_status = response_status r, answer_ok = ok, answer_body = decode_text net body,
                   answer_truncated = short, answer_headers = response_headers r\<rparr>))"

text \<open>\<open>hops\<close> counts the requests the loop may still make; \<open>trace\<close> is everything sent so far.\<close>

fun ask_hops :: "network \<Rightarrow> nat \<Rightarrow> string \<Rightarrow> string \<Rightarrow> sent \<Rightarrow> request list \<Rightarrow>
    (outbound_error + answer) \<times> request list" where
  "ask_hops net 0 url target carried trace = (Inl (TooManyRedirects url), trace)"
| "ask_hops net (Suc hops) url target carried trace =
     (case addressesToReach net trace target of
        Inl refused \<Rightarrow> (Inl refused, trace)
      | Inr reached \<Rightarrow>
          (let r = \<lparr>request_url = target, request_sent = carried, request_at = reached\<rparr>; trace' = trace @ [r]
           in case send net trace r of
                None \<Rightarrow> (Inl (SendFailed target), trace')
              | Some response \<Rightarrow>
                  if response_status response \<notin> set REDIRECTS then (Inr (answerOf net response), trace')
                  else
                    (case header_get (response_headers response) ''location'' of
                       None \<Rightarrow> (Inl (WithoutLocation target (response_status response)), trace')
                     | Some location \<Rightarrow>
                         (case resolve_url net location target of
                            None \<Rightarrow> (Inl (UnusableLocation location), trace')
                          | Some parsed \<Rightarrow>
                              (let next = url_href parsed
                               in if staysOnOrigin carried \<and> \<not> sameOrigin (parse_url net) target next
                                  then (Inl (OffOrigin target next), trace')
                                  else
                                    (let kept = (if response_status response \<in> set KEEPS_THE_METHOD then carried
                                                 else withoutBody carried);
                                         safe = (if sameOrigin (parse_url net) target next then kept
                                                 else withoutCredentials kept)
                                     in ask_hops net hops url next safe trace'))))))"

definition ask :: "network \<Rightarrow> string \<Rightarrow> sent \<Rightarrow> request list \<Rightarrow> (outbound_error + answer) \<times> request list" where
  "ask net url s trace = ask_hops net (HOPS_FOLLOWED + 1) url url s trace"

subsection \<open>Pinning\<close>

definition HTTPS_PORT :: int where "HTTPS_PORT = 443"

record request_options =
  option_host :: string
  option_servername :: string
  option_port :: int
  option_path :: string
  option_method :: string
  option_headers :: headers
  option_lookup :: "bool \<Rightarrow> verified list"

text \<open>
  \<^verbatim>\<open>lookup\<close> ignores the name: it hands over every verified address when asked for all of
  them, and the first otherwise. \<^verbatim>\<open>{ ...sent.headers, host }\<close> replaces a member of that name.
\<close>

fun put_header :: "string \<Rightarrow> string \<Rightarrow> headers \<Rightarrow> headers" where
  "put_header name v [] = [(name, v)]"
| "put_header name v ((n, w) # hs) = (if n = name then (n, v) # hs else (n, w) # put_header name v hs)"

definition reaching :: "url \<Rightarrow> sent \<Rightarrow> verified list \<Rightarrow> verified \<Rightarrow> request_options" where
  "reaching asked s reached first =
     \<lparr>option_host = url_hostname asked,
      option_servername = url_hostname asked,
      option_port = (if url_port asked = [] then HTTPS_PORT else int (number_of_digits (url_port asked))),
      option_path = url_pathname asked @ url_search asked,
      option_method = (case sent_method s of None \<Rightarrow> ''GET'' | Some m \<Rightarrow> m),
      option_headers = put_header ''host'' (url_host asked) (sent_headers s),
      option_lookup = (\<lambda>everything. if everything then reached else [first])\<rparr>"

definition pinned_options :: "url_parser \<Rightarrow> request \<Rightarrow> request_options option" where
  "pinned_options parse r =
     (case (parse (request_url r), request_at r) of
        (Some asked, first # _) \<Rightarrow> Some (reaching asked (request_sent r) (request_at r) first)
      | _ \<Rightarrow> None)"

subsection \<open>What can leave the program\<close>

definition carries_credentials :: "sent \<Rightarrow> bool" where
  "carries_credentials s \<longleftrightarrow> (\<exists>(name, v)\<in>set (sent_headers s). lower name \<in> set CREDENTIALS)"

lemma withoutCredentials_clean [simp]: "\<not> carries_credentials (withoutCredentials s)"
  by (auto simp: carries_credentials_def withoutCredentials_def)

lemma withoutBody_credentials: "carries_credentials (withoutBody s) \<Longrightarrow> carries_credentials s"
  by (auto simp: carries_credentials_def withoutBody_def)

lemma stays_preserved [simp]:
  "staysOnOrigin (withoutCredentials s) = staysOnOrigin s" "staysOnOrigin (withoutBody s) = staysOnOrigin s"
  by (simp_all add: withoutCredentials_def withoutBody_def)

lemma addressesToReach_public:
  "addressesToReach net trace u = Inr reached \<Longrightarrow> publicHttps (parse_url net) u \<and> all_public reached"
  by (auto simp: addressesToReach_def Let_def split: if_splits option.splits)

text \<open>
  The requests one call adds to the trace: each went to \<open>url\<close> first and then from hop to hop,
  to verified public addresses, and what it carried shrank only.
\<close>

definition hop_ok :: "network \<Rightarrow> request \<Rightarrow> bool" where
  "hop_ok net r \<longleftrightarrow> publicHttps (parse_url net) (request_url r) \<and> all_public (request_at r)"

fun chain_ok :: "network \<Rightarrow> string \<Rightarrow> sent \<Rightarrow> request list \<Rightarrow> bool" where
  "chain_ok net target carried [] \<longleftrightarrow> True"
| "chain_ok net target carried (r # rs) \<longleftrightarrow>
     hop_ok net r \<and> request_url r = target \<and> request_sent r = carried \<and>
     (rs = [] \<or> (\<exists>next carried'.
        (staysOnOrigin carried \<longrightarrow> sameOrigin (parse_url net) target next) \<and>
        staysOnOrigin carried' = staysOnOrigin carried \<and>
        (carries_credentials carried' \<longrightarrow> sameOrigin (parse_url net) target next \<and> carries_credentials carried) \<and>
        chain_ok net next carried' rs))"

lemma ask_hops_chain:
  "ask_hops net hops url target carried trace = (result, trace') \<Longrightarrow>
     \<exists>rs. trace' = trace @ rs \<and> length rs \<le> hops \<and> chain_ok net target carried rs"
proof (induction hops arbitrary: target carried trace)
  case (Suc hops)
  show ?case
  proof (cases "addressesToReach net trace target")
    case (Inl refused)
    then show ?thesis using Suc.prems by auto
  next
    case (Inr reached)
    define r where "r = \<lparr>request_url = target, request_sent = carried, request_at = reached\<rparr>"
    have ok: "hop_ok net r" using addressesToReach_public [OF Inr] by (simp add: hop_ok_def r_def)
    have one: "chain_ok net target carried [r]" using ok by (simp add: r_def)
    show ?thesis
    proof (cases "trace' = trace @ [r]")
      case True
      then show ?thesis using one by (intro exI [of _ "[r]"]) simp
    next
      case False
      then obtain response location parsed where steps:
        "send net trace r = Some response" "response_status response \<in> set REDIRECTS"
        "header_get (response_headers response) ''location'' = Some location"
        "resolve_url net location target = Some parsed"
        using Suc.prems Inr by (auto simp: Let_def r_def split: option.splits if_splits)
      define next' where "next' = url_href parsed"
      define kept where "kept = (if response_status response \<in> set KEEPS_THE_METHOD then carried else withoutBody carried)"
      define safe where "safe = (if sameOrigin (parse_url net) target next' then kept else withoutCredentials kept)"
      have "\<not> (staysOnOrigin carried \<and> \<not> sameOrigin (parse_url net) target next')"
        using Suc.prems Inr steps False by (auto simp: Let_def r_def next'_def split: if_splits)
      moreover from this have "ask_hops net hops url next' safe (trace @ [r]) = (result, trace')"
        using Suc.prems Inr steps by (simp add: Let_def r_def next'_def kept_def safe_def split: if_splits)
      then obtain rs where rs: "trace' = (trace @ [r]) @ rs" "length rs \<le> hops" "chain_ok net next' safe rs"
        using Suc.IH by blast
      moreover have "staysOnOrigin safe = staysOnOrigin carried"
        by (simp add: safe_def kept_def)
      moreover have "carries_credentials safe \<Longrightarrow> sameOrigin (parse_url net) target next' \<and> carries_credentials carried"
        by (auto simp: safe_def kept_def dest: withoutBody_credentials split: if_splits)
      ultimately have "chain_ok net target carried (r # rs)" using ok by (auto simp: r_def)
      then show ?thesis using rs by (intro exI [of _ "r # rs"]) simp
    qed
  qed
qed simp

lemma chain_ok_hops: "chain_ok net target carried rs \<Longrightarrow> r \<in> set rs \<Longrightarrow> hop_ok net r"
  by (induction rs arbitrary: target carried) auto

lemma chain_ok_credentials:
  "chain_ok net target carried rs \<Longrightarrow> i < length rs \<Longrightarrow> carries_credentials (request_sent (rs ! i)) \<Longrightarrow>
     (\<forall>j < i. sameOrigin (parse_url net) (request_url (rs ! j)) (request_url (rs ! Suc j))) \<and> carries_credentials carried"
proof (induction rs arbitrary: target carried i)
  case (Cons r rs)
  show ?case
  proof (cases i)
    case 0
    then show ?thesis using Cons.prems by auto
  next
    case (Suc k)
    then obtain next' carried' where step:
      "carries_credentials carried' \<longrightarrow> sameOrigin (parse_url net) target next' \<and> carries_credentials carried"
      "chain_ok net next' carried' rs"
      using Cons.prems by (cases rs) auto
    have IH: "(\<forall>j<k. sameOrigin (parse_url net) (request_url (rs ! j)) (request_url (rs ! Suc j)))
        \<and> carries_credentials carried'"
      using Cons.IH [OF step(2)] Cons.prems Suc by simp
    have "request_url r = target" "request_url (rs ! 0) = next'"
      using Cons.prems step(2) Suc by (cases rs; auto)+
    then show ?thesis using IH step(1) Suc by (auto simp: nth_Cons less_Suc_eq_0_disj split: nat.split)
  qed
qed simp

lemma chain_ok_origin:
  "chain_ok net target carried rs \<Longrightarrow> staysOnOrigin carried \<Longrightarrow> Suc j < length rs \<Longrightarrow>
     sameOrigin (parse_url net) (request_url (rs ! j)) (request_url (rs ! Suc j))"
proof (induction rs arbitrary: target carried j)
  case (Cons r rs)
  then obtain next' carried' where step: "sameOrigin (parse_url net) target next'"
    "staysOnOrigin carried'" "chain_ok net next' carried' rs" "request_url r = target"
    by (cases rs) auto
  then show ?case
    using Cons.IH [OF step(3,2)] Cons.prems by (cases j; cases rs) auto
qed simp

text \<open>
  A request is safe when its URL is public https, it was resolved to at least one address and
  to public ones only, and the connection made for it looks up those addresses and no other.
\<close>

definition request_safe :: "network \<Rightarrow> request \<Rightarrow> bool" where
  "request_safe net r \<longleftrightarrow>
     publicHttps (parse_url net) (request_url r) \<and> all_public (request_at r) \<and>
     (case pinned_options (parse_url net) r of
        None \<Rightarrow> False
      | Some options \<Rightarrow>
          list_all (\<lambda>everything. option_lookup options everything \<noteq> [] \<and>
            set (option_lookup options everything) \<subseteq> set (request_at r)) [True, False])"

lemma hop_ok_safe: "hop_ok net r \<Longrightarrow> request_safe net r"
  by (cases "request_at r")
    (auto simp: hop_ok_def request_safe_def all_public_def pinned_options_def reaching_def publicHttps_def
      split: option.splits)

text \<open>
  C17: the gateway cannot be sent to a private network. However the wallets, the name servers
  and the redirects behave, one call makes at most three requests, and each goes to a public
  https URL whose every resolved address is public, over a connection pinned to exactly the
  addresses that were checked.
\<close>

theorem ask_reaches_public_only:
  "\<exists>made. snd (ask net url s trace) = trace @ made \<and> length made \<le> 3 \<and> list_all (request_safe net) made"
proof -
  obtain result trace' where run: "ask net url s trace = (result, trace')" by fastforce
  then obtain rs where rs: "trace' = trace @ rs" "length rs \<le> HOPS_FOLLOWED + 1" "chain_ok net url s rs"
    unfolding ask_def using ask_hops_chain by blast
  then have "list_all (request_safe net) rs"
    using chain_ok_hops [OF rs(3)] hop_ok_safe by (auto simp: list_all_iff)
  with rs run show ?thesis by (auto simp: HOPS_FOLLOWED_def)
qed

text \<open>
  A credential never leaves its origin. If some request of a call carries an
  authorization, cookie or proxy-authorization header, then every redirect before it stayed
  on one origin; and a call told to stay on its origin never makes a request anywhere else.
\<close>

theorem ask_keeps_credentials:
  "\<exists>made. snd (ask net url s trace) = trace @ made \<and>
     \<not> (\<exists>i j. j < i \<and> i < length made \<and>
          (carries_credentials (request_sent (made ! i)) \<or> staysOnOrigin s) \<and>
          \<not> sameOrigin (parse_url net) (request_url (made ! j)) (request_url (made ! Suc j)))"
proof -
  obtain result trace' where run: "ask net url s trace = (result, trace')" by fastforce
  then obtain rs where rs: "trace' = trace @ rs" "chain_ok net url s rs"
    unfolding ask_def using ask_hops_chain by blast
  have "sameOrigin (parse_url net) (request_url (rs ! j)) (request_url (rs ! Suc j))"
    if "j < i" "i < length rs" "carries_credentials (request_sent (rs ! i)) \<or> staysOnOrigin s" for i j
    using that chain_ok_credentials [OF rs(2), of i] chain_ok_origin [OF rs(2), of j] by auto
  with rs run show ?thesis by (intro exI [of _ rs]) auto
qed

end
