(* ===== verification/Bech32.thy ===== *)
theory Bech32
  imports Bytes
begin

text \<open>
  The bech32 arithmetic of \<^verbatim>\<open>core/bolt11.ts\<close> (\<open>expandedHrp\<close>, \<open>bech32Polymod\<close>,
  \<open>wordsToBytes\<close>, \<open>readNumber\<close>) and of \<^verbatim>\<open>core/lnurl.ts\<close> (\<open>toWords\<close>, \<open>checksumWords\<close>).
  Five-bit words are natural numbers below 32; the accumulators the code shifts and masks
  are 32-bit words, as JavaScript's bitwise operators make them. The lemmas show that the
  checksum the encoder writes is accepted by the decoder, and that regrouping bytes into
  five-bit words and back loses nothing.
\<close>

definition BECH32_CHARSET :: string where
  "BECH32_CHARSET = ''qpzry9x8gf2tvdw0s3jn54khce6mua7l''"

definition BECH32_GENERATOR :: "32 word list" where
  "BECH32_GENERATOR = [0x3b6a57b2, 0x26508e6d, 0x1ea119fa, 0x3d4233dd, 0x2a1462b3]"

definition expandedHrp :: "string \<Rightarrow> nat list" where
  "expandedHrp hrp = map (\<lambda>c. code c div 32) hrp @ [0] @ map (\<lambda>c. code c mod 32) hrp"

definition polymod_bit :: "32 word \<Rightarrow> nat \<Rightarrow> 32 word \<Rightarrow> 32 word" where
  "polymod_bit high at checksum =
     (if drop_bit at high AND 1 \<noteq> 0 then checksum XOR BECH32_GENERATOR ! at else checksum)"

definition polymod_step :: "32 word \<Rightarrow> nat \<Rightarrow> 32 word" where
  "polymod_step checksum value =
     (let high = drop_bit 25 checksum;
          mixed = push_bit 5 (checksum AND 0x1ffffff) XOR of_nat value
      in fold (polymod_bit high) [0..<5] mixed)"

definition bech32Polymod :: "nat list \<Rightarrow> 32 word" where
  "bech32Polymod values = foldl polymod_step 1 values"

definition CHECKSUM_SLOTS :: "nat list" where
  "CHECKSUM_SLOTS = [0, 1, 2, 3, 4, 5]"

definition checksumWords :: "string \<Rightarrow> nat list \<Rightarrow> nat list" where
  "checksumWords hrp words =
     (let values = expandedHrp hrp @ words @ map (\<lambda>_. 0) CHECKSUM_SLOTS;
          polymod = bech32Polymod values XOR 1
      in map (\<lambda>slot. unat (drop_bit (5 * (5 - slot)) polymod AND 31)) CHECKSUM_SLOTS)"

text \<open>The number of bits held and the accumulator holding them, as the loops keep them.\<close>

fun emit_words :: "32 word \<Rightarrow> nat \<Rightarrow> nat list \<times> nat" where
  "emit_words acc held =
     (if held < 5 then ([], held)
      else (case emit_words acc (held - 5) of
              (rest, left) \<Rightarrow> (unat (drop_bit (held - 5) acc AND 31) # rest, left)))"

declare emit_words.simps [simp del]

fun to_words :: "32 word \<Rightarrow> nat \<Rightarrow> bytes \<Rightarrow> nat list" where
  "to_words acc held [] = (if 0 < held then [unat (push_bit (5 - held) acc AND 31)] else [])"
| "to_words acc held (b # bs) =
     (let acc' = push_bit 8 acc OR ucast b
      in case emit_words acc' (held + 8) of (out, left) \<Rightarrow> out @ to_words acc' left bs)"

definition toWords :: "bytes \<Rightarrow> nat list" where
  "toWords bs = to_words 0 0 bs"

fun words_to_bytes :: "32 word \<Rightarrow> nat \<Rightarrow> nat list \<Rightarrow> bytes" where
  "words_to_bytes acc held [] = []"
| "words_to_bytes acc held (w # ws) =
     (let acc' = push_bit 5 acc OR of_nat w
      in if 8 \<le> held + 5
         then ucast (drop_bit (held + 5 - 8) acc' AND 0xff) # words_to_bytes acc' (held + 5 - 8) ws
         else words_to_bytes acc' (held + 5) ws)"

definition wordsToBytes :: "nat list \<Rightarrow> bytes" where
  "wordsToBytes words = words_to_bytes 0 0 words"

definition readNumber :: "nat list \<Rightarrow> nat" where
  "readNumber words = foldl (\<lambda>total word. total * 32 + word) 0 words"

subsection \<open>The checksum\<close>

definition polymod_feed :: "32 word \<Rightarrow> 32 word" where
  "polymod_feed c =
     fold (\<lambda>i acc. acc XOR (if bit c (25 + i) then BECH32_GENERATOR ! i else 0)) [0..<5]
       (push_bit 5 (c AND 0x1ffffff))"

lemma polymod_bit_eq:
  "polymod_bit (drop_bit 25 c) i acc = acc XOR (if bit c (25 + i) then BECH32_GENERATOR ! i else 0)"
proof -
  have "(drop_bit i (drop_bit 25 c) AND 1 \<noteq> 0) = odd (drop_bit (25 + i) c)"
    by (simp add: and_one_eq add.commute odd_iff_mod_2_eq_one)
  then show ?thesis by (simp add: polymod_bit_def bit_iff_odd_drop_bit)
qed

lemma fold_xor: "fold (\<lambda>i acc. acc XOR g i) is (a XOR b) = fold (\<lambda>i acc. acc XOR g i) is a XOR (b :: 32 word)"
proof (induction "is" arbitrary: a)
  case (Cons i "is")
  have "(a XOR b) XOR g i = (a XOR g i) XOR b" by (simp add: ac_simps)
  then show ?case using Cons [of "a XOR g i"] by simp
qed simp

lemma fold_xor_both:
  "fold (\<lambda>i acc. acc XOR (g i XOR h i)) is (a XOR b) =
   fold (\<lambda>i acc. acc XOR g i) is a XOR fold (\<lambda>i acc. acc XOR h i) is (b :: 32 word)"
proof (induction "is" arbitrary: a b)
  case (Cons i "is")
  have "(a XOR b) XOR (g i XOR h i) = (a XOR g i) XOR (b XOR h i)" by (simp add: ac_simps)
  then show ?case using Cons by simp
qed simp

lemma polymod_step_eq: "polymod_step c v = polymod_feed c XOR of_nat v"
proof -
  have "polymod_bit (drop_bit 25 c) = (\<lambda>i acc. acc XOR (if bit c (25 + i) then BECH32_GENERATOR ! i else 0))"
    by (intro ext) (rule polymod_bit_eq)
  then show ?thesis unfolding polymod_step_def polymod_feed_def Let_def by (simp only: fold_xor)
qed

lemma push_mask_xor:
  "push_bit 5 ((a XOR b) AND 0x1ffffff) = push_bit 5 (a AND 0x1ffffff) XOR push_bit 5 ((b :: 32 word) AND 0x1ffffff)"
  by (simp add: and.commute [of _ "0x1ffffff"] bit.conj_xor_distrib push_bit_xor)

lemma polymod_feed_xor: "polymod_feed (a XOR b) = polymod_feed a XOR polymod_feed b"
proof -
  have "(if bit (a XOR b) (25 + i) then BECH32_GENERATOR ! i else 0) =
      (if bit a (25 + i) then BECH32_GENERATOR ! i else 0) XOR (if bit b (25 + i) then BECH32_GENERATOR ! i else 0)" for i
    by (auto simp: bit_xor_iff)
  then show ?thesis unfolding polymod_feed_def push_mask_xor by (simp only: fold_xor_both)
qed

lemma take_bit_not_bit: "take_bit n a = a \<Longrightarrow> n \<le> m \<Longrightarrow> \<not> bit (a :: 32 word) m"
  by (metis bit_take_bit_iff not_le)

lemma polymod_feed_small:
  assumes "take_bit 25 a = a"
  shows "polymod_feed a = push_bit 5 a"
proof -
  have high: "\<not> bit a (25 + i)" for i
    using assms by (rule take_bit_not_bit) simp
  have "a AND 0x1ffffff = a"
    using assms by (simp add: take_bit_eq_mask mask_eq_exp_minus_1)
  moreover have "fold (\<lambda>i acc. acc XOR (0 :: 32 word)) is x = x" for "is" :: "nat list" and x
    by (induction "is") simp_all
  ultimately show ?thesis by (simp add: polymod_feed_def high)
qed

lemma polymod_feed_30: "take_bit 30 (polymod_feed c) = polymod_feed c"
proof -
  have start: "take_bit 30 (push_bit 5 (c AND 0x1ffffff)) = push_bit 5 (c AND 0x1ffffff)"
  proof -
    have eq: "c AND 0x1ffffff = take_bit 25 c"
      by (simp add: take_bit_eq_mask mask_eq_exp_minus_1)
    show ?thesis
      unfolding eq by (rule bit_word_eqI) (auto simp: bit_take_bit_iff bit_push_bit_iff)
  qed
  have gen: "take_bit 30 (if q then BECH32_GENERATOR ! i else 0) = (if q then BECH32_GENERATOR ! i else 0)"
    if "i \<in> set [0..<5]" for i q
  proof -
    have "i = 0 \<or> i = 1 \<or> i = 2 \<or> i = 3 \<or> i = 4" using that by auto
    then show ?thesis
      by (elim disjE) (simp_all add: BECH32_GENERATOR_def take_bit_eq_mask mask_eq_exp_minus_1)
  qed
  show ?thesis unfolding polymod_feed_def
  proof (rule fold_invariant [where P = "\<lambda>acc. take_bit 30 acc = acc"], rule start)
    fix i s assume "i \<in> set [0..<5]" "take_bit 30 s = (s :: 32 word)"
    then show "take_bit 30 (s XOR (if bit c (25 + i) then BECH32_GENERATOR ! i else 0)) =
        s XOR (if bit c (25 + i) then BECH32_GENERATOR ! i else 0)"
      by (simp only: take_bit_xor gen)
  qed
qed

lemma polymod_tail:
  fixes v :: "nat \<Rightarrow> nat"
  assumes "\<And>i. i < 6 \<Longrightarrow> v i < 32"
  shows "foldl polymod_step s (map v [0, 1, 2, 3, 4, 5]) =
    foldl polymod_step s (map (\<lambda>_. 0) CHECKSUM_SLOTS) XOR
    (push_bit 25 (of_nat (v 0)) XOR push_bit 20 (of_nat (v 1)) XOR push_bit 15 (of_nat (v 2)) XOR
     push_bit 10 (of_nat (v 3)) XOR push_bit 5 (of_nat (v 4)) XOR of_nat (v 5))"
proof -
  have small: "take_bit k (of_nat (v i) :: 32 word) = of_nat (v i)" if "i < 6" "5 \<le> k" for i k
  proof -
    have "v i < 2 ^ k" using assms [OF that(1)] power_increasing [OF that(2), of "2::nat"] by simp
    then show ?thesis by (simp add: of_nat_take_bit [symmetric] take_bit_nat_eq_self)
  qed
  have shift: "take_bit 25 (push_bit j (of_nat (v i) :: 32 word)) = push_bit j (of_nat (v i))"
    if "i < 6" "j \<le> 20" for i j
    using that by (simp add: take_bit_push_bit small)
  have feed: "polymod_feed (of_nat (v i)) = push_bit 5 (of_nat (v i))" if "i < 6" for i
    by (rule polymod_feed_small) (simp add: small that)
  have feeds: "polymod_feed (push_bit j (of_nat (v i))) = push_bit (5 + j) (of_nat (v i))"
    if "i < 6" "j \<le> 20" for i j
    using polymod_feed_small [OF shift [OF that]] by simp
  show ?thesis
    by (simp add: CHECKSUM_SLOTS_def polymod_step_eq polymod_feed_xor feed feeds xor.assoc)
qed

lemma five_bit_groups:
  assumes "take_bit 30 y = (y :: 32 word)"
  shows "push_bit 25 (drop_bit 25 y AND 31) XOR push_bit 20 (drop_bit 20 y AND 31) XOR
    push_bit 15 (drop_bit 15 y AND 31) XOR push_bit 10 (drop_bit 10 y AND 31) XOR
    push_bit 5 (drop_bit 5 y AND 31) XOR (y AND 31) = y"
proof -
  have masked: "push_bit k (drop_bit k y AND 31) = y AND push_bit k 31" for k
    by (rule bit_word_eqI) (auto simp: bit_simps)
  have "push_bit 25 31 XOR push_bit 20 31 XOR push_bit 15 31 XOR push_bit 10 31 XOR push_bit 5 31 XOR 31
      = (mask 30 :: 32 word)"
    by (simp add: mask_eq_exp_minus_1 push_bit_eq_mult)
  then have "y AND (push_bit 25 31 XOR push_bit 20 31 XOR push_bit 15 31 XOR push_bit 10 31 XOR push_bit 5 31 XOR 31) = y"
    using assms by (simp add: take_bit_eq_mask)
  then show ?thesis by (simp only: masked bit.conj_xor_distrib)
qed

lemma polymod_checksum: "bech32Polymod (expandedHrp hrp @ words @ checksumWords hrp words) = 1"
proof -
  define s where "s = foldl polymod_step 1 (expandedHrp hrp @ words)"
  define P where "P = foldl polymod_step s (map (\<lambda>_. 0) CHECKSUM_SLOTS)"
  define y where "y = P XOR 1"
  define v where "v slot = unat (drop_bit (5 * (5 - slot)) y AND 31)" for slot
  have P30: "take_bit 30 P = P"
    by (simp add: P_def CHECKSUM_SLOTS_def polymod_step_eq polymod_feed_30)
  then have y30: "take_bit 30 y = y" by (simp add: y_def take_bit_xor)
  have words: "checksumWords hrp words = map v [0, 1, 2, 3, 4, 5]"
    by (simp add: checksumWords_def Let_def bech32Polymod_def v_def y_def P_def s_def CHECKSUM_SLOTS_def)
  have v: "v i < 32" for i
    using word_and_le1 [of "drop_bit (5 * (5 - i)) y" 31] unfolding v_def by (simp add: word_le_nat_alt)
  have again: "of_nat (v i) = drop_bit (5 * (5 - i)) y AND 31" for i by (simp add: v_def)
  have "bech32Polymod (expandedHrp hrp @ words @ checksumWords hrp words) =
      P XOR (push_bit 25 (of_nat (v 0)) XOR push_bit 20 (of_nat (v 1)) XOR push_bit 15 (of_nat (v 2)) XOR
        push_bit 10 (of_nat (v 3)) XOR push_bit 5 (of_nat (v 4)) XOR of_nat (v 5))"
    unfolding bech32Polymod_def words P_def s_def using polymod_tail [OF v] by simp
  also have "\<dots> = P XOR y"
    using five_bit_groups [OF y30] by (simp add: again)
  also have "\<dots> = 1" by (simp add: y_def flip: xor.assoc)
  finally show ?thesis .
qed

subsection \<open>Regrouping bits\<close>

text \<open>The lowest \<open>n\<close> bits of a number, the highest of them first.\<close>

definition bits_of :: "'a::semiring_bit_operations \<Rightarrow> nat \<Rightarrow> bool list" where
  "bits_of a n = map (bit a) (rev [0..<n])"

lemma length_bits_of [simp]: "length (bits_of a n) = n"
  by (simp add: bits_of_def)

lemma bits_of_0 [simp]: "bits_of a 0 = []"
  by (simp add: bits_of_def)

lemma rev_upt_add: "rev [0..<n + k] = map (\<lambda>i. i + k) (rev [0..<n]) @ rev [0..<k]"
proof -
  have "[0..<n + k] = [0..<k] @ map (\<lambda>i. i + k) [0..<n]"
    by (simp add: map_add_upt add.commute upt_add_eq_append [of 0 k n])
  then show ?thesis by (simp add: rev_map)
qed

lemma bits_of_push_or:
  fixes a w :: "32 word"
  assumes "\<And>i. k \<le> i \<Longrightarrow> \<not> bit w i" "n + k \<le> 32"
  shows "bits_of (push_bit k a OR w) (n + k) = bits_of a n @ bits_of w k"
  unfolding bits_of_def rev_upt_add using assms
  by (auto simp: bit_simps)

lemma bits_of_split: "bits_of a (m + h) = bits_of (drop_bit h a) m @ bits_of (a :: 32 word) h"
  unfolding bits_of_def rev_upt_add by (auto simp: bit_drop_bit_eq add.commute)

lemma bits_of_mask: "bits_of (x AND mask m) m = bits_of (x :: 32 word) m"
  unfolding bits_of_def by (auto simp: bit_and_iff bit_mask_iff dest: bit_imp_le_length)

lemma bits_of_zero: "bits_of (0 :: 32 word) n = replicate n False"
  by (rule nth_equalityI) (simp_all add: bits_of_def)

lemma bits_of_unat: "bits_of (unat x) n = bits_of (x :: 32 word) n"
  unfolding bits_of_def by (simp add: bit_unsigned_iff)

lemma mask_simps: "31 = (mask 5 :: 32 word)" "0xff = (mask 8 :: 32 word)"
  by (simp_all add: mask_eq_exp_minus_1)

definition bits5 :: "nat list \<Rightarrow> bool list" where
  "bits5 ws = concat (map (\<lambda>w. bits_of w 5) ws)"

definition bits8 :: "bytes \<Rightarrow> bool list" where
  "bits8 bs = concat (map (\<lambda>b. bits_of b 8) bs)"

lemma bits5_simps [simp]: "bits5 [] = []" "bits5 (w # ws) = bits_of w 5 @ bits5 ws"
  "bits5 (vs @ ws) = bits5 vs @ bits5 ws"
  by (simp_all add: bits5_def)

lemma bits8_simps [simp]: "bits8 [] = []" "bits8 (b # bs) = bits_of b 8 @ bits8 bs"
  by (simp_all add: bits8_def)

lemma length_bits5 [simp]: "length (bits5 ws) = 5 * length ws"
  by (induction ws) auto

lemma length_bits8 [simp]: "length (bits8 bs) = 8 * length bs"
  by (induction bs) auto

lemma emit_words_bits:
  "fst (emit_words acc held) = ws \<Longrightarrow> snd (emit_words acc held) = left \<Longrightarrow>
     left < 5 \<and> left \<le> held \<and> (\<forall>w\<in>set ws. w < 32) \<and> bits5 ws @ bits_of acc left = bits_of acc held"
proof (induction acc held arbitrary: ws left rule: emit_words.induct)
  case (1 acc held)
  show ?case
  proof (cases "held < 5")
    case True
    then show ?thesis using 1 by (auto simp: emit_words.simps [of acc held])
  next
    case False
    obtain rest left' where r: "emit_words acc (held - 5) = (rest, left')" by fastforce
    let ?w = "unat (drop_bit (held - 5) acc AND 31)"
    have eq: "emit_words acc held = (?w # rest, left')"
      using False r by (simp add: emit_words.simps [of acc held])
    have IH: "left' < 5 \<and> left' \<le> held - 5 \<and> (\<forall>w\<in>set rest. w < 32) \<and>
        bits5 rest @ bits_of acc left' = bits_of acc (held - 5)"
      using 1(1) [OF False] r by simp
    have "?w < 32"
      using word_and_le1 [of "drop_bit (held - 5) acc" 31] by (simp add: word_le_nat_alt)
    moreover have "bits_of ?w 5 = bits_of (drop_bit (held - 5) acc) 5"
      by (simp only: bits_of_unat mask_simps bits_of_mask)
    moreover have "bits_of acc held = bits_of (drop_bit (held - 5) acc) 5 @ bits_of acc (held - 5)"
      using False bits_of_split [of acc 5 "held - 5"] by simp
    ultimately show ?thesis using 1(2,3) IH eq by auto
  qed
qed

lemma byte_no_high: "8 \<le> i \<Longrightarrow> \<not> bit (ucast (b :: 8 word) :: 32 word) i"
  by (auto simp: bit_ucast_iff dest: bit_imp_le_length)

lemma bits_of_ucast: "n \<le> 8 \<Longrightarrow> bits_of (ucast (b :: 8 word) :: 32 word) n = bits_of b n"
  unfolding bits_of_def by (auto simp: bit_ucast_iff)

lemma bits_of_push: "n \<le> 5 \<Longrightarrow> bits_of (push_bit (5 - n) acc AND 31 :: 32 word) 5 = bits_of acc n @ replicate (5 - n) False"
proof -
  assume n: "n \<le> 5"
  have "bits_of (push_bit (5 - n) acc OR 0) (n + (5 - n)) = bits_of acc n @ bits_of (0 :: 32 word) (5 - n)"
    by (rule bits_of_push_or) (use n in auto)
  moreover have "bits_of (0 :: 32 word) (5 - n) = replicate (5 - n) False"
    by (rule bits_of_zero)
  ultimately show ?thesis using n by (simp only: mask_simps bits_of_mask) simp
qed

lemma to_words_bits:
  assumes "held < 5"
  shows "\<exists>pad < 5. bits5 (to_words acc held bs) = bits_of acc held @ bits8 bs @ replicate pad False
    \<and> (\<forall>w\<in>set (to_words acc held bs). w < 32)"
  using assms
proof (induction bs arbitrary: acc held)
  case Nil
  have "unat (push_bit (5 - held) acc AND 31) < 32"
    using word_and_le1 [of "push_bit (5 - held) acc" 31] by (simp add: word_le_nat_alt)
  moreover have "bits_of (unat (push_bit (5 - held) acc AND 31)) 5 = bits_of acc held @ replicate (5 - held) False"
    using Nil by (simp only: bits_of_unat bits_of_push less_imp_le)
  ultimately show ?case
    using Nil by (cases "held = 0") (auto intro: exI [of _ "5 - held"] exI [of _ 0])
next
  case (Cons b bs)
  define acc' where "acc' = push_bit 8 acc OR ucast b"
  obtain out left where e: "emit_words acc' (held + 8) = (out, left)" by fastforce
  then have out: "left < 5" "\<forall>w\<in>set out. w < 32" "bits5 out @ bits_of acc' left = bits_of acc' (held + 8)"
    using emit_words_bits [of acc' "held + 8" out left] by auto
  have acc': "bits_of acc' (held + 8) = bits_of acc held @ bits_of b 8"
    unfolding acc'_def using Cons.prems bits_of_push_or [of 8 "ucast b" held acc] byte_no_high
    by (simp add: bits_of_ucast)
  obtain pad where pad: "pad < 5"
    "bits5 (to_words acc' left bs) = bits_of acc' left @ bits8 bs @ replicate pad False"
    "\<forall>w\<in>set (to_words acc' left bs). w < 32"
    using Cons.IH [OF out(1)] by blast
  have eq: "to_words acc held (b # bs) = out @ to_words acc' left bs"
    by (simp add: e Let_def flip: acc'_def)
  show ?case
    unfolding eq using pad out acc' by (intro exI [of _ pad]) (auto simp flip: append_assoc)
qed

lemma small_no_high: "w < 32 \<Longrightarrow> 5 \<le> i \<Longrightarrow> \<not> bit (of_nat w :: 32 word) i"
proof -
  assume "w < 32" "5 \<le> i"
  then have "w < 2 ^ i" using power_increasing [of 5 i "2::nat"] by simp
  then have "\<not> bit w i" by (simp add: bit_iff_odd)
  then show ?thesis by (simp only: bit_of_nat_iff) simp
qed

lemma bits_of_of_nat: "n \<le> 32 \<Longrightarrow> bits_of (of_nat w :: 32 word) n = bits_of w n"
  unfolding bits_of_def by (auto simp: bit_of_nat_iff)

lemma bits_of_ucast_byte: "bits_of (ucast (x AND 0xff :: 32 word) :: 8 word) 8 = bits_of x 8"
  unfolding bits_of_def mask_simps by (auto simp: bit_ucast_iff bit_and_iff bit_mask_iff bit_imp_le_length)

lemma words_to_bytes_bits:
  assumes "held < 8" "\<forall>w\<in>set ws. w < 32"
  shows "bits8 (words_to_bytes acc held ws) =
      take (8 * ((held + 5 * length ws) div 8)) (bits_of acc held @ bits5 ws)
    \<and> length (words_to_bytes acc held ws) = (held + 5 * length ws) div 8"
  using assms
proof (induction ws arbitrary: acc held)
  case (Cons w ws)
  then have prems: "held < 8" "w < 32" "\<forall>w\<in>set ws. w < 32" by auto
  define acc' where "acc' = push_bit 5 acc OR of_nat w"
  have acc': "bits_of acc' (held + 5) = bits_of acc held @ bits_of w 5"
    unfolding acc'_def using bits_of_push_or [of 5 "of_nat w" held acc] small_no_high prems
    by (simp add: bits_of_of_nat)
  have shift: "held + 5 * length (w # ws) = held + 5 + 5 * length ws" by simp
  show ?case
  proof (cases "8 \<le> held + 5")
    case True
    define left where "left = held + 5 - 8"
    have left: "left < 8" "held + 5 = 8 + left" using True prems by (auto simp: left_def)
    have whole: "bits_of acc held @ bits_of w 5 = bits_of (drop_bit left acc') 8 @ bits_of acc' left"
      using acc' bits_of_split [of acc' 8 left] left by simp
    have eq: "words_to_bytes acc held (w # ws) = ucast (drop_bit left acc' AND 0xff) # words_to_bytes acc' left ws"
      using True by (simp add: Let_def left_def acc'_def)
    have n: "(held + 5 * length (w # ws)) div 8 = Suc ((left + 5 * length ws) div 8)"
      unfolding shift left(2) by simp
    have joined: "bits_of acc held @ bits5 (w # ws) = bits_of (drop_bit left acc') 8 @ (bits_of acc' left @ bits5 ws)"
      using arg_cong [OF whole, of "\<lambda>l. l @ bits5 ws"] by simp
    show ?thesis
      unfolding eq n joined using Cons.IH [OF left(1) prems(3), of acc'] by (simp add: bits_of_ucast_byte)
  next
    case False
    then have "words_to_bytes acc held (w # ws) = words_to_bytes acc' (held + 5) ws"
      by (simp add: Let_def acc'_def)
    then show ?thesis
      using Cons.IH [of "held + 5" acc'] False prems acc' unfolding shift by simp
  qed
qed simp

lemma bits8_inject: "length as = length bs \<Longrightarrow> bits8 as = bits8 bs \<Longrightarrow> as = bs"
proof (induction as bs rule: list_induct2)
  case (Cons a as b bs)
  then have "bits_of a 8 = bits_of b 8" "bits8 as = bits8 bs" by auto
  moreover have "a = b" if "bits_of a 8 = bits_of b 8"
    using that by (intro bit_word_eqI) (auto simp: bits_of_def)
  ultimately show ?case using Cons.IH by simp
qed simp

lemma toWords_small: "\<forall>w\<in>set (toWords bs). w < 32"
  using to_words_bits [of 0 0 bs] by (auto simp: toWords_def)

lemma wordsToBytes_toWords: "wordsToBytes (toWords bs) = bs"
proof -
  obtain pad where pad: "pad < 5" "bits5 (toWords bs) = bits8 bs @ replicate pad False"
    using to_words_bits [of 0 0 bs] by (auto simp: toWords_def)
  have len: "5 * length (toWords bs) = 8 * length bs + pad"
    using arg_cong [OF pad(2), of length] by simp
  then have n: "(0 + 5 * length (toWords bs)) div 8 = length bs" using pad(1) by simp
  show ?thesis
    using words_to_bytes_bits [of 0 "toWords bs" 0] toWords_small [of bs] n pad(2)
    by (intro bits8_inject) (simp_all add: wordsToBytes_def)
qed

subsection \<open>The character set\<close>

lemma index_of_nth: "distinct xs \<Longrightarrow> i < length xs \<Longrightarrow> index_of (xs ! i) xs = Some i"
  by (induction xs arbitrary: i) (auto simp: nth_Cons split: nat.splits)

lemma charset: "distinct BECH32_CHARSET" "length BECH32_CHARSET = 32"
  by (simp_all add: BECH32_CHARSET_def)

lemma lower_upper_plain: "list_all (\<lambda>c. lower_char (upper_char c) = c) s \<Longrightarrow> lower (upper s) = s"
  by (induction s) (auto simp: lower_def upper_def)

lemma lower_upper_char:
  assumes "is_digit c \<or> (97 \<le> code c \<and> code c \<le> 122)"
  shows "lower_char (upper_char c) = c"
proof (cases "is_digit c")
  case True
  then show ?thesis by (auto simp: upper_char_def lower_char_def is_digit_def)
next
  case False
  then have c: "97 \<le> code c" "code c \<le> 122" using assms by auto
  then have up: "code (upper_char c) = code c - 32" by (simp add: upper_char_def)
  have "65 \<le> code c - 32 \<and> code c - 32 \<le> 90" using c by linarith
  then have "lower_char (upper_char c) = char_of (code c - 32 + 32)"
    unfolding lower_char_def up by (simp only: if_True simp_thms)
  also have "\<dots> = c" using c by simp
  finally show ?thesis .
qed

lemma charset_plain: "list_all (\<lambda>c. lower_char (upper_char c) = c) BECH32_CHARSET"
proof -
  have "list_all (\<lambda>c. is_digit c \<or> (97 \<le> code c \<and> code c \<le> 122)) BECH32_CHARSET"
    by (simp add: BECH32_CHARSET_def is_digit_def code_def)
  then show ?thesis by (auto simp: list_all_iff lower_upper_char)
qed

lemma checksumWords_small: "\<forall>w\<in>set (checksumWords hrp words). w < 32"
proof -
  have "unat (x AND 31) < 32" for x :: "32 word"
    using word_and_le1 [of x 31] by (simp add: word_le_nat_alt)
  then show ?thesis by (simp add: checksumWords_def Let_def CHECKSUM_SLOTS_def)
qed

lemma length_checksumWords: "length (checksumWords hrp words) = 6"
  by (simp add: checksumWords_def Let_def CHECKSUM_SLOTS_def)

lemma read_charset:
  assumes "\<forall>w\<in>set ws. w < 32"
  shows "those_of (map (\<lambda>c. index_of c BECH32_CHARSET) (map (\<lambda>w. BECH32_CHARSET ! w) ws)) = Some ws"
proof -
  have eq: "map (\<lambda>c. index_of c BECH32_CHARSET) (map (\<lambda>w. BECH32_CHARSET ! w) ws) = map Some ws"
    using assms by (auto simp: index_of_nth charset)
  show ?thesis unfolding eq using those_of_map_Some [of "\<lambda>x. x" ws] by simp
qed

end
