(* ===== verification/Sha256.thy ===== *)
theory Sha256
  imports Bytes
begin

text \<open>
  \<^verbatim>\<open>core/sha256.ts\<close>, the hand-written SHA-256 the gateway and the client check preimages
  with. The first part follows the code: one padded buffer, a schedule array that is
  overwritten block by block, eight working variables. The second part states the
  algorithm as FIPS 180-4 does, by concatenation and recursion, and proves that the code
  computes it. A byte array index is always in range here, so \<^term>\<open>xs ! i\<close> reads what
  the code reads.
\<close>

type_synonym u32 = "32 word"

subsection \<open>Constants\<close>

definition ROUND_CONSTANTS :: "u32 list" where
  "ROUND_CONSTANTS =
   concat
    [[0x428a2f98, 0x71374491, 0xb5c0fbcf, 0xe9b5dba5, 0x3956c25b, 0x59f111f1, 0x923f82a4, 0xab1c5ed5],
     [0xd807aa98, 0x12835b01, 0x243185be, 0x550c7dc3, 0x72be5d74, 0x80deb1fe, 0x9bdc06a7, 0xc19bf174],
     [0xe49b69c1, 0xefbe4786, 0x0fc19dc6, 0x240ca1cc, 0x2de92c6f, 0x4a7484aa, 0x5cb0a9dc, 0x76f988da],
     [0x983e5152, 0xa831c66d, 0xb00327c8, 0xbf597fc7, 0xc6e00bf3, 0xd5a79147, 0x06ca6351, 0x14292967],
     [0x27b70a85, 0x2e1b2138, 0x4d2c6dfc, 0x53380d13, 0x650a7354, 0x766a0abb, 0x81c2c92e, 0x92722c85],
     [0xa2bfe8a1, 0xa81a664b, 0xc24b8b70, 0xc76c51a3, 0xd192e819, 0xd6990624, 0xf40e3585, 0x106aa070],
     [0x19a4c116, 0x1e376c08, 0x2748774c, 0x34b0bcb5, 0x391c0cb3, 0x4ed8aa4a, 0x5b9cca4f, 0x682e6ff3],
     [0x748f82ee, 0x78a5636f, 0x84c87814, 0x8cc70208, 0x90befffa, 0xa4506ceb, 0xbef9a3f7, 0xc67178f2]]"

definition INITIAL_STATE :: "u32 list" where
  "INITIAL_STATE =
   [0x6a09e667, 0xbb67ae85, 0x3c6ef372, 0xa54ff53a, 0x510e527f, 0x9b05688c, 0x1f83d9ab, 0x5be0cd19]"

definition BLOCK_BYTES :: nat where "BLOCK_BYTES = 64"
definition LENGTH_BYTES :: nat where "LENGTH_BYTES = 8"
definition SCHEDULE_WORDS :: nat where "SCHEDULE_WORDS = 64"

lemmas sha_sizes = BLOCK_BYTES_def LENGTH_BYTES_def SCHEDULE_WORDS_def

subsection \<open>The code\<close>

definition rotate :: "u32 \<Rightarrow> nat \<Rightarrow> u32" where
  "rotate v by = (drop_bit by v) OR (push_bit (32 - by) v)"

text \<open>\<^verbatim>\<open>DataView.getUint32(at, false)\<close> and \<^verbatim>\<open>setUint32(at, value, false)\<close>: big-endian.\<close>

definition get_uint32 :: "bytes \<Rightarrow> nat \<Rightarrow> u32" where
  "get_uint32 bs at =
     (push_bit 24 (ucast (bs ! at)) OR push_bit 16 (ucast (bs ! (at + 1)))
      OR push_bit 8 (ucast (bs ! (at + 2))) OR ucast (bs ! (at + 3)))"

definition uint32_bytes :: "u32 \<Rightarrow> bytes" where
  "uint32_bytes v = [ucast (drop_bit 24 v), ucast (drop_bit 16 v), ucast (drop_bit 8 v), ucast v]"

definition set_uint32 :: "bytes \<Rightarrow> nat \<Rightarrow> u32 \<Rightarrow> bytes" where
  "set_uint32 bs at v =
     bs[at := ucast (drop_bit 24 v), at + 1 := ucast (drop_bit 16 v),
        at + 2 := ucast (drop_bit 8 v), at + 3 := ucast v]"

text \<open>The length is masked to whole blocks, and its low 32 bits of bits are written last.\<close>

definition padded_length :: "nat \<Rightarrow> nat" where
  "padded_length n =
     nat (int (n + 1 + LENGTH_BYTES + BLOCK_BYTES - 1) AND NOT (int (BLOCK_BYTES - 1)))"

definition withPadding :: "bytes \<Rightarrow> bytes" where
  "withPadding bs =
     (let size = padded_length (length bs);
          padded = replicate size 0;
          padded = bs @ drop (length bs) padded;
          padded = padded[length bs := 0x80]
      in set_uint32 padded (size - 4) (of_nat (length bs * 8)))"

definition schedule_word :: "u32 list \<Rightarrow> nat \<Rightarrow> u32" where
  "schedule_word schedule at =
     (let recent = schedule ! (at - 15);
          distant = schedule ! (at - 2);
          mixedRecent = rotate recent 7 XOR rotate recent 18 XOR drop_bit 3 recent;
          mixedDistant = rotate distant 17 XOR rotate distant 19 XOR drop_bit 10 distant
      in schedule ! (at - 16) + mixedRecent + schedule ! (at - 7) + mixedDistant)"

definition fillSchedule :: "u32 list \<Rightarrow> bytes \<Rightarrow> nat \<Rightarrow> u32 list" where
  "fillSchedule schedule reader block =
     fold (\<lambda>at sch. sch[at := schedule_word sch at]) [16..<SCHEDULE_WORDS]
       (fold (\<lambda>at sch. sch[at := get_uint32 reader (block + at * 4)]) [0..<16] schedule)"

type_synonym rolling = "u32 \<times> u32 \<times> u32 \<times> u32 \<times> u32 \<times> u32 \<times> u32 \<times> u32"

fun compress_round :: "u32 list \<Rightarrow> nat \<Rightarrow> rolling \<Rightarrow> rolling" where
  "compress_round schedule round (a, b, c, d, e, f, g, h) =
     (let chosen = (e AND f) XOR (NOT e AND g);
          majority = (a AND b) XOR (a AND c) XOR (b AND c);
          mixedE = rotate e 6 XOR rotate e 11 XOR rotate e 25;
          mixedA = rotate a 2 XOR rotate a 13 XOR rotate a 22;
          carried = h + mixedE + chosen + ROUND_CONSTANTS ! round + schedule ! round
      in (carried + (mixedA + majority), a, b, c, d + carried, e, f, g))"

definition compress :: "u32 list \<Rightarrow> u32 list \<Rightarrow> u32 list" where
  "compress state schedule =
     (case fold (compress_round schedule) [0..<SCHEDULE_WORDS]
             (state ! 0, state ! 1, state ! 2, state ! 3, state ! 4, state ! 5, state ! 6, state ! 7) of
        (a, b, c, d, e, f, g, h) \<Rightarrow>
          fold (\<lambda>at st. st[at := st ! at + [a, b, c, d, e, f, g, h] ! at]) [0..<length state] state)"

definition asBytes :: "u32 list \<Rightarrow> bytes" where
  "asBytes state = concat (map uint32_bytes state)"

text \<open>
  The loop over the blocks carries the state and the schedule, which is not cleared between
  blocks.
\<close>

definition sha256_step :: "bytes \<Rightarrow> nat \<Rightarrow> u32 list \<times> u32 list \<Rightarrow> u32 list \<times> u32 list" where
  "sha256_step padded block = (\<lambda>(state, schedule).
     let schedule' = fillSchedule schedule padded block
     in (compress state schedule', schedule'))"

definition sha256 :: "bytes \<Rightarrow> bytes" where
  "sha256 bs =
     (let padded = withPadding bs;
          blocks = map (\<lambda>k. k * BLOCK_BYTES) [0..<length padded div BLOCK_BYTES]
      in asBytes (fst (fold (sha256_step padded) blocks (INITIAL_STATE, replicate SCHEDULE_WORDS 0))))"

definition sha256Hex :: "string \<Rightarrow> string" where
  "sha256Hex text = bytesToHex (sha256 (utf8 text))"


subsection \<open>The algorithm of FIPS 180-4\<close>

text \<open>
  The message, the bit 1, as few zeros as fill the last block, and the length in bits as a
  64-bit big-endian number.
\<close>

definition uint64_bytes :: "64 word \<Rightarrow> bytes" where
  "uint64_bytes v = map (\<lambda>k. ucast (drop_bit (8 * (7 - k)) v)) [0..<8]"

definition fips_padding :: "bytes \<Rightarrow> bytes" where
  "fips_padding m =
     m @ [0x80] @ replicate (nat ((55 - int (length m)) mod 64)) 0
       @ uint64_bytes (of_nat (8 * length m))"

definition Ch :: "u32 \<Rightarrow> u32 \<Rightarrow> u32 \<Rightarrow> u32" where
  "Ch x y z = (x AND y) XOR (NOT x AND z)"

definition Maj :: "u32 \<Rightarrow> u32 \<Rightarrow> u32 \<Rightarrow> u32" where
  "Maj x y z = (x AND y) XOR (x AND z) XOR (y AND z)"

definition Sigma0 :: "u32 \<Rightarrow> u32" where
  "Sigma0 x = word_rotr 2 x XOR word_rotr 13 x XOR word_rotr 22 x"

definition Sigma1 :: "u32 \<Rightarrow> u32" where
  "Sigma1 x = word_rotr 6 x XOR word_rotr 11 x XOR word_rotr 25 x"

definition sigma0 :: "u32 \<Rightarrow> u32" where
  "sigma0 x = word_rotr 7 x XOR word_rotr 18 x XOR drop_bit 3 x"

definition sigma1 :: "u32 \<Rightarrow> u32" where
  "sigma1 x = word_rotr 17 x XOR word_rotr 19 x XOR drop_bit 10 x"

text \<open>The message schedule of one block, by the recursion of the standard.\<close>

fun fips_W :: "(nat \<Rightarrow> u32) \<Rightarrow> nat \<Rightarrow> u32" where
  "fips_W M t =
     (if t < 16 then M t
      else sigma1 (fips_W M (t - 2)) + fips_W M (t - 7)
           + sigma0 (fips_W M (t - 15)) + fips_W M (t - 16))"

declare fips_W.simps [simp del]

fun fips_round :: "(nat \<Rightarrow> u32) \<Rightarrow> nat \<Rightarrow> rolling \<Rightarrow> rolling" where
  "fips_round W t (a, b, c, d, e, f, g, h) =
     (let T1 = h + Sigma1 e + Ch e f g + ROUND_CONSTANTS ! t + W t;
          T2 = Sigma0 a + Maj a b c
      in (T1 + T2, a, b, c, d + T1, e, f, g))"

definition rolling_of :: "u32 list \<Rightarrow> rolling" where
  "rolling_of H = (H ! 0, H ! 1, H ! 2, H ! 3, H ! 4, H ! 5, H ! 6, H ! 7)"

definition fips_block :: "(nat \<Rightarrow> u32) \<Rightarrow> u32 list \<Rightarrow> u32 list" where
  "fips_block M H =
     (case fold (fips_round (fips_W M)) [0..<64] (rolling_of H) of
        (a, b, c, d, e, f, g, h) \<Rightarrow>
          [H ! 0 + a, H ! 1 + b, H ! 2 + c, H ! 3 + d, H ! 4 + e, H ! 5 + f, H ! 6 + g, H ! 7 + h])"

definition fips_sha256 :: "bytes \<Rightarrow> bytes" where
  "fips_sha256 m =
     (let p = fips_padding m
      in asBytes (fold (\<lambda>i. fips_block (\<lambda>t. get_uint32 p (64 * i + 4 * t)))
                   [0..<length p div 64] INITIAL_STATE))"

subsection \<open>The code computes it\<close>

lemma rotate_eq_rotr:
  assumes "0 < by" "by < 32"
  shows "rotate v by = word_rotr by v"
proof (rule bit_word_eqI)
  fix n assume n: "n < LENGTH(32)"
  show "bit (rotate v by) n = bit (word_rotr by v) n"
  proof (cases "n + by < 32")
    case True
    with n assms show ?thesis
      by (auto simp: rotate_def bit_simps ac_simps)
  next
    case False
    with n assms have "(n + by) mod 32 = n + by - 32"
      by (simp add: mod_if)
    with False n assms show ?thesis
      by (auto simp: rotate_def bit_simps ac_simps dest: bit_imp_le_length)
  qed
qed

lemma padded_length_eq: "padded_length n = (n + 72) div 64 * 64"
proof -
  have "x AND NOT (mask 6) = push_bit 6 (drop_bit 6 x)" for x :: int
    by (rule bit_eqI) (auto simp: bit_simps)
  moreover have "mask 6 = (63 :: int)" by (simp add: mask_eq_exp_minus_1)
  ultimately have "int (n + 72) AND NOT 63 = push_bit 6 (drop_bit 6 (int (n + 72)))"
    by metis
  also have "\<dots> = int (n + 72) div 64 * 64"
    by (simp add: push_bit_eq_mult drop_bit_eq_div)
  finally have "int (n + 72) AND NOT 63 = int (n + 72) div 64 * 64" .
  then have "nat (int (n + 72) AND NOT 63) = (n + 72) div 64 * 64"
    by (metis nat_int zdiv_int of_nat_mult of_nat_numeral)
  moreover have "n + 1 + LENGTH_BYTES + BLOCK_BYTES - 1 = n + 72" "int (BLOCK_BYTES - 1) = 63"
    by (simp_all add: sha_sizes)
  ultimately show ?thesis by (simp only: padded_length_def)
qed

lemma fold_array_fill:
  assumes "length s = n" and "\<And>t sch. t < K \<Longrightarrow> length sch = n \<Longrightarrow> m \<le> t \<Longrightarrow>
      (\<And>u. u < t \<Longrightarrow> sch ! u = w u) \<Longrightarrow> g sch t = w t"
    and "\<And>u. u < m \<Longrightarrow> s ! u = w u" and "m \<le> k" "k \<le> K" "K \<le> n"
  shows "length (fold (\<lambda>t sch. sch[t := g sch t]) [m..<k] s) = n \<and>
    (\<forall>u<k. fold (\<lambda>t sch. sch[t := g sch t]) [m..<k] s ! u = w u)"
  using \<open>m \<le> k\<close> \<open>k \<le> K\<close>
proof (induction k rule: dec_induct)
  case base
  then show ?case using assms by simp
next
  case (step k)
  let ?sch = "fold (\<lambda>t sch. sch[t := g sch t]) [m..<k] s"
  have IH: "length ?sch = n" "\<And>u. u < k \<Longrightarrow> ?sch ! u = w u"
    using step by auto
  then have "g ?sch k = w k" using step assms(2) by simp
  with IH step \<open>K \<le> n\<close> show ?case by (auto simp: less_Suc_eq nth_list_update)
qed

lemma fips_W_init: "t < 16 \<Longrightarrow> fips_W M t = M t"
  by (subst fips_W.simps) simp

lemma fillSchedule_eq_W:
  assumes "length schedule = 64"
  shows "length (fillSchedule schedule p block) = 64 \<and>
    (\<forall>t<64. fillSchedule schedule p block ! t = fips_W (\<lambda>t. get_uint32 p (block + 4 * t)) t)"
proof -
  let ?M = "\<lambda>t. get_uint32 p (block + 4 * t)"
  define first where
    "first = fold (\<lambda>at sch. sch[at := get_uint32 p (block + at * 4)]) [0..<16] schedule"
  have first: "length first = 64 \<and> (\<forall>u<16. first ! u = fips_W ?M u)"
    unfolding first_def
    by (rule fold_array_fill [where g = "\<lambda>sch at. get_uint32 p (block + at * 4)" and n = 64
          and w = "fips_W ?M" and m = 0 and k = 16 and K = 16 and s = schedule])
      (use assms in \<open>auto simp: fips_W_init mult.commute\<close>)
  have "length (fold (\<lambda>t sch. sch[t := schedule_word sch t]) [16..<64] first) = 64 \<and>
    (\<forall>u<64. fold (\<lambda>t sch. sch[t := schedule_word sch t]) [16..<64] first ! u = fips_W ?M u)"
  proof (rule fold_array_fill [where K = 64 and n = 64 and k = 64 and m = 16 and s = first
        and w = "fips_W ?M" and g = schedule_word])
    show "length first = 64" "\<And>u. u < 16 \<Longrightarrow> first ! u = fips_W ?M u" using first by blast+
  next
    fix t sch
    assume "t < 64" "length sch = 64" and t: "16 \<le> t"
      and IH: "\<And>u. u < t \<Longrightarrow> sch ! u = fips_W ?M u"
    then have "sch ! (t - 15) = fips_W ?M (t - 15)" "sch ! (t - 2) = fips_W ?M (t - 2)"
      "sch ! (t - 7) = fips_W ?M (t - 7)" "sch ! (t - 16) = fips_W ?M (t - 16)"
      by simp_all
    moreover have "fips_W ?M t = sigma1 (fips_W ?M (t - 2)) + fips_W ?M (t - 7)
        + sigma0 (fips_W ?M (t - 15)) + fips_W ?M (t - 16)"
      using t by (subst fips_W.simps) simp
    ultimately show "schedule_word sch t = fips_W ?M t"
      by (simp add: schedule_word_def sigma0_def sigma1_def rotate_eq_rotr Let_def)
  qed simp_all
  then show ?thesis unfolding fillSchedule_def SCHEDULE_WORDS_def first_def .
qed

lemma compress_round_eq:
  "schedule ! t = W t \<Longrightarrow> compress_round schedule t r = fips_round W t r"
  by (induction W t r rule: fips_round.induct)
    (simp add: Let_def rotate_eq_rotr Ch_def Maj_def Sigma0_def Sigma1_def)

lemma compress_eq_block:
  assumes "length schedule = 64" "\<forall>t<64. schedule ! t = fips_W M t" "length H = 8"
  shows "compress H schedule = fips_block M H"
proof -
  have f: "fold (compress_round schedule) [0..<64] r = fold (fips_round (fips_W M)) [0..<64] r" for r
    by (intro fold_cong refl ext compress_round_eq) (use assms in auto)
  have upt8: "[0..<8] = [0, 1, 2, 3, 4, 5, 6, 7]"
    by (simp add: upt_conv_Cons)
  obtain h0 h1 h2 h3 h4 h5 h6 h7 where H: "H = [h0, h1, h2, h3, h4, h5, h6, h7]"
    using assms(3) by (auto simp: length_Suc_conv eval_nat_numeral)
  show ?thesis
    by (simp add: compress_def fips_block_def rolling_of_def sha_sizes f H upt8
        split: prod.split)
qed

lemma length_fips_block [simp]: "length (fips_block M H) = 8"
  by (simp add: fips_block_def split: prod.split)

lemma length_uint64_bytes [simp]: "length (uint64_bytes v) = 8"
  by (simp add: uint64_bytes_def)

lemma uint64_bytes_small:
  assumes "n < 2 ^ 32"
  shows "uint64_bytes (of_nat n) = [0, 0, 0, 0] @ uint32_bytes (of_nat n)"
proof -
  have small: "\<not> bit (word_of_nat n :: 64 word) k" if "32 \<le> k" for k
  proof -
    from assms have "take_bit 32 n = n" by (simp add: take_bit_nat_eq_self)
    with that have "\<not> bit n k" by (metis bit_take_bit_iff linorder_not_le)
    then show ?thesis by (simp add: bit_simps)
  qed
  have "ucast (drop_bit (8 * (7 - k)) (word_of_nat n :: 64 word)) = (0 :: 8 word)" if "k < 4" for k
    by (rule bit_word_eqI) (use that small in \<open>auto simp: bit_simps\<close>)
  moreover have "ucast (drop_bit j (word_of_nat n :: 64 word)) = (ucast (drop_bit j (word_of_nat n :: 32 word)) :: 8 word)"
    if "j \<le> 24" for j
    by (rule bit_word_eqI) (use that in \<open>auto simp: bit_simps\<close>)
  ultimately have "map (\<lambda>k. ucast (drop_bit (8 * (7 - k)) (word_of_nat n :: 64 word))) [0..<8]
      = map (\<lambda>k. if k < 4 then 0 else ucast (drop_bit (8 * (7 - k)) (word_of_nat n :: 32 word)) :: 8 word) [0..<8]"
    by (intro map_cong refl) auto
  also have "\<dots> = [0, 0, 0, 0] @ uint32_bytes (of_nat n)"
    by (simp add: uint32_bytes_def upt_conv_Cons)
  finally show ?thesis by (simp add: uint64_bytes_def)
qed

lemma fips_zeros: "n + 1 + nat ((55 - int n) mod 64) + 8 = (n + 72) div 64 * 64"
proof -
  define z where "z = nat ((55 - int n) mod 64)"
  have z: "int z = (55 - int n) mod 64" "z < 64" by (simp_all add: z_def nat_less_iff)
  have "(int n + 9 + (55 - int n) mod 64) mod 64 = (int n + 9 + (55 - int n)) mod 64"
    by (rule mod_add_right_eq)
  then have "(int n + 9 + int z) mod 64 = 0" by (simp add: z)
  then have "int ((n + 9 + z) mod 64) = 0" by (simp add: zmod_int)
  then have "(n + 9 + z) mod 64 = 0" by simp
  then obtain k where k: "n + 9 + z = 64 * k" by (metis mod_0_imp_dvd dvd_def)
  with z(2) have "(n + 72) div 64 = k" by (intro div_nat_eqI) simp_all
  with k show ?thesis unfolding z_def[symmetric] by simp
qed

lemma withPadding_eq_fips:
  assumes "length m * 8 < 2 ^ 32"
  shows "withPadding m = fips_padding m"
proof -
  let ?n = "length m"
  define z where "z = nat ((55 - int ?n) mod 64)"
  have size: "padded_length ?n = ?n + 1 + z + 8"
    by (simp only: padded_length_eq z_def fips_zeros)
  let ?X = "m @ [0x80] @ replicate z 0 @ replicate 4 (0 :: 8 word)"
  have zero4: "replicate 4 (0 :: 8 word) = [0, 0, 0, 0]"
    by (simp add: eval_nat_numeral)
  have "?n + 1 + z + 8 = ?n + (1 + (z + (4 + 4)))" by simp
  then have "replicate (?n + 1 + z + 8) (0 :: 8 word)
      = replicate ?n 0 @ [0] @ replicate z 0 @ replicate 4 0 @ replicate 4 0"
    by (simp only: replicate_add) simp
  then have buffer: "(m @ drop ?n (replicate (?n + 1 + z + 8) 0))[?n := 0x80] = ?X @ [0, 0, 0, 0]"
    by (simp add: list_update_append zero4)
  have set4: "set_uint32 (xs @ [0, 0, 0, 0]) (length xs) v = xs @ uint32_bytes v" for xs v
    by (simp add: set_uint32_def uint32_bytes_def list_update_append)
  have place: "?n + 1 + z + 8 - 4 = length ?X" by simp
  have "withPadding m = ?X @ uint32_bytes (of_nat (?n * 8))"
    unfolding withPadding_def size Let_def buffer place by (rule set4)
  also have "\<dots> = m @ [0x80] @ replicate z 0 @ uint64_bytes (of_nat (8 * ?n))"
    using uint64_bytes_small[OF assms] by (simp only: zero4 mult.commute append.assoc)
  finally show ?thesis by (simp only: fips_padding_def z_def)
qed

lemma length_fips_padding: "64 dvd length (fips_padding m)"
proof -
  have "length (fips_padding m) = length m + 1 + nat ((55 - int (length m)) mod 64) + 8"
    by (simp add: fips_padding_def)
  then show ?thesis by (simp only: fips_zeros dvd_triv_right)
qed

text \<open>
  C14: the hash is SHA-256. On every input of fewer than \<open>2\<^sup>29\<close> bytes, padding, message schedule,
  compression and serialisation together give the digest FIPS 180-4 defines (the longest
  length whose bit count fits the 32 bits the padding writes).
\<close>

theorem sha256_eq_fips:
  assumes "length m * 8 < 2 ^ 32"
  shows "sha256 m = fips_sha256 m"
proof -
  let ?p = "fips_padding m"
  have step: "length H = 8 \<Longrightarrow> length sch = 64 \<Longrightarrow>
      fst (sha256_step ?p (i * 64) (H, sch)) = fips_block (\<lambda>t. get_uint32 ?p (64 * i + 4 * t)) H \<and>
      length (snd (sha256_step ?p (i * 64) (H, sch))) = 64" for H sch i
    using fillSchedule_eq_W[of sch ?p "i * 64"]
    by (simp add: sha256_step_def compress_eq_block mult.commute Let_def)
  have "length H = 8 \<Longrightarrow> length sch = 64 \<Longrightarrow>
      fst (fold (\<lambda>i. sha256_step ?p (i * 64)) is (H, sch)) =
      fold (\<lambda>i. fips_block (\<lambda>t. get_uint32 ?p (64 * i + 4 * t))) is H" for H sch "is"
  proof (induction "is" arbitrary: H sch)
    case (Cons i "is")
    then show ?case
      using step[OF Cons.prems, of i] by (cases "sha256_step ?p (i * 64) (H, sch)") auto
  qed simp
  from this[of INITIAL_STATE "replicate SCHEDULE_WORDS 0"]
  have "fst (fold (\<lambda>i. sha256_step ?p (i * 64)) is (INITIAL_STATE, replicate SCHEDULE_WORDS 0)) =
      fold (\<lambda>i. fips_block (\<lambda>t. get_uint32 ?p (64 * i + 4 * t))) is INITIAL_STATE" for "is"
    by (simp add: INITIAL_STATE_def SCHEDULE_WORDS_def)
  moreover have "withPadding m = ?p" using assms by (rule withPadding_eq_fips)
  ultimately show ?thesis
    by (simp only: sha256_def fips_sha256_def BLOCK_BYTES_def fold_map comp_def Let_def)
qed

lemma sha256_eq_fips_witness: "sha256 (utf8 ''abc'') = fips_sha256 (utf8 ''abc'')"
  by (rule sha256_eq_fips) (simp add: utf8_def utf8_char_def code_def)

lemma length_concat_uint32: "length (concat (map uint32_bytes ws)) = 4 * length ws"
  by (induction ws) (auto simp: uint32_bytes_def)

lemma length_compress [simp]: "length (compress H schedule) = length H"
proof -
  have "length (fold (\<lambda>at st. st[at := f at st]) xs H) = length H" for f :: "nat \<Rightarrow> u32 list \<Rightarrow> u32" and xs
    by (induction xs arbitrary: H) auto
  then show ?thesis by (simp add: compress_def split: prod.split)
qed

lemma length_sha256 [simp]: "length (sha256 m) = 32"
proof -
  have "length (fst (fold (sha256_step p) blocks st)) = length (fst st)" for p blocks st
    by (induction blocks arbitrary: st) (auto simp: sha256_step_def Let_def split: prod.splits)
  then show ?thesis
    by (simp add: sha256_def asBytes_def length_concat_uint32 INITIAL_STATE_def Let_def)
qed

lemma length_sha256Hex [simp]: "length (sha256Hex text) = 64"
  by (simp add: sha256Hex_def)

lemma lower_hex_sha256Hex [text_simps]: "list_all is_lower_hex (sha256Hex text)"
  by (simp add: sha256Hex_def text_simps)
end
