(* ===== verification/Bolt11.thy ===== *)
theory Bolt11
  imports Bech32 Sha256
begin

text \<open>
  \<^verbatim>\<open>core/bolt11.ts\<close>: what a BOLT11 invoice says about itself, and the test that a preimage is the
  secret behind a payment hash. The lemmas show that the reader of the tagged fields gives
  back what a writer of the format puts down, the first field of a tag winning, that a
  decoded invoice always passed the checksum, and that the preimage test is the hash.
\<close>

definition CHECKSUM_WORDS :: nat where "CHECKSUM_WORDS = 6"
definition TIMESTAMP_WORDS :: nat where "TIMESTAMP_WORDS = 7"
definition SIGNATURE_WORDS :: nat where "SIGNATURE_WORDS = 104"
definition TAGGED_FIELD_LENGTH_WORDS :: nat where "TAGGED_FIELD_LENGTH_WORDS = 2"
definition PAYMENT_HASH_TAG :: nat where "PAYMENT_HASH_TAG = 1"
definition PAYMENT_HASH_WORDS :: nat where "PAYMENT_HASH_WORDS = 52"
definition EXPIRY_TAG :: nat where "EXPIRY_TAG = 6"
definition DESCRIPTION_HASH_TAG :: nat where "DESCRIPTION_HASH_TAG = 23"
definition DESCRIPTION_HASH_WORDS :: nat where "DESCRIPTION_HASH_WORDS = 52"
definition DEFAULT_EXPIRY_SECS :: nat where "DEFAULT_EXPIRY_SECS = 3600"
definition MSAT_PER_BTC :: nat where "MSAT_PER_BTC = 100000000000"

lemmas invoice_sizes = CHECKSUM_WORDS_def TIMESTAMP_WORDS_def SIGNATURE_WORDS_def
  TAGGED_FIELD_LENGTH_WORDS_def

record invoice =
  invoice_paymentHash :: "string option"
  invoice_descriptionHash :: "string option"
  invoice_amountMsat :: "nat option"
  invoice_issuedAt :: "nat option"
  invoice_expiresAt :: "nat option"

subsection \<open>The human readable part\<close>

text \<open>
  \<^verbatim>\<open>HRP\<close>. The groups after the network: nothing, or digits and at most one multiplier. The
  networks are tried in turn, and since none but \<^verbatim>\<open>bcrt\<close> continues another with anything
  the rest of the expression could match, at most one of them succeeds.
\<close>

definition hrp_groups :: "string \<Rightarrow> (string option \<times> char option) option" where
  "hrp_groups rest =
     (if rest = [] then Some (None, None)
      else let digits = takeWhile is_digit rest; suffix = dropWhile is_digit rest
           in if digits = [] then None
              else (case suffix of
                      [] \<Rightarrow> Some (Some digits, None)
                    | [m] \<Rightarrow> (if m \<in> set ''munp'' then Some (Some digits, Some m) else None)
                    | _ \<Rightarrow> None))"

fun first_match :: "('a \<Rightarrow> 'b option) \<Rightarrow> 'a list \<Rightarrow> 'b option" where
  "first_match f [] = None"
| "first_match f (x # xs) = (case f x of None \<Rightarrow> first_match f xs | Some y \<Rightarrow> Some y)"

definition hrp_match :: "string \<Rightarrow> (string option \<times> char option) option" where
  "hrp_match hrp =
     first_match (\<lambda>network. if starts_with (''ln'' @ network) hrp
                             then hrp_groups (drop (2 + length network) hrp) else None)
       [''bcrt'', ''bc'', ''tbs'', ''tb'', ''sb'']"

text \<open>
  A multiplier divides the whole bitcoin; the pico one counts tenths of a millisatoshi, and
  the code only takes it where the digits end in a zero, so the division is exact.
\<close>

definition amountFromHrp :: "string \<Rightarrow> nat option" where
  "amountFromHrp hrp =
     (case hrp_match hrp of
        Some (Some digits, multiplier) \<Rightarrow>
          (if multiplier = Some CHR ''p'' \<and> \<not> ends_with ''0'' digits then None
           else Some (case multiplier of
                        None \<Rightarrow> number_of_digits digits * MSAT_PER_BTC
                      | Some m \<Rightarrow>
                          if m = CHR ''m'' then number_of_digits digits * (MSAT_PER_BTC div 1000)
                          else if m = CHR ''u'' then number_of_digits digits * (MSAT_PER_BTC div 1000000)
                          else if m = CHR ''n'' then number_of_digits digits * (MSAT_PER_BTC div 1000000000)
                          else number_of_digits digits div 10))
      | _ \<Rightarrow> None)"

definition isBolt12Encoding :: "string \<Rightarrow> bool" where
  "isBolt12Encoding lowered \<longleftrightarrow>
     starts_with ''lno'' lowered \<or> starts_with ''lni'' lowered \<or> starts_with ''lnr'' lowered"

definition splitBech32 :: "string \<Rightarrow> (string \<times> nat list) option" where
  "splitBech32 invoice =
     (let lowered = lower invoice
      in if isBolt12Encoding lowered \<or> (invoice \<noteq> lowered \<and> invoice \<noteq> upper invoice) then None
         else (case last_index_of CHR ''1'' lowered of
                 None \<Rightarrow> None
               | Some separator \<Rightarrow>
                   if separator < 1 then None
                   else let dataChars = drop (separator + 1) lowered
                        in if length dataChars < CHECKSUM_WORDS then None
                           else (case those_of (map (\<lambda>c. index_of c BECH32_CHARSET) dataChars) of
                                   None \<Rightarrow> None
                                 | Some words \<Rightarrow>
                                     let hrp = slice 0 separator lowered
                                     in if hrp_match hrp = None \<or> bech32Polymod (expandedHrp hrp @ words) \<noteq> 1
                                        then None
                                        else Some (hrp, take (length words - CHECKSUM_WORDS) words))))"

subsection \<open>Tagged found\<close>

type_synonym tagged = "(nat \<times> nat list) list"

text \<open>\<open>cursor\<close> is where the next field starts; a field already there keeps its words.\<close>

function tagged_from :: "nat list \<Rightarrow> nat \<Rightarrow> nat \<Rightarrow> tagged \<Rightarrow> tagged" where
  "tagged_from words signatureStart cursor found =
     (if cursor + 1 + TAGGED_FIELD_LENGTH_WORDS \<le> signatureStart
      then let lengthWords = words ! (cursor + 1) * 32 + words ! (cursor + 2);
               dataStart = cursor + 1 + TAGGED_FIELD_LENGTH_WORDS;
               dataEnd = dataStart + lengthWords
           in if dataEnd > signatureStart then found
              else tagged_from words signatureStart dataEnd
                     (if map_of found (words ! cursor) \<noteq> None then found
                      else found @ [(words ! cursor, slice dataStart dataEnd words)])
      else found)"
  by pat_completeness auto
termination by (relation "measure (\<lambda>(_, signatureStart, cursor, _). signatureStart - cursor)")
    (auto simp: TAGGED_FIELD_LENGTH_WORDS_def)

declare tagged_from.simps [simp del]

definition taggedFields :: "nat list \<Rightarrow> tagged" where
  "taggedFields words = tagged_from words (length words - SIGNATURE_WORDS) TIMESTAMP_WORDS []"

definition hexTag :: "tagged \<Rightarrow> nat \<Rightarrow> nat \<Rightarrow> string option" where
  "hexTag found tag expectedWords =
     (case map_of found tag of
        None \<Rightarrow> None
      | Some words \<Rightarrow> if length words \<noteq> expectedWords then None else Some (bytesToHex (wordsToBytes words)))"

definition issuedAtOf :: "nat list \<Rightarrow> nat option" where
  "issuedAtOf words =
     (if length words < TIMESTAMP_WORDS + SIGNATURE_WORDS then None
      else Some (readNumber (slice 0 TIMESTAMP_WORDS words)))"

definition decodeInvoice :: "string \<Rightarrow> invoice" where
  "decodeInvoice invoice =
     (case splitBech32 invoice of
        None \<Rightarrow> \<lparr>invoice_paymentHash = None, invoice_descriptionHash = None, invoice_amountMsat = None,
                 invoice_issuedAt = None, invoice_expiresAt = None\<rparr>
      | Some (hrp, words) \<Rightarrow>
          let found = taggedFields words; issuedAt = issuedAtOf words
          in \<lparr>invoice_paymentHash = hexTag found PAYMENT_HASH_TAG PAYMENT_HASH_WORDS,
              invoice_descriptionHash = hexTag found DESCRIPTION_HASH_TAG DESCRIPTION_HASH_WORDS,
              invoice_amountMsat = amountFromHrp hrp,
              invoice_issuedAt = issuedAt,
              invoice_expiresAt =
                (case issuedAt of
                   None \<Rightarrow> None
                 | Some t \<Rightarrow> Some (t + (case map_of found EXPIRY_TAG of
                                          Some expiry \<Rightarrow> readNumber expiry
                                        | None \<Rightarrow> DEFAULT_EXPIRY_SECS)))\<rparr>)"

definition preimageMatchesHash :: "string \<Rightarrow> string \<Rightarrow> bool" where
  "preimageMatchesHash preimage paymentHash \<longleftrightarrow>
     (if \<not> isHex preimage then False
      else bytesToHex (sha256 (hexToBytes preimage)) = lower paymentHash)"

subsection \<open>Reading back what is written\<close>

text \<open>The format: a tag, the length as two words, and the data.\<close>

definition field_words :: "nat \<times> nat list \<Rightarrow> nat list" where
  "field_words f = fst f # length (snd f) div 32 # length (snd f) mod 32 # snd f"

fun first_of_each :: "tagged \<Rightarrow> tagged \<Rightarrow> tagged" where
  "first_of_each seen [] = seen"
| "first_of_each seen ((tag, ws) # fs) =
     first_of_each (if map_of seen tag \<noteq> None then seen else seen @ [(tag, ws)]) fs"

lemma map_of_first_of_each:
  "map_of (first_of_each seen fs) tag = (case map_of seen tag of None \<Rightarrow> map_of fs tag | Some ws \<Rightarrow> Some ws)"
  by (induction seen fs rule: first_of_each.induct) (auto simp: map_add_def split: option.splits)

lemma tagged_from_written:
  assumes "words = before @ concat (map field_words fs) @ signature"
    and "start = length (before @ concat (map field_words fs))" "cursor = length before"
  shows "tagged_from words start cursor seen = first_of_each seen fs"
  using assms
proof (induction fs arbitrary: before cursor seen)
  case Nil
  then show ?case by (subst tagged_from.simps) simp
next
  case (Cons f fs)
  obtain tag ws where f: "f = (tag, ws)" by (cases f)
  define rest where "rest = concat (map field_words fs)"
  have fw: "field_words f = tag # length ws div 32 # length ws mod 32 # ws"
    by (simp add: f field_words_def)
  have w: "words = before @ tag # length ws div 32 # length ws mod 32 # ws @ rest @ signature"
    using Cons.prems by (simp add: fw rest_def)
  have at: "words ! cursor = tag" "words ! (cursor + 1) = length ws div 32" "words ! (cursor + 2) = length ws mod 32"
    using Cons.prems(3) by (simp_all add: w nth_append)
  have start: "start = cursor + 3 + length ws + length rest"
    using Cons.prems by (simp add: fw rest_def)
  have len: "length ws div 32 * 32 + length ws mod 32 = length ws" by simp
  have cut: "slice (cursor + 3) (cursor + 3 + length ws) words = ws"
    using Cons.prems(3) by (simp add: w slice_def)
  have "tagged_from words start cursor seen =
      tagged_from words start (cursor + 3 + length ws)
        (if map_of seen tag \<noteq> None then seen else seen @ [(tag, ws)])"
    using start cut at len
    by (subst tagged_from.simps) (simp add: TAGGED_FIELD_LENGTH_WORDS_def Let_def numeral_3_eq_3)
  also have "\<dots> = first_of_each (if map_of seen tag \<noteq> None then seen else seen @ [(tag, ws)]) fs"
    using Cons.prems(3) start
    by (intro Cons.IH [of "before @ field_words f"]) (simp_all add: w fw rest_def)
  finally show ?case by (simp add: f)
qed

lemma taggedFields_written:
  assumes "length stamp = TIMESTAMP_WORDS" "length signature = SIGNATURE_WORDS"
  shows "map_of (taggedFields (stamp @ concat (map field_words fs) @ signature)) tag = map_of fs tag"
proof -
  have "taggedFields (stamp @ concat (map field_words fs) @ signature) = first_of_each [] fs"
    unfolding taggedFields_def
    by (rule tagged_from_written [where before = stamp and signature = signature]) (use assms in simp_all)
  then show ?thesis by (simp add: map_of_first_of_each)
qed

text \<open>A writer of invoices: the data words, their checksum, all in the bech32 alphabet.\<close>

definition invoice_data :: "nat list \<Rightarrow> tagged \<Rightarrow> nat list \<Rightarrow> nat list" where
  "invoice_data stamp fs signature = stamp @ concat (map field_words fs) @ signature"

definition write_invoice :: "string \<Rightarrow> nat list \<Rightarrow> string" where
  "write_invoice hrp data = hrp @ ''1'' @ map (\<lambda>w. BECH32_CHARSET ! w) (data @ checksumWords hrp data)"

definition plain_hrp :: "string \<Rightarrow> bool" where
  "plain_hrp hrp \<longleftrightarrow> hrp_match hrp \<noteq> None \<and> lower hrp = hrp \<and> hrp \<noteq> [] \<and> \<not> isBolt12Encoding (hrp @ ''1'')"

lemma lower_charset: "\<forall>w\<in>set ws. w < 32 \<Longrightarrow> lower (map (\<lambda>w. BECH32_CHARSET ! w) ws) = map (\<lambda>w. BECH32_CHARSET ! w) ws"
proof -
  assume small: "\<forall>w\<in>set ws. w < 32"
  have "list_all (\<lambda>c. lower_char c = c) BECH32_CHARSET"
    by (simp add: BECH32_CHARSET_def lower_char_def code_def)
  then show ?thesis using small charset(2) by (auto simp: lower_def list_all_iff)
qed

lemma one_notin_charset: "\<forall>w\<in>set ws. w < 32 \<Longrightarrow> CHR ''1'' \<notin> set (map (\<lambda>w. BECH32_CHARSET ! w) ws)"
proof -
  have "CHR ''1'' \<notin> set BECH32_CHARSET" by (simp add: BECH32_CHARSET_def)
  then show "\<forall>w\<in>set ws. w < 32 \<Longrightarrow> ?thesis" using charset(2) by (auto simp: in_set_conv_nth)
qed

lemma starts_with_3: "3 \<le> length (a @ b) \<Longrightarrow> length p = 3 \<Longrightarrow> starts_with p ((a @ b) @ c) = starts_with p (a @ b)"
  by (simp add: starts_with_code)

lemma splitBech32_written:
  assumes "plain_hrp hrp" "2 \<le> length hrp" "\<forall>w\<in>set data. w < 32"
  shows "splitBech32 (write_invoice hrp data) = Some (hrp, data)"
proof -
  define words where "words = data @ checksumWords hrp data"
  define chars where "chars = map (\<lambda>w. BECH32_CHARSET ! w) words"
  have small: "\<forall>w\<in>set words. w < 32" using assms(3) checksumWords_small by (auto simp: words_def)
  have one: "lower ''1'' = ''1''" by (simp add: lower_def lower_char_def code_def)
  have app: "lower (a @ b) = lower a @ lower b" for a b by (simp add: lower_def)
  have whole: "write_invoice hrp data = hrp @ CHR ''1'' # chars"
    by (simp add: write_invoice_def chars_def words_def)
  have lowered: "lower (hrp @ CHR ''1'' # chars) = hrp @ CHR ''1'' # chars"
    using app [of hrp "''1'' @ chars"] app [of "''1''" chars] one lower_charset [OF small] assms(1)
    by (simp add: plain_hrp_def chars_def)
  have bolt12: "\<not> isBolt12Encoding (hrp @ CHR ''1'' # chars)"
    using assms(1,2) starts_with_3 [of hrp "''1''" _ chars]
    by (simp add: plain_hrp_def isBolt12Encoding_def)
  have sep: "last_index_of CHR ''1'' (hrp @ CHR ''1'' # chars) = Some (length hrp)"
    using one_notin_charset [OF small] by (intro last_index_of_append_Cons) (simp add: chars_def)
  have read: "those_of (map (\<lambda>c. index_of c BECH32_CHARSET) chars) = Some words"
    unfolding chars_def by (rule read_charset [OF small])
  have len: "length chars = length data + CHECKSUM_WORDS"
    by (simp add: chars_def words_def length_checksumWords CHECKSUM_WORDS_def)
  have sum: "bech32Polymod (expandedHrp hrp @ words) = 1"
    unfolding words_def by (rule polymod_checksum)
  have cut': "take (length words - CHECKSUM_WORDS) words = data"
    by (simp add: words_def length_checksumWords CHECKSUM_WORDS_def)
  have "0 < length hrp" using assms(2) by linarith
  moreover have "slice 0 (length hrp) (hrp @ CHR ''1'' # chars) = hrp" by (simp add: slice_def)
  moreover have "drop (length hrp + 1) (hrp @ CHR ''1'' # chars) = chars" by simp
  ultimately show ?thesis
    using assms(1) bolt12 len read sum
    unfolding splitBech32_def whole lowered Let_def sep option.case
    by (simp add: plain_hrp_def cut')
qed

lemma decode_written:
  assumes "plain_hrp hrp" "2 \<le> length hrp" "length stamp = TIMESTAMP_WORDS" "length signature = SIGNATURE_WORDS"
    and "\<forall>w\<in>set (invoice_data stamp fs signature). w < 32"
    and "map_of fs PAYMENT_HASH_TAG = Some (toWords hash)" "length (toWords hash) = PAYMENT_HASH_WORDS"
    and "map_of fs DESCRIPTION_HASH_TAG = Some (toWords about)" "length (toWords about) = DESCRIPTION_HASH_WORDS"
  shows "decodeInvoice (write_invoice hrp (invoice_data stamp fs signature)) =
    \<lparr>invoice_paymentHash = Some (bytesToHex hash), invoice_descriptionHash = Some (bytesToHex about),
     invoice_amountMsat = amountFromHrp hrp, invoice_issuedAt = Some (readNumber stamp),
     invoice_expiresAt = Some (readNumber stamp +
       (case map_of fs EXPIRY_TAG of Some expiry \<Rightarrow> readNumber expiry | None \<Rightarrow> DEFAULT_EXPIRY_SECS))\<rparr>"
proof -
  let ?data = "invoice_data stamp fs signature"
  have found: "map_of (taggedFields ?data) tag = map_of fs tag" for tag
    unfolding invoice_data_def by (rule taggedFields_written [OF assms(3,4)])
  have "slice 0 TIMESTAMP_WORDS ?data = stamp"
    using assms(3) by (simp add: invoice_data_def slice_def)
  then have stamp: "issuedAtOf ?data = Some (readNumber stamp)"
    using assms(3,4) by (simp add: issuedAtOf_def invoice_data_def)
  show ?thesis
    unfolding decodeInvoice_def splitBech32_written [OF assms(1,2,5)]
    using assms(6-9) by (simp add: Let_def stamp found hexTag_def wordsToBytes_toWords)
qed

text \<open>
  C16: an invoice says what its writer put in it. Reading a written invoice back passes the
  checksum and gives the amount of its prefix, the two hashes of the first fields of their
  tags, the timestamp, and the expiry it names or an hour, whatever other fields it carries.
\<close>

theorem decodeInvoice_written:
  assumes "plain_hrp hrp" "2 \<le> length hrp" "length stamp = TIMESTAMP_WORDS" "length signature = SIGNATURE_WORDS"
    and "\<forall>w\<in>set (invoice_data stamp fs signature). w < 32"
    and "map_of fs PAYMENT_HASH_TAG = Some (toWords hash)" "length (toWords hash) = PAYMENT_HASH_WORDS"
    and "map_of fs DESCRIPTION_HASH_TAG = Some (toWords about)" "length (toWords about) = DESCRIPTION_HASH_WORDS"
  shows "decodeInvoice (write_invoice hrp (invoice_data stamp fs signature)) =
    \<lparr>invoice_paymentHash = Some (bytesToHex hash), invoice_descriptionHash = Some (bytesToHex about),
     invoice_amountMsat = amountFromHrp hrp, invoice_issuedAt = Some (readNumber stamp),
     invoice_expiresAt = Some (readNumber stamp +
       (case map_of fs EXPIRY_TAG of Some expiry \<Rightarrow> readNumber expiry | None \<Rightarrow> DEFAULT_EXPIRY_SECS))\<rparr>"
  using assms by (rule decode_written)

lemma length_toWords: "length (toWords bs) = (8 * length bs + 4) div 5"
proof -
  obtain pad where pad: "pad < 5" "bits5 (toWords bs) = bits8 bs @ replicate pad False"
    using to_words_bits [of 0 0 bs] by (auto simp: toWords_def)
  have "5 * length (toWords bs) = 8 * length bs + pad"
    using arg_cong [OF pad(2), of length] by simp
  then show ?thesis using pad(1) by linarith
qed

definition sample_fields :: "bytes \<Rightarrow> bytes \<Rightarrow> tagged" where
  "sample_fields hash about = [(PAYMENT_HASH_TAG, toWords hash), (DESCRIPTION_HASH_TAG, toWords about)]"

definition sample_invoice :: "bytes \<Rightarrow> bytes \<Rightarrow> string" where
  "sample_invoice hash about =
     write_invoice ''lnbc10n'' (invoice_data (replicate 7 1) (sample_fields hash about) (replicate 104 0))"

lemma sample_hrp: "plain_hrp ''lnbc10n''" "amountFromHrp ''lnbc10n'' = Some 1000"
  by (simp_all add: plain_hrp_def hrp_match_def hrp_groups_def starts_with_code lower_def lower_char_def
      isBolt12Encoding_def is_digit_def code_def amountFromHrp_def number_of_digits_def digit_value_def
      ends_with_code MSAT_PER_BTC_def)

lemma sample_small:
  assumes "length hash = 32" "length about = 32"
  shows "\<forall>w\<in>set (invoice_data (replicate 7 1) (sample_fields hash about) (replicate 104 0)). w < 32"
  using assms toWords_small [of hash] toWords_small [of about]
  by (auto simp: invoice_data_def sample_fields_def field_words_def length_toWords
      PAYMENT_HASH_TAG_def DESCRIPTION_HASH_TAG_def)

lemma sample_written:
  assumes "length hash = 32" "length about = 32"
  shows "length (toWords hash) = PAYMENT_HASH_WORDS" "length (toWords about) = DESCRIPTION_HASH_WORDS"
    "map_of (sample_fields hash about) PAYMENT_HASH_TAG = Some (toWords hash)"
    "map_of (sample_fields hash about) DESCRIPTION_HASH_TAG = Some (toWords about)"
    "map_of (sample_fields hash about) EXPIRY_TAG = None"
  using assms by (simp_all add: sample_fields_def length_toWords PAYMENT_HASH_WORDS_def
    DESCRIPTION_HASH_WORDS_def PAYMENT_HASH_TAG_def DESCRIPTION_HASH_TAG_def EXPIRY_TAG_def)

lemma decodeInvoice_written_witness:
  "decodeInvoice (sample_invoice (replicate 32 7) (replicate 32 9)) =
    \<lparr>invoice_paymentHash = Some (bytesToHex (replicate 32 7)),
     invoice_descriptionHash = Some (bytesToHex (replicate 32 9)),
     invoice_amountMsat = amountFromHrp ''lnbc10n'', invoice_issuedAt = Some (readNumber (replicate 7 1)),
     invoice_expiresAt = Some (readNumber (replicate 7 1) +
       (case map_of (sample_fields (replicate 32 7) (replicate 32 9)) EXPIRY_TAG of
          Some expiry \<Rightarrow> readNumber expiry | None \<Rightarrow> DEFAULT_EXPIRY_SECS))\<rparr>"
  unfolding sample_invoice_def
proof (rule decodeInvoice_written)
  show "\<forall>w\<in>set (invoice_data (replicate 7 1) (sample_fields (replicate 32 7) (replicate 32 9)) (replicate 104 0)). w < 32"
    by (rule sample_small) simp_all
qed (simp_all add: sample_hrp invoice_sizes sample_fields_def length_toWords PAYMENT_HASH_WORDS_def
    DESCRIPTION_HASH_WORDS_def PAYMENT_HASH_TAG_def DESCRIPTION_HASH_TAG_def)

lemma decodeInvoice_sample:
  assumes "length hash = 32" "length about = 32"
  shows "decodeInvoice (sample_invoice hash about) =
    \<lparr>invoice_paymentHash = Some (bytesToHex hash), invoice_descriptionHash = Some (bytesToHex about),
     invoice_amountMsat = Some 1000, invoice_issuedAt = Some (readNumber (replicate 7 1)),
     invoice_expiresAt = Some (readNumber (replicate 7 1) + 3600)\<rparr>"
  using decode_written [OF sample_hrp(1) _ _ _ sample_small [OF assms] sample_written(3) [OF assms]
      sample_written(1) [OF assms] sample_written(4) [OF assms] sample_written(2) [OF assms]]
  by (simp add: sample_invoice_def sample_hrp invoice_sizes sample_written [OF assms] DEFAULT_EXPIRY_SECS_def)

subsection \<open>The preimage test\<close>

text \<open>
  A preimage proves a payment exactly when it hashes to it. The test accepts a hex text
  of any case if and only if the SHA-256 of the bytes it denotes is the payment hash, and
  accepts nothing else.
\<close>

theorem preimageMatchesHash_iff:
  "preimageMatchesHash preimage (bytesToHex hash) \<longleftrightarrow>
     (\<exists>secret. secret \<noteq> [] \<and> lower preimage = bytesToHex secret \<and> isHex preimage \<and> sha256 secret = hash)"
proof -
  have fold: "lower (bytesToHex hash) = bytesToHex hash"
    by (rule lower_lower_hex) (rule lower_hex_bytesToHex)
  have inj: "bytesToHex a = bytesToHex b \<longleftrightarrow> a = b" for a b
    by (metis hexToBytes_bytesToHex)
  show ?thesis
  proof (cases "isHex preimage")
    case True
    then have hex: "list_all is_hex_char preimage" "length preimage mod 2 = 0" "preimage \<noteq> []"
      by (auto simp: isHex_def)
    have lowered: "bytesToHex (hexToBytes preimage) = lower preimage"
      using bytesToHex_hexToBytes [OF isHex_lower_hex [OF True]] hex by (simp add: hexToBytes_lower)
    then have "hexToBytes preimage \<noteq> []" using hex(3) by (auto simp: lower_def)
    then show ?thesis
      using True lowered inj by (auto simp: preimageMatchesHash_def fold intro!: exI [of _ "hexToBytes preimage"])
  qed (auto simp: preimageMatchesHash_def)
qed

end
