(* ===== verification/Problem.thy ===== *)
theory Problem
  imports Prelude
begin

text \<open>
  \<^verbatim>\<open>core/refusal.ts\<close> and \<^verbatim>\<open>src/problem.ts\<close>: why a wallet was refused, the problem types the
  API answers with, and the status a list of refusals gives a request.
\<close>

datatype walletReason =
    AddressUnusable
  | Unreachable
  | AmountNotAccepted
  | CannotProveDelivery
  | InvoiceRefused

fun reason_text :: "walletReason \<Rightarrow> string" where
  "reason_text AddressUnusable = ''address-unusable''"
| "reason_text Unreachable = ''unreachable''"
| "reason_text AmountNotAccepted = ''amount-not-accepted''"
| "reason_text CannotProveDelivery = ''cannot-prove-delivery''"
| "reason_text InvoiceRefused = ''invoice-refused''"

record walletFailure =
  failed_address :: string
  failed_reason :: walletReason

definition problem_type :: "string \<Rightarrow> string" where
  "problem_type name = ''urn:problem-type:thunder-bridge:'' @ name"

definition INVALID_REQUEST :: string where "INVALID_REQUEST = problem_type ''invalid-request''"
definition NO_WALLET_AVAILABLE :: string where "NO_WALLET_AVAILABLE = problem_type ''no-wallet-available''"
definition REQUEST_IN_FLIGHT :: string where "REQUEST_IN_FLIGHT = problem_type ''request-in-flight''"
definition KEY_REUSED :: string where "KEY_REUSED = problem_type ''idempotency-key-reused''"
definition ALREADY_WATCHED :: string where "ALREADY_WATCHED = problem_type ''payment-already-watched''"
definition WEBHOOK_UNCONFIRMED :: string where "WEBHOOK_UNCONFIRMED = problem_type ''webhook-unconfirmed''"
definition VERIFY_UNCONFIRMED :: string where "VERIFY_UNCONFIRMED = problem_type ''verify-unconfirmed''"
definition VERIFY_HOST_REFUSED :: string where "VERIFY_HOST_REFUSED = problem_type ''verify-host-refused''"
definition VERIFY_UNCONSENTED :: string where "VERIFY_UNCONSENTED = problem_type ''verify-unconsented''"
definition TOO_MANY_PENDING :: string where "TOO_MANY_PENDING = problem_type ''too-many-pending''"
definition CALLER_UNKNOWN :: string where "CALLER_UNKNOWN = problem_type ''caller-unknown''"

fun STATUS :: "walletReason \<Rightarrow> nat" where
  "STATUS AddressUnusable = 400"
| "STATUS AmountNotAccepted = 400"
| "STATUS CannotProveDelivery = 422"
| "STATUS InvoiceRefused = 422"
| "STATUS Unreachable = 502"

definition statusForWallets :: "walletFailure list \<Rightarrow> nat" where
  "statusForWallets wallets =
     (let codes = map (\<lambda>w. STATUS (failed_reason w)) wallets
      in if 502 \<in> set codes then 502 else if 422 \<in> set codes then 422 else 400)"

lemma statusForWallets_worst:
  "statusForWallets wallets = foldr (\<lambda>w. max (STATUS (failed_reason w))) wallets 400"
proof (induction wallets)
  case (Cons w wallets)
  have "STATUS (failed_reason w) \<in> {400, 422, 502}" by (cases "failed_reason w") auto
  moreover have "statusForWallets wallets \<in> {400, 422, 502}"
    by (auto simp: statusForWallets_def Let_def)
  ultimately show ?case
    using Cons by (auto simp: statusForWallets_def Let_def split: if_splits)
qed (simp add: statusForWallets_def)

end
