(* ===== verification/Lnurl.thy ===== *)
theory Lnurl
  imports Outbound Bolt11 Problem JsonText
begin

text \<open>
  \<^verbatim>\<open>core/lnurl.ts\<close>: resolving a list of lightning addresses to an invoice, asking a verify
  endpoint whether a payment settled, and the LNURL text of an endpoint. What a wallet
  answers is any JSON value: where the code would throw a \<^verbatim>\<open>TypeError\<close> on its shape
  (a member of \<^verbatim>\<open>null\<close>, a string method of a number) the result is \<open>Crashed\<close>, which is not a
  refusal. The lemmas show what an invoice that gets through has proved, that the first
  address to serve wins, and that a settlement always carries its proof.
\<close>

definition VERIFY_WITHOUT_PREIMAGE :: "string list" where
  "VERIFY_WITHOUT_PREIMAGE = [''zeuspay.com'', ''zeusnuts.com'', ''ecash.love'']"

definition NAMES_AN_ADDRESS :: "string list" where
  "NAMES_AN_ADDRESS = [''text/identifier'', ''text/email'']"

definition LNURL_HRP :: string where "LNURL_HRP = ''lnurl''"

record resolution =
  resolved_address :: string
  resolved_bolt11 :: string
  resolved_verifyUrl :: string
  resolved_paymentHash :: string
  resolved_expiresAt :: nat

record issued =
  issued_paymentHash :: string
  issued_descriptionHash :: "string option"
  issued_amountMsat :: "nat option"
  issued_expiresAt :: nat

text \<open>\<open>quote_min\<close> and \<open>quote_max\<close> are the wallet's members as they came.\<close>

record quoted =
  quote_address :: string
  quote_min :: "json option"
  quote_max :: "json option"
  quote_metadata :: string

record payRequest =
  pay_callback :: json
  pay_metadata :: string
  pay_min :: "json option"
  pay_max :: "json option"

record settlement =
  settled_preimage :: "string option"
  settled_pace :: "nat option"
  settled_ceiling :: "rat option"

datatype wallet_error =
    Refused walletReason
  | Crashed

datatype resolve_error =
    NoWalletAvailable "walletFailure list"
  | ResolveCrashed

definition MIN_PACE_SECS :: nat where "MIN_PACE_SECS = 1"
definition MAX_PACE_SECS :: nat where "MAX_PACE_SECS = 3600"
definition MIN_PER_SECOND :: rat where "MIN_PER_SECOND = 1 / 100"
definition MAX_PER_SECOND :: rat where "MAX_PER_SECOND = 100"

subsection \<open>Reading a JSON answer\<close>

datatype fetch_error = FetchFailed | NotFetched nat | TooLong | NotJson

definition answeredJson :: "network \<Rightarrow> string \<Rightarrow> bool \<Rightarrow> request list \<Rightarrow>
    (fetch_error + (json \<times> headers)) \<times> request list" where
  "answeredJson net url stays trace =
     (case ask net url \<lparr>sent_method = None, sent_headers = [(''accept'', ''application/json'')],
             sent_body = None, staysOnOrigin = stays\<rparr> trace of
        (Inl _, trace') \<Rightarrow> (Inl FetchFailed, trace')
      | (Inr answer, trace') \<Rightarrow>
          (if \<not> answer_ok answer then Inl (NotFetched (answer_status answer))
           else if answer_truncated answer then Inl TooLong
           else (case parse_json (answer_body answer) of
                   None \<Rightarrow> Inl NotJson
                 | Some said \<Rightarrow> Inr (said, answer_headers answer)), trace'))"

definition answered :: "network \<Rightarrow> string \<Rightarrow> request list \<Rightarrow> (wallet_error + json) \<times> request list" where
  "answered net url trace =
     (case answeredJson net url False trace of
        (Inl _, trace') \<Rightarrow> (Inl (Refused Unreachable), trace')
      | (Inr (said, _), trace') \<Rightarrow> (Inr said, trace'))"

text \<open>\<^verbatim>\<open>said.name\<close>: a member of \<^verbatim>\<open>null\<close> throws, of any other value that is not an object is absent.\<close>

fun said_member :: "json \<Rightarrow> string \<Rightarrow> wallet_error + json option" where
  "said_member JNull name = Inl Crashed"
| "said_member (JObj ms) name = Inr (field ms name)"
| "said_member _ name = Inr None"

subsection \<open>The address\<close>

definition cannotReleaseAPreimage :: "string \<Rightarrow> bool" where
  "cannotReleaseAPreimage host =
     (let lowered = lower host
      in list_ex (\<lambda>known. lowered = known \<or> ends_with (CHR ''.'' # known) lowered) VERIFY_WITHOUT_PREIMAGE)"

definition isNothingButAHost :: "url_parser \<Rightarrow> string \<Rightarrow> bool" where
  "isNothingButAHost parse domain =
     (case parse (''https://'' @ domain @ ''/'') of
        None \<Rightarrow> False
      | Some u \<Rightarrow> url_host u = lower domain \<and> url_pathname u = ''/'' \<and> url_search u = [] \<and> url_hash u = [])"

text \<open>\<^verbatim>\<open>/^[A-Za-z0-9_-]+(?:\.[A-Za-z0-9_-]+)*$/\<close>.\<close>

definition namesOneAccount :: "string \<Rightarrow> bool" where
  "namesOneAccount user =
     list_all (\<lambda>part. part \<noteq> [] \<and> list_all (\<lambda>c. is_word_char c \<or> c = CHR ''-'') part) (split_on CHR ''.'' user)"

definition splitAddress :: "url_parser \<Rightarrow> string \<Rightarrow> wallet_error + (string \<times> string)" where
  "splitAddress parse address =
     (case split_on CHR ''@'' address of
        [user, domain] \<Rightarrow>
          (if user = [] \<or> domain = [] \<or> \<not> namesOneAccount user \<or> \<not> isNothingButAHost parse domain
              \<or> \<not> publicHttps parse (''https://'' @ domain @ ''/'')
           then Inl (Refused AddressUnusable) else Inr (user, domain))
      | _ \<Rightarrow> Inl (Refused AddressUnusable))"

fun names_entry :: "string \<Rightarrow> json \<Rightarrow> bool" where
  "names_entry address (JArr (JStr kind # JStr name # _)) \<longleftrightarrow>
     kind \<in> set NAMES_AN_ADDRESS \<and> lower name = lower address"
| "names_entry address _ \<longleftrightarrow> False"

definition namesTheAddress :: "json option \<Rightarrow> string \<Rightarrow> bool" where
  "namesTheAddress metadata address =
     (case metadata of
        Some (JStr s) \<Rightarrow>
          (case parse_json s of
             Some (JArr entries) \<Rightarrow> list_ex (names_entry address) entries
           | _ \<Rightarrow> False)
      | _ \<Rightarrow> False)"

definition amount_below :: "int \<Rightarrow> json option \<Rightarrow> bool" where
  "amount_below amount bound = (case Option.bind bound number_of_json of None \<Rightarrow> False | Some n \<Rightarrow> of_int amount < n)"

definition amount_above :: "int \<Rightarrow> json option \<Rightarrow> bool" where
  "amount_above amount bound = (case Option.bind bound number_of_json of None \<Rightarrow> False | Some n \<Rightarrow> of_int amount > n)"

definition readPay :: "string \<Rightarrow> int \<Rightarrow> json \<Rightarrow> wallet_error + payRequest" where
  "readPay address amountMsat said =
     (case (said_member said ''tag'', said_member said ''callback'', said_member said ''metadata'',
            said_member said ''minSendable'', said_member said ''maxSendable'') of
        (Inr tag, Inr callback, Inr metadata, Inr lowest, Inr highest) \<Rightarrow>
          (if tag \<noteq> Some (JStr ''payRequest'') \<or> falsy callback then Inl (Refused Unreachable)
           else if \<not> namesTheAddress metadata address then Inl (Refused CannotProveDelivery)
           else if amount_below amountMsat lowest \<or> amount_above amountMsat highest
           then Inl (Refused AmountNotAccepted)
           else (case (callback, metadata) of
                   (Some c, Some (JStr m)) \<Rightarrow>
                     Inr \<lparr>pay_callback = c, pay_metadata = m, pay_min = lowest, pay_max = highest\<rparr>
                 | _ \<Rightarrow> Inl Crashed))
      | _ \<Rightarrow> Inl Crashed)"

definition probe :: "network \<Rightarrow> int \<Rightarrow> string \<Rightarrow> request list \<Rightarrow> (wallet_error + payRequest) \<times> request list" where
  "probe net amountMsat address trace =
     (case splitAddress (parse_url net) address of
        Inl e \<Rightarrow> (Inl e, trace)
      | Inr (user, domain) \<Rightarrow>
          if cannotReleaseAPreimage domain then (Inl (Refused CannotProveDelivery), trace)
          else (case answered net (''https://'' @ domain @ ''/.well-known/lnurlp/'' @ user) trace of
                  (Inl e, trace') \<Rightarrow> (Inl e, trace')
                | (Inr said, trace') \<Rightarrow> (readPay address amountMsat said, trace')))"

text \<open>
  The callback is a string or an array: both have \<^verbatim>\<open>includes\<close>, which looks for the character or for an element, and a
  template writes an array as its elements. Any other value has none, so reading it throws.
\<close>

definition withAmount :: "string \<Rightarrow> bool \<Rightarrow> int \<Rightarrow> string" where
  "withAmount callback asks amountMsat = callback @ (if asks then ''&'' else ''?'') @ ''amount='' @ show_int amountMsat"

fun callback_with :: "json \<Rightarrow> int \<Rightarrow> string option" where
  "callback_with (JStr s) amountMsat = Some (withAmount s (CHR ''?'' \<in> set s) amountMsat)"
| "callback_with (JArr vs) amountMsat = Some (withAmount (spelled (JArr vs)) (JStr ''?'' \<in> set vs) amountMsat)"
| "callback_with _ amountMsat = None"

subsection \<open>The invoice\<close>

definition decodeIssued :: "string \<Rightarrow> wallet_error + issued" where
  "decodeIssued bolt11 =
     (let said = decodeInvoice bolt11
      in case (invoice_paymentHash said, invoice_expiresAt said) of
           (Some hash, Some until) \<Rightarrow>
             Inr \<lparr>issued_paymentHash = hash, issued_descriptionHash = invoice_descriptionHash said,
                  issued_amountMsat = invoice_amountMsat said, issued_expiresAt = until\<rparr>
         | _ \<Rightarrow> Inl (Refused InvoiceRefused))"

text \<open>
  \<^verbatim>\<open>new URL\<close> reads any value by its text, so what is usable is decided on the text; a value that is no string is
  kept as its text, which is what every later \<^verbatim>\<open>new URL\<close> makes of it. An invoice that is no string throws.
\<close>

definition usable_verify :: "url_parser \<Rightarrow> json option \<Rightarrow> string option" where
  "usable_verify parse verify =
     (if falsy verify \<or> \<not> publicHttps parse (spelled (the verify)) then None else Some (spelled (the verify)))"

definition takeInvoice :: "url_parser \<Rightarrow> string \<Rightarrow> int \<Rightarrow> string \<Rightarrow> json \<Rightarrow> wallet_error + resolution" where
  "takeInvoice parse address amountMsat metadata said =
     (case (said_member said ''pr'', said_member said ''verify'') of
        (Inr pr, Inr verify) \<Rightarrow>
          (if falsy pr then Inl (Refused Unreachable)
           else (case usable_verify parse verify of
                   None \<Rightarrow> Inl (Refused CannotProveDelivery)
                 | Some verifyUrl \<Rightarrow>
                     (case pr of
                        Some (JStr bolt11) \<Rightarrow>
                          (case decodeIssued bolt11 of
                             Inl e \<Rightarrow> Inl e
                           | Inr issued \<Rightarrow>
                               if map_option int (issued_amountMsat issued) \<noteq> Some amountMsat
                               then Inl (Refused InvoiceRefused)
                               else if issued_descriptionHash issued \<noteq> Some (sha256Hex metadata)
                               then Inl (Refused InvoiceRefused)
                               else Inr \<lparr>resolved_address = address, resolved_bolt11 = bolt11,
                                         resolved_verifyUrl = verifyUrl,
                                         resolved_paymentHash = issued_paymentHash issued,
                                         resolved_expiresAt = issued_expiresAt issued\<rparr>)
                      | _ \<Rightarrow> Inl Crashed)))
      | _ \<Rightarrow> Inl Crashed)"

definition resolveAddress :: "network \<Rightarrow> int \<Rightarrow> string \<Rightarrow> request list \<Rightarrow>
    (wallet_error + resolution) \<times> request list" where
  "resolveAddress net amountMsat address trace =
     (case probe net amountMsat address trace of
        (Inl e, trace') \<Rightarrow> (Inl e, trace')
      | (Inr pay, trace') \<Rightarrow>
          (case callback_with (pay_callback pay) amountMsat of
             None \<Rightarrow> (Inl Crashed, trace')
           | Some url \<Rightarrow>
               (case answered net url trace' of
                  (Inl e, trace'') \<Rightarrow> (Inl e, trace'')
                | (Inr said, trace'') \<Rightarrow>
                    (takeInvoice (parse_url net) address amountMsat (pay_metadata pay) said, trace''))))"

subsection \<open>The first address that serves\<close>

fun firstThatServes :: "network \<Rightarrow> (string \<Rightarrow> request list \<Rightarrow> (wallet_error + 'a) \<times> request list) \<Rightarrow>
    string list \<Rightarrow> walletFailure list \<Rightarrow> request list \<Rightarrow>
    (resolve_error + ('a \<times> walletFailure list)) \<times> request list" where
  "firstThatServes net attempt [] refusals trace = (Inl (NoWalletAvailable refusals), trace)"
| "firstThatServes net attempt (address # addresses) refusals trace =
     (if out_of_time net trace then (Inl (NoWalletAvailable refusals), trace)
      else (case attempt address trace of
              (Inr won, trace') \<Rightarrow> (Inr (won, refusals), trace')
            | (Inl Crashed, trace') \<Rightarrow> (Inl ResolveCrashed, trace')
            | (Inl (Refused why), trace') \<Rightarrow>
                firstThatServes net attempt addresses
                  (refusals @ [\<lparr>failed_address = address, failed_reason = why\<rparr>]) trace'))"

definition resolve :: "network \<Rightarrow> string list \<Rightarrow> int \<Rightarrow> request list \<Rightarrow> (resolve_error + resolution) \<times> request list" where
  "resolve net addresses amountMsat trace =
     (case firstThatServes net (resolveAddress net amountMsat) addresses [] trace of
        (Inl e, trace') \<Rightarrow> (Inl e, trace')
      | (Inr (won, _), trace') \<Rightarrow> (Inr won, trace'))"

definition quote_wallets :: "network \<Rightarrow> string list \<Rightarrow> int \<Rightarrow> request list \<Rightarrow>
    (resolve_error + (quoted \<times> walletFailure list)) \<times> request list" where
  "quote_wallets net addresses amountMsat trace =
     (case firstThatServes net
             (\<lambda>address trace. case probe net amountMsat address trace of
                (Inl e, trace') \<Rightarrow> (Inl e, trace')
              | (Inr pay, trace') \<Rightarrow> (Inr (address, pay), trace')) addresses [] trace of
        (Inl e, trace') \<Rightarrow> (Inl e, trace')
      | (Inr ((address, pay), refusals), trace') \<Rightarrow>
          (Inr (\<lparr>quote_address = address, quote_min = pay_min pay, quote_max = pay_max pay,
                 quote_metadata = pay_metadata pay\<rparr>, refusals), trace'))"

subsection \<open>Settlement\<close>

text \<open>The match of an unanchored expression: at the first position where one starts.\<close>

fun search :: "(string \<Rightarrow> 'a option) \<Rightarrow> string \<Rightarrow> 'a option" where
  "search match_here [] = match_here []"
| "search match_here (c # s) = (case match_here (c # s) of Some x \<Rightarrow> Some x | None \<Rightarrow> search match_here s)"

definition skip_blank :: "string \<Rightarrow> string" where
  "skip_blank s = dropWhile is_space s"

definition digits_here :: "string \<Rightarrow> (nat \<times> string) option" where
  "digits_here s =
     (let ds = takeWhile is_digit s in if ds = [] then None else Some (number_of_digits ds, dropWhile is_digit s))"

definition equals_number :: "string \<Rightarrow> nat option" where
  "equals_number s =
     (case skip_blank s of
        c # r \<Rightarrow> (if c = CHR ''='' then map_option fst (digits_here (skip_blank r)) else None)
      | [] \<Rightarrow> None)"

definition max_age_here :: "string \<Rightarrow> nat option" where
  "max_age_here s = (if lower (take 7 s) = ''max-age'' then equals_number (drop 7 s) else None)"

definition header_text :: "headers \<Rightarrow> string \<Rightarrow> string" where
  "header_text hs name = (case header_get hs name of None \<Rightarrow> [] | Some v \<Rightarrow> v)"

definition paceAskedFor :: "headers \<Rightarrow> nat option" where
  "paceAskedFor hs =
     map_option (\<lambda>asked. min (max asked MIN_PACE_SECS) MAX_PACE_SECS)
       (search max_age_here (header_text hs ''cache-control''))"

definition window_here :: "string \<Rightarrow> nat option" where
  "window_here s =
     (case s of
        c # r \<Rightarrow>
          (if c = CHR '';'' then
             (case skip_blank r of
                w # r' \<Rightarrow> (if lower_char w = CHR ''w'' then equals_number r' else None)
              | [] \<Rightarrow> None)
           else None)
      | [] \<Rightarrow> None)"

definition ceilingAskedFor :: "headers \<Rightarrow> rat option" where
  "ceilingAskedFor hs =
     (case digits_here (skip_blank (header_text hs ''ratelimit-limit'')) of
        None \<Rightarrow> None
      | Some (perWindow, rest) \<Rightarrow>
          (let window = (case window_here (skip_blank rest) of None \<Rightarrow> 1 | Some w \<Rightarrow> w)
           in if perWindow = 0 \<or> window = 0 then None
              else Some (min (max (of_nat perWindow / of_nat window) MIN_PER_SECOND) MAX_PER_SECOND)))"

text \<open>Every failure of \<^verbatim>\<open>checkSettled\<close> is thrown alike; the caller only learns that it failed.\<close>

definition checkSettled :: "network \<Rightarrow> string \<Rightarrow> string \<Rightarrow> request list \<Rightarrow> settlement option \<times> request list" where
  "checkSettled net verifyUrl paymentHash trace =
     (case answeredJson net verifyUrl True trace of
        (Inl _, trace') \<Rightarrow> (None, trace')
      | (Inr (said, hs), trace') \<Rightarrow>
          (let asked = (\<lambda>p. \<lparr>settled_preimage = p, settled_pace = paceAskedFor hs, settled_ceiling = ceilingAskedFor hs\<rparr>)
           in (case (said_member said ''settled'', said_member said ''preimage'') of
                 (Inr settled, Inr preimage) \<Rightarrow>
                   (if falsy settled \<or> falsy preimage then Some (asked None)
                    else (case preimage of
                            Some (JStr p) \<Rightarrow>
                              (if preimageMatchesHash p paymentHash then Some (asked (Some p)) else None)
                          | _ \<Rightarrow> None))
               | _ \<Rightarrow> None), trace'))"

definition speaksVerify :: "network \<Rightarrow> string \<Rightarrow> request list \<Rightarrow> bool \<times> request list" where
  "speaksVerify net url trace =
     (case answeredJson net url True trace of
        (Inl _, trace') \<Rightarrow> (False, trace')
      | (Inr (said, _), trace') \<Rightarrow>
          (case said_member said ''settled'' of Inr (Some (JBool _)) \<Rightarrow> True | _ \<Rightarrow> False, trace'))"

subsection \<open>LNURL\<close>

definition toLnurl :: "url_parser \<Rightarrow> string \<Rightarrow> string option" where
  "toLnurl parse endpoint =
     (let scheme = map_option url_protocol (parse endpoint)
      in if scheme \<noteq> Some ''https:'' \<and> scheme \<noteq> Some ''http:'' then None
         else let words = toWords (utf8 endpoint); data = words @ checksumWords LNURL_HRP words
              in Some (upper (LNURL_HRP @ ''1'' @ map (\<lambda>w. BECH32_CHARSET ! w) data)))"

subsection \<open>What an invoice that gets through has proved\<close>

lemma takeInvoice_sound:
  assumes "takeInvoice parse address amountMsat metadata said = Inr r"
  shows "resolved_address r = address \<and> publicHttps parse (resolved_verifyUrl r) \<and>
    invoice_paymentHash (decodeInvoice (resolved_bolt11 r)) = Some (resolved_paymentHash r) \<and>
    map_option int (invoice_amountMsat (decodeInvoice (resolved_bolt11 r))) = Some amountMsat \<and>
    invoice_descriptionHash (decodeInvoice (resolved_bolt11 r)) = Some (sha256Hex metadata) \<and>
    invoice_expiresAt (decodeInvoice (resolved_bolt11 r)) = Some (resolved_expiresAt r)"
  using assms
  by (auto simp: takeInvoice_def decodeIssued_def usable_verify_def Let_def
      split: sum.splits if_splits option.splits json.splits)

lemma readPay_named:
  "readPay address amountMsat said = Inr pay \<Longrightarrow> namesTheAddress (Some (JStr (pay_metadata pay))) address"
  by (auto simp: readPay_def split: sum.splits if_splits option.splits json.splits)

lemma probe_named:
  "probe net amountMsat address trace = (Inr pay, trace') \<Longrightarrow>
     namesTheAddress (Some (JStr (pay_metadata pay))) address"
  by (auto simp: probe_def readPay_named split: sum.splits if_splits prod.splits)

definition proven_by :: "url_parser \<Rightarrow> int \<Rightarrow> resolution \<Rightarrow> string \<Rightarrow> bool" where
  "proven_by parse amountMsat r metadata \<longleftrightarrow>
     publicHttps parse (resolved_verifyUrl r) \<and>
     namesTheAddress (Some (JStr metadata)) (resolved_address r) \<and>
     invoice_descriptionHash (decodeInvoice (resolved_bolt11 r)) = Some (sha256Hex metadata) \<and>
     invoice_paymentHash (decodeInvoice (resolved_bolt11 r)) = Some (resolved_paymentHash r) \<and>
     map_option int (invoice_amountMsat (decodeInvoice (resolved_bolt11 r))) = Some amountMsat \<and>
     invoice_expiresAt (decodeInvoice (resolved_bolt11 r)) = Some (resolved_expiresAt r)"

lemma resolveAddress_sound:
  assumes "resolveAddress net amountMsat address trace = (Inr r, trace')"
  shows "resolved_address r = address \<and> (\<exists>metadata. proven_by (parse_url net) amountMsat r metadata)"
proof -
  obtain pay said t where pay: "probe net amountMsat address trace = (Inr pay, t)"
    and took: "takeInvoice (parse_url net) address amountMsat (pay_metadata pay) said = Inr r"
    using assms by (auto simp: resolveAddress_def split: sum.splits prod.splits option.splits)
  show ?thesis
    using takeInvoice_sound [OF took] probe_named [OF pay] by (auto simp: proven_by_def)
qed

lemma firstThatServes_won:
  "firstThatServes net attempt addresses refusals trace = (Inr (won, refusals'), trace') \<Longrightarrow>
     \<exists>before address after t.
       addresses = before @ address # after \<and> attempt address t = (Inr won, trace') \<and>
       map failed_address refusals' = map failed_address refusals @ before"
proof (induction net attempt addresses refusals trace rule: firstThatServes.induct)
  case (2 net attempt address addresses refusals trace)
  obtain outcome t where a: "attempt address trace = (outcome, t)" by fastforce
  show ?case
  proof (cases outcome)
    case (Inr w)
    then show ?thesis using 2(2) a by (auto split: if_splits intro: exI [of _ "[]"])
  next
    case (Inl e)
    then obtain why where e: "outcome = Inl (Refused why)"
      using 2(2) a by (cases e) (auto split: if_splits)
    let ?failure = "\<lparr>failed_address = address, failed_reason = why\<rparr>"
    have ok: "\<not> out_of_time net trace" using 2(2) by (auto split: if_splits)
    then have next': "firstThatServes net attempt addresses (refusals @ [?failure]) t = (Inr (won, refusals'), trace')"
      using 2(2) a e by simp
    obtain before address' after t' where found: "addresses = before @ address' # after"
      "attempt address' t' = (Inr won, trace')"
      "map failed_address refusals' = map failed_address (refusals @ [?failure]) @ before"
      using 2(1) [OF ok a [symmetric] e refl next'] by blast
    then show ?thesis by (intro exI [of _ "address # before"]) auto
  qed
qed simp

text \<open>
  C18: an invoice handed to a payer is bound to the address it was asked of. A resolution is
  for one of the addresses listed; its invoice carries exactly the amount asked for, the
  payment hash and the expiry that are watched, and the hash of metadata naming that
  address; and its verify URL is public https.
\<close>

theorem resolve_sound:
  assumes "resolve net addresses amountMsat trace = (Inr r, trace')"
  shows "resolved_address r \<in> set addresses \<and> (\<exists>metadata. proven_by (parse_url net) amountMsat r metadata)"
proof -
  obtain refusals where "firstThatServes net (resolveAddress net amountMsat) addresses [] trace = (Inr (r, refusals), trace')"
    using assms by (auto simp: resolve_def split: sum.splits prod.splits)
  then obtain address t where
    "address \<in> set addresses" "resolveAddress net amountMsat address t = (Inr r, trace')"
    using firstThatServes_won by (metis in_set_conv_decomp)
  then show ?thesis using resolveAddress_sound by metis
qed

text \<open>
  The walk down the list stops at anything that is not a refusal: a wallet whose pay
  endpoint answers the JSON value \<^verbatim>\<open>null\<close> ends the whole resolution with an error, and the
  addresses after it are never asked.
\<close>

lemma resolve_null_crashes:
  assumes "splitAddress (parse_url net) address = Inr (user, domain)" "\<not> cannotReleaseAPreimage domain"
    and "\<not> out_of_time net trace"
    and "answered net (''https://'' @ domain @ ''/.well-known/lnurlp/'' @ user) trace = (Inr JNull, trace')"
  shows "resolve net (address # addresses) amountMsat trace = (Inl ResolveCrashed, trace')"
  using assms by (simp add: resolve_def resolveAddress_def probe_def readPay_def)

subsection \<open>What a settlement has proved\<close>

lemma ceilingAskedFor_form:
  "ceilingAskedFor hs = None \<or> (\<exists>x. ceilingAskedFor hs = Some (min (max x MIN_PER_SECOND) MAX_PER_SECOND))"
  by (auto simp: ceilingAskedFor_def Let_def split: option.splits prod.splits)

text \<open>
  Nothing settles without its proof. Whatever a verify endpoint answers, a preimage the
  gateway takes from it hashes to the payment hash it was asked about, and the pace and the
  ceiling it may ask for stay between their bounds.
\<close>

theorem checkSettled_proves:
  assumes "checkSettled net verifyUrl paymentHash trace = (Some s, trace')"
  shows "(settled_preimage s = None \<or> preimageMatchesHash (the (settled_preimage s)) paymentHash) \<and>
    (settled_pace s = None \<or> (1 \<le> the (settled_pace s) \<and> the (settled_pace s) \<le> 3600)) \<and>
    (settled_ceiling s = None \<or> (1 / 100 \<le> the (settled_ceiling s) \<and> the (settled_ceiling s) \<le> 100))"
proof -
  obtain hs p where s: "s = \<lparr>settled_preimage = p, settled_pace = paceAskedFor hs, settled_ceiling = ceilingAskedFor hs\<rparr>"
    and p: "p = None \<or> preimageMatchesHash (the p) paymentHash"
    using assms by (auto simp: checkSettled_def Let_def split: sum.splits prod.splits option.splits if_splits json.splits)
  have "paceAskedFor hs = None \<or> (1 \<le> the (paceAskedFor hs) \<and> the (paceAskedFor hs) \<le> 3600)"
    by (cases "search max_age_here (header_text hs ''cache-control'')")
      (auto simp: paceAskedFor_def MIN_PACE_SECS_def MAX_PACE_SECS_def)
  moreover have "1 / 100 \<le> min (max x (1 / 100)) 100 \<and> min (max x (1 / 100)) 100 \<le> 100" for x :: rat
    by (simp add: min_def max_def)
  then have "ceilingAskedFor hs = None \<or> (1 / 100 \<le> the (ceilingAskedFor hs) \<and> the (ceilingAskedFor hs) \<le> 100)"
    using ceilingAskedFor_form [of hs] by (metis MAX_PER_SECOND_def MIN_PER_SECOND_def option.sel)
  ultimately show ?thesis using s p by simp
qed

subsection \<open>LNURL texts decode\<close>

text \<open>A reader of LNURL texts, from the program's own bech32 parts.\<close>

definition lnurl_payload :: "string \<Rightarrow> bytes option" where
  "lnurl_payload lnurl =
     (let lowered = lower lnurl
      in if \<not> starts_with (LNURL_HRP @ ''1'') lowered then None
         else (case those_of (map (\<lambda>c. index_of c BECH32_CHARSET) (drop 6 lowered)) of
                 None \<Rightarrow> None
               | Some words \<Rightarrow>
                   if bech32Polymod (expandedHrp LNURL_HRP @ words) \<noteq> 1 then None
                   else Some (wordsToBytes (take (length words - CHECKSUM_WORDS) words))))"

lemma lnurl_plain: "list_all (\<lambda>c. lower_char (upper_char c) = c) (LNURL_HRP @ ''1'')"
proof -
  have "list_all (\<lambda>c. is_digit c \<or> (97 \<le> code c \<and> code c \<le> 122)) (LNURL_HRP @ ''1'')"
    by (simp add: LNURL_HRP_def is_digit_def code_def)
  then show ?thesis by (auto simp: list_all_iff lower_upper_char)
qed

text \<open>
  An LNURL text is the endpoint it was made from. The text the encoder writes passes the
  bech32 checksum, and regrouping its words gives back the bytes of the endpoint.
\<close>

theorem toLnurl_decodes:
  assumes "toLnurl parse endpoint = Some lnurl"
  shows "lnurl_payload lnurl = Some (utf8 endpoint)"
proof -
  define words where "words = toWords (utf8 endpoint)"
  define data where "data = words @ checksumWords LNURL_HRP words"
  define chars where "chars = map (\<lambda>w. BECH32_CHARSET ! w) data"
  have lnurl: "lnurl = upper ((LNURL_HRP @ ''1'') @ chars)"
    using assms by (simp add: toLnurl_def Let_def chars_def data_def words_def split: if_splits)
  have small: "\<forall>w\<in>set data. w < 32"
    using toWords_small checksumWords_small by (auto simp: data_def words_def)
  have "list_all (\<lambda>c. lower_char (upper_char c) = c) chars"
    using small charset_plain charset(2) by (auto simp: chars_def list_all_iff)
  then have lowered: "lower lnurl = (LNURL_HRP @ ''1'') @ chars"
    unfolding lnurl using lnurl_plain by (intro lower_upper_plain) simp
  have read: "those_of (map (\<lambda>c. index_of c BECH32_CHARSET) chars) = Some data"
    unfolding chars_def by (rule read_charset [OF small])
  have "drop 6 (lower lnurl) = chars" unfolding lowered by (simp add: LNURL_HRP_def)
  moreover have "starts_with (LNURL_HRP @ ''1'') (lower lnurl)"
    unfolding lowered starts_with_def by simp
  moreover have "bech32Polymod (expandedHrp LNURL_HRP @ data) = 1"
    unfolding data_def by (rule polymod_checksum)
  moreover have "take (length data - CHECKSUM_WORDS) data = words"
    by (simp add: data_def length_checksumWords CHECKSUM_WORDS_def)
  ultimately show ?thesis
    by (simp add: lnurl_payload_def Let_def read words_def wordsToBytes_toWords)
qed

subsection \<open>Concrete networks\<close>

text \<open>
  A network for the witnesses: every URL parses to one public host, which resolves to one
  public address, and the \<open>n\<close>th request is answered with the \<open>n\<close>th of a list of values.
\<close>

definition sample_host :: string where "sample_host = ''pay.example.com''"

definition sample_url :: url where
  "sample_url = \<lparr>url_href = ''https://pay.example.com/'', url_protocol = ''https:'', url_host = sample_host,
     url_hostname = sample_host, url_port = [], url_pathname = ''/'', url_search = [], url_hash = [],
     url_origin = ''https://pay.example.com''\<rparr>"

definition sample_net :: "json list \<Rightarrow> network" where
  "sample_net answers =
     \<lparr>parse_url = (\<lambda>_. Some sample_url), resolve_url = (\<lambda>_ _. None), is_ip = (\<lambda>_. 0),
      dns = (\<lambda>_ _. Some ([''93.184.216.34''], [])),
      send = (\<lambda>trace _. Some \<lparr>response_status = 200, response_headers = [],
                response_chunks = Some [replicate (length trace) 0]\<rparr>),
      decode_text = (\<lambda>bs. stringify (answers ! length bs)),
      out_of_time = (\<lambda>_. False)\<rparr>"

lemma sample_public: "publicHttps (\<lambda>_. Some sample_url) u"
  by (simp add: publicHttps_def sample_url_def sample_host_def hostIsPublic_def starts_with_code
      without_last_dot_def ends_with_code lower_def lower_char_def code_def PRIVATE_SUFFIXES_def
      is_decimal_def is_digit_def Let_def)

lemma sample_address: "publicAddress ''93.184.216.34''"
  by (simp add: publicAddress_def ipv4IsGlobal_def part_number_def number_of_digits_def
      digit_value_def is_digit_def code_def Let_def)

lemma sample_reach:
  "addressesToReach (sample_net answers) trace u = Inr [\<lparr>verified_address = ''93.184.216.34'', verified_family = 4\<rparr>]"
  using sample_public sample_address
  by (simp add: addressesToReach_def sample_net_def resolved_def all_public_def Let_def)

lemma sample_chunks: "length c \<le> 10 \<Longrightarrow> read_chunks [c] 0 = (c, False)"
  by (simp add: read_chunks.simps BODY_LIMIT_BYTES_def)

lemma sample_answered:
  assumes "length trace < length answers" "length trace \<le> 10" "json_plain (answers ! length trace)"
  shows "\<exists>r. answeredJson (sample_net answers) u stays trace = (Inr (answers ! length trace, []), trace @ [r])"
  using assms
  by (simp add: answeredJson_def ask_def HOPS_FOLLOWED_def numeral_3_eq_3 sample_reach Let_def)
    (simp add: sample_net_def answerOf_def sample_chunks REDIRECTS_def parse_stringify)

lemma checkSettled_proves_witness:
  "let hash = bytesToHex (sha256 (hexToBytes ''00ff''));
       net = sample_net [JObj [(''settled'', JBool True), (''preimage'', JStr ''00ff'')]];
       s = the (fst (checkSettled net ''https://pay.example.com/v'' hash []))
   in settled_preimage s = Some ''00ff'' \<and>
     (settled_preimage s = None \<or> preimageMatchesHash (the (settled_preimage s)) hash) \<and>
     (settled_pace s = None \<or> (1 \<le> the (settled_pace s) \<and> the (settled_pace s) \<le> 3600)) \<and>
     (settled_ceiling s = None \<or> (1 / 100 \<le> the (settled_ceiling s) \<and> the (settled_ceiling s) \<le> 100))"
proof -
  let ?hash = "bytesToHex (sha256 (hexToBytes ''00ff''))"
  let ?said = "JObj [(''settled'', JBool True), (''preimage'', JStr ''00ff'')]"
  let ?net = "sample_net [?said]" and ?u = "''https://pay.example.com/v''"
  obtain r where r: "answeredJson ?net ?u True [] = (Inr (?said, []), [r])"
    using sample_answered [of "[]" "[?said]" ?u True] by auto
  have "lower ?hash = ?hash" by (rule lower_lower_hex) (rule lower_hex_bytesToHex)
  then have "preimageMatchesHash ''00ff'' ?hash"
    by (simp add: preimageMatchesHash_def isHex_def is_hex_char_def is_lower_hex_def is_digit_def code_def)
  then obtain s trace' where s: "checkSettled ?net ?u ?hash [] = (Some s, trace')" "settled_preimage s = Some ''00ff''"
    by (simp add: checkSettled_def r)
  from checkSettled_proves [OF s(1)] show ?thesis
    unfolding Let_def s(1) fst_conv option.sel using s(2) by simp
qed

definition sample_metadata :: string where
  "sample_metadata = stringify (JArr [JArr [JStr ''text/identifier'', JStr ''me@pay.example.com'']])"

definition sample_pay :: json where
  "sample_pay = JObj [(''tag'', JStr ''payRequest''), (''callback'', JStr ''https://pay.example.com/cb''),
     (''metadata'', JStr sample_metadata), (''minSendable'', JNum 1), (''maxSendable'', JNum 100000)]"

definition sample_issue :: json where
  "sample_issue = JObj [(''pr'', JStr (sample_invoice (replicate 32 7) (sha256 (utf8 sample_metadata)))),
     (''verify'', JStr ''https://pay.example.com/v'')]"

lemma sample_split:
  "splitAddress (\<lambda>_. Some sample_url) ''me@pay.example.com'' = Inr (''me'', sample_host)"
  by (simp add: splitAddress_def sample_public [unfolded sample_url_def sample_host_def] isNothingButAHost_def sample_url_def sample_host_def
      namesOneAccount_def is_word_char_def is_letter_def code_def lower_def lower_char_def)

lemma sample_names: "namesTheAddress (Some (JStr sample_metadata)) ''me@pay.example.com''"
  by (simp add: namesTheAddress_def sample_metadata_def parse_stringify NAMES_AN_ADDRESS_def)

lemma sample_invoice_not_Nil: "sample_invoice hash about \<noteq> []"
  by (simp add: sample_invoice_def write_invoice_def)


lemma sample_resolves:
  "\<exists>r trace. resolve (sample_net [sample_pay, sample_issue]) [''me@pay.example.com''] 1000 [] = (Inr r, trace) \<and>
     resolved_verifyUrl r = ''https://pay.example.com/v'' \<and> resolved_paymentHash r = bytesToHex (replicate 32 7) \<and>
     resolved_expiresAt r = readNumber (replicate 7 1) + 3600"
proof -
  let ?net = "sample_net [sample_pay, sample_issue]"
  have net: "parse_url ?net = (\<lambda>_. Some sample_url)" "\<not> out_of_time ?net t" for t
    by (simp_all add: sample_net_def)
  let ?u = "''https://'' @ sample_host @ ''/.well-known/lnurlp/'' @ ''me''"
  let ?v = "withAmount ''https://pay.example.com/cb'' False 1000"
  have plain: "json_plain sample_pay" "json_plain sample_issue"
    by (simp_all add: sample_pay_def sample_issue_def)
  obtain r where r1: "answeredJson ?net ?u False [] = (Inr (sample_pay, []), [r])"
    using sample_answered [of "[]" "[sample_pay, sample_issue]" ?u False] plain by auto
  obtain r' where r2: "answeredJson ?net ?v False [r] = (Inr (sample_issue, []), [r, r'])"
    using sample_answered [of "[r]" "[sample_pay, sample_issue]" ?v False] plain by auto
  have able: "\<not> cannotReleaseAPreimage sample_host"
    by (simp add: cannotReleaseAPreimage_def sample_host_def VERIFY_WITHOUT_PREIMAGE_def ends_with_code
        lower_def lower_char_def code_def Let_def)
  have read: "readPay ''me@pay.example.com'' 1000 sample_pay = Inr \<lparr>pay_callback = JStr ''https://pay.example.com/cb'',
      pay_metadata = sample_metadata, pay_min = Some (JNum 1), pay_max = Some (JNum 100000)\<rparr>"
    using sample_names by (simp add: readPay_def sample_pay_def amount_below_def amount_above_def)
  have took: "\<exists>res. takeInvoice (\<lambda>_. Some sample_url) ''me@pay.example.com'' 1000 sample_metadata sample_issue = Inr res \<and>
      resolved_verifyUrl res = ''https://pay.example.com/v'' \<and> resolved_paymentHash res = bytesToHex (replicate 32 7) \<and>
      resolved_expiresAt res = readNumber (replicate 7 1) + 3600"
    by (simp add: takeInvoice_def sample_issue_def sample_invoice_not_Nil usable_verify_def sample_public
        decodeIssued_def decodeInvoice_sample Let_def sha256Hex_def)
  have asked: "answered ?net ?u [] = (Inr sample_pay, [r])" "answered ?net ?v [r] = (Inr sample_issue, [r, r'])"
    unfolding answered_def r1 r2 by simp_all
  have "probe ?net 1000 ''me@pay.example.com'' [] = (readPay ''me@pay.example.com'' 1000 sample_pay, [r])"
    unfolding probe_def net sample_split using able asked(1) by simp
  then obtain res where "resolveAddress ?net 1000 ''me@pay.example.com'' [] = (Inr res, [r, r'])"
    "resolved_verifyUrl res = ''https://pay.example.com/v''" "resolved_paymentHash res = bytesToHex (replicate 32 7)"
    "resolved_expiresAt res = readNumber (replicate 7 1) + 3600"
    unfolding resolveAddress_def using took asked(2) by (auto simp: read net)
  then show ?thesis by (simp add: resolve_def net)
qed

lemma resolve_sound_witness:
  "\<exists>r trace. resolve (sample_net [sample_pay, sample_issue]) [''me@pay.example.com''] 1000 [] = (Inr r, trace) \<and>
     resolved_address r \<in> set [''me@pay.example.com''] \<and>
     (\<exists>metadata. proven_by (parse_url (sample_net [sample_pay, sample_issue])) 1000 r metadata)"
  using sample_resolves resolve_sound by metis

lemma toLnurl_decodes_witness:
  "lnurl_payload (the (toLnurl (\<lambda>_. Some sample_url) ''https://pay.example.com/u'')) =
     Some (utf8 ''https://pay.example.com/u'')"
  by (rule toLnurl_decodes [where parse = "\<lambda>_. Some sample_url"]) (simp add: toLnurl_def sample_url_def Let_def)

end
