(* ===== verification/Wire.thy ===== *)
theory Wire
  imports Payment Lnurl
begin

text \<open>
  \<^verbatim>\<open>src/wire.ts\<close>: what the API shows and what it reads. A request body is a parsed JSON value;
  a reader gives the request or the message of the \<^verbatim>\<open>MalformedRequest\<close> it throws. The
  platform's \<^verbatim>\<open>Date.parse\<close>, whose formats beyond ISO 8601 are its own choice, is a
  parameter, as is the URL parser. The lemmas show that what is read is well formed and that every
  well-formed request is read, that no provider is asked more than three times, that two
  requests share a fingerprint's text only when they are the same request, and that the
  wire form of a payment does not depend on its webhooks, its caller or its trigger.
\<close>

definition ASSET_CODE :: string where "ASSET_CODE = ''BTC''"
definition ASSET_SCALE :: int where "ASSET_SCALE = 11"
definition MAX_ADDRESSES :: nat where "MAX_ADDRESSES = 16"
definition MAX_PER_DOMAIN :: nat where "MAX_PER_DOMAIN = 3"
definition MAX_ADDRESS_CHARS :: nat where "MAX_ADDRESS_CHARS = 320"
definition MAX_SEALED_CHARS :: nat where "MAX_SEALED_CHARS = 4096"
definition REPLAY_DEPTH :: int where "REPLAY_DEPTH = 10"
definition MAX_REPLAY_DEPTH :: int where "MAX_REPLAY_DEPTH = 500"

record kept =
  kept_id :: string
  kept_caller :: "string option"
  kept_sealed :: string
  kept_paid :: bool
  kept_settledAt :: "int option"

record watchRequest =
  watch_paymentHash :: string
  watch_verifyUrl :: string
  watch_expiresAt :: int
  watch_trigger :: "string option"
  watch_replay :: int
  watch_sealed :: "string option"
  watch_webhook :: "webhook option"

record createRequest =
  create_addresses :: "string list"
  create_amountMsat :: int
  create_webhook :: "webhook option"
  create_trigger :: "string option"
  create_replay :: int

record quoteRequest =
  quoted_addresses :: "string list"
  quoted_amountMsat :: int

datatype ticketRequest =
    TriggerTicket string int
  | PaymentTicket string
  | AgentTicket

subsection \<open>What is shown\<close>

definition toAmount :: "json \<Rightarrow> json" where
  "toAmount value =
     JObj [(''value'', value), (''asset_code'', JStr ASSET_CODE), (''asset_scale'', JNum ASSET_SCALE)]"

definition amount_of_msat :: "int \<Rightarrow> json" where
  "amount_of_msat msat = toAmount (JStr (show_int msat))"

definition paymentToWire :: "'a public_payment_scheme \<Rightarrow> (string \<times> json) list" where
  "paymentToWire p =
     [(''id'', JStr (pay_id p)),
      (''kind'', JStr (if lnAddress p = None then ''watched'' else ''minted''))] @
     (case lnAddress p of None \<Rightarrow> [] | Some a \<Rightarrow> [(''ln_address'', JStr a)]) @
     (case amountMsat p of None \<Rightarrow> [] | Some m \<Rightarrow> [(''incoming_amount'', amount_of_msat m)]) @
     [(''status'', JStr (status_text (pay_status p)))] @
     (case bolt11 p of None \<Rightarrow> [] | Some b \<Rightarrow> [(''bolt11'', JStr b)]) @
     [(''payment_hash'', JStr (paymentHash p)),
      (''verify_url'', JStr (verifyUrl p)),
      (''preimage'', nullable JStr (preimage p)),
      (''expires_at'', JStr (toTimestamp (expiresAt p))),
      (''created_at'', JStr (toTimestamp (createdAt p)))] @
     (case sealed p of None \<Rightarrow> [] | Some s \<Rightarrow> [(''sealed'', JStr s)]) @
     (if replay p = 0 then [] else [(''replay'', JNum (replay p))])"

definition deliveryToWire :: "'a public_payment_scheme \<Rightarrow> int \<Rightarrow> (string \<times> json) list" where
  "deliveryToWire p settledAt =
     [(''id'', JStr (pay_id p)), (''status'', JStr (status_text (pay_status p))),
      (''payment_hash'', JStr (paymentHash p)), (''preimage'', nullable JStr (preimage p)),
      (''settled_at'', JStr (toTimestamp settledAt))]"

definition keptToWire :: "kept \<Rightarrow> (string \<times> json) list" where
  "keptToWire k =
     [(''id'', JStr (kept_id k)), (''kind'', JStr ''kept''),
      (''status'', JStr (if kept_paid k then ''paid'' else ''expired''))] @
     (case kept_settledAt k of None \<Rightarrow> [] | Some t \<Rightarrow> [(''settled_at'', JStr (toTimestamp t))]) @
     [(''sealed'', JStr (kept_sealed k))]"

definition failure_json :: "walletFailure \<Rightarrow> json" where
  "failure_json f = JObj [(''address'', JStr (failed_address f)), (''reason'', JStr (reason_text (failed_reason f)))]"

text \<open>
  \<^verbatim>\<open>String(msat)\<close> of a bound as the wallet sent it: a whole number in decimal, a fraction or a
  text as it is written, anything else by its name.
\<close>

fun js_string :: "json option \<Rightarrow> string" where
  "js_string (Some (JNum n)) = show_int n"
| "js_string (Some (JFraction t)) = t"
| "js_string (Some (JStr s)) = s"
| "js_string (Some (JBool b)) = (if b then ''true'' else ''false'')"
| "js_string (Some JNull) = ''null''"
| "js_string (Some (JObj _)) = ''[object Object]''"
| "js_string (Some (JArr vs)) =
     join '','' (map (\<lambda>v. if v = JNull then [] else js_string (Some v)) vs)"
| "js_string None = ''undefined''"

definition quoteToWire :: "quoted \<Rightarrow> int \<Rightarrow> walletFailure list \<Rightarrow> (string \<times> json) list" where
  "quoteToWire offer msat refusals =
     [(''ln_address'', JStr (quote_address offer)),
      (''amount'', amount_of_msat msat),
      (''fee'', amount_of_msat 0),
      (''min_amount'', toAmount (JStr (js_string (quote_min offer)))),
      (''max_amount'', toAmount (JStr (js_string (quote_max offer)))),
      (''metadata'', JStr (quote_metadata offer)),
      (''refusals'', JArr (map failure_json refusals))]"

subsection \<open>What is read\<close>

type_synonym 'a reading = "string + 'a"

fun asObject :: "json option \<Rightarrow> string \<Rightarrow> (string \<times> json) list reading" where
  "asObject (Some (JObj ms)) complaint = Inr ms"
| "asObject _ complaint = Inl complaint"

definition BODY_COMPLAINT :: string where "BODY_COMPLAINT = ''the request body must be a JSON object''"

definition domain_of :: "string \<Rightarrow> string option" where
  "domain_of address =
     (case last_index_of CHR ''@'' address of None \<Rightarrow> None | Some i \<Rightarrow> Some (lower (drop (i + 1) address)))"

text \<open>\<open>asked\<close> is the map from a domain to the times it has been seen.\<close>

fun askedTooOften :: "(string \<Rightarrow> nat) \<Rightarrow> string list \<Rightarrow> string option" where
  "askedTooOften asked [] = None"
| "askedTooOften asked (address # rest) =
     (case domain_of address of
        None \<Rightarrow> askedTooOften asked rest
      | Some domain \<Rightarrow>
          (let seen = asked domain + 1
           in if seen > MAX_PER_DOMAIN then Some domain
              else askedTooOften (asked(domain := seen)) rest))"

definition domainAskedTooOften :: "string list \<Rightarrow> string option" where
  "domainAskedTooOften addresses = askedTooOften (\<lambda>_. 0) addresses"

fun string_items :: "json list \<Rightarrow> string list option" where
  "string_items [] = Some []"
| "string_items (JStr s # vs) = map_option (\<lambda>ss. s # ss) (string_items vs)"
| "string_items (_ # vs) = None"

definition readAddresses :: "json option \<Rightarrow> string list reading" where
  "readAddresses value =
     (case (case value of Some (JArr vs) \<Rightarrow> string_items vs | _ \<Rightarrow> None) of
        None \<Rightarrow> Inl ''ln_addresses must be a non-empty list of lightning addresses''
      | Some addresses \<Rightarrow>
          if addresses = [] then Inl ''ln_addresses must be a non-empty list of lightning addresses''
          else if length addresses > MAX_ADDRESSES
          then Inl (''ln_addresses takes at most '' @ show_nat MAX_ADDRESSES @ '' addresses'')
          else if list_ex (\<lambda>one. length one > MAX_ADDRESS_CHARS) addresses
          then Inl (''a lightning address is at most '' @ show_nat MAX_ADDRESS_CHARS @ '' characters'')
          else (case domainAskedTooOften addresses of
                  Some crowded \<Rightarrow>
                    Inl (''ln_addresses names '' @ crowded @ '' more than '' @ show_nat MAX_PER_DOMAIN @
                         '' times, and a priority list is meant to name different providers'')
                | None \<Rightarrow> Inr addresses))"

definition MAX_SAFE_INTEGER :: int where "MAX_SAFE_INTEGER = 9007199254740991"

definition readAmount :: "json option \<Rightarrow> string \<Rightarrow> int reading" where
  "readAmount value name =
     and_then (asObject value (name @ '' must be an amount object'')) (\<lambda>amount.
       if field amount ''asset_code'' \<noteq> Some (JStr ASSET_CODE) \<or> field amount ''asset_scale'' \<noteq> Some (JNum ASSET_SCALE)
       then Inl (name @ '' must be '' @ ASSET_CODE @ '' at scale '' @ show_int ASSET_SCALE @
                 '', the scale that counts millisatoshi'')
       else (case field amount ''value'' of
               Some (JStr digits) \<Rightarrow>
                 (if \<not> is_decimal digits then Inl (name @ ''.value must be a decimal string'')
                  else let msat = int (number_of_digits digits)
                       in if msat \<le> 0 \<or> msat > MAX_SAFE_INTEGER
                          then Inl (name @ ''.value must be a positive count of millisatoshi'')
                          else Inr msat)
             | _ \<Rightarrow> Inl (name @ ''.value must be a decimal string'')))"

definition is_hash32 :: "string \<Rightarrow> bool" where
  "is_hash32 s \<longleftrightarrow> length s = 64 \<and> list_all is_lower_hex s"

definition readHash :: "json option \<Rightarrow> string reading" where
  "readHash value =
     (case value of
        Some (JStr s) \<Rightarrow> (if is_hash32 s then Inr s else Inl ''payment_hash must be 32 bytes of lowercase hex'')
      | _ \<Rightarrow> Inl ''payment_hash must be 32 bytes of lowercase hex'')"

definition readExpiry :: "(string \<Rightarrow> int option) \<Rightarrow> json option \<Rightarrow> int reading" where
  "readExpiry date_parse value =
     (case value of
        Some (JStr s) \<Rightarrow>
          (case date_parse s of
             None \<Rightarrow> Inl ''expires_at must be an RFC 3339 timestamp''
           | Some milliseconds \<Rightarrow> Inr (milliseconds div 1000))
      | _ \<Rightarrow> Inl ''expires_at must be an RFC 3339 timestamp'')"

definition readSealed :: "json option \<Rightarrow> string option reading" where
  "readSealed value =
     (if missing value then Inr None
      else (case value of
              Some (JStr s) \<Rightarrow>
                (if length s > MAX_SEALED_CHARS
                 then Inl (''sealed must be a string of at most '' @ show_nat MAX_SEALED_CHARS @ '' characters'')
                 else Inr (Some s))
            | _ \<Rightarrow> Inl (''sealed must be a string of at most '' @ show_nat MAX_SEALED_CHARS @ '' characters'')))"

definition readReplay :: "json option \<Rightarrow> json option \<Rightarrow> int reading" where
  "readReplay value trig =
     (if missing value then Inr 0
      else (case value of
              Some (JNum n) \<Rightarrow>
                (if n < 0 then Inl ''replay must be a whole number of settlements to keep, 0 or more''
                 else if n > 0 \<and> missing trig
                 then Inl ''replay keeps a trigger's settlements, so it needs a trigger''
                 else Inr n)
            | _ \<Rightarrow> Inl ''replay must be a whole number of settlements to keep, 0 or more''))"

definition readReplayDepth :: "json option \<Rightarrow> int reading" where
  "readReplayDepth value =
     (if missing value then Inr REPLAY_DEPTH
      else let asked = (case value of
                          Some (JStr s) \<Rightarrow> (if trim s \<noteq> [] then js_whole s else None)
                        | Some (JNum n) \<Rightarrow> Some n
                        | _ \<Rightarrow> None)
           in case asked of
                Some n \<Rightarrow>
                  (if n < 0 \<or> n > MAX_REPLAY_DEPTH
                   then Inl (''replay must be a whole number from 0 to '' @ show_int MAX_REPLAY_DEPTH) else Inr n)
              | None \<Rightarrow> Inl (''replay must be a whole number from 0 to '' @ show_int MAX_REPLAY_DEPTH))"

definition readTrigger :: "json option \<Rightarrow> string option reading" where
  "readTrigger value =
     (if missing value then Inr None
      else (case value of
              Some (JStr s) \<Rightarrow>
                (if is_hash32 s then Inr (Some s)
                 else Inl ''trigger must be the hex sha256 of the secret you will watch with'')
            | _ \<Rightarrow> Inl ''trigger must be the hex sha256 of the secret you will watch with''))"

definition carriesControlCharacters :: "string \<Rightarrow> bool" where
  "carriesControlCharacters s \<longleftrightarrow> list_ex (\<lambda>c. code c < 32 \<or> code c = 127) s"

definition readWebhook :: "url_parser \<Rightarrow> json option \<Rightarrow> webhook option reading" where
  "readWebhook parse value =
     (if missing value then Inr None
      else and_then (asObject value ''webhook must be an object'') (\<lambda>hook.
        case field hook ''url'' of
          Some (JStr u) \<Rightarrow>
            (if carriesControlCharacters u \<or> \<not> publicHttps parse u
             then Inl ''webhook.url must be a public https URL''
             else if field hook ''secret'' \<noteq> None
             then Inl ''webhook.secret is gone, a delivery is signed with the key this gateway publishes at /webhook-key''
             else Inr (Some u))
        | _ \<Rightarrow> Inl ''webhook.url must be a public https URL''))"

definition watchable :: "url_parser \<Rightarrow> string \<Rightarrow> bool" where
  "watchable parse u \<longleftrightarrow> publicHttps parse u \<or> agentAddressed u \<noteq> None"

definition readWatchRequest :: "url_parser \<Rightarrow> (string \<Rightarrow> int option) \<Rightarrow> json \<Rightarrow> watchRequest reading" where
  "readWatchRequest parse date_parse body =
     and_then (asObject (Some body) BODY_COMPLAINT) (\<lambda>ms.
       case field ms ''verify_url'' of
         Some (JStr target) \<Rightarrow>
           (if \<not> watchable parse target then Inl ''verify_url must be a public https URL or an agent address''
            else
              and_then (readHash (field ms ''payment_hash'')) (\<lambda>hash.
              and_then (readExpiry date_parse (field ms ''expires_at'')) (\<lambda>until.
              and_then (readTrigger (field ms ''trigger'')) (\<lambda>trig.
              and_then (readReplay (field ms ''replay'') (field ms ''trigger'')) (\<lambda>keep.
              and_then (readSealed (field ms ''sealed'')) (\<lambda>blob.
              and_then (readWebhook parse (field ms ''webhook'')) (\<lambda>hook.
                Inr \<lparr>watch_paymentHash = hash, watch_verifyUrl = target, watch_expiresAt = until,
                     watch_trigger = trig, watch_replay = keep, watch_sealed = blob, watch_webhook = hook\<rparr>)))))))
       | _ \<Rightarrow> Inl ''verify_url must be a public https URL or an agent address'')"

definition readCreateRequest :: "url_parser \<Rightarrow> json \<Rightarrow> createRequest reading" where
  "readCreateRequest parse body =
     and_then (asObject (Some body) BODY_COMPLAINT) (\<lambda>ms.
     and_then (readAddresses (field ms ''ln_addresses'')) (\<lambda>addresses.
     and_then (readAmount (field ms ''incoming_amount'') ''incoming_amount'') (\<lambda>amount.
     and_then (readWebhook parse (field ms ''webhook'')) (\<lambda>hook.
     and_then (readTrigger (field ms ''trigger'')) (\<lambda>trig.
     and_then (readReplay (field ms ''replay'') (field ms ''trigger'')) (\<lambda>keep.
       Inr \<lparr>create_addresses = addresses, create_amountMsat = amount, create_webhook = hook,
            create_trigger = trig, create_replay = keep\<rparr>))))))"

definition readQuoteRequest :: "json \<Rightarrow> quoteRequest reading" where
  "readQuoteRequest body =
     and_then (asObject (Some body) BODY_COMPLAINT) (\<lambda>ms.
     and_then (readAddresses (field ms ''ln_addresses'')) (\<lambda>addresses.
     and_then (readAmount (field ms ''amount'') ''amount'') (\<lambda>amount.
       Inr \<lparr>quoted_addresses = addresses, quoted_amountMsat = amount\<rparr>)))"

definition readTicketRequest :: "json \<Rightarrow> ticketRequest reading" where
  "readTicketRequest body =
     and_then (asObject (Some body) BODY_COMPLAINT) (\<lambda>ms.
       let secret = field ms ''trigger_secret''; paymentId = field ms ''payment_id''; agent = field ms ''agent''
       in if length (filter (\<lambda>asked. asked \<noteq> None) [secret, paymentId, agent]) \<noteq> 1
          then Inl ''name exactly one of trigger_secret, payment_id or agent''
          else if agent \<noteq> None then
            (if agent \<noteq> Some (JBool True) then Inl ''agent must be true'' else Inr AgentTicket)
          else if secret \<noteq> None then
            (case secret of
               Some (JStr s) \<Rightarrow>
                 (if s = [] then Inl ''trigger_secret must be a non-empty string''
                  else and_then (readReplayDepth (field ms ''replay'')) (\<lambda>depth. Inr (TriggerTicket s depth)))
             | _ \<Rightarrow> Inl ''trigger_secret must be a non-empty string'')
          else
            (case paymentId of
               Some (JStr s) \<Rightarrow>
                 (if s = [] \<or> \<not> list_all (\<lambda>c. is_word_char c \<or> c = CHR ''-'') s
                  then Inl ''payment_id must be an id this gateway could have issued''
                  else Inr (PaymentTicket s))
             | _ \<Rightarrow> Inl ''payment_id must be an id this gateway could have issued''))"

definition webhook_json :: "webhook option \<Rightarrow> json" where
  "webhook_json hook = nullable (\<lambda>u. JObj [(''url'', JStr u)]) hook"

definition fingerprint_json :: "createRequest \<Rightarrow> json" where
  "fingerprint_json asked =
     JArr [JArr (map JStr (create_addresses asked)), JNum (create_amountMsat asked),
           webhook_json (create_webhook asked), nullable JStr (create_trigger asked), JNum (create_replay asked)]"

definition fingerprint :: "createRequest \<Rightarrow> string" where
  "fingerprint asked = bytesToHex (sha256 (utf8 (stringify (fingerprint_json asked))))"

subsection \<open>Requests\<close>

definition webhook_ok :: "url_parser \<Rightarrow> webhook option \<Rightarrow> bool" where
  "webhook_ok parse hook \<longleftrightarrow>
     (case hook of None \<Rightarrow> True | Some u \<Rightarrow> publicHttps parse u \<and> \<not> carriesControlCharacters u)"

definition watch_ok :: "url_parser \<Rightarrow> watchRequest \<Rightarrow> bool" where
  "watch_ok parse r \<longleftrightarrow>
     is_hash32 (watch_paymentHash r) \<and> watchable parse (watch_verifyUrl r) \<and>
     (case watch_trigger r of None \<Rightarrow> True | Some t \<Rightarrow> is_hash32 t) \<and>
     0 \<le> watch_replay r \<and> (watch_trigger r = None \<longrightarrow> watch_replay r = 0) \<and>
     (case watch_sealed r of None \<Rightarrow> True | Some s \<Rightarrow> length s \<le> MAX_SEALED_CHARS) \<and>
     webhook_ok parse (watch_webhook r)"

text \<open>A client's body for a request, with the expiry as the text \<open>until\<close>.\<close>

definition watch_body :: "string \<Rightarrow> watchRequest \<Rightarrow> json" where
  "watch_body until r =
     JObj [(''payment_hash'', JStr (watch_paymentHash r)), (''verify_url'', JStr (watch_verifyUrl r)),
           (''expires_at'', JStr until), (''trigger'', nullable JStr (watch_trigger r)),
           (''replay'', JNum (watch_replay r)), (''sealed'', nullable JStr (watch_sealed r)),
           (''webhook'', webhook_json (watch_webhook r))]"

lemma readHash_ok: "readHash v = Inr s \<Longrightarrow> is_hash32 s"
  by (auto simp: readHash_def split: option.splits json.splits if_splits)

lemma readTrigger_ok: "readTrigger v = Inr t \<Longrightarrow> (t = None \<longleftrightarrow> missing v) \<and> (case t of None \<Rightarrow> True | Some s \<Rightarrow> is_hash32 s)"
  by (auto simp: readTrigger_def split: option.splits json.splits if_splits)

lemma readReplay_ok: "readReplay v t = Inr n \<Longrightarrow> 0 \<le> n \<and> (missing t \<longrightarrow> n = 0)"
  by (auto simp: readReplay_def split: option.splits json.splits if_splits)

lemma readSealed_ok: "readSealed v = Inr b \<Longrightarrow> (case b of None \<Rightarrow> True | Some s \<Rightarrow> length s \<le> MAX_SEALED_CHARS)"
  by (auto simp: readSealed_def split: option.splits json.splits if_splits)

lemma readWebhook_ok: "readWebhook parse v = Inr hook \<Longrightarrow> webhook_ok parse hook"
  by (auto simp: readWebhook_def webhook_ok_def split: option.splits json.splits if_splits)

lemma missing_webhook_json [simp]: "missing (Some (webhook_json hook)) \<longleftrightarrow> hook = None"
  by (cases hook) (simp_all add: webhook_json_def nullable_def missing_def)

lemma readTrigger_nullable:
  "(case t of None \<Rightarrow> True | Some s \<Rightarrow> is_hash32 s) \<Longrightarrow> readTrigger (Some (nullable JStr t)) = Inr t"
  by (cases t) (simp_all add: readTrigger_def nullable_def missing_def)

lemma readSealed_nullable:
  "(case b of None \<Rightarrow> True | Some s \<Rightarrow> length s \<le> MAX_SEALED_CHARS) \<Longrightarrow> readSealed (Some (nullable JStr b)) = Inr b"
  by (cases b) (simp_all add: readSealed_def nullable_def missing_def)

lemma readWebhook_json: "webhook_ok parse hook \<Longrightarrow> readWebhook parse (Some (webhook_json hook)) = Inr hook"
  by (cases hook) (simp_all add: readWebhook_def webhook_ok_def webhook_json_def nullable_def missing_def)

lemma readReplay_num: "0 \<le> n \<Longrightarrow> (t = None \<Longrightarrow> n = 0) \<Longrightarrow> readReplay (Some (JNum n)) (Some (nullable JStr t)) = Inr n"
  by (cases t) (simp_all add: readReplay_def nullable_def missing_def)

lemma readWatchRequest_ok:
  assumes "readWatchRequest parse date_parse body = Inr r"
  shows "watch_ok parse r"
proof -
  obtain ms u hash until trig keep blob hook where u: "watchable parse u"
    and parts: "readHash (field ms ''payment_hash'') = Inr hash" "readTrigger (field ms ''trigger'') = Inr trig"
      "readReplay (field ms ''replay'') (field ms ''trigger'') = Inr keep"
      "readSealed (field ms ''sealed'') = Inr blob" "readWebhook parse (field ms ''webhook'') = Inr hook"
    and r: "r = \<lparr>watch_paymentHash = hash, watch_verifyUrl = u, watch_expiresAt = until,
      watch_trigger = trig, watch_replay = keep, watch_sealed = blob, watch_webhook = hook\<rparr>"
    using assms by (auto simp: readWatchRequest_def split: option.splits json.splits if_splits)
  show ?thesis
    using u readHash_ok [OF parts(1)] readTrigger_ok [OF parts(2)] readReplay_ok [OF parts(3)]
      readSealed_ok [OF parts(4)] readWebhook_ok [OF parts(5)]
    by (simp add: r watch_ok_def)
qed

lemma readWatchRequest_body:
  assumes "watch_ok parse r" "date_parse until = Some ms" "watch_expiresAt r = ms div 1000"
  shows "readWatchRequest parse date_parse (watch_body until r) = Inr r"
  using assms
  by (simp add: readWatchRequest_def watch_body_def watch_ok_def readHash_def readExpiry_def
      readTrigger_nullable readReplay_num readSealed_nullable readWebhook_json)

text \<open>
  The watch endpoint reads well-formed requests and nothing else. A request that is read
  names a hash, an endpoint the gateway may poll, a bounded sealed record, a trigger wherever it asks
  for replay and a public webhook; and every such request is read from its JSON body exactly
  as it was asked.
\<close>

theorem readWatchRequest_iff:
  "watch_ok parse r \<longleftrightarrow>
     (\<exists>body date_parse. readWatchRequest parse date_parse body = Inr r)"
proof
  assume "watch_ok parse r"
  then have "readWatchRequest parse (\<lambda>_. Some (watch_expiresAt r * 1000)) (watch_body [] r) = Inr r"
    by (rule readWatchRequest_body [where ms = "watch_expiresAt r * 1000"]) simp_all
  then show "\<exists>body date_parse. readWatchRequest parse date_parse body = Inr r" by blast
qed (auto dest: readWatchRequest_ok)

subsection \<open>No provider is asked too often\<close>

definition times_asked :: "string \<Rightarrow> string list \<Rightarrow> nat" where
  "times_asked domain addresses = length (filter (\<lambda>a. domain_of a = Some domain) addresses)"

lemma askedTooOften_None:
  "(\<And>d. asked d \<le> MAX_PER_DOMAIN) \<Longrightarrow>
     askedTooOften asked addresses = None \<longleftrightarrow> (\<forall>d. asked d + times_asked d addresses \<le> MAX_PER_DOMAIN)"
proof (induction asked addresses rule: askedTooOften.induct)
  case (1 asked)
  then show ?case by (simp add: times_asked_def)
next
  case (2 asked address rest)
  show ?case
  proof (cases "domain_of address")
    case None
    then show ?thesis using 2 by (simp add: times_asked_def)
  next
    case (Some domain)
    show ?thesis
    proof (cases "asked domain + 1 > MAX_PER_DOMAIN")
      case True
      then have "\<not> asked domain + times_asked domain (address # rest) \<le> MAX_PER_DOMAIN"
        by (simp add: times_asked_def Some)
      then show ?thesis using True Some by auto
    next
      case False
      have "askedTooOften asked (address # rest) = askedTooOften (asked(domain := asked domain + 1)) rest"
        using False Some by (simp add: Let_def)
      also have "\<dots> = None \<longleftrightarrow>
          (\<forall>d. (asked(domain := asked domain + 1)) d + times_asked d rest \<le> MAX_PER_DOMAIN)"
        using False 2(3) by (intro 2(2) [OF Some refl False]) (simp add: not_less Suc_le_eq)
      also have "\<dots> \<longleftrightarrow> (\<forall>d. asked d + times_asked d (address # rest) \<le> MAX_PER_DOMAIN)"
        by (intro all_cong1) (simp add: times_asked_def Some)
      finally show ?thesis .
    qed
  qed
qed

lemma askedTooOften_Some:
  "askedTooOften asked addresses = Some d \<Longrightarrow> asked d + times_asked d addresses > MAX_PER_DOMAIN"
proof (induction asked addresses rule: askedTooOften.induct)
  case (2 asked address rest)
  show ?case
  proof (cases "domain_of address")
    case None
    then show ?thesis using 2 by (simp add: times_asked_def)
  next
    case (Some domain)
    show ?thesis
    proof (cases "asked domain + 1 > MAX_PER_DOMAIN")
      case True
      then show ?thesis using 2(3) Some by (simp add: Let_def times_asked_def)
    next
      case False
      then have "askedTooOften (asked(domain := asked domain + 1)) rest = Some d"
        using 2(3) Some by (simp add: Let_def)
      from 2(2) [OF Some refl False this] show ?thesis
        by (cases "d = domain") (simp_all add: times_asked_def Some)
    qed
  qed
qed simp

text \<open>
  A priority list cannot be aimed at one provider. The check passes exactly when no
  domain, in any case of its letters, is named more than three times, and the domain it names
  in its refusal is one that is.
\<close>

theorem domainAskedTooOften_iff:
  "(domainAskedTooOften addresses = None \<longleftrightarrow> (\<forall>domain. times_asked domain addresses \<le> MAX_PER_DOMAIN)) \<and>
   (case domainAskedTooOften addresses of
      None \<Rightarrow> True | Some crowded \<Rightarrow> times_asked crowded addresses > MAX_PER_DOMAIN)"
  using askedTooOften_None [of "\<lambda>_. 0" addresses] askedTooOften_Some [of "\<lambda>_. 0" addresses]
  by (auto simp: domainAskedTooOften_def split: option.split)

subsection \<open>Fingerprints\<close>

lemma map_JStr_inject [simp]: "map JStr xs = map JStr ys \<longleftrightarrow> xs = ys"
  by (simp add: inj_map_eq_map inj_def)

lemma nullable_inject: "nullable JStr a = nullable JStr b \<longleftrightarrow> a = b" "webhook_json u = webhook_json v \<longleftrightarrow> u = v"
  by (cases a; cases b; simp add: nullable_def) (cases u; cases v; simp add: webhook_json_def nullable_def)

lemma fingerprint_json_inject: "fingerprint_json a = fingerprint_json b \<longleftrightarrow> a = b"
  by (auto simp: fingerprint_json_def nullable_inject intro!: createRequest.equality)

lemma json_plain_fingerprint: "json_plain (fingerprint_json asked)"
  by (cases "create_webhook asked") (simp_all add: fingerprint_json_def webhook_json_def nullable_def list_all_iff
      split: option.split)

text \<open>
  One idempotency key answers one request. Two create requests have the same text to
  fingerprint exactly when they ask for the same addresses, amount, webhook, trigger and
  replay, so equal fingerprints of different requests are a collision of SHA-256.
\<close>

theorem fingerprint_names_request:
  "(stringify (fingerprint_json a) = stringify (fingerprint_json b) \<longleftrightarrow> a = b) \<and>
   (fingerprint a = fingerprint b \<longleftrightarrow>
      sha256 (utf8 (stringify (fingerprint_json a))) = sha256 (utf8 (stringify (fingerprint_json b))))"
  using stringify_inject [OF json_plain_fingerprint json_plain_fingerprint]
  by (simp add: fingerprint_json_inject fingerprint_def) (metis hexToBytes_bytesToHex)

subsection \<open>What a payment shows\<close>

text \<open>
  The wire form of a payment gives away no capability. It is the same whoever created
  the payment, whatever trigger announces it and whatever webhooks it owes; and dropping the
  webhooks first changes nothing.
\<close>

theorem paymentToWire_hides:
  "paymentToWire (p\<lparr>caller := who, trigger := announced, webhooks := hooks\<rparr>) = paymentToWire (p :: payment) \<and>
   paymentToWire (withoutSecrets p) = paymentToWire p \<and>
   map_of (paymentToWire p) ''caller'' = None \<and> map_of (paymentToWire p) ''trigger'' = None \<and>
   map_of (paymentToWire p) ''webhooks'' = None"
  by (auto simp: paymentToWire_def withoutSecrets_def public_payment.defs split: option.split)

end
