(* ===== verification/Hmac.thy ===== *)
theory Hmac
  imports Bytes Sha256
begin

text \<open>
  \<^verbatim>\<open>core/hmac.ts\<close>: the keyed hash every other part of the program signs with. HMAC is
  \<^verbatim>\<open>crypto.subtle.sign("HMAC", ...)\<close> and \<^verbatim>\<open>createHmac("sha256", key)\<close> of the platform, written
  out here as RFC 2104 defines it over the hash of theory Sha256. Successive \<^verbatim>\<open>update\<close> calls
  hash the concatenation of what they are given.
\<close>

definition block_key :: "bytes \<Rightarrow> bytes" where
  "block_key key =
     (let k = (if BLOCK_BYTES < length key then sha256 key else key)
      in k @ replicate (BLOCK_BYTES - length k) 0)"

definition hmac_sha256 :: "bytes \<Rightarrow> bytes \<Rightarrow> bytes" where
  "hmac_sha256 key message =
     (let k = block_key key
      in sha256 (map (\<lambda>b. b XOR 0x5c) k @ sha256 (map (\<lambda>b. b XOR 0x36) k @ message)))"

definition hmacHex :: "bytes \<Rightarrow> bytes \<Rightarrow> string" where
  "hmacHex secret payload = bytesToHex (hmac_sha256 secret payload)"

text \<open>
  \<^verbatim>\<open>Buffer.from(text, "hex")\<close> of Node: pairs of digits up to the first pair that is not one.
\<close>

fun buffer_from_hex :: "string \<Rightarrow> bytes" where
  "buffer_from_hex (a # b # rest) =
     (if is_hex_char a \<and> is_hex_char b then parse_byte [a, b] # buffer_from_hex rest else [])"
| "buffer_from_hex _ = []"

lemma length_hmac_sha256 [simp]: "length (hmac_sha256 key message) = 32"
  by (simp add: hmac_sha256_def Let_def)

lemma length_hmacHex [simp]: "length (hmacHex key payload) = 64"
  by (simp add: hmacHex_def)

lemma lower_hex_hmacHex [text_simps]: "list_all is_lower_hex (hmacHex key payload)"
  by (simp add: hmacHex_def lower_hex_bytesToHex)

lemma lower_hex_sha256 [text_simps]: "list_all is_lower_hex (bytesToHex (sha256 m))"
  by (rule lower_hex_bytesToHex)

lemma buffer_from_hex_bytesToHex [text_simps]: "buffer_from_hex (bytesToHex bs) = bs"
proof (induction bs)
  case (Cons b bs)
  have "list_all is_lower_hex (byte_to_hex b)"
    using lower_hex_bytesToHex [of "[b]"] by simp
  then have "is_hex_char (hex_digit (unat b div 16))" "is_hex_char (hex_digit (unat b mod 16))"
    by (auto simp: byte_to_hex_def)
  with Cons show ?case
    using parse_byte_to_hex [of b] by (simp add: byte_to_hex_def)
qed simp

lemma buffer_from_hex_hmacHex [simp]: "buffer_from_hex (hmacHex key payload) = hmac_sha256 key payload"
  by (simp add: hmacHex_def buffer_from_hex_bytesToHex)

text \<open>
  The comparison of two tags as bytes, \<^verbatim>\<open>want.length === got.length && timingSafeEqual(want, got)\<close>.
\<close>

definition timingSafeEqual :: "bytes \<Rightarrow> bytes \<Rightarrow> bool" where
  "timingSafeEqual want got \<longleftrightarrow> length want = length got \<and> want = got"

lemma timingSafeEqual_iff [simp]: "timingSafeEqual want got \<longleftrightarrow> want = got"
  by (auto simp: timingSafeEqual_def)

end
