(* ===== verification/Facts.thy ===== *)
theory Facts
  imports Wire Hmac
begin

text \<open>
  The facts instances exchange (the types and the proofs of \<^verbatim>\<open>src/ledger.ts\<close>, and
  \<^verbatim>\<open>paymentNamedBy\<close> of \<^verbatim>\<open>core/caller.ts\<close>): what each kind of fact says, the tag that
  authenticates it under the cluster key, and the checks a fact from a peer has to pass. The lemmas
  show that the signed text determines the fact, and that what an instance signs verifies.
\<close>

datatype source = AcceptedFact | PaidFact | OutboxFact | DeliveredFact

definition SOURCES :: "source list" where
  "SOURCES = [AcceptedFact, PaidFact, OutboxFact, DeliveredFact]"

fun source_text :: "source \<Rightarrow> string" where
  "source_text AcceptedFact = ''accepted''"
| "source_text PaidFact = ''paid''"
| "source_text OutboxFact = ''outbox''"
| "source_text DeliveredFact = ''delivered''"

text \<open>Sources in the order of \<^const>\<open>SOURCES\<close>.\<close>

fun source_index :: "source \<Rightarrow> nat" where
  "source_index AcceptedFact = 0"
| "source_index PaidFact = 1"
| "source_index OutboxFact = 2"
| "source_index DeliveredFact = 3"

lemma source_index_inject: "source_index a = source_index b \<Longrightarrow> a = b"
  by (cases a; cases b) simp_all

instantiation source :: linorder
begin

definition less_eq_source :: "source \<Rightarrow> source \<Rightarrow> bool" where
  "less_eq_source a b \<longleftrightarrow> source_index a \<le> source_index b"

definition less_source :: "source \<Rightarrow> source \<Rightarrow> bool" where
  "less_source a b \<longleftrightarrow> source_index a < source_index b"

instance
  by standard (auto simp: less_eq_source_def less_source_def intro: source_index_inject)

end

record fact =
  fact_origin :: string
  fact_seq :: int
  fact_id :: string
  fact_mac :: string

record accepted = fact +
  accepted_payment :: string
  accepted_at :: int
  accepted_expiresAt :: int

record paid = fact +
  paid_payment :: string
  paid_settledAt :: int

record outbox = fact +
  outbox_url :: string
  outbox_body :: string
  outbox_owedAt :: int

record delivered = fact +
  delivered_url :: string
  delivered_at :: int

record facts =
  accepted_facts :: "accepted list"
  paid_facts :: "paid list"
  outbox_facts :: "outbox list"
  delivered_facts :: "delivered list"

definition no_facts :: facts where
  "no_facts = \<lparr>accepted_facts = [], paid_facts = [], outbox_facts = [], delivered_facts = []\<rparr>"

text \<open>Watermarks: per source, the origins in the order they were recorded, with their mark.\<close>

type_synonym watermarks = "source \<Rightarrow> (string \<times> int) list"

type_synonym fact_key = "string \<times> int"

definition key_of :: "'a fact_scheme \<Rightarrow> fact_key" where
  "key_of f = (fact_origin f, fact_seq f)"

definition inSeqOrder :: "'a fact_scheme list \<Rightarrow> 'a fact_scheme list" where
  "inSeqOrder fs = sort_key key_of fs"

subsection \<open>Tags\<close>

datatype cell = Text string | Whole int

fun cell_text :: "cell \<Rightarrow> string" where
  "cell_text (Text s) = s"
| "cell_text (Whole n) = show_int n"

text \<open>The columns of each table but the tag, in the order of \<^verbatim>\<open>COLUMNS\<close>; none of them is ever null.\<close>

definition accepted_cells :: "'a accepted_scheme \<Rightarrow> cell list" where
  "accepted_cells f =
     [Text (fact_origin f), Whole (fact_seq f), Text (fact_id f), Text (accepted_payment f),
      Whole (accepted_at f), Whole (accepted_expiresAt f)]"

definition paid_cells :: "'a paid_scheme \<Rightarrow> cell list" where
  "paid_cells f =
     [Text (fact_origin f), Whole (fact_seq f), Text (fact_id f), Text (paid_payment f), Whole (paid_settledAt f)]"

definition outbox_cells :: "'a outbox_scheme \<Rightarrow> cell list" where
  "outbox_cells f =
     [Text (fact_origin f), Whole (fact_seq f), Text (fact_id f), Text (outbox_url f), Text (outbox_body f),
      Whole (outbox_owedAt f)]"

definition delivered_cells :: "'a delivered_scheme \<Rightarrow> cell list" where
  "delivered_cells f =
     [Text (fact_origin f), Whole (fact_seq f), Text (fact_id f), Text (delivered_url f), Whole (delivered_at f)]"

text \<open>What the tag is computed over: the source, and every column behind a NUL.\<close>

definition mac_message :: "source \<Rightarrow> cell list \<Rightarrow> bytes" where
  "mac_message source cells = utf8 (source_text source @ concat (map (\<lambda>c. CHR 0x00 # cell_text c) cells))"

definition macWith :: "bytes \<Rightarrow> source \<Rightarrow> cell list \<Rightarrow> string" where
  "macWith key source cells = hmacHex key (mac_message source cells)"

definition verify_mac :: "bytes \<Rightarrow> source \<Rightarrow> cell list \<Rightarrow> string \<Rightarrow> bool" where
  "verify_mac key source cells mac \<longleftrightarrow>
     timingSafeEqual (buffer_from_hex (macWith key source cells)) (buffer_from_hex mac)"

definition sign_accepted :: "bytes \<Rightarrow> 'a accepted_scheme \<Rightarrow> 'a accepted_scheme" where
  "sign_accepted key f = f\<lparr>fact_mac := macWith key AcceptedFact (accepted_cells f)\<rparr>"

definition sign_paid :: "bytes \<Rightarrow> 'a paid_scheme \<Rightarrow> 'a paid_scheme" where
  "sign_paid key f = f\<lparr>fact_mac := macWith key PaidFact (paid_cells f)\<rparr>"

definition sign_outbox :: "bytes \<Rightarrow> 'a outbox_scheme \<Rightarrow> 'a outbox_scheme" where
  "sign_outbox key f = f\<lparr>fact_mac := macWith key OutboxFact (outbox_cells f)\<rparr>"

definition sign_delivered :: "bytes \<Rightarrow> 'a delivered_scheme \<Rightarrow> 'a delivered_scheme" where
  "sign_delivered key f = f\<lparr>fact_mac := macWith key DeliveredFact (delivered_cells f)\<rparr>"

definition verify_accepted :: "bytes \<Rightarrow> 'a accepted_scheme \<Rightarrow> bool" where
  "verify_accepted key f \<longleftrightarrow> verify_mac key AcceptedFact (accepted_cells f) (fact_mac f)"

definition verify_paid :: "bytes \<Rightarrow> 'a paid_scheme \<Rightarrow> bool" where
  "verify_paid key f \<longleftrightarrow> verify_mac key PaidFact (paid_cells f) (fact_mac f)"

definition verify_outbox :: "bytes \<Rightarrow> 'a outbox_scheme \<Rightarrow> bool" where
  "verify_outbox key f \<longleftrightarrow> verify_mac key OutboxFact (outbox_cells f) (fact_mac f)"

definition verify_delivered :: "bytes \<Rightarrow> 'a delivered_scheme \<Rightarrow> bool" where
  "verify_delivered key f \<longleftrightarrow> verify_mac key DeliveredFact (delivered_cells f) (fact_mac f)"

subsection \<open>Names and proofs\<close>

definition paymentNamedBy :: "string \<Rightarrow> string \<Rightarrow> string" where
  "paymentNamedBy who hash = sha256Hex (who @ ''.payment-id.'' @ hash)"

definition paymentId :: "bytes \<Rightarrow> string \<Rightarrow> string" where
  "paymentId key hash = hmacHex key (utf8 (''payment-id'' @ hash))"

definition payment_name :: "bytes \<Rightarrow> string option \<Rightarrow> string \<Rightarrow> string" where
  "payment_name key who hash =
     (case who of None \<Rightarrow> paymentId key hash | Some c \<Rightarrow> paymentNamedBy c hash)"

definition namesItsOwnHash :: "bytes \<Rightarrow> string \<Rightarrow> 'a public_payment_scheme \<Rightarrow> bool" where
  "namesItsOwnHash key i p \<longleftrightarrow> i = payment_name key (caller p) (paymentHash p)"

definition proves :: "string option \<Rightarrow> string \<Rightarrow> bool" where
  "proves secret hash \<longleftrightarrow>
     bytesToHex (sha256 (buffer_from_hex (case secret of None \<Rightarrow> [] | Some s \<Rightarrow> s))) = hash"

definition provenAccepted :: "bytes \<Rightarrow> 'a accepted_scheme \<Rightarrow> bool" where
  "provenAccepted key f \<longleftrightarrow>
     verify_accepted key f \<and>
     (case asStored (accepted_payment f) of
        None \<Rightarrow> False
      | Some p \<Rightarrow>
          pay_id p = fact_id f \<and> namesItsOwnHash key (fact_id f) p \<and>
          expiresAt p = accepted_expiresAt f \<and>
          (case Option.bind (bolt11 p) (\<lambda>b. invoice_paymentHash (decodeInvoice b)) of
             None \<Rightarrow> True
           | Some carried \<Rightarrow> carried = paymentHash p))"

definition provenPaid :: "bytes \<Rightarrow> 'a paid_scheme \<Rightarrow> bool" where
  "provenPaid key f \<longleftrightarrow>
     verify_paid key f \<and>
     (case asStoredPublic (paid_payment f) of
        None \<Rightarrow> False
      | Some p \<Rightarrow>
          pay_id p = fact_id f \<and> namesItsOwnHash key (fact_id f) p \<and> proves (preimage p) (paymentHash p))"

subsection \<open>What is signed verifies\<close>

lemma verify_macWith [simp]: "verify_mac key source cells (macWith key source cells)"
  by (simp add: verify_mac_def macWith_def)

lemma verify_mac_iff:
  "verify_mac key source cells mac \<longleftrightarrow> buffer_from_hex mac = hmac_sha256 key (mac_message source cells)"
  by (auto simp: verify_mac_def macWith_def)

lemma verify_signed [simp]:
  "verify_accepted key (sign_accepted key f)" "verify_paid key (sign_paid key g)"
  "verify_outbox key (sign_outbox key h)" "verify_delivered key (sign_delivered key d)"
  by (simp_all add: verify_accepted_def sign_accepted_def accepted_cells_def
      verify_paid_def sign_paid_def paid_cells_def verify_outbox_def sign_outbox_def outbox_cells_def
      verify_delivered_def sign_delivered_def delivered_cells_def)

lemma signed_keys [simp]:
  "key_of (sign_accepted key f) = key_of f" "key_of (sign_paid key g) = key_of g"
  "key_of (sign_outbox key h) = key_of h" "key_of (sign_delivered key d) = key_of d"
  by (simp_all add: key_of_def sign_accepted_def sign_paid_def sign_outbox_def sign_delivered_def)

subsection \<open>The signed text determines the fact\<close>

definition nul_free :: "cell list \<Rightarrow> bool" where
  "nul_free cells \<longleftrightarrow> (\<forall>c\<in>set cells. CHR 0x00 \<notin> set (cell_text c))"

lemma message_join:
  "source_text source @ concat (map (\<lambda>c. CHR 0x00 # cell_text c) cells)
    = join [CHR 0x00] (source_text source # map cell_text cells)"
proof -
  have "concat (map (\<lambda>c. CHR 0x00 # cell_text c) (c # cs)) =
      CHR 0x00 # join [CHR 0x00] (map cell_text (c # cs))" for c cs
    by (induction cs arbitrary: c) simp_all
  then show ?thesis by (cases cells) simp_all
qed

lemma source_text_clean: "CHR 0x00 \<notin> set (source_text source)"
  by (cases source) simp_all

lemma source_text_inject [simp]: "source_text a = source_text b \<longleftrightarrow> a = b"
  by (cases a; cases b) simp_all

text \<open>
  A tag speaks for one row of one table. As long as no column holds a NUL, the bytes
  an instance signs determine the table and the text of every column, so a tag taken from one
  fact cannot be shown for another without colliding the keyed hash.
\<close>

theorem mac_message_binds:
  assumes "nul_free cells" "nul_free cells'"
  shows "mac_message source cells = mac_message source' cells' \<longleftrightarrow>
    source = source' \<and> map cell_text cells = map cell_text cells'"
proof
  have clean: "\<forall>x\<in>set (source_text s # map cell_text cs). CHR 0x00 \<notin> set x" if "nul_free cs" for s cs
    using that source_text_clean by (auto simp: nul_free_def)
  assume "mac_message source cells = mac_message source' cells'"
  then have "join [CHR 0x00] (source_text source # map cell_text cells) =
      join [CHR 0x00] (source_text source' # map cell_text cells')"
    by (simp add: mac_message_def flip: message_join)
  then have "source_text source # map cell_text cells = source_text source' # map cell_text cells'"
    using split_on_join [OF _ clean [OF assms(1), of source]] split_on_join [OF _ clean [OF assms(2), of source']]
    by (metis list.discI)
  then show "source = source' \<and> map cell_text cells = map cell_text cells'" by simp
next
  assume *: "source = source' \<and> map cell_text cells = map cell_text cells'"
  then show "mac_message source cells = mac_message source' cells'"
    by (simp only: mac_message_def message_join)
qed

lemma mac_message_binds_witness:
  "mac_message PaidFact [Text ''a'', Whole 1] \<noteq> mac_message OutboxFact [Text ''a'', Whole 1] \<and>
   mac_message PaidFact [Text ''a'', Whole 1] \<noteq> mac_message PaidFact [Text ''a'', Whole 2]"
proof -
  have digit: "show_int 1 = ''1''" "show_int 2 = ''2''"
    by (simp_all add: show_int_def show_nat.simps digit_char_def char_of_def bit_iff_odd)
  have free: "nul_free [Text ''a'', Whole 1]" "nul_free [Text ''a'', Whole 2]"
    by (simp_all add: nul_free_def digit)
  show ?thesis
    using mac_message_binds [OF free(1) free(1), of PaidFact OutboxFact]
      mac_message_binds [OF free(1) free(2), of PaidFact PaidFact] by simp
qed

end
