(* ===== verification/Ledger.thy ===== *)
theory Ledger
  imports Facts
begin

text \<open>
  \<^verbatim>\<open>src/ledger.ts\<close>: the store of one instance. Each table of the schema is the list of its
  rows in the order they were inserted, which is the order SQLite's rowid gives them; every
  SQL statement is a function on those lists, and every method is one function of the ledger
  and the clock (\<open>now\<close>, in Unix seconds) that returns the ledger it leaves. An
  \<^verbatim>\<open>ORDER BY\<close> is a stable sort. A transaction either returns or leaves the ledger as it was.
\<close>

definition RETRY_FLOOR_SECS :: int where "RETRY_FLOOR_SECS = 3600"
definition UNOWED_SLACK_SECS :: int where "UNOWED_SLACK_SECS = 60"
definition TAKEOVER_SPREAD :: int where "TAKEOVER_SPREAD = 8"
definition REQUEST_TTL_SECS :: int where "REQUEST_TTL_SECS = 86400"
definition GAP_BATCH :: nat where "GAP_BATCH = 500"

record schedule_row =
  sched_id :: string
  sched_expiresAt :: int
  sched_dueAt :: "int option"
  sched_announced :: bool

record paid_row = paid +
  heardAt :: "int option"

record outbox_row = outbox +
  outbox_dueAt :: "int option"
  outbox_attempts :: int
  outbox_retryUntil :: "int option"
  outbox_parkedAt :: "int option"

record request_row =
  req_key :: string
  req_fingerprint :: string
  req_paymentId :: "string option"
  req_claimedAt :: int
  req_leaseUntil :: int

record kept_row = kept +
  keptAt :: int

record ledger =
  self_origin :: string
  cluster_key :: bytes
  takeoverAfterSecs :: int
  deliveryBackoffSecs :: int
  ledger_key_mark :: "string option"
  accepted_rows :: "accepted list"
  schedule :: "schedule_row list"
  paid_rows :: "paid_row list"
  outbox_rows :: "outbox_row list"
  delivered_rows :: "delivered list"
  progress :: "((source \<times> string) \<times> int) list"
  requests :: "request_row list"
  kept_rows :: "kept_row list"

subsection \<open>Tables\<close>

text \<open>\<^verbatim>\<open>INSERT ... ON CONFLICT(key) DO NOTHING\<close>.\<close>

definition insert_new :: "('r \<Rightarrow> 'k) \<Rightarrow> 'r \<Rightarrow> 'r list \<Rightarrow> 'r list" where
  "insert_new key row rows = (if key row \<in> key ` set rows then rows else rows @ [row])"

text \<open>\<^verbatim>\<open>INSERT INTO progress ... ON CONFLICT DO UPDATE SET seq = max(seq, excluded.seq)\<close>.\<close>

fun raise_mark :: "'k \<Rightarrow> int \<Rightarrow> ('k \<times> int) list \<Rightarrow> ('k \<times> int) list" where
  "raise_mark k n [] = [(k, n)]"
| "raise_mark k n ((k', m) # rest) = (if k' = k then (k', max m n) # rest else (k', m) # raise_mark k n rest)"

definition update_where :: "('r \<Rightarrow> bool) \<Rightarrow> ('r \<Rightarrow> 'r) \<Rightarrow> 'r list \<Rightarrow> 'r list" where
  "update_where P f rows = map (\<lambda>r. if P r then f r else r) rows"

definition delete_where :: "('r \<Rightarrow> bool) \<Rightarrow> 'r list \<Rightarrow> 'r list" where
  "delete_where P rows = filter (\<lambda>r. \<not> P r) rows"

text \<open>\<^verbatim>\<open>dueAt <= now\<close>, which a null fails.\<close>

definition due_by :: "int \<Rightarrow> int option \<Rightarrow> bool" where
  "due_by now due = (case due of None \<Rightarrow> False | Some t \<Rightarrow> t \<le> now)"

definition min_of :: "int option list \<Rightarrow> int option" where
  "min_of dues = (case List.map_filter (\<lambda>d. d) dues of [] \<Rightarrow> None | t # ts \<Rightarrow> Some (fold min ts t))"

definition distinct_first :: "'a list \<Rightarrow> 'a list" where
  "distinct_first xs = rev (remdups (rev xs))"

subsection \<open>Payments as the ledger holds them\<close>

definition withStatus :: "int \<Rightarrow> payment \<Rightarrow> payment" where
  "withStatus now p = p\<lparr>pay_status := (if now \<ge> expiresAt p then Expired else Pending)\<rparr>"

definition revive :: "int \<Rightarrow> string \<Rightarrow> payment option" where
  "revive now record_text = map_option (withStatus now) (asStored record_text)"

definition mergedWebhooks :: "webhook list \<Rightarrow> webhook list \<Rightarrow> webhook list" where
  "mergedWebhooks known added = known @ filter (\<lambda>hook. hook \<notin> set known) added"

definition oneFromEvery :: "payment list \<Rightarrow> payment option" where
  "oneFromEvery ps =
     (case ps of
        [] \<Rightarrow> None
      | p # rest \<Rightarrow> Some (foldl (\<lambda>one other. one\<lparr>webhooks := mergedWebhooks (webhooks one) (webhooks other)\<rparr>) p rest))"

fun add_to_group :: "string \<Rightarrow> payment \<Rightarrow> (string \<times> payment list) list \<Rightarrow> (string \<times> payment list) list" where
  "add_to_group i p [] = [(i, [p])]"
| "add_to_group i p ((j, ps) # rest) = (if j = i then (j, ps @ [p]) # rest else (j, ps) # add_to_group i p rest)"

text \<open>A text that is no payment, which no operation writes, is passed over.\<close>

definition groupById :: "int \<Rightarrow> accepted list \<Rightarrow> payment list" where
  "groupById now rows =
     List.map_filter (\<lambda>(i, ps). oneFromEvery ps)
       (fold (\<lambda>row held. case revive now (accepted_payment row) of
                None \<Rightarrow> held | Some p \<Rightarrow> add_to_group (fact_id row) p held) rows [])"

subsection \<open>Reading\<close>

definition readPayment :: "int \<Rightarrow> ledger \<Rightarrow> string \<Rightarrow> payment option" where
  "readPayment now l i =
     (case groupById now (inSeqOrder (filter (\<lambda>r. fact_id r = i) (accepted_rows l))) of
        [] \<Rightarrow> None | p # _ \<Rightarrow> Some p)"

definition countPending :: "ledger \<Rightarrow> nat" where
  "countPending l = length (schedule l)"

definition stored_caller :: "string \<Rightarrow> string option" where
  "stored_caller record_text = Option.bind (asStored record_text) caller"

definition countFor :: "ledger \<Rightarrow> string option \<Rightarrow> nat" where
  "countFor l who =
     card (fact_id ` {r \<in> set (accepted_rows l).
       fact_id r \<in> sched_id ` set (schedule l) \<and> stored_caller (accepted_payment r) = who})"

definition keptFor :: "ledger \<Rightarrow> string \<Rightarrow> kept option" where
  "keptFor l i = map_option kept.truncate (find (\<lambda>k. kept_id k = i) (kept_rows l))"

definition paymentsFor :: "int \<Rightarrow> ledger \<Rightarrow> string list \<Rightarrow> payment list" where
  "paymentsFor now l ids =
     (if ids = [] then []
      else groupById now
             (sort_key (\<lambda>r. (fact_id r, key_of r)) (filter (\<lambda>r. fact_id r \<in> set ids) (accepted_rows l))))"

definition settlement :: "ledger \<Rightarrow> string \<Rightarrow> public_payment option" where
  "settlement l i = Option.bind (find (\<lambda>r. fact_id r = i) (paid_rows l)) (\<lambda>r. asStoredPublic (paid_payment r))"

text \<open>\<open>settlement\<close> returns a payment exactly when a row is there; the row is what guards the schedule.\<close>

definition newest_paid :: "paid_row list \<Rightarrow> paid_row list" where
  "newest_paid rows = sort_key (\<lambda>r. (- paid_settledAt r, - fact_seq r)) rows"

definition stored_publics :: "paid_row list \<Rightarrow> public_payment list" where
  "stored_publics rows = List.map_filter (\<lambda>r. asStoredPublic (paid_payment r)) rows"

definition replayed :: "ledger \<Rightarrow> string \<Rightarrow> nat \<Rightarrow> public_payment list" where
  "replayed l trig limit =
     rev (stored_publics (take limit (newest_paid
       (filter (\<lambda>r. Option.bind (asStoredPublic (paid_payment r)) trigger = Some trig) (paid_rows l)))))"

definition recentlySettled :: "ledger \<Rightarrow> nat \<Rightarrow> public_payment list" where
  "recentlySettled l window = stored_publics (take window (newest_paid (paid_rows l)))"

definition waiting_ids :: "ledger \<Rightarrow> string list" where
  "waiting_ids l =
     (let ids = sort (remdups (map fact_id
                  (filter (\<lambda>r. fact_id r \<in> sched_id ` set (schedule l)) (accepted_rows l))));
          newest = (\<lambda>i. fold max (map accepted_at (filter (\<lambda>r. fact_id r = i) (accepted_rows l))) 0)
      in sort_key (\<lambda>i. - newest i) ids)"

definition listPayments :: "int \<Rightarrow> ledger \<Rightarrow> nat \<Rightarrow> nat \<Rightarrow> public_payment list" where
  "listPayments now l limit window =
     (let waiting = map withoutSecrets (paymentsFor now l (take limit (waiting_ids l)))
      in take limit (sort_key (\<lambda>p. - createdAt p) (waiting @ recentlySettled l window)))"

subsection \<open>Progress\<close>

definition held_seqs :: "ledger \<Rightarrow> source \<Rightarrow> string \<Rightarrow> int list" where
  "held_seqs l source from =
     (case source of
        AcceptedFact \<Rightarrow> map fact_seq (filter (\<lambda>r. fact_origin r = from) (accepted_rows l))
      | PaidFact \<Rightarrow> map fact_seq (filter (\<lambda>r. fact_origin r = from) (paid_rows l))
      | OutboxFact \<Rightarrow> map fact_seq (filter (\<lambda>r. fact_origin r = from) (outbox_rows l))
      | DeliveredFact \<Rightarrow> map fact_seq (filter (\<lambda>r. fact_origin r = from) (delivered_rows l)))"

definition markOf :: "ledger \<Rightarrow> source \<Rightarrow> string \<Rightarrow> int" where
  "markOf l source from = (case map_of (progress l) (source, from) of None \<Rightarrow> 0 | Some m \<Rightarrow> m)"

definition nextSeq :: "ledger \<Rightarrow> source \<Rightarrow> int" where
  "nextSeq l source =
     max (case held_seqs l source (self_origin l) of [] \<Rightarrow> 0 | s # ss \<Rightarrow> fold max ss s)
         (markOf l source (self_origin l)) + 1"

text \<open>The loop of \<^verbatim>\<open>advance\<close>: past every sequence number held in a row.\<close>

function advance_from :: "int list \<Rightarrow> int \<Rightarrow> int" where
  "advance_from seqs mark = (if mark + 1 \<in> set seqs then advance_from seqs (mark + 1) else mark)"
  by pat_completeness auto
termination
proof (relation "measure (\<lambda>(seqs, mark). card {s \<in> set seqs. mark < s})")
  fix seqs :: "int list" and mark assume "mark + 1 \<in> set seqs"
  then have "{s \<in> set seqs. mark + 1 < s} \<subset> {s \<in> set seqs. mark < s}" by force
  then show "((seqs, mark + 1), (seqs, mark)) \<in> measure (\<lambda>(seqs, mark). card {s \<in> set seqs. mark < s})"
    by (simp add: psubset_card_mono)
qed simp

declare advance_from.simps [simp del]

definition advance :: "ledger \<Rightarrow> source \<Rightarrow> string \<Rightarrow> ledger" where
  "advance l source from =
     l\<lparr>progress := raise_mark (source, from)
        (advance_from (held_seqs l source from) (markOf l source from)) (progress l)\<rparr>"

definition known :: "ledger \<Rightarrow> source \<Rightarrow> 'a fact_scheme \<Rightarrow> bool" where
  "known l source f \<longleftrightarrow>
     fact_seq f \<le> markOf l source (fact_origin f) \<or> fact_seq f \<in> set (held_seqs l source (fact_origin f))"

subsection \<open>Recording facts\<close>

definition recordAccepted :: "ledger \<Rightarrow> accepted \<Rightarrow> ledger" where
  "recordAccepted l f =
     advance (l\<lparr>accepted_rows := insert_new key_of f (accepted_rows l)\<rparr>) AcceptedFact (fact_origin f)"

definition paid_row_of :: "int \<Rightarrow> paid \<Rightarrow> paid_row" where
  "paid_row_of now f = paid.extend f \<lparr>heardAt = Some now\<rparr>"

definition recordPaid :: "int \<Rightarrow> ledger \<Rightarrow> paid \<Rightarrow> ledger" where
  "recordPaid now l f =
     advance (l\<lparr>paid_rows := insert_new key_of (paid_row_of now f) (paid_rows l)\<rparr>) PaidFact (fact_origin f)"

definition retryUntil :: "ledger \<Rightarrow> string \<Rightarrow> int \<Rightarrow> int" where
  "retryUntil l i owedAt =
     max (owedAt + RETRY_FLOOR_SECS)
         (case map accepted_expiresAt (filter (\<lambda>r. fact_id r = i) (accepted_rows l)) of
            [] \<Rightarrow> 0 | d # ds \<Rightarrow> fold max ds d)"

definition outbox_row_of :: "outbox \<Rightarrow> int \<Rightarrow> int \<Rightarrow> outbox_row" where
  "outbox_row_of f due until =
     outbox.extend f \<lparr>outbox_dueAt = Some due, outbox_attempts = 0, outbox_retryUntil = Some until, outbox_parkedAt = None\<rparr>"

definition recordOutbox :: "ledger \<Rightarrow> outbox \<Rightarrow> int \<Rightarrow> ledger" where
  "recordOutbox l f due =
     advance (l\<lparr>outbox_rows := insert_new key_of (outbox_row_of f due (retryUntil l (fact_id f) (outbox_owedAt f)))
        (outbox_rows l)\<rparr>) OutboxFact (fact_origin f)"

definition recordDelivered :: "ledger \<Rightarrow> delivered \<Rightarrow> ledger" where
  "recordDelivered l f =
     advance (l\<lparr>delivered_rows := insert_new key_of f (delivered_rows l)\<rparr>) DeliveredFact (fact_origin f)"

subsection \<open>Accepting and polling\<close>

definition scheduleWatch :: "ledger \<Rightarrow> string \<Rightarrow> int \<Rightarrow> int \<Rightarrow> ledger" where
  "scheduleWatch l i until due =
     (if settlement l i \<noteq> None then l
      else l\<lparr>schedule := insert_new sched_id
               \<lparr>sched_id = i, sched_expiresAt = until, sched_dueAt = Some due, sched_announced = False\<rparr> (schedule l)\<rparr>)"

definition acceptedFact :: "int \<Rightarrow> ledger \<Rightarrow> payment \<Rightarrow> accepted" where
  "acceptedFact now l p =
     sign_accepted (cluster_key l)
       \<lparr>fact_origin = self_origin l, fact_seq = nextSeq l AcceptedFact, fact_id = pay_id p, fact_mac = [],
        accepted_payment = payment_text p, accepted_at = now, accepted_expiresAt = expiresAt p\<rparr>"

definition accept :: "int \<Rightarrow> ledger \<Rightarrow> payment \<Rightarrow> int \<Rightarrow> (payment \<times> facts) \<times> ledger" where
  "accept now l p due =
     (let held = readPayment now l (pay_id p);
          hooks = (case held of None \<Rightarrow> webhooks p | Some h \<Rightarrow> mergedWebhooks (webhooks h) (webhooks p));
          told = p\<lparr>webhooks := hooks\<rparr>;
          taken = (case held of None \<Rightarrow> p | Some h \<Rightarrow> h)\<lparr>webhooks := hooks\<rparr>;
          fresh = (case held of None \<Rightarrow> True | Some h \<Rightarrow> length hooks > length (webhooks h));
          fact = acceptedFact now l told;
          l' = (if fresh then recordAccepted l fact else l)
      in ((withStatus now taken, no_facts\<lparr>accepted_facts := (if fresh then [fact] else [])\<rparr>),
          scheduleWatch l' (pay_id taken) (expiresAt taken) due))"

definition forget :: "ledger \<Rightarrow> string \<Rightarrow> ledger" where
  "forget l i = l\<lparr>schedule := delete_where (\<lambda>s. sched_id s = i) (schedule l)\<rparr>"

definition due_schedule :: "int \<Rightarrow> ledger \<Rightarrow> nat \<Rightarrow> string list" where
  "due_schedule now l limit =
     map sched_id (take limit (sort_key (\<lambda>s. the (sched_dueAt s)) (filter (\<lambda>s. due_by now (sched_dueAt s)) (schedule l))))"

definition duePolls :: "int \<Rightarrow> ledger \<Rightarrow> nat \<Rightarrow> int \<Rightarrow> payment list \<times> ledger" where
  "duePolls now l limit leaseSecs =
     (let due = due_schedule now l limit;
          l' = l\<lparr>schedule := update_where (\<lambda>s. sched_id s \<in> set due)
                   (\<lambda>s. s\<lparr>sched_dueAt := Some (now + leaseSecs)\<rparr>) (schedule l)\<rparr>
      in (paymentsFor now l' due, l'))"

definition polled :: "ledger \<Rightarrow> string \<Rightarrow> int option \<Rightarrow> ledger" where
  "polled l i due =
     l\<lparr>schedule := update_where (\<lambda>s. sched_id s = i) (\<lambda>s. s\<lparr>sched_dueAt := due\<rparr>) (schedule l)\<rparr>"

definition broughtForward :: "ledger \<Rightarrow> string \<Rightarrow> int \<Rightarrow> ledger" where
  "broughtForward l i due =
     l\<lparr>schedule := update_where (\<lambda>s. sched_id s = i \<and> sched_dueAt s \<noteq> None)
        (\<lambda>s. s\<lparr>sched_dueAt := map_option (min due) (sched_dueAt s)\<rparr>) (schedule l)\<rparr>"

definition nextDueAt :: "ledger \<Rightarrow> int option" where
  "nextDueAt l = min_of [min_of (map sched_dueAt (schedule l)), min_of (map outbox_dueAt (outbox_rows l))]"

subsection \<open>Settling and delivering\<close>

definition owedFact :: "ledger \<Rightarrow> string \<Rightarrow> webhook \<Rightarrow> string \<Rightarrow> int \<Rightarrow> outbox" where
  "owedFact l i hook body owedAt =
     sign_outbox (cluster_key l)
       \<lparr>fact_origin = self_origin l, fact_seq = nextSeq l OutboxFact, fact_id = i, fact_mac = [],
        outbox_url = hook, outbox_body = body, outbox_owedAt = owedAt\<rparr>"

fun owe_each :: "string \<Rightarrow> string \<Rightarrow> int \<Rightarrow> webhook list \<Rightarrow> ledger \<Rightarrow> outbox list \<times> ledger" where
  "owe_each i body owedAt [] l = ([], l)"
| "owe_each i body owedAt (hook # hooks) l =
     (let fact = owedFact l i hook body owedAt
      in case owe_each i body owedAt hooks (recordOutbox l fact 0) of (facts, l') \<Rightarrow> (fact # facts, l'))"

text \<open>\<^const>\<open>None\<close> is the error of a preimage that does not hash to the payment hash.\<close>

definition settle :: "int \<Rightarrow> ledger \<Rightarrow> payment \<Rightarrow> string \<Rightarrow> ((public_payment \<times> facts) \<times> ledger) option" where
  "settle now l watched secret =
     (if \<not> proves (Some secret) (paymentHash watched) then None
      else
        (let settled = watched\<lparr>pay_status := Paid, preimage := Some secret\<rparr>;
             body = stringify (JObj (deliveryToWire settled now));
             fact = sign_paid (cluster_key l)
               \<lparr>fact_origin = self_origin l, fact_seq = nextSeq l PaidFact, fact_id = pay_id settled, fact_mac = [],
                paid_payment = public_text (withoutSecrets settled), paid_settledAt = now\<rparr>
         in case owe_each (pay_id settled) body now (webhooks watched) (recordPaid now l fact) of
              (owed, l') \<Rightarrow>
                Some ((withoutSecrets settled, no_facts\<lparr>paid_facts := [fact], outbox_facts := owed\<rparr>),
                      forget l' (pay_id settled))))"

definition is_delivered :: "ledger \<Rightarrow> 'a outbox_scheme \<Rightarrow> bool" where
  "is_delivered l o' \<longleftrightarrow> (\<exists>d\<in>set (delivered_rows l). fact_id d = fact_id o' \<and> delivered_url d = outbox_url o')"

definition delivery_of :: "outbox_row \<Rightarrow> delivery" where
  "delivery_of r =
     \<lparr>owed_origin = fact_origin r, owed_seq = fact_seq r, owed_id = fact_id r, owed_url = outbox_url r,
      owed_body = outbox_body r\<rparr>"

definition due_outbox :: "int \<Rightarrow> ledger \<Rightarrow> nat \<Rightarrow> outbox_row list" where
  "due_outbox now l limit =
     take limit (sort_key (\<lambda>r. the (outbox_dueAt r))
       (filter (\<lambda>r. due_by now (outbox_dueAt r) \<and> \<not> is_delivered l r) (outbox_rows l)))"

definition dueDeliveries :: "int \<Rightarrow> ledger \<Rightarrow> nat \<Rightarrow> int \<Rightarrow> delivery list \<times> ledger" where
  "dueDeliveries now l limit leaseSecs =
     (let chosen = key_of ` set (due_outbox now l limit)
      in (map delivery_of (filter (\<lambda>r. key_of r \<in> chosen) (outbox_rows l)),
          l\<lparr>outbox_rows := update_where (\<lambda>r. key_of r \<in> chosen)
             (\<lambda>r. r\<lparr>outbox_dueAt := Some (now + leaseSecs)\<rparr>) (outbox_rows l)\<rparr>))"

definition delivered :: "int \<Rightarrow> ledger \<Rightarrow> delivery \<Rightarrow> facts \<times> ledger" where
  "delivered now l owed =
     (let fact = sign_delivered (cluster_key l)
            \<lparr>fact_origin = self_origin l, fact_seq = nextSeq l DeliveredFact, fact_id = owed_id owed, fact_mac = [],
             delivered_url = owed_url owed, delivered_at = now\<rparr>
      in (no_facts\<lparr>delivered_facts := [fact]\<rparr>, recordDelivered l fact))"

datatype retry = Scheduled | Abandoned

definition undelivered :: "int \<Rightarrow> ledger \<Rightarrow> delivery \<Rightarrow> retry \<times> ledger" where
  "undelivered now l owed =
     (case find (\<lambda>r. key_of r = (owed_origin owed, owed_seq owed)) (outbox_rows l) of
        None \<Rightarrow> (Abandoned, l)
      | Some tried \<Rightarrow>
          (let attempts = outbox_attempts tried + 1;
               nextAt = now + deliveryBackoffSecs l * attempts;
               abandoned = (nextAt > (case outbox_retryUntil tried of
                                        Some until \<Rightarrow> until
                                      | None \<Rightarrow> retryUntil l (owed_id owed) (outbox_owedAt tried)))
           in (if abandoned then Abandoned else Scheduled,
               l\<lparr>outbox_rows := update_where (\<lambda>r. key_of r = (owed_origin owed, owed_seq owed))
                  (\<lambda>r. r\<lparr>outbox_attempts := attempts,
                         outbox_dueAt := (if abandoned then None else Some nextAt),
                         outbox_parkedAt := (if abandoned then Some now else None)\<rparr>) (outbox_rows l)\<rparr>)))"

definition parkedDeliveries :: "ledger \<Rightarrow> nat" where
  "parkedDeliveries l = length (filter (\<lambda>r. outbox_dueAt r = None \<and> \<not> is_delivered l r) (outbox_rows l))"

subsection \<open>Idempotency keys\<close>

datatype claim = Mine | Inflight | Mismatch | Done string

definition take_claim :: "int \<Rightarrow> ledger \<Rightarrow> string \<Rightarrow> string \<Rightarrow> int \<Rightarrow> ledger" where
  "take_claim now l key print leaseSecs =
     (if key \<in> req_key ` set (requests l)
      then l\<lparr>requests := update_where (\<lambda>r. req_key r = key)
               (\<lambda>r. r\<lparr>req_claimedAt := now, req_leaseUntil := now + leaseSecs\<rparr>) (requests l)\<rparr>
      else l\<lparr>requests := requests l @
               [\<lparr>req_key = key, req_fingerprint = print, req_paymentId = None, req_claimedAt = now,
                 req_leaseUntil = now + leaseSecs\<rparr>]\<rparr>)"

definition claimKey :: "int \<Rightarrow> ledger \<Rightarrow> string \<Rightarrow> string \<Rightarrow> int \<Rightarrow> claim \<times> ledger" where
  "claimKey now l key print leaseSecs =
     (case find (\<lambda>r. req_key r = key) (requests l) of
        None \<Rightarrow> (Mine, take_claim now l key print leaseSecs)
      | Some held \<Rightarrow>
          if req_fingerprint held \<noteq> print then (Mismatch, l)
          else (case req_paymentId held of
                  Some (c # cs) \<Rightarrow> (Done (c # cs), l)
                | _ \<Rightarrow> if req_leaseUntil held > now then (Inflight, l)
                       else (Mine, take_claim now l key print leaseSecs)))"

definition fulfillKey :: "ledger \<Rightarrow> string \<Rightarrow> string \<Rightarrow> ledger" where
  "fulfillKey l key i =
     l\<lparr>requests := update_where (\<lambda>r. req_key r = key) (\<lambda>r. r\<lparr>req_paymentId := Some i\<rparr>) (requests l)\<rparr>"

definition releaseKey :: "ledger \<Rightarrow> string \<Rightarrow> ledger" where
  "releaseKey l key =
     l\<lparr>requests := delete_where (\<lambda>r. req_key r = key \<and> req_paymentId r = None) (requests l)\<rparr>"

subsection \<open>Catching up with peers\<close>

definition factCounts :: "ledger \<Rightarrow> source \<Rightarrow> nat" where
  "factCounts l source =
     (case source of AcceptedFact \<Rightarrow> length (accepted_rows l) | PaidFact \<Rightarrow> length (paid_rows l)
      | OutboxFact \<Rightarrow> length (outbox_rows l) | DeliveredFact \<Rightarrow> length (delivered_rows l))"

definition watermarks :: "ledger \<Rightarrow> watermarks" where
  "watermarks l source = map (\<lambda>((_, from), m). (from, m)) (filter (\<lambda>((s, _), _). s = source) (progress l))"

definition seen_mark :: "(string \<times> int) list \<Rightarrow> string \<Rightarrow> int" where
  "seen_mark marks from = (case map_of marks from of None \<Rightarrow> 0 | Some m \<Rightarrow> m)"

definition gap_batch :: "'a fact_scheme list \<Rightarrow> string \<Rightarrow> int \<Rightarrow> int \<Rightarrow> 'a fact_scheme list" where
  "gap_batch rows from seen held =
     take GAP_BATCH (sort_key fact_seq (filter (\<lambda>r. fact_origin r = from \<and> fact_seq r > seen \<and> fact_seq r \<le> held) rows))"

definition gap_reach :: "'a fact_scheme list \<Rightarrow> int \<Rightarrow> int" where
  "gap_reach batch held = (if length batch = GAP_BATCH then fact_seq (last batch) else held)"

definition gap :: "watermarks \<Rightarrow> watermarks \<Rightarrow> source \<Rightarrow> 'a fact_scheme list \<Rightarrow>
    'a fact_scheme list \<times> bool \<times> (string \<times> int) list" where
  "gap mine theirs source rows =
     (let lacking = filter (\<lambda>(from, held). \<not> held \<le> seen_mark (theirs source) from) (mine source);
          batches = map (\<lambda>(from, held). (from, held, gap_batch rows from (seen_mark (theirs source) from) held)) lacking
      in (concat (map (\<lambda>(_, _, batch). batch) batches),
          list_ex (\<lambda>(_, _, batch). length batch = GAP_BATCH) batches,
          map (\<lambda>(from, held, batch). (from, gap_reach batch held)) batches))"

record caught =
  caught_facts :: facts
  caught_more :: bool
  caught_through :: watermarks

definition since :: "ledger \<Rightarrow> watermarks \<Rightarrow> caught" where
  "since l theirs =
     (let mine = watermarks l;
          a = gap mine theirs AcceptedFact (accepted_rows l);
          p = gap mine theirs PaidFact (map paid.truncate (paid_rows l));
          ob = gap mine theirs OutboxFact (map outbox.truncate (outbox_rows l));
          d = gap mine theirs DeliveredFact (delivered_rows l)
      in \<lparr>caught_facts = \<lparr>accepted_facts = fst a, paid_facts = fst p, outbox_facts = fst ob, delivered_facts = fst d\<rparr>,
          caught_more = (fst (snd a) \<or> fst (snd p) \<or> fst (snd ob) \<or> fst (snd d)),
          caught_through = (\<lambda>source. case source of AcceptedFact \<Rightarrow> snd (snd a) | PaidFact \<Rightarrow> snd (snd p)
            | OutboxFact \<Rightarrow> snd (snd ob) | DeliveredFact \<Rightarrow> snd (snd d))\<rparr>)"

definition takeoverAt :: "ledger \<Rightarrow> outbox \<Rightarrow> int" where
  "takeoverAt l f =
     (let digest = sha256 (utf8 (fact_id f @ CHR 0x00 # outbox_url f @ CHR 0x00 # self_origin l));
          rank = uint (get_uint32 digest 0) mod TAKEOVER_SPREAD;
          after = takeoverAfterSecs l
      in outbox_owedAt f + after + max 1 ((2 * after + TAKEOVER_SPREAD) div (2 * TAKEOVER_SPREAD)) * rank)"

definition absorb_accepted :: "(accepted \<Rightarrow> int) \<Rightarrow> accepted \<Rightarrow> ledger \<Rightarrow> ledger" where
  "absorb_accepted due f l =
     (if known l AcceptedFact f \<or> \<not> provenAccepted (cluster_key l) f then l
      else scheduleWatch (recordAccepted l f) (fact_id f) (accepted_expiresAt f) (due f))"

definition absorb_paid :: "int \<Rightarrow> paid \<Rightarrow> ledger \<times> public_payment list \<Rightarrow> ledger \<times> public_payment list" where
  "absorb_paid now f = (\<lambda>(l, settled).
     if known l PaidFact f \<or> \<not> provenPaid (cluster_key l) f then (l, settled)
     else (forget (recordPaid now l f) (fact_id f),
           case asStoredPublic (paid_payment f) of None \<Rightarrow> settled | Some p \<Rightarrow> settled @ [p]))"

definition absorb_outbox :: "outbox \<Rightarrow> ledger \<Rightarrow> ledger" where
  "absorb_outbox f l =
     (if known l OutboxFact f \<or> \<not> verify_outbox (cluster_key l) f then l else recordOutbox l f (takeoverAt l f))"

definition absorb_delivered :: "delivered \<Rightarrow> ledger \<Rightarrow> ledger" where
  "absorb_delivered f l =
     (if known l DeliveredFact f \<or> \<not> verify_delivered (cluster_key l) f then l else recordDelivered l f)"

definition is_safe_integer :: "int \<Rightarrow> bool" where
  "is_safe_integer n \<longleftrightarrow> - MAX_SAFE_INTEGER \<le> n \<and> n \<le> MAX_SAFE_INTEGER"

definition cover_one :: "source \<Rightarrow> string \<times> int \<Rightarrow> ledger \<Rightarrow> ledger" where
  "cover_one source = (\<lambda>(from, seq) l.
     if from \<noteq> self_origin l \<and> is_safe_integer seq
     then advance (l\<lparr>progress := raise_mark (source, from) seq (progress l)\<rparr>) source from else l)"

definition cover :: "watermarks \<Rightarrow> ledger \<Rightarrow> ledger" where
  "cover through l = fold (\<lambda>source. fold (cover_one source) (through source)) SOURCES l"

definition absorb :: "int \<Rightarrow> ledger \<Rightarrow> facts \<Rightarrow> watermarks option \<Rightarrow> (accepted \<Rightarrow> int) \<Rightarrow> public_payment list \<times> ledger" where
  "absorb now l given through due =
     (let l1 = fold (absorb_accepted due) (inSeqOrder (accepted_facts given)) l;
          (l2, settled) = fold (absorb_paid now) (inSeqOrder (paid_facts given)) (l1, []);
          l3 = fold absorb_outbox (inSeqOrder (outbox_facts given)) l2;
          l4 = fold absorb_delivered (inSeqOrder (delivered_facts given)) l3;
          l5 = (case through of None \<Rightarrow> l4 | Some marks \<Rightarrow> cover marks l4)
      in (settled, l5))"

subsection \<open>Sweeping\<close>

definition stored_sealed :: "string \<Rightarrow> string option" where
  "stored_sealed record_text = Option.bind (asStored record_text) sealed"

definition stored_webhooks :: "string \<Rightarrow> webhook list" where
  "stored_webhooks record_text = (case asStored record_text of None \<Rightarrow> [] | Some p \<Rightarrow> webhooks p)"

text \<open>\<^verbatim>\<open>accepted LEFT JOIN paid ON paid.id = accepted.id\<close>.\<close>

definition joined_paid :: "ledger \<Rightarrow> accepted \<Rightarrow> paid_row option list" where
  "joined_paid l a =
     (case filter (\<lambda>p. fact_id p = fact_id a) (paid_rows l) of [] \<Rightarrow> [None] | ps \<Rightarrow> map Some ps)"

definition keep_row :: "int \<Rightarrow> int \<Rightarrow> accepted \<Rightarrow> paid_row option \<Rightarrow> kept_row option" where
  "keep_row now horizon a p =
     (case stored_sealed (accepted_payment a) of
        None \<Rightarrow> None
      | Some blob \<Rightarrow>
          if accepted_expiresAt a \<le> horizon \<or> (case p of None \<Rightarrow> False | Some r \<Rightarrow> paid_settledAt r \<le> horizon)
          then Some \<lparr>kept_id = fact_id a, kept_caller = stored_caller (accepted_payment a), kept_sealed = blob,
                     kept_paid = (p \<noteq> None), kept_settledAt = map_option paid_settledAt p, keptAt = now\<rparr>
          else None)"

definition rows_to_keep :: "int \<Rightarrow> int \<Rightarrow> ledger \<Rightarrow> kept_row list" where
  "rows_to_keep now horizon l =
     concat (map (\<lambda>a. List.map_filter (keep_row now horizon a) (joined_paid l a)) (accepted_rows l))"

definition paid_trigger :: "paid_row \<Rightarrow> string option" where
  "paid_trigger r = Option.bind (asStoredPublic (paid_payment r)) trigger"

definition paid_replay :: "paid_row \<Rightarrow> int" where
  "paid_replay r = (case asStoredPublic (paid_payment r) of None \<Rightarrow> 0 | Some p \<Rightarrow> replay p)"

text \<open>\<^verbatim>\<open>ROW_NUMBER() OVER (PARTITION BY trigger ORDER BY settledAt DESC, seq DESC)\<close>.\<close>

definition row_number :: "paid_row list \<Rightarrow> paid_row \<Rightarrow> int" where
  "row_number rows r =
     int (length (takeWhile (\<lambda>x. key_of x \<noteq> key_of r)
       (newest_paid (filter (\<lambda>x. paid_trigger x = paid_trigger r) rows)))) + 1"

definition surplus_ids :: "paid_row list \<Rightarrow> string list" where
  "surplus_ids rows = map fact_id (filter (\<lambda>r. row_number rows r > paid_replay r) rows)"

record missing_delivery =
  missing_id :: string
  missing_url :: webhook
  missing_settledAt :: int

definition missing_deliveries :: "int \<Rightarrow> ledger \<Rightarrow> missing_delivery list" where
  "missing_deliveries before l =
     distinct_first (concat (map (\<lambda>a.
       concat (map (\<lambda>p.
         map (\<lambda>hook. \<lparr>missing_id = fact_id a, missing_url = hook, missing_settledAt = paid_settledAt p\<rparr>)
           (filter (\<lambda>hook.
               (case heardAt p of None \<Rightarrow> paid_settledAt p | Some h \<Rightarrow> h) \<le> before \<and>
               \<not> list_ex (\<lambda>ob. fact_id ob = fact_id a \<and> outbox_url ob = hook) (outbox_rows l) \<and>
               \<not> list_ex (\<lambda>d. fact_id d = fact_id a \<and> delivered_url d = hook) (delivered_rows l))
             (stored_webhooks (accepted_payment a))))
         (filter (\<lambda>p. fact_id p = fact_id a) (paid_rows l))))
       (accepted_rows l)))"

definition owe :: "int \<Rightarrow> missing_delivery \<Rightarrow> ledger \<Rightarrow> ledger" where
  "owe now m l =
     (case settlement l (missing_id m) of
        None \<Rightarrow> l
      | Some settled \<Rightarrow>
          recordOutbox l (owedFact l (missing_id m) (missing_url m)
            (stringify (JObj (deliveryToWire settled (missing_settledAt m)))) now) 0)"

definition announce_expired :: "int \<Rightarrow> ledger \<Rightarrow> payment list \<times> ledger" where
  "announce_expired now l =
     (paymentsFor now l (map sched_id (filter (\<lambda>s. sched_expiresAt s \<le> now \<and> \<not> sched_announced s) (schedule l))),
      l\<lparr>schedule := update_where (\<lambda>s. sched_expiresAt s \<le> now) (\<lambda>s. s\<lparr>sched_announced := True\<rparr>) (schedule l)\<rparr>)"

definition keep_sealed :: "int \<Rightarrow> int \<Rightarrow> int \<Rightarrow> ledger \<Rightarrow> ledger" where
  "keep_sealed now horizon keepSealedSecs l =
     l\<lparr>kept_rows := delete_where (\<lambda>k. keptAt k \<le> now - keepSealedSecs)
         (fold (insert_new kept_id) (rows_to_keep now horizon l) (kept_rows l))\<rparr>"

definition drop_watches :: "int \<Rightarrow> ledger \<Rightarrow> ledger" where
  "drop_watches horizon l =
     l\<lparr>schedule := delete_where (\<lambda>s. sched_expiresAt s \<le> horizon) (schedule l),
       accepted_rows :=
         delete_where (\<lambda>a. fact_id a \<in> fact_id ` set (filter (\<lambda>p. paid_settledAt p \<le> horizon) (paid_rows l)))
           (delete_where (\<lambda>a. accepted_expiresAt a \<le> horizon) (accepted_rows l))\<rparr>"

definition drop_outbox :: "int \<Rightarrow> ledger \<Rightarrow> ledger" where
  "drop_outbox horizon l =
     l\<lparr>outbox_rows := delete_where (\<lambda>r.
         (outbox_dueAt r = None \<and> (case outbox_parkedAt r of None \<Rightarrow> outbox_owedAt r | Some t \<Rightarrow> t) \<le> horizon) \<or>
         (outbox_owedAt r \<le> horizon \<and> is_delivered l r)) (outbox_rows l)\<rparr>"

definition drop_settled :: "int \<Rightarrow> ledger \<Rightarrow> ledger" where
  "drop_settled horizon l =
     l\<lparr>paid_rows := delete_where (\<lambda>r. paid_settledAt r \<le> horizon \<and> fact_id r \<in> set (surplus_ids (paid_rows l)))
         (paid_rows l),
       delivered_rows := delete_where (\<lambda>d. delivered_at d \<le> horizon) (delivered_rows l)\<rparr>"

definition drop_requests :: "int \<Rightarrow> ledger \<Rightarrow> ledger" where
  "drop_requests now l =
     l\<lparr>requests := delete_where (\<lambda>r. req_claimedAt r \<le> now - REQUEST_TTL_SECS) (requests l)\<rparr>"

definition owe_missing :: "int \<Rightarrow> ledger \<Rightarrow> ledger" where
  "owe_missing now l = fold (owe now) (missing_deliveries (now - UNOWED_SLACK_SECS) l) l"

text \<open>The statements of \<^verbatim>\<open>sweep\<close>, in their order.\<close>

definition sweep :: "int \<Rightarrow> ledger \<Rightarrow> int \<Rightarrow> int \<Rightarrow> payment list \<times> ledger" where
  "sweep now l graceSecs keepSealedSecs =
     (let horizon = now - graceSecs;
          (expired, l1) = announce_expired now l;
          l2 = keep_sealed now horizon keepSealedSecs l1;
          l3 = drop_watches horizon l2;
          l4 = drop_outbox horizon l3;
          l5 = drop_settled horizon l4;
          l6 = drop_requests now l5
      in (expired, owe_missing now l6))"

subsection \<open>Opening\<close>

definition resignEveryFact :: "ledger \<Rightarrow> ledger" where
  "resignEveryFact l =
     l\<lparr>accepted_rows := map (sign_accepted (cluster_key l)) (accepted_rows l),
       paid_rows := map (sign_paid (cluster_key l)) (paid_rows l),
       outbox_rows := map (sign_outbox (cluster_key l)) (outbox_rows l),
       delivered_rows := map (sign_delivered (cluster_key l)) (delivered_rows l)\<rparr>"

definition resignUnderTheKeyWeHold :: "ledger \<Rightarrow> ledger" where
  "resignUnderTheKeyWeHold l =
     (let held = hmacHex (cluster_key l) (utf8 ''ledger-key'')
      in if ledger_key_mark l = Some held then l
         else (resignEveryFact l)\<lparr>ledger_key_mark := Some held\<rparr>)"

text \<open>The worklist of an older schema: its rows' ids, records and due times, if it is there at all.\<close>

definition retireTheWorklistWrittenBeforeAccepted ::
    "int \<Rightarrow> (string \<times> string \<times> int option) list option \<Rightarrow> ledger \<Rightarrow> ledger" where
  "retireTheWorklistWrittenBeforeAccepted now pending l =
     (case pending of
        None \<Rightarrow> l
      | Some rows \<Rightarrow>
          fold (\<lambda>(_, record_text, due) l'.
              case revive now record_text of
                None \<Rightarrow> l'
              | Some p \<Rightarrow> snd (accept now l' p (case due of None \<Rightarrow> now | Some t \<Rightarrow> t)))
            (filter (\<lambda>(i, _, _). i \<notin> fact_id ` set (accepted_rows l)) rows) l)"

definition open_ledger :: "int \<Rightarrow> (string \<times> string \<times> int option) list option \<Rightarrow> bytes \<Rightarrow> int \<Rightarrow> int \<Rightarrow> ledger \<Rightarrow> ledger" where
  "open_ledger now pending key takeoverSecs backoffSecs stored =
     retireTheWorklistWrittenBeforeAccepted now pending
       (resignUnderTheKeyWeHold
         (stored\<lparr>cluster_key := key, takeoverAfterSecs := takeoverSecs, deliveryBackoffSecs := backoffSecs\<rparr>))"

text \<open>A ledger file just created, with the random origin it drew.\<close>

definition new_ledger :: "string \<Rightarrow> ledger" where
  "new_ledger drawn =
     \<lparr>self_origin = drawn, cluster_key = [], takeoverAfterSecs = 600, deliveryBackoffSecs = 30,
      ledger_key_mark = None, accepted_rows = [], schedule = [], paid_rows = [], outbox_rows = [],
      delivered_rows = [], progress = [], requests = [], kept_rows = []\<rparr>"

end
