(* ===== verification/Gossip.thy ===== *)
theory Gossip
  imports Ledger
begin

text \<open>
  \<^verbatim>\<open>src/gossip.ts\<close>: how instances of one cluster talk. An instance hands its replica to the
  protocol as a record of callbacks, here functions on its state; a note that arrives is answered
  by \<open>receive\<close>, and a stream joins the peers only after its introduction proved the cluster key.
  A note comes from a peer that holds that key, so its facts and marks are typed; what the code
  checks of a note, the names and the times, is JSON here. Times on the wire are whole seconds:
  a fraction, which no instance sends, is refused here like any other value that is no time.
\<close>

subsection \<open>Notes\<close>

datatype gossip_note =
    Have watermarks
  | Told facts bool "watermarks option"
  | PolledNote json json
  | MissedNote json
  | SpentNote json json

record 's gossip =
  gossip_self :: string
  gossip_key :: bytes
  on_facts :: "facts \<Rightarrow> watermarks option \<Rightarrow> 's \<Rightarrow> 's"
  on_converged :: "'s \<Rightarrow> 's"
  on_polled :: "string \<Rightarrow> int option \<Rightarrow> 's \<Rightarrow> 's"
  on_missed :: "string \<Rightarrow> string \<Rightarrow> 's \<Rightarrow> 's"
  on_spent :: "string \<Rightarrow> int \<Rightarrow> 's \<Rightarrow> 's"
  marks_now :: "'s \<Rightarrow> watermarks"
  since_marks :: "watermarks \<Rightarrow> 's \<Rightarrow> caught"

text \<open>Every peer gets the note, in the order in which the peers joined.\<close>

definition announce :: "string list \<Rightarrow> gossip_note \<Rightarrow> (string \<times> gossip_note) list" where
  "announce peers n = map (\<lambda>peer. (peer, n)) peers"

definition resync :: "'s gossip \<Rightarrow> string list \<Rightarrow> 's \<Rightarrow> (string \<times> gossip_note) list" where
  "resync g peers s = announce peers (Have (marks_now g s))"

definition reach :: "watermarks \<Rightarrow> int" where
  "reach marks = sum_list (concat (map (\<lambda>source. map snd (marks source)) SOURCES))"

definition note_of :: "caught \<Rightarrow> gossip_note" where
  "note_of c = Told (caught_facts c) (caught_more c) (Some (caught_through c))"

datatype note_error = NoPaymentOrDueTime | NoPayment | NoNonceOrExpiry

text \<open>
  The notes sent back and the replica afterwards; the error is a note that is unusable, which
  the caller answers by dropping the peer.
\<close>

definition receive :: "'s gossip \<Rightarrow> gossip_note \<Rightarrow> string \<Rightarrow> 's \<Rightarrow> note_error + (gossip_note list \<times> 's)" where
  "receive g n peer s =
     (case n of
        Have theirs \<Rightarrow> Inr ([note_of (since_marks g theirs s)], s)
      | Told given further through \<Rightarrow>
          (let asked = reach (marks_now g s); s' = on_facts g given through s
           in if \<not> further then Inr ([], on_converged g s')
              else if reach (marks_now g s') > asked then Inr ([Have (marks_now g s')], s')
              else Inr ([], s'))
      | PolledNote i due \<Rightarrow>
          (case (i, due) of
             (JStr name, JNull) \<Rightarrow> Inr ([], on_polled g name None s)
           | (JStr name, JNum t) \<Rightarrow> Inr ([], on_polled g name (Some t) s)
           | _ \<Rightarrow> Inl NoPaymentOrDueTime)
      | MissedNote i \<Rightarrow>
          (case i of JStr name \<Rightarrow> Inr ([], on_missed g name peer s) | _ \<Rightarrow> Inl NoPayment)
      | SpentNote once until \<Rightarrow>
          (case (once, until) of
             (JStr name, JNum t) \<Rightarrow> Inr ([], on_spent g name t s)
           | _ \<Rightarrow> Inl NoNonceOrExpiry))"

subsection \<open>Introductions\<close>

record introduction =
  intro_self :: json
  intro_proof :: json

definition proofOf :: "bytes \<Rightarrow> bytes \<Rightarrow> string \<Rightarrow> string" where
  "proofOf key session self = hmacHex key (utf8 ''cluster-handshake'' @ session @ utf8 self)"

definition introduces :: "bytes list \<Rightarrow> bytes option \<Rightarrow> introduction \<Rightarrow> bool" where
  "introduces keys session them =
     (case (session, intro_self them, intro_proof them) of
        (Some handshake, JStr self, JStr shown) \<Rightarrow>
          list_ex (\<lambda>key. timingSafeEqual (buffer_from_hex (proofOf key handshake self)) (buffer_from_hex shown)) keys
      | _ \<Rightarrow> False)"

text \<open>What \<^verbatim>\<open>channel.open\<close> shows of us once the stream has a session.\<close>

definition introduction_of :: "'s gossip \<Rightarrow> bytes \<Rightarrow> introduction" where
  "introduction_of g handshake =
     \<lparr>intro_self = JStr (gossip_self g), intro_proof = JStr (proofOf (gossip_key g) handshake (gossip_self g))\<rparr>"

text \<open>
  The peers of an instance: under each name the stream that speaks for it, in the order the names
  came. \<^verbatim>\<open>peers.set\<close> replaces the stream of a name in place.
\<close>

type_synonym links = "(string \<times> nat) list"

fun put_link :: "string \<Rightarrow> nat \<Rightarrow> links \<Rightarrow> links" where
  "put_link name stream [] = [(name, stream)]"
| "put_link name stream ((n, s) # rest) =
     (if n = name then (n, stream) # rest else (n, s) # put_link name stream rest)"

datatype greeting = Stranger | Ourselves | Joined string

definition onopen :: "'s gossip \<Rightarrow> bytes option \<Rightarrow> introduction \<Rightarrow> nat \<Rightarrow> links \<Rightarrow> greeting \<times> links" where
  "onopen g session them stream peers =
     (if \<not> introduces [gossip_key g] session them then (Stranger, peers)
      else (case intro_self them of
              JStr self \<Rightarrow>
                if self = gossip_self g then (Ourselves, peers) else (Joined self, put_link self stream peers)
            | _ \<Rightarrow> (Stranger, peers)))"

definition onclose :: "string \<Rightarrow> nat \<Rightarrow> links \<Rightarrow> links" where
  "onclose peer stream peers = (if map_of peers peer = Some stream then filter (\<lambda>(n, _). n \<noteq> peer) peers else peers)"

subsection \<open>Who gets in\<close>

lemma introduction_accepted: "introduces [gossip_key g] (Some handshake) (introduction_of g handshake)"
  by (simp add: introduces_def introduction_of_def proofOf_def)

lemma introduces_iff:
  "introduces [key] session them \<longleftrightarrow>
     (\<exists>handshake self shown. session = Some handshake \<and> intro_self them = JStr self \<and> intro_proof them = JStr shown \<and>
        buffer_from_hex shown = hmac_sha256 key (utf8 ''cluster-handshake'' @ handshake @ utf8 self))"
  by (auto simp: introduces_def proofOf_def split: option.splits json.splits)

lemma put_link_map: "map_of (put_link name stream peers) = (map_of peers)(name \<mapsto> stream)"
  by (induction name stream peers rule: put_link.induct) (auto simp: fun_eq_iff)

lemma put_link_names: "distinct (map fst peers) \<Longrightarrow>
    distinct (map fst (put_link name stream peers)) \<and> fst ` set (put_link name stream peers) = insert name (fst ` set peers)"
  by (induction name stream peers rule: put_link.induct) auto

text \<open>What happens to the peers of an instance: streams open with an introduction and close.\<close>

inductive link_step :: "'s gossip \<Rightarrow> links \<Rightarrow> links \<Rightarrow> bool" for g where
  link_opens: "link_step g peers (snd (onopen g session them stream peers))"
| link_closes: "link_step g peers (onclose peer stream peers)"

inductive_simps link_step_iff: "link_step g peers peers'"

text \<open>
  Only the cluster is talked to. Whatever opens and closes, a name enters the peers only
  when the stream that brings it showed the keyed hash of its own handshake and of that name
  under the cluster key, and it is not our own name; a proof is worth nothing on another stream
  or for another name, since the hashed text holds both. And a stream that closes takes nobody
  with it but itself: a name that a newer stream speaks for stays.
\<close>

theorem only_the_cluster_joins:
  "(fst (onopen g session them stream peers) = Joined name \<longleftrightarrow>
      (\<exists>handshake shown. session = Some handshake \<and> intro_self them = JStr name \<and> intro_proof them = JStr shown \<and>
         name \<noteq> gossip_self g \<and>
         buffer_from_hex shown = hmac_sha256 (gossip_key g) (utf8 ''cluster-handshake'' @ handshake @ utf8 name))) \<and>
   map_of (snd (onopen g session them stream peers)) =
     (case fst (onopen g session them stream peers) of Joined n \<Rightarrow> (map_of peers)(n \<mapsto> stream) | _ \<Rightarrow> map_of peers) \<and>
   map_of (onclose peer stream peers) =
     (if map_of peers peer = Some stream then (map_of peers)(peer := None) else map_of peers)"
proof (intro conjI)
  show "fst (onopen g session them stream peers) = Joined name \<longleftrightarrow>
      (\<exists>handshake shown. session = Some handshake \<and> intro_self them = JStr name \<and> intro_proof them = JStr shown \<and>
         name \<noteq> gossip_self g \<and>
         buffer_from_hex shown = hmac_sha256 (gossip_key g) (utf8 ''cluster-handshake'' @ handshake @ utf8 name))"
    by (auto simp: onopen_def introduces_iff split: json.split)
  show "map_of (snd (onopen g session them stream peers)) =
      (case fst (onopen g session them stream peers) of Joined n \<Rightarrow> (map_of peers)(n \<mapsto> stream) | _ \<Rightarrow> map_of peers)"
    by (auto simp: onopen_def put_link_map split: json.split)
  have "map_of (filter (\<lambda>(n, _). n \<noteq> peer) peers) = (map_of peers)(peer := None)"
    by (induction peers) (auto simp: fun_eq_iff)
  then show "map_of (onclose peer stream peers) =
      (if map_of peers peer = Some stream then (map_of peers)(peer := None) else map_of peers)"
    by (simp add: onclose_def)
qed

lemma links_named_once: "link_step g peers peers' \<Longrightarrow> distinct (map fst peers) \<Longrightarrow> distinct (map fst peers')"
  by (auto simp: link_step_iff onopen_def onclose_def put_link_names distinct_map_filter split: json.split)

end
