(* ===== verification/LedgerInvariant.thy ===== *)
theory LedgerInvariant
  imports Ledger
begin

text \<open>
  The invariant of the ledger of one instance, kept by every operation of theory Ledger: rows
  have distinct keys, every fact verifies under the cluster key, every settlement carries the
  preimage of its own hash, and nothing that is settled is still on the schedule. The
  operations are the rules of a step relation, and the invariant holds in every ledger
  reachable from a new one.
\<close>

subsection \<open>What an operation leaves alone\<close>

named_theorems frame \<open>the fields an operation does not touch\<close>

lemma advance_frame [simp, frame]:
  "self_origin (advance l s f) = self_origin l" "cluster_key (advance l s f) = cluster_key l"
  "accepted_rows (advance l s f) = accepted_rows l" "schedule (advance l s f) = schedule l"
  "paid_rows (advance l s f) = paid_rows l" "outbox_rows (advance l s f) = outbox_rows l"
  "delivered_rows (advance l s f) = delivered_rows l" "requests (advance l s f) = requests l"
  "kept_rows (advance l s f) = kept_rows l" "takeoverAfterSecs (advance l s f) = takeoverAfterSecs l"
  by (simp_all add: advance_def)

lemma recordAccepted_frame [simp, frame]:
  "self_origin (recordAccepted l f) = self_origin l" "cluster_key (recordAccepted l f) = cluster_key l"
  "accepted_rows (recordAccepted l f) = insert_new key_of f (accepted_rows l)"
  "schedule (recordAccepted l f) = schedule l" "paid_rows (recordAccepted l f) = paid_rows l"
  "outbox_rows (recordAccepted l f) = outbox_rows l" "delivered_rows (recordAccepted l f) = delivered_rows l"
  "requests (recordAccepted l f) = requests l" "kept_rows (recordAccepted l f) = kept_rows l"
  by (simp_all add: recordAccepted_def)

lemma recordPaid_frame [simp, frame]:
  "self_origin (recordPaid now l f) = self_origin l" "cluster_key (recordPaid now l f) = cluster_key l"
  "accepted_rows (recordPaid now l f) = accepted_rows l" "schedule (recordPaid now l f) = schedule l"
  "paid_rows (recordPaid now l f) = insert_new key_of (paid_row_of now f) (paid_rows l)"
  "outbox_rows (recordPaid now l f) = outbox_rows l" "delivered_rows (recordPaid now l f) = delivered_rows l"
  "requests (recordPaid now l f) = requests l" "kept_rows (recordPaid now l f) = kept_rows l"
  by (simp_all add: recordPaid_def)

lemma recordOutbox_frame [simp, frame]:
  "self_origin (recordOutbox l f due) = self_origin l" "cluster_key (recordOutbox l f due) = cluster_key l"
  "accepted_rows (recordOutbox l f due) = accepted_rows l" "schedule (recordOutbox l f due) = schedule l"
  "paid_rows (recordOutbox l f due) = paid_rows l"
  "outbox_rows (recordOutbox l f due) =
     insert_new key_of (outbox_row_of f due (retryUntil l (fact_id f) (outbox_owedAt f))) (outbox_rows l)"
  "delivered_rows (recordOutbox l f due) = delivered_rows l"
  "requests (recordOutbox l f due) = requests l" "kept_rows (recordOutbox l f due) = kept_rows l"
  by (simp_all add: recordOutbox_def)

lemma recordDelivered_frame [simp, frame]:
  "self_origin (recordDelivered l f) = self_origin l" "cluster_key (recordDelivered l f) = cluster_key l"
  "accepted_rows (recordDelivered l f) = accepted_rows l" "schedule (recordDelivered l f) = schedule l"
  "paid_rows (recordDelivered l f) = paid_rows l" "outbox_rows (recordDelivered l f) = outbox_rows l"
  "delivered_rows (recordDelivered l f) = insert_new key_of f (delivered_rows l)"
  "requests (recordDelivered l f) = requests l" "kept_rows (recordDelivered l f) = kept_rows l"
  by (simp_all add: recordDelivered_def)

lemma forget_frame [simp, frame]:
  "self_origin (forget l i) = self_origin l" "cluster_key (forget l i) = cluster_key l"
  "accepted_rows (forget l i) = accepted_rows l" "paid_rows (forget l i) = paid_rows l"
  "outbox_rows (forget l i) = outbox_rows l" "delivered_rows (forget l i) = delivered_rows l"
  "requests (forget l i) = requests l" "kept_rows (forget l i) = kept_rows l"
  "progress (forget l i) = progress l" "schedule (forget l i) = delete_where (\<lambda>s. sched_id s = i) (schedule l)"
  by (simp_all add: forget_def)

lemma scheduleWatch_frame [simp, frame]:
  "self_origin (scheduleWatch l i u d) = self_origin l" "cluster_key (scheduleWatch l i u d) = cluster_key l"
  "accepted_rows (scheduleWatch l i u d) = accepted_rows l" "paid_rows (scheduleWatch l i u d) = paid_rows l"
  "outbox_rows (scheduleWatch l i u d) = outbox_rows l" "delivered_rows (scheduleWatch l i u d) = delivered_rows l"
  "requests (scheduleWatch l i u d) = requests l" "kept_rows (scheduleWatch l i u d) = kept_rows l"
  "progress (scheduleWatch l i u d) = progress l"
  by (simp_all add: scheduleWatch_def)

lemma row_of_fields [simp]:
  "key_of (paid_row_of now f) = key_of f" "fact_id (paid_row_of now f) = fact_id f"
  "fact_origin (paid_row_of now f) = fact_origin f" "fact_seq (paid_row_of now f) = fact_seq f"
  "fact_mac (paid_row_of now f) = fact_mac f" "paid_payment (paid_row_of now f) = paid_payment f"
  "paid_settledAt (paid_row_of now f) = paid_settledAt f" "heardAt (paid_row_of now f) = Some now"
  "key_of (outbox_row_of g d u) = key_of g" "fact_id (outbox_row_of g d u) = fact_id g"
  "fact_origin (outbox_row_of g d u) = fact_origin g" "fact_seq (outbox_row_of g d u) = fact_seq g"
  "fact_mac (outbox_row_of g d u) = fact_mac g" "outbox_url (outbox_row_of g d u) = outbox_url g"
  "outbox_body (outbox_row_of g d u) = outbox_body g" "outbox_owedAt (outbox_row_of g d u) = outbox_owedAt g"
  "outbox_dueAt (outbox_row_of g d u) = Some d" "outbox_retryUntil (outbox_row_of g d u) = Some u"
  by (simp_all add: paid_row_of_def outbox_row_of_def key_of_def paid.defs outbox.defs)

lemma verify_row_of [simp]:
  "verify_paid key (paid_row_of now f) = verify_paid key f"
  "verify_outbox key (outbox_row_of g d u) = verify_outbox key g"
  by (simp_all add: verify_paid_def paid_cells_def verify_outbox_def outbox_cells_def)

subsection \<open>Tables\<close>

lemma insert_new_distinct [simp]: "distinct (map key rows) \<Longrightarrow> distinct (map key (insert_new key row rows))"
  by (simp add: insert_new_def)

lemma insert_new_all: "\<forall>r\<in>set rows. P r \<Longrightarrow> P row \<Longrightarrow> \<forall>r\<in>set (insert_new key row rows). P r"
  by (auto simp: insert_new_def)

lemma insert_new_ball [simp]: "P row \<Longrightarrow> (\<forall>r\<in>set (insert_new key row rows). P r) \<longleftrightarrow> (\<forall>r\<in>set rows. P r)"
  by (auto simp: insert_new_def dest: bspec)

lemma insert_new_image: "f ` set (insert_new key row rows) \<subseteq> insert (f row) (f ` set rows)"
  by (auto simp: insert_new_def)

lemma insert_new_fresh: "key row \<notin> key ` set rows \<Longrightarrow> insert_new key row rows = rows @ [row]"
  by (simp add: insert_new_def)

lemma insert_new_keys [simp]: "key ` set (insert_new key row rows) = insert (key row) (key ` set rows)"
  by (auto simp: insert_new_def)

lemma set_insert_new_subset: "set (insert_new key row rows) \<subseteq> insert row (set rows)"
  by (auto simp: insert_new_def)

lemma set_insert_new_superset: "set rows \<subseteq> set (insert_new key row rows)"
  by (auto simp: insert_new_def)

lemma delete_where_distinct [simp]: "distinct (map key rows) \<Longrightarrow> distinct (map key (delete_where P rows))"
  by (simp add: delete_where_def distinct_map_filter)

lemma set_delete_where [simp]: "set (delete_where P rows) = {r \<in> set rows. \<not> P r}"
  by (auto simp: delete_where_def)

lemma update_where_key:
  "(\<And>r. key (f r) = key r) \<Longrightarrow> map key (update_where P f rows) = map key rows"
  by (simp add: update_where_def)

lemma set_update_where: "set (update_where P f rows) = (\<lambda>r. if P r then f r else r) ` set rows"
  by (auto simp: update_where_def)

lemma raise_mark_keys: "distinct (map fst ms) \<Longrightarrow> distinct (map fst (raise_mark k n ms)) \<and>
    fst ` set (raise_mark k n ms) = insert k (fst ` set ms)"
  by (induction k n ms rule: raise_mark.induct) auto

lemma map_of_raise_mark:
  "map_of (raise_mark k n ms) k' =
     (if k' = k then Some (case map_of ms k of None \<Rightarrow> n | Some m \<Rightarrow> max m n) else map_of ms k')"
  by (induction k n ms rule: raise_mark.induct) auto

lemma fold_max_start: "(s :: int) \<le> fold max ss s"
proof (induction ss arbitrary: s)
  case (Cons x ss)
  show ?case using Cons [of "max x s"] by simp
qed simp

lemma fold_max_ge: "x \<in> set ss \<Longrightarrow> x \<le> fold max ss (s :: int)"
proof (induction ss arbitrary: s)
  case (Cons y ss)
  then show ?case using fold_max_start [of "max y s" ss] by auto
qed simp

lemma nextSeq_fresh: "s \<in> set (held_seqs l source (self_origin l)) \<Longrightarrow> s < nextSeq l source"
proof (cases "held_seqs l source (self_origin l)")
  case (Cons x xs)
  assume "s \<in> set (held_seqs l source (self_origin l))"
  then have "s \<le> fold max xs x" using fold_max_ge [of s xs x] fold_max_start [of x xs] by (auto simp: Cons)
  then show ?thesis by (simp add: nextSeq_def Cons)
qed simp

lemma nextSeq_mark: "markOf l source (self_origin l) < nextSeq l source"
  by (simp add: nextSeq_def)

lemma held_seqs_key:
  "(from, s) \<in> key_of ` set (accepted_rows l) \<longleftrightarrow> s \<in> set (held_seqs l AcceptedFact from)"
  "(from, s) \<in> key_of ` set (paid_rows l) \<longleftrightarrow> s \<in> set (held_seqs l PaidFact from)"
  "(from, s) \<in> key_of ` set (outbox_rows l) \<longleftrightarrow> s \<in> set (held_seqs l OutboxFact from)"
  "(from, s) \<in> key_of ` set (delivered_rows l) \<longleftrightarrow> s \<in> set (held_seqs l DeliveredFact from)"
  by (auto simp: held_seqs_def key_of_def image_iff)

lemma nextSeq_new_key:
  "(self_origin l, nextSeq l AcceptedFact) \<notin> key_of ` set (accepted_rows l)"
  "(self_origin l, nextSeq l PaidFact) \<notin> key_of ` set (paid_rows l)"
  "(self_origin l, nextSeq l OutboxFact) \<notin> key_of ` set (outbox_rows l)"
  "(self_origin l, nextSeq l DeliveredFact) \<notin> key_of ` set (delivered_rows l)"
  unfolding held_seqs_key by (auto dest: nextSeq_fresh)

subsection \<open>The invariant\<close>

definition keys_distinct :: "ledger \<Rightarrow> bool" where
  "keys_distinct l \<longleftrightarrow>
     distinct (map key_of (accepted_rows l)) \<and> distinct (map key_of (paid_rows l)) \<and>
     distinct (map key_of (outbox_rows l)) \<and> distinct (map key_of (delivered_rows l)) \<and>
     distinct (map sched_id (schedule l)) \<and> distinct (map req_key (requests l)) \<and>
     distinct (map kept_id (kept_rows l)) \<and> distinct (map fst (progress l))"

definition authentic :: "ledger \<Rightarrow> bool" where
  "authentic l \<longleftrightarrow>
     (\<forall>r\<in>set (accepted_rows l). verify_accepted (cluster_key l) r) \<and>
     (\<forall>r\<in>set (paid_rows l). verify_paid (cluster_key l) r) \<and>
     (\<forall>r\<in>set (outbox_rows l). verify_outbox (cluster_key l) r) \<and>
     (\<forall>r\<in>set (delivered_rows l). verify_delivered (cluster_key l) r)"

definition proven_row :: "'a paid_scheme \<Rightarrow> bool" where
  "proven_row r \<longleftrightarrow>
     (\<exists>p. asStoredPublic (paid_payment r) = Some p \<and> pay_id p = fact_id r \<and> proves (preimage p) (paymentHash p))"

definition settlements_proven :: "ledger \<Rightarrow> bool" where
  "settlements_proven l \<longleftrightarrow> (\<forall>r\<in>set (paid_rows l). proven_row r)"

definition schedule_open :: "ledger \<Rightarrow> bool" where
  "schedule_open l \<longleftrightarrow> (\<forall>s\<in>set (schedule l). sched_id s \<notin> fact_id ` set (paid_rows l))"

definition ledger_ok :: "ledger \<Rightarrow> bool" where
  "ledger_ok l \<longleftrightarrow> keys_distinct l \<and> authentic l \<and> settlements_proven l \<and> schedule_open l"

lemmas ledger_ok_defs = ledger_ok_def keys_distinct_def authentic_def settlements_proven_def schedule_open_def

lemma settlement_None_iff:
  "settlements_proven l \<Longrightarrow> settlement l i = None \<longleftrightarrow> i \<notin> fact_id ` set (paid_rows l)"
proof -
  assume proven: "settlements_proven l"
  show ?thesis
  proof (cases "find (\<lambda>r. fact_id r = i) (paid_rows l)")
    case None
    then have "i \<notin> fact_id ` set (paid_rows l)" by (auto simp: find_None_iff)
    then show ?thesis unfolding settlement_def None by simp
  next
    case (Some r)
    then have "r \<in> set (paid_rows l)" "fact_id r = i" by (auto dest: find_SomeD)
    then show ?thesis using proven Some by (auto simp: settlements_proven_def proven_row_def settlement_def)
  qed
qed

lemma settlement_proven:
  assumes "settlements_proven l" "settlement l i = Some p"
  shows "pay_id p = i \<and> proves (preimage p) (paymentHash p)"
  using assms by (auto simp: settlement_def settlements_proven_def proven_row_def bind_eq_Some_conv dest!: find_SomeD)

lemma progress_advance_distinct [simp]:
  "distinct (map fst (progress l)) \<Longrightarrow> distinct (map fst (progress (advance l s f)))"
  by (simp add: advance_def raise_mark_keys)

lemma record_progress_distinct [simp]:
  assumes "distinct (map fst (progress l))"
  shows "distinct (map fst (progress (recordAccepted l a)))" "distinct (map fst (progress (recordPaid now l p)))"
    "distinct (map fst (progress (recordOutbox l ob due)))" "distinct (map fst (progress (recordDelivered l d)))"
  using assms by (simp_all add: recordAccepted_def recordPaid_def recordOutbox_def recordDelivered_def)

lemma ledger_ok_recordAccepted:
  "ledger_ok l \<Longrightarrow> verify_accepted (cluster_key l) f \<Longrightarrow> ledger_ok (recordAccepted l f)"
  by (simp add: ledger_ok_defs)

lemma ledger_ok_recordOutbox:
  "ledger_ok l \<Longrightarrow> verify_outbox (cluster_key l) f \<Longrightarrow> ledger_ok (recordOutbox l f due)"
  by (simp add: ledger_ok_defs)

lemma ledger_ok_recordDelivered:
  "ledger_ok l \<Longrightarrow> verify_delivered (cluster_key l) f \<Longrightarrow> ledger_ok (recordDelivered l f)"
  by (simp add: ledger_ok_defs)

lemma ledger_ok_scheduleWatch:
  assumes "ledger_ok l"
  shows "ledger_ok (scheduleWatch l i until due)"
proof (cases "settlement l i = None")
  case True
  then have "i \<notin> fact_id ` set (paid_rows l)"
    using assms settlement_None_iff [of l i] by (simp add: ledger_ok_def)
  then show ?thesis using assms True by (simp add: ledger_ok_defs scheduleWatch_def)
qed (simp add: assms scheduleWatch_def)

lemma ledger_ok_recordPaid_forget:
  assumes "ledger_ok l" "verify_paid (cluster_key l) f" "proven_row f"
  shows "ledger_ok (forget (recordPaid now l f) (fact_id f))"
proof -
  have "proven_row (paid_row_of now f)" using assms(3) by (simp add: proven_row_def)
  moreover have "fact_id ` set (insert_new key_of (paid_row_of now f) (paid_rows l))
      \<subseteq> insert (fact_id f) (fact_id ` set (paid_rows l))"
    using insert_new_image [of fact_id key_of "paid_row_of now f"] by simp
  then have "sched_id x \<notin> fact_id ` set (insert_new key_of (paid_row_of now f) (paid_rows l))"
    if "x \<in> set (schedule l)" "sched_id x \<noteq> fact_id f" for x
  proof -
    have "sched_id x \<notin> fact_id ` set (paid_rows l)"
      using that(1) assms(1) by (simp add: ledger_ok_def schedule_open_def)
    then show ?thesis using calculation that(2) insert_new_image [of fact_id key_of "paid_row_of now f" "paid_rows l"]
      by (metis insert_iff row_of_fields(2) subsetD)
  qed
  ultimately show ?thesis using assms by (simp add: ledger_ok_defs)
qed

lemma ledger_ok_forget: "ledger_ok l \<Longrightarrow> ledger_ok (forget l i)"
  by (simp add: ledger_ok_defs)

subsection \<open>The operations\<close>

lemma acceptedFact_verifies: "verify_accepted (cluster_key l) (acceptedFact now l p)"
  by (simp add: acceptedFact_def)

lemma ledger_ok_accept: "ledger_ok l \<Longrightarrow> ledger_ok (snd (accept now l p due))"
  by (simp add: accept_def Let_def ledger_ok_scheduleWatch ledger_ok_recordAccepted acceptedFact_verifies)

lemma owedFact_verifies: "verify_outbox (cluster_key l) (owedFact l i hook body owedAt)"
  by (simp add: owedFact_def)

lemma ledger_ok_owe_each: "ledger_ok l \<Longrightarrow> ledger_ok (snd (owe_each i body owedAt hooks l))"
  by (induction i body owedAt hooks l rule: owe_each.induct)
    (simp_all add: Let_def case_prod_beta ledger_ok_recordOutbox owedFact_verifies)

lemma owe_each_frame [simp]:
  "paid_rows (snd (owe_each i body owedAt hooks l)) = paid_rows l"
  "schedule (snd (owe_each i body owedAt hooks l)) = schedule l"
  "accepted_rows (snd (owe_each i body owedAt hooks l)) = accepted_rows l"
  "delivered_rows (snd (owe_each i body owedAt hooks l)) = delivered_rows l"
  "self_origin (snd (owe_each i body owedAt hooks l)) = self_origin l"
  "cluster_key (snd (owe_each i body owedAt hooks l)) = cluster_key l"
  by (induction i body owedAt hooks l rule: owe_each.induct) (simp_all add: Let_def case_prod_beta)

text \<open>
  Taking a payment off the schedule after the deliveries are recorded, as the code does, or
  before them, gives a ledger that is \<open>ok\<close> either way; the proof goes by the second.
\<close>

lemma advance_forget: "advance (forget l i) s f = forget (advance l s f) i"
  by (simp add: advance_def forget_def held_seqs_def markOf_def split: source.split)

lemma recordOutbox_forget: "recordOutbox (forget l i) f due = forget (recordOutbox l f due) i"
proof -
  have "(forget l i)\<lparr>outbox_rows := insert_new key_of (outbox_row_of f due (retryUntil l (fact_id f) (outbox_owedAt f)))
        (outbox_rows l)\<rparr> =
      forget (l\<lparr>outbox_rows := insert_new key_of (outbox_row_of f due (retryUntil l (fact_id f) (outbox_owedAt f)))
        (outbox_rows l)\<rparr>) i"
    by (simp add: forget_def)
  then show ?thesis by (simp add: recordOutbox_def advance_forget retryUntil_def)
qed

lemma owe_each_forget:
  "owe_each i body owedAt hooks (forget l j) =
     (fst (owe_each i body owedAt hooks l), forget (snd (owe_each i body owedAt hooks l)) j)"
proof (induction i body owedAt hooks l rule: owe_each.induct)
  case (2 i body owedAt hook hooks l)
  have "owedFact (forget l j) i hook body owedAt = owedFact l i hook body owedAt"
    by (simp add: owedFact_def nextSeq_def held_seqs_def markOf_def)
  then show ?case
    using 2 [OF refl] by (simp add: Let_def recordOutbox_forget case_prod_beta)
qed simp

definition paid_fact :: "int \<Rightarrow> ledger \<Rightarrow> payment \<Rightarrow> string \<Rightarrow> paid" where
  "paid_fact now l watched secret =
     sign_paid (cluster_key l)
       \<lparr>fact_origin = self_origin l, fact_seq = nextSeq l PaidFact, fact_id = pay_id watched, fact_mac = [],
        paid_payment = public_text (withoutSecrets (watched\<lparr>pay_status := Paid, preimage := Some secret\<rparr>)),
        paid_settledAt = now\<rparr>"

lemma paid_fact_fields [simp]:
  "fact_id (paid_fact now l w secret) = pay_id w" "fact_origin (paid_fact now l w secret) = self_origin l"
  "paid_settledAt (paid_fact now l w secret) = now" "fact_seq (paid_fact now l w secret) = nextSeq l PaidFact"
  "paid_payment (paid_fact now l w secret) = public_text (withoutSecrets (w\<lparr>pay_status := Paid, preimage := Some secret\<rparr>))"
  by (simp_all add: paid_fact_def sign_paid_def)

lemma settle_eq:
  "settle now l w secret =
     (if \<not> proves (Some secret) (paymentHash w) then None
      else (let settled = w\<lparr>pay_status := Paid, preimage := Some secret\<rparr>;
                body = stringify (JObj (deliveryToWire settled now));
                owed = owe_each (pay_id w) body now (webhooks w) (forget (recordPaid now l (paid_fact now l w secret)) (pay_id w))
            in Some ((withoutSecrets settled,
                      no_facts\<lparr>paid_facts := [paid_fact now l w secret], outbox_facts := fst owed\<rparr>), snd owed)))"
  by (simp add: settle_def Let_def paid_fact_def owe_each_forget case_prod_beta)

lemma paid_fact_ok:
  assumes "proves (Some secret) (paymentHash w)"
  shows "verify_paid (cluster_key l) (paid_fact now l w secret)" "proven_row (paid_fact now l w secret)"
proof -
  show "verify_paid (cluster_key l) (paid_fact now l w secret)"
    unfolding paid_fact_def by (rule verify_signed)
  show "proven_row (paid_fact now l w secret)"
    using assms by (simp add: proven_row_def)
qed

lemma ledger_ok_settle:
  assumes "ledger_ok l" "settle now l w secret = Some (out, l')"
  shows "ledger_ok l'"
proof -
  have p: "proves (Some secret) (paymentHash w)"
    using assms(2) by (simp add: settle_eq split: if_splits)
  then have "ledger_ok (forget (recordPaid now l (paid_fact now l w secret)) (pay_id w))"
    using ledger_ok_recordPaid_forget [OF assms(1) paid_fact_ok [OF p]] by simp
  then show ?thesis
    using assms(2) p ledger_ok_owe_each by (auto simp: settle_eq Let_def)
qed

lemma ledger_ok_schedule_update:
  assumes "ledger_ok l" "\<And>s. sched_id (f s) = sched_id s"
  shows "ledger_ok (l\<lparr>schedule := update_where P f (schedule l)\<rparr>)"
  using assms by (auto simp: ledger_ok_defs update_where_key set_update_where)

lemma ledger_ok_outbox_update:
  assumes "ledger_ok l" "\<And>r. key_of (f r) = key_of r"
    and "\<And>r. verify_outbox (cluster_key l) (f r) = verify_outbox (cluster_key l) r"
  shows "ledger_ok (l\<lparr>outbox_rows := update_where P f (outbox_rows l)\<rparr>)"
  using assms by (auto simp: ledger_ok_defs update_where_key set_update_where)

lemma ledger_ok_polls:
  assumes "ledger_ok l"
  shows "ledger_ok (snd (duePolls now l limit lease))" "ledger_ok (polled l i due)"
    "ledger_ok (broughtForward l i d)"
  using assms
  by (simp_all add: duePolls_def Let_def polled_def broughtForward_def ledger_ok_schedule_update)

lemma verify_outbox_update [simp]:
  "verify_outbox key (r\<lparr>outbox_dueAt := d\<rparr>) = verify_outbox key (r :: outbox_row)"
  "verify_outbox key (r\<lparr>outbox_dueAt := d, outbox_attempts := n, outbox_parkedAt := q\<rparr>) = verify_outbox key r"
  "verify_outbox key (r\<lparr>outbox_attempts := n, outbox_dueAt := d, outbox_parkedAt := q\<rparr>) = verify_outbox key r"
  by (simp_all add: verify_outbox_def outbox_cells_def)

lemma key_of_update [simp]:
  "key_of (r\<lparr>outbox_dueAt := d\<rparr>) = key_of (r :: outbox_row)"
  "key_of (r\<lparr>outbox_attempts := n, outbox_dueAt := d, outbox_parkedAt := q\<rparr>) = key_of r"
  by (simp_all add: key_of_def)

lemma ledger_ok_deliveries:
  assumes "ledger_ok l"
  shows "ledger_ok (snd (dueDeliveries now l limit lease))" "ledger_ok (snd (delivered now l owed))"
    "ledger_ok (snd (undelivered now l owed))"
  using assms
  by (auto simp: dueDeliveries_def undelivered_def delivered_def Let_def ledger_ok_outbox_update
      ledger_ok_recordDelivered split: option.split)

lemma ledger_ok_requests:
  "ledger_ok l \<Longrightarrow> distinct (map req_key rs) \<Longrightarrow> ledger_ok (l\<lparr>requests := rs\<rparr>)"
  by (simp add: ledger_ok_defs)

lemma ledger_ok_claims:
  assumes "ledger_ok l"
  shows "ledger_ok (snd (claimKey now l key print lease))" "ledger_ok (fulfillKey l key i)"
    "ledger_ok (releaseKey l key)"
proof -
  have d: "distinct (map req_key (requests l))" using assms by (simp add: ledger_ok_defs)
  have "ledger_ok (take_claim now l key print lease)"
    using assms d by (auto simp: take_claim_def update_where_key intro!: ledger_ok_requests)
  then show "ledger_ok (snd (claimKey now l key print lease))"
    using assms by (auto simp: claimKey_def split: option.split list.split)
  show "ledger_ok (fulfillKey l key i)" "ledger_ok (releaseKey l key)"
    using assms d by (auto simp: fulfillKey_def releaseKey_def update_where_key intro!: ledger_ok_requests)
qed

subsection \<open>Facts from peers\<close>

lemma ledger_ok_progress:
  "ledger_ok l \<Longrightarrow> distinct (map fst ms) \<Longrightarrow> ledger_ok (l\<lparr>progress := ms\<rparr>)"
  by (simp add: ledger_ok_defs)

lemma ledger_ok_advance: "ledger_ok l \<Longrightarrow> ledger_ok (advance l source from)"
  by (simp add: ledger_ok_defs)

lemma ledger_ok_absorb_accepted: "ledger_ok l \<Longrightarrow> ledger_ok (absorb_accepted due f l)"
  by (auto simp: absorb_accepted_def provenAccepted_def intro!: ledger_ok_scheduleWatch ledger_ok_recordAccepted)

lemma provenPaid_row: "provenPaid key f \<Longrightarrow> verify_paid key f \<and> proven_row f"
  by (auto simp: provenPaid_def proven_row_def split: option.splits)

lemma ledger_ok_absorb_paid: "ledger_ok (fst state) \<Longrightarrow> ledger_ok (fst (absorb_paid now f state))"
  by (cases state) (auto simp: absorb_paid_def intro: ledger_ok_recordPaid_forget dest: provenPaid_row)

lemma ledger_ok_absorb_outbox: "ledger_ok l \<Longrightarrow> ledger_ok (absorb_outbox f l)"
  by (auto simp: absorb_outbox_def intro: ledger_ok_recordOutbox)

lemma ledger_ok_absorb_delivered: "ledger_ok l \<Longrightarrow> ledger_ok (absorb_delivered f l)"
  by (auto simp: absorb_delivered_def intro: ledger_ok_recordDelivered)

lemma progress_distinct: "ledger_ok l \<Longrightarrow> distinct (map fst (progress l))"
  by (simp add: ledger_ok_defs)

lemma ledger_ok_cover_one: "ledger_ok l \<Longrightarrow> ledger_ok (cover_one source m l)"
  by (auto simp: cover_one_def raise_mark_keys progress_distinct split: prod.split
      intro!: ledger_ok_advance ledger_ok_progress)

lemma ledger_ok_cover: "ledger_ok l \<Longrightarrow> ledger_ok (cover through l)"
  unfolding cover_def
  by (rule fold_invariant [of ledger_ok], assumption, rule fold_invariant [of ledger_ok], assumption,
      rule ledger_ok_cover_one)

lemma absorb_eq:
  "absorb now l given through due =
     (let l1 = fold (absorb_accepted due) (inSeqOrder (accepted_facts given)) l;
          paid = fold (absorb_paid now) (inSeqOrder (paid_facts given)) (l1, []);
          l3 = fold absorb_outbox (inSeqOrder (outbox_facts given)) (fst paid);
          l4 = fold absorb_delivered (inSeqOrder (delivered_facts given)) l3
      in (snd paid, case through of None \<Rightarrow> l4 | Some marks \<Rightarrow> cover marks l4))"
  by (simp add: absorb_def Let_def case_prod_beta)

text \<open>What every kind of fact and a cover keep, absorbing keeps.\<close>

lemma absorb_invariant:
  assumes "P l" "\<And>f l. P l \<Longrightarrow> P (absorb_accepted due f l)" "\<And>f s. P (fst s) \<Longrightarrow> P (fst (absorb_paid now f s))"
    and "\<And>f l. P l \<Longrightarrow> P (absorb_outbox f l)" "\<And>f l. P l \<Longrightarrow> P (absorb_delivered f l)"
    and "\<And>marks l. through = Some marks \<Longrightarrow> P l \<Longrightarrow> P (cover marks l)"
  shows "P (snd (absorb now l given through due))"
proof -
  define l1 where "l1 = fold (absorb_accepted due) (inSeqOrder (accepted_facts given)) l"
  define l2 where "l2 = fst (fold (absorb_paid now) (inSeqOrder (paid_facts given)) (l1, []))"
  define l3 where "l3 = fold absorb_outbox (inSeqOrder (outbox_facts given)) l2"
  define l4 where "l4 = fold absorb_delivered (inSeqOrder (delivered_facts given)) l3"
  have "P l1" unfolding l1_def by (rule fold_invariant [of P]) (rule assms)+
  then have "P l2" unfolding l2_def by (intro fold_invariant [of "\<lambda>s. P (fst s)"]) (simp_all add: assms(3))
  then have "P l3" unfolding l3_def by (rule fold_invariant [of P]) (rule assms)
  then have "P l4" unfolding l4_def by (rule fold_invariant [of P]) (rule assms)
  then have "P (case through of None \<Rightarrow> l4 | Some marks \<Rightarrow> cover marks l4)"
    using assms(6) by (cases through) simp_all
  then show ?thesis unfolding absorb_eq Let_def snd_conv l4_def l3_def l2_def l1_def .
qed

lemma ledger_ok_absorb: "ledger_ok l \<Longrightarrow> ledger_ok (snd (absorb now l given through due))"
  by (rule absorb_invariant)
    (simp_all add: ledger_ok_absorb_accepted ledger_ok_absorb_paid ledger_ok_absorb_outbox ledger_ok_absorb_delivered
      ledger_ok_cover)

subsection \<open>Sweeping and opening\<close>

lemma ledger_ok_fewer:
  assumes "ledger_ok l"
  shows "ledger_ok (l\<lparr>kept_rows := delete_where P (fold (insert_new kept_id) ks (kept_rows l))\<rparr>)"
    "ledger_ok (l\<lparr>schedule := delete_where Q (schedule l),
       accepted_rows := delete_where A (delete_where B (accepted_rows l))\<rparr>)"
    "ledger_ok (l\<lparr>outbox_rows := delete_where R (outbox_rows l)\<rparr>)"
    "ledger_ok (l\<lparr>paid_rows := delete_where S (paid_rows l), delivered_rows := delete_where D (delivered_rows l)\<rparr>)"
    "ledger_ok (l\<lparr>requests := delete_where T (requests l)\<rparr>)"
proof -
  have "distinct (map kept_id (fold (insert_new kept_id) ks (kept_rows l)))"
    by (rule fold_invariant [of "\<lambda>ks. distinct (map kept_id ks)"]) (use assms in \<open>simp_all add: ledger_ok_defs\<close>)
  then show "ledger_ok (l\<lparr>kept_rows := delete_where P (fold (insert_new kept_id) ks (kept_rows l))\<rparr>)"
    using assms by (simp add: ledger_ok_defs)
  show "ledger_ok (l\<lparr>paid_rows := delete_where S (paid_rows l), delivered_rows := delete_where D (delivered_rows l)\<rparr>)"
    using assms by (simp add: ledger_ok_defs image_iff)
qed (use assms in \<open>simp_all add: ledger_ok_defs\<close>)

lemma ledger_ok_owe: "ledger_ok l \<Longrightarrow> ledger_ok (owe now m l)"
  by (simp add: owe_def ledger_ok_recordOutbox owedFact_verifies split: option.split)

lemma ledger_ok_sweep_steps:
  assumes "ledger_ok l"
  shows "ledger_ok (snd (announce_expired now l))" "ledger_ok (keep_sealed now horizon secs l)"
    "ledger_ok (drop_watches horizon l)" "ledger_ok (drop_outbox horizon l)" "ledger_ok (drop_settled horizon l)"
    "ledger_ok (drop_requests now l)" "ledger_ok (owe_missing now l)"
proof -
  show "ledger_ok (snd (announce_expired now l))"
    unfolding announce_expired_def snd_conv by (rule ledger_ok_schedule_update [OF assms]) simp
  show "ledger_ok (keep_sealed now horizon secs l)" unfolding keep_sealed_def by (rule ledger_ok_fewer [OF assms])
  show "ledger_ok (drop_watches horizon l)" unfolding drop_watches_def by (rule ledger_ok_fewer [OF assms])
  show "ledger_ok (drop_outbox horizon l)" unfolding drop_outbox_def by (rule ledger_ok_fewer [OF assms])
  show "ledger_ok (drop_settled horizon l)" unfolding drop_settled_def by (rule ledger_ok_fewer [OF assms])
  show "ledger_ok (drop_requests now l)" unfolding drop_requests_def by (rule ledger_ok_fewer [OF assms])
  show "ledger_ok (owe_missing now l)"
    unfolding owe_missing_def by (rule fold_invariant [of ledger_ok, OF assms ledger_ok_owe])
qed

lemma ledger_ok_sweep: "ledger_ok l \<Longrightarrow> ledger_ok (snd (sweep now l graceSecs keepSealedSecs))"
  by (simp only: sweep_def Let_def case_prod_beta snd_conv ledger_ok_sweep_steps)

lemma ledger_ok_resignEveryFact:
  assumes "ledger_ok l"
  shows "ledger_ok (resignEveryFact (l\<lparr>cluster_key := key\<rparr>))"
proof -
  have id: "fact_id (sign_paid k r) = fact_id r" "proven_row (sign_paid k r) = proven_row r" for k and r :: paid_row
    by (simp_all add: sign_paid_def proven_row_def)
  have open': "fact_id ` sign_paid k ` rs = fact_id ` rs" for k and rs :: "paid_row set"
    by (simp add: image_image id)
  show ?thesis
    using assms by (simp add: ledger_ok_defs resignEveryFact_def comp_def id open')
qed

lemma ledger_ok_fields:
  "ledger_ok (l\<lparr>takeoverAfterSecs := a, deliveryBackoffSecs := b\<rparr>) = ledger_ok l"
  "ledger_ok (l\<lparr>ledger_key_mark := m\<rparr>) = ledger_ok l"
  by (simp_all add: ledger_ok_defs)

definition key_marked :: "ledger \<Rightarrow> bytes \<Rightarrow> bool" where
  "key_marked l key \<longleftrightarrow> ledger_key_mark l = Some (hmacHex key (utf8 ''ledger-key''))"

lemma ledger_ok_open:
  assumes "ledger_ok l" "key_marked l key \<Longrightarrow> key = cluster_key l"
  shows "ledger_ok (open_ledger now pending key takeover backoff l)"
proof -
  define l1 where "l1 = l\<lparr>cluster_key := key, takeoverAfterSecs := takeover, deliveryBackoffSecs := backoff\<rparr>"
  have swap: "l1 = l\<lparr>takeoverAfterSecs := takeover, deliveryBackoffSecs := backoff\<rparr>\<lparr>cluster_key := key\<rparr>"
    by (simp add: l1_def)
  have "ledger_ok (resignUnderTheKeyWeHold l1)"
  proof (cases "key_marked l key")
    case True
    then have "ledger_ok l1" using assms by (simp add: l1_def ledger_ok_defs)
    then show ?thesis using True by (simp add: resignUnderTheKeyWeHold_def key_marked_def l1_def)
  next
    case False
    have "ledger_ok (resignEveryFact l1)"
      using ledger_ok_resignEveryFact [of "l\<lparr>takeoverAfterSecs := takeover, deliveryBackoffSecs := backoff\<rparr>" key] assms(1)
      by (simp add: swap ledger_ok_fields)
    then show ?thesis using False
      by (simp add: resignUnderTheKeyWeHold_def key_marked_def l1_def ledger_ok_fields)
  qed
  then have "ledger_ok (fold (\<lambda>(_, record_text, due) l'. case revive now record_text of None \<Rightarrow> l'
      | Some p \<Rightarrow> snd (accept now l' p (case due of None \<Rightarrow> now | Some t \<Rightarrow> t))) rows (resignUnderTheKeyWeHold l1))" for rows
    by (rule fold_invariant [of ledger_ok]) (auto simp: ledger_ok_accept split: option.split)
  then show ?thesis
    using \<open>ledger_ok (resignUnderTheKeyWeHold l1)\<close>
    by (cases pending) (simp_all add: open_ledger_def retireTheWorklistWrittenBeforeAccepted_def flip: l1_def)
qed

lemma ledger_ok_new: "ledger_ok (new_ledger drawn)"
  by (simp add: ledger_ok_defs new_ledger_def)

end
