(* ===== verification/LedgerSteps.thy ===== *)
theory LedgerSteps
  imports LedgerInvariant
begin

text \<open>
  What can happen to the ledger of one instance, as a step relation whose rules are the public
  operations of \<^verbatim>\<open>Ledger\<close> (\<open>ledger_work\<close> without the sweep, \<open>ledger_step\<close> with it), and the
  ledgers they reach from a new file. The invariant holds in all of them; what is settled stays
  settled; and a sequence number an instance signs is never one it has used before.
\<close>

inductive ledger_work :: "ledger \<Rightarrow> ledger \<Rightarrow> bool" where
  accepting: "ledger_work l (snd (accept now l p due))"
| forgetting: "ledger_work l (forget l i)"
| polling: "ledger_work l (snd (duePolls now l limit lease))"
| postponing: "ledger_work l (polled l i due')"
| forwarding: "ledger_work l (broughtForward l i due)"
| settling: "settle now l watched secret = Some (out, l') \<Longrightarrow> ledger_work l l'"
| picking: "ledger_work l (snd (dueDeliveries now l limit lease))"
| delivering: "ledger_work l (snd (delivered now l owed))"
| failing: "ledger_work l (snd (undelivered now l owed))"
| claiming: "ledger_work l (snd (claimKey now l key print lease))"
| fulfilling: "ledger_work l (fulfillKey l key i)"
| releasing: "ledger_work l (releaseKey l key)"
| absorbing: "ledger_work l (snd (absorb now l given through dues))"
| reopening: "(key_marked l secret_key \<longrightarrow> secret_key = cluster_key l) \<Longrightarrow>
    ledger_work l (open_ledger now pending secret_key takeover backoff l)"

inductive ledger_step :: "ledger \<Rightarrow> ledger \<Rightarrow> bool" where
  working: "ledger_work l l' \<Longrightarrow> ledger_step l l'"
| sweeping: "ledger_step l (snd (sweep now l graceSecs keepSealedSecs))"

inductive_cases ledger_stepE: "ledger_step l l'"

text \<open>
  A file is created, opened under the cluster key, and worked on; the mark it keeps of its key
  tells the keys apart.
\<close>

inductive reachable :: "ledger \<Rightarrow> bool" where
  opened: "reachable (open_ledger now pending secret_key takeover backoff (new_ledger drawn))"
| stepped: "reachable l \<Longrightarrow> ledger_step l l' \<Longrightarrow> reachable l'"

lemma ledger_ok_work: "ledger_work l l' \<Longrightarrow> ledger_ok l \<Longrightarrow> ledger_ok l'"
  by (induction rule: ledger_work.induct)
    (auto simp: ledger_ok_accept ledger_ok_forget ledger_ok_polls ledger_ok_deliveries ledger_ok_claims
      ledger_ok_absorb intro: ledger_ok_settle ledger_ok_open)

lemma ledger_ok_step: "ledger_step l l' \<Longrightarrow> ledger_ok l \<Longrightarrow> ledger_ok l'"
  by (erule ledger_stepE) (auto simp: ledger_ok_sweep intro: ledger_ok_work)

lemma ledger_ok_reachable: "reachable l \<Longrightarrow> ledger_ok l"
proof (induction rule: reachable.induct)
  case (opened now pending secret_key takeover backoff drawn)
  show ?case
    by (rule ledger_ok_open [OF ledger_ok_new]) (simp add: key_marked_def new_ledger_def)
qed (rule ledger_ok_step)

subsection \<open>Settlements stay\<close>

definition settled_view :: "ledger \<Rightarrow> (string \<times> string) list" where
  "settled_view l = map (\<lambda>r. (fact_id r, paid_payment r)) (paid_rows l)"

lemma map_of_find: "map_of (map (\<lambda>r. (f r, g r)) rows) k = map_option g (find (\<lambda>r. f r = k) rows)"
  by (induction rows) auto

lemma settlement_view: "settlement l i = Option.bind (map_of (settled_view l) i) asStoredPublic"
  by (cases "find (\<lambda>r. fact_id r = i) (paid_rows l)") (simp_all add: settlement_def settled_view_def map_of_find)

lemma settlement_prefix:
  assumes "prefix (settled_view l) (settled_view l')" "settlement l i = Some p"
  shows "settlement l' i = Some p"
  using assms by (auto simp: settlement_view prefix_def bind_eq_Some_conv)

lemma view_same: "paid_rows l' = paid_rows l \<Longrightarrow> prefix (settled_view l) (settled_view l')"
  by (simp add: settled_view_def)

lemma view_recordPaid: "prefix (settled_view l) (settled_view (recordPaid now l f))"
  by (simp add: settled_view_def insert_new_def)

lemma paid_rows_accept [simp]: "paid_rows (snd (accept now l p due)) = paid_rows l"
  by (simp add: accept_def Let_def)

lemma settled_view_settle:
  "settle now l w secret = Some (out, l') \<Longrightarrow>
     settled_view l' = settled_view (recordPaid now l (paid_fact now l w secret))"
  by (auto simp: settle_eq Let_def settled_view_def split: if_splits)

lemma view_settle: "settle now l w secret = Some (out, l') \<Longrightarrow> prefix (settled_view l) (settled_view l')"
  using view_recordPaid by (simp add: settled_view_settle)

lemma paid_rows_absorb_rest:
  "paid_rows (absorb_outbox f l) = paid_rows l" "paid_rows (absorb_delivered g l) = paid_rows l"
  "paid_rows (absorb_accepted due h l) = paid_rows l" "paid_rows (cover_one source m l) = paid_rows l"
  by (simp_all add: absorb_outbox_def absorb_delivered_def absorb_accepted_def cover_one_def case_prod_beta)

lemma paid_rows_folds:
  "paid_rows (fold absorb_outbox fs l) = paid_rows l" "paid_rows (fold absorb_delivered gs l) = paid_rows l"
  "paid_rows (fold (absorb_accepted due) hs l) = paid_rows l" "paid_rows (fold (cover_one source) ms l) = paid_rows l"
  by (rule fold_invariant [of "\<lambda>l'. paid_rows l' = paid_rows l"]; simp add: paid_rows_absorb_rest)+

lemma paid_rows_cover: "paid_rows (cover through l) = paid_rows l"
  unfolding cover_def
  by (rule fold_invariant [of "\<lambda>l'. paid_rows l' = paid_rows l"]) (simp_all add: paid_rows_folds)

lemma view_absorb_paid: "prefix (settled_view (fst s)) (settled_view (fst (absorb_paid now f s)))"
  by (cases s) (simp add: absorb_paid_def settled_view_def insert_new_def)

lemma view_fold_paid: "prefix (settled_view (fst s)) (settled_view (fst (fold (absorb_paid now) fs s)))"
  by (rule fold_invariant [of "\<lambda>t. prefix (settled_view (fst s)) (settled_view (fst t))"])
    (simp, rule prefix_order.trans, assumption, rule view_absorb_paid)

lemma view_absorb: "prefix (settled_view l) (settled_view (snd (absorb now l given through due)))"
proof -
  define l1 where "l1 = fold (absorb_accepted due) (inSeqOrder (accepted_facts given)) l"
  define l2 where "l2 = fst (fold (absorb_paid now) (inSeqOrder (paid_facts given)) (l1, []))"
  have "settled_view l1 = settled_view l" by (simp add: settled_view_def l1_def paid_rows_folds)
  moreover have "prefix (settled_view l1) (settled_view l2)"
    using view_fold_paid [of "(l1, [])"] by (simp add: l2_def)
  moreover have "paid_rows (snd (absorb now l given through due)) = paid_rows l2"
    by (simp add: absorb_eq Let_def l1_def l2_def paid_rows_folds paid_rows_cover split: option.split)
  ultimately show ?thesis by (simp add: settled_view_def)
qed

lemma view_open: "settled_view (open_ledger now pending key takeover backoff l) = settled_view l"
proof -
  define l1 where "l1 = resignUnderTheKeyWeHold
    (l\<lparr>cluster_key := key, takeoverAfterSecs := takeover, deliveryBackoffSecs := backoff\<rparr>)"
  have "settled_view l1 = settled_view l"
    by (simp add: l1_def settled_view_def resignUnderTheKeyWeHold_def resignEveryFact_def sign_paid_def Let_def)
  moreover have "paid_rows (retireTheWorklistWrittenBeforeAccepted now pending l1) = paid_rows l1"
  proof (cases pending)
    case (Some rows)
    show ?thesis
      unfolding retireTheWorklistWrittenBeforeAccepted_def Some option.case
      by (rule fold_invariant [of "\<lambda>l'. paid_rows l' = paid_rows l1"]) (auto split: option.split)
  qed (simp add: retireTheWorklistWrittenBeforeAccepted_def)
  ultimately show ?thesis by (simp add: open_ledger_def settled_view_def flip: l1_def)
qed

lemma view_work: "ledger_work l l' \<Longrightarrow> prefix (settled_view l) (settled_view l')"
proof (induction rule: ledger_work.induct)
  case (reopening l secret_key now pending takeover backoff)
  then show ?case by (simp add: view_open)
next
  case (settling now l watched secret out l')
  then show ?case by (cases out) (rule view_settle, simp)
next
  case (absorbing l now given through dues)
  show ?case by (rule view_absorb)
qed (auto intro!: view_same simp: duePolls_def polled_def broughtForward_def dueDeliveries_def delivered_def
    undelivered_def claimKey_def take_claim_def fulfillKey_def releaseKey_def Let_def split: option.split list.split)

lemma paid_rows_owe [simp]: "paid_rows (owe now m l) = paid_rows l"
  by (simp add: owe_def split: option.split)

lemma paid_rows_sweep:
  "paid_rows (snd (sweep now l graceSecs keepSealedSecs)) =
     delete_where (\<lambda>r. paid_settledAt r \<le> now - graceSecs \<and> fact_id r \<in> set (surplus_ids (paid_rows l))) (paid_rows l)"
proof -
  have "paid_rows (owe_missing now l') = paid_rows l'" for l'
    unfolding owe_missing_def by (rule fold_invariant [of "\<lambda>l''. paid_rows l'' = paid_rows l'"]) simp_all
  then show ?thesis
    by (simp add: sweep_def Let_def case_prod_beta drop_requests_def drop_settled_def drop_outbox_def
        drop_watches_def keep_sealed_def announce_expired_def)
qed

lemma find_delete_where: "find P rows = Some r \<Longrightarrow> \<not> Q r \<Longrightarrow> find P (delete_where Q rows) = Some r"
  by (induction rows) (auto simp: delete_where_def split: if_splits)

text \<open>
  C9: what is settled stays settled. A payment an instance has ever shown as settled is shown
  with the same record, preimage and all, after anything that can happen to the ledger, save a
  sweep that runs when the settlement is older than the grace it was given.
\<close>

theorem settlement_stays:
  assumes "ledger_step l l'" "settlement l i = Some p"
  shows "settlement l' i = Some p \<or>
    (\<exists>now graceSecs keepSealedSecs r. l' = snd (sweep now l graceSecs keepSealedSecs) \<and>
       find (\<lambda>r. fact_id r = i) (paid_rows l) = Some r \<and> paid_settledAt r \<le> now - graceSecs)"
  using assms(1)
proof (rule ledger_stepE)
  assume "ledger_work l l'"
  then show ?thesis using assms(2) by (blast intro: settlement_prefix view_work)
next
  fix now graceSecs keepSealedSecs assume l': "l' = snd (sweep now l graceSecs keepSealedSecs)"
  obtain r where r: "find (\<lambda>r. fact_id r = i) (paid_rows l) = Some r"
    using assms(2) by (auto simp: settlement_def bind_eq_Some_conv)
  show ?thesis
  proof (cases "paid_settledAt r \<le> now - graceSecs")
    case False
    then show ?thesis using assms(2) r find_delete_where [OF r]
      by (simp add: l' settlement_def paid_rows_sweep)
  qed (use l' r in blast)
qed

text \<open>
  C1: the ledger never lies. In every ledger an instance can reach, from a new file through any
  order of accepting, polling, settling, delivering, claiming, absorbing whatever peers send,
  sweeping and reopening under another key: no two rows share a key, every fact it holds
  carries a tag of the cluster key, every settlement it holds carries the preimage of its own
  payment hash, and no settled payment is waited for.
\<close>

theorem reachable_ledger_ok:
  assumes "reachable l"
  shows "distinct (map key_of (accepted_rows l)) \<and> distinct (map key_of (paid_rows l)) \<and>
    distinct (map key_of (outbox_rows l)) \<and> distinct (map key_of (delivered_rows l)) \<and> authentic l \<and>
    (\<forall>i p. settlement l i = Some p \<longrightarrow> pay_id p = i \<and> proves (preimage p) (paymentHash p)) \<and>
    sched_id ` set (schedule l) \<inter> fact_id ` set (paid_rows l) = {}"
proof -
  have ok: "ledger_ok l" using assms by (rule ledger_ok_reachable)
  then have "settlements_proven l" "schedule_open l" by (simp_all add: ledger_ok_def)
  then show ?thesis
    using ok settlement_proven [of l] by (auto simp: ledger_ok_def keys_distinct_def schedule_open_def)
qed

text \<open>The witness settles the payment of the all-zero preimage.\<close>

definition first_payment :: payment where
  "first_payment =
     \<lparr>pay_id = ''p'', lnAddress = None, amountMsat = None, pay_status = Pending,
      paymentHash = bytesToHex (sha256 [1]), bolt11 = None, preimage = None, expiresAt = 100, createdAt = 1,
      verifyUrl = ''https://v.example/'', trigger = None, replay = 0, sealed = None, caller = None,
      webhooks = [''https://h.example/'']\<rparr>"

definition first_ledger :: ledger where
  "first_ledger = open_ledger 1 None [7] 600 30 (new_ledger ''o'')"

definition first_accepted :: ledger where
  "first_accepted = snd (accept 2 first_ledger first_payment 3)"

definition first_settled :: ledger where
  "first_settled = (case settle 5 first_accepted first_payment (bytesToHex [1]) of None \<Rightarrow> first_accepted | Some (_, l) \<Rightarrow> l)"

lemma first_proves: "proves (Some (bytesToHex [1])) (paymentHash first_payment)"
  by (simp only: proves_def first_payment_def buffer_from_hex_bytesToHex option.case payment.simps public_payment.simps)

lemma first_reachable: "reachable first_accepted"
  unfolding first_accepted_def first_ledger_def by (rule stepped, rule opened, rule working, rule accepting)

lemma first_step: "ledger_step first_accepted first_settled"
proof -
  from first_proves obtain out l' where *: "settle 5 first_accepted first_payment (bytesToHex [1]) = Some (out, l')"
    unfolding settle_eq Let_def by (simp only: if_False not_not simp_thms)
  have "first_settled = l'" by (simp only: first_settled_def * option.case prod.case)
  with * have "settle 5 first_accepted first_payment (bytesToHex [1]) = Some (out, first_settled)" by simp
  then show ?thesis by (rule working [OF settling])
qed

subsection \<open>What settling writes\<close>

definition owed_view :: "outbox_row \<Rightarrow> string \<times> webhook \<times> string \<times> int option" where
  "owed_view r = (fact_id r, outbox_url r, outbox_body r, outbox_dueAt r)"

lemma owedFact_fields [simp]:
  "fact_id (owedFact l i hook body owedAt) = i" "outbox_url (owedFact l i hook body owedAt) = hook"
  "outbox_body (owedFact l i hook body owedAt) = body" "outbox_owedAt (owedFact l i hook body owedAt) = owedAt"
  "key_of (owedFact l i hook body owedAt) = (self_origin l, nextSeq l OutboxFact)"
  "fact_origin (owedFact l i hook body owedAt) = self_origin l"
  "fact_seq (owedFact l i hook body owedAt) = nextSeq l OutboxFact"
  by (simp_all add: owedFact_def sign_outbox_def key_of_def)

lemma recordOutbox_owed:
  "outbox_rows (recordOutbox l (owedFact l i hook body owedAt) due) =
     outbox_rows l @ [outbox_row_of (owedFact l i hook body owedAt) due (retryUntil l i owedAt)]"
  by (simp add: insert_new_fresh nextSeq_new_key)

lemma owe_each_writes:
  "map owed_view (outbox_rows (snd (owe_each i body owedAt hooks l))) =
     map owed_view (outbox_rows l) @ map (\<lambda>hook. (i, hook, body, Some 0)) hooks"
proof (induction hooks arbitrary: l)
  case (Cons hook hooks)
  then show ?case
    by (simp add: Let_def case_prod_beta recordOutbox_owed owed_view_def del: recordOutbox_frame)
qed simp

lemma recordPaid_settled:
  "paid_rows (recordPaid now l (paid_fact now l w secret)) = paid_rows l @ [paid_row_of now (paid_fact now l w secret)]"
  by (simp add: insert_new_fresh nextSeq_new_key key_of_def [of "paid_fact now l w secret"])

lemma settle_effect:
  "if proves (Some secret) (paymentHash w)
   then \<exists>given l'.
     settle now l w secret = Some ((withoutSecrets (w\<lparr>pay_status := Paid, preimage := Some secret\<rparr>), given), l') \<and>
     settlement l' (pay_id w) =
       (if pay_id w \<in> fact_id ` set (paid_rows l) then settlement l (pay_id w)
        else Some (withoutSecrets (w\<lparr>pay_status := Paid, preimage := Some secret\<rparr>))) \<and>
     pay_id w \<notin> sched_id ` set (schedule l') \<and>
     map owed_view (outbox_rows l') = map owed_view (outbox_rows l) @
       map (\<lambda>hook. (pay_id w, hook,
         stringify (JObj (deliveryToWire (w\<lparr>pay_status := Paid, preimage := Some secret\<rparr>) now)), Some 0)) (webhooks w)
   else settle now l w secret = None"
proof (cases "proves (Some secret) (paymentHash w)")
  case True
  define told where "told = w\<lparr>pay_status := Paid, preimage := Some secret\<rparr>"
  define l1 where "l1 = recordPaid now l (paid_fact now l w secret)"
  have rows: "map (\<lambda>r. (fact_id r, paid_payment r)) (paid_rows l1) =
      map (\<lambda>r. (fact_id r, paid_payment r)) (paid_rows l) @ [(pay_id w, public_text (withoutSecrets told))]"
    by (simp add: l1_def recordPaid_settled told_def del: recordPaid_frame)
  have "settlement l1 (pay_id w) =
      (if pay_id w \<in> fact_id ` set (paid_rows l) then settlement l (pay_id w) else Some (withoutSecrets told))"
    using map_of_eq_None_iff [of "map (\<lambda>r. (fact_id r, paid_payment r)) (paid_rows l)" "pay_id w"]
    by (auto simp: settlement_view settled_view_def rows map_add_def image_image split: option.split)
  then show ?thesis
    using True
    by (simp add: settle_eq Let_def owe_each_writes settlement_def flip: told_def l1_def)
      (auto simp: l1_def)
qed (simp add: settle_eq)

text \<open>
  Settling is complete or it does not happen. A preimage that does not hash to the payment
  hash changes nothing. One that does is stored with the payment, takes the payment off the
  schedule, and leaves exactly one delivery for every webhook the payment has, due at once and
  with the settled payment as its body, after the deliveries that were owed before.
\<close>

theorem settle_writes:
  "if proves (Some secret) (paymentHash w)
   then \<exists>given l'.
     settle now l w secret = Some ((withoutSecrets (w\<lparr>pay_status := Paid, preimage := Some secret\<rparr>), given), l') \<and>
     settlement l' (pay_id w) =
       (if pay_id w \<in> fact_id ` set (paid_rows l) then settlement l (pay_id w)
        else Some (withoutSecrets (w\<lparr>pay_status := Paid, preimage := Some secret\<rparr>))) \<and>
     pay_id w \<notin> sched_id ` set (schedule l') \<and>
     map owed_view (outbox_rows l') = map owed_view (outbox_rows l) @
       map (\<lambda>hook. (pay_id w, hook,
         stringify (JObj (deliveryToWire (w\<lparr>pay_status := Paid, preimage := Some secret\<rparr>) now)), Some 0)) (webhooks w)
   else settle now l w secret = None"
  by (rule settle_effect)

subsection \<open>Accepted payments are named\<close>

definition named_row :: "'a accepted_scheme \<Rightarrow> bool" where
  "named_row r \<longleftrightarrow> (\<exists>p. asStored (accepted_payment r) = Some p \<and> pay_id p = fact_id r)"

definition accepted_named :: "ledger \<Rightarrow> bool" where
  "accepted_named l \<longleftrightarrow> (\<forall>r\<in>set (accepted_rows l). named_row r)"

lemma accepted_named_rows:
  "accepted_rows l' = accepted_rows l \<Longrightarrow> accepted_named l \<Longrightarrow> accepted_named l'"
  by (simp add: accepted_named_def)

lemma named_acceptedFact: "named_row (acceptedFact now l p)"
  by (simp add: named_row_def acceptedFact_def sign_accepted_def)

lemma provenAccepted_named: "provenAccepted key f \<Longrightarrow> named_row f"
  by (auto simp: provenAccepted_def named_row_def split: option.splits)

lemma accepted_named_record: "accepted_named l \<Longrightarrow> named_row f \<Longrightarrow> accepted_named (recordAccepted l f)"
  by (simp add: accepted_named_def)

lemma accepted_named_watch [simp]: "accepted_named (scheduleWatch l i u d) = accepted_named l"
  by (simp add: accepted_named_def)

lemma accepted_named_accept: "accepted_named l \<Longrightarrow> accepted_named (snd (accept now l p due))"
  by (simp add: accept_def Let_def accepted_named_record named_acceptedFact)

lemma accepted_rows_settle:
  "settle now l w secret = Some (out, l') \<Longrightarrow> accepted_rows l' = accepted_rows l"
  by (auto simp: settle_eq Let_def split: if_splits)

lemma accepted_rows_absorb_rest:
  "accepted_rows (absorb_outbox f l) = accepted_rows l" "accepted_rows (absorb_delivered g l) = accepted_rows l"
  "accepted_rows (fst (absorb_paid now p s)) = accepted_rows (fst s)" "accepted_rows (cover_one source m l) = accepted_rows l"
  by (simp_all add: absorb_outbox_def absorb_delivered_def absorb_paid_def cover_one_def case_prod_beta)

lemma accepted_rows_cover: "accepted_rows (cover through l) = accepted_rows l"
  unfolding cover_def
  by (rule fold_invariant [of "\<lambda>l'. accepted_rows l' = accepted_rows l"], rule refl,
      rule fold_invariant [of "\<lambda>l'. accepted_rows l' = accepted_rows l"])
    (simp_all add: accepted_rows_absorb_rest)

lemma accepted_named_absorb: "accepted_named l \<Longrightarrow> accepted_named (snd (absorb now l given through due))"
proof (rule absorb_invariant)
  show "accepted_named l' \<Longrightarrow> accepted_named (absorb_accepted due f l')" for f l'
    by (auto simp: absorb_accepted_def intro!: accepted_named_record provenAccepted_named)
qed (auto intro: accepted_named_rows accepted_rows_absorb_rest accepted_rows_cover)

lemma accepted_rows_owe [simp]: "accepted_rows (owe now m l) = accepted_rows l"
  by (simp add: owe_def split: option.split)

lemma accepted_rows_owe_missing: "accepted_rows (owe_missing now l) = accepted_rows l"
  unfolding owe_missing_def by (rule fold_invariant [of "\<lambda>l'. accepted_rows l' = accepted_rows l"]) simp_all

lemma accepted_named_sweep: "accepted_named l \<Longrightarrow> accepted_named (snd (sweep now l graceSecs keepSealedSecs))"
  by (simp add: accepted_named_def sweep_def Let_def case_prod_beta accepted_rows_owe_missing drop_requests_def
      drop_settled_def drop_outbox_def drop_watches_def keep_sealed_def announce_expired_def)

lemma accepted_named_open:
  assumes "accepted_named l"
  shows "accepted_named (open_ledger now pending key takeover backoff l)"
proof -
  have "accepted_named (resignUnderTheKeyWeHold
      (l\<lparr>cluster_key := key, takeoverAfterSecs := takeover, deliveryBackoffSecs := backoff\<rparr>))"
    using assms by (auto simp: accepted_named_def named_row_def resignUnderTheKeyWeHold_def resignEveryFact_def
        sign_accepted_def Let_def)
  then show ?thesis
    unfolding open_ledger_def retireTheWorklistWrittenBeforeAccepted_def
    by (cases pending) (auto intro!: fold_invariant [of accepted_named] accepted_named_accept split: option.split)
qed

lemma accepted_named_work: "ledger_work l l' \<Longrightarrow> accepted_named l \<Longrightarrow> accepted_named l'"
proof (induction rule: ledger_work.induct)
  case (settling now l watched secret out l')
  then show ?case using accepted_rows_settle accepted_named_rows by (cases out) blast
qed (auto simp: accepted_named_accept accepted_named_absorb accepted_named_open intro: accepted_named_rows
    simp: duePolls_def polled_def broughtForward_def dueDeliveries_def delivered_def undelivered_def claimKey_def
      take_claim_def fulfillKey_def releaseKey_def Let_def split: option.split list.split)

lemma accepted_named_reachable: "reachable l \<Longrightarrow> accepted_named l"
proof (induction rule: reachable.induct)
  case (opened now pending secret_key takeover backoff drawn)
  show ?case by (rule accepted_named_open) (simp add: accepted_named_def new_ledger_def)
next
  case (stepped l l')
  then show ?case by (auto elim!: ledger_stepE intro: accepted_named_work accepted_named_sweep)
qed

subsection \<open>A payment settled\<close>

lemma first_paid_rows: "paid_rows first_accepted = []"
proof -
  have "settled_view first_accepted = settled_view (new_ledger ''o'')"
    by (simp add: first_accepted_def first_ledger_def settled_view_def view_open [unfolded settled_view_def])
  then show ?thesis by (simp add: settled_view_def new_ledger_def)
qed

lemma first_settled_eq: "\<exists>given. settle 5 first_accepted first_payment (bytesToHex [1]) =
    Some ((withoutSecrets (first_payment\<lparr>pay_status := Paid, preimage := Some (bytesToHex [1])\<rparr>), given), first_settled)"
proof -
  from first_proves have "settle 5 first_accepted first_payment (bytesToHex [1]) \<noteq> None"
    by (simp only: settle_eq Let_def if_True not_True_eq_False if_False option.distinct(2) not_False_eq_True)
  then show ?thesis
    by (auto simp: first_settled_def settle_eq Let_def split: if_splits)
qed

lemma first_settled_shown:
  "settlement first_settled ''p'' =
     Some (withoutSecrets (first_payment\<lparr>pay_status := Paid, preimage := Some (bytesToHex [1])\<rparr>))"
proof -
  obtain given where *: "settle 5 first_accepted first_payment (bytesToHex [1]) =
      Some ((withoutSecrets (first_payment\<lparr>pay_status := Paid, preimage := Some (bytesToHex [1])\<rparr>), given), first_settled)"
    using first_settled_eq by blast
  have "settled_view first_settled = settled_view (recordPaid 5 first_accepted (paid_fact 5 first_accepted first_payment (bytesToHex [1])))"
    using * by (rule settled_view_settle)
  then have "settled_view first_settled = [(pay_id first_payment,
      public_text (withoutSecrets (first_payment\<lparr>pay_status := Paid, preimage := Some (bytesToHex [1])\<rparr>)))]"
    by (simp add: settled_view_def first_paid_rows insert_new_def)
  moreover have "pay_id first_payment = ''p''" by (simp add: first_payment_def)
  ultimately show ?thesis by (simp add: settlement_view)
qed

lemma reachable_ledger_ok_witness:
  "reachable first_settled \<and> authentic first_settled \<and> paid_rows first_settled \<noteq> [] \<and>
   sched_id ` set (schedule first_settled) \<inter> fact_id ` set (paid_rows first_settled) = {}"
proof -
  have r: "reachable first_settled" by (rule stepped [OF first_reachable first_step])
  have "paid_rows first_settled \<noteq> []"
    using first_settled_shown by (auto simp: settlement_def)
  then show ?thesis using r reachable_ledger_ok [OF r] by blast
qed

lemma settlement_stays_witness:
  "settlement (forget first_settled ''p'') ''p'' =
     Some (withoutSecrets (first_payment\<lparr>pay_status := Paid, preimage := Some (bytesToHex [1])\<rparr>)) \<or>
   (\<exists>now graceSecs keepSealedSecs r.
     forget first_settled ''p'' = snd (sweep now first_settled graceSecs keepSealedSecs) \<and>
     find (\<lambda>r. fact_id r = ''p'') (paid_rows first_settled) = Some r \<and> paid_settledAt r \<le> now - graceSecs)"
  by (rule settlement_stays [OF working [OF forgetting] first_settled_shown])

end
