(* ===== verification/LedgerMarks.thy ===== *)
theory LedgerMarks
  imports LedgerSteps
begin

text \<open>
  Sequence numbers and watermarks. A watermark never falls, and nothing at or below it ever
  comes back once it was swept; the facts an instance signs get numbers above its own mark, so
  it never signs two of them under one number as long as its peers hold nothing of its own that
  it has lost itself.
\<close>

definition keys_of :: "ledger \<Rightarrow> source \<Rightarrow> fact_key set" where
  "keys_of l source =
     (case source of
        AcceptedFact \<Rightarrow> key_of ` set (accepted_rows l) | PaidFact \<Rightarrow> key_of ` set (paid_rows l)
      | OutboxFact \<Rightarrow> key_of ` set (outbox_rows l) | DeliveredFact \<Rightarrow> key_of ` set (delivered_rows l))"

lemma keys_of_held: "(from, s) \<in> keys_of l source \<longleftrightarrow> s \<in> set (held_seqs l source from)"
  by (cases source) (simp_all add: keys_of_def held_seqs_key)

text \<open>What a mark says has been seen; numbers start at 1, so a mark below 0 says no more than 0.\<close>

definition seen_to :: "ledger \<Rightarrow> source \<Rightarrow> string \<Rightarrow> int" where
  "seen_to l source from = max 0 (markOf l source from)"

definition extends :: "ledger \<Rightarrow> ledger \<Rightarrow> bool" where
  "extends l l' \<longleftrightarrow>
     (\<forall>source from. seen_to l source from \<le> seen_to l' source from) \<and>
     (\<forall>source from s. (from, s) \<in> keys_of l' source \<longrightarrow>
        (from, s) \<in> keys_of l source \<or> seen_to l source from < s \<or> s \<le> 0)"

lemma extends_refl [simp]: "extends l l"
  by (simp add: extends_def)

lemma extends_trans [trans]:
  assumes "extends l l'" "extends l' l''"
  shows "extends l l''"
proof -
  have up: "seen_to l a b \<le> seen_to l' a b" "seen_to l' a b \<le> seen_to l'' a b" for a b
    using assms by (simp_all add: extends_def)
  moreover have "(b, s) \<in> keys_of l a \<or> seen_to l a b < s \<or> s \<le> 0" if "(b, s) \<in> keys_of l'' a" for a b s
    using assms that le_less_trans [OF up(1)] unfolding extends_def by blast
  ultimately show ?thesis unfolding extends_def by (meson order_trans)
qed

lemma extends_fold:
  assumes "\<And>x l'. extends l' (f x l')"
  shows "extends l (fold f xs l)"
  by (rule fold_invariant [of "extends l"]) (auto intro: extends_trans assms)

lemma markOf_update: "progress l' = progress l \<Longrightarrow> markOf l' source from = markOf l source from"
  by (simp add: markOf_def)

lemma extends_fewer:
  assumes "progress l' = progress l" "\<And>source. keys_of l' source \<subseteq> keys_of l source"
  shows "extends l l'"
  using assms(2) markOf_update [OF assms(1)] by (auto simp: extends_def seen_to_def)

lemma extends_same:
  "progress l' = progress l \<Longrightarrow> (\<And>source. keys_of l' source = keys_of l source) \<Longrightarrow>
     extends l l'"
  by (rule extends_fewer) auto

subsection \<open>Recording\<close>

lemma advance_from_ge: "mark \<le> advance_from seqs mark"
proof (induction seqs mark rule: advance_from.induct)
  case (1 seqs mark)
  then show ?case by (subst advance_from.simps) (auto split: if_splits)
qed

lemma advance_from_next: "mark + 1 \<in> set seqs \<Longrightarrow> mark + 1 \<le> advance_from seqs mark"
  using advance_from_ge [of "mark + 1" seqs] by (subst advance_from.simps) simp

lemma keys_of_advance [simp]: "keys_of (advance l source from) s = keys_of l s"
  by (simp add: keys_of_def split: source.split)

lemma markOf_raise:
  "markOf (l\<lparr>progress := raise_mark (source, from) m (progress l)\<rparr>) s f =
     (if (s, f) = (source, from) then (case map_of (progress l) (source, from) of None \<Rightarrow> m | Some k \<Rightarrow> max k m)
      else markOf l s f)"
  by (simp add: markOf_def map_of_raise_mark)

lemma markOf_advance:
  "markOf (advance l source from) s f =
     (if (s, f) = (source, from) then advance_from (held_seqs l source from) (markOf l source from) else markOf l s f)"
  using advance_from_ge [of "markOf l source from" "held_seqs l source from"]
  unfolding advance_def markOf_raise by (auto simp: markOf_def split: option.split)

lemma extends_advance: "extends l (advance l source from)"
  using advance_from_ge [of "markOf l source from" "held_seqs l source from"]
  by (auto simp: extends_def markOf_advance seen_to_def)

lemma keys_of_record:
  "keys_of (recordAccepted l a) s = (if s = AcceptedFact then insert (key_of a) (keys_of l s) else keys_of l s)"
  "keys_of (recordPaid now l p) s = (if s = PaidFact then insert (key_of p) (keys_of l s) else keys_of l s)"
  "keys_of (recordOutbox l ob due) s = (if s = OutboxFact then insert (key_of ob) (keys_of l s) else keys_of l s)"
  "keys_of (recordDelivered l d) s = (if s = DeliveredFact then insert (key_of d) (keys_of l s) else keys_of l s)"
  by (cases s; simp add: keys_of_def)+

text \<open>Every \<open>record\<close> operation is an insertion followed by an advance of the mark of the origin.\<close>

lemma markOf_advanced:
  assumes "progress l' = progress l"
  shows "markOf (advance l' source from) s f =
     (if (s, f) = (source, from) then advance_from (held_seqs l' s f) (markOf l s f) else markOf l s f)"
  by (simp add: markOf_advance markOf_update [OF assms])

lemma markOf_record:
  "markOf (recordAccepted l a) s f = (if (s, f) = (AcceptedFact, fact_origin a)
     then advance_from (held_seqs (l\<lparr>accepted_rows := insert_new key_of a (accepted_rows l)\<rparr>) s f) (markOf l s f) else markOf l s f)"
  "markOf (recordPaid now l p) s f = (if (s, f) = (PaidFact, fact_origin p)
     then advance_from (held_seqs (l\<lparr>paid_rows := insert_new key_of (paid_row_of now p) (paid_rows l)\<rparr>) s f) (markOf l s f)
     else markOf l s f)"
  "markOf (recordOutbox l ob due) s f = (if (s, f) = (OutboxFact, fact_origin ob)
     then advance_from (held_seqs (l\<lparr>outbox_rows := insert_new key_of
       (outbox_row_of ob due (retryUntil l (fact_id ob) (outbox_owedAt ob))) (outbox_rows l)\<rparr>) s f) (markOf l s f)
     else markOf l s f)"
  "markOf (recordDelivered l d) s f = (if (s, f) = (DeliveredFact, fact_origin d)
     then advance_from (held_seqs (l\<lparr>delivered_rows := insert_new key_of d (delivered_rows l)\<rparr>) s f) (markOf l s f)
     else markOf l s f)"
  unfolding recordAccepted_def recordPaid_def recordOutbox_def recordDelivered_def
  by (rule markOf_advanced, simp)+

lemma markOf_record_ge:
  "markOf l s f \<le> markOf (recordAccepted l a) s f" "markOf l s f \<le> markOf (recordPaid now l p) s f"
  "markOf l s f \<le> markOf (recordOutbox l ob due) s f" "markOf l s f \<le> markOf (recordDelivered l d) s f"
  unfolding markOf_record by (simp_all add: advance_from_ge)

definition above_mark :: "ledger \<Rightarrow> source \<Rightarrow> 'a fact_scheme \<Rightarrow> bool" where
  "above_mark l source f \<longleftrightarrow> markOf l source (fact_origin f) < fact_seq f"

lemma not_known_above: "\<not> known l source f \<Longrightarrow> above_mark l source f"
  by (simp add: known_def above_mark_def)

lemma extends_insert:
  assumes "\<And>source from. markOf l source from \<le> markOf l' source from"
    and "\<And>s. keys_of l' s = (if s = source then insert (key_of f) (keys_of l s) else keys_of l s)"
    and "above_mark l source f"
  shows "extends l l'"
proof -
  have "seen_to l a b \<le> seen_to l' a b" for a b
    using assms(1) [of a b] by (simp add: seen_to_def)
  then show ?thesis
    using assms(3) by (auto simp: extends_def assms(2) seen_to_def above_mark_def key_of_def split: if_splits)
qed

lemma extends_record:
  "above_mark l AcceptedFact a \<Longrightarrow> extends l (recordAccepted l a)"
  "above_mark l PaidFact p \<Longrightarrow> extends l (recordPaid now l p)"
  "above_mark l OutboxFact ob \<Longrightarrow> extends l (recordOutbox l ob due)"
  "above_mark l DeliveredFact d \<Longrightarrow> extends l (recordDelivered l d)"
  by (rule extends_insert, rule markOf_record_ge, rule keys_of_record, assumption)+

lemma keys_of_frame:
  "keys_of (scheduleWatch l i u d) = keys_of l" "keys_of (forget l i) = keys_of l"
  by (simp_all add: keys_of_def fun_eq_iff split: source.split)

lemma extends_watch [simp]: "extends l (scheduleWatch l i u d)" "extends l (forget l i)"
  by (rule extends_same; simp add: keys_of_frame)+

subsection \<open>Operations\<close>

lemma signed_above_mark:
  "above_mark l AcceptedFact (acceptedFact now l p)" "above_mark l OutboxFact (owedFact l i hook body owedAt)"
  "above_mark l PaidFact (paid_fact now l w secret)"
  using nextSeq_mark by (simp_all add: above_mark_def acceptedFact_def sign_accepted_def)

lemma extends_recorded:
  "above_mark l AcceptedFact a \<Longrightarrow> extends l (scheduleWatch (recordAccepted l a) i u d)"
  "above_mark l PaidFact p \<Longrightarrow> extends l (forget (recordPaid now l p) i)"
  by (rule extends_trans, rule extends_record, assumption, rule extends_watch)+

lemma extends_accept: "extends l (snd (accept now l p due))"
  unfolding accept_def Let_def snd_conv by (cases "readPayment now l (pay_id p)") (simp_all add: extends_recorded signed_above_mark)

lemma extends_owe_each: "extends l (snd (owe_each i body owedAt hooks l))"
proof (induction hooks arbitrary: l)
  case (Cons hook hooks)
  show ?case
    using extends_trans [OF extends_record(3) [OF signed_above_mark(2)] Cons] by (simp add: Let_def case_prod_beta)
qed simp

lemma extends_settle:
  assumes "settle now l w secret = Some (out, l')"
  shows "extends l l'"
proof -
  have "extends l (recordPaid now l (paid_fact now l w secret))" by (rule extends_record, rule signed_above_mark)
  also have "extends \<dots> (forget (recordPaid now l (paid_fact now l w secret)) (pay_id w))" by simp
  finally show ?thesis
    using assms by (auto simp: settle_eq Let_def intro: extends_trans extends_owe_each split: if_splits)
qed

lemma extends_delivered: "extends l (snd (delivered now l owed))"
  using nextSeq_mark
  by (simp add: delivered_def Let_def) (rule extends_record, simp add: above_mark_def sign_delivered_def)

lemma extends_requests: "extends l (l\<lparr>requests := rs\<rparr>)" "extends l (l\<lparr>schedule := ss\<rparr>)"
  by (rule extends_same; simp add: keys_of_def split: source.split)+

lemma keys_of_outbox_update:
  assumes "\<And>r. key_of (f r) = key_of r"
  shows "keys_of (l\<lparr>outbox_rows := update_where P f (outbox_rows l)\<rparr>) source = keys_of l source"
proof -
  have "key_of ` set (update_where P f (outbox_rows l)) = key_of ` set (outbox_rows l)"
    using update_where_key [of key_of f P "outbox_rows l", OF assms] by (metis list.set_map)
  then show ?thesis by (simp add: keys_of_def split: source.split)
qed

lemma extends_outbox_update:
  "(\<And>r. key_of (f r) = key_of r) \<Longrightarrow> extends l (l\<lparr>outbox_rows := update_where P f (outbox_rows l)\<rparr>)"
  by (rule extends_same) (simp_all add: keys_of_outbox_update)

lemma extends_small:
  "extends l (snd (duePolls now l limit lease))" "extends l (polled l i due')" "extends l (broughtForward l i due)"
  "extends l (snd (dueDeliveries now l limit lease))" "extends l (snd (undelivered now l owed))"
  "extends l (snd (claimKey now l key print lease))" "extends l (fulfillKey l key i)" "extends l (releaseKey l key)"
  by (auto simp: duePolls_def polled_def broughtForward_def dueDeliveries_def undelivered_def claimKey_def take_claim_def
      fulfillKey_def releaseKey_def Let_def extends_requests extends_outbox_update split: option.split list.split)

lemma extends_absorb_one:
  "extends l (absorb_accepted due a l)" "extends l (absorb_outbox ob l)" "extends l (absorb_delivered d l)"
  "extends (fst s) (fst (absorb_paid now p s))"
  by (auto simp: absorb_accepted_def absorb_outbox_def absorb_delivered_def absorb_paid_def case_prod_beta
      intro: extends_recorded extends_record not_known_above)

lemma extends_raise: "extends l (l\<lparr>progress := raise_mark (source, from) m (progress l)\<rparr>)"
proof -
  have keys: "keys_of (l\<lparr>progress := raise_mark (source, from) m (progress l)\<rparr>) s = keys_of l s" for s
    by (simp add: keys_of_def split: source.split)
  have "seen_to l s f \<le> seen_to (l\<lparr>progress := raise_mark (source, from) m (progress l)\<rparr>) s f" for s f
    unfolding seen_to_def markOf_raise by (auto simp: markOf_def split: option.split)
  then show ?thesis by (simp add: extends_def keys)
qed

lemma extends_cover: "extends l (cover through l)"
  unfolding cover_def
  by (intro extends_fold) (auto simp: cover_one_def intro: extends_trans extends_raise extends_advance split: prod.split)

lemma extends_absorb: "extends l (snd (absorb now l given through due))"
proof -
  define l1 where "l1 = fold (absorb_accepted due) (inSeqOrder (accepted_facts given)) l"
  define l2 where "l2 = fst (fold (absorb_paid now) (inSeqOrder (paid_facts given)) (l1, []))"
  define l3 where "l3 = fold absorb_outbox (inSeqOrder (outbox_facts given)) l2"
  define l4 where "l4 = fold absorb_delivered (inSeqOrder (delivered_facts given)) l3"
  have "extends l l1" unfolding l1_def by (rule extends_fold, rule extends_absorb_one)
  also have "extends l1 l2"
    unfolding l2_def
    by (rule fold_invariant [of "\<lambda>s. extends l1 (fst s)"]) (auto intro: extends_trans extends_absorb_one)
  also have "extends l2 l3" unfolding l3_def by (rule extends_fold, rule extends_absorb_one)
  also have "extends l3 l4" unfolding l4_def by (rule extends_fold, rule extends_absorb_one)
  also have "extends l4 (snd (absorb now l given through due))"
    by (simp add: absorb_eq Let_def extends_cover flip: l1_def l2_def l3_def l4_def split: option.split)
  finally show ?thesis .
qed

lemma extends_owe: "extends l (owe now m l)"
  by (simp add: owe_def extends_record signed_above_mark split: option.split)

lemma extends_dropped:
  "extends l (snd (announce_expired now l))" "extends l (keep_sealed now horizon secs l)"
  "extends l (drop_watches horizon l)" "extends l (drop_outbox horizon l)" "extends l (drop_settled horizon l)"
  "extends l (drop_requests now l)"
  by (rule extends_fewer; auto simp: announce_expired_def keep_sealed_def drop_watches_def drop_outbox_def
      drop_settled_def drop_requests_def keys_of_def split: source.splits)+

lemma extends_sweep: "extends l (snd (sweep now l graceSecs keepSealedSecs))"
proof -
  have owed: "extends l' (owe_missing now l')" for l'
    unfolding owe_missing_def by (rule extends_fold, rule extends_owe)
  show ?thesis
    unfolding sweep_def Let_def case_prod_beta snd_conv
    by (rule extends_trans [OF _ owed], rule extends_trans [OF _ extends_dropped(6)],
        rule extends_trans [OF _ extends_dropped(5)], rule extends_trans [OF _ extends_dropped(4)],
        rule extends_trans [OF _ extends_dropped(3)], rule extends_trans [OF _ extends_dropped(2)],
        rule extends_dropped)
qed

lemma extends_resigned:
  "extends l (resignUnderTheKeyWeHold (l\<lparr>cluster_key := key, takeoverAfterSecs := a, deliveryBackoffSecs := b\<rparr>))"
  by (rule extends_same)
    (simp_all add: resignUnderTheKeyWeHold_def resignEveryFact_def Let_def keys_of_def image_image split: source.split)

lemma extends_open: "extends l (open_ledger now pending key takeover backoff l)"
proof -
  have retired: "extends l' (retireTheWorklistWrittenBeforeAccepted now pending l')" for l'
    unfolding retireTheWorklistWrittenBeforeAccepted_def
    by (cases pending) (auto intro!: extends_fold extends_accept split: option.split prod.split)
  show ?thesis
    unfolding open_ledger_def by (rule extends_trans [OF extends_resigned retired])
qed

lemma extends_work: "ledger_work l l' \<Longrightarrow> extends l l'"
  by (induction rule: ledger_work.induct)
    (simp_all add: extends_accept extends_watch extends_small extends_delivered extends_absorb extends_open extends_settle)

lemma extends_step: "ledger_step l l' \<Longrightarrow> extends l l'"
  by (erule ledger_stepE) (auto intro: extends_work extends_sweep)

text \<open>
  C10: what was swept stays swept. However long an instance goes on, its watermarks never
  fall, and a fact it has seen and no longer holds never enters its tables again, whatever peers
  replay to it.
\<close>

theorem swept_stays_swept:
  assumes "ledger_step\<^sup>*\<^sup>* l l'"
  shows "(\<forall>source from. seen_to l source from \<le> seen_to l' source from) \<and>
    \<not> (\<exists>source from s. 0 < s \<and> s \<le> seen_to l source from \<and>
         s \<notin> set (held_seqs l source from) \<and> s \<in> set (held_seqs l' source from))"
proof -
  have "extends l l'"
    using assms by (induction rule: rtranclp_induct) (auto intro: extends_trans extends_step)
  then show ?thesis unfolding extends_def keys_of_held by fastforce
qed

text \<open>
  The first payment is swept once it has expired, and then a peer replays the very fact that told of it: the
  number is behind the mark, no row has it, and the replay brings none back.
\<close>

definition swept_ledger :: ledger where
  "swept_ledger = snd (sweep 10000 first_accepted 0 0)"

definition replayed_ledger :: ledger where
  "replayed_ledger = snd (absorb 10001 swept_ledger (no_facts\<lparr>accepted_facts := accepted_rows first_accepted\<rparr>) None (\<lambda>_. 10002))"

lemma first_ledger_empty:
  "accepted_rows first_ledger = []" "paid_rows first_ledger = []" "outbox_rows first_ledger = []" "delivered_rows first_ledger = []"
  "schedule first_ledger = []" "progress first_ledger = []" "self_origin first_ledger = ''o''"
  by (simp_all add: first_ledger_def open_ledger_def retireTheWorklistWrittenBeforeAccepted_def resignUnderTheKeyWeHold_def
      resignEveryFact_def new_ledger_def Let_def)

lemma first_fact [simp]:
  "fact_origin (acceptedFact 2 first_ledger p) = ''o''" "fact_seq (acceptedFact 2 first_ledger p) = 1"
  "fact_id (acceptedFact 2 first_ledger p) = pay_id p" "accepted_payment (acceptedFact 2 first_ledger p) = payment_text p"
  "accepted_expiresAt (acceptedFact 2 first_ledger p) = expiresAt p"
  by (simp_all add: acceptedFact_def sign_accepted_def first_ledger_empty nextSeq_def held_seqs_def markOf_def)

lemma first_accepted_eq:
  "first_accepted = scheduleWatch (recordAccepted first_ledger (acceptedFact 2 first_ledger first_payment))
     (pay_id first_payment) (expiresAt first_payment) 3"
  by (simp add: first_accepted_def accept_def Let_def readPayment_def groupById_def inSeqOrder_def first_ledger_empty)

lemma first_accepted_rows: "accepted_rows first_accepted = [acceptedFact 2 first_ledger first_payment]"
  by (simp add: first_accepted_eq first_ledger_empty insert_new_def)

lemma first_accepted_seen: "1 \<le> seen_to first_accepted AcceptedFact ''o''"
proof -
  have "markOf first_ledger AcceptedFact ''o'' + 1 \<le> markOf (recordAccepted first_ledger (acceptedFact 2 first_ledger first_payment)) AcceptedFact ''o''"
    unfolding markOf_record by (simp, rule advance_from_next) (simp add: held_seqs_def first_ledger_empty insert_new_def markOf_def)
  then show ?thesis by (simp add: first_accepted_eq seen_to_def markOf_def first_ledger_empty)
qed

lemma first_accepted_read: "readPayment 5 first_accepted ''p'' = Some first_payment"
proof -
  have "pay_id first_payment = ''p''" "expiresAt first_payment = 100" "pay_status first_payment = Pending" by (simp_all add: first_payment_def)
  then show ?thesis
    by (simp add: readPayment_def groupById_def inSeqOrder_def first_accepted_rows revive_def oneFromEvery_def withStatus_def)
qed

lemma swept_ledger_rows: "accepted_rows swept_ledger = []"
proof -
  have "expiresAt first_payment = 100" by (simp add: first_payment_def)
  then show ?thesis
    by (simp add: swept_ledger_def sweep_def case_prod_beta Let_def accepted_rows_owe_missing drop_requests_def drop_settled_def
        drop_outbox_def drop_watches_def keep_sealed_def announce_expired_def delete_where_def first_accepted_rows)
qed

lemma swept_stays_swept_witness:
  "reachable first_accepted \<and> ledger_step\<^sup>*\<^sup>* first_accepted swept_ledger \<and>
   1 \<in> set (held_seqs first_accepted AcceptedFact ''o'') \<and> 1 \<notin> set (held_seqs swept_ledger AcceptedFact ''o'') \<and>
   1 \<le> seen_to swept_ledger AcceptedFact ''o'' \<and> ledger_step\<^sup>*\<^sup>* swept_ledger replayed_ledger \<and>
   1 \<notin> set (held_seqs replayed_ledger AcceptedFact ''o'')"
proof -
  have there: "1 \<in> set (held_seqs first_accepted AcceptedFact ''o'')" by (simp add: held_seqs_def first_accepted_rows)
  have gone: "1 \<notin> set (held_seqs swept_ledger AcceptedFact ''o'')" by (simp add: held_seqs_def swept_ledger_rows)
  have "extends first_accepted swept_ledger" unfolding swept_ledger_def by (rule extends_sweep)
  then have seen: "1 \<le> seen_to swept_ledger AcceptedFact ''o''"
    using first_accepted_seen unfolding extends_def by (meson order_trans)
  have swept: "ledger_step\<^sup>*\<^sup>* first_accepted swept_ledger"
    unfolding swept_ledger_def by (rule r_into_rtranclp, rule sweeping)
  have replayed: "ledger_step\<^sup>*\<^sup>* swept_ledger replayed_ledger"
    unfolding replayed_ledger_def by (rule r_into_rtranclp, rule working, rule absorbing)
  have "1 \<notin> set (held_seqs replayed_ledger AcceptedFact ''o'')"
    using swept_stays_swept [OF replayed] seen gone by force
  then show ?thesis using first_reachable there gone seen swept replayed by blast
qed

end
