(* ===== verification/CatchUp.thy ===== *)
theory CatchUp
  imports Gossip LedgerMarks
begin

text \<open>
  How one instance catches up with another over the notes of theory Gossip. The interface is a
  locale: what a replica promises of its marks, of the facts it hands out past the marks of a
  peer, and of what it absorbs. From these laws follows that a conversation ends after a
  bounded number of notes with every mark of the sender reached. The second half proves the laws
  for the ledger; the store interprets the locale.
\<close>

subsection \<open>Marks\<close>

definition marks_ok :: "watermarks \<Rightarrow> bool" where
  "marks_ok marks \<longleftrightarrow> (\<forall>source. distinct (map fst (marks source)) \<and> (\<forall>m\<in>set (map snd (marks source)). 0 \<le> m))"

lemma seen_mark_in: "marks_ok marks \<Longrightarrow> (from, m) \<in> set (marks source) \<Longrightarrow> seen_mark (marks source) from = m"
  by (simp add: marks_ok_def seen_mark_def)

lemma seen_mark_nonneg: "marks_ok marks \<Longrightarrow> 0 \<le> seen_mark (marks source) from"
  by (fastforce simp: marks_ok_def seen_mark_def split: option.split dest: map_of_SomeD)

lemma sum_marks:
  assumes "distinct (map fst ms)" "finite K" "fst ` set ms \<subseteq> K"
  shows "sum_list (map snd ms) = (\<Sum>from\<in>K. seen_mark ms from)"
proof -
  have "sum_list (map snd ms) = (\<Sum>from\<in>fst ` set ms. seen_mark ms from)"
    using assms(1)
  proof (induction ms)
    case (Cons m ms)
    have "(\<Sum>from\<in>fst ` set ms. seen_mark (m # ms) from) = (\<Sum>from\<in>fst ` set ms. seen_mark ms from)"
      using Cons.prems by (intro sum.cong) (auto simp: seen_mark_def image_iff)
    moreover have "seen_mark (m # ms) (fst m) = snd m" by (simp add: seen_mark_def)
    ultimately show ?case using Cons by simp
  qed (simp add: seen_mark_def)
  also have "\<dots> = (\<Sum>from\<in>K. seen_mark ms from)"
  proof (rule sum.mono_neutral_left)
    show "\<forall>from\<in>K - fst ` set ms. seen_mark ms from = 0"
      by (auto simp: seen_mark_def map_of_eq_None_iff split: option.split)
        (metis fst_conv image_eqI map_of_SomeD)
  qed (use assms in auto)
  finally show ?thesis .
qed

lemma reach_sum:
  assumes "marks_ok marks" "finite K" "\<And>source. fst ` set (marks source) \<subseteq> K"
  shows "reach marks = (\<Sum>source\<in>set SOURCES. \<Sum>from\<in>K. seen_mark (marks source) from)"
proof -
  have "sum_list (map snd (marks source)) = (\<Sum>from\<in>K. seen_mark (marks source) from)" for source
    using assms by (intro sum_marks) (auto simp: marks_ok_def)
  then show ?thesis by (simp add: reach_def SOURCES_def)
qed

lemma all_sources [simp]: "source \<in> set SOURCES"
  by (cases source) (simp_all add: SOURCES_def)

lemma reach_grows:
  assumes ok: "marks_ok marks" "marks_ok marks'"
    and up: "\<And>source from. seen_mark (marks source) from \<le> seen_mark (marks' source) from"
    and strict: "seen_mark (marks source) from < seen_mark (marks' source) from"
  shows "reach marks < reach marks'"
proof -
  define K where "K = insert from (\<Union>s\<in>set SOURCES. fst ` set (marks s) \<union> fst ` set (marks' s))"
  have fin: "finite K" by (simp add: K_def)
  have sub: "fst ` set (marks s) \<subseteq> K" "fst ` set (marks' s) \<subseteq> K" for s
    using all_sources [of s] unfolding K_def by blast+
  have inner: "(\<Sum>f\<in>K. seen_mark (marks source) f) < (\<Sum>f\<in>K. seen_mark (marks' source) f)"
    using fin up strict by (intro sum_strict_mono_ex1) (auto simp: K_def)
  have "(\<Sum>s\<in>set SOURCES. \<Sum>f\<in>K. seen_mark (marks s) f) < (\<Sum>s\<in>set SOURCES. \<Sum>f\<in>K. seen_mark (marks' s) f)"
  proof (rule sum_strict_mono_ex1)
    show "\<forall>s\<in>set SOURCES. (\<Sum>f\<in>K. seen_mark (marks s) f) \<le> (\<Sum>f\<in>K. seen_mark (marks' s) f)"
      using up by (auto intro: sum_mono)
    show "\<exists>s\<in>set SOURCES. (\<Sum>f\<in>K. seen_mark (marks s) f) < (\<Sum>f\<in>K. seen_mark (marks' s) f)"
      using inner all_sources by blast
  qed simp
  then show ?thesis
    by (simp add: reach_sum [OF ok(1) fin sub(1)] reach_sum [OF ok(2) fin sub(2)])
qed

text \<open>What one replica still lacks of another: the marks of the other that are above its own.\<close>

definition lacks :: "watermarks \<Rightarrow> watermarks \<Rightarrow> source \<Rightarrow> string \<Rightarrow> int \<Rightarrow> bool" where
  "lacks theirs mine source from held \<longleftrightarrow>
     (from, held) \<in> set (mine source) \<and> seen_mark (theirs source) from < held"

definition distance :: "watermarks \<Rightarrow> watermarks \<Rightarrow> nat" where
  "distance theirs mine =
     sum_list (concat (map (\<lambda>source. map (\<lambda>(from, held). nat (held - seen_mark (theirs source) from)) (mine source)) SOURCES))"

lemma sum_list_le: "(\<And>x. x \<in> set xs \<Longrightarrow> f x \<le> g x) \<Longrightarrow> sum_list (map f xs) \<le> (sum_list (map g xs) :: nat)"
  by (induction xs) (auto intro: add_mono)

lemma sum_list_less:
  "(\<And>x. x \<in> set xs \<Longrightarrow> f x \<le> g x) \<Longrightarrow> y \<in> set xs \<Longrightarrow> f y < g y \<Longrightarrow> sum_list (map f xs) < (sum_list (map g xs) :: nat)"
proof (induction xs)
  case (Cons x xs)
  have rest: "sum_list (map f xs) \<le> sum_list (map g xs)" by (rule sum_list_le) (simp add: Cons.prems(1))
  show ?case
  proof (cases "y = x")
    case True
    then show ?thesis using rest Cons.prems(3) by (simp add: add_less_le_mono)
  next
    case False
    then have "sum_list (map f xs) < sum_list (map g xs)" using Cons by simp
    then show ?thesis using Cons.prems(1) [of x] by (simp add: add_le_less_mono)
  qed
qed simp

lemma distance_sum:
  "distance theirs mine = sum_list (map (\<lambda>(source, from, held). nat (held - seen_mark (theirs source) from))
     (concat (map (\<lambda>source. map (Pair source) (mine source)) SOURCES)))"
  by (simp add: distance_def map_concat comp_def split_def)

lemma distance_shrinks:
  assumes up: "\<And>source from. seen_mark (theirs source) from \<le> seen_mark (theirs' source) from"
    and "lacks theirs mine source from held" "seen_mark (theirs source) from < seen_mark (theirs' source) from"
  shows "distance theirs' mine < distance theirs mine"
  unfolding distance_sum
proof (rule sum_list_less)
  show "(source, from, held) \<in> set (concat (map (\<lambda>source. map (Pair source) (mine source)) SOURCES))"
    using assms(2) by (auto simp: lacks_def)
  show "(case (source, from, held) of (source, from, held) \<Rightarrow> nat (held - seen_mark (theirs' source) from))
      < (case (source, from, held) of (source, from, held) \<Rightarrow> nat (held - seen_mark (theirs source) from))"
    using assms(2,3) by (simp add: lacks_def)
qed (use up in \<open>auto intro: nat_mono diff_left_mono\<close>)

subsection \<open>The interface of a replica\<close>

locale replica =
  fixes g :: "'s gossip" and good :: "'s \<Rightarrow> bool"
  assumes good_marks: "good s \<Longrightarrow> marks_ok (marks_now g s)"
    and good_facts: "good s \<Longrightarrow> marks_ok through \<Longrightarrow> good (on_facts g given (Some through) s)"
    and marks_rise: "good s \<Longrightarrow> marks_ok through \<Longrightarrow>
      seen_mark (marks_now g s source) from \<le> seen_mark (marks_now g (on_facts g given (Some through) s) source) from"
    and marks_reach: "good s \<Longrightarrow> marks_ok through \<Longrightarrow> (from, m) \<in> set (through source) \<Longrightarrow> from \<noteq> gossip_self g \<Longrightarrow>
      is_safe_integer m \<Longrightarrow> m \<le> seen_mark (marks_now g (on_facts g given (Some through) s) source) from"
    and since_through: "good s \<Longrightarrow> marks_ok theirs \<Longrightarrow> marks_ok (caught_through (since_marks g theirs s))"
    and since_lacking: "good s \<Longrightarrow> marks_ok theirs \<Longrightarrow> lacks theirs (marks_now g s) source from held \<Longrightarrow>
      \<exists>m. (from, m) \<in> set (caught_through (since_marks g theirs s) source) \<and> seen_mark (theirs source) from < m \<and>
        m \<le> held \<and> (caught_more (since_marks g theirs s) \<or> m = held)"
    and since_more: "good s \<Longrightarrow> caught_more (since_marks g theirs s) \<Longrightarrow>
      \<exists>source from held. lacks theirs (marks_now g s) source from held"
    and converged_marks: "marks_now g (on_converged g s) = marks_now g s"

text \<open>
  One exchange: the receiver sends the marks it has, the sender answers, the receiver takes the
  answer in and may ask again. \<open>catch_up\<close> repeats it, at most as often as its fuel allows;
  \<^const>\<open>True\<close> says the receiver asked no more.
\<close>

definition exchange :: "'s gossip \<Rightarrow> 's \<Rightarrow> 't gossip \<Rightarrow> 't \<Rightarrow> bool \<times> 't" where
  "exchange ga a gb b =
     (case receive ga (Have (marks_now gb b)) (gossip_self gb) a of
        Inr ([answer], _) \<Rightarrow>
          (case receive gb answer (gossip_self ga) b of
             Inr (asked, b') \<Rightarrow> (asked \<noteq> [], b')
           | Inl _ \<Rightarrow> (False, b))
      | _ \<Rightarrow> (False, b))"

fun catch_up :: "'s gossip \<Rightarrow> 's \<Rightarrow> 't gossip \<Rightarrow> nat \<Rightarrow> 't \<Rightarrow> bool \<times> 't" where
  "catch_up ga a gb 0 b = (False, b)"
| "catch_up ga a gb (Suc fuel) b =
     (case exchange ga a gb b of (again, b') \<Rightarrow> if again then catch_up ga a gb fuel b' else (True, b'))"

lemma exchange_eq:
  "exchange ga a gb b =
     (let c = since_marks ga (marks_now gb b) a; b' = on_facts gb (caught_facts c) (Some (caught_through c)) b
      in if \<not> caught_more c then (False, on_converged gb b') else (reach (marks_now gb b) < reach (marks_now gb b'), b'))"
  by (simp add: exchange_def receive_def note_of_def Let_def)

locale replicas = sender: replica ga good_a + taker: replica gb good_b
  for ga :: "'s gossip" and good_a and gb :: "'t gossip" and good_b
begin

definition caught_up :: "'s \<Rightarrow> 't \<Rightarrow> bool" where
  "caught_up a b \<longleftrightarrow>
     (\<forall>source origin. seen_mark (marks_now ga a source) origin \<le> seen_mark (marks_now gb b source) origin)"

lemma exchange_progress:
  assumes good: "good_a a" "good_b b"
    and safe: "\<And>source origin m. (origin, m) \<in> set (marks_now ga a source) \<Longrightarrow> is_safe_integer m"
    and own: "\<And>source. seen_mark (marks_now ga a source) (gossip_self gb) \<le> seen_mark (marks_now gb b source) (gossip_self gb)"
  defines "c \<equiv> since_marks ga (marks_now gb b) a"
  defines "b' \<equiv> on_facts gb (caught_facts c) (Some (caught_through c)) b"
  shows "good_b b' \<and>
    (\<forall>source origin. seen_mark (marks_now gb b source) origin \<le> seen_mark (marks_now gb b' source) origin) \<and>
    (if caught_more c
     then reach (marks_now gb b) < reach (marks_now gb b') \<and>
       distance (marks_now gb b') (marks_now ga a) < distance (marks_now gb b) (marks_now ga a)
     else caught_up a b')"
proof -
  have okb: "marks_ok (marks_now gb b)" and oka: "marks_ok (marks_now ga a)"
    using good taker.good_marks sender.good_marks by auto
  then have okt: "marks_ok (caught_through c)" using good(1) sender.since_through by (simp add: c_def)
  then have goodb: "good_b b'" using good(2) taker.good_facts by (simp add: b'_def)
  then have okb': "marks_ok (marks_now gb b')" by (rule taker.good_marks)
  have up: "seen_mark (marks_now gb b source) origin \<le> seen_mark (marks_now gb b' source) origin" for source origin
    using taker.marks_rise [OF good(2) okt] by (simp add: b'_def)
  have taken: "\<exists>m. seen_mark (marks_now gb b source) origin < m \<and> m \<le> seen_mark (marks_now gb b' source) origin \<and>
      (caught_more c \<or> m = held)" if l: "lacks (marks_now gb b) (marks_now ga a) source origin held" for source origin held
  proof -
    obtain m where m: "(origin, m) \<in> set (caught_through c source)" "seen_mark (marks_now gb b source) origin < m"
        "m \<le> held" "caught_more c \<or> m = held"
      using sender.since_lacking [OF good(1) okb l] by (auto simp: c_def)
    have held: "(origin, held) \<in> set (marks_now ga a source)" using l by (simp add: lacks_def)
    then have "is_safe_integer m"
      using safe [OF held] m(2,3) seen_mark_nonneg [OF okb, of source origin] by (auto simp: is_safe_integer_def)
    moreover have "origin \<noteq> gossip_self gb"
    proof
      assume "origin = gossip_self gb"
      then show False using own [of source] seen_mark_in [OF oka held] l by (simp add: lacks_def)
    qed
    ultimately show ?thesis
      using taker.marks_reach [OF good(2) okt m(1)] m(2,4) unfolding b'_def by blast
  qed
  have "if caught_more c
     then reach (marks_now gb b) < reach (marks_now gb b') \<and>
       distance (marks_now gb b') (marks_now ga a) < distance (marks_now gb b) (marks_now ga a)
     else caught_up a b'"
  proof (cases "caught_more c")
    case True
    then obtain source origin held where l: "lacks (marks_now gb b) (marks_now ga a) source origin held"
      using sender.since_more [OF good(1), of "marks_now gb b"] unfolding c_def by blast
    then have "seen_mark (marks_now gb b source) origin < seen_mark (marks_now gb b' source) origin"
      using taken [OF l] by auto
    then show ?thesis
      using True reach_grows [OF okb okb' up] distance_shrinks [OF up l] by simp
  next
    case False
    have "seen_mark (marks_now ga a source) origin \<le> seen_mark (marks_now gb b' source) origin" for source origin
    proof (cases "\<exists>held. lacks (marks_now gb b) (marks_now ga a) source origin held")
      case True
      then obtain held where l: "lacks (marks_now gb b) (marks_now ga a) source origin held" by blast
      then have "seen_mark (marks_now ga a source) origin = held" using seen_mark_in [OF oka] by (simp add: lacks_def)
      then show ?thesis using taken [OF l] False by auto
    next
      case lacking: False
      have "seen_mark (marks_now ga a source) origin \<le> seen_mark (marks_now gb b source) origin"
      proof (cases "map_of (marks_now ga a source) origin")
        case None
        then show ?thesis using seen_mark_nonneg [OF okb] by (simp add: seen_mark_def [of "marks_now ga a source"])
      next
        case (Some m)
        then have "\<not> seen_mark (marks_now gb b source) origin < m"
          using lacking map_of_SomeD by (fastforce simp: lacks_def)
        then show ?thesis using Some by (simp add: seen_mark_def [of "marks_now ga a source"])
      qed
      then show ?thesis using up order_trans by blast
    qed
    then show ?thesis using False by (simp add: caught_up_def)
  qed
  then show ?thesis using goodb up by blast
qed

lemma catch_up_ends:
  assumes "good_a a" "good_b b"
    and safe: "\<And>source origin m. (origin, m) \<in> set (marks_now ga a source) \<Longrightarrow> is_safe_integer m"
    and "\<And>source. seen_mark (marks_now ga a source) (gossip_self gb) \<le> seen_mark (marks_now gb b source) (gossip_self gb)"
    and "distance (marks_now gb b) (marks_now ga a) < fuel"
  shows "\<exists>b'. catch_up ga a gb fuel b = (True, b') \<and> caught_up a b'"
  using assms(2,4,5)
proof (induction fuel arbitrary: b)
  case (Suc fuel)
  define c where "c = since_marks ga (marks_now gb b) a"
  define b' where "b' = on_facts gb (caught_facts c) (Some (caught_through c)) b"
  note progress = exchange_progress [OF assms(1) Suc.prems(1) safe Suc.prems(2), folded c_def, folded b'_def]
  have ex: "exchange ga a gb b =
      (if \<not> caught_more c then (False, on_converged gb b') else (reach (marks_now gb b) < reach (marks_now gb b'), b'))"
    by (simp add: exchange_eq Let_def flip: c_def b'_def)
  show ?case
  proof (cases "caught_more c")
    case True
    have own: "seen_mark (marks_now ga a source) (gossip_self gb) \<le> seen_mark (marks_now gb b' source) (gossip_self gb)" for source
      by (rule order_trans [OF Suc.prems(2)]) (simp add: progress)
    have "good_b b'" "reach (marks_now gb b) < reach (marks_now gb b')"
        "distance (marks_now gb b') (marks_now ga a) < distance (marks_now gb b) (marks_now ga a)"
      using progress True by simp_all
    then have "exchange ga a gb b = (True, b')" "distance (marks_now gb b') (marks_now ga a) < fuel"
      using True Suc.prems(3) by (simp_all add: ex)
    then show ?thesis using Suc.IH [OF \<open>good_b b'\<close> own] by simp
  next
    case False
    then have "exchange ga a gb b = (False, on_converged gb b')" "caught_up a b'"
      using progress by (simp_all add: ex)
    then show ?thesis by (simp add: caught_up_def taker.converged_marks)
  qed
qed simp

end

subsection \<open>The ledger keeps the laws\<close>

definition progress_ok :: "ledger \<Rightarrow> bool" where
  "progress_ok l \<longleftrightarrow> distinct (map fst (progress l)) \<and> (\<forall>m\<in>set (map snd (progress l)). 0 \<le> m)"

lemma map_of_watermarks: "map_of (watermarks l source) from = map_of (progress l) (source, from)"
proof -
  have "map_of (map (\<lambda>((_, from), m). (from, m)) (filter (\<lambda>((s, _), _). s = source) ps)) from = map_of ps (source, from)"
    for ps :: "((source \<times> string) \<times> int) list"
    by (induction ps) auto
  then show ?thesis by (simp add: watermarks_def)
qed

lemma seen_mark_watermarks [simp]: "seen_mark (watermarks l source) from = markOf l source from"
  by (simp add: seen_mark_def markOf_def map_of_watermarks)

lemma marks_ok_watermarks:
  assumes "progress_ok l"
  shows "marks_ok (watermarks l)"
proof -
  have "distinct (map fst (map (\<lambda>((_, from), m). (from, m)) (filter (\<lambda>((s, _), _). s = source) ps)))"
    if "distinct (map fst ps)" for ps :: "((source \<times> string) \<times> int) list" and source
    using that by (induction ps) (auto simp: image_iff)
  then show ?thesis
    using assms by (auto simp: marks_ok_def progress_ok_def watermarks_def)
qed

lemma markOf_nonneg: "progress_ok l \<Longrightarrow> 0 \<le> markOf l source from"
  by (fastforce simp: progress_ok_def markOf_def split: option.split dest: map_of_SomeD)

lemma seen_to_markOf: "progress_ok l \<Longrightarrow> seen_to l source from = markOf l source from"
  using markOf_nonneg [of l source "from"] by (simp add: seen_to_def)

lemma raise_mark_nonneg: "0 \<le> n \<Longrightarrow> \<forall>m\<in>snd ` set ms. 0 \<le> m \<Longrightarrow> \<forall>m\<in>snd ` set (raise_mark k n ms). 0 \<le> m"
  by (induction k n ms rule: raise_mark.induct) auto

lemma progress_ok_raise: "progress_ok l \<Longrightarrow> 0 \<le> n \<Longrightarrow> progress_ok (l\<lparr>progress := raise_mark k n (progress l)\<rparr>)"
proof -
  assume ok: "progress_ok l" and n: "0 \<le> n"
  have "\<forall>m\<in>snd ` set (raise_mark k n (progress l)). 0 \<le> m"
    by (rule raise_mark_nonneg [OF n]) (use ok in \<open>simp add: progress_ok_def\<close>)
  then show ?thesis using ok raise_mark_keys [of "progress l" k n] by (simp add: progress_ok_def)
qed

lemma progress_ok_same: "progress l' = progress l \<Longrightarrow> progress_ok l' \<longleftrightarrow> progress_ok l"
  by (simp add: progress_ok_def)

lemma progress_ok_advance: "progress_ok l \<Longrightarrow> progress_ok (advance l source from)"
  unfolding advance_def by (rule progress_ok_raise, assumption, rule order_trans, rule markOf_nonneg, assumption, rule advance_from_ge)

lemma progress_ok_record:
  "progress_ok l \<Longrightarrow> progress_ok (recordAccepted l a)" "progress_ok l \<Longrightarrow> progress_ok (recordPaid now l p)"
  "progress_ok l \<Longrightarrow> progress_ok (recordOutbox l ob due)" "progress_ok l \<Longrightarrow> progress_ok (recordDelivered l d)"
  unfolding recordAccepted_def recordPaid_def recordOutbox_def recordDelivered_def
  by (rule progress_ok_advance, simp add: progress_ok_def)+

lemma progress_ok_watch:
  "progress_ok (scheduleWatch l i u d) \<longleftrightarrow> progress_ok l" "progress_ok (forget l i) \<longleftrightarrow> progress_ok l"
  by (simp_all add: progress_ok_def)

lemma progress_ok_cover_one:
  "progress_ok l \<Longrightarrow> 0 \<le> snd m \<Longrightarrow> progress_ok (cover_one source m l)"
  by (auto simp: cover_one_def intro!: progress_ok_advance progress_ok_raise split: prod.split)

lemma progress_ok_cover:
  assumes "progress_ok l" "marks_ok through"
  shows "progress_ok (cover through l)"
  unfolding cover_def
proof (rule fold_invariant [of progress_ok, OF assms(1)])
  fix source l' assume "progress_ok l'"
  then show "progress_ok (fold (cover_one source) (through source) l')"
    by (rule fold_invariant) (use assms(2) in \<open>auto simp: marks_ok_def intro!: progress_ok_cover_one\<close>)
qed

lemma progress_ok_absorb_one:
  "progress_ok l \<Longrightarrow> progress_ok (absorb_accepted due a l)" "progress_ok l \<Longrightarrow> progress_ok (absorb_outbox ob l)"
  "progress_ok l \<Longrightarrow> progress_ok (absorb_delivered d l)" "progress_ok (fst s) \<Longrightarrow> progress_ok (fst (absorb_paid now p s))"
  by (auto simp: absorb_accepted_def absorb_outbox_def absorb_delivered_def absorb_paid_def progress_ok_watch
      progress_ok_record split: prod.split)

lemma progress_ok_absorb_facts: "progress_ok l \<Longrightarrow> progress_ok (snd (absorb now l given None due))"
  by (rule absorb_invariant) (simp_all add: progress_ok_absorb_one)

lemma absorb_through: "snd (absorb now l given (Some through) due) = cover through (snd (absorb now l given None due))"
  by (simp add: absorb_eq Let_def)

lemma progress_ok_absorb:
  "progress_ok l \<Longrightarrow> marks_ok through \<Longrightarrow> progress_ok (snd (absorb now l given (Some through) due))"
  by (simp add: absorb_through progress_ok_cover progress_ok_absorb_facts)

lemma absorb_marks_rise:
  assumes "progress_ok l" "marks_ok through"
  shows "markOf l source from \<le> markOf (snd (absorb now l given (Some through) due)) source from"
  using extends_absorb [of l now given "Some through" due] seen_to_markOf [OF assms(1)]
    seen_to_markOf [OF progress_ok_absorb [OF assms]]
  by (simp add: extends_def)

lemma fold_reaches:
  assumes "x \<in> set xs" "I s" "\<And>y s. I s \<Longrightarrow> I (f y s)" "\<And>s. I s \<Longrightarrow> P (f x s)" "\<And>y s. P s \<Longrightarrow> P (f y s)"
  shows "P (fold f xs s)"
  using assms(1,2)
proof (induction xs arbitrary: s)
  case (Cons y ys)
  show ?case
  proof (cases "x = y")
    case True
    then have "P (f y s)" using assms(4) Cons.prems(2) by simp
    then show ?thesis using fold_invariant [of P "f y s" ys f] assms(5) by simp
  qed (use Cons assms(3) in simp)
qed simp

lemma self_origin_absorb_one:
  "self_origin (absorb_accepted due a l) = self_origin l" "self_origin (absorb_outbox ob l) = self_origin l"
  "self_origin (absorb_delivered d l) = self_origin l" "self_origin (fst (absorb_paid now p s)) = self_origin (fst s)"
  by (simp_all add: absorb_accepted_def absorb_outbox_def absorb_delivered_def absorb_paid_def split: prod.split)

lemma self_origin_absorb: "self_origin (snd (absorb now l given None due)) = self_origin l"
  by (rule absorb_invariant) (simp_all add: self_origin_absorb_one)

lemma self_origin_cover_one [simp]: "self_origin (cover_one source m l) = self_origin l"
  by (simp add: cover_one_def split: prod.split)

lemma self_origin_cover_source [simp]: "self_origin (fold (cover_one source) ms l) = self_origin l"
  by (rule fold_invariant [of "\<lambda>l'. self_origin l' = self_origin l"]) simp_all

lemma self_origin_cover [simp]: "self_origin (cover through l) = self_origin l"
  unfolding cover_def by (rule fold_invariant [of "\<lambda>l'. self_origin l' = self_origin l"]) simp_all

lemma seen_to_mono: "extends l l' \<Longrightarrow> seen_to l source from \<le> seen_to l' source from"
  by (simp add: extends_def)

lemma extends_cover_one: "extends l (cover_one source m l)"
  by (auto simp: cover_one_def intro: extends_trans extends_raise extends_advance split: prod.split)

lemma cover_one_reaches:
  assumes "from \<noteq> self_origin l" "is_safe_integer m"
  shows "m \<le> seen_to (cover_one source (from, m) l) source from"
proof -
  have "m \<le> seen_to (l\<lparr>progress := raise_mark (source, from) m (progress l)\<rparr>) source from"
    by (auto simp: seen_to_def markOf_raise split: option.split)
  also have "\<dots> \<le> seen_to (advance (l\<lparr>progress := raise_mark (source, from) m (progress l)\<rparr>) source from) source from"
    by (rule seen_to_mono, rule extends_advance)
  finally show ?thesis using assms by (simp add: cover_one_def)
qed

lemma cover_reaches:
  assumes "(from, m) \<in> set (through source)" "from \<noteq> self_origin (l :: ledger)" "is_safe_integer m"
  shows "m \<le> seen_to (cover through l) source from"
  unfolding cover_def
proof (rule fold_reaches [where x = source and I = "\<lambda>l'. self_origin l' = self_origin l"])
  fix l' :: ledger assume l': "self_origin l' = self_origin l"
  show "m \<le> seen_to (fold (cover_one source) (through source) l') source from"
    by (rule fold_reaches [where x = "(from, m)" and I = "\<lambda>l'. self_origin l' = self_origin l"])
      (use assms l' in \<open>auto intro!: cover_one_reaches intro: order_trans seen_to_mono extends_cover_one\<close>)
next
  fix s l' assume "m \<le> seen_to l' source from"
  moreover have "extends l' (fold (cover_one s) (through s) l')" by (rule extends_fold, rule extends_cover_one)
  ultimately show "m \<le> seen_to (fold (cover_one s) (through s) l') source from"
    using seen_to_mono order_trans by blast
qed simp_all

lemma absorb_marks_reach:
  assumes "progress_ok l" "marks_ok through" "(from, m) \<in> set (through source)" "from \<noteq> self_origin l" "is_safe_integer m"
  shows "m \<le> markOf (snd (absorb now l given (Some through) due)) source from"
proof -
  have "m \<le> seen_to (snd (absorb now l given (Some through) due)) source from"
    unfolding absorb_through by (rule cover_reaches) (use assms in \<open>simp_all add: self_origin_absorb\<close>)
  then show ?thesis by (simp add: seen_to_markOf progress_ok_absorb assms)
qed

subsection \<open>What the ledger hands out\<close>

lemma gap_batch_bounds:
  "r \<in> set (gap_batch rows from seen held) \<Longrightarrow> seen < fact_seq r \<and> fact_seq r \<le> held"
  by (auto simp: gap_batch_def dest: in_set_takeD)

lemma gap_reach_bounds:
  assumes "seen < held"
  shows "seen < gap_reach (gap_batch rows from seen held) held \<and> gap_reach (gap_batch rows from seen held) held \<le> held"
proof (cases "length (gap_batch rows from seen held) = GAP_BATCH")
  case True
  then have "gap_batch rows from seen held \<noteq> []" by (auto simp: GAP_BATCH_def)
  then show ?thesis using True gap_batch_bounds [OF last_in_set] by (simp add: gap_reach_def)
qed (simp add: gap_reach_def assms)

definition lacking_of :: "watermarks \<Rightarrow> watermarks \<Rightarrow> source \<Rightarrow> (string \<times> int) list" where
  "lacking_of theirs mine source = filter (\<lambda>(from, held). \<not> held \<le> seen_mark (theirs source) from) (mine source)"

lemma set_lacking_of: "(from, held) \<in> set (lacking_of theirs mine source) \<longleftrightarrow> lacks theirs mine source from held"
  by (auto simp: lacking_of_def lacks_def)

lemma gap_eq:
  "gap mine theirs source rows =
     (concat (map (\<lambda>(from, held). gap_batch rows from (seen_mark (theirs source) from) held) (lacking_of theirs mine source)),
      list_ex (\<lambda>(from, held). length (gap_batch rows from (seen_mark (theirs source) from) held) = GAP_BATCH)
        (lacking_of theirs mine source),
      map (\<lambda>(from, held). (from, gap_reach (gap_batch rows from (seen_mark (theirs source) from) held) held))
        (lacking_of theirs mine source))"
  by (simp add: gap_def Let_def lacking_of_def comp_def split_def list_ex_iff)

lemma gap_lacking:
  assumes "lacks theirs mine source from held"
  shows "\<exists>m. (from, m) \<in> set (snd (snd (gap mine theirs source rows))) \<and> seen_mark (theirs source) from < m \<and> m \<le> held \<and>
    (fst (snd (gap mine theirs source rows)) \<or> m = held)"
proof -
  define batch where "batch = gap_batch rows from (seen_mark (theirs source) from) held"
  have inl: "(from, held) \<in> set (lacking_of theirs mine source)" by (simp add: set_lacking_of assms)
  then have "(from, gap_reach batch held) \<in> set (snd (snd (gap mine theirs source rows)))"
    by (force simp: gap_eq batch_def)
  moreover have "fst (snd (gap mine theirs source rows)) \<or> gap_reach batch held = held"
    using inl by (auto simp: gap_eq batch_def list_ex_iff gap_reach_def)
  moreover have "seen_mark (theirs source) from < held" using assms by (simp add: lacks_def)
  ultimately show ?thesis using gap_reach_bounds unfolding batch_def by blast
qed

lemma gap_more: "fst (snd (gap mine theirs source rows)) \<Longrightarrow> \<exists>from held. lacks theirs mine source from held"
  by (auto simp: gap_eq list_ex_iff set_lacking_of) blast

lemma gap_marks:
  assumes "marks_ok mine" "marks_ok theirs"
  shows "distinct (map fst (snd (snd (gap mine theirs source rows))))"
    "\<forall>m\<in>snd ` set (snd (snd (gap mine theirs source rows))). 0 \<le> m"
proof -
  have "map fst (snd (snd (gap mine theirs source rows))) = map fst (lacking_of theirs mine source)"
    by (simp add: gap_eq split_def)
  then show "distinct (map fst (snd (snd (gap mine theirs source rows))))"
    using assms(1) by (simp add: lacking_of_def marks_ok_def distinct_map_filter)
  have "0 \<le> gap_reach (gap_batch rows from (seen_mark (theirs source) from) held) held"
    if "lacks theirs mine source from held" for "from" held
    using gap_reach_bounds [of "seen_mark (theirs source) from" held rows "from"] that
      seen_mark_nonneg [OF assms(2), of source "from"] by (simp add: lacks_def)
  then show "\<forall>m\<in>snd ` set (snd (snd (gap mine theirs source rows))). 0 \<le> m"
    by (auto simp: gap_eq set_lacking_of)
qed

lemma since_marks_ok:
  assumes "progress_ok l" "marks_ok theirs"
  shows "marks_ok (caught_through (since l theirs))"
  by (simp add: marks_ok_def since_def Let_def gap_marks [simplified, OF marks_ok_watermarks [OF assms(1)] assms(2)]
      split: source.split)

lemma since_lacking:
  assumes "lacks theirs (watermarks l) source from held"
  shows "\<exists>m. (from, m) \<in> set (caught_through (since l theirs) source) \<and> seen_mark (theirs source) from < m \<and> m \<le> held \<and>
    (caught_more (since l theirs) \<or> m = held)"
proof (cases source)
  case AcceptedFact
  then show ?thesis using gap_lacking [OF assms, of "accepted_rows l"] by (auto simp: since_def Let_def)
next
  case PaidFact
  then show ?thesis using gap_lacking [OF assms, of "map paid.truncate (paid_rows l)"] by (auto simp: since_def Let_def)
next
  case OutboxFact
  then show ?thesis using gap_lacking [OF assms, of "map outbox.truncate (outbox_rows l)"] by (auto simp: since_def Let_def)
next
  case DeliveredFact
  then show ?thesis using gap_lacking [OF assms, of "delivered_rows l"] by (auto simp: since_def Let_def)
qed

lemma since_more: "caught_more (since l theirs) \<Longrightarrow> \<exists>source from held. lacks theirs (watermarks l) source from held"
  by (auto simp: since_def Let_def dest!: gap_more)

end
