(* ===== verification/Store.thy ===== *)
theory Store
  imports CatchUp
begin

text \<open>
  \<^verbatim>\<open>src/store.ts\<close>: the store every part of an instance goes through. It holds the ledger and
  the peers, names payments, spreads what the ledger records to the peers, and gives every
  instance of a cluster its own turn to poll a payment. Each method takes the clock (whole Unix
  seconds) and the store and returns the store it leaves; what it causes besides, notes to
  peers, changes shown to followers, the timer armed again, is appended to the log of the store
  in order. Delays are exact fractions here: the code computes them in floating point, and the
  whole seconds it rounds them up to agree over the whole horizon of a watch.
\<close>

definition EAGER_WINDOW_SECS :: int where "EAGER_WINDOW_SECS = 300"
definition STALENESS :: rat where "STALENESS = 1 / 10"
definition LEASE_SECS :: int where "LEASE_SECS = 30"

definition pollDelayMs :: "int \<Rightarrow> int \<Rightarrow> rat option \<Rightarrow> rat" where
  "pollDelayMs waitedSecs eagerMs askedMs =
     (case askedMs of
        Some asked \<Rightarrow> asked
      | None \<Rightarrow> if waitedSecs < EAGER_WINDOW_SECS then of_int eagerMs else of_int waitedSecs * STALENESS * 1000)"

datatype event =
    Changed payment
  | Announced gossip_note
  | Scheduled
  | NonceSpent string int

record store =
  st_ledger :: ledger
  st_key :: bytes
  maxPending :: nat
  eagerDelayMs :: int
  convergedAt :: "int option"
  peers :: links
  answersAlone :: "string \<Rightarrow> bool"
  events :: "event list"

definition new_store :: "ledger \<Rightarrow> bytes \<Rightarrow> store" where
  "new_store l key =
     \<lparr>st_ledger = l, st_key = key, maxPending = 5000, eagerDelayMs = 5000, convergedAt = None, peers = [],
      answersAlone = (\<lambda>_. False), events = []\<rparr>"

definition happens :: "event \<Rightarrow> store \<Rightarrow> store" where
  "happens e s = s\<lparr>events := events s @ [e]\<rparr>"

definition with_ledger :: "ledger \<Rightarrow> store \<Rightarrow> store" where
  "with_ledger l s = s\<lparr>st_ledger := l\<rparr>"

subsection \<open>Turns\<close>

definition standing :: "string \<Rightarrow> string \<Rightarrow> string" where
  "standing i origin = bytesToHex (sha256 (utf8 (i @ CHR 0x00 # origin)))"

definition rankAmong :: "string \<Rightarrow> string \<Rightarrow> string list \<Rightarrow> nat" where
  "rankAmong i self others = length (filter (\<lambda>peer. standing i peer > standing i self) others)"

definition peer_names :: "store \<Rightarrow> string list" where
  "peer_names s = map fst (peers s)"

definition turn :: "store \<Rightarrow> string \<Rightarrow> string \<Rightarrow> int \<Rightarrow> rat \<Rightarrow> string list \<Rightarrow> int" where
  "turn s i url due gapSecs among =
     (let wait = min (max \<lceil>gapSecs\<rceil> 1) LEASE_SECS;
          ahead = (if answersAlone s url then 0 else rankAmong i (self_origin (st_ledger s)) among)
      in due + int ahead * wait)"

definition eager_gap :: "store \<Rightarrow> rat" where
  "eager_gap s = of_int (eagerDelayMs s) / 1000"

definition standby :: "int \<Rightarrow> store \<Rightarrow> accepted \<Rightarrow> int" where
  "standby now s a =
     (let waited = now - accepted_at a;
          gapSecs = pollDelayMs waited (eagerDelayMs s) None / 1000;
          due = (if of_int waited < gapSecs then accepted_at a else now + \<lceil>gapSecs\<rceil>);
          url = (case asStored (accepted_payment a) of None \<Rightarrow> [] | Some p \<Rightarrow> verifyUrl p)
      in turn s (fact_id a) url due gapSecs (peer_names s))"

subsection \<open>Payments\<close>

definition names :: "store \<Rightarrow> string option \<Rightarrow> string \<Rightarrow> string" where
  "names s who hash =
     (case who of None \<Rightarrow> paymentId (st_key s) hash | Some c \<Rightarrow> paymentNamedBy c hash)"

definition asPaymentOf :: "public_payment \<Rightarrow> payment option \<Rightarrow> payment" where
  "asPaymentOf settled watched = asPayment settled (case watched of None \<Rightarrow> [] | Some w \<Rightarrow> webhooks w)"

text \<open>A fact is spread when the ledger accepted something new; \<^verbatim>\<open>announce\<close> reaches every peer.\<close>

definition spread :: "facts \<Rightarrow> store \<Rightarrow> store" where
  "spread given s = (if accepted_facts given = [] then s else happens (Announced (Told given False None)) s)"

definition insert_payment :: "int \<Rightarrow> store \<Rightarrow> payment \<Rightarrow> payment \<times> store" where
  "insert_payment now s unsaved =
     (let i = names s (caller unsaved) (paymentHash unsaved)
      in case settlement (st_ledger s) i of
           Some settled \<Rightarrow> (asPaymentOf settled None, s)
         | None \<Rightarrow>
             (case accept now (st_ledger s) (unsaved\<lparr>pay_id := i\<rparr>)
                     (turn s i (verifyUrl unsaved) now (eager_gap s) (peer_names s)) of
                ((taken, given), l) \<Rightarrow> (taken, happens Scheduled (spread given (with_ledger l s)))))"

definition get :: "int \<Rightarrow> store \<Rightarrow> string \<Rightarrow> payment option" where
  "get now s i =
     (case settlement (st_ledger s) i of
        Some settled \<Rightarrow> Some (asPaymentOf settled (readPayment now (st_ledger s) i))
      | None \<Rightarrow> readPayment now (st_ledger s) i)"

text \<open>\<^const>\<open>None\<close> is the error: nothing is watched under this name, or the preimage is wrong.\<close>

definition paid :: "int \<Rightarrow> store \<Rightarrow> string \<Rightarrow> string \<Rightarrow> ((payment \<times> bool) \<times> store) option" where
  "paid now s i secret =
     (let watched = readPayment now (st_ledger s) i
      in case settlement (st_ledger s) i of
           Some already \<Rightarrow> Some ((asPaymentOf already watched, False), with_ledger (forget (st_ledger s) i) s)
         | None \<Rightarrow>
             (case watched of
                None \<Rightarrow> None
              | Some w \<Rightarrow>
                  (case settle now (st_ledger s) w secret of
                     None \<Rightarrow> None
                   | Some ((settled, given), l) \<Rightarrow>
                       Some ((asPaymentOf settled watched, True),
                         happens Scheduled (happens (Changed (asPaymentOf settled None))
                           (happens (Announced (Told given False None)) (with_ledger l s)))))))"

definition full :: "store \<Rightarrow> string option \<Rightarrow> bool" where
  "full s who \<longleftrightarrow> countFor (st_ledger s) who \<ge> maxPending s"

definition postponed :: "int \<Rightarrow> store \<Rightarrow> string \<Rightarrow> string \<Rightarrow> int option \<Rightarrow> store" where
  "postponed now s i url due =
     with_ledger (Ledger.polled (st_ledger s) i
       (map_option (\<lambda>t. turn s i url t (of_int (t - now)) (peer_names s)) due)) s"

definition polled_note :: "string \<Rightarrow> int option \<Rightarrow> gossip_note" where
  "polled_note i due = PolledNote (JStr i) (nullable JNum due)"

definition polled :: "int \<Rightarrow> store \<Rightarrow> string \<Rightarrow> string \<Rightarrow> int option \<Rightarrow> store" where
  "polled now s i url due = happens (Announced (polled_note i due)) (postponed now s i url due)"

definition missed :: "int \<Rightarrow> store \<Rightarrow> string \<Rightarrow> string \<Rightarrow> int option \<Rightarrow> store" where
  "missed now s i url due = happens (Announced (MissedNote (JStr i))) (postponed now s i url due)"

definition spent :: "store \<Rightarrow> string \<Rightarrow> int \<Rightarrow> store" where
  "spent s once until = happens (Announced (SpentNote (JStr once) (JNum until))) s"

definition instances :: "store \<Rightarrow> nat" where
  "instances s = 1 + length (peers s)"

definition caughtUp :: "store \<Rightarrow> bool" where
  "caughtUp s \<longleftrightarrow> convergedAt s \<noteq> None"

definition delivered_to :: "int \<Rightarrow> store \<Rightarrow> delivery \<Rightarrow> store" where
  "delivered_to now s owed =
     (case Ledger.delivered now (st_ledger s) owed of
        (given, l) \<Rightarrow> happens (Announced (Told given False None)) (with_ledger l s))"

definition sweep_store :: "int \<Rightarrow> store \<Rightarrow> int \<Rightarrow> int \<Rightarrow> payment list \<times> store" where
  "sweep_store now s graceSecs keepSealedSecs =
     (case sweep now (st_ledger s) graceSecs keepSealedSecs of
        (expired, l) \<Rightarrow> (expired, happens Scheduled (with_ledger l s)))"

text \<open>The methods that hand the ledger what they are asked and the ledger's answer back.\<close>

definition on_ledger :: "(ledger \<Rightarrow> 'a \<times> ledger) \<Rightarrow> store \<Rightarrow> 'a \<times> store" where
  "on_ledger f s = (case f (st_ledger s) of (answer, l) \<Rightarrow> (answer, with_ledger l s))"

definition duePolls_store :: "int \<Rightarrow> store \<Rightarrow> nat \<Rightarrow> int \<Rightarrow> payment list \<times> store" where
  "duePolls_store now s limit leaseSecs = on_ledger (\<lambda>l. duePolls now l limit leaseSecs) s"

definition dueDeliveries_store :: "int \<Rightarrow> store \<Rightarrow> nat \<Rightarrow> int \<Rightarrow> delivery list \<times> store" where
  "dueDeliveries_store now s limit leaseSecs = on_ledger (\<lambda>l. dueDeliveries now l limit leaseSecs) s"

definition undelivered_store :: "int \<Rightarrow> store \<Rightarrow> delivery \<Rightarrow> retry \<times> store" where
  "undelivered_store now s owed = on_ledger (\<lambda>l. undelivered now l owed) s"

definition claim_store :: "int \<Rightarrow> store \<Rightarrow> string \<Rightarrow> string \<Rightarrow> int \<Rightarrow> claim \<times> store" where
  "claim_store now s key print leaseSecs = on_ledger (\<lambda>l. claimKey now l key print leaseSecs) s"

definition fulfill :: "store \<Rightarrow> string \<Rightarrow> string \<Rightarrow> store" where
  "fulfill s key i = with_ledger (fulfillKey (st_ledger s) key i) s"

definition release :: "store \<Rightarrow> string \<Rightarrow> store" where
  "release s key = with_ledger (releaseKey (st_ledger s) key) s"

subsection \<open>What operators see\<close>

definition sequenceTotals :: "watermarks \<Rightarrow> source \<Rightarrow> int" where
  "sequenceTotals marks source = sum_list (map snd (marks source))"

record info =
  info_origin :: string
  info_peers :: nat
  info_pending :: nat
  info_maxPending :: nat
  info_parked :: nat
  info_convergedAt :: "int option"
  info_origins :: nat
  info_marks :: "source \<Rightarrow> int"
  info_rows :: "source \<Rightarrow> nat"

definition info_of :: "store \<Rightarrow> info" where
  "info_of s =
     (let marks = watermarks (st_ledger s)
      in \<lparr>info_origin = self_origin (st_ledger s), info_peers = length (peers s), info_pending = countPending (st_ledger s),
          info_maxPending = maxPending s, info_parked = parkedDeliveries (st_ledger s), info_convergedAt = convergedAt s,
          info_origins = card (set (concat (map (\<lambda>source. map fst (marks source)) SOURCES))),
          info_marks = sequenceTotals marks, info_rows = factCounts (st_ledger s)\<rparr>)"

subsection \<open>The replica the store hands to the gossip\<close>

definition take_facts :: "int \<Rightarrow> facts \<Rightarrow> watermarks option \<Rightarrow> store \<Rightarrow> store" where
  "take_facts now given through s =
     (case absorb now (st_ledger s) given through (standby now s) of
        (settled, l) \<Rightarrow>
          happens Scheduled (fold (\<lambda>p. happens (Changed (asPaymentOf p None))) settled (with_ledger l s)))"

definition take_polled :: "int \<Rightarrow> string \<Rightarrow> int option \<Rightarrow> store \<Rightarrow> store" where
  "take_polled now i due s =
     (case readPayment now (st_ledger s) i of
        None \<Rightarrow> s
      | Some held \<Rightarrow> happens Scheduled (postponed now s i (verifyUrl held) due))"

definition take_missed :: "int \<Rightarrow> string \<Rightarrow> string \<Rightarrow> store \<Rightarrow> store" where
  "take_missed now i by' s =
     (case readPayment now (st_ledger s) i of
        None \<Rightarrow> s
      | Some held \<Rightarrow>
          (let others = filter (\<lambda>peer. peer \<noteq> by') (peer_names s)
           in happens Scheduled (with_ledger (broughtForward (st_ledger s) i
                (turn s i (verifyUrl held) now (eager_gap s) others)) s)))"

definition store_gossip :: "int \<Rightarrow> string \<Rightarrow> bytes \<Rightarrow> store gossip" where
  "store_gossip now self key =
     \<lparr>gossip_self = self, gossip_key = key, on_facts = take_facts now,
      on_converged = (\<lambda>s. s\<lparr>convergedAt := Some now\<rparr>),
      on_polled = take_polled now, on_missed = take_missed now,
      on_spent = (\<lambda>once until. happens (NonceSpent once until)),
      marks_now = (\<lambda>s. watermarks (st_ledger s)), since_marks = (\<lambda>theirs s. since (st_ledger s) theirs)\<rparr>"

subsection \<open>Fields\<close>

lemma store_fields [simp]:
  "st_ledger (happens e s) = st_ledger s" "st_ledger (with_ledger l s) = l"
  "events (happens e s) = events s @ [e]" "events (with_ledger l s) = events s"
  "peers (happens e s) = peers s" "peers (with_ledger l s) = peers s"
  "st_key (happens e s) = st_key s" "st_key (with_ledger l s) = st_key s"
  "maxPending (happens e s) = maxPending s" "maxPending (with_ledger l s) = maxPending s"
  by (simp_all add: happens_def with_ledger_def)

lemma st_ledger_fold [simp]: "st_ledger (fold (\<lambda>p. happens (f p)) ps s) = st_ledger s"
  by (induction ps arbitrary: s) simp_all

lemma take_facts_ledger:
  "st_ledger (take_facts now given through s) = snd (absorb now (st_ledger s) given through (standby now s))"
  by (simp add: take_facts_def split: prod.split)

subsection \<open>The store is a replica\<close>

definition store_ok :: "string \<Rightarrow> store \<Rightarrow> bool" where
  "store_ok self s \<longleftrightarrow> progress_ok (st_ledger s) \<and> self_origin (st_ledger s) = self"

lemma self_origin_take_facts: "self_origin (st_ledger (take_facts now given (Some through) s)) = self_origin (st_ledger s)"
  by (simp add: take_facts_ledger absorb_through self_origin_absorb)

lemma store_gossip_fields [simp]:
  "marks_now (store_gossip now self key) s = watermarks (st_ledger s)" "gossip_self (store_gossip now self key) = self"
  by (simp_all add: store_gossip_def)

lemma store_is_replica: "replica (store_gossip now self key) (store_ok self)"
proof (unfold_locales, goal_cases)
  case (2 s through given)
  then show ?case
    by (simp add: store_gossip_def store_ok_def take_facts_ledger progress_ok_cover progress_ok_absorb_facts absorb_through
        self_origin_absorb)
next
  case (3 s through source "from" given)
  then show ?case by (simp add: store_gossip_def store_ok_def take_facts_ledger absorb_marks_rise)
next
  case (4 s through "from" m source given)
  then show ?case by (simp add: store_gossip_def store_ok_def take_facts_ledger absorb_marks_reach)
next
  case (6 s theirs source "from" held)
  then show ?case by (simp add: store_gossip_def since_lacking)
next
  case (7 s theirs)
  then show ?case by (auto simp: store_gossip_def dest: since_more)
qed (simp_all add: store_gossip_def store_ok_def marks_ok_watermarks since_marks_ok)

interpretation cluster: replicas "store_gossip now self key" "store_ok self" "store_gossip now' self' key'" "store_ok self'"
  for now self key now' self' key'
  by (intro replicas.intro store_is_replica)

text \<open>
  C3: an instance catches up. Say one instance holds nothing of the other's own facts that the
  other lost, as is so unless a ledger file was replaced by an older one. Then the exchange of
  marks and facts between the two ends by itself, after no more notes than the sender is ahead
  in sequence numbers, the receiver knows it converged, and it has then reached every mark the
  sender holds, whatever the batches were cut into.
\<close>

theorem store_catches_up:
  assumes "progress_ok (st_ledger a)" "progress_ok (st_ledger b)"
    and "self_origin (st_ledger a) = self" "self_origin (st_ledger b) = self'"
    and "\<And>source origin m. (origin, m) \<in> set (watermarks (st_ledger a) source) \<Longrightarrow> is_safe_integer m"
    and "\<And>source. markOf (st_ledger a) source self' \<le> markOf (st_ledger b) source self'"
    and "distance (watermarks (st_ledger b)) (watermarks (st_ledger a)) < fuel"
  shows "\<exists>b'. catch_up (store_gossip now self key) a (store_gossip now' self' key) fuel b = (True, b') \<and>
    (\<forall>source origin. markOf (st_ledger a) source origin \<le> markOf (st_ledger b') source origin)"
proof -
  have "\<exists>b'. catch_up (store_gossip now self key) a (store_gossip now' self' key) fuel b = (True, b') \<and>
      cluster.caught_up now self key now' self' key a b'"
    by (rule cluster.catch_up_ends) (use assms in \<open>simp_all add: store_ok_def\<close>)
  then show ?thesis by (simp add: cluster.caught_up_def)
qed

definition fresh_store :: "string \<Rightarrow> store" where
  "fresh_store origin = new_store (new_ledger origin) [7]"

definition marked_store :: "store" where
  "marked_store = with_ledger ((new_ledger ''a'')\<lparr>progress := [((PaidFact, ''a''), 700), ((AcceptedFact, ''c''), 3)]\<rparr>) (fresh_store ''a'')"

lemma store_catches_up_witness:
  "\<exists>b'. catch_up (store_gossip 9 ''a'' [7]) marked_store (store_gossip 9 ''b'' [7]) 800 (fresh_store ''b'') = (True, b') \<and>
    markOf (st_ledger b') PaidFact ''a'' \<ge> 700"
proof -
  have marks: "markOf (st_ledger marked_store) PaidFact ''a'' = 700"
    by (simp add: marked_store_def markOf_def)
  have "\<exists>b'. catch_up (store_gossip 9 ''a'' [7]) marked_store (store_gossip 9 ''b'' [7]) 800 (fresh_store ''b'') = (True, b') \<and>
      (\<forall>source origin. markOf (st_ledger marked_store) source origin \<le> markOf (st_ledger b') source origin)"
    by (rule store_catches_up)
      (auto simp: marked_store_def fresh_store_def new_store_def new_ledger_def progress_ok_def markOf_def watermarks_def
        distance_def SOURCES_def seen_mark_def is_safe_integer_def MAX_SAFE_INTEGER_def split: if_splits)
  then show ?thesis using marks by metis
qed

subsection \<open>Turns\<close>

lemma turn_bounds:
  "0 \<le> (turn s i url due gapSecs among - due) \<and>
   turn s i url due gapSecs among - due \<le> int (length among) * LEASE_SECS"
proof -
  define wait where "wait = min (max \<lceil>gapSecs\<rceil> 1) LEASE_SECS"
  define ahead where "ahead = (if answersAlone s url then 0 else rankAmong i (self_origin (st_ledger s)) among)"
  have "ahead \<le> length among" by (simp add: ahead_def rankAmong_def)
  moreover have "0 \<le> wait" "wait \<le> LEASE_SECS" by (simp_all add: wait_def LEASE_SECS_def)
  ultimately have "int ahead * wait \<le> int (length among) * LEASE_SECS" by (intro mult_mono) auto
  then show ?thesis using \<open>0 \<le> wait\<close> by (simp add: turn_def Let_def flip: wait_def ahead_def)
qed

text \<open>How many of a set of distinct ones stand above one of them: every number below their count, once.\<close>

lemma ranks_bij:
  fixes f :: "'a \<Rightarrow> 'b::linorder"
  assumes "finite A" "inj_on f A"
  shows "bij_betw (\<lambda>x. card {y \<in> A. f y > f x}) A {..<card A}"
proof -
  have less: "card {y \<in> A. f y > f x} < card A" if "x \<in> A" for x
    using that assms(1) by (intro psubset_card_mono) auto
  have down: "card {y \<in> A. f y > f x'} < card {y \<in> A. f y > f x}" if "x' \<in> A" "f x < f x'" for x x'
    using that assms(1) by (intro psubset_card_mono) (auto intro: less_trans)
  have inj: "inj_on (\<lambda>x. card {y \<in> A. f y > f x}) A"
  proof (rule inj_onI)
    fix x x' assume *: "x \<in> A" "x' \<in> A" "card {y \<in> A. f y > f x} = card {y \<in> A. f y > f x'}"
    have "\<not> f x < f x'" "\<not> f x' < f x" using down [of x' x] down [of x x'] * by auto
    then have "f x = f x'" by simp
    then show "x = x'" using assms(2) * by (auto dest: inj_onD)
  qed
  then have "(\<lambda>x. card {y \<in> A. f y > f x}) ` A = {..<card A}"
    using less by (intro card_subset_eq) (auto simp: card_image)
  then show ?thesis using inj by (simp add: bij_betw_def)
qed

lemma rankAmong_card:
  assumes "distinct others"
  shows "rankAmong i self others = card {y \<in> set others. standing i y > standing i self}"
proof -
  have "card (set (filter (\<lambda>peer. standing i peer > standing i self) others)) =
      length (filter (\<lambda>peer. standing i peer > standing i self) others)"
    using assms by (intro distinct_card) simp
  then show ?thesis by (simp add: rankAmong_def)
qed

text \<open>
  Nobody polls twice and somebody polls at once. In a cluster where everybody sees
  everybody, the ranks the instances give themselves for a payment are the numbers from 0 up,
  each once: one instance polls when the payment is due, and the others one after another, each
  a lease later than the one before at most. The hash of the names has to tell the instances
  apart.
\<close>

theorem turns_are_taken_once:
  assumes "distinct origins" "inj_on (standing i) (set origins)"
  shows "bij_betw (\<lambda>self. rankAmong i self (filter (\<lambda>peer. peer \<noteq> self) origins)) (set origins) {..<length origins} \<and>
    (\<forall>s url due gapSecs among. due \<le> turn s i url due gapSecs among \<and>
       turn s i url due gapSecs among \<le> due + int (length among) * LEASE_SECS)"
proof
  have rank: "rankAmong i self (filter (\<lambda>peer. peer \<noteq> self) origins) = card {y \<in> set origins. standing i y > standing i self}" for self
    using assms(1) by (auto simp: rankAmong_card intro!: arg_cong [of _ _ card])
  show "bij_betw (\<lambda>self. rankAmong i self (filter (\<lambda>peer. peer \<noteq> self) origins)) (set origins) {..<length origins}"
    using ranks_bij [OF _ assms(2)] assms(1) unfolding rank by (simp add: distinct_card)
  show "\<forall>s url due gapSecs among. due \<le> turn s i url due gapSecs among \<and>
      turn s i url due gapSecs among \<le> due + int (length among) * LEASE_SECS"
    using turn_bounds by (smt (verit))
qed

lemma turns_are_taken_once_witness:
  "rankAmong ''p'' ''o'' (filter (\<lambda>peer. peer \<noteq> ''o'') [''o'']) = 0"
proof -
  have "bij_betw (\<lambda>self. rankAmong ''p'' self (filter (\<lambda>peer. peer \<noteq> self) [''o''])) (set [''o'']) {..<length [''o'']}"
    using turns_are_taken_once [of "[''o'']" "''p''"] by simp
  then show ?thesis by (auto simp: bij_betw_def)
qed

subsection \<open>Settling through the store\<close>

lemma oneFromEvery_id: "oneFromEvery ps = Some p \<Longrightarrow> \<forall>q\<in>set ps. pay_id q = i \<Longrightarrow> pay_id p = i"
proof (cases ps)
  case (Cons q rest)
  have "pay_id (foldl (\<lambda>one other. one\<lparr>webhooks := mergedWebhooks (webhooks one) (webhooks other)\<rparr>) q rest) = pay_id q" for rest
    by (induction rest rule: rev_induct) simp_all
  then show "oneFromEvery ps = Some p \<Longrightarrow> \<forall>q\<in>set ps. pay_id q = i \<Longrightarrow> pay_id p = i"
    by (auto simp: oneFromEvery_def Cons)
qed (simp add: oneFromEvery_def)

lemma readPayment_id:
  assumes "accepted_named l" "readPayment now l i = Some p"
  shows "pay_id p = i"
proof -
  define rows where "rows = inSeqOrder (filter (\<lambda>r. fact_id r = i) (accepted_rows l))"
  define step where "step = (\<lambda>row :: accepted. \<lambda>held. case revive now (accepted_payment row) of
      None \<Rightarrow> held | Some p \<Rightarrow> add_to_group (fact_id row) p held)"
  define ok where "ok = (\<lambda>held :: (string \<times> payment list) list. \<forall>(j, ps)\<in>set held. \<forall>q\<in>set ps. pay_id q = i)"
  have add: "ok (add_to_group j q held)" if "ok held" "pay_id q = i" for j q held
    using that by (induction j q held rule: add_to_group.induct) (auto simp: ok_def)
  have "ok (fold step rows [])"
  proof (rule fold_invariant [of ok])
    fix row held assume "row \<in> set rows" "ok held"
    then show "ok (step row held)"
      using assms(1) add by (auto simp: rows_def inSeqOrder_def accepted_named_def named_row_def step_def revive_def
          withStatus_def split: option.split)
  qed (simp add: ok_def)
  moreover have "p \<in> set (List.map_filter (\<lambda>(i, ps). oneFromEvery ps) (fold step rows []))"
    using assms(2) by (auto simp: readPayment_def groupById_def rows_def step_def split: list.splits)
  then obtain j ps where ps: "(j, ps) \<in> set (fold step rows [])" "oneFromEvery ps = Some p"
    by (auto simp: List.map_filter_def)
  ultimately have "\<forall>q\<in>set ps. pay_id q = i" by (auto simp: ok_def)
  then show ?thesis by (rule oneFromEvery_id [OF ps(2)])
qed

text \<open>Rows that tell of no payment do not count, and a payment told of by one row alone is what the row says.\<close>

definition tells :: "int \<Rightarrow> 'a accepted_scheme \<Rightarrow> bool" where
  "tells now row \<longleftrightarrow> revive now (accepted_payment row) \<noteq> None"

lemma groupById_tells: "groupById now rows = groupById now (filter (tells now) rows)"
proof -
  have "fold (\<lambda>row held. case revive now (accepted_payment row) of None \<Rightarrow> held | Some p \<Rightarrow> add_to_group (fact_id row) p held) rows held =
      fold (\<lambda>row held. case revive now (accepted_payment row) of None \<Rightarrow> held | Some p \<Rightarrow> add_to_group (fact_id row) p held)
        (filter (tells now) rows) held" for held
    by (induction rows arbitrary: held) (auto simp: tells_def)
  then show ?thesis by (simp add: groupById_def)
qed

lemma groupById_Nil: "groupById now rows = [] \<longleftrightarrow> \<not> list_ex (tells now) rows"
proof -
  define step where "step = (\<lambda>row :: accepted. \<lambda>held. case revive now (accepted_payment row) of
      None \<Rightarrow> held | Some p \<Rightarrow> add_to_group (fact_id row) p held)"
  define full where "full = (\<lambda>held :: (string \<times> payment list) list. \<forall>(j, ps)\<in>set held. ps \<noteq> [])"
  have add: "full (add_to_group j p held) \<and> add_to_group j p held \<noteq> []" if "full held" for j p held
    using that by (induction j p held rule: add_to_group.induct) (auto simp: full_def)
  have fold: "full (fold step rows held) \<and> (fold step rows held = [] \<longleftrightarrow> held = [] \<and> \<not> list_ex (tells now) rows)" if "full held" for held
    using that
  proof (induction rows arbitrary: held)
    case (Cons row rows)
    then have "full (step row held)" "step row held = [] \<longleftrightarrow> held = [] \<and> \<not> tells now row"
      using add by (auto simp: step_def tells_def split: option.split)
    with Cons.IH show ?case by auto
  qed simp
  have served: "List.map_filter (\<lambda>(i, ps). oneFromEvery ps) held = [] \<longleftrightarrow> held = []" if "full held" for held
    using that by (cases held) (auto simp: full_def map_filter_simps oneFromEvery_def split: list.splits)
  show ?thesis
    using fold [of "[]"] served unfolding groupById_def step_def [symmetric] by (simp add: full_def)
qed

lemma filter_inSeqOrder: "filter P (inSeqOrder rows) = inSeqOrder (filter P rows)"
  by (simp add: inSeqOrder_def filter_sort)

lemma readPayment_told:
  assumes "readPayment now l i = None" "accepted_rows l' = accepted_rows l @ [row]" "fact_id row = i" "revive now (accepted_payment row) = Some p"
  shows "readPayment now l' i = Some p"
proof -
  have "groupById now (inSeqOrder (filter (\<lambda>r. fact_id r = i) (accepted_rows l))) = []"
    using assms(1) by (simp add: readPayment_def split: list.splits)
  then have "filter (tells now) (filter (\<lambda>r. fact_id r = i) (accepted_rows l)) = []"
    unfolding groupById_Nil by (auto simp: list_ex_iff inSeqOrder_def filter_empty_conv)
  then have "filter (tells now) (inSeqOrder (filter (\<lambda>r. fact_id r = i) (accepted_rows l'))) = [row]"
    unfolding filter_inSeqOrder assms(2) using assms(3,4) by (simp add: inSeqOrder_def tells_def)
  then have "groupById now (inSeqOrder (filter (\<lambda>r. fact_id r = i) (accepted_rows l'))) = [p]"
    by (subst groupById_tells) (simp add: groupById_def assms(3,4) map_filter_simps oneFromEvery_def)
  then show ?thesis by (simp add: readPayment_def)
qed

lemma accept_new:
  assumes "readPayment now l (pay_id p) = None"
  shows "fst (fst (accept now l p due)) = withStatus now p" "readPayment now (snd (accept now l p due)) (pay_id p) = Some (withStatus now p)"
proof -
  let ?fact = "acceptedFact now l p"
  have fact: "fact_id ?fact = pay_id p" "accepted_payment ?fact = payment_text p" "key_of ?fact = (self_origin l, nextSeq l AcceptedFact)"
    by (simp_all add: acceptedFact_def sign_accepted_def key_of_def)
  have rows: "accepted_rows (snd (accept now l p due)) = accepted_rows l @ [?fact]"
    by (simp add: accept_def assms Let_def insert_new_fresh nextSeq_new_key fact(3))
  show "fst (fst (accept now l p due)) = withStatus now p" by (simp add: accept_def assms Let_def)
  show "readPayment now (snd (accept now l p due)) (pay_id p) = Some (withStatus now p)"
    using assms rows fact(1) by (rule readPayment_told) (simp add: fact(2) revive_def)
qed

text \<open>What is inserted under a name that stands for nothing yet is what the name stands for from then on.\<close>

lemma insert_new_payment:
  assumes "get now s i = None" "i = names s (caller unsaved) (paymentHash unsaved)" "insert_payment now s unsaved = (p, s')"
  shows "p = withStatus now (unsaved\<lparr>pay_id := i\<rparr>)" "get now s' i = Some p"
proof -
  have none: "settlement (st_ledger s) i = None" "readPayment now (st_ledger s) i = None"
    using assms(1) by (auto simp: get_def split: option.splits)
  let ?u = "unsaved\<lparr>pay_id := i\<rparr>"
  obtain due given where due: "accept now (st_ledger s) ?u due = ((p, given), st_ledger s')"
    using assms(3) none(1) by (auto simp: insert_payment_def Let_def spread_def assms(2) [symmetric] split: prod.splits if_splits)
  have "readPayment now (st_ledger s) (pay_id ?u) = None" using none(2) by simp
  from accept_new [OF this, of due] show "p = withStatus now ?u" by (simp add: due)
  from accept_new [OF \<open>readPayment now (st_ledger s) (pay_id ?u) = None\<close>, of due]
  have "readPayment now (st_ledger s') i = Some p" by (simp add: due)
  moreover have "settlement (st_ledger s') i = None"
    using none(1) paid_rows_accept [of now "st_ledger s" ?u due] by (simp add: due settlement_def)
  ultimately show "get now s' i = Some p" by (simp add: get_def)
qed

lemma withoutSecrets_asPaymentOf [simp]: "withoutSecrets (asPaymentOf settled watched) = settled"
  by (simp add: asPaymentOf_def)

lemma asPaymentOf_public [simp]:
  "pay_id (asPaymentOf settled watched) = pay_id settled" "preimage (asPaymentOf settled watched) = preimage settled"
  "paymentHash (asPaymentOf settled watched) = paymentHash settled"
  by (simp_all add: asPaymentOf_def)

lemma settlement_forget [simp]: "settlement (forget l i) j = settlement l j"
  by (simp add: settlement_def)

lemma paid_settled:
  "settlement (st_ledger s) i = Some settled \<Longrightarrow>
     paid now s i secret = Some ((asPaymentOf settled (readPayment now (st_ledger s) i), False),
       with_ledger (forget (st_ledger s) i) s)"
  by (simp add: paid_def Let_def)

lemma paid_won:
  assumes ok: "ledger_ok (st_ledger s)" "accepted_named (st_ledger s)"
    and none: "settlement (st_ledger s) i = None" and paid: "paid now s i secret = Some ((p, won), s')"
  shows "won \<and> settlement (st_ledger s') i = Some (withoutSecrets p) \<and> i \<notin> sched_id ` set (schedule (st_ledger s')) \<and>
    pay_id p = i \<and> proves (preimage p) (paymentHash p)"
proof -
  obtain w where w: "readPayment now (st_ledger s) i = Some w"
    using none paid by (auto simp: paid_def Let_def split: option.splits)
  then have i: "pay_id w = i" using readPayment_id ok(2) by blast
  obtain settled given l where st: "settle now (st_ledger s) w secret = Some ((settled, given), l)"
    using none paid w by (auto simp: paid_def Let_def split: option.splits)
  have eq: "won" "p = asPaymentOf settled (Some w)" "st_ledger s' = l"
    using none paid w st by (auto simp: paid_def Let_def)
  have holds: "proves (Some secret) (paymentHash w)" using st settle_effect [of secret w now "st_ledger s"] by (auto split: if_splits)
  have "i \<notin> fact_id ` set (paid_rows (st_ledger s))"
    using none ok(1) settlement_None_iff by (simp add: ledger_ok_def)
  then have "settled = withoutSecrets (w\<lparr>pay_status := Paid, preimage := Some secret\<rparr>) \<and> settlement l i = Some settled \<and>
      i \<notin> sched_id ` set (schedule l)"
    using settle_effect [of secret w now "st_ledger s"] holds st i by auto
  then show ?thesis using eq holds i by simp
qed

text \<open>
  C8: a payment settles once, and for good. Whoever brings a preimage to an instance, be it the
  poll, an agent or a client, is told the payment with a preimage that hashes to its payment
  hash; exactly the first one wins, everyone after is told the same settlement and causes
  nothing more, whatever secret they bring, and the payment is no longer on the schedule.
\<close>

theorem paid_wins_once:
  assumes "reachable (st_ledger s)" "paid now s i secret = Some ((p, won), s')"
  shows "pay_id p = i \<and> proves (preimage p) (paymentHash p) \<and> (won \<longleftrightarrow> settlement (st_ledger s) i = None) \<and>
    settlement (st_ledger s') i = Some (withoutSecrets p) \<and> i \<notin> sched_id ` set (schedule (st_ledger s')) \<and>
    (\<forall>now' secret'. \<exists>p' s''. paid now' s' i secret' = Some ((p', False), s'') \<and>
       withoutSecrets p' = withoutSecrets p \<and> events s'' = events s')"
proof -
  have ok: "ledger_ok (st_ledger s)" "accepted_named (st_ledger s)"
    using assms(1) ledger_ok_reachable accepted_named_reachable by auto
  have first: "pay_id p = i \<and> proves (preimage p) (paymentHash p) \<and> (won \<longleftrightarrow> settlement (st_ledger s) i = None) \<and>
      settlement (st_ledger s') i = Some (withoutSecrets p) \<and> i \<notin> sched_id ` set (schedule (st_ledger s'))"
  proof (cases "settlement (st_ledger s) i")
    case None
    then show ?thesis using paid_won [OF ok None assms(2)] by simp
  next
    case (Some settled)
    then have "p = asPaymentOf settled (readPayment now (st_ledger s) i)" "\<not> won" "s' = with_ledger (forget (st_ledger s) i) s"
      using assms(2) by (simp_all add: paid_settled)
    moreover have "pay_id settled = i \<and> proves (preimage settled) (paymentHash settled)"
      using settlement_proven [OF _ Some] ok(1) by (simp add: ledger_ok_def)
    ultimately show ?thesis using Some by auto
  qed
  then show ?thesis using paid_settled by fastforce
qed

definition settled_store :: store where
  "settled_store = new_store first_settled [7]"

lemma paid_wins_once_witness:
  "\<exists>p s'. paid 8 settled_store ''p'' ''00'' = Some ((p, False), s') \<and> preimage p = Some (bytesToHex [1]) \<and>
     proves (preimage p) (paymentHash p)"
proof -
  define told where "told = withoutSecrets (first_payment\<lparr>pay_status := Paid, preimage := Some (bytesToHex [1])\<rparr>)"
  have shown: "settlement (st_ledger settled_store) ''p'' = Some told"
    using first_settled_shown by (simp add: settled_store_def new_store_def told_def)
  have "reachable (st_ledger settled_store)"
    using stepped [OF first_reachable first_step] by (simp add: settled_store_def new_store_def)
  from paid_wins_once [OF this paid_settled [OF shown, of 8 "''00''"]]
  have "proves (preimage told) (paymentHash told)" by simp
  moreover have "preimage told = Some (bytesToHex [1])" by (simp add: told_def withoutSecrets_def public_payment.defs)
  ultimately show ?thesis by (simp add: paid_settled [OF shown])
qed

end
