(* ===== verification/Agents.thy ===== *)
theory Agents
  imports Lnurl "HOL-Library.AList"
begin

text \<open>
  \<^verbatim>\<open>src/agents.ts\<close>: the sockets callers hold open to answer for their own payments. A caller's
  sockets are a set object that is shared between the entry of the caller and the handlers of
  the sockets that joined while it was the entry, so the sets are kept in an explicit store and
  named by their address. The lemmas show that an entry holds the open sockets of its caller as
  long as every socket leaves once, that a socket which reports an error before it closes can
  take another one's entry with it, and that a question settles only with a proof, which one
  device of the caller is enough to give.
\<close>

definition ANSWER_MS :: int where "ANSWER_MS = 10000"

type_synonym socket = nat

record agents =
  held_at :: "(string \<times> nat) list"
  held_sets :: "socket list list"
  joined :: "(socket \<times> string \<times> nat) list"
  unanswered :: "socket list"

definition no_agents :: agents where
  "no_agents = \<lparr>held_at = [], held_sets = [], joined = [], unanswered = []\<rparr>"

definition held_by :: "agents \<Rightarrow> string \<Rightarrow> socket list" where
  "held_by a who = (case map_of (held_at a) who of None \<Rightarrow> [] | Some at_set \<Rightarrow> held_sets a ! at_set)"

definition has_agent :: "agents \<Rightarrow> string \<Rightarrow> bool" where
  "has_agent a who \<longleftrightarrow> map_of (held_at a) who \<noteq> None"

definition sockets_held :: "agents \<Rightarrow> nat" where
  "sockets_held a = sum_list (map (\<lambda>(who, at_set). length (held_sets a ! at_set)) (held_at a))"

subsection \<open>Holding a socket\<close>

definition attend :: "socket \<Rightarrow> string \<Rightarrow> agents \<Rightarrow> agents" where
  "attend s who a =
     (case map_of (held_at a) who of
        Some at_set \<Rightarrow>
          a\<lparr>held_sets := (held_sets a)[at_set := List.insert s (held_sets a ! at_set)], joined := joined a @ [(s, who, at_set)]\<rparr>
      | None \<Rightarrow>
          a\<lparr>held_sets := held_sets a @ [[s]], held_at := held_at a @ [(who, length (held_sets a))],
            joined := joined a @ [(s, who, length (held_sets a))]\<rparr>)"

text \<open>\<open>leave\<close> runs on every \<^verbatim>\<open>close\<close> and on every \<^verbatim>\<open>error\<close> of the socket.\<close>

definition leave :: "socket \<Rightarrow> agents \<Rightarrow> agents" where
  "leave s a =
     (case map_of (joined a) s of
        None \<Rightarrow> a
      | Some (who, at_set) \<Rightarrow>
          (let rest = removeAll s (held_sets a ! at_set);
               a' = a\<lparr>held_sets := (held_sets a)[at_set := rest]\<rparr>
           in if rest = [] then a'\<lparr>held_at := AList.delete who (held_at a')\<rparr> else a'))"

definition pong :: "socket \<Rightarrow> agents \<Rightarrow> agents" where
  "pong s a = a\<lparr>unanswered := removeAll s (unanswered a)\<rparr>"

text \<open>The sockets to terminate, and the state once the others are pinged.\<close>

definition keepAlive :: "agents \<Rightarrow> socket list \<times> agents" where
  "keepAlive a =
     (let held = concat (map (\<lambda>(who, at_set). held_sets a ! at_set) (held_at a))
      in (filter (\<lambda>s. s \<in> set (unanswered a)) held,
          a\<lparr>unanswered := unanswered a @ filter (\<lambda>s. s \<notin> set (unanswered a)) held\<rparr>))"

subsection \<open>Asking\<close>

text \<open>An answer is its preimage; \<^const>\<open>None\<close> of \<open>answerTo\<close> is a message that is no answer to this question.\<close>

definition answerTo :: "string \<Rightarrow> string \<Rightarrow> string option option" where
  "answerTo question raw =
     (case parse_json raw of
        Some (JObj members) \<Rightarrow>
          if field members ''ask'' \<noteq> Some (JStr question) then None
          else Some (case (field members ''settled'', field members ''preimage'') of
                       (Some (JBool True), Some (JStr p)) \<Rightarrow> Some p
                     | _ \<Rightarrow> None)
      | _ \<Rightarrow> None)"

definition answer_proves :: "string option \<Rightarrow> string \<Rightarrow> bool" where
  "answer_proves answer paymentHash \<longleftrightarrow>
     (case answer of None \<Rightarrow> False | Some p \<Rightarrow> preimageMatchesHash p paymentHash)"

text \<open>
  What is heard from the messages that come in until the time is up: each socket is listened to
  until its first answer, and the question is over when every socket got or one proved it.
\<close>

fun hear :: "string \<Rightarrow> string \<Rightarrow> nat \<Rightarrow> socket list \<Rightarrow> string option list \<Rightarrow> (socket \<times> string) list \<Rightarrow> string option list" where
  "hear question hash asked listening heard [] = heard"
| "hear question hash asked listening heard ((s, raw) # messages) =
     (if s \<notin> set listening then hear question hash asked listening heard messages
      else (case answerTo question raw of
              None \<Rightarrow> hear question hash asked listening heard messages
            | Some answer \<Rightarrow>
                let heard' = heard @ [answer]
                in if length heard' = asked \<or> answer_proves answer hash then heard'
                   else hear question hash asked (removeAll s listening) heard' messages))"

definition question_text :: "string \<Rightarrow> string \<Rightarrow> string" where
  "question_text question hash = stringify (JObj [(''ask'', JStr question), (''payment_hash'', JStr hash)])"

definition agent_says :: "string option \<Rightarrow> settlement" where
  "agent_says p = \<lparr>settled_preimage = p, settled_pace = None, settled_ceiling = None\<rparr>"

datatype agent_error = WrongPreimage string

text \<open>\<open>question\<close> is the random name of the question and \<open>messages\<close> what arrives before the time is up.\<close>

definition askAnAgent :: "agents \<Rightarrow> string \<Rightarrow> string \<Rightarrow> string \<Rightarrow> (socket \<times> string) list \<Rightarrow> agent_error + settlement option" where
  "askAnAgent a who hash question messages =
     (let held = held_by a who
      in if held = [] then Inr None
         else (let answers = hear question hash (length held) held [] messages
               in case find (\<lambda>answer. answer_proves answer hash) answers of
                    Some proven \<Rightarrow> Inr (Some (agent_says proven))
                  | None \<Rightarrow>
                      if list_ex (\<lambda>answer. answer \<noteq> None) answers then Inl (WrongPreimage hash)
                      else Inr (if answers = [] then None else Some (agent_says None))))"

subsection \<open>What settles a question\<close>

lemma askAnAgent_proves:
  "askAnAgent a who hash question messages = Inr (Some got) \<Longrightarrow>
     case settled_preimage got of None \<Rightarrow> True | Some p \<Rightarrow> preimageMatchesHash p hash"
  by (auto simp: askAnAgent_def Let_def agent_says_def answer_proves_def find_Some_iff split: if_splits option.splits)

lemma heard_kept: "prefix heard (hear question hash asked listening heard messages)"
proof (induction messages arbitrary: listening heard)
  case (Cons m messages)
  obtain s raw where m: "m = (s, raw)" by (cases m)
  show ?case
  proof (cases "answerTo question raw")
    case (Some answer)
    have "prefix heard (hear question hash asked (removeAll s listening) (heard @ [answer]) messages)"
      using Cons.IH [of "heard @ [answer]"] by (rule prefix_order.trans [rotated]) simp
    then show ?thesis using Cons.IH by (simp add: m Some Let_def)
  qed (simp add: m Cons.IH)
qed simp

lemma hear_proof:
  assumes "(s, raw) \<in> set messages" "s \<in> set listening" "answerTo question raw = Some (Some p)"
    and "preimageMatchesHash p hash" "\<forall>m\<in>set messages. fst m = s \<longrightarrow> answerTo question (snd m) \<in> {None, Some (Some p)}"
    and "length heard + length (remdups listening) = asked"
  shows "\<exists>answer\<in>set (hear question hash asked listening heard messages). answer_proves answer hash"
  using assms(1,2,5,6)
proof (induction messages arbitrary: listening heard)
  case (Cons m messages)
  obtain t said where m: "m = (t, said)" by (cases m)
  consider (deaf) "t \<notin> set listening \<or> answerTo question said = None" | (heard) answer where "t \<in> set listening" "answerTo question said = Some answer"
    by fastforce
  then show ?case
  proof cases
    case deaf
    have "(s, raw) \<noteq> m" using deaf Cons.prems(2) assms(3) by (auto simp: m)
    moreover have "hear question hash asked listening heard (m # messages) = hear question hash asked listening heard messages"
      using deaf by (auto simp: m)
    ultimately show ?thesis using Cons by auto
  next
    case heard
    show ?thesis
    proof (cases "answer_proves answer hash")
      case True
      then show ?thesis using heard by (simp add: m Let_def)
    next
      case False
      then have other: "t \<noteq> s" using Cons.prems(3) heard(2) assms(4) by (auto simp: m answer_proves_def)
      have left: "length (remdups (removeAll t listening)) = length (remdups listening) - 1"
        using heard(1) by (simp add: length_remdups_card_conv)
      have s: "s \<in> set (removeAll t listening)" using Cons.prems(2) other by simp
      then have "remdups (removeAll t listening) \<noteq> []" by (metis empty_iff list.set(1) set_remdups)
      then have more: "Suc (length heard) < asked" using left Cons.prems(4) by (cases "remdups (removeAll t listening)") auto
      have "(s, raw) \<in> set messages" using Cons.prems(1) other by (auto simp: m)
      from Cons.IH [OF this s, of "heard @ [answer]"] Cons.prems(3,4) left more heard(1) False
      show ?thesis by (simp add: m heard(2) Let_def)
    qed
  qed
qed simp

text \<open>
  One device is enough to prove a payment. If one of the sockets held for a caller answers the
  question with a preimage of the payment hash before the time is up, and answers nothing else,
  then the question settles with such a preimage, whatever the caller's other sockets say, wrong
  preimages included, or leave unsaid.
\<close>

theorem one_device_proves:
  assumes "s \<in> set (held_by a who)" "distinct (held_by a who)" "(s, raw) \<in> set messages"
    and "answerTo question raw = Some (Some p)" "preimageMatchesHash p hash"
    and "\<forall>m\<in>set messages. fst m = s \<longrightarrow> answerTo question (snd m) \<in> {None, Some (Some p)}"
  shows "\<exists>q. askAnAgent a who hash question messages = Inr (Some (agent_says (Some q))) \<and> preimageMatchesHash q hash"
proof -
  let ?heard = "hear question hash (length (held_by a who)) (held_by a who) [] messages"
  have "\<exists>answer\<in>set ?heard. answer_proves answer hash"
    using hear_proof [OF assms(3,1,4,5,6), of "[]"] assms(2) by (simp add: distinct_remdups_id)
  then obtain answer where answer: "find (\<lambda>answer. answer_proves answer hash) ?heard = Some answer" "answer_proves answer hash"
    by (metis (mono_tags, lifting) find_None_iff find_Some_iff not_Some_eq)
  then obtain q where "answer = Some q" "preimageMatchesHash q hash" by (cases answer) (simp_all add: answer_proves_def)
  moreover have "held_by a who \<noteq> []" using assms(1) by auto
  ultimately show ?thesis using answer by (auto simp: askAnAgent_def Let_def)
qed

subsection \<open>Who is held\<close>

text \<open>
  A socket joins once and leaves once. \<open>present\<close> is the sockets that joined and have not left,
  with the caller they speak for.
\<close>

inductive agents_step :: "agents \<times> (socket \<times> string) list \<Rightarrow> agents \<times> (socket \<times> string) list \<Rightarrow> bool" where
  joining: "s \<notin> fst ` set (joined a) \<Longrightarrow> agents_step (a, present) (attend s who a, present @ [(s, who)])"
| leaving: "(s, who) \<in> set present \<Longrightarrow> agents_step (a, present) (leave s a, removeAll (s, who) present)"
| answering: "agents_step (a, present) (pong s a, present)"
| pinging: "agents_step (a, present) (snd (keepAlive a), present)"

inductive agents_reached :: "agents \<times> (socket \<times> string) list \<Rightarrow> bool" where
  nobody: "agents_reached (no_agents, [])"
| onward: "agents_reached x \<Longrightarrow> agents_step x y \<Longrightarrow> agents_reached y"

definition entries_ok :: "(string \<times> nat) list \<Rightarrow> socket list list \<Rightarrow> (socket \<times> string \<times> nat) list \<Rightarrow>
    (socket \<times> string) list \<Rightarrow> bool" where
  "entries_ok entries sets joins present \<longleftrightarrow>
     distinct (map fst entries) \<and> distinct (map snd entries) \<and>
     (\<forall>(who, addr)\<in>set entries. addr < length sets \<and> sets ! addr \<noteq> [] \<and>
        distinct (sets ! addr) \<and> set (sets ! addr) = {s. (s, who) \<in> set present}) \<and>
     (\<forall>(s, who)\<in>set present. \<exists>addr. map_of joins s = Some (who, addr) \<and> map_of entries who = Some addr)"

definition agents_ok :: "agents \<Rightarrow> (socket \<times> string) list \<Rightarrow> bool" where
  "agents_ok a present \<longleftrightarrow> entries_ok (held_at a) (held_sets a) (joined a) present"

lemma entries_okI:
  assumes "distinct (map fst entries)" "distinct (map snd entries)"
    and "\<And>who addr. (who, addr) \<in> set entries \<Longrightarrow> addr < length sets \<and> sets ! addr \<noteq> [] \<and>
      distinct (sets ! addr) \<and> set (sets ! addr) = {s. (s, who) \<in> set present}"
    and "\<And>s who. (s, who) \<in> set present \<Longrightarrow>
      \<exists>addr. map_of joins s = Some (who, addr) \<and> map_of entries who = Some addr"
  shows "entries_ok entries sets joins present"
  unfolding entries_ok_def using assms by blast

lemma agents_okE:
  assumes "agents_ok a present"
  shows "distinct (map fst (held_at a))" "distinct (map snd (held_at a))"
    and "(who, addr) \<in> set (held_at a) \<Longrightarrow> addr < length (held_sets a) \<and> held_sets a ! addr \<noteq> [] \<and>
      distinct (held_sets a ! addr) \<and> set (held_sets a ! addr) = {s. (s, who) \<in> set present}"
    and "(s, who) \<in> set present \<Longrightarrow>
      \<exists>addr. map_of (joined a) s = Some (who, addr) \<and> map_of (held_at a) who = Some addr"
  using assms unfolding agents_ok_def entries_ok_def by blast+

lemma agents_okD:
  assumes "agents_ok a present" "map_of (held_at a) who = Some addr"
  shows "addr < length (held_sets a)" "held_sets a ! addr \<noteq> []" "distinct (held_sets a ! addr)"
    "set (held_sets a ! addr) = {s. (s, who) \<in> set present}"
  using agents_okE(3) [OF assms(1) map_of_SomeD [OF assms(2)]] by blast+

lemma present_joined:
  assumes "agents_ok a present" "(s, who) \<in> set present"
  obtains addr where "map_of (joined a) s = Some (who, addr)" "map_of (held_at a) who = Some addr"
  using agents_okE(4) [OF assms] by blast

lemma present_entry: "agents_ok a present \<Longrightarrow> (s, who) \<in> set present \<Longrightarrow> map_of (held_at a) who \<noteq> None"
  by (rule present_joined) (assumption+, simp del: not_None_eq)

lemma other_entry:
  assumes "agents_ok a present" "map_of (held_at a) who = Some addr" "(other, addr') \<in> set (held_at a)" "other \<noteq> who"
  shows "addr' \<noteq> addr"
proof
  assume "addr' = addr"
  have "inj_on snd (set (held_at a))" using agents_okE(2) [OF assms(1)] by (simp add: distinct_map)
  from inj_onD [OF this, of "(other, addr')" "(who, addr)"] \<open>addr' = addr\<close> assms(3,4) map_of_SomeD [OF assms(2)]
  show False by auto
qed

lemma map_of_snoc: "map_of (xs @ [(k, v)]) j = (if map_of xs j = None \<and> j = k then Some v else map_of xs j)"
  by (induction xs) auto

lemma same_entry:
  assumes "agents_ok a present" "map_of (held_at a) who = Some addr" "(who, addr') \<in> set (held_at a)"
  shows "addr' = addr"
  using agents_okE(1) [OF assms(1)] assms(2,3) by (metis map_of_eq_Some_iff option.inject)

lemma agents_ok_attend:
  assumes ok: "agents_ok a present" and new: "s \<notin> fst ` set (joined a)"
  shows "agents_ok (attend s who a) (present @ [(s, who)])"
proof -
  have absent: "(s, w) \<notin> set present" for w
    using present_joined [OF ok] new by (metis image_iff map_of_SomeD fst_conv)
  have keeps: "\<exists>addr. map_of (joined a @ [(s, who, addr')]) t = Some (w, addr) \<and> map_of (held_at a) w = Some addr"
    if "(t, w) \<in> set present" for t w addr'
    using present_joined [OF ok that] by (metis map_of_snoc option.simps(3))
  have fresh: "map_of (joined a @ [(s, who, addr')]) s = Some (who, addr')" for addr'
    using new by (simp add: map_of_snoc map_of_eq_None_iff del: map_of_append)
  show ?thesis
  proof (cases "map_of (held_at a) who")
    case (Some addr)
    note entry = agents_okD [OF ok Some]
    let ?sets = "(held_sets a)[addr := List.insert s (held_sets a ! addr)]"
    have "entries_ok (held_at a) ?sets (joined a @ [(s, who, addr)]) (present @ [(s, who)])"
    proof (rule entries_okI [OF agents_okE(1,2) [OF ok]])
      fix w addr' assume in_at: "(w, addr') \<in> set (held_at a)"
      show "addr' < length ?sets \<and> ?sets ! addr' \<noteq> [] \<and> distinct (?sets ! addr') \<and>
          set (?sets ! addr') = {t. (t, w) \<in> set (present @ [(s, who)])}"
      proof (cases "w = who")
        case True
        then show ?thesis using same_entry [OF ok Some] in_at entry by (auto simp: List.insert_def)
      next
        case False
        then show ?thesis using other_entry [OF ok Some in_at False] agents_okE(3) [OF ok in_at] by auto
      qed
    next
      fix t w assume "(t, w) \<in> set (present @ [(s, who)])"
      then show "\<exists>addr'. map_of (joined a @ [(s, who, addr)]) t = Some (w, addr') \<and> map_of (held_at a) w = Some addr'"
        using keeps fresh Some by (auto simp del: map_of_append)
    qed
    then show ?thesis by (simp add: agents_ok_def attend_def Some)
  next
    case None
    have nobody: "(t, who) \<notin> set present" for t using present_entry [OF ok] None by blast
    have not_who: "w \<noteq> who" if "(w, addr) \<in> set (held_at a)" for w addr
      using None that unfolding map_of_eq_None_iff by force
    let ?n = "length (held_sets a)"
    let ?at = "held_at a @ [(who, ?n)]"
    let ?sets = "held_sets a @ [[s]]"
    have "entries_ok ?at ?sets (joined a @ [(s, who, ?n)]) (present @ [(s, who)])"
    proof (rule entries_okI)
      show "distinct (map fst ?at)" using agents_okE(1) [OF ok] None by (simp add: map_of_eq_None_iff)
      show "distinct (map snd ?at)" using agents_okE(2,3) [OF ok] by fastforce
      fix w addr' assume "(w, addr') \<in> set ?at"
      then show "addr' < length ?sets \<and> ?sets ! addr' \<noteq> [] \<and> distinct (?sets ! addr') \<and>
          set (?sets ! addr') = {t. (t, w) \<in> set (present @ [(s, who)])}"
        using agents_okE(3) [OF ok, of w addr'] not_who nobody by (auto simp: nth_append less_Suc_eq)
    next
      fix t w assume "(t, w) \<in> set (present @ [(s, who)])"
      then consider "(t, w) \<in> set present" | "t = s" "w = who" by auto
      then show "\<exists>addr'. map_of (joined a @ [(s, who, ?n)]) t = Some (w, addr') \<and> map_of ?at w = Some addr'"
      proof cases
        case 1
        then show ?thesis using keeps [of t w ?n] by (fastforce simp: map_of_snoc simp del: map_of_append)
      next
        case 2
        then show ?thesis using fresh None by (simp add: map_of_snoc del: map_of_append)
      qed
    qed
    then show ?thesis by (simp add: agents_ok_def attend_def None)
  qed
qed

lemma agents_ok_leave:
  assumes ok: "agents_ok a present" and here: "(s, who) \<in> set present"
  shows "agents_ok (leave s a) (removeAll (s, who) present)"
proof -
  obtain addr where at: "map_of (joined a) s = Some (who, addr)" and entry: "map_of (held_at a) who = Some addr"
    using present_joined [OF ok here] by blast
  note held = agents_okD [OF ok entry]
  let ?rest = "removeAll s (held_sets a ! addr)"
  let ?sets = "(held_sets a)[addr := ?rest]"
  let ?P = "removeAll (s, who) present"
  have rest: "set ?rest = {t. (t, who) \<in> set ?P}" using held(4) by auto
  have still: "\<exists>addr. map_of (joined a) t = Some (w, addr) \<and> map_of (held_at a) w = Some addr" if "(t, w) \<in> set ?P" for t w
    using agents_okE(4) [OF ok, of t w] that by auto
  have checked: "addr' < length ?sets \<and> ?sets ! addr' \<noteq> [] \<and> distinct (?sets ! addr') \<and>
      set (?sets ! addr') = {t. (t, w) \<in> set ?P}"
    if "(w, addr') \<in> set (held_at a)" "w \<noteq> who \<or> ?rest \<noteq> []" for w addr'
  proof (cases "w = who")
    case True
    then show ?thesis using same_entry [OF ok entry] that held rest by (simp add: distinct_removeAll)
  next
    case False
    then have "{t. (t, w) \<in> set ?P} = {t. (t, w) \<in> set present}" by auto
    then show ?thesis using agents_okE(3) [OF ok that(1)] other_entry [OF ok entry that(1) False] by simp
  qed
  show ?thesis
  proof (cases "?rest = []")
    case False
    have "entries_ok (held_at a) ?sets (joined a) ?P"
      by (rule entries_okI [OF agents_okE(1,2) [OF ok]]) (use checked False still in blast)+
    with False show ?thesis by (simp add: agents_ok_def leave_def at)
  next
    case True
    let ?at = "AList.delete who (held_at a)"
    have kept: "(w, addr') \<in> set (held_at a) \<and> w \<noteq> who" if "(w, addr') \<in> set ?at" for w addr'
      using that by (auto simp: AList.delete_eq)
    have gone: "(t, who) \<notin> set ?P" for t using rest True by auto
    have "entries_ok ?at ?sets (joined a) ?P"
    proof (rule entries_okI)
      show "distinct (map fst ?at)" using agents_okE(1) [OF ok] by (rule distinct_delete)
      show "distinct (map snd ?at)" using agents_okE(2) [OF ok] by (auto simp: AList.delete_eq intro: distinct_map_filter)
    next
      fix t w assume present: "(t, w) \<in> set ?P"
      then have "w \<noteq> who" using gone by blast
      then show "\<exists>addr. map_of (joined a) t = Some (w, addr) \<and> map_of ?at w = Some addr"
        using still [OF present] by simp
    qed (use checked kept in blast)
    with True show ?thesis by (simp add: agents_ok_def leave_def at)
  qed
qed

lemma agents_ok_reached: "agents_reached (a, present) \<Longrightarrow> agents_ok a present"
proof (induction "(a, present)" arbitrary: a present rule: agents_reached.induct)
  case nobody
  show ?case by (simp add: agents_ok_def entries_ok_def no_agents_def)
next
  case (onward x)
  from onward.hyps(3) onward.hyps(2) show ?case
  proof (cases rule: agents_step.cases)
    case joining
    then show ?thesis using onward.hyps(2) by (simp add: agents_ok_attend)
  next
    case leaving
    then show ?thesis using onward.hyps(2) by (simp add: agents_ok_leave)
  qed (use onward.hyps(2) in \<open>auto simp: agents_ok_def pong_def keepAlive_def Let_def\<close>)
qed

text \<open>
  The gateway asks exactly the devices that are there. As long as every socket joins once and
  leaves once, in whatever order sockets of whatever callers come and go, the sockets held for
  a caller are the open ones it joined with, each once, and a caller with none has no entry.
\<close>

theorem held_are_present:
  assumes "agents_reached (a, present)"
  shows "set (held_by a who) = {s. (s, who) \<in> set present} \<and> distinct (held_by a who) \<and>
    (has_agent a who \<longleftrightarrow> (\<exists>s. (s, who) \<in> set present))"
proof -
  have ok: "agents_ok a present" using assms by (rule agents_ok_reached)
  show ?thesis
  proof (cases "map_of (held_at a) who")
    case None
    then have "\<nexists>s. (s, who) \<in> set present" using present_entry [OF ok] by blast
    then show ?thesis by (simp add: held_by_def has_agent_def None)
  next
    case (Some addr)
    note entry = agents_okD [OF ok Some]
    have "\<exists>s. s \<in> set (held_sets a ! addr)" using entry(2) by (cases "held_sets a ! addr") auto
    then have "\<exists>s. (s, who) \<in> set present" using entry(4) by blast
    then show ?thesis using entry(3,4) unfolding held_by_def has_agent_def Some by simp
  qed
qed

text \<open>
  A socket that leaves twice takes another one's place. A socket that reports an error and
  then closes runs the same handler twice; when the caller joined again in between, with any
  other socket, the second run empties the caller's entry, and the gateway no longer asks the
  socket that is open.
\<close>

theorem leaving_twice_forgets:
  "s \<noteq> t \<Longrightarrow> held_by (attend t who (leave s (attend s who no_agents))) who = [t] \<and>
     \<not> has_agent (leave s (attend t who (leave s (attend s who no_agents)))) who"
  by (simp add: no_agents_def attend_def leave_def held_by_def has_agent_def)

theorem leaving_twice_forgets_witness:
  "\<not> has_agent (leave 1 (attend 2 ''k'' (leave 1 (attend 1 ''k'' no_agents)))) ''k''"
  using leaving_twice_forgets [of 1 2 "''k''"] by simp

definition two_devices :: agents where
  "two_devices = attend 2 ''k'' (attend 1 ''k'' no_agents)"

theorem held_are_present_witness:
  "set (held_by two_devices ''k'') = {1, 2}"
proof -
  have "agents_reached (attend 1 ''k'' no_agents, [] @ [(1, ''k'')])"
    by (intro agents_reached.onward [OF agents_reached.nobody] agents_step.joining) (simp add: no_agents_def)
  then have "agents_reached (two_devices, ([] @ [(1, ''k'')]) @ [(2, ''k'')])"
    unfolding two_devices_def
    by (rule agents_reached.onward) (rule agents_step.joining, simp add: no_agents_def attend_def)
  from held_are_present [OF this, of "''k''"] show ?thesis by auto
qed

text \<open>One device says a wrong preimage, the other the all-one byte one.\<close>

definition device_messages :: "(socket \<times> string) list" where
  "device_messages =
     [(1, stringify (JObj [(''ask'', JStr ''q''), (''settled'', JBool True), (''preimage'', JStr ''00'')])),
      (2, stringify (JObj [(''ask'', JStr ''q''), (''settled'', JBool True), (''preimage'', JStr ''01'')]))]"

theorem one_device_proves_witness:
  "\<exists>q. askAnAgent two_devices ''k'' (bytesToHex (sha256 [1])) ''q'' device_messages = Inr (Some (agent_says (Some q))) \<and>
     preimageMatchesHash q (bytesToHex (sha256 [1]))"
proof (rule one_device_proves)
  show "2 \<in> set (held_by two_devices ''k'')" "distinct (held_by two_devices ''k'')"
    by (simp_all add: two_devices_def no_agents_def attend_def held_by_def)
  show "(2, stringify (JObj [(''ask'', JStr ''q''), (''settled'', JBool True), (''preimage'', JStr ''01'')])) \<in> set device_messages"
    by (simp add: device_messages_def)
  show said: "answerTo ''q'' (stringify (JObj [(''ask'', JStr ''q''), (''settled'', JBool True), (''preimage'', JStr ''01'')])) = Some (Some ''01'')"
    by (simp add: answerTo_def parse_stringify)
  then show "\<forall>m\<in>set device_messages. fst m = 2 \<longrightarrow> answerTo ''q'' (snd m) \<in> {None, Some (Some ''01'')}"
    by (simp add: device_messages_def)
  have "isHex ''01''" "hexToBytes ''01'' = [1]" by code_simp+
  moreover have "lower (bytesToHex (sha256 [1])) = bytesToHex (sha256 [1])"
    by (rule lower_fixes [OF lower_hex_bytesToHex])
  ultimately show "preimageMatchesHash ''01'' (bytesToHex (sha256 [1]))"
    unfolding preimageMatchesHash_def by simp
qed

end
