(* ===== verification/Signature.thy ===== *)
theory Signature
  imports Outbound Facts
begin

text \<open>
  \<^verbatim>\<open>core/signature.ts\<close>, \<^verbatim>\<open>core/ed25519.ts\<close> and \<^verbatim>\<open>core/caller.ts\<close>: who signed a request. The
  structured-headers package and the Ed25519 of the platform are parameters, the fields of
  \<open>platform\<close>; everything the code does with them is defined. \<open>Inl BadHeaderName\<close> is the error
  \<^verbatim>\<open>Headers.get\<close> throws on a name that is no header name; \<^const>\<open>None\<close> is \<^verbatim>\<open>null\<close>.
\<close>

subsection \<open>Structured fields and keys\<close>

datatype bare =
    BareString string
  | BareInt int
  | BareBytes bytes
  | BareOther string

type_synonym params = "(string \<times> bare) list"
type_synonym item = "bare \<times> params"
type_synonym inner_list = "item list \<times> params"

datatype dict_member = Single item | Inner inner_list

type_synonym dictionary = "(string \<times> dict_member) list"

record platform =
  parse_dictionary :: "string \<Rightarrow> dictionary option"
  serialize_dictionary :: "dictionary \<Rightarrow> string"
  serialize_inner :: "inner_list \<Rightarrow> string"
  serialize_string :: "string \<Rightarrow> string"
  url_of :: url_parser
  ed25519_verify :: "bytes \<Rightarrow> bytes \<Rightarrow> bytes \<Rightarrow> bool"
  ed25519_import :: "bytes \<Rightarrow> (string \<times> (bytes \<Rightarrow> string)) option"

record signing_key =
  publicKeyHex :: string
  sign_payload :: "bytes \<Rightarrow> string"

definition SEED_BYTES :: nat where "SEED_BYTES = 32"
definition SIGNATURE_BYTES :: nat where "SIGNATURE_BYTES = 64"
definition PUBLIC_KEY_BYTES :: nat where "PUBLIC_KEY_BYTES = 32"
definition PKCS8_HEADER :: bytes where "PKCS8_HEADER = hexToBytes ''302e020100300506032b657004220420''"
definition SIGN_BIT_CLEARED :: "8 word" where "SIGN_BIT_CLEARED = 0x7f"

definition hex_times :: "string \<Rightarrow> nat \<Rightarrow> string" where
  "hex_times two n = concat (replicate n two)"

definition SMALL_ORDER :: "string list" where
  "SMALL_ORDER =
     [hex_times ''00'' 32,
      ''01'' @ hex_times ''00'' 31,
      ''26e8958fc2b227b045c3f489f2ef98f0d5dfac05d3c63339b13802886d53fc05'',
      ''c7176a703d4dd84fba3c0b760d10670f2a2053fa2c39ccc64ec7fd7792ac037a'',
      ''ec'' @ hex_times ''ff'' 30 @ ''7f'',
      ''ed'' @ hex_times ''ff'' 30 @ ''7f'',
      ''ee'' @ hex_times ''ff'' 30 @ ''7f'']"

definition signingKeyFromSeed :: "platform \<Rightarrow> bytes \<Rightarrow> signing_key option" where
  "signingKeyFromSeed plat seed =
     (if length seed \<noteq> SEED_BYTES then None
      else map_option (\<lambda>(shown, sign). \<lparr>publicKeyHex = shown, sign_payload = sign\<rparr>)
             (ed25519_import plat (PKCS8_HEADER @ seed)))"

definition hasSmallOrder :: "string \<Rightarrow> bool" where
  "hasSmallOrder key =
     (let point = hexToBytes key;
          cleared = point[PUBLIC_KEY_BYTES - 1 := (point ! (PUBLIC_KEY_BYTES - 1)) AND SIGN_BIT_CLEARED]
      in bytesToHex cleared \<in> set SMALL_ORDER)"

definition verifyHex :: "platform \<Rightarrow> string \<Rightarrow> string \<Rightarrow> bytes \<Rightarrow> bool" where
  "verifyHex plat key signature payload =
     (if \<not> isHex key \<or> length key \<noteq> PUBLIC_KEY_BYTES * 2 then False
      else if hasSmallOrder key then False
      else if \<not> isHex signature \<or> length signature \<noteq> SIGNATURE_BYTES * 2 then False
      else ed25519_verify plat (hexToBytes key) (hexToBytes signature) payload)"

subsection \<open>What is signed\<close>

definition TOLERANCE_SECS :: int where "TOLERANCE_SECS = 300"
definition SIGNATURE_LABEL :: string where "SIGNATURE_LABEL = ''thunder-bridge''"
definition ALGORITHM :: string where "ALGORITHM = ''ed25519''"

definition is_public_key :: "string \<Rightarrow> bool" where
  "is_public_key s \<longleftrightarrow> length s = 64 \<and> list_all is_hex_char s"

record profile =
  profile_tag :: string
  profile_covers :: "string list"

definition CLIENT_SIGNS :: profile where
  "CLIENT_SIGNS =
     \<lparr>profile_tag = ''thunder-bridge-client'',
      profile_covers = [''@method'', ''@authority'', ''@path'', ''@query'', ''content-digest'']\<rparr>"

definition GATEWAY_SIGNS :: profile where
  "GATEWAY_SIGNS =
     \<lparr>profile_tag = ''thunder-bridge-gateway'',
      profile_covers = [''@method'', ''@scheme'', ''@authority'', ''@path'', ''content-digest'']\<rparr>"

record message =
  message_method :: string
  message_url :: string
  message_authority :: "string option"
  message_headers :: headers

record signer =
  keyid :: string
  created :: int
  signer_nonce :: "string option"

datatype thrown = BadHeaderName

definition contentDigest :: "platform \<Rightarrow> string \<Rightarrow> string" where
  "contentDigest plat body = serialize_dictionary plat [(''sha-256'', Single (BareBytes (sha256 (utf8 body)), []))]"

text \<open>A header name is a token of RFC 9110.\<close>

definition is_token_char :: "char \<Rightarrow> bool" where
  "is_token_char c \<longleftrightarrow> is_digit c \<or> is_letter c \<or> c \<in> set ''!#$%&*+-.^_|~'' \<or> code c = 39 \<or> code c = 96"

definition is_header_name :: "string \<Rightarrow> bool" where
  "is_header_name s \<longleftrightarrow> s \<noteq> [] \<and> list_all is_token_char s"

definition componentValue :: "platform \<Rightarrow> message \<Rightarrow> string \<Rightarrow> thrown + string option" where
  "componentValue plat m name =
     (case url_of plat (message_url m) of
        None \<Rightarrow> Inr None
      | Some u \<Rightarrow>
          if name = ''@method'' then Inr (Some (message_method m))
          else if name = ''@authority'' then
            Inr (Some (lower (case message_authority m of Some a \<Rightarrow> a | None \<Rightarrow> url_host u)))
          else if name = ''@scheme'' then Inr (Some (lower (butlast (url_protocol u))))
          else if name = ''@path'' then Inr (Some (if url_pathname u = [] then ''/'' else url_pathname u))
          else if name = ''@query'' then Inr (Some (if url_search u = [] then ''?'' else url_search u))
          else if starts_with ''@'' name then Inr None
          else if \<not> is_header_name name then Inl BadHeaderName
          else Inr (map_option trim (header_get (message_headers m) (lower name))))"

fun base_lines :: "platform \<Rightarrow> message \<Rightarrow> item list \<Rightarrow> string list \<Rightarrow> thrown + string list option" where
  "base_lines plat m [] seen = Inr (Some [])"
| "base_lines plat m ((name, parameters) # rest) seen =
     (case name of
        BareString n \<Rightarrow>
          if parameters \<noteq> [] \<or> n \<in> set seen then Inr None
          else and_then (componentValue plat m n) (\<lambda>found.
            case found of
              None \<Rightarrow> Inr None
            | Some v \<Rightarrow>
                and_then (base_lines plat m rest (seen @ [n])) (\<lambda>ls.
                  Inr (map_option (\<lambda>ls. (serialize_string plat n @ '': '' @ v) # ls) ls)))
      | _ \<Rightarrow> Inr None)"

definition params_line :: "platform \<Rightarrow> inner_list \<Rightarrow> string" where
  "params_line plat covered = CHR 0x22 # ''@signature-params'' @ [CHR 0x22] @ '': '' @ serialize_inner plat covered"

definition signatureBase :: "platform \<Rightarrow> message \<Rightarrow> inner_list \<Rightarrow> thrown + string option" where
  "signatureBase plat m covered =
     and_then (base_lines plat m (fst covered) []) (\<lambda>found.
       Inr (map_option (\<lambda>ls. join [CHR 0x0A] (ls @ [params_line plat covered])) found))"

definition covered_by :: "profile \<Rightarrow> signing_key \<Rightarrow> int \<Rightarrow> string \<Rightarrow> inner_list" where
  "covered_by prof key now drawn =
     (map (\<lambda>name. (BareString name, [])) (profile_covers prof),
      [(''created'', BareInt now), (''nonce'', BareString drawn), (''keyid'', BareString (publicKeyHex key)),
       (''alg'', BareString ALGORITHM), (''tag'', BareString (profile_tag prof))])"

text \<open>\<^const>\<open>None\<close> is the error of a message that cannot be signed under this profile.\<close>

definition signedBy :: "platform \<Rightarrow> signing_key \<Rightarrow> profile \<Rightarrow> message \<Rightarrow> string \<Rightarrow> int \<Rightarrow> string \<Rightarrow> headers option" where
  "signedBy plat key prof m body now drawn =
     (let digest = contentDigest plat body;
          covered = covered_by prof key now drawn
      in case signatureBase plat (m\<lparr>message_headers := [(''content-digest'', digest)]\<rparr>) covered of
           Inr (Some base) \<Rightarrow>
             Some [(''content-digest'', digest),
                   (''signature-input'', serialize_dictionary plat [(SIGNATURE_LABEL, Inner covered)]),
                   (''signature'', serialize_dictionary plat
                      [(SIGNATURE_LABEL, Single (BareBytes (hexToBytes (sign_payload key (utf8 base))), []))])]
         | _ \<Rightarrow> None)"

subsection \<open>Who signed\<close>

definition dictionaryOf :: "platform \<Rightarrow> string option \<Rightarrow> dictionary option" where
  "dictionaryOf plat value = Option.bind value (parse_dictionary plat)"

text \<open>The first label that carries the tag decides.\<close>

fun chosen_from :: "dictionary \<Rightarrow> dictionary \<Rightarrow> string \<Rightarrow> (inner_list \<times> bytes) option" where
  "chosen_from [] signatures tag = None"
| "chosen_from ((label, m) # rest) signatures tag =
     (case m of
        Inner covered \<Rightarrow>
          if map_of (snd covered) ''tag'' \<noteq> Some (BareString tag) then chosen_from rest signatures tag
          else (case map_of signatures label of
                  Some (Single (BareBytes signature, _)) \<Rightarrow>
                    if length signature = SIGNATURE_BYTES then Some (covered, signature) else None
                | _ \<Rightarrow> None)
      | Single _ \<Rightarrow> chosen_from rest signatures tag)"

definition chosen :: "platform \<Rightarrow> headers \<Rightarrow> string \<Rightarrow> (inner_list \<times> bytes) option" where
  "chosen plat hs tag =
     (case (dictionaryOf plat (header_get hs ''signature-input''), dictionaryOf plat (header_get hs ''signature'')) of
        (Some inputs, Some signatures) \<Rightarrow> chosen_from inputs signatures tag
      | _ \<Rightarrow> None)"

definition digestMatches :: "platform \<Rightarrow> string option \<Rightarrow> string \<Rightarrow> bool" where
  "digestMatches plat value body \<longleftrightarrow>
     (case Option.bind (dictionaryOf plat value) (\<lambda>d. map_of d ''sha-256'') of
        Some (Single (BareBytes sent, _)) \<Rightarrow> sent = sha256 (utf8 body)
      | _ \<Rightarrow> False)"

definition stamp_ok :: "int \<Rightarrow> int \<Rightarrow> params \<Rightarrow> (string \<times> int \<times> string option) option" where
  "stamp_ok now tolerance ps =
     (case (map_of ps ''keyid'', map_of ps ''created'') of
        (Some (BareString k), Some (BareInt c)) \<Rightarrow>
          if \<not> is_public_key k \<or> \<bar>now - c\<bar> > tolerance then None
          else if \<not> (map_of ps ''alg'' = None \<or> map_of ps ''alg'' = Some (BareString ALGORITHM)) then None
          else (case map_of ps ''nonce'' of
                  None \<Rightarrow> Some (k, c, None)
                | Some (BareString n) \<Rightarrow> Some (k, c, Some n)
                | _ \<Rightarrow> None)
      | _ \<Rightarrow> None)"

definition signerOf :: "platform \<Rightarrow> int \<Rightarrow> message \<Rightarrow> string \<Rightarrow> profile \<Rightarrow> int \<Rightarrow> thrown + signer option" where
  "signerOf plat now m body prof tolerance =
     (case chosen plat (message_headers m) (profile_tag prof) of
        None \<Rightarrow> Inr None
      | Some (covered, signature) \<Rightarrow>
          if \<not> list_all (\<lambda>name. BareString name \<in> fst ` set (fst covered)) (profile_covers prof) then Inr None
          else (case stamp_ok now tolerance (snd covered) of
                  None \<Rightarrow> Inr None
                | Some (k, c, drawn) \<Rightarrow>
                    if \<not> digestMatches plat (header_get (message_headers m) ''content-digest'') body then Inr None
                    else and_then (signatureBase plat m covered) (\<lambda>found.
                      case found of
                        None \<Rightarrow> Inr None
                      | Some base \<Rightarrow>
                          Inr (if verifyHex plat (lower k) (bytesToHex signature) (utf8 base)
                               then Some \<lparr>keyid = lower k, created = c, signer_nonce = drawn\<rparr> else None))))"

subsection \<open>Callers\<close>

definition SIGNING_LABEL :: string where "SIGNING_LABEL = ''request-signing''"

definition is_nonce :: "string \<Rightarrow> bool" where
  "is_nonce s \<longleftrightarrow> length s = 32 \<and> list_all is_lower_hex s"

definition callerKey :: "platform \<Rightarrow> string \<Rightarrow> signing_key option" where
  "callerKey plat secret = signingKeyFromSeed plat (hexToBytes (hmacHex (utf8 secret) (utf8 SIGNING_LABEL)))"

definition client_message :: "string \<Rightarrow> string \<Rightarrow> string \<Rightarrow> message" where
  "client_message method path host =
     \<lparr>message_method = method, message_url = ''https://'' @ host @ path, message_authority = Some host, message_headers = []\<rparr>"

definition gateway_message :: "string \<Rightarrow> string \<Rightarrow> string \<Rightarrow> headers \<Rightarrow> message" where
  "gateway_message method path host hs =
     \<lparr>message_method = method, message_url = ''https://gateway.invalid'' @ path, message_authority = Some host,
      message_headers = hs\<rparr>"

definition signedAs :: "platform \<Rightarrow> signing_key \<Rightarrow> string \<Rightarrow> string \<Rightarrow> string \<Rightarrow> string \<Rightarrow> int \<Rightarrow> string \<Rightarrow> headers option" where
  "signedAs plat key method path body host now drawn =
     signedBy plat key CLIENT_SIGNS (client_message method path host) body now drawn"

text \<open>\<open>fresh\<close> spends a nonce of a caller in the state of the gateway and says whether it was new.\<close>

definition callerOf :: "platform \<Rightarrow> int \<Rightarrow> headers \<Rightarrow> string \<Rightarrow> string \<Rightarrow> string \<Rightarrow> string \<Rightarrow>
    (string \<Rightarrow> string \<Rightarrow> 's \<Rightarrow> bool \<times> 's) \<Rightarrow> 's \<Rightarrow> (thrown + string option) \<times> 's" where
  "callerOf plat now hs method path body host fresh s =
     (case signerOf plat now (gateway_message method path host hs) body CLIENT_SIGNS TOLERANCE_SECS of
        Inl e \<Rightarrow> (Inl e, s)
      | Inr None \<Rightarrow> (Inr None, s)
      | Inr (Some sg) \<Rightarrow>
          (case signer_nonce sg of
             None \<Rightarrow> (Inr None, s)
           | Some drawn \<Rightarrow>
               if \<not> is_nonce drawn then (Inr None, s)
               else (case fresh (keyid sg) drawn s of (new, s') \<Rightarrow> (Inr (if new then Some (keyid sg) else None), s'))))"

subsection \<open>What a signature says\<close>

lemma signerOf_SomeD:
  assumes "signerOf plat now m body prof tolerance = Inr (Some sg)"
  obtains covered signature k base where
    "chosen plat (message_headers m) (profile_tag prof) = Some (covered, signature)"
    "\<forall>name\<in>set (profile_covers prof). BareString name \<in> fst ` set (fst covered)"
    "stamp_ok now tolerance (snd covered) = Some (k, created sg, signer_nonce sg)" "keyid sg = lower k"
    "digestMatches plat (header_get (message_headers m) ''content-digest'') body"
    "signatureBase plat m covered = Inr (Some base)"
    "verifyHex plat (keyid sg) (bytesToHex signature) (utf8 base)"
  using assms by (auto simp: signerOf_def list_all_iff split: option.splits if_splits prod.splits)

lemma stamp_ok_SomeD:
  "stamp_ok now tolerance ps = Some (k, c, n) \<Longrightarrow>
     is_public_key k \<and> \<bar>now - c\<bar> \<le> tolerance \<and> map_of ps ''created'' = Some (BareInt c) \<and>
     map_of ps ''keyid'' = Some (BareString k) \<and> map_of ps ''nonce'' = map_option BareString n"
  by (auto simp: stamp_ok_def split: option.splits bare.splits if_splits)

lemma verifyHexD:
  "verifyHex plat key signature payload \<Longrightarrow>
     isHex key \<and> length key = 64 \<and> \<not> hasSmallOrder key \<and>
     ed25519_verify plat (hexToBytes key) (hexToBytes signature) payload"
  by (auto simp: verifyHex_def PUBLIC_KEY_BYTES_def split: if_splits)

definition line_of :: "platform \<Rightarrow> message \<Rightarrow> string \<Rightarrow> string \<Rightarrow> bool" where
  "line_of plat m name text_line \<longleftrightarrow>
     (\<exists>v. componentValue plat m name = Inr (Some v) \<and> text_line = serialize_string plat name @ '': '' @ v)"

lemma base_lines_ConsD:
  assumes "base_lines plat m (item # items) seen = Inr (Some ls)"
  obtains n l rest where "fst item = BareString n" "line_of plat m n l" "ls = l # rest"
    "base_lines plat m items (seen @ [n]) = Inr (Some rest)"
proof (cases item)
  case (Pair name parameters)
  with assms obtain n where "name = BareString n" by (cases name) auto
  with assms Pair that show ?thesis
    by (auto simp: line_of_def split: if_splits sum.splits option.splits)
qed

lemma base_lines_SomeD:
  "base_lines plat m items seen = Inr (Some ls) \<Longrightarrow>
     list_all2 (\<lambda>item l. \<exists>name. fst item = BareString name \<and> line_of plat m name l) items ls"
proof (induction items arbitrary: seen ls)
  case (Cons item items)
  from Cons.prems show ?case by (rule base_lines_ConsD) (use Cons.IH in auto)
qed simp

text \<open>Header values and the structured texts are single lines, as HTTP has them.\<close>

definition single_lines :: "platform \<Rightarrow> message \<Rightarrow> bool" where
  "single_lines plat m \<longleftrightarrow> (\<forall>name v. componentValue plat m name = Inr (Some v) \<longrightarrow> CHR 0x0A \<notin> set v)"

definition structured_lines :: "platform \<Rightarrow> bool" where
  "structured_lines plat \<longleftrightarrow>
     (\<forall>name. CHR 0x0A \<notin> set (serialize_string plat name)) \<and> (\<forall>covered. CHR 0x0A \<notin> set (serialize_inner plat covered))"

lemma signatureBase_SomeD:
  assumes "signatureBase plat m covered = Inr (Some base)"
  obtains ls where "base_lines plat m (fst covered) [] = Inr (Some ls)" "base = join [CHR 0x0A] (ls @ [params_line plat covered])"
proof (cases "base_lines plat m (fst covered) []")
  case (Inr found)
  with assms obtain ls where "found = Some ls" "join [CHR 0x0A] (ls @ [params_line plat covered]) = base"
    by (cases found) (simp_all add: signatureBase_def)
  with Inr that show ?thesis by blast
qed (use assms in \<open>simp add: signatureBase_def\<close>)

lemma base_lines_line:
  assumes "base_lines plat m items seen = Inr (Some ls)" "l \<in> set ls"
  obtains name where "line_of plat m name l"
proof -
  have "\<forall>k < length ls. \<exists>name. line_of plat m name (ls ! k)"
    using base_lines_SomeD [OF assms(1)] unfolding list_all2_conv_all_nth by metis
  with assms(2) that show ?thesis by (metis in_set_conv_nth)
qed

lemma line_of_clean:
  assumes "line_of plat m name l" "single_lines plat m" "structured_lines plat"
  shows "CHR 0x0A \<notin> set l"
proof -
  obtain v where v: "componentValue plat m name = Inr (Some v)" and l: "l = serialize_string plat name @ '': '' @ v"
    using assms(1) unfolding line_of_def by blast
  have "CHR 0x0A \<notin> set v" "CHR 0x0A \<notin> set (serialize_string plat name)"
    using v assms(2,3) unfolding single_lines_def structured_lines_def by blast+
  then show ?thesis by (simp add: l)
qed

lemma base_lines_clean:
  assumes "base_lines plat m items seen = Inr (Some ls)" "single_lines plat m" "structured_lines plat"
  shows "\<forall>l\<in>set (ls @ [params_line plat covered]). CHR 0x0A \<notin> set l"
proof -
  have "CHR 0x0A \<notin> set l" if "l \<in> set ls" for l
    using base_lines_line [OF assms(1) that] line_of_clean [OF _ assms(2,3)] by blast
  moreover have "CHR 0x0A \<notin> set (params_line plat covered)"
  proof -
    have "CHR 0x0A \<notin> set (serialize_inner plat covered)" using assms(3) unfolding structured_lines_def by blast
    then show ?thesis by (simp add: params_line_def)
  qed
  ultimately show ?thesis by simp
qed

lemma base_lines_has:
  "base_lines plat m items seen = Inr (Some ls) \<Longrightarrow> BareString name \<in> fst ` set items \<Longrightarrow>
     \<exists>v. componentValue plat m name = Inr (Some v)"
proof (induction items arbitrary: seen ls)
  case (Cons item items)
  from Cons.prems(1) obtain n l rest where head: "fst item = BareString n" "line_of plat m n l"
      and rest: "base_lines plat m items (seen @ [n]) = Inr (Some rest)"
    by (rule base_lines_ConsD)
  show ?case
  proof (cases "n = name")
    case True
    then show ?thesis using head(2) unfolding line_of_def by blast
  next
    case False
    then have "BareString name \<in> fst ` set items" using Cons.prems(2) head(1) by auto
    with Cons.IH [OF rest] show ?thesis .
  qed
qed simp

lemma signatureBase_signs:
  assumes "signatureBase plat m covered = Inr (Some base)"
  obtains ls where "base = join [CHR 0x0A] (ls @ [params_line plat covered])"
    "\<forall>name. BareString name \<in> fst ` set (fst covered) \<longrightarrow> (\<exists>l\<in>set ls. line_of plat m name l)"
proof -
  obtain ls where ls: "base_lines plat m (fst covered) [] = Inr (Some ls)" "base = join [CHR 0x0A] (ls @ [params_line plat covered])"
    using assms by (rule signatureBase_SomeD)
  have "\<exists>l\<in>set ls. line_of plat m name l" if name: "BareString name \<in> fst ` set (fst covered)" for name
  proof -
    obtain k where k: "k < length (fst covered)" "fst (fst covered ! k) = BareString name"
      using name by (auto simp: in_set_conv_nth)
    then show ?thesis
      using base_lines_SomeD [OF ls(1)] by (auto simp: list_all2_conv_all_nth intro!: bexI [of _ "ls ! k"])
  qed
  with ls(2) that show ?thesis by blast
qed

lemma signatureBase_has:
  assumes "signatureBase plat m covered = Inr (Some base)" "BareString name \<in> fst ` set (fst covered)"
  shows "\<exists>v. componentValue plat m name = Inr (Some v)"
  using assms(1) by (rule signatureBase_SomeD) (use assms(2) base_lines_has in blast)

lemma chosen_from_length:
  "chosen_from inputs signatures tag = Some (covered, signature) \<Longrightarrow> length signature = SIGNATURE_BYTES"
  by (induction inputs) (auto split: dict_member.splits option.splits prod.splits bare.splits if_splits)

lemma chosen_length: "chosen plat hs tag = Some (covered, signature) \<Longrightarrow> length signature = SIGNATURE_BYTES"
  by (auto simp: chosen_def split: option.splits dest: chosen_from_length)

lemma lower_hex_lower: "list_all is_hex_char s \<Longrightarrow> list_all is_lower_hex (lower s)"
  by (auto simp: lower_def list_all_iff lower_is_lower_hex)

lemma signatureBase_binds:
  assumes "signatureBase plat m covered = Inr (Some base)" "signatureBase plat m' covered = Inr (Some base)"
    and "single_lines plat m" "single_lines plat m'" "structured_lines plat"
    and "BareString name \<in> fst ` set (fst covered)"
  shows "componentValue plat m name = componentValue plat m' name \<and> (\<exists>v. componentValue plat m name = Inr (Some v))"
proof -
  obtain ls where ls: "base_lines plat m (fst covered) [] = Inr (Some ls)" "base = join [CHR 0x0A] (ls @ [params_line plat covered])"
    using assms(1) by (rule signatureBase_SomeD)
  obtain ls' where ls': "base_lines plat m' (fst covered) [] = Inr (Some ls')" "base = join [CHR 0x0A] (ls' @ [params_line plat covered])"
    using assms(2) by (rule signatureBase_SomeD)
  have "ls @ [params_line plat covered] = ls' @ [params_line plat covered]"
    using split_on_join [OF _ base_lines_clean [OF ls(1) assms(3,5)]] split_on_join [OF _ base_lines_clean [OF ls'(1) assms(4,5)]]
      ls(2) ls'(2) by (metis snoc_eq_iff_butlast)
  then have same: "ls = ls'" by simp
  obtain k where k: "k < length (fst covered)" "fst (fst covered ! k) = BareString name"
    using assms(6) by (auto simp: in_set_conv_nth)
  have "k < length ls" using base_lines_SomeD [OF ls(1)] k(1) by (simp add: list_all2_lengthD)
  then have "line_of plat m name (ls ! k)" "line_of plat m' name (ls ! k)"
    using base_lines_SomeD [OF ls(1)] base_lines_SomeD [OF ls'(1)] k same
    by (auto simp: list_all2_conv_all_nth)
  then show ?thesis by (auto simp: line_of_def)
qed

lemma componentValue_simps:
  assumes "url_of plat (message_url m) = Some u"
  shows "componentValue plat m ''@method'' = Inr (Some (message_method m))"
    "componentValue plat m ''@authority'' = Inr (Some (lower (case message_authority m of Some a \<Rightarrow> a | None \<Rightarrow> url_host u)))"
    "componentValue plat m ''@scheme'' = Inr (Some (lower (butlast (url_protocol u))))"
    "componentValue plat m ''@path'' = Inr (Some (if url_pathname u = [] then ''/'' else url_pathname u))"
    "componentValue plat m ''@query'' = Inr (Some (if url_search u = [] then ''?'' else url_search u))"
    "componentValue plat m ''content-digest'' = Inr (map_option trim (header_get (message_headers m) ''content-digest''))"
proof -
  have name: "is_header_name ''content-digest''" "lower ''content-digest'' = ''content-digest''"
    by (simp_all add: is_header_name_def is_token_char_def is_digit_def is_letter_def code_def lower_def lower_char_def)
  show "componentValue plat m ''content-digest'' = Inr (map_option trim (header_get (message_headers m) ''content-digest''))"
    using assms by (simp add: componentValue_def name starts_with_code)
qed (use assms in \<open>simp_all add: componentValue_def\<close>)


subsection \<open>What a signature proves\<close>

text \<open>
  A named signer is a key that signed this request now. Whoever \<^const>\<open>signerOf\<close> names is 64
  lower-case hex digits that are no point of small order, under which the platform accepts a
  signature of 64 bytes over the base of this very message; the base covers every component of
  the profile, the body hashes to the digest that was sent, and the signature is at most the
  tolerance old or ahead.
\<close>

theorem signerOf_proves:
  assumes "signerOf plat now m body prof tolerance = Inr (Some sg)"
  shows "list_all is_lower_hex (keyid sg) \<and> length (keyid sg) = 64 \<and> \<not> hasSmallOrder (keyid sg) \<and>
    \<bar>now - created sg\<bar> \<le> tolerance \<and>
    digestMatches plat (header_get (message_headers m) ''content-digest'') body \<and>
    (\<exists>covered signature base.
       chosen plat (message_headers m) (profile_tag prof) = Some (covered, signature) \<and> length signature = 64 \<and>
       (\<forall>name\<in>set (profile_covers prof). \<exists>v. componentValue plat m name = Inr (Some v)) \<and>
       signatureBase plat m covered = Inr (Some base) \<and>
       ed25519_verify plat (hexToBytes (keyid sg)) signature (utf8 base))"
proof -
  from assms obtain covered signature k base where
    c: "chosen plat (message_headers m) (profile_tag prof) = Some (covered, signature)"
    and names: "\<forall>name\<in>set (profile_covers prof). BareString name \<in> fst ` set (fst covered)"
    and stamp: "stamp_ok now tolerance (snd covered) = Some (k, created sg, signer_nonce sg)" and k: "keyid sg = lower k"
    and digest: "digestMatches plat (header_get (message_headers m) ''content-digest'') body"
    and base: "signatureBase plat m covered = Inr (Some base)"
    and ver: "verifyHex plat (keyid sg) (bytesToHex signature) (utf8 base)"
    by (rule signerOf_SomeD)
  have "\<exists>v. componentValue plat m name = Inr (Some v)" if "name \<in> set (profile_covers prof)" for name
    using signatureBase_has [OF base] names that by blast
  moreover have "is_public_key k" "\<bar>now - created sg\<bar> \<le> tolerance" using stamp_ok_SomeD [OF stamp] by blast+
  moreover have "list_all is_lower_hex (keyid sg)" "length (keyid sg) = 64"
    using \<open>is_public_key k\<close> by (simp_all add: k is_public_key_def lower_hex_lower)
  moreover have "\<not> hasSmallOrder (keyid sg)" "ed25519_verify plat (hexToBytes (keyid sg)) signature (utf8 base)"
    using verifyHexD [OF ver] by (simp_all add: hexToBytes_bytesToHex)
  moreover have "length signature = 64" using chosen_length [OF c] by (simp add: SIGNATURE_BYTES_def)
  ultimately show ?thesis using c digest base by blast
qed


subsection \<open>What is signed is read back\<close>

definition understood :: "platform \<Rightarrow> dictionary \<Rightarrow> bool" where
  "understood plat d \<longleftrightarrow> parse_dictionary plat (serialize_dictionary plat d) = Some d"

definition honest_key :: "platform \<Rightarrow> signing_key \<Rightarrow> bool" where
  "honest_key plat key \<longleftrightarrow>
     length (publicKeyHex key) = 64 \<and> list_all is_lower_hex (publicKeyHex key) \<and> \<not> hasSmallOrder (publicKeyHex key) \<and>
     (\<forall>p. length (sign_payload key p) = 128 \<and>
          ed25519_verify plat (hexToBytes (publicKeyHex key)) (hexToBytes (sign_payload key p)) p)"

lemma isHex_bytesToHex: "isHex (bytesToHex bs) \<longleftrightarrow> bs \<noteq> []"
proof -
  have "list_all is_hex_char (bytesToHex bs)"
    using lower_hex_bytesToHex [of bs] by (auto simp: list_all_iff is_hex_char_def)
  then show ?thesis by (cases bs) (auto simp: isHex_def byte_to_hex_def)
qed

lemma verifyHex_honest:
  assumes "honest_key plat key"
  shows "verifyHex plat (publicKeyHex key) (bytesToHex (hexToBytes (sign_payload key p))) p"
proof -
  let ?s = "hexToBytes (sign_payload key p)"
  have "length ?s = 64" "ed25519_verify plat (hexToBytes (publicKeyHex key)) ?s p"
      "length (publicKeyHex key) = 64" "\<not> hasSmallOrder (publicKeyHex key)" "list_all is_lower_hex (publicKeyHex key)"
    using assms by (simp_all add: honest_key_def)
  moreover have "isHex (publicKeyHex key)"
    using calculation(3,5) by (auto simp: isHex_def list_all_iff is_hex_char_def)
  moreover have "isHex (bytesToHex ?s)" using calculation(1) isHex_bytesToHex [of ?s] by (metis list.size(3) zero_neq_numeral)
  ultimately show ?thesis
    by (simp add: verifyHex_def PUBLIC_KEY_BYTES_def SIGNATURE_BYTES_def hexToBytes_bytesToHex)
qed

lemma lower_header_names:
  "lower ''content-digest'' = ''content-digest''" "lower ''signature-input'' = ''signature-input''"
  "lower ''signature'' = ''signature''"
  by code_simp+

lemma signed_headers:
  "header_get [(''content-digest'', a), (''signature-input'', b), (''signature'', c)] ''content-digest'' = Some a"
  "header_get [(''content-digest'', a), (''signature-input'', b), (''signature'', c)] ''signature-input'' = Some b"
  "header_get [(''content-digest'', a), (''signature-input'', b), (''signature'', c)] ''signature'' = Some c"
  by (simp_all add: header_get_def lower_header_names)

lemma base_lines_cong:
  "(\<And>n. BareString n \<in> fst ` set items \<Longrightarrow> componentValue plat m n = componentValue plat m' n) \<Longrightarrow>
     base_lines plat m items seen = base_lines plat m' items seen"
proof (induction items arbitrary: seen)
  case (Cons item items)
  have IH: "base_lines plat m items seen = base_lines plat m' items seen" for seen
    using Cons by simp
  show ?case
  proof (cases item)
    case (Pair name ps)
    then show ?thesis using Cons.prems IH by (cases name) simp_all
  qed
qed simp

lemma signatureBase_cong:
  assumes "\<And>n. BareString n \<in> fst ` set (fst covered) \<Longrightarrow> componentValue plat m n = componentValue plat m' n"
  shows "signatureBase plat m covered = signatureBase plat m' covered"
  using base_lines_cong [of "fst covered" plat m m'] assms by (simp add: signatureBase_def)

lemma covered_by_names:
  "fst ` set (fst (covered_by prof key t drawn)) = BareString ` set (profile_covers prof)"
  by (simp add: covered_by_def image_image)

lemma covered_by_params:
  "map_of (snd (covered_by prof key t drawn)) ''created'' = Some (BareInt t)"
  "map_of (snd (covered_by prof key t drawn)) ''nonce'' = Some (BareString drawn)"
  "map_of (snd (covered_by prof key t drawn)) ''keyid'' = Some (BareString (publicKeyHex key))"
  "map_of (snd (covered_by prof key t drawn)) ''alg'' = Some (BareString ALGORITHM)"
  "map_of (snd (covered_by prof key t drawn)) ''tag'' = Some (BareString (profile_tag prof))"
  by (simp_all add: covered_by_def)

lemma stamp_ok_covered_by:
  assumes "honest_key plat key" "\<bar>now - t\<bar> \<le> tolerance"
  shows "stamp_ok now tolerance (snd (covered_by prof key t drawn)) = Some (publicKeyHex key, t, Some drawn)"
proof -
  have "is_public_key (publicKeyHex key)"
    using assms(1) by (auto simp: honest_key_def is_public_key_def list_all_iff is_hex_char_def)
  then show ?thesis using assms(2) by (simp add: stamp_ok_def covered_by_params)
qed

text \<open>The three fields a signer writes for a message.\<close>

definition written_fields :: "platform \<Rightarrow> signing_key \<Rightarrow> profile \<Rightarrow> string \<Rightarrow> int \<Rightarrow> string \<Rightarrow> bytes \<Rightarrow> dictionary list" where
  "written_fields plat key prof body t drawn signature =
     [[(''sha-256'', Single (BareBytes (sha256 (utf8 body)), []))],
      [(SIGNATURE_LABEL, Inner (covered_by prof key t drawn))],
      [(SIGNATURE_LABEL, Single (BareBytes signature, []))]]"

lemma signedBy_SomeD:
  assumes "signedBy plat key prof m body t drawn = Some hs"
  obtains base where
    "signatureBase plat (m\<lparr>message_headers := [(''content-digest'', contentDigest plat body)]\<rparr>)
       (covered_by prof key t drawn) = Inr (Some base)"
    "hs = [(''content-digest'', contentDigest plat body),
           (''signature-input'', serialize_dictionary plat [(SIGNATURE_LABEL, Inner (covered_by prof key t drawn))]),
           (''signature'', serialize_dictionary plat
              [(SIGNATURE_LABEL, Single (BareBytes (hexToBytes (sign_payload key (utf8 base))), []))])]"
  using assms by (auto simp: signedBy_def Let_def split: sum.splits option.splits)

lemma signed_is_read_among:
  assumes signed: "signedBy plat key prof m0 body t drawn = Some hs"
    and headers: "\<And>n. n \<in> {''content-digest'', ''signature-input'', ''signature''} \<Longrightarrow> header_get (message_headers m) n = header_get hs n"
    and same: "\<And>n. n \<in> set (profile_covers prof) \<Longrightarrow>
      componentValue plat (m0\<lparr>message_headers := [(''content-digest'', contentDigest plat body)]\<rparr>) n = componentValue plat m n"
    and honest: "honest_key plat key" and time: "\<bar>now - t\<bar> \<le> tolerance"
    and read: "\<forall>p. list_all (understood plat) (written_fields plat key prof body t drawn (hexToBytes (sign_payload key p)))"
  shows "signerOf plat now m body prof tolerance =
    Inr (Some \<lparr>keyid = publicKeyHex key, created = t, signer_nonce = Some drawn\<rparr>)"
proof -
  let ?c = "covered_by prof key t drawn"
  obtain base where base: "signatureBase plat (m0\<lparr>message_headers := [(''content-digest'', contentDigest plat body)]\<rparr>) ?c = Inr (Some base)"
    and hs: "hs = [(''content-digest'', contentDigest plat body),
           (''signature-input'', serialize_dictionary plat [(SIGNATURE_LABEL, Inner ?c)]),
           (''signature'', serialize_dictionary plat
              [(SIGNATURE_LABEL, Single (BareBytes (hexToBytes (sign_payload key (utf8 base))), []))])]"
    using signed by (rule signedBy_SomeD)
  let ?s = "hexToBytes (sign_payload key (utf8 base))"
  have got: "header_get (message_headers m) ''content-digest'' = Some (contentDigest plat body)"
      "header_get (message_headers m) ''signature-input'' = Some (serialize_dictionary plat [(SIGNATURE_LABEL, Inner ?c)])"
      "header_get (message_headers m) ''signature'' = Some (serialize_dictionary plat [(SIGNATURE_LABEL, Single (BareBytes ?s, []))])"
    using headers hs by (simp_all add: signed_headers)
  have u: "parse_dictionary plat (contentDigest plat body) = Some [(''sha-256'', Single (BareBytes (sha256 (utf8 body)), []))]"
      "parse_dictionary plat (serialize_dictionary plat [(SIGNATURE_LABEL, Inner ?c)]) = Some [(SIGNATURE_LABEL, Inner ?c)]"
      "parse_dictionary plat (serialize_dictionary plat [(SIGNATURE_LABEL, Single (BareBytes ?s, []))])
         = Some [(SIGNATURE_LABEL, Single (BareBytes ?s, []))]"
    using read by (simp_all add: understood_def written_fields_def contentDigest_def)
  have "signatureBase plat m ?c = Inr (Some base)"
  proof -
    have "n \<in> set (profile_covers prof)" if "BareString n \<in> fst ` set (fst ?c)" for n
      using that unfolding covered_by_names by auto
    from signatureBase_cong [of ?c plat _ m, OF same [OF this]] base show ?thesis by simp
  qed
  moreover have "chosen plat (message_headers m) (profile_tag prof) = Some (?c, ?s)"
    using honest by (simp add: chosen_def got dictionaryOf_def u covered_by_params
        SIGNATURE_BYTES_def honest_key_def)
  moreover have "digestMatches plat (header_get (message_headers m) ''content-digest'') body"
    by (simp add: digestMatches_def got dictionaryOf_def u)
  moreover have "list_all (\<lambda>name. BareString name \<in> fst ` set (fst ?c)) (profile_covers prof)"
    by (simp add: covered_by_names list_all_iff)
  moreover have "lower (publicKeyHex key) = publicKeyHex key" using honest by (simp add: honest_key_def lower_fixes)
  ultimately show ?thesis
    using stamp_ok_covered_by [OF honest time] verifyHex_honest [OF honest] by (simp add: signerOf_def)
qed

lemmas signed_is_read = signed_is_read_among [OF _ arg_cong [where f = "\<lambda>hs. header_get hs n" for n]]

text \<open>
  C7: a request signed as a client is answered as that client. Whatever key, method, path, body,
  time and nonce a client signs with, the gateway names the client's key when the headers, method,
  path and body arrive as they were signed, within five minutes of the time of signing, and the
  nonce is new. Assumed of the platform: it reads back the three fields the signer writes, its
  Ed25519 accepts what the key signed, and the address under the gateway's placeholder host has
  the path and the query of the address that was signed.
\<close>

theorem callerOf_signedAs:
  assumes "signedAs plat key method path body host t drawn = Some hs"
    and "honest_key plat key" "is_nonce drawn" "\<bar>now - t\<bar> \<le> 300"
    and "\<forall>p. list_all (understood plat) (written_fields plat key CLIENT_SIGNS body t drawn (hexToBytes (sign_payload key p)))"
    and "url_of plat (message_url (client_message method path host)) = Some u"
    and "url_of plat (message_url (gateway_message method path host hs)) = Some u'"
    and "url_pathname u = url_pathname u'" "url_search u = url_search u'"
  shows "callerOf plat now hs method path body host fresh s =
    (case fresh (publicKeyHex key) drawn s of (new, s') \<Rightarrow> (Inr (if new then Some (publicKeyHex key) else None), s'))"
proof -
  let ?sent = "client_message method path host"
  let ?got = "gateway_message method path host hs"
  let ?stamped = "?sent\<lparr>message_headers := [(''content-digest'', contentDigest plat body)]\<rparr>"
  have signed: "signedBy plat key CLIENT_SIGNS ?sent body t drawn = Some hs" using assms(1) by (simp add: signedAs_def)
  then have hs: "header_get (message_headers ?got) ''content-digest'' = Some (contentDigest plat body)"
    by (rule signedBy_SomeD) (simp only: gateway_message_def message.simps signed_headers)
  have "url_of plat (message_url ?stamped) = Some u" using assms(6) by simp
  note here = componentValue_simps [OF this] and there = componentValue_simps [OF assms(7)]
  have fields: "message_method ?stamped = method" "message_method ?got = method"
      "message_authority ?stamped = Some host" "message_authority ?got = Some host"
      "header_get (message_headers ?stamped) ''content-digest'' = Some (contentDigest plat body)"
    by (simp_all add: client_message_def gateway_message_def header_get_def lower_header_names)
  have "componentValue plat ?stamped ''@method'' = componentValue plat ?got ''@method''"
      "componentValue plat ?stamped ''@authority'' = componentValue plat ?got ''@authority''"
      "componentValue plat ?stamped ''@path'' = componentValue plat ?got ''@path''"
      "componentValue plat ?stamped ''@query'' = componentValue plat ?got ''@query''"
      "componentValue plat ?stamped ''content-digest'' = componentValue plat ?got ''content-digest''"
    unfolding here there fields hs assms(8,9) option.case by (rule refl)+
  then have same: "componentValue plat ?stamped n = componentValue plat ?got n" if "n \<in> set (profile_covers CLIENT_SIGNS)" for n
    using that unfolding CLIENT_SIGNS_def profile.simps list.set by blast
  have headers: "message_headers ?got = hs" by (simp add: gateway_message_def)
  have "signerOf plat now ?got body CLIENT_SIGNS 300 = Inr (Some \<lparr>keyid = publicKeyHex key, created = t, signer_nonce = Some drawn\<rparr>)"
    by (rule signed_is_read [OF signed headers same assms(2,4,5)])
  then show ?thesis using assms(3) by (simp add: callerOf_def TOLERANCE_SECS_def split: prod.split)
qed

subsection \<open>One signature, one request\<close>

definition trimmed_digest :: "message \<Rightarrow> bool" where
  "trimmed_digest m \<longleftrightarrow>
     (case header_get (message_headers m) ''content-digest'' of None \<Rightarrow> True | Some v \<Rightarrow> trim v = v)"

lemma digestMatchesD:
  assumes "digestMatches plat value body"
  obtains v d ps where "value = Some v" "parse_dictionary plat v = Some d"
    "map_of d ''sha-256'' = Some (Single (BareBytes (sha256 (utf8 body)), ps))"
  using assms
  by (auto simp: digestMatches_def dictionaryOf_def bind_eq_Some_conv
      split: option.splits dict_member.splits prod.splits bare.splits)

lemma componentValue_url:
  "componentValue plat m name = Inr (Some v) \<Longrightarrow> \<exists>u. url_of plat (message_url m) = Some u"
  by (cases "url_of plat (message_url m)") (simp_all add: componentValue_def)

text \<open>
  What the structured-headers package is taken at: two inner lists that it read out of fields are written as
  different texts when they differ, as parsing what was written gives the list back.
\<close>

definition inner_lists :: "platform \<Rightarrow> inner_list set" where
  "inner_lists plat = {c. \<exists>field d label. parse_dictionary plat field = Some d \<and> (label, Inner c) \<in> set d}"

definition written_apart :: "platform \<Rightarrow> bool" where
  "written_apart plat \<longleftrightarrow> inj_on (serialize_inner plat) (inner_lists plat)"

lemma chosen_from_inner: "chosen_from inputs signatures tag = Some (covered, signature) \<Longrightarrow> \<exists>label. (label, Inner covered) \<in> set inputs"
  by (induction inputs) (auto split: dict_member.splits option.splits prod.splits bare.splits if_splits)

lemma chosen_inner: "chosen plat hs tag = Some (covered, signature) \<Longrightarrow> covered \<in> inner_lists plat"
  by (auto simp: chosen_def inner_lists_def dictionaryOf_def bind_eq_Some_conv split: option.splits dest!: chosen_from_inner)

lemma signatureBase_covers:
  assumes "signatureBase plat m covered = Inr (Some base)" "signatureBase plat m' covered' = Inr (Some base)"
    and "single_lines plat m" "single_lines plat m'" "structured_lines plat"
  shows "serialize_inner plat covered = serialize_inner plat covered'"
proof -
  obtain ls where ls: "base_lines plat m (fst covered) [] = Inr (Some ls)" "base = join [CHR 0x0A] (ls @ [params_line plat covered])"
    using assms(1) by (rule signatureBase_SomeD)
  obtain ls' where ls': "base_lines plat m' (fst covered') [] = Inr (Some ls')" "base = join [CHR 0x0A] (ls' @ [params_line plat covered'])"
    using assms(2) by (rule signatureBase_SomeD)
  have "ls @ [params_line plat covered] = ls' @ [params_line plat covered']"
    using split_on_join [OF _ base_lines_clean [OF ls(1) assms(3,5)]] split_on_join [OF _ base_lines_clean [OF ls'(1) assms(4,5)]]
      ls(2) ls'(2) by (metis snoc_eq_iff_butlast)
  then show ?thesis by (simp add: params_line_def)
qed

lemma stamp_ok_same: "stamp_ok now tolerance ps = Some x \<Longrightarrow> stamp_ok now' tolerance' ps = Some y \<Longrightarrow> x = y"
  by (auto simp: stamp_ok_def split: option.splits bare.splits if_splits)

text \<open>
  C6: one signature is good for one request. If two requests, at whatever times they arrive, are both taken
  as signed under the client profile and the bytes that were signed are the same, then both cover the same
  components, are taken as signed by the same key at the same time with the same nonce, and have the same method,
  authority, path and query and bodies with the same SHA-256: a signature cannot be moved to another
  request. Assumed: header values and serialized fields hold no line feed and the digest field has no
  space around it, as HTTP has them, and the package writes different inner lists differently.
\<close>

theorem one_signature_one_request:
  assumes "signerOf plat now m body CLIENT_SIGNS tolerance = Inr (Some sg)"
    and "signerOf plat now' m' body' CLIENT_SIGNS tolerance' = Inr (Some sg')"
    and "chosen plat (message_headers m) ''thunder-bridge-client'' = Some (covered, signature)"
    and "chosen plat (message_headers m') ''thunder-bridge-client'' = Some (covered', signature')"
    and "signatureBase plat m covered = signatureBase plat m' covered'"
    and "single_lines plat m" "single_lines plat m'" "structured_lines plat" "written_apart plat" "trimmed_digest m" "trimmed_digest m'"
  shows "covered = covered' \<and> sg = sg' \<and> message_method m = message_method m' \<and> sha256 (utf8 body) = sha256 (utf8 body') \<and>
    (\<forall>name\<in>{''@authority'', ''@path'', ''@query''}. componentValue plat m name = componentValue plat m' name)"
proof -
  have tag: "profile_tag CLIENT_SIGNS = ''thunder-bridge-client''" by (simp add: CLIENT_SIGNS_def)
  obtain c s k base where "chosen plat (message_headers m) (profile_tag CLIENT_SIGNS) = Some (c, s)"
    and "stamp_ok now tolerance (snd c) = Some (k, created sg, signer_nonce sg)" and key: "keyid sg = lower k"
    and "\<forall>name\<in>set (profile_covers CLIENT_SIGNS). BareString name \<in> fst ` set (fst c)"
    and digest: "digestMatches plat (header_get (message_headers m) ''content-digest'') body"
    and "signatureBase plat m c = Inr (Some base)"
    using assms(1) by (rule signerOf_SomeD)
  then have names: "\<forall>name\<in>set (profile_covers CLIENT_SIGNS). BareString name \<in> fst ` set (fst covered)"
    and base: "signatureBase plat m covered = Inr (Some base)"
    and stamp: "stamp_ok now tolerance (snd covered) = Some (k, created sg, signer_nonce sg)"
    using assms(3) unfolding tag by simp_all
  obtain k' where stamp': "stamp_ok now' tolerance' (snd covered') = Some (k', created sg', signer_nonce sg')" and key': "keyid sg' = lower k'"
    and digest': "digestMatches plat (header_get (message_headers m') ''content-digest'') body'"
    using assms(2) by (rule signerOf_SomeD) (use assms(4) in \<open>auto simp: tag\<close>)
  have "serialize_inner plat covered = serialize_inner plat covered'"
    using base assms(5) by (intro signatureBase_covers [OF base _ assms(6-8)]) simp
  then have covers_same: "covered = covered'"
    by (rule inj_onD [OF assms(9) [unfolded written_apart_def] _ chosen_inner [OF assms(3)] chosen_inner [OF assms(4)]])
  have "sg = sg'" using stamp_ok_same [OF stamp stamp' [folded covers_same]] key key' by simp
  have same: "componentValue plat m name = componentValue plat m' name \<and> (\<exists>v. componentValue plat m name = Inr (Some v))"
    if "name \<in> set (profile_covers CLIENT_SIGNS)" for name
    using signatureBase_binds [OF base _ assms(6-8)] base assms(5) [folded covers_same] names that by (metis (no_types, lifting))
  have covers: "set (profile_covers CLIENT_SIGNS) = {''@method'', ''@authority'', ''@path'', ''@query'', ''content-digest''}"
    by (simp add: CLIENT_SIGNS_def)
  obtain u u' where u: "url_of plat (message_url m) = Some u" "url_of plat (message_url m') = Some u'"
    using same [of "''@method''"] componentValue_url [of plat] unfolding covers by (metis insertI1)
  note here = componentValue_simps [OF u(1)] and there = componentValue_simps [OF u(2)]
  have "message_method m = message_method m'" using same [of "''@method''"] unfolding covers here there by blast
  moreover have "sha256 (utf8 body) = sha256 (utf8 body')"
  proof -
    from digest obtain v d ps where v: "header_get (message_headers m) ''content-digest'' = Some v"
      "parse_dictionary plat v = Some d" "map_of d ''sha-256'' = Some (Single (BareBytes (sha256 (utf8 body)), ps))"
      by (rule digestMatchesD)
    from digest' obtain v' d' ps' where v': "header_get (message_headers m') ''content-digest'' = Some v'"
      "parse_dictionary plat v' = Some d'" "map_of d' ''sha-256'' = Some (Single (BareBytes (sha256 (utf8 body')), ps'))"
      by (rule digestMatchesD)
    have "trim v = trim v'" using same [of "''content-digest''"] unfolding covers here there v(1) v'(1) by simp
    then have "v = v'" using assms(10,11) v(1) v'(1) by (simp add: trimmed_digest_def)
    then show ?thesis using v(2,3) v'(2,3) by simp
  qed
  moreover have "\<forall>name\<in>{''@authority'', ''@path'', ''@query''}. componentValue plat m name = componentValue plat m' name"
    using same unfolding covers by blast
  ultimately show ?thesis using covers_same \<open>sg = sg'\<close> by blast
qed

subsection \<open>A client at work\<close>

text \<open>A platform, a key and a request the theorems above are applied to.\<close>

definition sample_key :: signing_key where
  "sample_key = \<lparr>publicKeyHex = hex_times ''5a'' 32, sign_payload = (\<lambda>p. hex_times ''07'' 64)\<rparr>"

definition sample_nonce :: string where "sample_nonce = hex_times ''0b'' 16"

definition sample_covered :: inner_list where
  "sample_covered = covered_by CLIENT_SIGNS sample_key 1000 sample_nonce"

definition sample_platform :: platform where
  "sample_platform =
     \<lparr>parse_dictionary = (\<lambda>s.
        if s = ''digest'' then Some [(''sha-256'', Single (BareBytes (sha256 (utf8 ''{}'')), []))]
        else if s = ''nothing'' then Some [(''sha-256'', Single (BareBytes (sha256 []), []))]
        else if s = ''input'' then Some [(SIGNATURE_LABEL, Inner sample_covered)]
        else if s = ''signed'' then Some [(SIGNATURE_LABEL, Single (BareBytes (hexToBytes (hex_times ''07'' 64)), []))]
        else None),
      serialize_dictionary = (\<lambda>d. case d of
        [(label, Inner _)] \<Rightarrow> ''input''
      | [(label, Single _)] \<Rightarrow> if label = SIGNATURE_LABEL then ''signed'' else ''digest''
      | _ \<Rightarrow> []),
      serialize_inner = (\<lambda>c. ''covered''),
      serialize_string = filter (\<lambda>c. c \<noteq> CHR 0x0A),
      url_of = (\<lambda>s. Some \<lparr>url_href = s, url_protocol = ''https:'', url_host = ''gateway.example'', url_hostname = ''gateway.example'',
        url_port = [], url_pathname = ''/payments'', url_search = [], url_hash = [],
        url_origin = ''https://gateway.example''\<rparr>),
      ed25519_verify = (\<lambda>key signature p. signature = hexToBytes (hex_times ''07'' 64)),
      ed25519_import = (\<lambda>_. None)\<rparr>"

definition sample_headers :: headers where
  "sample_headers = [(''content-digest'', ''digest''), (''signature-input'', ''input''), (''signature'', ''signed'')]"

definition sample_fresh :: "string \<Rightarrow> string \<Rightarrow> (string \<times> string) list \<Rightarrow> bool \<times> (string \<times> string) list" where
  "sample_fresh key drawn spent = ((key, drawn) \<notin> set spent, (key, drawn) # spent)"

lemma sample_key_honest: "honest_key sample_platform sample_key"
proof -
  have "length (publicKeyHex sample_key) = 64" "list_all is_lower_hex (publicKeyHex sample_key)"
    "\<not> hasSmallOrder (publicKeyHex sample_key)" "length (hex_times ''07'' 64) = 128"
    by code_simp+
  then show ?thesis by (simp add: honest_key_def) (simp add: sample_key_def sample_platform_def)
qed

lemma sample_understood:
  "list_all (understood sample_platform)
     (written_fields sample_platform sample_key CLIENT_SIGNS ''{}'' 1000 sample_nonce (hexToBytes (sign_payload sample_key p)))"
  by (simp add: written_fields_def understood_def sample_platform_def SIGNATURE_LABEL_def sample_covered_def)
    (simp add: sample_key_def)

lemma sample_url:
  "url_of sample_platform s = Some \<lparr>url_href = s, url_protocol = ''https:'', url_host = ''gateway.example'',
     url_hostname = ''gateway.example'', url_port = [], url_pathname = ''/payments'', url_search = [], url_hash = [],
     url_origin = ''https://gateway.example''\<rparr>"
  by (simp add: sample_platform_def)

definition sample_request :: message where
  "sample_request = gateway_message ''POST'' ''/payments'' ''gateway.example'' sample_headers"

definition sample_sent :: message where
  "sample_sent = (client_message ''POST'' ''/payments'' ''gateway.example'')\<lparr>message_headers := [(''content-digest'', ''digest'')]\<rparr>"

lemma sample_digest: "contentDigest sample_platform body = ''digest''"
  by (simp add: contentDigest_def sample_platform_def SIGNATURE_LABEL_def)

lemma sample_fields:
  "message_method sample_request = ''POST''" "message_method sample_sent = ''POST''"
  "message_authority sample_request = Some ''gateway.example''" "message_authority sample_sent = Some ''gateway.example''"
  "message_headers sample_request = sample_headers" "message_headers sample_sent = [(''content-digest'', ''digest'')]"
  "header_get sample_headers ''content-digest'' = Some ''digest''"
  "header_get [(''content-digest'', ''digest'')] ''content-digest'' = Some ''digest''"
  by (simp_all add: sample_request_def gateway_message_def sample_sent_def client_message_def sample_headers_def
      signed_headers header_get_def lower_header_names)

lemma sample_values:
  "componentValue sample_platform sample_request ''@method'' = Inr (Some ''POST'')"
  "componentValue sample_platform sample_request ''@authority'' = Inr (Some ''gateway.example'')"
  "componentValue sample_platform sample_request ''@path'' = Inr (Some ''/payments'')"
  "componentValue sample_platform sample_request ''@query'' = Inr (Some ''?'')"
  "componentValue sample_platform sample_request ''content-digest'' = Inr (Some ''digest'')"
  "componentValue sample_platform sample_sent ''@method'' = Inr (Some ''POST'')"
  "componentValue sample_platform sample_sent ''@authority'' = Inr (Some ''gateway.example'')"
  "componentValue sample_platform sample_sent ''@path'' = Inr (Some ''/payments'')"
  "componentValue sample_platform sample_sent ''@query'' = Inr (Some ''?'')"
  "componentValue sample_platform sample_sent ''content-digest'' = Inr (Some ''digest'')"
proof -
  have "lower ''gateway.example'' = ''gateway.example''" "trim ''digest'' = ''digest''" by code_simp+
  then show
    "componentValue sample_platform sample_request ''@method'' = Inr (Some ''POST'')"
    "componentValue sample_platform sample_request ''@authority'' = Inr (Some ''gateway.example'')"
    "componentValue sample_platform sample_request ''@path'' = Inr (Some ''/payments'')"
    "componentValue sample_platform sample_request ''@query'' = Inr (Some ''?'')"
    "componentValue sample_platform sample_request ''content-digest'' = Inr (Some ''digest'')"
    "componentValue sample_platform sample_sent ''@method'' = Inr (Some ''POST'')"
    "componentValue sample_platform sample_sent ''@authority'' = Inr (Some ''gateway.example'')"
    "componentValue sample_platform sample_sent ''@path'' = Inr (Some ''/payments'')"
    "componentValue sample_platform sample_sent ''@query'' = Inr (Some ''?'')"
    "componentValue sample_platform sample_sent ''content-digest'' = Inr (Some ''digest'')"
    using componentValue_simps [OF sample_url, of sample_request] componentValue_simps [OF sample_url, of sample_sent]
    by (simp_all add: sample_fields)
qed

lemma sample_same:
  "n \<in> set (profile_covers CLIENT_SIGNS) \<Longrightarrow>
     componentValue sample_platform sample_sent n = componentValue sample_platform sample_request n"
  by (auto simp: CLIENT_SIGNS_def sample_values)

lemma sample_base:
  "\<exists>base. signatureBase sample_platform sample_sent sample_covered = Inr (Some base)"
  by (simp add: signatureBase_def sample_covered_def covered_by_def CLIENT_SIGNS_def sample_values)

lemma sample_signed:
  "signedAs sample_platform sample_key ''POST'' ''/payments'' ''{}'' ''gateway.example'' 1000 sample_nonce = Some sample_headers"
proof -
  obtain base where "signatureBase sample_platform sample_sent sample_covered = Inr (Some base)"
    using sample_base by blast
  moreover have "serialize_dictionary sample_platform [(SIGNATURE_LABEL, Inner c)] = ''input''"
      "serialize_dictionary sample_platform [(SIGNATURE_LABEL, Single i)] = ''signed''" for c i
    by (simp_all add: sample_platform_def)
  ultimately show ?thesis
    by (simp add: signedAs_def signedBy_def Let_def sample_digest sample_headers_def
        flip: sample_sent_def sample_covered_def)
qed

theorem callerOf_signedAs_witness:
  "callerOf sample_platform 1200 sample_headers ''POST'' ''/payments'' ''{}'' ''gateway.example'' sample_fresh [] =
     (Inr (Some (publicKeyHex sample_key)), [(publicKeyHex sample_key, sample_nonce)])"
proof -
  have "is_nonce sample_nonce" by code_simp
  from callerOf_signedAs [OF sample_signed sample_key_honest this _ allI [OF sample_understood] sample_url sample_url, of 1200 sample_fresh "[]"]
  show ?thesis by (simp add: sample_fresh_def)
qed

text \<open>The platform takes the headers for a signature of whatever request carries them.\<close>

lemma sample_chosen:
  assumes "header_get hs ''signature-input'' = Some ''input''" "header_get hs ''signature'' = Some ''signed''"
  shows "chosen sample_platform hs ''thunder-bridge-client'' = Some (sample_covered, hexToBytes (hex_times ''07'' 64))"
  by (simp add: chosen_def assms dictionaryOf_def)
    (simp add: sample_platform_def sample_covered_def covered_by_params CLIENT_SIGNS_def covered_by_def SIGNATURE_BYTES_def hex_times_def
      numeral_eq_Suc)

lemma sample_signer:
  assumes "\<bar>now - 1000\<bar> \<le> tolerance"
    and got: "header_get (message_headers m) ''signature-input'' = Some ''input''" "header_get (message_headers m) ''signature'' = Some ''signed''"
    and digest: "header_get (message_headers m) ''content-digest'' = Some d" "digestMatches sample_platform (Some d) body"
  shows "signerOf sample_platform now m body CLIENT_SIGNS tolerance =
     Inr (Some \<lparr>keyid = publicKeyHex sample_key, created = 1000, signer_nonce = Some sample_nonce\<rparr>)"
proof -
  note here = componentValue_simps [OF sample_url, of m]
  have "\<exists>base. signatureBase sample_platform m sample_covered = Inr (Some base)"
    by (simp add: signatureBase_def sample_covered_def covered_by_def CLIENT_SIGNS_def here digest(1))
  then obtain base where base: "signatureBase sample_platform m sample_covered = Inr (Some base)" by blast
  have tag: "profile_tag CLIENT_SIGNS = ''thunder-bridge-client''" by (simp add: CLIENT_SIGNS_def)
  have covers: "list_all (\<lambda>name. BareString name \<in> fst ` set (fst sample_covered)) (profile_covers CLIENT_SIGNS)"
    by (simp add: sample_covered_def covered_by_names list_all_iff)
  have stamp: "stamp_ok now tolerance (snd sample_covered) = Some (publicKeyHex sample_key, 1000, Some sample_nonce)"
    unfolding sample_covered_def by (rule stamp_ok_covered_by [OF sample_key_honest assms(1)])
  have "lower (publicKeyHex sample_key) = publicKeyHex sample_key" using sample_key_honest by (simp add: honest_key_def lower_fixes)
  moreover have "sign_payload sample_key p = hex_times ''07'' 64" for p by (simp add: sample_key_def)
  then have "verifyHex sample_platform (publicKeyHex sample_key) (bytesToHex (hexToBytes (hex_times ''07'' 64))) (utf8 base)"
    using verifyHex_honest [OF sample_key_honest, of "utf8 base"] by simp
  ultimately show ?thesis
    by (simp add: signerOf_def tag sample_chosen [OF got] covers stamp digest base)
qed

lemma sample_digests:
  "digestMatches sample_platform (Some ''digest'') ''{}''" "digestMatches sample_platform (Some ''nothing'') []"
  by (simp_all add: digestMatches_def dictionaryOf_def) (simp_all add: sample_platform_def utf8_def)

text \<open>The request as it was sent, and as a proxy on the way may pass it on.\<close>

definition proxied_request :: message where
  "proxied_request = gateway_message ''POST'' ''/payments'' ''gateway.example'' (sample_headers @ [(''via'', ''1.1 proxy'')])"

lemma proxied_fields:
  "message_method proxied_request = ''POST''" "message_authority proxied_request = Some ''gateway.example''"
  "n \<in> {''content-digest'', ''signature-input'', ''signature''} \<Longrightarrow> header_get (message_headers proxied_request) n = header_get sample_headers n"
proof -
  have "lower ''via'' = ''via''" by code_simp
  then show "n \<in> {''content-digest'', ''signature-input'', ''signature''} \<Longrightarrow>
      header_get (message_headers proxied_request) n = header_get sample_headers n"
    by (auto simp: proxied_request_def gateway_message_def header_get_def)
qed (simp_all add: proxied_request_def gateway_message_def)

lemma proxied_same:
  assumes "n \<in> set (profile_covers CLIENT_SIGNS)"
  shows "componentValue sample_platform sample_request n = componentValue sample_platform proxied_request n"
  using assms componentValue_simps [OF sample_url, of sample_request] componentValue_simps [OF sample_url, of proxied_request]
  by (auto simp: CLIENT_SIGNS_def sample_fields proxied_fields)

theorem signerOf_proves_witness:
  "list_all is_lower_hex (publicKeyHex sample_key) \<and> \<bar>1200 - 1000 :: int\<bar> \<le> 300 \<and> \<not> hasSmallOrder (publicKeyHex sample_key)"
  using signerOf_proves [OF sample_signer [of 1200 300 sample_request "''digest''" "''{}''"]] sample_digests
  by (simp add: sample_fields sample_headers_def signed_headers)

lemma set_trim: "set (trim s) \<subseteq> set s"
  unfolding trim_def by (auto dest!: set_dropWhileD)

lemma header_get_chars:
  assumes "header_get hs name = Some v"
  shows "set v \<subseteq> set '', '' \<union> (\<Union>h\<in>set hs. set (snd h))"
proof -
  have "v = join '', '' (map snd (filter (\<lambda>(n, v). lower n = name) hs))"
    using assms by (auto simp: header_get_def Let_def split: if_splits)
  then show ?thesis using set_join [of "'', ''" "map snd (filter (\<lambda>(n, v). lower n = name) hs)"] by auto
qed

lemma sample_single:
  assumes "m \<in> {sample_request, proxied_request}"
  shows "single_lines sample_platform m"
  unfolding single_lines_def
proof (intro allI impI)
  fix name v assume got: "componentValue sample_platform m name = Inr (Some v)"
  have "CHR 0x0A \<notin> set w" if "header_get (message_headers m) (lower name) = Some w" for w
    using header_get_chars [OF that] assms
    by (auto simp: sample_fields sample_headers_def proxied_request_def gateway_message_def)
  then have field: "CHR 0x0A \<notin> set (trim w)" if "header_get (message_headers m) (lower name) = Some w" for w
    using that set_trim [of w] by blast
  have fields: "message_method m = ''POST''" "message_authority m = Some ''gateway.example''"
    using assms by (auto simp: sample_fields proxied_fields)
  have "CHR 0x0A \<notin> set (lower ''gateway.example'')" "CHR 0x0A \<notin> set (lower ''https'')"
    by code_simp+
  with got show "CHR 0x0A \<notin> set v"
    by (auto simp: componentValue_def sample_url fields split: if_splits dest: field)
qed

theorem one_signature_one_request_witness:
  "message_headers sample_request \<noteq> message_headers proxied_request \<and>
   (\<exists>sg sg'. signerOf sample_platform 1200 sample_request ''{}'' CLIENT_SIGNS 300 = Inr (Some sg) \<and>
      signerOf sample_platform 900 proxied_request ''{}'' CLIENT_SIGNS 200 = Inr (Some sg') \<and> sg = sg' \<and>
      (\<forall>name\<in>{''@authority'', ''@path'', ''@query''}.
         componentValue sample_platform sample_request name = componentValue sample_platform proxied_request name))"
proof -
  have got: "header_get (message_headers m) ''signature-input'' = Some ''input''" "header_get (message_headers m) ''signature'' = Some ''signed''"
      "header_get (message_headers m) ''content-digest'' = Some ''digest''" if "m \<in> {sample_request, proxied_request}" for m
    using that by (auto simp: sample_fields proxied_fields(3) sample_headers_def signed_headers)
  note c = sample_chosen [OF got(1,2)]
  have s: "structured_lines sample_platform" by (simp add: structured_lines_def sample_platform_def)
  have "inner_lists sample_platform \<subseteq> {sample_covered}"
    by (auto simp: inner_lists_def sample_platform_def split: if_splits)
  then have w: "written_apart sample_platform" unfolding written_apart_def by (rule inj_on_subset [rotated]) simp
  have "trim ''digest'' = ''digest''" by code_simp
  then have t: "trimmed_digest m" if "m \<in> {sample_request, proxied_request}" for m
    using that by (auto simp: trimmed_digest_def sample_fields proxied_fields(3))
  have "signatureBase sample_platform sample_request sample_covered = signatureBase sample_platform proxied_request sample_covered"
    using proxied_same unfolding sample_covered_def by (intro signatureBase_cong) (metis covered_by_names image_iff bare.inject(1))
  moreover have signer: "signerOf sample_platform 1200 sample_request ''{}'' CLIENT_SIGNS 300 =
      Inr (Some \<lparr>keyid = publicKeyHex sample_key, created = 1000, signer_nonce = Some sample_nonce\<rparr>)"
    "signerOf sample_platform 900 proxied_request ''{}'' CLIENT_SIGNS 200 =
      Inr (Some \<lparr>keyid = publicKeyHex sample_key, created = 1000, signer_nonce = Some sample_nonce\<rparr>)"
    by (rule sample_signer [OF _ got sample_digests(1)]; simp)+
  ultimately have same: "\<forall>name\<in>{''@authority'', ''@path'', ''@query''}.
      componentValue sample_platform sample_request name = componentValue sample_platform proxied_request name"
    using one_signature_one_request [OF signer c c _ sample_single sample_single s w t t] by simp
  have "message_headers sample_request \<noteq> message_headers proxied_request"
    by (simp add: sample_fields proxied_request_def gateway_message_def)
  then show ?thesis using same signer by simp
qed

end
