(* ===== verification/Watch.thy ===== *)
theory Watch
  imports Store Agents Signature
begin

text \<open>
  \<^verbatim>\<open>src/watch.ts\<close>: the loop that asks verify endpoints and agents whether payments settled and
  delivers webhooks. A tick starts a poll of every due payment and a delivery of every owed
  webhook; each runs on when its answer is in, in any order with everything else, so a poll is
  two operations, \<open>poll_begins\<close> up to the request and \<open>poll_ends\<close> after its answer, and a delivery
  likewise. Times are milliseconds where the code reads \<^verbatim>\<open>Date.now()\<close> and whole seconds where it
  reads \<^verbatim>\<open>unixNow()\<close>; rates and slots are exact fractions. The lemmas show how far apart the
  requests to one host are, that a challenge is passed exactly by echoing its nonce, that a poll
  always leaves its payment settled, scheduled again or out of time, what a poll and a delivery do with the
  answer they got (\<open>loop_ends_as_answered\<close>), and that everything the loop does to the ledger is a sequence of
  the ledger's own steps.
\<close>

definition LONGEST_WAIT_MS :: rat where "LONGEST_WAIT_MS = 5000"
definition CHALLENGE :: string where "CHALLENGE = ''webhook-challenge''"
definition VERIFY_CHALLENGE :: string where "VERIFY_CHALLENGE = ''verify-challenge''"
definition WATCH_HORIZON_SECS :: int where "WATCH_HORIZON_SECS = 2592000"

record budget =
  perSecond :: rat
  perTick :: nat
  nextAt :: "(string \<times> rat) list"
  paceOf :: "(string \<times> nat) list"
  ceilingOf :: "(string \<times> rat) list"

record watcher =
  w_store :: store
  w_eagerMs :: int
  w_budget :: budget
  w_agents :: agents

definition secs_of :: "int \<Rightarrow> int" where
  "secs_of nowMs = nowMs div 1000"

subsection \<open>The budget of a host\<close>

text \<open>\<open>shared\<close> is the number of instances that share the rate. The answer is how long to sleep, or nothing when the wait is too long.\<close>

definition rate_of :: "budget \<Rightarrow> nat \<Rightarrow> string \<Rightarrow> rat" where
  "rate_of b shared host = (case map_of (ceilingOf b) host of None \<Rightarrow> perSecond b | Some c \<Rightarrow> c) / of_nat shared"

definition spend :: "int \<Rightarrow> nat \<Rightarrow> budget \<Rightarrow> string \<Rightarrow> rat option \<times> budget" where
  "spend nowMs shared b host =
     (let now = of_int nowMs;
          slot = max now (case map_of (nextAt b) host of None \<Rightarrow> 0 | Some t \<Rightarrow> t)
      in if slot - now > LONGEST_WAIT_MS then (None, b)
         else (Some (slot - now), b\<lparr>nextAt := AList.update host (slot + 1000 / rate_of b shared host) (nextAt b)\<rparr>))"

definition turnOf :: "int \<Rightarrow> budget \<Rightarrow> string \<Rightarrow> int" where
  "turnOf nowMs b host = \<lceil>(case map_of (nextAt b) host of None \<Rightarrow> of_int nowMs | Some t \<Rightarrow> t) / 1000\<rceil>"

definition hostOf :: "url_parser \<Rightarrow> string \<Rightarrow> string" where
  "hostOf parse url = (case parse url of None \<Rightarrow> url | Some u \<Rightarrow> url_hostname u)"

definition nextDue :: "int \<Rightarrow> payment \<Rightarrow> int \<Rightarrow> rat option \<Rightarrow> int option" where
  "nextDue now p eagerMs askedMs =
     (let waited = now - createdAt p
      in if now \<ge> expiresAt p \<or> waited \<ge> WATCH_HORIZON_SECS then None
         else Some (min (now + \<lceil>pollDelayMs waited eagerMs askedMs / 1000\<rceil>) (expiresAt p)))"

definition paceAsked :: "budget \<Rightarrow> string \<Rightarrow> rat option" where
  "paceAsked b host = map_option (\<lambda>asked. of_nat asked * 1000) (map_of (paceOf b) host)"

definition noted_pace :: "string \<Rightarrow> settlement option \<Rightarrow> budget \<Rightarrow> budget" where
  "noted_pace host settled b =
     (case settled of
        None \<Rightarrow> b
      | Some s \<Rightarrow>
          (let b' = (case settled_pace s of
                       Some p \<Rightarrow> if p \<noteq> 0 then b\<lparr>paceOf := AList.update host p (paceOf b)\<rparr> else b | None \<Rightarrow> b)
           in case settled_ceiling s of
                Some c \<Rightarrow> if c \<noteq> 0 then b'\<lparr>ceilingOf := AList.update host c (ceilingOf b')\<rparr> else b'
              | None \<Rightarrow> b'))"

subsection \<open>Polling\<close>

text \<open>A poll that goes out asks the host, or the sockets of the agent, after the wait.\<close>

datatype started = PutOff | Goes (goes_to: string) (goes_agent: "string option") (goes_wait: rat)

definition poll_begins :: "url_parser \<Rightarrow> int \<Rightarrow> watcher \<Rightarrow> payment \<Rightarrow> started \<times> watcher" where
  "poll_begins parse nowMs w p =
     (let agent = agentAddressed (verifyUrl p);
          postpone = (\<lambda>w due. w\<lparr>w_store := postponed (secs_of nowMs) (w_store w) (pay_id p) (verifyUrl p) due\<rparr>)
      in if (case agent of None \<Rightarrow> False | Some who \<Rightarrow> \<not> has_agent (w_agents w) who)
         then (PutOff, postpone w (nextDue (secs_of nowMs) p (w_eagerMs w) None))
         else (let host = (case agent of None \<Rightarrow> hostOf parse (verifyUrl p) | Some who \<Rightarrow> who)
               in case spend nowMs (instances (w_store w)) (w_budget w) host of
                    (None, b) \<Rightarrow> (PutOff, postpone (w\<lparr>w_budget := b\<rparr>) (Some (turnOf nowMs b host)))
                  | (Some wait, b) \<Rightarrow> (Goes host agent wait, w\<lparr>w_budget := b\<rparr>)))"

text \<open>What the answer is: a failure is caught and reads as no answer.\<close>

definition answerFor :: "network \<Rightarrow> agents \<Rightarrow> payment \<Rightarrow> string option \<Rightarrow> string \<Rightarrow> (socket \<times> string) list \<Rightarrow>
    request list \<Rightarrow> settlement option \<times> request list" where
  "answerFor net a p agent question messages trace =
     (case agent of
        None \<Rightarrow> checkSettled net (verifyUrl p) (paymentHash p) trace
      | Some who \<Rightarrow>
          (case askAnAgent a who (paymentHash p) question messages of
             Inl _ \<Rightarrow> None | Inr settled \<Rightarrow> settled, trace))"

definition poll_ends :: "int \<Rightarrow> watcher \<Rightarrow> payment \<Rightarrow> string \<Rightarrow> settlement option \<Rightarrow> watcher" where
  "poll_ends now w p host settled =
     (let b = noted_pace host settled (w_budget w);
          w' = w\<lparr>w_budget := b\<rparr>;
          due = nextDue now p (w_eagerMs w) (paceAsked b host);
          i = pay_id p
      in case settled of
           None \<Rightarrow> w'\<lparr>w_store := missed now (w_store w) i (verifyUrl p) due\<rparr>
         | Some s \<Rightarrow>
             (case settled_preimage s of
                None \<Rightarrow> w'\<lparr>w_store := Store.polled now (w_store w) i (verifyUrl p) due\<rparr>
              | Some secret \<Rightarrow>
                  if secret = [] then w'\<lparr>w_store := Store.polled now (w_store w) i (verifyUrl p) due\<rparr>
                  else (case Store.paid now (w_store w) i secret of
                          None \<Rightarrow> w'
                        | Some (_, st) \<Rightarrow> w'\<lparr>w_store := st\<rparr>)))"

fun begin_polls :: "url_parser \<Rightarrow> int \<Rightarrow> watcher \<Rightarrow> payment list \<Rightarrow> (payment \<times> string \<times> string option) list \<times> watcher" where
  "begin_polls parse nowMs w [] = ([], w)"
| "begin_polls parse nowMs w (p # ps) =
     (case poll_begins parse nowMs w p of
        (PutOff, w') \<Rightarrow> begin_polls parse nowMs w' ps
      | (Goes host agent wait, w') \<Rightarrow>
          (case begin_polls parse nowMs w' ps of (out, w'') \<Rightarrow> ((p, host, agent) # out, w'')))"

text \<open>What a tick does before anything answers: the polls that go out and the deliveries that start.\<close>

definition tick :: "url_parser \<Rightarrow> int \<Rightarrow> watcher \<Rightarrow> (payment \<times> string \<times> string option) list \<times> delivery list \<times> watcher" where
  "tick parse nowMs w =
     (case duePolls_store (secs_of nowMs) (w_store w) (perTick (w_budget w)) LEASE_SECS of
        (due, st) \<Rightarrow>
          (case begin_polls parse nowMs (w\<lparr>w_store := st\<rparr>) due of
             (out, w') \<Rightarrow>
               (case dueDeliveries_store (secs_of nowMs) (w_store w') (perTick (w_budget w')) LEASE_SECS of
                  (owed, st') \<Rightarrow> (out, owed, w'\<lparr>w_store := st'\<rparr>))))"

subsection \<open>Webhooks\<close>

definition signedHeaders :: "platform \<Rightarrow> signing_key \<Rightarrow> string \<Rightarrow> string \<Rightarrow> int \<Rightarrow> string \<Rightarrow> headers option" where
  "signedHeaders plat key url body now drawn =
     map_option (\<lambda>hs. (''content-type'', ''application/json'') # hs)
       (signedBy plat key GATEWAY_SIGNS
          \<lparr>message_method = ''POST'', message_url = url, message_authority = None, message_headers = []\<rparr> body now drawn)"

definition posted :: "headers \<Rightarrow> string \<Rightarrow> sent" where
  "posted hs body = \<lparr>sent_method = Some ''POST'', sent_headers = hs, sent_body = Some body, staysOnOrigin = True\<rparr>"

definition notify :: "network \<Rightarrow> platform \<Rightarrow> signing_key \<Rightarrow> delivery \<Rightarrow> int \<Rightarrow> string \<Rightarrow> request list \<Rightarrow> bool \<times> request list" where
  "notify net plat key owed now drawn trace =
     (case signedHeaders plat key (owed_url owed) (owed_body owed) now drawn of
        None \<Rightarrow> (False, trace)
      | Some hs \<Rightarrow>
          (case ask net (owed_url owed) (posted hs (owed_body owed)) trace of
             (Inl _, trace') \<Rightarrow> (False, trace')
           | (Inr answer, trace') \<Rightarrow> (answer_ok answer, trace')))"

definition deliver_ends :: "int \<Rightarrow> watcher \<Rightarrow> delivery \<Rightarrow> bool \<Rightarrow> watcher" where
  "deliver_ends now w owed taken =
     (if taken then w\<lparr>w_store := delivered_to now (w_store w) owed\<rparr>
      else w\<lparr>w_store := snd (undelivered_store now (w_store w) owed)\<rparr>)"

subsection \<open>Challenges\<close>

definition challenge_proves :: "string \<Rightarrow> string \<Rightarrow> bool" where
  "challenge_proves body nonce \<longleftrightarrow>
     (case parse_json body of Some (JObj members) \<Rightarrow> field members ''nonce'' = Some (JStr nonce) | _ \<Rightarrow> False)"

definition challenge_body :: "string \<Rightarrow> string \<Rightarrow> string" where
  "challenge_body type_name nonce = stringify (JObj [(''type'', JStr type_name), (''nonce'', JStr nonce)])"

text \<open>\<open>nonce\<close> is the hex text of 32 random bytes, \<open>drawn\<close> the nonce of the signature.\<close>

definition consents :: "network \<Rightarrow> platform \<Rightarrow> signing_key \<Rightarrow> string \<Rightarrow> string \<Rightarrow> string \<Rightarrow> int \<Rightarrow> string \<Rightarrow>
    request list \<Rightarrow> bool \<times> request list" where
  "consents net plat key url type_name nonce now drawn trace =
     (let body = challenge_body type_name nonce
      in case signedHeaders plat key url body now drawn of
           None \<Rightarrow> (False, trace)
         | Some hs \<Rightarrow>
             (case ask net url (posted hs body) trace of
                (Inl _, trace') \<Rightarrow> (False, trace')
              | (Inr answer, trace') \<Rightarrow> (answer_ok answer \<and> challenge_proves (answer_body answer) nonce, trace')))"

definition confirmWebhook :: "network \<Rightarrow> platform \<Rightarrow> signing_key \<Rightarrow> webhook \<Rightarrow> string \<Rightarrow> int \<Rightarrow> string \<Rightarrow>
    request list \<Rightarrow> bool \<times> request list" where
  "confirmWebhook net plat key hook = consents net plat key hook CHALLENGE"

definition confirmVerify :: "network \<Rightarrow> platform \<Rightarrow> signing_key \<Rightarrow> string \<Rightarrow> string \<Rightarrow> int \<Rightarrow> string \<Rightarrow>
    request list \<Rightarrow> bool \<times> request list" where
  "confirmVerify net plat key url = consents net plat key url VERIFY_CHALLENGE"

subsection \<open>The pace of requests to a host\<close>

datatype budget_event =
    Spends int nat string
  | Hears string "settlement option"

text \<open>The requests that go out: the host, the time, and how long the host is left alone after it.\<close>

fun requests_made :: "budget \<Rightarrow> budget_event list \<Rightarrow> (string \<times> rat \<times> rat) list" where
  "requests_made b [] = []"
| "requests_made b (Spends nowMs shared host # es) =
     (case spend nowMs shared b host of
        (None, b') \<Rightarrow> requests_made b' es
      | (Some wait, b') \<Rightarrow> (host, of_int nowMs + wait, 1000 / rate_of b shared host) # requests_made b' es)"
| "requests_made b (Hears host settled # es) = requests_made (noted_pace host settled b) es"

definition rates_ok :: "budget \<Rightarrow> bool" where
  "rates_ok b \<longleftrightarrow> 0 < perSecond b \<and> (\<forall>host c. map_of (ceilingOf b) host = Some c \<longrightarrow> 0 < c)"

fun event_ok :: "budget_event \<Rightarrow> bool" where
  "event_ok (Spends nowMs shared host) \<longleftrightarrow> 0 \<le> nowMs \<and> 0 < shared"
| "event_ok (Hears host settled) \<longleftrightarrow>
     (case Option.bind settled settled_ceiling of None \<Rightarrow> True | Some c \<Rightarrow> 0 < c)"

definition free_at :: "budget \<Rightarrow> string \<Rightarrow> rat" where
  "free_at b host = (case map_of (nextAt b) host of None \<Rightarrow> 0 | Some t \<Rightarrow> t)"

lemma rate_pos: "rates_ok b \<Longrightarrow> 0 < shared \<Longrightarrow> 0 < rate_of b shared host"
  by (auto simp: rates_ok_def rate_of_def split: option.split)

lemma spend_Some:
  assumes "spend nowMs shared b host = (Some wait, b')"
  shows "of_int nowMs + wait = max (of_int nowMs) (free_at b host)" "0 \<le> wait" "wait \<le> 5000"
    "free_at b' host = of_int nowMs + wait + 1000 / rate_of b shared host"
    "other \<noteq> host \<Longrightarrow> free_at b' other = free_at b other" "rates_ok b' = rates_ok b"
  using assms
  by (auto simp: spend_def Let_def free_at_def LONGEST_WAIT_MS_def update_conv' rates_ok_def split: if_splits)

lemma spend_None: "spend nowMs shared b host = (None, b') \<Longrightarrow> b' = b"
  by (auto simp: spend_def Let_def split: if_splits)

lemma noted_pace_free [simp]: "free_at (noted_pace host settled b) other = free_at b other"
  by (auto simp: free_at_def noted_pace_def Let_def split: option.splits)

lemma noted_pace_rates: "rates_ok b \<Longrightarrow> event_ok (Hears host settled) \<Longrightarrow> rates_ok (noted_pace host settled b)"
  by (auto simp: rates_ok_def noted_pace_def Let_def update_conv' split: option.splits if_splits)

lemma requests_after:
  "rates_ok b \<Longrightarrow> list_all event_ok es \<Longrightarrow> \<forall>(host, t, gap)\<in>set (requests_made b es). free_at b host \<le> t \<and> 0 \<le> gap"
proof (induction b es rule: requests_made.induct)
  case (2 b nowMs shared host es)
  then have rate: "0 < rate_of b shared host" by (simp add: rate_pos)
  obtain asked b' where s: "spend nowMs shared b host = (asked, b')" by fastforce
  show ?case
  proof (cases asked)
    case None
    then show ?thesis using 2 s spend_None by fastforce
  next
    case (Some wait)
    note sp = spend_Some [OF s [unfolded Some]]
    have IH: "\<forall>(h, t, gap)\<in>set (requests_made b' es). free_at b' h \<le> t \<and> 0 \<le> gap"
      using 2 s Some sp(6) by simp
    have "0 \<le> 1000 / rate_of b shared host" using rate by simp
    then have "free_at b h \<le> free_at b' h" for h
    proof (cases "h = host")
      case True
      then show ?thesis using sp(1,4) \<open>0 \<le> 1000 / rate_of b shared host\<close> unfolding True by linarith
    qed (simp add: sp(5))
    then have "\<forall>(h, t, gap)\<in>set (requests_made b' es). free_at b h \<le> t \<and> 0 \<le> gap"
      using IH by (fastforce intro: order_trans)
    then show ?thesis using sp(1) rate by (simp add: s Some)
  qed
next
  case (3 b host settled es)
  then show ?case using noted_pace_rates by (fastforce split: prod.splits)
qed simp

text \<open>
  A host is never asked faster than its rate. Whatever payments are polled, webhooks confirmed
  and paces heard in whatever order, two requests that the budget lets through to one host are
  at least the reciprocal of the rate that held at the first one apart, and no request waits for
  more than five seconds.
\<close>

theorem requests_keep_their_distance:
  assumes "rates_ok b" "list_all event_ok es"
  shows "sorted_wrt (\<lambda>(host, t, gap) (host', t', gap'). host = host' \<longrightarrow> t + gap \<le> t') (requests_made b es) \<and>
    (\<forall>nowMs shared host wait b'. spend nowMs shared b host = (Some wait, b') \<longrightarrow> 0 \<le> wait \<and> wait \<le> 5000)"
proof
  show "sorted_wrt (\<lambda>(host, t, gap) (host', t', gap'). host = host' \<longrightarrow> t + gap \<le> t') (requests_made b es)"
    using assms
  proof (induction b es rule: requests_made.induct)
    case (2 b nowMs shared host es)
    obtain asked b' where s: "spend nowMs shared b host = (asked, b')" by fastforce
    show ?case
    proof (cases asked)
      case None
      then show ?thesis using 2 s spend_None by fastforce
    next
      case (Some wait)
      note sp = spend_Some [OF s [unfolded Some]]
      have "\<forall>(h, t, gap)\<in>set (requests_made b' es). free_at b' h \<le> t \<and> 0 \<le> gap"
        using requests_after [of b' es] 2 sp(6) by simp
      then show ?thesis using 2 sp(4,6) by (auto simp: s Some)
    qed
  next
    case (3 b host settled es)
    then show ?case using noted_pace_rates by simp
  qed simp
  show "\<forall>nowMs shared host wait b'. spend nowMs shared b host = (Some wait, b') \<longrightarrow> 0 \<le> wait \<and> wait \<le> 5000"
    using spend_Some(2,3) by blast
qed

definition calm_budget :: budget where
  "calm_budget = \<lparr>perSecond = 2, perTick = 1, nextAt = [], paceOf = [], ceilingOf = []\<rparr>"

definition two_spends :: "budget_event list" where
  "two_spends = [Spends 1000 1 ''h'', Spends 1000 1 ''h'']"

theorem requests_keep_their_distance_witness:
  "requests_made calm_budget two_spends = [(''h'', 1000, 500), (''h'', 1500, 500)] \<and> (1000 :: rat) + 500 \<le> 1500"
proof -
  have made: "requests_made calm_budget two_spends = [(''h'', 1000, 500), (''h'', 1500, 500)]"
    by (simp add: calm_budget_def two_spends_def spend_def rate_of_def LONGEST_WAIT_MS_def)
  have ok: "rates_ok calm_budget" "list_all event_ok two_spends"
    by (simp_all add: rates_ok_def calm_budget_def two_spends_def)
  from requests_keep_their_distance [OF ok, THEN conjunct1] show ?thesis unfolding made by simp
qed

subsection \<open>When a payment is asked about again\<close>

lemma pollDelay_pos:
  assumes "0 < eagerMs" "\<forall>asked. askedMs = Some asked \<longrightarrow> 0 < asked"
  shows "0 < pollDelayMs waited eagerMs askedMs"
  using assms by (auto simp: pollDelayMs_def EAGER_WINDOW_SECS_def STALENESS_def split: option.split)

text \<open>
  The time of the next poll is bounded. A payment that is open is asked about again after this
  second and no later than its expiry; on its own account, with no pace asked for, at most a
  tenth of the age of the payment later, rounded up, or the eager delay when it is younger than
  five minutes; and a payment is given up exactly when it expired or was watched for thirty days.
\<close>

theorem nextDue_bounds:
  assumes "0 < eagerMs" "\<forall>asked. askedMs = Some asked \<longrightarrow> 0 < asked"
  shows "case nextDue now p eagerMs askedMs of
      None \<Rightarrow> expiresAt p \<le> now \<or> createdAt p + 2592000 \<le> now
    | Some due \<Rightarrow> now < due \<and> due \<le> expiresAt p \<and> now < createdAt p + 2592000 \<and>
        (askedMs = None \<longrightarrow> due - now \<le> (if now - createdAt p < 300 then \<lceil>rat_of_int eagerMs / 1000\<rceil>
                                           else \<lceil>rat_of_int (now - createdAt p) / 10\<rceil>))"
proof -
  let ?delay = "pollDelayMs (now - createdAt p) eagerMs askedMs"
  have "0 < ?delay / 1000" using pollDelay_pos [OF assms] by simp
  then have "1 \<le> \<lceil>?delay / 1000\<rceil>" by (simp add: one_le_ceiling)
  moreover have "?delay = (if now - createdAt p < 300 then of_int eagerMs else of_int (now - createdAt p) * (1 / 10) * 1000)"
    if "askedMs = None"
    using that by (simp add: pollDelayMs_def EAGER_WINDOW_SECS_def STALENESS_def)
  then have "?delay / 1000 = (if now - createdAt p < 300 then rat_of_int eagerMs / 1000 else rat_of_int (now - createdAt p) / 10)"
    if "askedMs = None"
    using that by simp
  then have "\<lceil>?delay / 1000\<rceil> = (if now - createdAt p < 300 then \<lceil>rat_of_int eagerMs / 1000\<rceil> else \<lceil>rat_of_int (now - createdAt p) / 10\<rceil>)"
    if "askedMs = None"
    using that by (simp split: if_splits)
  ultimately show ?thesis
    unfolding nextDue_def Let_def WATCH_HORIZON_SECS_def min_def by (simp split: if_split)
qed

theorem nextDue_bounds_witness: "nextDue 1001 (first_payment\<lparr>expiresAt := 9000\<rparr>) 5000 None = Some 1101 \<and> (1101 :: int) \<le> 9000"
proof -
  have due: "nextDue 1001 (first_payment\<lparr>expiresAt := 9000\<rparr>) 5000 None = Some 1101"
    by (simp add: nextDue_def first_payment_def WATCH_HORIZON_SECS_def pollDelayMs_def EAGER_WINDOW_SECS_def STALENESS_def)
  from nextDue_bounds [where eagerMs = 5000 and askedMs = None and now = 1001 and p = "first_payment\<lparr>expiresAt := 9000\<rparr>"] show ?thesis by (simp add: due)
qed

subsection \<open>Consent\<close>

text \<open>
  A host is polled and a webhook is called only with its consent. A challenge is passed exactly
  when the request that carries it is answered with a success whose body is a JSON object with the
  nonce as its member; the request goes to the address asked for over public https, and no
  redirect takes it off that address's origin.
\<close>

theorem consents_iff_echo:
  "(fst (consents net plat key url type_name nonce now drawn trace) \<longleftrightarrow>
     (\<exists>hs answer members.
        signedHeaders plat key url (challenge_body type_name nonce) now drawn = Some hs \<and>
        fst (ask net url (posted hs (challenge_body type_name nonce)) trace) = Inr answer \<and> answer_ok answer \<and>
        parse_json (answer_body answer) = Some (JObj members) \<and> field members ''nonce'' = Some (JStr nonce))) \<and>
   (\<exists>made. snd (consents net plat key url type_name nonce now drawn trace) = trace @ made \<and>
      list_all (request_safe net) made \<and>
      \<not> (\<exists>j. Suc j < length made \<and> \<not> sameOrigin (parse_url net) (request_url (made ! j)) (request_url (made ! Suc j))))"
proof (cases "signedHeaders plat key url (challenge_body type_name nonce) now drawn")
  case None
  then show ?thesis by (auto simp: consents_def Let_def)
next
  case (Some hs)
  obtain result trace' where run: "ask net url (posted hs (challenge_body type_name nonce)) trace = (result, trace')" by fastforce
  then obtain made where made: "trace' = trace @ made" "chain_ok net url (posted hs (challenge_body type_name nonce)) made"
    unfolding ask_def using ask_hops_chain by blast
  have "list_all (request_safe net) made"
    using chain_ok_hops [OF made(2)] hop_ok_safe by (auto simp: list_all_iff)
  moreover have "sameOrigin (parse_url net) (request_url (made ! j)) (request_url (made ! Suc j))" if "Suc j < length made" for j
    using that chain_ok_origin [OF made(2), of j] by (simp add: posted_def)
  ultimately show ?thesis
    using made(1) by (cases result) (auto simp: consents_def Let_def Some run challenge_proves_def split: option.splits json.splits)
qed

subsection \<open>The loop over time\<close>

text \<open>
  One instance's loop: the watcher, the polls that are out with the host they asked, and the
  deliveries that are out. Whatever an answer says, it is a settlement that carries no preimage or
  a text that claims to be one.
\<close>

type_synonym watching = "watcher \<times> (payment \<times> string \<times> string option) list \<times> delivery list"

inductive watch_step :: "watching \<Rightarrow> watching \<Rightarrow> bool" where
  ticking: "tick parse nowMs w = (out, owed, w') \<Longrightarrow> watch_step (w, polls, posts) (w', polls @ out, posts @ owed)"
| polled_one: "(p, host, agent) \<in> set polls \<Longrightarrow>
    watch_step (w, polls, posts) (poll_ends now w p host settled, remove1 (p, host, agent) polls, posts)"
| posted_one: "owed \<in> set posts \<Longrightarrow>
    watch_step (w, polls, posts) (deliver_ends now w owed taken, polls, remove1 owed posts)"

definition ledger_of :: "watching \<Rightarrow> ledger" where
  "ledger_of x = st_ledger (w_store (fst x))"

definition stores :: "watcher \<Rightarrow> watcher \<Rightarrow> bool" where
  "stores w w' \<longleftrightarrow> ledger_work\<^sup>*\<^sup>* (st_ledger (w_store w)) (st_ledger (w_store w'))"

lemma stores_refl [intro, simp]: "stores w w"
  by (simp add: stores_def)

lemma stores_trans [trans]: "stores w w' \<Longrightarrow> stores w' w'' \<Longrightarrow> stores w w''"
  by (simp add: stores_def)

lemma stores_one: "ledger_work (st_ledger (w_store w)) (st_ledger (w_store w')) \<Longrightarrow> stores w w'"
  by (simp add: stores_def r_into_rtranclp)

lemma postponed_work: "ledger_work (st_ledger s) (st_ledger (postponed now s i url due))"
  unfolding postponed_def store_fields by (rule postponing)

lemma spread_polls: "st_ledger (Store.polled now s i url due) = st_ledger (postponed now s i url due)"
    "st_ledger (missed now s i url due) = st_ledger (postponed now s i url due)"
  by (simp_all add: Store.polled_def missed_def)

lemma poll_begins_stores: "poll_begins parse nowMs w p = (out, w') \<Longrightarrow> stores w w'"
proof -
  have budgets: "stores w (w\<lparr>w_budget := b\<rparr>)" for b by (simp add: stores_def)
  have later: "stores w (w\<lparr>w_store := postponed now (w_store w) i url due\<rparr>)"
      "stores w (w\<lparr>w_budget := b, w_store := postponed now (w_store w) i url due\<rparr>)" for b now i url due
    by (rule stores_one, simp add: postponed_work)+
  assume "poll_begins parse nowMs w p = (out, w')"
  then show ?thesis
    by (auto simp: poll_begins_def Let_def budgets later split: if_splits prod.splits option.splits)
qed

lemma on_ledger_work:
  "on_ledger f s = (answer, s') \<Longrightarrow> (\<And>l. ledger_work l (snd (f l))) \<Longrightarrow> ledger_work (st_ledger s) (st_ledger s')"
  unfolding on_ledger_def by (cases "f (st_ledger s)") (metis Pair_inject old.prod.case snd_conv store_fields(2))

lemma begin_polls_stores: "begin_polls parse nowMs w ps = (out, w') \<Longrightarrow> stores w w'"
proof (induction ps arbitrary: w out w')
  case (Cons p ps)
  obtain one w1 where one: "poll_begins parse nowMs w p = (one, w1)" by fastforce
  obtain rest w2 where rest: "begin_polls parse nowMs w1 ps = (rest, w2)" by fastforce
  have "w' = w2" using Cons.prems one rest by (cases one) simp_all
  then show ?case using poll_begins_stores [OF one] Cons.IH [OF rest] stores_trans by blast
qed simp

lemma tick_stores:
  assumes "tick parse nowMs w = (out, owed, w')"
  shows "stores w w'"
proof -
  obtain due st where due: "duePolls_store (secs_of nowMs) (w_store w) (perTick (w_budget w)) LEASE_SECS = (due, st)" by fastforce
  obtain out' w1 where out: "begin_polls parse nowMs (w\<lparr>w_store := st\<rparr>) due = (out', w1)" by fastforce
  obtain owed' st' where owed: "dueDeliveries_store (secs_of nowMs) (w_store w1) (perTick (w_budget w1)) LEASE_SECS = (owed', st')" by fastforce
  have w': "w' = w1\<lparr>w_store := st'\<rparr>" using assms by (simp add: tick_def due out owed)
  have "stores w (w\<lparr>w_store := st\<rparr>)"
    using due unfolding duePolls_store_def by (intro stores_one) (auto intro: on_ledger_work polling)
  also have "stores (w\<lparr>w_store := st\<rparr>) w1" using out by (rule begin_polls_stores)
  also have "stores w1 w'"
    using owed unfolding dueDeliveries_store_def w' by (intro stores_one) (auto intro: on_ledger_work picking)
  finally show ?thesis .
qed

lemma paid_work:
  "Store.paid now s i secret = Some (out, s') \<Longrightarrow> ledger_work (st_ledger s) (st_ledger s')"
  by (auto simp: Store.paid_def Let_def intro: forgetting settling split: option.splits)

lemma poll_ends_stores: "stores w (poll_ends now w p host settled)"
  unfolding poll_ends_def Let_def
  by (auto simp: spread_polls stores_def intro!: r_into_rtranclp postponed_work dest: paid_work
      split: option.splits)

lemma deliver_ends_stores: "stores w (deliver_ends now w owed taken)"
proof (cases taken)
  case True
  obtain given l where "Ledger.delivered now (st_ledger (w_store w)) owed = (given, l)" by fastforce
  with delivering [of "st_ledger (w_store w)" now owed] True show ?thesis
    by (intro stores_one) (simp add: deliver_ends_def delivered_to_def)
next
  case False
  obtain answer st where "undelivered_store now (w_store w) owed = (answer, st)" by fastforce
  with False show ?thesis
    by (intro stores_one) (auto simp: deliver_ends_def undelivered_store_def intro: on_ledger_work failing)
qed

text \<open>
  The loop only does what a ledger allows. Every step of the watch loop, a tick with all the
  polls and deliveries it starts, the answer of a poll whatever it says, the outcome of a
  delivery, is a sequence of the ledger's own operations; so the loop refines the ledger, and
  every ledger it leads to from a reachable one is reachable, with all that was proved of those.
\<close>

theorem watch_refines_ledger:
  assumes "watch_step x y"
  shows "ledger_work\<^sup>*\<^sup>* (ledger_of x) (ledger_of y) \<and> (reachable (ledger_of x) \<longrightarrow> reachable (ledger_of y))"
proof -
  from assms have work: "ledger_work\<^sup>*\<^sup>* (ledger_of x) (ledger_of y)"
  proof cases
    case ticking
    then show ?thesis using tick_stores by (simp add: ledger_of_def stores_def)
  next
    case polled_one
    then show ?thesis using poll_ends_stores by (simp add: ledger_of_def stores_def)
  next
    case posted_one
    then show ?thesis using deliver_ends_stores by (simp add: ledger_of_def stores_def)
  qed
  moreover have "reachable l'" if "ledger_work\<^sup>*\<^sup>* l l'" "reachable l" for l l'
    using that by (induction rule: rtranclp_induct) (auto intro: stepped working)
  ultimately show ?thesis by blast
qed

subsection \<open>How polls and deliveries end\<close>

lemma answerFor_proves:
  assumes "answerFor net a p agent question messages trace = (Some s, trace')" "settled_preimage s = Some secret"
  shows "preimageMatchesHash secret (paymentHash p)"
proof (cases agent)
  case None
  with assms show ?thesis
    by (auto simp: answerFor_def checkSettled_def Let_def split: sum.splits prod.splits option.splits if_splits json.splits)
next
  case (Some who)
  with assms have "askAnAgent a who (paymentHash p) question messages = Inr (Some s)"
    by (auto simp: answerFor_def split: sum.splits)
  from askAnAgent_proves [OF this] show ?thesis by (simp add: assms(2))
qed

text \<open>The settlements after a payment settled: the one of the payment is new, the others are as they were.\<close>

lemma settle_others:
  assumes "settle now l w secret = Some (out, l')" "j \<noteq> pay_id w"
  shows "settlement l' j = settlement l j"
proof -
  have "settled_view l' = settled_view (recordPaid now l (paid_fact now l w secret))" using assms(1) by (rule settled_view_settle)
  then have "map_of (settled_view l') j = map_of (settled_view l) j"
    using assms(2) by (simp add: settled_view_def recordPaid_settled map_add_def del: recordPaid_frame split: option.split)
  then show ?thesis by (simp add: settlement_view)
qed

lemma settlement_rows: "paid_rows l' = paid_rows l \<Longrightarrow> settlement l' = settlement l"
  by (rule ext) (simp add: settlement_def)

definition paces_ok :: "budget \<Rightarrow> bool" where
  "paces_ok b \<longleftrightarrow> (\<forall>host n. map_of (paceOf b) host = Some n \<longrightarrow> 0 < n)"

lemma noted_pace_ok: "paces_ok b \<Longrightarrow> paces_ok (noted_pace host settled b)"
  by (auto simp: paces_ok_def noted_pace_def Let_def update_conv' split: option.splits if_splits)

text \<open>When the schedule asks about a payment again.\<close>

definition asked_again :: "int \<Rightarrow> payment \<Rightarrow> ledger \<Rightarrow> bool" where
  "asked_again now p l \<longleftrightarrow>
     (\<forall>row\<in>set (schedule l). sched_id row = pay_id p \<longrightarrow>
        (case sched_dueAt row of None \<Rightarrow> expiresAt p \<le> now \<or> createdAt p + 2592000 \<le> now | Some due \<Rightarrow> now < due))"

lemma postponed_asks_again:
  assumes "paces_ok b" "0 < eagerMs" "due = nextDue now p eagerMs (paceAsked b host)"
  shows "asked_again now p (st_ledger (postponed now s (pay_id p) url due))"
proof -
  have "\<forall>asked. paceAsked b host = Some asked \<longrightarrow> 0 < asked"
    using assms(1) by (auto simp: paceAsked_def paces_ok_def)
  from nextDue_bounds [OF assms(2) this, where now = now and p = p]
  have bounds: "case due of None \<Rightarrow> expiresAt p \<le> now \<or> createdAt p + 2592000 \<le> now | Some t \<Rightarrow> now < t"
    by (auto simp: assms(3) split: option.splits)
  have later: "t \<le> turn s i url t gapSecs among" for t i gapSecs among
    using turn_bounds [of s i url t gapSecs among] by simp
  show ?thesis
  proof (cases due)
    case None
    then show ?thesis
      using bounds by (auto simp: asked_again_def postponed_def Ledger.polled_def set_update_where)
  next
    case (Some t)
    with bounds have "now < t" by simp
    with Some show ?thesis
      by (auto simp: asked_again_def postponed_def Ledger.polled_def set_update_where intro: less_le_trans [OF _ later])
  qed
qed

lemma poll_unanswered:
  assumes "Option.bind answer settled_preimage \<in> {None, Some []}"
  shows "st_ledger (w_store (poll_ends now w p host answer)) =
    st_ledger (postponed now (w_store w) (pay_id p) (verifyUrl p)
      (nextDue now p (w_eagerMs w) (paceAsked (noted_pace host answer (w_budget w)) host)))"
  using assms by (cases answer) (auto simp: poll_ends_def Let_def spread_polls split: option.splits)

lemma poll_answered:
  assumes "Option.bind answer settled_preimage = Some secret" "secret \<noteq> []"
  shows "st_ledger (w_store (poll_ends now w p host answer)) =
    (case Store.paid now (w_store w) (pay_id p) secret of None \<Rightarrow> st_ledger (w_store w) | Some (_, s) \<Rightarrow> st_ledger s)"
  using assms by (cases answer) (auto simp: poll_ends_def Let_def split: option.splits)

text \<open>What is owed after a delivery that was not taken: the same deliveries, one of them tried once more.\<close>

definition tried_again :: "int \<Rightarrow> ledger \<Rightarrow> string \<Rightarrow> outbox_row \<Rightarrow> outbox_row \<Rightarrow> bool" where
  "tried_again now l i tried r \<longleftrightarrow>
     owed_view (r\<lparr>outbox_dueAt := outbox_dueAt tried\<rparr>) = owed_view tried \<and> outbox_attempts r = outbox_attempts tried + 1 \<and>
     (let due = now + deliveryBackoffSecs l * (outbox_attempts tried + 1);
          until = (case outbox_retryUntil tried of Some t \<Rightarrow> t | None \<Rightarrow> retryUntil l i (outbox_owedAt tried))
      in if due \<le> until then outbox_dueAt r = Some due \<and> outbox_parkedAt r = None
         else outbox_dueAt r = None \<and> outbox_parkedAt r = Some now)"

lemma poll_settles:
  assumes "reachable (st_ledger s)" "settlement (st_ledger s) i = None" "readPayment now (st_ledger s) i = Some held"
    and "proves (Some secret) (paymentHash held)"
  shows "\<exists>out s' l'. Store.paid now s i secret = Some (out, s') \<and> st_ledger s' = l' \<and>
    settlement l' i = Some (withoutSecrets (held\<lparr>pay_status := Paid, preimage := Some secret\<rparr>)) \<and>
    i \<notin> sched_id ` set (schedule l') \<and>
    map owed_view (outbox_rows l') = map owed_view (outbox_rows (st_ledger s)) @
      map (\<lambda>hook. (i, hook, stringify (JObj (deliveryToWire (held\<lparr>pay_status := Paid, preimage := Some secret\<rparr>) now)), Some 0)) (webhooks held)"
proof -
  have i: "pay_id held = i" using readPayment_id accepted_named_reachable assms(1,3) by blast
  have "i \<notin> fact_id ` set (paid_rows (st_ledger s))"
    using assms(1,2) settlement_None_iff ledger_ok_reachable unfolding ledger_ok_def by blast
  with settle_effect [of secret held now "st_ledger s"] assms(4) i obtain given l' where
    settled: "settle now (st_ledger s) held secret =
      Some ((withoutSecrets (held\<lparr>pay_status := Paid, preimage := Some secret\<rparr>), given), l')"
    and "settlement l' i = Some (withoutSecrets (held\<lparr>pay_status := Paid, preimage := Some secret\<rparr>))"
      "i \<notin> sched_id ` set (schedule l')"
      "map owed_view (outbox_rows l') = map owed_view (outbox_rows (st_ledger s)) @
        map (\<lambda>hook. (i, hook, stringify (JObj (deliveryToWire (held\<lparr>pay_status := Paid, preimage := Some secret\<rparr>) now)), Some 0)) (webhooks held)"
    by auto
  with assms(2,3) show ?thesis by (auto simp: Store.paid_def Let_def)
qed

lemma paid_only_proven:
  assumes "reachable (st_ledger s)" "Store.paid now s i secret = Some (out, s')" "settlement (st_ledger s') j \<noteq> settlement (st_ledger s) j"
  shows "j = i \<and> settlement (st_ledger s) j = None \<and>
    (\<exists>held. readPayment now (st_ledger s) j = Some held \<and> proves (Some secret) (paymentHash held))"
proof (cases "settlement (st_ledger s) i")
  case None
  obtain held told where held: "readPayment now (st_ledger s) i = Some held"
    and settled: "settle now (st_ledger s) held secret = Some (told, st_ledger s')"
    using None assms(2) by (auto simp: Store.paid_def Let_def split: option.splits)
  have "pay_id held = i" using readPayment_id accepted_named_reachable assms(1) held by blast
  then have "j = i" using settle_others [OF settled] assms(3) by auto
  moreover have "proves (Some secret) (paymentHash held)"
    using settled settle_effect [of secret held now "st_ledger s"] by (auto split: if_splits)
  ultimately show ?thesis using None held by simp
next
  case (Some settled)
  then have "st_ledger s' = forget (st_ledger s) i" using assms(2) by (auto simp: paid_settled)
  with assms(3) show ?thesis by simp
qed

lemma taken_is_delivered:
  "\<exists>d. delivered_rows (st_ledger (delivered_to now s owed)) = delivered_rows (st_ledger s) @ [d] \<and>
     fact_id d = owed_id owed \<and> delivered_url d = owed_url owed \<and> delivered_at d = now"
proof -
  let ?l = "st_ledger s"
  let ?fact = "sign_delivered (cluster_key ?l) \<lparr>fact_origin = self_origin ?l, fact_seq = nextSeq ?l DeliveredFact, fact_id = owed_id owed,
    fact_mac = [], delivered_url = owed_url owed, delivered_at = now\<rparr>"
  have "key_of ?fact = (self_origin ?l, nextSeq ?l DeliveredFact)" by (simp add: sign_delivered_def key_of_def)
  then have "insert_new key_of ?fact (delivered_rows ?l) = delivered_rows ?l @ [?fact]"
    using nextSeq_new_key by (intro insert_new_fresh) simp
  then show ?thesis
    by (simp add: delivered_to_def Ledger.delivered_def Let_def) (simp add: sign_delivered_def)
qed

lemma not_taken_is_tried_again:
  assumes "ledger_ok l"
  shows "delivered_rows (snd (undelivered now l owed)) = delivered_rows l \<and>
    list_all2 (\<lambda>tried r. if key_of tried = (owed_origin owed, owed_seq owed) then tried_again now l (owed_id owed) tried r else r = tried)
      (outbox_rows l) (outbox_rows (snd (undelivered now l owed)))"
proof (cases "find (\<lambda>r. key_of r = (owed_origin owed, owed_seq owed)) (outbox_rows l)")
  case None
  then have "\<forall>r\<in>set (outbox_rows l). key_of r \<noteq> (owed_origin owed, owed_seq owed)" by (simp add: find_None_iff)
  with None show ?thesis by (auto simp: undelivered_def list_all2_same)
next
  case (Some tried)
  then have tried: "tried \<in> set (outbox_rows l)" "key_of tried = (owed_origin owed, owed_seq owed)"
    by (auto simp: find_Some_iff)
  have "distinct (map key_of (outbox_rows l))" using assms by (simp add: ledger_ok_defs)
  then have one: "r = tried" if "r \<in> set (outbox_rows l)" "key_of r = (owed_origin owed, owed_seq owed)" for r
    using that tried by (metis distinct_map inj_onD)
  define nextAt where "nextAt = now + deliveryBackoffSecs l * (outbox_attempts tried + 1)"
  define abandoned where "abandoned \<longleftrightarrow> nextAt > (case outbox_retryUntil tried of Some until \<Rightarrow> until
      | None \<Rightarrow> retryUntil l (owed_id owed) (outbox_owedAt tried))"
  define f where "f = (\<lambda>r :: outbox_row. r\<lparr>outbox_attempts := outbox_attempts tried + 1, outbox_dueAt := (if abandoned then None else Some nextAt),
      outbox_parkedAt := (if abandoned then Some now else None)\<rparr>)"
  have rows: "snd (undelivered now l owed) = l\<lparr>outbox_rows := update_where (\<lambda>r. key_of r = (owed_origin owed, owed_seq owed)) f (outbox_rows l)\<rparr>"
    by (simp add: undelivered_def Some Let_def f_def abandoned_def nextAt_def)
  have again: "tried_again now l (owed_id owed) tried (f tried)"
    by (simp add: tried_again_def Let_def owed_view_def f_def abandoned_def nextAt_def)
  have "tried_again now l (owed_id owed) r (f r)" if "r \<in> set (outbox_rows l)" "key_of r = (owed_origin owed, owed_seq owed)" for r
    using one [OF that] again by simp
  then show ?thesis by (simp add: rows update_where_def list.rel_map list_all2_same)
qed


text \<open>
  C13: the loop ends each poll and each delivery as it was answered. Of a poll, whatever the endpoint or the agent
  says: a preimage is taken only if it hashes to the payment hash the question was about; with one that proves the
  payment watched under that name, the payment is settled with this very preimage, leaves the schedule, and owes
  every one of its webhooks a delivery; no other settlement changes, and none without such a preimage; and with no
  preimage nothing settles and nothing is owed, and the payment is asked about again later unless it expired or was
  watched for thirty days. Of a delivery: one that was taken is recorded and never due again; one that was not is
  recorded nowhere, and is due again after the backoff of its attempts or, when that is past the time for
  retries, parked, while the other deliveries stay as they are.
\<close>

theorem loop_ends_as_answered:
  assumes "reachable (st_ledger (w_store w))" "0 < w_eagerMs w" "paces_ok (w_budget w)"
    and "answerFor net (w_agents w) p agent question messages trace = (answer, trace')"
    and "l = st_ledger (w_store w)" "l' = st_ledger (w_store (poll_ends now w p host answer))"
    and "l'' = st_ledger (w_store (deliver_ends now w owed taken))"
  shows "(\<forall>secret. Option.bind answer settled_preimage = Some secret \<longrightarrow> preimageMatchesHash secret (paymentHash p)) \<and>
    (\<forall>secret held. Option.bind answer settled_preimage = Some secret \<and> secret \<noteq> [] \<and> settlement l (pay_id p) = None \<and>
       readPayment now l (pay_id p) = Some held \<and> proves (Some secret) (paymentHash held) \<longrightarrow>
       settlement l' (pay_id p) = Some (withoutSecrets (held\<lparr>pay_status := Paid, preimage := Some secret\<rparr>)) \<and>
       pay_id p \<notin> sched_id ` set (schedule l') \<and>
       map owed_view (outbox_rows l') = map owed_view (outbox_rows l) @ map (\<lambda>hook. (pay_id p, hook,
         stringify (JObj (deliveryToWire (held\<lparr>pay_status := Paid, preimage := Some secret\<rparr>) now)), Some 0)) (webhooks held)) \<and>
    (\<forall>j. settlement l' j \<noteq> settlement l j \<longrightarrow> j = pay_id p \<and> settlement l j = None \<and>
       (\<exists>secret held. Option.bind answer settled_preimage = Some secret \<and> readPayment now l j = Some held \<and>
          proves (Some secret) (paymentHash held))) \<and>
    (Option.bind answer settled_preimage \<in> {None, Some []} \<longrightarrow>
       paid_rows l' = paid_rows l \<and> outbox_rows l' = outbox_rows l \<and> asked_again now p l') \<and>
    (taken \<longrightarrow>
       (\<exists>d. delivered_rows l'' = delivered_rows l @ [d] \<and> fact_id d = owed_id owed \<and> delivered_url d = owed_url owed \<and> delivered_at d = now) \<and>
       (\<forall>later limit. \<forall>r\<in>set (due_outbox later l'' limit). \<not> (fact_id r = owed_id owed \<and> outbox_url r = owed_url owed))) \<and>
    (\<not> taken \<longrightarrow> delivered_rows l'' = delivered_rows l \<and>
       list_all2 (\<lambda>tried r. if key_of tried = (owed_origin owed, owed_seq owed) then tried_again now l (owed_id owed) tried r else r = tried)
         (outbox_rows l) (outbox_rows l''))"
proof -
  let ?got = "Option.bind answer settled_preimage"
  have proven: "preimageMatchesHash secret (paymentHash p)" if "?got = Some secret" for secret
    using that answerFor_proves assms(4) by (auto simp: bind_eq_Some_conv)
  have settles: "settlement l' (pay_id p) = Some (withoutSecrets (held\<lparr>pay_status := Paid, preimage := Some secret\<rparr>)) \<and>
       pay_id p \<notin> sched_id ` set (schedule l') \<and>
       map owed_view (outbox_rows l') = map owed_view (outbox_rows l) @ map (\<lambda>hook. (pay_id p, hook,
         stringify (JObj (deliveryToWire (held\<lparr>pay_status := Paid, preimage := Some secret\<rparr>) now)), Some 0)) (webhooks held)"
    if "?got = Some secret \<and> secret \<noteq> [] \<and> settlement l (pay_id p) = None \<and>
       readPayment now l (pay_id p) = Some held \<and> proves (Some secret) (paymentHash held)" for secret held
  proof -
    from that have "settlement (st_ledger (w_store w)) (pay_id p) = None" "readPayment now (st_ledger (w_store w)) (pay_id p) = Some held"
      "proves (Some secret) (paymentHash held)" by (simp_all add: assms(5))
    from poll_settles [OF assms(1) this] show ?thesis
      using that by (auto simp: assms(5,6) poll_answered split: prod.splits)
  qed
  have only: "j = pay_id p \<and> settlement l j = None \<and>
       (\<exists>secret held. ?got = Some secret \<and> readPayment now l j = Some held \<and> proves (Some secret) (paymentHash held))"
    if changed: "settlement l' j \<noteq> settlement l j" for j
  proof (cases "?got \<in> {None, Some []}")
    case True
    then have "settlement l' j = settlement l j" by (simp add: assms(5,6) poll_unanswered postponed_def settlement_def Ledger.polled_def)
    with changed show ?thesis by simp
  next
    case False
    then obtain secret where secret: "?got = Some secret" "secret \<noteq> []" by auto
    then obtain out s where paid: "Store.paid now (w_store w) (pay_id p) secret = Some (out, s)" and "l' = st_ledger s"
      using changed by (auto simp: assms(5,6) poll_answered split: option.splits prod.splits)
    with paid_only_proven [OF assms(1) paid, of j] changed secret(1) show ?thesis by (auto simp: assms(5))
  qed
  have waits: "paid_rows l' = paid_rows l \<and> outbox_rows l' = outbox_rows l \<and> asked_again now p l'" if "?got \<in> {None, Some []}"
    using that postponed_asks_again [OF noted_pace_ok [OF assms(3)] assms(2) refl]
    by (simp add: assms(5,6) poll_unanswered postponed_def Ledger.polled_def)
  have taken: "(\<exists>d. delivered_rows l'' = delivered_rows l @ [d] \<and> fact_id d = owed_id owed \<and> delivered_url d = owed_url owed \<and> delivered_at d = now) \<and>
       (\<forall>later limit. \<forall>r\<in>set (due_outbox later l'' limit). \<not> (fact_id r = owed_id owed \<and> outbox_url r = owed_url owed))" if taken
  proof -
    have rows: "\<exists>d. delivered_rows l'' = delivered_rows l @ [d] \<and> fact_id d = owed_id owed \<and> delivered_url d = owed_url owed \<and> delivered_at d = now"
      using taken_is_delivered [of now "w_store w" owed] that by (simp add: assms(5,7) deliver_ends_def)
    then have "is_delivered l'' r" if "fact_id r = owed_id owed" "outbox_url r = owed_url owed" for r :: outbox_row
      using that by (auto simp: is_delivered_def)
    with rows show ?thesis by (auto simp: due_outbox_def dest!: in_set_takeD)
  qed
  have tried: "delivered_rows l'' = delivered_rows l \<and>
       list_all2 (\<lambda>tried r. if key_of tried = (owed_origin owed, owed_seq owed) then tried_again now l (owed_id owed) tried r else r = tried)
         (outbox_rows l) (outbox_rows l'')" if "\<not> taken"
  proof -
    have "l'' = snd (undelivered now l owed)"
      using that by (simp add: assms(5,7) deliver_ends_def undelivered_store_def on_ledger_def case_prod_beta)
    then show ?thesis using not_taken_is_tried_again [OF ledger_ok_reachable [OF assms(1)], of now owed] by (simp only: assms(5))
  qed
  show ?thesis using proven settles only waits taken tried by blast
qed

definition first_watcher :: watcher where
  "first_watcher =
     \<lparr>w_store = new_store first_accepted [7], w_eagerMs = 5000, w_budget = calm_budget, w_agents = no_agents\<rparr>"

theorem watch_refines_ledger_witness:
  "reachable (ledger_of (poll_ends 5 first_watcher first_payment ''v.example''
     (Some \<lparr>settled_preimage = Some (bytesToHex [1]), settled_pace = None, settled_ceiling = None\<rparr>), [], []))"
proof -
  have "watch_step (first_watcher, [(first_payment, ''v.example'', None)], [])
      (poll_ends 5 first_watcher first_payment ''v.example''
         (Some \<lparr>settled_preimage = Some (bytesToHex [1]), settled_pace = None, settled_ceiling = None\<rparr>),
       remove1 (first_payment, ''v.example'', None) [(first_payment, ''v.example'', None)], [])"
    by (rule polled_one) simp
  moreover have "reachable (ledger_of (first_watcher, [(first_payment, ''v.example'', None)], []))"
    using first_reachable by (simp add: ledger_of_def first_watcher_def new_store_def)
  ultimately show ?thesis using watch_refines_ledger by fastforce
qed

text \<open>The endpoint answers with the preimage of the first payment, and then the webhook of it is taken.\<close>

definition paid_said :: json where
  "paid_said = JObj [(''settled'', JBool True), (''preimage'', JStr (bytesToHex [1]))]"

lemma loop_ends_as_answered_witness:
  "\<exists>answer trace'. answerFor (sample_net [paid_said]) (w_agents first_watcher) first_payment None ''q'' [] [] = (answer, trace') \<and>
     settlement (st_ledger (w_store first_watcher)) ''p'' = None \<and>
     settlement (st_ledger (w_store (poll_ends 5 first_watcher first_payment ''v.example'' answer))) ''p'' =
       Some (withoutSecrets (first_payment\<lparr>pay_status := Paid, preimage := Some (bytesToHex [1])\<rparr>))"
proof -
  let ?secret = "bytesToHex [1]"
  have facts: "pay_id first_payment = ''p''" "paymentHash first_payment = bytesToHex (sha256 [1])" by (simp_all add: first_payment_def)
  have ledger: "st_ledger (w_store first_watcher) = first_accepted" "w_eagerMs first_watcher = 5000" "w_budget first_watcher = calm_budget"
    by (simp_all add: first_watcher_def new_store_def)
  have "json_plain paid_said" by (simp add: paid_said_def)
  then obtain r where "answeredJson (sample_net [paid_said]) (verifyUrl first_payment) True [] = (Inr (paid_said, []), [r])"
    using sample_answered [of "[]" "[paid_said]" "verifyUrl first_payment" True] by auto
  moreover have "lower (bytesToHex (sha256 [1])) = bytesToHex (sha256 [1])" by (rule lower_fixes [OF lower_hex_bytesToHex])
  then have "preimageMatchesHash ?secret (paymentHash first_payment)" "?secret \<noteq> []"
    unfolding preimageMatchesHash_def facts isHex_bytesToHex hexToBytes_bytesToHex
    by (simp_all only: if_False simp_thms list.simps) (metis isHex_bytesToHex isHex_def list.distinct(1))
  ultimately obtain answer trace' where answer: "answerFor (sample_net [paid_said]) (w_agents first_watcher) first_payment None ''q'' [] [] = (answer, trace')"
    "Option.bind answer settled_preimage = Some ?secret"
    by (simp add: answerFor_def checkSettled_def paid_said_def)
  have none: "settlement first_accepted ''p'' = None" by (simp add: settlement_def first_paid_rows)
  have eager: "0 < w_eagerMs first_watcher" "paces_ok (w_budget first_watcher)" by (simp_all add: ledger paces_ok_def calm_budget_def)
  have "reachable (st_ledger (w_store first_watcher))" by (simp add: ledger first_reachable)
  note ends = loop_ends_as_answered [OF this eager answer(1) refl refl refl, where now = 5 and host = "''v.example''", THEN conjunct2, THEN conjunct1,
      rule_format, of ?secret first_payment]
  have "Option.bind answer settled_preimage = Some ?secret \<and> ?secret \<noteq> [] \<and>
      settlement (st_ledger (w_store first_watcher)) (pay_id first_payment) = None \<and>
      readPayment 5 (st_ledger (w_store first_watcher)) (pay_id first_payment) = Some first_payment \<and>
      proves (Some ?secret) (paymentHash first_payment)"
    unfolding ledger facts(1) using answer(2) \<open>?secret \<noteq> []\<close> none first_accepted_read first_proves by blast
  from ends [OF this] have "settlement (st_ledger (w_store (poll_ends 5 first_watcher first_payment ''v.example'' answer))) ''p'' =
       Some (withoutSecrets (first_payment\<lparr>pay_status := Paid, preimage := Some ?secret\<rparr>))"
    unfolding facts(1) by (rule conjunct1)
  then show ?thesis using answer(1) none by (simp add: ledger)
qed

end
