(* ===== verification/Ticket.thy ===== *)
theory Ticket
  imports Hmac
begin

text \<open>
  \<^verbatim>\<open>core/ticket.ts\<close>: a short-lived permission to open one socket for one subject. The lemmas
  show that a ticket is read back as the subject it was minted for until it expires, and
  that nothing is read that does not carry the tag of its own claim.
\<close>

definition TICKET_VERSION :: string where "TICKET_VERSION = ''2''"
definition TRIGGER :: string where "TRIGGER = ''t''"
definition PAYMENT :: string where "PAYMENT = ''p''"
definition AGENT :: string where "AGENT = ''a''"

datatype subject =
    TriggerSubject string int
  | PaymentSubject string
  | AgentSubject string

record ticket =
  ticket_text :: string
  ticket_expiresAt :: int
  ticket_jti :: string

text \<open>The tag, the name and the replay depth of a subject.\<close>

fun namedBy :: "subject \<Rightarrow> string \<times> string \<times> int" where
  "namedBy (TriggerSubject trigger replay) = (TRIGGER, trigger, replay)"
| "namedBy (AgentSubject caller) = (AGENT, caller, 0)"
| "namedBy (PaymentSubject paymentId) = (PAYMENT, paymentId, 0)"

definition ticket_claim :: "subject \<Rightarrow> int \<Rightarrow> string \<Rightarrow> string" where
  "ticket_claim subject expiresAt jti =
     (case namedBy subject of
        (tag, name, replay) \<Rightarrow>
          join ''.'' [TICKET_VERSION, tag, name, show_int expiresAt, jti, show_int replay])"

text \<open>\<open>nonce\<close> stands for the eight random bytes.\<close>

definition mint :: "bytes \<Rightarrow> subject \<Rightarrow> int \<Rightarrow> int \<Rightarrow> bytes \<Rightarrow> ticket" where
  "mint key subject ttlSecs now nonce =
     (let expiresAt = now + ttlSecs;
          jti = bytesToHex nonce;
          claim = ticket_claim subject expiresAt jti
      in \<lparr>ticket_text = claim @ ''.'' @ hmacHex key (utf8 claim), ticket_expiresAt = expiresAt, ticket_jti = jti\<rparr>)"

text \<open>
  \<^verbatim>\<open>SHAPE\<close>: no group of the expression matches a dot, so the match is the split at the dots
  into seven pieces, each of its class.
\<close>

definition is_hash_text :: "string \<Rightarrow> bool" where
  "is_hash_text s \<longleftrightarrow> length s = 64 \<and> list_all is_lower_hex s"

definition ticket_shape :: "string \<Rightarrow> (string \<times> string \<times> string \<times> string \<times> string \<times> string) option" where
  "ticket_shape ticket =
     (case split_on CHR ''.'' ticket of
        [version, kind, name, expires, jti, replay, mac] \<Rightarrow>
          (if version = TICKET_VERSION \<and> kind \<in> {TRIGGER, PAYMENT, AGENT} \<and> is_hash_text name
              \<and> is_decimal expires \<and> jti \<noteq> [] \<and> list_all is_lower_hex jti
              \<and> is_decimal replay \<and> is_hash_text mac
           then Some (kind, name, expires, jti, replay, mac) else None)
      | _ \<Rightarrow> None)"

definition read_ticket :: "bytes \<Rightarrow> string \<Rightarrow> int \<Rightarrow> (subject \<times> string) option" where
  "read_ticket key ticket now =
     (case ticket_shape ticket of
        None \<Rightarrow> None
      | Some (kind, name, expires, jti, replay, mac) \<Rightarrow>
          if int (number_of_digits expires) \<le> now then None
          else
            (let claim = (case last_index_of CHR ''.'' ticket of None \<Rightarrow> [] | Some i \<Rightarrow> slice 0 i ticket)
             in if \<not> equalInConstantTime mac (hmacHex key (utf8 claim)) then None
                else if kind = TRIGGER then Some (TriggerSubject name (int (number_of_digits replay)), jti)
                else if kind = AGENT then Some (AgentSubject name, jti)
                else Some (PaymentSubject name, jti)))"

subsection \<open>Reading what was minted, and nothing else\<close>

lemmas ticket_tags = TRIGGER_def PAYMENT_def AGENT_def TICKET_VERSION_def

definition subject_ok :: "subject \<Rightarrow> bool" where
  "subject_ok subject \<longleftrightarrow>
     (case namedBy subject of (tag, name, replay) \<Rightarrow> is_hash_text name \<and> 0 \<le> replay)"

lemma not_hex_dot [simp]: "\<not> is_lower_hex CHR ''.''" "\<not> is_digit CHR ''.''"
  by (simp_all add: is_lower_hex_def is_digit_def code_def)

lemma is_hash_text_no_dot: "is_hash_text s \<Longrightarrow> CHR ''.'' \<notin> set s"
  by (auto simp: is_hash_text_def list_all_iff)

lemma is_hash_text_hmacHex [simp]: "is_hash_text (hmacHex key payload)"
  by (simp add: is_hash_text_def lower_hex_hmacHex)

lemma is_hash_text_sha256Hex [simp]: "is_hash_text (sha256Hex t)"
  by (simp add: is_hash_text_def lower_hex_sha256Hex)

lemma show_int_nat: "0 \<le> n \<Longrightarrow> show_int n = show_nat (nat n)"
  by (simp add: show_int_def)

lemma dot_notin_decimal: "is_decimal s \<Longrightarrow> CHR ''.'' \<notin> set s"
  by (rule is_decimal_notin) simp_all

lemma ticket_tag_no_dot: "fst (namedBy subject) \<in> {TRIGGER, PAYMENT, AGENT}"
  by (cases subject) (simp_all add: ticket_tags)

lemma ticket_shape_minted:
  assumes "subject_ok subject" "0 \<le> expiresAt" "jti \<noteq> []" "list_all is_lower_hex jti" "is_hash_text mac"
  shows "ticket_shape (ticket_claim subject expiresAt jti @ ''.'' @ mac) =
    (case namedBy subject of (tag, name, replay) \<Rightarrow>
       Some (tag, name, show_nat (nat expiresAt), jti, show_nat (nat replay), mac))"
proof -
  obtain tag name replay where n: "namedBy subject = (tag, name, replay)" by (cases "namedBy subject") auto
  then have tag: "tag \<in> {TRIGGER, PAYMENT, AGENT}" using ticket_tag_no_dot [of subject] by simp
  have name: "is_hash_text name" "0 \<le> replay" using assms(1) by (simp_all add: subject_ok_def n)
  let ?parts = "[TICKET_VERSION, tag, name, show_nat (nat expiresAt), jti, show_nat (nat replay), mac]"
  have "CHR ''.'' \<notin> set tag" using tag by (auto simp: ticket_tags)
  moreover have "CHR ''.'' \<notin> set jti" using assms(4) by (auto simp: list_all_iff)
  ultimately have clean: "\<forall>x\<in>set ?parts. CHR ''.'' \<notin> set x"
    using name assms(5) is_decimal_show_nat
    by (auto simp: TICKET_VERSION_def dest: is_hash_text_no_dot dot_notin_decimal)
  have "ticket_claim subject expiresAt jti @ ''.'' @ mac = join ''.'' ?parts"
    using assms(2) name(2) by (simp add: ticket_claim_def n show_int_nat)
  then have "split_on CHR ''.'' (ticket_claim subject expiresAt jti @ ''.'' @ mac) = ?parts"
    using split_on_join [OF _ clean] by simp
  then show ?thesis
    using assms name tag by (simp add: ticket_shape_def n is_decimal_show_nat)
qed

lemma claim_of_ticket:
  assumes "CHR ''.'' \<notin> set mac"
  shows "last_index_of CHR ''.'' (claim @ ''.'' @ mac) = Some (length claim)"
    and "slice 0 (length claim) (claim @ ''.'' @ mac) = claim"
  using last_index_of_append_Cons [OF assms, of claim] by (simp_all add: slice_def)

lemma read_ticket_minted:
  assumes "subject_ok subject" "nonce \<noteq> []" "0 \<le> now + ttl" "later < now + ttl"
  shows "read_ticket key (ticket_text (mint key subject ttl now nonce)) later
    = Some (subject, ticket_jti (mint key subject ttl now nonce))"
proof -
  let ?claim = "ticket_claim subject (now + ttl) (bytesToHex nonce)"
  let ?mac = "hmacHex key (utf8 ?claim)"
  obtain tag name replay where n: "namedBy subject = (tag, name, replay)" by (cases "namedBy subject") auto
  have "bytesToHex nonce \<noteq> []" using assms(2) length_bytesToHex [of nonce] by (metis length_0_conv mult_is_0 zero_neq_numeral)
  then have shape: "ticket_shape (?claim @ ''.'' @ ?mac) =
      Some (tag, name, show_nat (nat (now + ttl)), bytesToHex nonce, show_nat (nat replay), ?mac)"
    using ticket_shape_minted [OF assms(1,3) _ lower_hex_bytesToHex is_hash_text_hmacHex] by (simp add: n)
  have whole: "ticket_text (mint key subject ttl now nonce) = ?claim @ ''.'' @ ?mac"
    "ticket_jti (mint key subject ttl now nonce) = bytesToHex nonce"
    by (simp_all add: mint_def Let_def)
  have "CHR ''.'' \<notin> set ?mac" by (rule is_hash_text_no_dot) simp
  note cut = claim_of_ticket [OF this, of ?claim]
  have "0 \<le> replay" using assms(1) by (simp add: subject_ok_def n)
  then show ?thesis
    unfolding whole read_ticket_def shape cut option.case Let_def prod.case
    using assms(3,4) n by (cases subject) (auto simp: cut equalInConstantTime_iff number_of_show_nat ticket_tags)
qed

text \<open>
  A ticket opens what it was minted for and nothing else: until it expires, and at any
  instance sharing the key, it is read back as the very subject and nonce it was minted with.
\<close>

theorem read_ticket_mint:
  assumes "subject_ok subject" "nonce \<noteq> []" "0 \<le> now + ttl" "later < now + ttl"
  shows "read_ticket key (ticket_text (mint key subject ttl now nonce)) later
    = Some (subject, ticket_jti (mint key subject ttl now nonce))"
  using assms by (rule read_ticket_minted)

lemma read_ticket_mint_witness:
  "read_ticket [1] (ticket_text (mint [1] (AgentSubject (replicate 64 CHR ''a'')) 60 100 [7])) 120
    = Some (AgentSubject (replicate 64 CHR ''a''), ticket_jti (mint [1] (AgentSubject (replicate 64 CHR ''a'')) 60 100 [7]))"
  by (rule read_ticket_mint)
    (simp_all add: subject_ok_def is_hash_text_def is_lower_hex_def is_digit_def code_def list_all_iff)

text \<open>
  Nothing is believed without the key. A text that reads as a permission is a claim
  followed by the tag of exactly that claim under the key, the claim names its kind and its
  subject, and its expiry is still ahead.
\<close>

theorem read_ticket_only_authentic:
  assumes "read_ticket key text now = Some (subject, jti)"
  shows "\<exists>claim tag name expires replay.
      text = claim @ ''.'' @ hmacHex key (utf8 claim)
      \<and> claim = join ''.'' [TICKET_VERSION, tag, name, expires, jti, replay]
      \<and> namedBy subject = (tag, name, if tag = TRIGGER then int (number_of_digits replay) else 0)
      \<and> now < int (number_of_digits expires)"
proof -
  obtain kind name expires replay mac where shape: "ticket_shape text = Some (kind, name, expires, jti, replay, mac)"
    and fresh: "now < int (number_of_digits expires)"
    using assms by (auto simp: read_ticket_def Let_def split: option.splits if_splits)
  define claim where "claim = join ''.'' [TICKET_VERSION, kind, name, expires, jti, replay]"
  have parts: "split_on CHR ''.'' text = [TICKET_VERSION, kind, name, expires, jti, replay, mac]"
    and kind: "kind \<in> {TRIGGER, PAYMENT, AGENT}" and mac: "is_hash_text mac"
    using shape by (auto simp: ticket_shape_def split: list.splits if_splits)
  have whole: "text = claim @ ''.'' @ mac"
    using join_split_on [where s = "text" and c = "CHR ''.''"] by (simp add: parts claim_def)
  have cut: "(case last_index_of CHR ''.'' text of None \<Rightarrow> [] | Some i \<Rightarrow> slice 0 i text) = claim"
    using claim_of_ticket [OF is_hash_text_no_dot [OF mac], of claim] by (simp add: whole)
  have "mac = hmacHex key (utf8 claim)"
    and named: "namedBy subject = (kind, name, if kind = TRIGGER then int (number_of_digits replay) else 0)"
    using assms kind fresh
    by (auto simp: read_ticket_def Let_def shape equalInConstantTime_iff ticket_tags cut split: if_splits)
  with whole named fresh show ?thesis unfolding claim_def by blast
qed

lemma read_ticket_only_authentic_witness:
  "\<exists>claim tag name expires replay.
      ticket_text (mint [1] (PaymentSubject (replicate 64 CHR ''b'')) 60 100 [7])
        = claim @ ''.'' @ hmacHex [1] (utf8 claim)
      \<and> claim = join ''.'' [TICKET_VERSION, tag, name, expires, bytesToHex [7], replay]
      \<and> namedBy (PaymentSubject (replicate 64 CHR ''b'')) =
          (tag, name, if tag = TRIGGER then int (number_of_digits replay) else 0)
      \<and> 120 < int (number_of_digits expires)"
proof (rule read_ticket_only_authentic)
  have "ticket_jti (mint [1] (PaymentSubject (replicate 64 CHR ''b'')) 60 100 [7]) = bytesToHex [7]"
    by (simp add: mint_def Let_def)
  then show "read_ticket [1] (ticket_text (mint [1] (PaymentSubject (replicate 64 CHR ''b'')) 60 100 [7])) 120
      = Some (PaymentSubject (replicate 64 CHR ''b''), bytesToHex [7])"
    by (subst read_ticket_minted)
      (simp_all add: subject_ok_def is_hash_text_def is_lower_hex_def is_digit_def code_def list_all_iff)
qed

end
