(* ===== verification/Server.thy ===== *)
theory Server
  imports Watch Wire Ticket
begin

text \<open>
  \<^verbatim>\<open>src/index.ts\<close>, the requests: what the gateway answers each call of its API and what it does
  for it. A handler is a function of the gateway's state that returns the reply and the state it
  leaves. Where a handler awaits something, the rest of the instance runs: \<open>elsewhere k\<close> is whatever
  it did during the \<open>k\<close>-th wait and \<open>clock k\<close> the time at which the handler goes on, both
  arbitrary. Drawn at random are the nonces of challenges, of signatures and of tickets.
\<close>

definition MAX_INBOUND_BYTES :: nat where "MAX_INBOUND_BYTES = 64 * 1024"
definition EXPIRED_GRACE_SECS :: int where "EXPIRED_GRACE_SECS = 3600"
definition RESOLVE_TIMEOUT_MS :: int where "RESOLVE_TIMEOUT_MS = 30000"
definition CLAIM_LEASE_SECS :: int where "CLAIM_LEASE_SECS = RESOLVE_TIMEOUT_MS div 1000 + 10"
definition SETTLED_WINDOW :: nat where "SETTLED_WINDOW = 1000"
definition DEFAULT_PAGE :: int where "DEFAULT_PAGE = 50"
definition MAX_PAGE :: int where "MAX_PAGE = 500"
definition BEARER :: string where "BEARER = ''Bearer ''"
definition TICKET_TTL_SECS :: int where "TICKET_TTL_SECS = 60"
definition UNGATED :: "string list" where
  "UNGATED = [''/health'', ''/ready'', ''/openapi.yaml'', ''/docs'', ''/webhook-key'']"
definition WEBHOOK_SIGNING_LABEL :: string where "WEBHOOK_SIGNING_LABEL = ''webhook-signing-v1''"
definition STALLED :: string where
  "STALLED = ''the watch loop has stopped being scheduled, so this instance needs replacing''"
definition LEAVING :: string where "LEAVING = ''this instance is shutting down and is not taking new work''"
definition CATCHING_UP :: string where "CATCHING_UP = ''this instance is still catching up with its peers''"
definition AT_CAPACITY :: string where "AT_CAPACITY = ''this instance is watching as many payments as it can''"

subsection \<open>State, configuration and requests\<close>

record follower =
  follows_id :: "string option"
  follows_trigger :: "string option"
  follower_answered :: bool

record gateway =
  g_store :: store
  g_spent :: "(string \<times> int) list"
  g_budget :: budget
  g_agents :: agents
  g_trace :: "request list"
  followers :: "(socket \<times> follower) list"
  frames :: "(socket \<times> json) list"
  closed :: "socket list"

record serving =
  sv_token :: "string option"
  sv_key :: bytes
  keepSealedSecs :: int
  clientKeys :: "string list option"
  publicHosts :: "string list option"
  sv_mints :: bool
  webhookKey :: signing_key
  verifyHosts :: "string list option"
  verifyChallenge :: bool
  maxReplay :: int

datatype vitals = Serving | Stalled | Draining | CatchingUp

text \<open>
  A request as the HTTP server hands it over: its target, the header object (each name once, in
  lower case), the query parameters by name, the declared and the read length and the text of its
  body.
\<close>

record incoming =
  in_method :: string
  in_url :: string
  in_headers :: headers
  in_query :: "string \<Rightarrow> string option"
  in_declared :: nat
  in_bytes :: nat
  in_body :: string

datatype content = Empty | Plain string | Json json

record reply =
  reply_status :: nat
  reply_headers :: headers
  reply_content :: content

record moment =
  clock :: "nat \<Rightarrow> int"
  elsewhere :: "nat \<Rightarrow> gateway \<Rightarrow> gateway"
  drawn_nonce :: "nat \<Rightarrow> string"
  drawn_stamp :: "nat \<Rightarrow> string"
  drawn_bytes :: bytes

definition seconds :: "moment \<Rightarrow> nat \<Rightarrow> int" where
  "seconds t k = secs_of (clock t k)"

text \<open>The platform and the network the instance runs on.\<close>

record world =
  w_net :: network
  w_plat :: platform
  w_dates :: "string \<Rightarrow> int option"

subsection \<open>Replies\<close>

definition json_reply :: "json \<Rightarrow> nat \<Rightarrow> reply" where
  "json_reply body st =
     \<lparr>reply_status = st, reply_headers = [(''content-type'', ''application/json'')], reply_content = Json body\<rparr>"

definition problem :: "nat \<Rightarrow> string \<Rightarrow> (string \<times> json) list \<Rightarrow> reply" where
  "problem st kind members =
     \<lparr>reply_status = st, reply_headers = [(''content-type'', ''application/problem+json'')],
      reply_content = Json (JObj ([(''type'', JStr kind), (''status'', JNum (int st))] @ members))\<rparr>"

definition ABOUT_BLANK :: string where "ABOUT_BLANK = ''about:blank''"

definition titled :: "string \<Rightarrow> (string \<times> json) list" where
  "titled title = [(''title'', JStr title)]"

definition detailed :: "string \<Rightarrow> string \<Rightarrow> (string \<times> json) list" where
  "detailed title detail = [(''title'', JStr title), (''detail'', JStr detail)]"

definition invalidRequest :: "string \<Rightarrow> reply" where
  "invalidRequest detail = problem 400 INVALID_REQUEST (detailed ''The request could not be read'' detail)"

definition tooManyToKeep :: "int \<Rightarrow> reply" where
  "tooManyToKeep most = invalidRequest
     (''replay must be '' @ show_int most @ '' or fewer, which is how many settlements this gateway keeps per trigger'')"

definition conflict :: "string \<Rightarrow> string \<Rightarrow> reply" where
  "conflict kind title = problem 409 kind (titled title)"

definition unauthorized :: reply where
  "unauthorized = problem 401 ABOUT_BLANK (titled ''Unauthorized'')"

definition notFound :: reply where
  "notFound = problem 404 ABOUT_BLANK (titled ''Not Found'')"

definition gone :: "string \<Rightarrow> reply" where
  "gone detail = problem 410 ABOUT_BLANK (detailed ''Gone'' detail)"

definition tooMany :: "string option \<Rightarrow> nat \<Rightarrow> reply" where
  "tooMany who most =
     (problem 429 TOO_MANY_PENDING
        (detailed ''Too Many Requests''
          (if who = None then AT_CAPACITY @ '', and every caller who signs nothing shares one share of it'' else AT_CAPACITY)))
     \<lparr>reply_headers := [(''content-type'', ''application/problem+json''),
        (''ratelimit-limit'', show_nat most), (''ratelimit-remaining'', ''0'')]\<rparr>"

definition unknownCaller :: reply where
  "unknownCaller = problem 403 CALLER_UNKNOWN
     (detailed ''This gateway does not accept that key''
       ''this instance serves a list of client keys, and yours is not one of them'')"

definition unavailable :: "string \<Rightarrow> reply" where
  "unavailable detail = problem 503 ABOUT_BLANK (detailed ''Service Unavailable'' detail)"

definition oversized :: reply where
  "oversized = problem 413 INVALID_REQUEST
     (detailed ''The request body is larger than this gateway will read''
       (''the ceiling is '' @ show_nat MAX_INBOUND_BYTES @ '' bytes, far above any request this API defines''))"

definition unhandled :: reply where
  "unhandled = problem 500 ABOUT_BLANK (titled ''Internal Server Error'')"

text \<open>The host of a URL that was read as a public https one, so it parses.\<close>

definition hostAsked :: "world \<Rightarrow> string \<Rightarrow> string" where
  "hostAsked w url = lower (case parse_url (w_net w) url of None \<Rightarrow> [] | Some u \<Rightarrow> url_hostname u)"

definition mintsNothing :: "serving \<Rightarrow> reply" where
  "mintsNothing sv = problem 403 VERIFY_HOST_REFUSED
     (detailed ''This gateway only watches, it does not mint''
       (if verifyHosts sv \<noteq> None
        then ''VERIFY_HOSTS pins this instance to a list of verify endpoints, and minting an invoice would put it on a wallet's host instead. Resolve the address yourself and register the payment with POST /watched-payments.''
        else ''minting is off here, because it is the one path that hands the operator the address and the amount. Mint the invoice yourself and register it with POST /watched-payments, or ask the operator to set MINTING=1 and accept that they see both.''))"

definition refusedVerifyHost :: "world \<Rightarrow> string \<Rightarrow> reply" where
  "refusedVerifyHost w url = problem 403 VERIFY_HOST_REFUSED
     (detailed ''This gateway does not poll that host''
       (hostAsked w url @ '' is not in the VERIFY_HOSTS this instance is pinned to, so it will not be polled. This gateway talks to a fixed set of endpoints and nothing else.''))"

definition unconfirmedVerify :: "string \<Rightarrow> reply" where
  "unconfirmedVerify url = problem 424 VERIFY_UNCONFIRMED
     (detailed ''The verify URL does not answer like a verify endpoint''
       (url @ '' has to answer a JSON body carrying a boolean settled, the shape LUD-21 defines, before this gateway will poll it for days on your word''))"

definition unconsentedVerify :: "string \<Rightarrow> reply" where
  "unconsentedVerify url = problem 424 VERIFY_UNCONSENTED
     (detailed ''The verify URL did not agree to be polled''
       (url @ '' has to answer the challenge with the nonce it was given before this gateway will poll it, so a caller cannot aim it at a host that never asked for the traffic. Serve it with the client's own verify endpoint, or run the gateway with VERIFY_CHALLENGE=0 if every host its callers name is one you know''))"

definition askedEnough :: "world \<Rightarrow> string \<Rightarrow> reply" where
  "askedEnough w url =
     (problem 503 ABOUT_BLANK
        (detailed ''Service Unavailable''
          (''this gateway is already asking '' @ hostAsked w url @ '' as often as it allows, so try again in a few seconds'')))
     \<lparr>reply_headers := [(''content-type'', ''application/problem+json''), (''retry-after'', ''5'')]\<rparr>"

definition unconfirmedWebhook :: "string \<Rightarrow> reply" where
  "unconfirmedWebhook url = problem 424 WEBHOOK_UNCONFIRMED
     (detailed ''The webhook did not answer the challenge''
       (url @ '' has to answer the challenge with the nonce it was given before this gateway will send anything to it''))"

subsection \<open>Once only\<close>

definition with_store :: "store \<Rightarrow> gateway \<Rightarrow> gateway" where
  "with_store s g = g\<lparr>g_store := s\<rparr>"

definition firstUse :: "int \<Rightarrow> string \<Rightarrow> int \<Rightarrow> gateway \<Rightarrow> bool \<times> gateway" where
  "firstUse now once ttlSecs g =
     (if map_of (g_spent g) once \<noteq> None then (False, g)
      else (True, g\<lparr>g_spent := g_spent g @ [(once, now + ttlSecs)], g_store := spent (g_store g) once (now + ttlSecs)\<rparr>))"

definition hear_spent :: "string \<Rightarrow> int \<Rightarrow> gateway \<Rightarrow> gateway" where
  "hear_spent once until g =
     g\<lparr>g_spent := AList.update once (max until (case map_of (g_spent g) once of None \<Rightarrow> 0 | Some t \<Rightarrow> t)) (g_spent g)\<rparr>"

definition forget_spent :: "int \<Rightarrow> gateway \<Rightarrow> gateway" where
  "forget_spent now g = g\<lparr>g_spent := filter (\<lambda>(once, expiresAt). \<not> expiresAt \<le> now) (g_spent g)\<rparr>"

subsection \<open>Who is calling\<close>

definition header_of :: "incoming \<Rightarrow> string \<Rightarrow> string option" where
  "header_of r name = map_of (in_headers r) name"

definition bearerMatches :: "incoming \<Rightarrow> string \<Rightarrow> bool" where
  "bearerMatches r token =
     (let offered = (case header_of r ''authorization'' of None \<Rightarrow> [] | Some v \<Rightarrow> v);
          bearer = (if starts_with BEARER offered then drop (length BEARER) offered else [])
      in equalInConstantTime (sha256Hex bearer) (sha256Hex token))"

text \<open>\<^verbatim>\<open>new URL(target, base).pathname\<close>, which throws on a target that is no URL.\<close>

definition pathOf :: "world \<Rightarrow> incoming \<Rightarrow> string option" where
  "pathOf w r = map_option url_pathname (resolve_url (w_net w) (in_url r) ''http://app'')"

definition accepted_caller :: "string option \<Rightarrow> string list option \<Rightarrow> bool" where
  "accepted_caller who keys \<longleftrightarrow>
     (case keys of None \<Rightarrow> True | Some ks \<Rightarrow> (case who of None \<Rightarrow> False | Some k \<Rightarrow> k \<in> set ks))"

definition belongsTo :: "'a public_payment_scheme \<Rightarrow> string option \<Rightarrow> bool" where
  "belongsTo p who \<longleftrightarrow> caller p = None \<or> caller p = who"

definition nonce_once :: "string \<Rightarrow> string \<Rightarrow> string" where
  "nonce_once who drawn = ''nonce:'' @ who @ ''.'' @ drawn"

definition ticket_once :: "string \<Rightarrow> string" where
  "ticket_once jti = ''ticket:'' @ jti"

text \<open>The host a signature has to be over: the one of the request, if it is one of this gateway's.\<close>

definition hearing_host :: "serving \<Rightarrow> incoming \<Rightarrow> string" where
  "hearing_host sv r =
     (let host = lower (case header_of r ''host'' of None \<Rightarrow> [] | Some h \<Rightarrow> h)
      in case publicHosts sv of None \<Rightarrow> host | Some ours \<Rightarrow> if host \<in> set ours then host else [])"

definition callerFor :: "world \<Rightarrow> moment \<Rightarrow> serving \<Rightarrow> incoming \<Rightarrow> string \<Rightarrow> gateway \<Rightarrow> (thrown + string option) \<times> gateway" where
  "callerFor w t sv r target g =
     callerOf (w_plat w) (seconds t 0) (in_headers r) (in_method r) target (in_body r) (hearing_host sv r)
       (\<lambda>who drawn. firstUse (seconds t 0) (nonce_once who drawn) (2 * TOLERANCE_SECS)) g"

definition keyOf :: "string option \<Rightarrow> string \<Rightarrow> string" where
  "keyOf who offered = (case who of None \<Rightarrow> offered | Some k \<Rightarrow> k @ ''.'' @ offered)"

definition mints :: "serving \<Rightarrow> bool" where
  "mints sv \<longleftrightarrow> sv_mints sv \<and> verifyHosts sv = None"

subsection \<open>Waiting\<close>

text \<open>Asking a host for its turn is one wait; so is every request made outside.\<close>

definition take_turn :: "moment \<Rightarrow> nat \<Rightarrow> string \<Rightarrow> gateway \<Rightarrow> bool \<times> gateway" where
  "take_turn t k host g =
     (case spend (clock t k) (instances (g_store g)) (g_budget g) host of
        (granted, b) \<Rightarrow> (granted \<noteq> None, elsewhere t k (g\<lparr>g_budget := b\<rparr>)))"

definition outside :: "moment \<Rightarrow> nat \<Rightarrow> (request list \<Rightarrow> 'a \<times> request list) \<Rightarrow> gateway \<Rightarrow> 'a \<times> gateway" where
  "outside t k f g = (case f (g_trace g) of (x, trace') \<Rightarrow> (x, elsewhere t k (g\<lparr>g_trace := trace'\<rparr>)))"

text \<open>
  A handler goes through its checks in order and answers with the first refusal. A check looks at
  the gateway and may change it; \<open>then_check\<close> runs the next one only when there was no refusal.
\<close>

type_synonym check = "gateway \<Rightarrow> reply option \<times> gateway"

definition then_check :: "check \<Rightarrow> check \<Rightarrow> check" where
  "then_check c d g = (case c g of (Some refusal, g') \<Rightarrow> (Some refusal, g') | (None, g') \<Rightarrow> d g')"

definition refuse_if :: "(gateway \<Rightarrow> bool) \<Rightarrow> (gateway \<Rightarrow> reply) \<Rightarrow> check" where
  "refuse_if bad refusal g = (if bad g then (Some (refusal g), g) else (None, g))"

definition refuse_unless :: "(gateway \<Rightarrow> bool \<times> gateway) \<Rightarrow> reply \<Rightarrow> check" where
  "refuse_unless ask_it refusal g = (case ask_it g of (True, g') \<Rightarrow> (None, g') | (False, g') \<Rightarrow> (Some refusal, g'))"

definition only_if :: "bool \<Rightarrow> check \<Rightarrow> check" where
  "only_if wanted c g = (if wanted then c g else (None, g))"

definition answer_after :: "check \<Rightarrow> (gateway \<Rightarrow> reply \<times> gateway) \<Rightarrow> gateway \<Rightarrow> reply \<times> gateway" where
  "answer_after c f g = (case c g of (Some refusal, g') \<Rightarrow> (refusal, g') | (None, g') \<Rightarrow> f g')"

definition too_many :: "string option \<Rightarrow> gateway \<Rightarrow> reply" where
  "too_many who g = tooMany who (maxPending (g_store g))"

definition at_capacity :: "string option \<Rightarrow> check" where
  "at_capacity who = refuse_if (\<lambda>g. full (g_store g) who) (too_many who)"

subsection \<open>Reading the body\<close>

datatype 'a body_read = NotReadable reply | Body 'a

definition read_body :: "(json \<Rightarrow> 'a reading) \<Rightarrow> incoming \<Rightarrow> 'a body_read" where
  "read_body read r =
     (case parse_json (in_body r) of
        None \<Rightarrow> NotReadable (invalidRequest ''the request body is not JSON'')
      | Some body \<Rightarrow>
          (case read body of Inl complaint \<Rightarrow> NotReadable (invalidRequest complaint) | Inr x \<Rightarrow> Body x))"

definition payment_reply :: "'a public_payment_scheme \<Rightarrow> nat \<Rightarrow> reply" where
  "payment_reply p st = json_reply (JObj (paymentToWire p)) st"

subsection \<open>Looking a payment up\<close>

definition handedTo :: "moment \<Rightarrow> nat \<Rightarrow> string \<Rightarrow> string option \<Rightarrow> gateway \<Rightarrow> reply" where
  "handedTo t k i who g =
     (case get (seconds t k) (g_store g) i of
        Some p \<Rightarrow> if belongsTo p who then payment_reply p 200 else notFound
      | None \<Rightarrow>
          (case keptFor (st_ledger (g_store g)) i of
             None \<Rightarrow> notFound
           | Some held \<Rightarrow>
               if kept_caller held \<noteq> None \<and> kept_caller held \<noteq> who then notFound
               else json_reply (JObj (keptToWire held)) 200))"

definition listed :: "moment \<Rightarrow> nat \<Rightarrow> incoming \<Rightarrow> gateway \<Rightarrow> reply" where
  "listed t k r g =
     (case (case in_query r ''limit'' of None \<Rightarrow> Some DEFAULT_PAGE | Some asked \<Rightarrow> js_whole asked) of
        None \<Rightarrow> invalidRequest (''limit must be a whole number from 1 to '' @ show_int MAX_PAGE)
      | Some limit \<Rightarrow>
          if limit < 1 \<or> limit > MAX_PAGE then invalidRequest (''limit must be a whole number from 1 to '' @ show_int MAX_PAGE)
          else json_reply (JObj
            [(''payments'', JArr (map (\<lambda>p. JObj (paymentToWire p))
                (listPayments (seconds t k) (st_ledger (g_store g)) (nat limit) SETTLED_WINDOW))),
             (''settled_scanned'', JNum (int SETTLED_WINDOW))]) 200)"

definition replay_answer :: "moment \<Rightarrow> nat \<Rightarrow> string \<Rightarrow> string option \<Rightarrow> gateway \<Rightarrow> reply" where
  "replay_answer t k i who g =
     (case get (seconds t k) (g_store g) i of
        Some p \<Rightarrow> if belongsTo p who then payment_reply p 201
                   else gone ''the payment this Idempotency-Key created has already been pruned''
      | None \<Rightarrow> gone ''the payment this Idempotency-Key created has already been pruned'')"

subsection \<open>Creating a payment\<close>

definition confirms_webhook :: "world \<Rightarrow> moment \<Rightarrow> serving \<Rightarrow> nat \<Rightarrow> webhook \<Rightarrow> gateway \<Rightarrow> bool \<times> gateway" where
  "confirms_webhook w t sv k hook =
     outside t k (confirmWebhook (w_net w) (w_plat w) (webhookKey sv) hook (drawn_nonce t k) (seconds t (k - 1)) (drawn_stamp t k))"

definition webhook_checks :: "world \<Rightarrow> moment \<Rightarrow> serving \<Rightarrow> nat \<Rightarrow> webhook option \<Rightarrow> check" where
  "webhook_checks w t sv k hook =
     (case hook of
        None \<Rightarrow> (\<lambda>g. (None, g))
      | Some url \<Rightarrow>
          then_check (refuse_unless (take_turn t k (hostAsked w url)) (askedEnough w url))
            (refuse_unless (confirms_webhook w t sv (k + 1) url) (unconfirmedWebhook url)))"

definition minted_payment :: "createRequest \<Rightarrow> resolution \<Rightarrow> string option \<Rightarrow> int \<Rightarrow> payment" where
  "minted_payment asked won who now =
     \<lparr>pay_id = [], lnAddress = Some (resolved_address won), amountMsat = Some (create_amountMsat asked),
      pay_status = Pending, paymentHash = resolved_paymentHash won, bolt11 = Some (resolved_bolt11 won),
      preimage = None, expiresAt = int (resolved_expiresAt won), createdAt = now,
      verifyUrl = resolved_verifyUrl won, trigger = create_trigger asked, replay = create_replay asked,
      sealed = None, caller = who, webhooks = (case create_webhook asked of None \<Rightarrow> [] | Some u \<Rightarrow> [u])\<rparr>"

text \<open>\<open>Inl\<close> is what resolving threw, \<^const>\<open>None\<close> that there was no room left once the invoice was there.\<close>

definition mint_payment :: "world \<Rightarrow> moment \<Rightarrow> nat \<Rightarrow> createRequest \<Rightarrow> string option \<Rightarrow> gateway \<Rightarrow>
    (resolve_error + payment option) \<times> gateway" where
  "mint_payment w t k asked who g =
     (case outside t k (resolve (w_net w) (create_addresses asked) (create_amountMsat asked)) g of
        (Inl e, g') \<Rightarrow> (Inl e, g')
      | (Inr won, g') \<Rightarrow>
          if full (g_store g') who then (Inr None, g')
          else (case insert_payment (seconds t k) (g_store g') (minted_payment asked won who (seconds t k)) of
                  (p, s) \<Rightarrow> (Inr (Some p), with_store s g')))"

definition no_wallet :: "string \<Rightarrow> walletFailure list \<Rightarrow> reply" where
  "no_wallet title wallets = problem (statusForWallets wallets) NO_WALLET_AVAILABLE
     [(''title'', JStr title), (''wallets'', JArr (map failure_json wallets))]"

definition fulfilled :: "string option \<Rightarrow> string \<Rightarrow> gateway \<Rightarrow> gateway" where
  "fulfilled key i g = (case key of None \<Rightarrow> g | Some k \<Rightarrow> with_store (fulfill (g_store g) k i) g)"

definition released :: "string option \<Rightarrow> gateway \<Rightarrow> gateway" where
  "released key g = (case key of None \<Rightarrow> g | Some k \<Rightarrow> with_store (release (g_store g) k) g)"

text \<open>The body of the \<^verbatim>\<open>try\<close>; \<open>create\<close> releases the key after it whatever came of it.\<close>

definition create_attempt :: "world \<Rightarrow> moment \<Rightarrow> serving \<Rightarrow> createRequest \<Rightarrow> string option \<Rightarrow> string option \<Rightarrow> gateway \<Rightarrow> reply \<times> gateway" where
  "create_attempt w t sv asked who key =
     answer_after (then_check (at_capacity who) (webhook_checks w t sv 2 (create_webhook asked)))
       (\<lambda>g. case mint_payment w t 4 asked who g of
          (Inl (NoWalletAvailable wallets), g') \<Rightarrow> (no_wallet ''No wallet could issue a provable invoice'' wallets, g')
        | (Inl ResolveCrashed, g') \<Rightarrow> (unhandled, g')
        | (Inr None, g') \<Rightarrow> (too_many who g', g')
        | (Inr (Some p), g') \<Rightarrow> (payment_reply p 201, fulfilled key (pay_id p) g'))"

definition offered_key :: "incoming \<Rightarrow> string option \<Rightarrow> string option" where
  "offered_key r who =
     (case header_of r ''idempotency-key'' of
        None \<Rightarrow> None
      | Some offered \<Rightarrow> if offered = [] then None else Some (keyOf who offered))"

definition claimed :: "moment \<Rightarrow> nat \<Rightarrow> string option \<Rightarrow> createRequest \<Rightarrow> gateway \<Rightarrow> claim option \<times> gateway" where
  "claimed t k key asked g =
     (case key of
        None \<Rightarrow> (None, g)
      | Some key \<Rightarrow>
          (case claim_store (seconds t k) (g_store g) key (fingerprint asked) CLAIM_LEASE_SECS of
             (claim, s) \<Rightarrow> (Some claim, with_store s g)))"

definition create :: "world \<Rightarrow> moment \<Rightarrow> serving \<Rightarrow> incoming \<Rightarrow> string option \<Rightarrow> gateway \<Rightarrow> reply \<times> gateway" where
  "create w t sv r who g0 =
     (let g = elsewhere t 1 g0
      in case read_body (readCreateRequest (parse_url (w_net w))) r of
           NotReadable refusal \<Rightarrow> (refusal, g)
         | Body asked \<Rightarrow>
             if create_replay asked > maxReplay sv then (tooManyToKeep (maxReplay sv), g)
             else (let key = offered_key r who
                   in case claimed t 1 key asked g of
                        (Some (Done i), g') \<Rightarrow> (replay_answer t 1 i who g', g')
                      | (Some Inflight, g') \<Rightarrow>
                          (conflict REQUEST_IN_FLIGHT ''A request with this Idempotency-Key is still running'', g')
                      | (Some Mismatch, g') \<Rightarrow>
                          (conflict KEY_REUSED ''This Idempotency-Key was used for a different request'', g')
                      | (_, g') \<Rightarrow>
                          (case create_attempt w t sv asked who key g' of (answer, g'') \<Rightarrow> (answer, released key g''))))"

definition quoted_reply :: "world \<Rightarrow> moment \<Rightarrow> incoming \<Rightarrow> gateway \<Rightarrow> reply \<times> gateway" where
  "quoted_reply w t r g0 =
     (let g = elsewhere t 1 g0
      in case read_body readQuoteRequest r of
           NotReadable refusal \<Rightarrow> (refusal, g)
         | Body asked \<Rightarrow>
             (case outside t 2 (quote_wallets (w_net w) (quoted_addresses asked) (quoted_amountMsat asked)) g of
                (Inl (NoWalletAvailable wallets), g') \<Rightarrow> (no_wallet ''No wallet would take this amount'' wallets, g')
              | (Inl ResolveCrashed, g') \<Rightarrow> (unhandled, g')
              | (Inr (won, refusals), g') \<Rightarrow>
                  (json_reply (JObj (quoteToWire won (quoted_amountMsat asked) refusals)) 200, g')))"

subsection \<open>Watching a payment\<close>

definition isThisWatch :: "'a public_payment_scheme \<Rightarrow> watchRequest \<Rightarrow> bool" where
  "isThisWatch held asked \<longleftrightarrow>
     lnAddress held = None \<and> amountMsat held = None \<and> bolt11 held = None \<and>
     verifyUrl held = watch_verifyUrl asked \<and> expiresAt held = watch_expiresAt asked \<and>
     trigger held = watch_trigger asked \<and> sealed held = watch_sealed asked"

definition watched_payment :: "watchRequest \<Rightarrow> string option \<Rightarrow> int \<Rightarrow> payment" where
  "watched_payment asked who now =
     \<lparr>pay_id = [], lnAddress = None, amountMsat = None, pay_status = Pending, paymentHash = watch_paymentHash asked,
      bolt11 = None, preimage = None, expiresAt = watch_expiresAt asked, createdAt = now,
      verifyUrl = watch_verifyUrl asked, trigger = watch_trigger asked, replay = watch_replay asked,
      sealed = watch_sealed asked, caller = who, webhooks = (case watch_webhook asked of None \<Rightarrow> [] | Some u \<Rightarrow> [u])\<rparr>"

definition known_elsewhere :: "moment \<Rightarrow> watchRequest \<Rightarrow> string option \<Rightarrow> gateway \<Rightarrow> bool" where
  "known_elsewhere t asked who g =
     (case get (seconds t 1) (g_store g) (names (g_store g) who (watch_paymentHash asked)) of
        None \<Rightarrow> False
      | Some held \<Rightarrow> \<not> belongsTo held who \<or> \<not> isThisWatch held asked)"

definition verify_checks :: "world \<Rightarrow> moment \<Rightarrow> serving \<Rightarrow> string \<Rightarrow> check" where
  "verify_checks w t sv url =
     (let host = hostAsked w url
      in then_check (refuse_if (\<lambda>_. case verifyHosts sv of None \<Rightarrow> False | Some ours \<Rightarrow> host \<notin> set ours)
                       (\<lambda>_. refusedVerifyHost w url))
        (then_check (refuse_unless (take_turn t 2 host) (askedEnough w url))
        (then_check (refuse_unless (outside t 3 (speaksVerify (w_net w) url)) (unconfirmedVerify url))
           (only_if (verifyChallenge sv)
              (then_check (refuse_unless (take_turn t 4 host) (askedEnough w url))
                 (refuse_unless
                    (outside t 5 (confirmVerify (w_net w) (w_plat w) (webhookKey sv) url (drawn_nonce t 5) (seconds t 4) (drawn_stamp t 5)))
                    (unconsentedVerify url)))))))"

definition watch_checks :: "world \<Rightarrow> moment \<Rightarrow> serving \<Rightarrow> watchRequest \<Rightarrow> string option \<Rightarrow> check" where
  "watch_checks w t sv asked who =
     (let now = seconds t 1; agent = agentAddressed (watch_verifyUrl asked)
      in then_check (refuse_if (\<lambda>_. watch_replay asked > maxReplay sv) (\<lambda>_. tooManyToKeep (maxReplay sv)))
        (then_check (at_capacity who)
        (then_check (refuse_if (\<lambda>_. watch_expiresAt asked \<le> now)
           (\<lambda>_. invalidRequest ''expires_at is already in the past, there is nothing left to watch''))
        (then_check (refuse_if (\<lambda>_. watch_expiresAt asked > now + WATCH_HORIZON_SECS)
           (\<lambda>_. invalidRequest (''expires_at is further off than the '' @ show_int (WATCH_HORIZON_SECS div 86400) @
                  '' days this gateway will watch for'')))
        (then_check (refuse_if (known_elsewhere t asked who)
           (\<lambda>_. conflict ALREADY_WATCHED ''This payment hash is already being watched here''))
        (then_check (refuse_if (\<lambda>_. agent \<noteq> None \<and> agent \<noteq> who)
           (\<lambda>_. invalidRequest ''verify_url names an agent, and it has to be the caller asking''))
        (then_check (only_if (agent = None) (verify_checks w t sv (watch_verifyUrl asked)))
        (then_check (webhook_checks w t sv 6 (watch_webhook asked)) (at_capacity who)))))))))"

definition watchOnly :: "world \<Rightarrow> moment \<Rightarrow> serving \<Rightarrow> incoming \<Rightarrow> string option \<Rightarrow> gateway \<Rightarrow> reply \<times> gateway" where
  "watchOnly w t sv r who g0 =
     (let g = elsewhere t 1 g0
      in case read_body (readWatchRequest (parse_url (w_net w)) (w_dates w)) r of
           NotReadable refusal \<Rightarrow> (refusal, g)
         | Body asked \<Rightarrow>
             answer_after (watch_checks w t sv asked who)
               (\<lambda>g. case insert_payment (seconds t 7) (g_store g) (watched_payment asked who (seconds t 1)) of
                  (p, s) \<Rightarrow> (payment_reply p 201, with_store s g)) g)"

subsection \<open>Tickets\<close>

definition hashed :: "string \<Rightarrow> string" where
  "hashed secret = bytesToHex (sha256 (utf8 secret))"

fun subjectAsked :: "ticketRequest \<Rightarrow> string option \<Rightarrow> subject option" where
  "subjectAsked (TriggerTicket secret depth) who = Some (TriggerSubject (hashed secret) depth)"
| "subjectAsked (PaymentTicket i) who = Some (PaymentSubject i)"
| "subjectAsked AgentTicket who = map_option AgentSubject who"

definition not_theirs :: "moment \<Rightarrow> ticketRequest \<Rightarrow> string option \<Rightarrow> gateway \<Rightarrow> bool" where
  "not_theirs t asked who g =
     (case asked of
        PaymentTicket i \<Rightarrow>
          (case get (seconds t 1) (g_store g) i of None \<Rightarrow> True | Some p \<Rightarrow> \<not> belongsTo p who)
      | _ \<Rightarrow> False)"

definition ticketed :: "moment \<Rightarrow> serving \<Rightarrow> incoming \<Rightarrow> string option \<Rightarrow> gateway \<Rightarrow> reply \<times> gateway" where
  "ticketed t sv r who g0 =
     (let g = elsewhere t 1 g0
      in case read_body readTicketRequest r of
           NotReadable refusal \<Rightarrow> (refusal, g)
         | Body asked \<Rightarrow>
             if not_theirs t asked who g then (notFound, g)
             else (case subjectAsked asked who of
                     None \<Rightarrow> (notFound, g)
                   | Some subject \<Rightarrow>
                       (let minted = Ticket.mint (sv_key sv) subject TICKET_TTL_SECS (seconds t 1) (drawn_bytes t)
                        in (json_reply (JObj [(''ticket'', JStr (ticket_text minted)),
                              (''expires_at'', JStr (toTimestamp (ticket_expiresAt minted)))]) 200, g))))"

subsection \<open>Readiness\<close>

definition info_json :: "info \<Rightarrow> vitals \<Rightarrow> json" where
  "info_json i v =
     JObj [(''status'', JStr ''ready''), (''origin'', JStr (info_origin i)), (''peers'', JNum (int (info_peers i))),
       (''pending'', JNum (int (info_pending i))), (''max_pending'', JNum (int (info_maxPending i))),
       (''parked_deliveries'', JNum (int (info_parked i))),
       (''watching'', JStr (if v = Stalled then ''stalled'' else ''scheduled'')),
       (''sync'', JObj
         [(''state'', JStr (if info_convergedAt i \<noteq> None then ''converged''
                            else if info_peers i > 0 then ''catching-up'' else ''alone'')),
          (''converged_at'', nullable JNum (info_convergedAt i)),
          (''origins'', JNum (int (info_origins i))),
          (''marks'', JObj (map (\<lambda>source. (source_text source, JNum (info_marks i source))) SOURCES)),
          (''rows'', JObj (map (\<lambda>source. (source_text source, JNum (int (info_rows i source)))) SOURCES))])]"

definition readiness :: "incoming \<Rightarrow> store \<Rightarrow> string option \<Rightarrow> vitals \<Rightarrow> reply" where
  "readiness r s token v =
     (if v = Draining then unavailable LEAVING
      else if v = CatchingUp then unavailable CATCHING_UP
      else if \<not> (case token of None \<Rightarrow> False | Some secret \<Rightarrow> bearerMatches r secret)
      then json_reply (JObj [(''status'', JStr ''ready'')]) 200
      else json_reply (info_json (info_of s) v) 200)"

text \<open>What the process knows of its own pace, and how it shows.\<close>

record pulse =
  p_draining :: bool
  p_ticking :: bool
  p_tickDueAt :: int
  p_tickStartedAt :: int
  p_startedAt :: int

definition LONGEST_TICK_MS :: int where "LONGEST_TICK_MS = 60000"

definition stalled :: "int \<Rightarrow> int \<Rightarrow> pulse \<Rightarrow> bool" where
  "stalled nowMs tickStallMs p \<longleftrightarrow>
     (if p_ticking p then nowMs - p_tickStartedAt p > tickStallMs + LONGEST_TICK_MS
      else nowMs - p_tickDueAt p > tickStallMs)"

definition catchingUp :: "int \<Rightarrow> bool \<Rightarrow> int \<Rightarrow> store \<Rightarrow> pulse \<Rightarrow> bool" where
  "catchingUp nowMs awaitPeers readyGraceMs s p \<longleftrightarrow>
     awaitPeers \<and> \<not> caughtUp s \<and> (instances s > 1 \<or> nowMs - p_startedAt p < readyGraceMs)"

definition vitals_of :: "int \<Rightarrow> int \<Rightarrow> bool \<Rightarrow> int \<Rightarrow> store \<Rightarrow> pulse \<Rightarrow> vitals" where
  "vitals_of nowMs tickStallMs awaitPeers readyGraceMs s p =
     (if p_draining p then Draining else if stalled nowMs tickStallMs p then Stalled
      else if catchingUp nowMs awaitPeers readyGraceMs s p then CatchingUp else Serving)"

subsection \<open>Routing\<close>

definition word_or_dash :: "char \<Rightarrow> bool" where
  "word_or_dash c \<longleftrightarrow> is_word_char c \<or> c = CHR ''-''"

text \<open>\<^verbatim>\<open>/^prefix([\w-]+)$/\<close>.\<close>

definition named_after :: "string \<Rightarrow> (char \<Rightarrow> bool) \<Rightarrow> string \<Rightarrow> string option" where
  "named_after prefix_text allowed path =
     (if starts_with prefix_text path
      then (let name = drop (length prefix_text) path
            in if name \<noteq> [] \<and> list_all allowed name then Some name else None)
      else None)"

definition publishedWebhookKey :: "serving \<Rightarrow> reply" where
  "publishedWebhookKey sv =
     json_reply (JObj [(''algorithm'', JStr ''ed25519''), (''public_key'', JStr (publicKeyHex (webhookKey sv)))]) 200"

text \<open>
  Reading the request: a body past the ceiling is refused; a target that is no URL, a method that \<^verbatim>\<open>Request\<close>
  forbids, or a body on a \<^verbatim>\<open>GET\<close> or \<^verbatim>\<open>HEAD\<close>, makes the platform's \<^verbatim>\<open>Request\<close> throw. What is left is the target the
  signature is over.
\<close>

definition FORBIDDEN_METHODS :: "string list" where
  "FORBIDDEN_METHODS = [''CONNECT'', ''TRACE'', ''TRACK'']"

lemma forbidden_method [simp]: "m \<in> set FORBIDDEN_METHODS \<longleftrightarrow> m = ''CONNECT'' \<or> m = ''TRACE'' \<or> m = ''TRACK''"
  by (auto simp: FORBIDDEN_METHODS_def)

definition asRequest :: "world \<Rightarrow> incoming \<Rightarrow> reply + string" where
  "asRequest w r =
     (if in_declared r > MAX_INBOUND_BYTES \<or> in_bytes r > MAX_INBOUND_BYTES then Inl oversized
      else (case parse_url (w_net w) (''http://app'' @ in_url r) of
              None \<Rightarrow> Inl unhandled
            | Some u \<Rightarrow>
                if in_method r \<in> set FORBIDDEN_METHODS \<or> in_bytes r > 0 \<and> in_method r \<in> {''GET'', ''HEAD''} then Inl unhandled
                else Inr (url_pathname u @ url_search u)))"

text \<open>The pages that only show a file are the parameter \<open>page\<close>.\<close>

definition api :: "world \<Rightarrow> moment \<Rightarrow> serving \<Rightarrow> incoming \<Rightarrow> string \<Rightarrow> string option \<Rightarrow> gateway \<Rightarrow> reply \<times> gateway" where
  "api w t sv r path who g =
     (case (if in_method r = ''GET'' then named_after ''/incoming-payments/'' word_or_dash path else None) of
        Some i \<Rightarrow> (handedTo t 0 i who g, g)
      | None \<Rightarrow>
          if path = ''/incoming-payments'' \<and> in_method r = ''GET'' then
            (if sv_token sv = None then notFound else listed t 0 r g, g)
          else if path = ''/incoming-payments'' \<and> in_method r = ''POST'' then
            (if \<not> mints sv then (mintsNothing sv, g) else create w t sv r who g)
          else if path = ''/quotes'' \<and> in_method r = ''POST'' then
            (if \<not> mints sv then (mintsNothing sv, g) else quoted_reply w t r g)
          else if path = ''/watched-payments'' \<and> in_method r = ''POST'' then watchOnly w t sv r who g
          else if path = ''/ws-tickets'' \<and> in_method r = ''POST'' then ticketed t sv r who g
          else (notFound, g))"

definition route :: "world \<Rightarrow> moment \<Rightarrow> serving \<Rightarrow> vitals \<Rightarrow> (string \<Rightarrow> incoming \<Rightarrow> reply) \<Rightarrow> incoming \<Rightarrow> gateway \<Rightarrow> reply \<times> gateway" where
  "route w t sv v page r g =
     (case pathOf w r of
        None \<Rightarrow> (unhandled, g)
      | Some path \<Rightarrow>
          if path = ''/health'' then
            (if v = Stalled then unavailable STALLED else \<lparr>reply_status = 200, reply_headers = [], reply_content = Plain ''OK''\<rparr>, g)
          else if path = ''/ready'' then (readiness r (g_store g) (sv_token sv) v, g)
          else if path = ''/openapi.yaml'' \<or> path = ''/docs'' then (page path r, g)
          else if path = ''/webhook-key'' then (publishedWebhookKey sv, g)
          else (case asRequest w r of
                  Inl refusal \<Rightarrow> (refusal, elsewhere t 0 g)
                | Inr target \<Rightarrow>
                    (case callerFor w t sv r target (elsewhere t 0 g) of
                       (Inl _, g') \<Rightarrow> (unhandled, g')
                     | (Inr who, g') \<Rightarrow>
                         if \<not> accepted_caller who (clientKeys sv) then (unknownCaller, g')
                         else api w t sv r path who g')))"

definition OPEN :: headers where
  "OPEN =
     [(''access-control-allow-origin'', ''*''), (''access-control-allow-methods'', ''GET, POST, OPTIONS''),
      (''access-control-allow-headers'', ''content-type, authorization'')]"

text \<open>
  \<^verbatim>\<open>refused\<close> reads the path outside of the handlers that catch what a route throws, so a target
  that is no URL is an unhandled rejection there, which ends the process.
\<close>

datatype outcome = Answered reply | ProcessEnds

definition refused :: "world \<Rightarrow> serving \<Rightarrow> incoming \<Rightarrow> reply option option" where
  "refused w sv r =
     (case sv_token sv of
        None \<Rightarrow> Some None
      | Some token \<Rightarrow>
          map_option (\<lambda>path. if path \<in> set UNGATED \<or> bearerMatches r token then None else Some unauthorized) (pathOf w r))"

definition opened :: "reply \<Rightarrow> reply" where
  "opened answer = answer\<lparr>reply_headers := reply_headers answer @ OPEN\<rparr>"

definition respond :: "world \<Rightarrow> moment \<Rightarrow> serving \<Rightarrow> vitals \<Rightarrow> (string \<Rightarrow> incoming \<Rightarrow> reply) \<Rightarrow> incoming \<Rightarrow> gateway \<Rightarrow> outcome \<times> gateway" where
  "respond w t sv v page r g =
     (if in_method r = ''OPTIONS'' then
        (Answered \<lparr>reply_status = 204, reply_headers = OPEN, reply_content = Empty\<rparr>, g)
      else (case refused w sv r of
              None \<Rightarrow> (ProcessEnds, g)
            | Some (Some refusal) \<Rightarrow> (Answered (opened refusal), g)
            | Some None \<Rightarrow> (case route w t sv v page r g of (answer, g') \<Rightarrow> (Answered (opened answer), g'))))"

end
