(* ===== verification/Windows.thy ===== *)
theory Windows
  imports Prelude
begin

text \<open>
  The interface of everything in the program that remembers for a while what it has seen: the spent
  nonces and tickets of the gateway and the deliveries a webhook route acted on. What is kept until a
  time is kept by every step that comes before, and is not taken again as long as it is kept.
\<close>

text \<open>Every step of a run is one that spares what is kept, in the state it happens in.\<close>

fun all_spare :: "('e \<Rightarrow> 's \<Rightarrow> 's) \<Rightarrow> ('s \<Rightarrow> 'e \<Rightarrow> bool) \<Rightarrow> 's \<Rightarrow> 'e list \<Rightarrow> bool" where
  "all_spare happens spared s [] \<longleftrightarrow> True"
| "all_spare happens spared s (e # es) \<longleftrightarrow> spared s e \<and> all_spare happens spared (happens e s) es"

lemma all_spare_append:
  "all_spare happens spared s (es @ [e]) \<longleftrightarrow> all_spare happens spared s es \<and> spared (fold happens es s) e"
  by (induction es arbitrary: s) auto

lemma all_spareI: "(\<And>s e. e \<in> set es \<Longrightarrow> spared s e) \<Longrightarrow> all_spare happens spared s es"
  by (induction es arbitrary: s) simp_all

locale remembering =
  fixes happens :: "'e \<Rightarrow> 's \<Rightarrow> 's"
    and keeps :: "'s \<Rightarrow> 'k \<Rightarrow> int \<Rightarrow> bool"
    and spares :: "'k \<Rightarrow> int \<Rightarrow> 's \<Rightarrow> 'e \<Rightarrow> bool"
    and takes :: "'s \<Rightarrow> 'k \<Rightarrow> 'e \<Rightarrow> bool"
  assumes kept: "keeps s k until \<Longrightarrow> spares k until s e \<Longrightarrow> keeps (happens e s) k until"
    and refused: "keeps s k until \<Longrightarrow> spares k until s e \<Longrightarrow> \<not> takes s k e"
begin

lemma kept_through: "keeps s k until \<Longrightarrow> all_spare happens (spares k until) s es \<Longrightarrow> keeps (fold happens es s) k until"
  by (induction es arbitrary: s) (simp_all add: kept)

lemma taken_once:
  assumes "keeps s k until" "all_spare happens (spares k until) s (es @ [e])"
  shows "\<not> takes (fold happens es s) k e"
  using assms kept_through refused unfolding all_spare_append by blast

end

end
