(* ===== verification/Requests.thy ===== *)
theory Requests
  imports Server Windows
begin

text \<open>
  What the handlers of \<^verbatim>\<open>src/index.ts\<close> guarantee whatever the rest of the instance does while they
  wait: they change the ledger only by its own operations, a create request is answered with a payment of what
  it asked for, a payment is shown to its caller alone and to everybody else as if it were not there,
  nothing is watched without the consent of the hosts it names, an idempotency key mints once,
  and a nonce is good once. Three of the theorems describe what the code does and should not:
  the target that ends the process, the nonce that is good again in the last second, and the key
  an anonymous caller shares with a signed one.
\<close>

subsection \<open>Every request is ledger work\<close>

definition g_ledger :: "gateway \<Rightarrow> ledger" where
  "g_ledger g = st_ledger (g_store g)"

definition works :: "gateway \<Rightarrow> gateway \<Rightarrow> bool" where
  "works g g' \<longleftrightarrow> ledger_work\<^sup>*\<^sup>* (g_ledger g) (g_ledger g')"

definition works_elsewhere :: "moment \<Rightarrow> bool" where
  "works_elsewhere t \<longleftrightarrow> (\<forall>k g. works g (elsewhere t k g))"

lemma works_refl [simp, intro]: "works g g"
  by (simp add: works_def)

lemma works_trans [trans]: "works g g' \<Longrightarrow> works g' g'' \<Longrightarrow> works g g''"
  by (simp add: works_def)

lemma works_same: "g_ledger g' = g_ledger g \<Longrightarrow> works g g'"
  by (simp add: works_def)

lemma works_one: "ledger_work (g_ledger g) (g_ledger g') \<Longrightarrow> works g g'"
  by (simp add: works_def r_into_rtranclp)

lemma g_ledger_simps [simp]:
  "g_ledger (g\<lparr>g_budget := b\<rparr>) = g_ledger g" "g_ledger (g\<lparr>g_trace := tr\<rparr>) = g_ledger g"
  "g_ledger (with_store s g) = st_ledger s"
  by (simp_all add: g_ledger_def with_store_def)

lemma works_waiting:
  assumes "works_elsewhere t"
  shows "works g (elsewhere t k g)" "works g (elsewhere t k (g\<lparr>g_budget := b\<rparr>))" "works g (elsewhere t k (g\<lparr>g_trace := tr\<rparr>))"
proof -
  have step: "works g' (elsewhere t k g')" for g' using assms by (simp add: works_elsewhere_def)
  show "works g (elsewhere t k g)" by (rule step)
  show "works g (elsewhere t k (g\<lparr>g_budget := b\<rparr>))" using step [of "g\<lparr>g_budget := b\<rparr>"] by (simp add: works_def)
  show "works g (elsewhere t k (g\<lparr>g_trace := tr\<rparr>))" using step [of "g\<lparr>g_trace := tr\<rparr>"] by (simp add: works_def)
qed

lemma works_take_turn: "works_elsewhere t \<Longrightarrow> take_turn t k host g = (ok, g') \<Longrightarrow> works g g'"
  by (auto simp: take_turn_def works_waiting split: prod.splits)

lemma works_outside: "works_elsewhere t \<Longrightarrow> outside t k f g = (x, g') \<Longrightarrow> works g g'"
  by (auto simp: outside_def works_waiting split: prod.splits)

text \<open>A check that only works.\<close>

definition check_works :: "check \<Rightarrow> bool" where
  "check_works c \<longleftrightarrow> (\<forall>g. works g (snd (c g)))"

lemma check_worksD: "check_works c \<Longrightarrow> c g = (r, g') \<Longrightarrow> works g g'"
  by (metis check_works_def snd_conv)

lemma check_works_intros [intro!]:
  "check_works (refuse_if bad refusal)"
  "check_works (\<lambda>g. (None, g))"
  "check_works c \<Longrightarrow> check_works (only_if wanted c)"
  by (auto simp: check_works_def refuse_if_def only_if_def)

lemma check_works_then [intro!]: "check_works c \<Longrightarrow> check_works d \<Longrightarrow> check_works (then_check c d)"
  unfolding check_works_def then_check_def
  by (auto split: prod.splits option.splits) (metis snd_conv works_trans)+

lemma check_works_unless [intro!]:
  "(\<And>g ok g'. ask_it g = (ok, g') \<Longrightarrow> works g g') \<Longrightarrow> check_works (refuse_unless ask_it refusal)"
  unfolding check_works_def refuse_unless_def by (auto split: prod.splits bool.splits)

lemma works_answer_after:
  assumes "check_works c" "\<And>g answer g'. f g = (answer, g') \<Longrightarrow> works g g'" "answer_after c f g = (answer, g')"
  shows "works g g'"
proof -
  obtain refusal g1 where c: "c g = (refusal, g1)" by fastforce
  have "works g g1" using assms(1) c by (rule check_worksD)
  then show ?thesis
    using assms(2,3) c by (cases refusal) (auto simp: answer_after_def intro: works_trans)
qed

lemma works_firstUse: "firstUse now once ttl g = (new, g') \<Longrightarrow> works g g'"
  by (auto simp: firstUse_def spent_def intro!: works_same simp: g_ledger_def split: if_splits)

lemma works_callerFor: "callerFor w t sv r target g = (who, g') \<Longrightarrow> works g g'"
  by (auto simp: callerFor_def callerOf_def split: sum.splits option.splits if_splits prod.splits intro: works_firstUse)

lemma insert_work: "insert_payment now s p = (q, s') \<Longrightarrow> ledger_work\<^sup>*\<^sup>* (st_ledger s) (st_ledger s')"
  using accepting [of "st_ledger s" now]
  by (auto simp: insert_payment_def Let_def spread_def intro!: r_into_rtranclp split: option.splits prod.splits if_splits)
    (metis snd_conv)+

lemma works_insert: "insert_payment now (g_store g) p = (q, s) \<Longrightarrow> works g (with_store s g)"
  using insert_work by (simp add: works_def g_ledger_def with_store_def)

lemma works_webhook_checks: "works_elsewhere t \<Longrightarrow> check_works (webhook_checks w t sv k hook)"
  by (cases hook) (auto simp: webhook_checks_def confirms_webhook_def intro: works_take_turn works_outside)

lemma works_at_capacity [intro!]: "check_works (at_capacity who)"
  by (auto simp: at_capacity_def)

lemma works_watch_checks: "works_elsewhere t \<Longrightarrow> check_works (watch_checks w t sv asked who)"
  unfolding watch_checks_def verify_checks_def Let_def
  by (intro check_works_then check_works_intros check_works_unless works_at_capacity works_webhook_checks)
    (auto intro: works_take_turn works_outside)

lemma works_watchOnly:
  assumes "works_elsewhere t" "watchOnly w t sv r who g = (answer, g')"
  shows "works g g'"
proof -
  have first: "works g (elsewhere t 1 g)" using assms(1) by (rule works_waiting)
  show ?thesis
  proof (cases "read_body (readWatchRequest (parse_url (w_net w)) (w_dates w)) r")
    case (NotReadable refusal)
    then show ?thesis using assms(2) first by (auto simp: watchOnly_def)
  next
    case (Body asked)
    have "works (elsewhere t 1 g) g'"
      by (rule works_answer_after [OF works_watch_checks [OF assms(1), of w sv asked who]])
        (use assms(2) in \<open>auto simp: watchOnly_def Body intro: works_insert split: prod.splits\<close>)
    with first show ?thesis by (rule works_trans)
  qed
qed

lemma works_mint:
  assumes "works_elsewhere t" "mint_payment w t k asked who g = (out, g')"
  shows "works g g'"
proof -
  obtain x g1 where o: "outside t k (resolve (w_net w) (create_addresses asked) (create_amountMsat asked)) g = (x, g1)" by fastforce
  have "works g g1" using assms(1) o by (rule works_outside)
  moreover have "works g1 g'"
    using assms(2) o by (cases x) (auto simp: mint_payment_def intro: works_insert split: if_splits prod.splits)
  ultimately show ?thesis by (rule works_trans)
qed

lemma works_keys:
  "works g (fulfilled key i g)" "works g (released key g)"
  by (cases key; auto simp: fulfilled_def released_def fulfill_def release_def g_ledger_def with_store_def
      intro!: works_one intro: fulfilling releasing)+

lemma works_claimed: "claimed t k key asked g = (out, g') \<Longrightarrow> works g g'"
  by (cases key) (auto simp: claimed_def claim_store_def g_ledger_def with_store_def intro!: works_one
      dest!: on_ledger_work [OF _ claiming] split: prod.splits)

lemma works_create_attempt:
  assumes "works_elsewhere t" "create_attempt w t sv asked who key g = (answer, g')"
  shows "works g g'"
proof -
  have "works g1 g2"
    if "(case mint_payment w t 4 asked who g1 of
          (Inl (NoWalletAvailable wallets), g') \<Rightarrow> (no_wallet ''No wallet could issue a provable invoice'' wallets, g')
        | (Inl ResolveCrashed, g') \<Rightarrow> (unhandled, g')
        | (Inr None, g') \<Rightarrow> (too_many who g', g')
        | (Inr (Some p), g') \<Rightarrow> (payment_reply p 201, fulfilled key (pay_id p) g')) = (answer, g2)" for g1 g2 answer
  proof -
    obtain out g3 where m: "mint_payment w t 4 asked who g1 = (out, g3)" by fastforce
    have "works g1 g3" using works_mint [OF assms(1) m] .
    moreover have "works g3 g2"
      using that unfolding m by (auto intro: works_keys split: sum.splits resolve_error.splits option.splits)
    ultimately show ?thesis by (rule works_trans)
  qed
  then show ?thesis
    using assms(2) unfolding create_attempt_def
    by (rule works_answer_after [OF check_works_then [OF works_at_capacity works_webhook_checks [OF assms(1)]]])
qed

lemma works_create:
  assumes "works_elsewhere t" "create w t sv r who g = (answer, g')"
  shows "works g g'"
proof -
  have first: "works g (elsewhere t 1 g)" using assms(1) by (rule works_waiting)
  show ?thesis
  proof (cases "read_body (readCreateRequest (parse_url (w_net w))) r")
    case (NotReadable refusal)
    then show ?thesis using assms(2) first by (auto simp: create_def)
  next
    case (Body asked)
    obtain claim g1 where c: "claimed t 1 (offered_key r who) asked (elsewhere t 1 g) = (claim, g1)" by fastforce
    obtain answer2 g2 where a: "create_attempt w t sv asked who (offered_key r who) g1 = (answer2, g2)" by fastforce
    have "works (elsewhere t 1 g) g1" using c by (rule works_claimed)
    moreover have "works g1 (released (offered_key r who) g2)"
      using works_create_attempt [OF assms(1) a] works_keys(2) by (rule works_trans)
    ultimately show ?thesis
      using assms(2) first unfolding create_def Let_def Body body_read.case c
      by (auto simp: a intro: works_trans split: if_splits option.splits claim.splits)
  qed
qed

lemma works_quoted: "works_elsewhere t \<Longrightarrow> quoted_reply w t r g = (answer, g') \<Longrightarrow> works g g'"
  by (auto simp: quoted_reply_def Let_def intro: works_waiting works_trans works_outside
      split: body_read.splits prod.splits sum.splits resolve_error.splits)

lemma works_ticketed: "works_elsewhere t \<Longrightarrow> ticketed t sv r who g = (answer, g') \<Longrightarrow> works g g'"
  by (auto simp: ticketed_def Let_def intro: works_waiting split: body_read.splits if_splits option.splits)

lemma works_api: "works_elsewhere t \<Longrightarrow> api w t sv r path who g = (answer, g') \<Longrightarrow> works g g'"
  by (auto simp: api_def intro: works_create works_quoted works_watchOnly works_ticketed split: option.splits if_splits)

lemma works_route:
  assumes "works_elsewhere t" "route w t sv v page r g = (answer, g')"
  shows "works g g'"
proof (cases "asRequest w r")
  case (Inl refusal)
  then show ?thesis
    using assms works_waiting(1) [OF assms(1)] by (auto simp: route_def split: option.splits if_splits)
next
  case (Inr target)
  obtain who g1 where c: "callerFor w t sv r target (elsewhere t 0 g) = (who, g1)" by fastforce
  have "works g g1" using works_waiting(1) [OF assms(1)] works_callerFor [OF c] by (rule works_trans)
  then show ?thesis
    using assms(2) works_api [OF assms(1)]
    by (auto simp: route_def Inr c intro: works_trans split: option.splits if_splits sum.splits)
qed

text \<open>
  No request can break the ledger. Whatever is sent to the API, with whatever headers, body and
  signature, whatever wallets, hosts and hooks answer and whatever runs in between, as long as that
  works on the ledger by its operations so does the request; a reachable ledger stays reachable,
  with everything proved of those.
\<close>

theorem respond_refines_ledger:
  assumes "works_elsewhere t" "respond w t sv v page r g = (out, g')"
  shows "ledger_work\<^sup>*\<^sup>* (g_ledger g) (g_ledger g') \<and> (reachable (g_ledger g) \<longrightarrow> reachable (g_ledger g'))"
proof -
  have "works g g'"
    using assms by (auto simp: respond_def intro: works_route split: if_splits option.splits prod.splits)
  moreover have "reachable l'" if "ledger_work\<^sup>*\<^sup>* l l'" "reachable l" for l l'
    using that by (induction rule: rtranclp_induct) (auto intro: stepped working)
  ultimately show ?thesis by (auto simp: works_def)
qed

subsection \<open>A stranger sees nothing\<close>

lemma callerOf_SomeD:
  "callerOf plat now hs method path body host fresh s = (Inr (Some k), s') \<Longrightarrow>
   \<exists>sg. signerOf plat now (gateway_message method path host hs) body CLIENT_SIGNS TOLERANCE_SECS = Inr (Some sg) \<and> keyid sg = k"
  by (auto simp: callerOf_def split: sum.splits option.splits if_splits prod.splits)

definition REFUSALS :: "reply set" where
  "REFUSALS = opened ` {unauthorized, oversized, unhandled, unknownCaller, notFound}"

lemma asRequest_refusals: "asRequest w r = Inl refusal \<Longrightarrow> refusal \<in> {oversized, unhandled}"
  by (auto simp: asRequest_def split: if_splits option.splits)

lemma named_payment:
  assumes "i \<noteq> []" "list_all word_or_dash i"
  shows "named_after ''/incoming-payments/'' word_or_dash (''/incoming-payments/'' @ i) = Some i"
  using assms by (simp add: named_after_def starts_with_def)

lemma route_to_payment:
  assumes "pathOf w r = Some (''/incoming-payments/'' @ i)" "i \<noteq> []" "list_all word_or_dash i" "in_method r = ''GET''"
  shows "route w t sv v page r g =
    (case asRequest w r of
       Inl refusal \<Rightarrow> (refusal, elsewhere t 0 g)
     | Inr target \<Rightarrow>
         (case callerFor w t sv r target (elsewhere t 0 g) of
            (Inl _, g') \<Rightarrow> (unhandled, g')
          | (Inr who, g') \<Rightarrow>
              if \<not> accepted_caller who (clientKeys sv) then (unknownCaller, g') else (handedTo t 0 i who g', g')))"
  using assms named_payment [OF assms(2,3)] by (simp add: route_def api_def split: sum.splits prod.splits)

text \<open>As whom the request asks; \<^const>\<open>None\<close> when it cannot be read.\<close>

definition who_asks :: "world \<Rightarrow> moment \<Rightarrow> serving \<Rightarrow> incoming \<Rightarrow> gateway \<Rightarrow> (thrown + string option) option" where
  "who_asks w t sv r g =
     (case asRequest w r of Inl _ \<Rightarrow> None | Inr target \<Rightarrow> Some (fst (callerFor w t sv r target (elsewhere t 0 g))))"

text \<open>What a request for a payment is answered by, up to the payment: the token, the request, the signature, the key.\<close>

definition payment_answer :: "world \<Rightarrow> serving \<Rightarrow> incoming \<Rightarrow> (thrown + string option) option \<Rightarrow> (string option \<Rightarrow> reply) \<Rightarrow> outcome" where
  "payment_answer w sv r asks shown =
     (case refused w sv r of
        None \<Rightarrow> ProcessEnds
      | Some (Some refusal) \<Rightarrow> Answered (opened refusal)
      | Some None \<Rightarrow>
          Answered (opened (case asks of
             None \<Rightarrow> (case asRequest w r of Inl refusal \<Rightarrow> refusal | Inr _ \<Rightarrow> unhandled)
           | Some (Inl _) \<Rightarrow> unhandled
           | Some (Inr who) \<Rightarrow> if \<not> accepted_caller who (clientKeys sv) then unknownCaller else shown who)))"

lemma respond_to_payment:
  assumes "pathOf w r = Some (''/incoming-payments/'' @ i)" "i \<noteq> []" "list_all word_or_dash i" "in_method r = ''GET''"
    and "respond w t sv v page r g = (answer, g')"
  shows "answer = payment_answer w sv r (who_asks w t sv r g) (\<lambda>who. handedTo t 0 i who g')"
  using assms(4,5) route_to_payment [OF assms(1-4), of t sv v page g]
  by (auto simp: respond_def payment_answer_def who_asks_def split: option.splits sum.splits prod.splits if_splits)

lemma payment_answer_refuses:
  assumes "payment_answer w sv r asks (\<lambda>who. notFound) = Answered answer"
  shows "answer \<in> REFUSALS"
  using assms asRequest_refusals [of w r]
  by (auto simp: payment_answer_def refused_def REFUSALS_def split: option.splits if_splits sum.splits)

text \<open>
  C5: a payment is shown to its own caller, and to everybody else it is not there. Asked for a payment that has a
  caller, by a request that passes the token and carries a signature that proves that very caller, whose key the gateway
  accepts, it answers with the payment. To every other request it gives the answer that any gateway that has no
  such payment gives the same request of the same caller: the refusal of the token, the request, the signature or the
  key, or else that there is nothing, so that no answer tells that the payment exists.
\<close>

theorem shown_to_its_own_caller:
  assumes "pathOf w r = Some (''/incoming-payments/'' @ i)" "i \<noteq> []" "list_all word_or_dash i" "in_method r = ''GET''"
    and "respond w t sv v page r g = (Answered answer, g')"
    and "get (seconds t 0) (g_store g') i = Some p" "caller p = Some k"
  shows "if refused w sv r = Some None \<and> who_asks w t sv r g = Some (Inr (Some k)) \<and> accepted_caller (Some k) (clientKeys sv)
    then answer = opened (payment_reply p 200) \<and>
      (\<exists>target sg. asRequest w r = Inr target \<and> keyid sg = k \<and>
         signerOf (w_plat w) (seconds t 0) (gateway_message ''GET'' target (hearing_host sv r) (in_headers r)) (in_body r)
           CLIENT_SIGNS TOLERANCE_SECS = Inr (Some sg))
    else answer \<in> REFUSALS \<and>
      (\<forall>t2 h answer2 h'. respond w t2 sv v page r h = (answer2, h') \<and> who_asks w t2 sv r h = who_asks w t sv r g \<and>
         get (seconds t2 0) (g_store h') i = None \<and> keptFor (st_ledger (g_store h')) i = None \<longrightarrow> answer2 = Answered answer)"
proof -
  let ?mine = "refused w sv r = Some None \<and> who_asks w t sv r g = Some (Inr (Some k)) \<and> accepted_caller (Some k) (clientKeys sv)"
  note answered = respond_to_payment [OF assms(1-4)]
  have here: "handedTo t 0 i who g' = (if who = Some k then payment_reply p 200 else notFound)" for who
    using assms(6,7) by (auto simp: handedTo_def belongsTo_def)
  have shown: "Answered answer = payment_answer w sv r (who_asks w t sv r g) (\<lambda>who. if who = Some k then payment_reply p 200 else notFound)"
    using answered [OF assms(5)] by (simp add: here)
  show ?thesis
  proof (cases ?mine)
    case True
    then obtain target where req: "asRequest w r = Inr target"
      and asks: "fst (callerFor w t sv r target (elsewhere t 0 g)) = Inr (Some k)"
      by (auto simp: who_asks_def split: sum.splits)
    obtain s' where "callerFor w t sv r target (elsewhere t 0 g) = (Inr (Some k), s')" using asks by (metis prod.collapse)
    with callerOf_SomeD req assms(4)
    have "\<exists>target sg. asRequest w r = Inr target \<and> keyid sg = k \<and>
         signerOf (w_plat w) (seconds t 0) (gateway_message ''GET'' target (hearing_host sv r) (in_headers r)) (in_body r)
           CLIENT_SIGNS TOLERANCE_SECS = Inr (Some sg)" unfolding callerFor_def by metis
    with True shown show ?thesis by (simp add: payment_answer_def)
  next
    case False
    have "payment_answer w sv r (who_asks w t sv r g) (\<lambda>who. if who = Some k then payment_reply p 200 else notFound) =
        payment_answer w sv r (who_asks w t sv r g) (\<lambda>who. notFound)"
      using False by (auto simp: payment_answer_def split: option.splits sum.splits)
    with shown have same: "payment_answer w sv r (who_asks w t sv r g) (\<lambda>who. notFound) = Answered answer" by simp
    have "answer2 = Answered answer"
      if "respond w t2 sv v page r h = (answer2, h')" "who_asks w t2 sv r h = who_asks w t sv r g"
        "get (seconds t2 0) (g_store h') i = None" "keptFor (st_ledger (g_store h')) i = None" for t2 h answer2 h'
    proof -
      have "handedTo t2 0 i who h' = notFound" for who using that(3,4) by (simp add: handedTo_def)
      then show ?thesis using answered [OF that(1)] that(2) same by simp
    qed
    with payment_answer_refuses [OF same] False show ?thesis by auto
  qed
qed

subsection \<open>The gate\<close>

text \<open>
  Behind a token, nothing without the token. On a gateway with a token, a request for a path that
  is not one of the five open ones is answered 401 and leaves the gateway as it was, unless the bearer it
  offers, or the empty text when it offers none, has the SHA-256 of the token, or it is a preflight,
  which does nothing either.
\<close>

theorem token_gates_everything:
  assumes "sv_token sv = Some token" "pathOf w r = Some path" "path \<notin> set UNGATED" "in_method r \<noteq> ''OPTIONS''"
  shows "(\<exists>bearer. sha256 (utf8 bearer) = sha256 (utf8 token) \<and>
       (bearer = [] \<or> header_of r ''authorization'' = Some (BEARER @ bearer))) \<or>
    respond w t sv v page r g = (Answered (opened unauthorized), g)"
proof (cases "bearerMatches r token")
  case True
  define offered where "offered = (case header_of r ''authorization'' of None \<Rightarrow> [] | Some h \<Rightarrow> h)"
  define bearer where "bearer = (if starts_with BEARER offered then drop (length BEARER) offered else [])"
  have "bytesToHex (sha256 (utf8 bearer)) = bytesToHex (sha256 (utf8 token))"
    using True unfolding bearerMatches_def equalInConstantTime_iff sha256Hex_def Let_def by (simp only: offered_def bearer_def)
  then have same: "sha256 (utf8 bearer) = sha256 (utf8 token)" by (metis hexToBytes_bytesToHex)
  show ?thesis
  proof (cases "starts_with BEARER offered")
    case True
    then have "offered = BEARER @ bearer" by (auto simp: bearer_def starts_with_def prefix_def)
    moreover have "header_of r ''authorization'' = Some offered"
      using True by (auto simp: offered_def BEARER_def starts_with_def split: option.splits)
    ultimately show ?thesis using same by blast
  next
    case False
    then have "bearer = []" by (simp add: bearer_def)
    then show ?thesis using same by blast
  qed
next
  case False
  then show ?thesis using assms by (simp add: respond_def refused_def)
qed

text \<open>
  C19: on a gateway with a token, one request ends the process. A request whose target is no URL, such
  as two slashes, makes the check of the token throw where nothing catches it; without a token the
  same request is answered 500.
\<close>

theorem target_that_ends_the_process:
  assumes "in_method r \<noteq> ''OPTIONS''" "resolve_url (w_net w) (in_url r) ''http://app'' = None"
  shows "respond w t sv v page r g =
    (case sv_token sv of Some token \<Rightarrow> (ProcessEnds, g) | None \<Rightarrow> (Answered (opened unhandled), g))"
  using assms by (simp add: respond_def refused_def pathOf_def route_def split: option.split)

subsection \<open>Nothing is watched without consent\<close>

lemma passes [simp]:
  "then_check c d g = (None, g') \<longleftrightarrow> (\<exists>g1. c g = (None, g1) \<and> d g1 = (None, g'))"
  "refuse_if bad refusal g = (None, g') \<longleftrightarrow> \<not> bad g \<and> g' = g"
  "refuse_unless ask_it answer g = (None, g') \<longleftrightarrow> ask_it g = (True, g')"
  "only_if wanted c g = (None, g') \<longleftrightarrow> (if wanted then c g = (None, g') else g' = g)"
  by (auto simp: then_check_def refuse_if_def refuse_unless_def only_if_def split: prod.splits option.splits bool.splits)

definition check_refuses :: "check \<Rightarrow> bool" where
  "check_refuses c \<longleftrightarrow> (\<forall>g refusal g'. c g = (Some refusal, g') \<longrightarrow> reply_status refusal \<noteq> 201)"

lemma check_refuses_then: "check_refuses c \<Longrightarrow> check_refuses d \<Longrightarrow> check_refuses (then_check c d)"
  by (auto simp: check_refuses_def then_check_def split: prod.splits option.splits)

lemma check_refuses_if: "(\<And>g. reply_status (refusal g) \<noteq> 201) \<Longrightarrow> check_refuses (refuse_if bad refusal)"
  by (auto simp: check_refuses_def refuse_if_def split: if_splits)

lemma check_refuses_unless: "reply_status answer \<noteq> 201 \<Longrightarrow> check_refuses (refuse_unless ask_it answer)"
  by (auto simp: check_refuses_def refuse_unless_def split: prod.splits bool.splits)

lemma check_refuses_only: "check_refuses c \<Longrightarrow> check_refuses (only_if wanted c)"
  by (auto simp: check_refuses_def only_if_def)

lemmas check_refuses_intros = check_refuses_then check_refuses_if check_refuses_unless check_refuses_only

lemma refusal_status [simp]:
  "reply_status (problem st kind members) = st" "reply_status (invalidRequest detail) = 400"
  "reply_status (tooManyToKeep most) = 400" "reply_status (conflict kind title) = 409"
  "reply_status (too_many who g) = 429" "reply_status (askedEnough w url) = 503"
  "reply_status (refusedVerifyHost w url) = 403" "reply_status (unconfirmedVerify url) = 424"
  "reply_status (unconsentedVerify url) = 424" "reply_status (unconfirmedWebhook url) = 424"
  "reply_status (payment_reply q st) = st" "reply_status (json_reply body st) = st"
  by (simp_all add: problem_def invalidRequest_def tooManyToKeep_def conflict_def too_many_def tooMany_def askedEnough_def
      refusedVerifyHost_def unconfirmedVerify_def unconsentedVerify_def unconfirmedWebhook_def payment_reply_def json_reply_def)

lemma refuses_at_capacity: "check_refuses (at_capacity who)"
  unfolding at_capacity_def by (rule check_refuses_if) simp

lemma refuses_webhook_checks: "check_refuses (webhook_checks w t sv k hook)"
  by (cases hook) (auto simp: webhook_checks_def intro!: check_refuses_intros, simp add: check_refuses_def)

lemma refuses_watch_checks: "check_refuses (watch_checks w t sv asked who)"
  unfolding watch_checks_def verify_checks_def Let_def
  by (intro check_refuses_intros refuses_at_capacity refuses_webhook_checks) simp_all

lemma answered_201:
  assumes "check_refuses c" "answer_after c f g = (answer, g')" "reply_status answer = 201"
  obtains g1 where "c g = (None, g1)" "f g1 = (answer, g')"
proof -
  obtain refusal g1 where c: "c g = (refusal, g1)" by fastforce
  show ?thesis
  proof (cases refusal)
    case None
    then show ?thesis using that c assms(2) by (auto simp: answer_after_def)
  next
    case (Some no)
    then have "answer = no" using c assms(2) by (simp add: answer_after_def)
    moreover have "reply_status no \<noteq> 201" using assms(1) c unfolding Some check_refuses_def by blast
    ultimately show ?thesis using assms(3) by simp
  qed
qed

lemma outside_passed: "outside t k f g = (True, g') \<Longrightarrow> \<exists>trace. fst (f trace)"
  by (rule exI [of _ "g_trace g"]) (simp add: outside_def split: prod.splits)

definition host_consented :: "world \<Rightarrow> serving \<Rightarrow> string \<Rightarrow> bool" where
  "host_consented w sv url \<longleftrightarrow>
     (case verifyHosts sv of None \<Rightarrow> True | Some ours \<Rightarrow> hostAsked w url \<in> set ours) \<and>
     (\<exists>trace. fst (speaksVerify (w_net w) url trace)) \<and>
     (verifyChallenge sv \<longrightarrow>
        (\<exists>nonce now stamp trace. fst (confirmVerify (w_net w) (w_plat w) (webhookKey sv) url nonce now stamp trace)))"

definition hook_consented :: "world \<Rightarrow> serving \<Rightarrow> webhook \<Rightarrow> bool" where
  "hook_consented w sv hook \<longleftrightarrow>
     (\<exists>nonce now stamp trace. fst (confirmWebhook (w_net w) (w_plat w) (webhookKey sv) hook nonce now stamp trace))"

lemma webhook_checks_passed: "webhook_checks w t sv k (Some hook) g = (None, g') \<Longrightarrow> hook_consented w sv hook"
  unfolding hook_consented_def by (auto simp: webhook_checks_def confirms_webhook_def dest!: outside_passed)

lemma verify_checks_passed: "verify_checks w t sv url g = (None, g') \<Longrightarrow> host_consented w sv url"
  unfolding host_consented_def
  by (auto simp: verify_checks_def Let_def dest!: outside_passed split: if_splits option.splits)

text \<open>
  C4: nothing is watched without consent. Whenever a request to watch a payment is answered 201,
  whatever the rest of the instance did meanwhile: the request reads as a watch; it expires after the
  time it was read and within thirty days; it keeps no more settlements than the gateway allows; its
  verify URL names the caller's own agent, or a host this instance may poll that answers as a verify
  endpoint and, where challenges are on, echoed one; its webhook echoed a challenge; and at the moment
  of insertion the caller had room, and the reply is the payment inserted.
\<close>

theorem watched_with_consent:
  assumes "watchOnly w t sv r who g = (answer, g')" "reply_status answer = 201"
  shows "\<exists>asked g1 p s. read_body (readWatchRequest (parse_url (w_net w)) (w_dates w)) r = Body asked \<and>
    seconds t 1 < watch_expiresAt asked \<and> watch_expiresAt asked \<le> seconds t 1 + 2592000 \<and>
    watch_replay asked \<le> maxReplay sv \<and>
    (case agentAddressed (watch_verifyUrl asked) of Some agent \<Rightarrow> who = Some agent
     | None \<Rightarrow> host_consented w sv (watch_verifyUrl asked)) \<and>
    (case watch_webhook asked of Some hook \<Rightarrow> hook_consented w sv hook | None \<Rightarrow> True) \<and>
    \<not> full (g_store g1) who \<and>
    insert_payment (seconds t 7) (g_store g1) (watched_payment asked who (seconds t 1)) = (p, s) \<and>
    answer = payment_reply p 201 \<and> g' = with_store s g1"
proof (cases "read_body (readWatchRequest (parse_url (w_net w)) (w_dates w)) r")
  case (NotReadable refusal)
  then have "reply_status refusal = 400"
    by (auto simp: read_body_def split: option.splits sum.splits)
  then show ?thesis using assms NotReadable by (simp add: watchOnly_def)
next
  case (Body asked)
  from assms obtain g1 where passed: "watch_checks w t sv asked who (elsewhere t 1 g) = (None, g1)"
    and did: "(case insert_payment (seconds t 7) (g_store g1) (watched_payment asked who (seconds t 1)) of
       (p, s) \<Rightarrow> (payment_reply p 201, with_store s g1)) = (answer, g')"
    unfolding watchOnly_def Let_def Body body_read.case by (rule answered_201 [OF refuses_watch_checks])
  from passed have now: "seconds t 1 < watch_expiresAt asked" "watch_expiresAt asked \<le> seconds t 1 + 2592000"
      "watch_replay asked \<le> maxReplay sv"
    unfolding watch_checks_def Let_def passes WATCH_HORIZON_SECS_def by auto
  from passed have room: "\<not> full (g_store g1) who"
    unfolding watch_checks_def Let_def passes at_capacity_def by auto
  from passed have agent: "case agentAddressed (watch_verifyUrl asked) of Some agent \<Rightarrow> who = Some agent
     | None \<Rightarrow> host_consented w sv (watch_verifyUrl asked)"
    unfolding watch_checks_def Let_def passes by (auto split: option.splits if_splits dest: verify_checks_passed)
  from passed have hook: "case watch_webhook asked of Some hook \<Rightarrow> hook_consented w sv hook | None \<Rightarrow> True"
    unfolding watch_checks_def Let_def passes by (auto split: option.splits dest: webhook_checks_passed)
  show ?thesis using Body now room agent hook did by (auto split: prod.splits)
qed

subsection \<open>What is created is what was asked\<close>

text \<open>What the keys of requests do to the store leaves every payment as it is.\<close>

lemma get_same_rows:
  assumes "accepted_rows (st_ledger s') = accepted_rows (st_ledger s)" "paid_rows (st_ledger s') = paid_rows (st_ledger s)"
  shows "get now s' i = get now s i"
  unfolding get_def readPayment_def settlement_def by (simp only: assms)

lemma get_released [simp]: "get now (g_store (released key g)) i = get now (g_store g) i"
  by (rule get_same_rows) (cases key; simp add: released_def release_def releaseKey_def with_store_def)+

lemma get_fulfilled [simp]: "get now (g_store (fulfilled key j g)) i = get now (g_store g) i"
  by (rule get_same_rows) (cases key; simp add: fulfilled_def fulfill_def fulfillKey_def with_store_def)+

lemma store_with_store [simp]: "g_store (with_store s g) = s"
  by (simp add: with_store_def)

lemma resolve_wins_asked:
  assumes "resolve net addresses amount trace = (Inr won, trace')"
  shows "resolved_address won \<in> set addresses \<and> (\<exists>metadata. proven_by (parse_url net) amount won metadata)"
proof -
  obtain refusals where "firstThatServes net (resolveAddress net amount) addresses [] trace = (Inr (won, refusals), trace')"
    using assms by (auto simp: resolve_def split: sum.splits prod.splits)
  then obtain address u where "address \<in> set addresses" "resolveAddress net amount address u = (Inr won, trace')"
    using firstThatServes_won by (metis in_set_conv_decomp)
  with resolveAddress_sound show ?thesis by metis
qed

lemma mint_payment_SomeD:
  assumes "mint_payment w t k asked who g = (Inr (Some p), g')"
  obtains won g1 s metadata where "resolved_address won \<in> set (create_addresses asked)"
    "proven_by (parse_url (w_net w)) (create_amountMsat asked) won metadata" "\<not> full (g_store g1) who"
    "insert_payment (seconds t k) (g_store g1) (minted_payment asked won who (seconds t k)) = (p, s)" "g' = with_store s g1"
proof -
  obtain won g1 where o: "outside t k (resolve (w_net w) (create_addresses asked) (create_amountMsat asked)) g = (Inr won, g1)"
    and room: "\<not> full (g_store g1) who"
    and did: "(case insert_payment (seconds t k) (g_store g1) (minted_payment asked won who (seconds t k)) of
                  (p, s) \<Rightarrow> (Inr (Some p), with_store s g1)) = (Inr (Some p), g' :: gateway)"
    using assms by (auto simp: mint_payment_def split: prod.splits sum.splits if_splits)
  obtain trace' where "resolve (w_net w) (create_addresses asked) (create_amountMsat asked) (g_trace g) = (Inr won, trace')"
    using o by (auto simp: outside_def split: prod.splits)
  with resolve_wins_asked obtain metadata where "resolved_address won \<in> set (create_addresses asked)"
    "proven_by (parse_url (w_net w)) (create_amountMsat asked) won metadata" by metis
  with that room did show ?thesis by (auto split: prod.splits)
qed

lemma statusForWallets_refuses: "statusForWallets wallets \<noteq> 201"
  by (simp add: statusForWallets_def)

lemma create_attempt_201:
  assumes "create_attempt w t sv asked who key g = (answer, g')" "reply_status answer = 201"
  obtains won g1 s metadata p where "case create_webhook asked of Some hook \<Rightarrow> hook_consented w sv hook | None \<Rightarrow> True"
    "resolved_address won \<in> set (create_addresses asked)"
    "proven_by (parse_url (w_net w)) (create_amountMsat asked) won metadata" "\<not> full (g_store g1) who"
    "insert_payment (seconds t 4) (g_store g1) (minted_payment asked won who (seconds t 4)) = (p, s)"
    "answer = payment_reply p 201" "g' = fulfilled key (pay_id p) (with_store s g1)"
proof -
  obtain g0 where checked: "then_check (at_capacity who) (webhook_checks w t sv 2 (create_webhook asked)) g = (None, g0)"
    and did: "(case mint_payment w t 4 asked who g0 of
          (Inl (NoWalletAvailable wallets), g') \<Rightarrow> (no_wallet ''No wallet could issue a provable invoice'' wallets, g')
        | (Inl ResolveCrashed, g') \<Rightarrow> (unhandled, g')
        | (Inr None, g') \<Rightarrow> (too_many who g', g')
        | (Inr (Some p), g') \<Rightarrow> (payment_reply p 201, fulfilled key (pay_id p) g')) = (answer, g')"
    using assms unfolding create_attempt_def
    by (rule answered_201 [OF check_refuses_then [OF refuses_at_capacity refuses_webhook_checks]])
  have hook: "case create_webhook asked of Some hook \<Rightarrow> hook_consented w sv hook | None \<Rightarrow> True"
    using checked by (auto simp: passes split: option.splits dest: webhook_checks_passed)
  obtain p g2 where minted: "mint_payment w t 4 asked who g0 = (Inr (Some p), g2)"
    and answer: "answer = payment_reply p 201" "g' = fulfilled key (pay_id p) g2"
    using did assms(2) statusForWallets_refuses
    by (auto simp: no_wallet_def unhandled_def split: prod.splits sum.splits resolve_error.splits option.splits)
  from minted show ?thesis
    by (rule mint_payment_SomeD) (use that hook answer in blast)
qed


subsection \<open>One key, one payment\<close>

lemma find_update_where:
  "(\<And>r. Q (f r) = Q r) \<Longrightarrow> find Q (update_where P f rows) = map_option (\<lambda>r. if P r then f r else r) (find Q rows)"
  by (induction rows) (auto simp: update_where_def)

lemma find_snoc: "find P (xs @ [x]) = (case find P xs of None \<Rightarrow> if P x then Some x else None | Some y \<Rightarrow> Some y)"
  by (induction xs) auto

definition claim_held :: "ledger \<Rightarrow> string \<Rightarrow> string \<Rightarrow> int \<Rightarrow> bool" where
  "claim_held l key print until \<longleftrightarrow>
     (\<exists>row. find (\<lambda>r. req_key r = key) (requests l) = Some row \<and> req_fingerprint row = print \<and>
        req_paymentId row \<in> {None, Some []} \<and> req_leaseUntil row = until)"

lemma claim_takes:
  assumes "claimKey now l key print lease = (Mine, l')"
  shows "claim_held l' key print (now + lease)"
proof (cases "find (\<lambda>r. req_key r = key) (requests l)")
  case None
  then have "key \<notin> req_key ` set (requests l)" by (auto simp: find_None_iff)
  then show ?thesis using assms None by (auto simp: claimKey_def take_claim_def claim_held_def find_snoc)
next
  case (Some held)
  then have "key \<in> req_key ` set (requests l)" by (auto simp: find_Some_iff)
  then show ?thesis
    using assms Some
    by (auto simp: claimKey_def take_claim_def claim_held_def find_update_where split: if_splits option.splits list.splits)
      (auto simp: find_Some_iff)
qed

lemma claim_held_refuses:
  assumes "claim_held l key print until" "now' < until"
  shows "claimKey now' l key print' lease' = (if print' = print then Inflight else Mismatch, l)"
  using assms by (auto simp: claim_held_def claimKey_def split: option.split list.split)

lemma claim_held_fulfilled:
  assumes "claim_held l key print until" "i \<noteq> []"
  shows "claimKey now' (fulfillKey l key i) key print' lease' =
    (if print' = print then Done i else Mismatch, fulfillKey l key i)"
proof -
  obtain row where row: "find (\<lambda>r. req_key r = key) (requests l) = Some row" "req_fingerprint row = print"
    using assms(1) by (auto simp: claim_held_def)
  then have "find (\<lambda>r. req_key r = key) (requests (fulfillKey l key i)) = Some (row\<lparr>req_paymentId := Some i\<rparr>)"
    by (auto simp: fulfillKey_def find_update_where find_Some_iff)
  then show ?thesis using row(2) assms(2) by (cases i) (simp_all add: claimKey_def)
qed

text \<open>
  C11: one key mints one payment. Once a create request holds its idempotency key, every other
  request with that key is refused for as long as the lease runs, as still running or as a different
  request; and once the payment is recorded under the key, the same request is answered that payment
  and any other one is refused, for as long as the row is kept.
\<close>

theorem key_mints_once:
  assumes "claimKey now l key print lease = (Mine, l')"
  shows "(\<forall>now' print' lease'. now' < now + lease \<longrightarrow>
      claimKey now' l' key print' lease' = (if print' = print then Inflight else Mismatch, l')) \<and>
    (\<forall>i now' print' lease'. i \<noteq> [] \<longrightarrow>
      claimKey now' (fulfillKey l' key i) key print' lease' =
        (if print' = print then Done i else Mismatch, fulfillKey l' key i))"
  using claim_takes [OF assms] claim_held_refuses claim_held_fulfilled by blast

lemma key_mints_once_witness:
  "\<exists>l'. claimKey 5 (new_ledger ''o'') ''k'' ''f'' 40 = (Mine, l') \<and> claimKey 44 l' ''k'' ''f'' 40 = (Inflight, l') \<and>
     fst (claimKey 99 (fulfillKey l' ''k'' ''p'') ''k'' ''f'' 40) = Done ''p''"
proof -
  have mine: "claimKey 5 (new_ledger ''o'') ''k'' ''f'' 40 = (Mine, take_claim 5 (new_ledger ''o'') ''k'' ''f'' 40)"
    by (simp add: claimKey_def new_ledger_def)
  from key_mints_once [OF mine] show ?thesis using mine by auto
qed

text \<open>
  An anonymous caller can hold a signed caller's key. The key a signed caller's header stands for is
  its public key, a dot and the header; an anonymous caller's is the header as it came, so a caller who
  signs nothing and sends that text holds the same key: while its request runs the signed caller's is
  refused.
\<close>

theorem anonymous_takes_the_key:
  assumes "claimed t k (Some (keyOf None (who @ ''.'' @ offered))) asked g = (Some Mine, g')"
    and "seconds t k' < seconds t k + CLAIM_LEASE_SECS"
  shows "claimed t k' (Some (keyOf (Some who) offered)) asked' g' =
    (Some (if fingerprint asked' = fingerprint asked then Inflight else Mismatch), g')"
proof -
  let ?key = "who @ ''.'' @ offered"
  obtain claim l' where c: "claimKey (seconds t k) (st_ledger (g_store g)) ?key (fingerprint asked) CLAIM_LEASE_SECS = (claim, l')"
    by fastforce
  then have "claim = Mine" "g' = with_store (with_ledger l' (g_store g)) g"
    using assms(1) by (simp_all add: claimed_def claim_store_def on_ledger_def keyOf_def)
  then show ?thesis
    using claim_held_refuses [OF claim_takes assms(2), of "st_ledger (g_store g)" ?key "fingerprint asked" l'] c
    by (simp add: claimed_def claim_store_def on_ledger_def keyOf_def with_store_def with_ledger_def)
qed

subsection \<open>A nonce is good once\<close>

datatype spent_event =
    Uses int string int
  | HearsSpent string int
  | Forgets int

fun spent_happens :: "spent_event \<Rightarrow> gateway \<Rightarrow> gateway" where
  "spent_happens (Uses now once ttl) g = snd (firstUse now once ttl g)"
| "spent_happens (HearsSpent once until) g = hear_spent once until g"
| "spent_happens (Forgets now) g = forget_spent now g"

fun forgets_before :: "int \<Rightarrow> spent_event \<Rightarrow> bool" where
  "forgets_before until (Forgets now) \<longleftrightarrow> now < until"
| "forgets_before until _ \<longleftrightarrow> True"

definition spent_until :: "gateway \<Rightarrow> string \<Rightarrow> int \<Rightarrow> bool" where
  "spent_until g once until \<longleftrightarrow> (\<exists>t. map_of (g_spent g) once = Some t \<and> until \<le> t)"

lemma map_of_filter_kept: "map_of xs k = Some v \<Longrightarrow> P (k, v) \<Longrightarrow> map_of (filter P xs) k = Some v"
  by (induction xs) auto

definition spends :: "gateway \<Rightarrow> string \<Rightarrow> spent_event \<Rightarrow> bool" where
  "spends g once e \<longleftrightarrow> (\<exists>now ttl. e = Uses now once ttl \<and> fst (firstUse now once ttl g))"

interpretation spent: remembering spent_happens spent_until "\<lambda>once until g. forgets_before until" spends
proof
  fix g once until e
  assume spent: "spent_until g once until" and spared: "forgets_before until e"
  obtain t where t: "map_of (g_spent g) once = Some t" "until \<le> t" using spent by (auto simp: spent_until_def)
  show "spent_until (spent_happens e g) once until"
  proof (cases e)
    case (Forgets now)
    then have "map_of (g_spent (spent_happens e g)) once = Some t"
      using t spared by (simp add: forget_spent_def map_of_filter_kept)
    then show ?thesis using t(2) by (auto simp: spent_until_def)
  qed (use t in \<open>auto simp: spent_until_def firstUse_def hear_spent_def update_conv' map_add_Some_iff\<close>)
  show "\<not> spends g once e" using t(1) by (auto simp: spends_def firstUse_def)
qed

lemma forgets_before_all: "list_all (forgets_before until) es \<Longrightarrow> all_spare spent_happens (\<lambda>g. forgets_before until) g es"
  by (rule all_spareI) (simp add: list_all_iff)

lemma used_is_spent: "firstUse now once ttl g = (True, g1) \<Longrightarrow> spent_until g1 once (now + ttl)"
  by (auto simp: firstUse_def spent_until_def map_add_Some_iff split: if_splits)

text \<open>
  A nonce is good once while it is remembered. Whatever else is spent, here or at the peers, and
  whatever is forgotten before its time, the second request with a nonce and every later one is
  refused; the same holds of tickets.
\<close>

theorem spent_once:
  assumes "firstUse now once ttl g = (True, g1)" "list_all (forgets_before (now + ttl)) es"
  shows "fst (firstUse now' once ttl' (fold spent_happens es g1)) = False"
proof -
  have "all_spare spent_happens (\<lambda>g. forgets_before (now + ttl)) g1 (es @ [Uses now' once ttl'])"
    by (rule forgets_before_all) (use assms(2) in simp)
  from spent.taken_once [OF used_is_spent [OF assms(1)] this] show ?thesis by (simp add: spends_def)
qed

text \<open>
  In its last second a signed request is good again. A request signed five minutes ahead is
  accepted when it arrives and spends its nonce for ten minutes; exactly ten minutes later the nonce
  is forgotten while the signature is still within its tolerance, so the same request is accepted a
  second time.
\<close>

theorem replayed_in_the_last_second:
  assumes "stamp_ok now TOLERANCE_SECS ps = Some (k, now + TOLERANCE_SECS, Some drawn)"
    and "firstUse now (nonce_once k drawn) (2 * TOLERANCE_SECS) g = (True, g1)"
  shows "stamp_ok (now + 2 * TOLERANCE_SECS) TOLERANCE_SECS ps = Some (k, now + TOLERANCE_SECS, Some drawn) \<and>
    fst (firstUse (now + 2 * TOLERANCE_SECS) (nonce_once k drawn) (2 * TOLERANCE_SECS)
           (forget_spent (now + 2 * TOLERANCE_SECS) g1)) = True"
proof
  show "stamp_ok (now + 2 * TOLERANCE_SECS) TOLERANCE_SECS ps = Some (k, now + TOLERANCE_SECS, Some drawn)"
    using assms(1) by (auto simp: stamp_ok_def TOLERANCE_SECS_def split: option.splits bare.splits if_splits)
  let ?once = "nonce_once k drawn" and ?until = "now + 2 * TOLERANCE_SECS"
  have new: "?once \<notin> fst ` set (g_spent g)" and g1: "g_spent g1 = g_spent g @ [(?once, ?until)]"
    using assms(2) by (auto simp: firstUse_def map_of_eq_None_iff split: if_splits)
  have "?once \<notin> fst ` set (g_spent (forget_spent ?until g1))"
    using new by (auto simp: forget_spent_def g1 image_iff)
  then show "fst (firstUse ?until ?once (2 * TOLERANCE_SECS) (forget_spent ?until g1)) = True"
    by (simp add: firstUse_def map_of_eq_None_iff)
qed

subsection \<open>A gateway at work\<close>

text \<open>The instance, the world and the requests the theorems are applied to.\<close>

definition page_url :: "string \<Rightarrow> url" where
  "page_url path =
     \<lparr>url_href = path, url_protocol = ''https:'', url_host = ''gateway.example'', url_hostname = ''gateway.example'',
      url_port = [], url_pathname = path, url_search = [], url_hash = [], url_origin = ''https://gateway.example''\<rparr>"

definition quiet_world :: world where
  "quiet_world =
     \<lparr>w_net = \<lparr>parse_url = (\<lambda>s. Some (page_url s)), resolve_url = (\<lambda>target base. if target = ''//'' then None else Some (page_url target)),
        is_ip = (\<lambda>_. 0), dns = (\<lambda>_ _. None), send = (\<lambda>_ _. None), decode_text = (\<lambda>_. []), out_of_time = (\<lambda>_. False)\<rparr>,
      w_plat = sample_platform, w_dates = (\<lambda>_. Some 2000000)\<rparr>"

definition still :: moment where
  "still = \<lparr>clock = (\<lambda>_. 1000000), elsewhere = (\<lambda>_ g. g), drawn_nonce = (\<lambda>_. []), drawn_stamp = (\<lambda>_. []), drawn_bytes = [1]\<rparr>"

definition plain_gateway :: gateway where
  "plain_gateway =
     \<lparr>g_store = new_store (new_ledger ''o'') [7], g_spent = [], g_budget = calm_budget, g_agents = no_agents, g_trace = [],
      followers = [], frames = [], closed = []\<rparr>"

definition plain_serving :: serving where
  "plain_serving =
     \<lparr>sv_token = Some ''secret'', sv_key = [7], keepSealedSecs = 100, clientKeys = None, publicHosts = None, sv_mints = False,
      webhookKey = sample_key, verifyHosts = None, verifyChallenge = True, maxReplay = 100\<rparr>"

definition asking :: "string \<Rightarrow> string \<Rightarrow> string \<Rightarrow> incoming" where
  "asking method target body =
     \<lparr>in_method = method, in_url = target, in_headers = [], in_query = (\<lambda>_. None), in_declared = 0, in_bytes = 0, in_body = body\<rparr>"

definition agent_key :: string where "agent_key = hex_times ''ab'' 32"

definition agent_watch :: watchRequest where
  "agent_watch =
     \<lparr>watch_paymentHash = hex_times ''0c'' 32, watch_verifyUrl = ''agent:'' @ agent_key, watch_expiresAt = 2000,
      watch_trigger = None, watch_replay = 0, watch_sealed = None, watch_webhook = None\<rparr>"

theorem target_that_ends_the_process_witness:
  "fst (respond quiet_world still plain_serving Serving (\<lambda>_ _. notFound) (asking ''GET'' ''//'' []) plain_gateway) = ProcessEnds"
  using target_that_ends_the_process [of "asking ''GET'' ''//'' []" quiet_world still plain_serving]
  by (simp add: asking_def quiet_world_def plain_serving_def)

theorem token_gates_everything_witness:
  "(\<exists>bearer. sha256 (utf8 bearer) = sha256 (utf8 ''secret'') \<and> bearer = []) \<or>
   respond quiet_world still plain_serving Serving (\<lambda>_ _. notFound) (asking ''GET'' ''/quotes'' []) plain_gateway
     = (Answered (opened unauthorized), plain_gateway)"
proof -
  have "sv_token plain_serving = Some ''secret''" "pathOf quiet_world (asking ''GET'' ''/quotes'' []) = Some ''/quotes''"
    "''/quotes'' \<notin> set UNGATED" "in_method (asking ''GET'' ''/quotes'' []) \<noteq> ''OPTIONS''"
    by (simp_all add: plain_serving_def pathOf_def quiet_world_def asking_def page_url_def UNGATED_def)
  from token_gates_everything [OF this] show ?thesis by (auto simp: header_of_def asking_def)
qed

theorem respond_refines_ledger_witness:
  "ledger_work\<^sup>*\<^sup>* (g_ledger plain_gateway)
     (g_ledger (snd (respond quiet_world still plain_serving Serving (\<lambda>_ _. notFound) (asking ''GET'' ''/quotes'' []) plain_gateway)))"
proof -
  have "works_elsewhere still" by (simp add: works_elsewhere_def still_def)
  from respond_refines_ledger [OF this surjective_pairing] show ?thesis by blast
qed

text \<open>A wallet that issues an invoice, and a request for one of a thousand millisatoshi.\<close>

definition paying_world :: world where
  "paying_world = quiet_world\<lparr>w_net := sample_net [sample_pay, sample_issue]\<rparr>"

definition create_body :: json where
  "create_body = JObj [(''ln_addresses'', JArr [JStr ''me@pay.example.com'']), (''incoming_amount'', amount_of_msat 1000)]"

definition asked_here :: createRequest where
  "asked_here = \<lparr>create_addresses = [''me@pay.example.com''], create_amountMsat = 1000, create_webhook = None,
     create_trigger = None, create_replay = 0\<rparr>"

lemma asked_here_read: "read_body (readCreateRequest parse) (asking ''POST'' ''/incoming-payments'' (stringify create_body)) = Body asked_here"
proof -
  have plain: "json_plain create_body" by (simp add: create_body_def amount_of_msat_def toAmount_def)
  have amount: "readAmount (Some (amount_of_msat 1000)) ''incoming_amount'' = Inr 1000"
    by (simp add: show_int_def number_of_show_nat is_decimal_show_nat readAmount_def amount_of_msat_def toAmount_def MAX_SAFE_INTEGER_def)
  have addresses: "readAddresses (Some (JArr [JStr ''me@pay.example.com''])) = Inr [''me@pay.example.com'']"
    by (simp add: readAddresses_def MAX_ADDRESSES_def MAX_ADDRESS_CHARS_def domainAskedTooOften_def MAX_PER_DOMAIN_def split: option.split)
  have "readCreateRequest parse create_body = Inr asked_here"
    by (simp add: readCreateRequest_def create_body_def asked_here_def amount addresses readWebhook_def readTrigger_def readReplay_def)
  then show ?thesis by (simp add: read_body_def asking_def parse_stringify [OF plain])
qed


lemma agent_watch_read:
  "read_body (readWatchRequest (parse_url (w_net quiet_world)) (w_dates quiet_world)) (asking ''POST'' ''/watched-payments''
     (stringify (watch_body ''later'' agent_watch))) = Body agent_watch"
proof -
  have "agentAddressed (''agent:'' @ agent_key) = Some agent_key" "is_hash32 (hex_times ''0c'' 32)" by code_simp+
  then have ok: "watch_ok (\<lambda>s. Some (page_url s)) agent_watch"
    by (simp add: watch_ok_def agent_watch_def watchable_def webhook_ok_def)
  have plain: "json_plain (watch_body ''later'' agent_watch)"
    by (simp add: watch_body_def webhook_json_def agent_watch_def nullable_def)
  show ?thesis
    using readWatchRequest_body [OF ok, of "\<lambda>_. Some 2000000" "''later''" 2000000]
    by (simp add: read_body_def asking_def parse_stringify [OF plain] quiet_world_def) (simp add: agent_watch_def)
qed

theorem watched_with_consent_witness:
  "\<exists>g'. watchOnly quiet_world still plain_serving
       (asking ''POST'' ''/watched-payments'' (stringify (watch_body ''later'' agent_watch))) (Some agent_key) plain_gateway = g' \<and>
     reply_status (fst g') = 201 \<and> (1000 :: int) < watch_expiresAt agent_watch"
proof -
  let ?r = "asking ''POST'' ''/watched-payments'' (stringify (watch_body ''later'' agent_watch))"
  have agent: "agentAddressed (watch_verifyUrl agent_watch) = Some agent_key" by code_simp
  have rest: "elsewhere still k g = g" "seconds still k = 1000" for k g
    by (simp_all add: still_def seconds_def secs_of_def)
  have empty: "\<not> full (g_store plain_gateway) who" "get now (g_store plain_gateway) i = None" for who now i
    by (simp_all add: plain_gateway_def full_def countFor_def new_store_def new_ledger_def get_def settlement_def
        readPayment_def groupById_def inSeqOrder_def)
  have passed: "watch_checks quiet_world still plain_serving agent_watch (Some agent_key) plain_gateway = (None, plain_gateway)"
    by (simp add: watch_checks_def Let_def agent rest at_capacity_def empty known_elsewhere_def webhook_checks_def)
      (simp add: agent_watch_def plain_serving_def WATCH_HORIZON_SECS_def)
  obtain q s where ins: "insert_payment 1000 (g_store plain_gateway) (watched_payment agent_watch (Some agent_key) 1000) = (q, s)"
    by fastforce
  have run: "watchOnly quiet_world still plain_serving ?r (Some agent_key) plain_gateway = (payment_reply q 201, with_store s plain_gateway)"
    by (simp add: watchOnly_def agent_watch_read rest answer_after_def passed ins)
  have "reply_status (payment_reply q 201) = 201" by simp
  from watched_with_consent [OF run this]
  have "(1000 :: int) < watch_expiresAt agent_watch" by (auto simp: agent_watch_read rest)
  then show ?thesis by (simp add: run)
qed

theorem spent_once_witness:
  "fst (firstUse 700 ''n'' 600 (fold spent_happens [Forgets 600] (snd (firstUse 100 ''n'' 600 plain_gateway)))) = False"
proof -
  obtain g1 where "firstUse 100 ''n'' 600 plain_gateway = (True, g1)" by (simp add: firstUse_def plain_gateway_def)
  from spent_once [OF this, of "[Forgets 600]" 700 600] this show ?thesis by simp
qed

theorem replayed_in_the_last_second_witness:
  "fst (firstUse 1600 (nonce_once agent_key ''n'') 600 (forget_spent 1600 (snd (firstUse 1000 (nonce_once agent_key ''n'') 600 plain_gateway)))) = True"
proof -
  have key: "is_public_key agent_key" by code_simp
  have stamp: "stamp_ok 1000 TOLERANCE_SECS [(''keyid'', BareString agent_key), (''created'', BareInt (1000 + TOLERANCE_SECS)), (''nonce'', BareString ''n'')]
      = Some (agent_key, 1000 + TOLERANCE_SECS, Some ''n'')"
    by (simp add: stamp_ok_def key TOLERANCE_SECS_def)
  obtain g1 where use: "firstUse 1000 (nonce_once agent_key ''n'') (2 * TOLERANCE_SECS) plain_gateway = (True, g1)"
    by (simp add: firstUse_def plain_gateway_def)
  from replayed_in_the_last_second [OF stamp use] use show ?thesis by (simp add: TOLERANCE_SECS_def)
qed

definition one_create :: createRequest where
  "one_create =
     \<lparr>create_addresses = [''a@b.example''], create_amountMsat = 1000, create_webhook = None, create_trigger = None, create_replay = 0\<rparr>"

theorem anonymous_takes_the_key_witness:
  "fst (claimed still 1 (Some (keyOf (Some ''k'') ''order'')) one_create
     (snd (claimed still 1 (Some (keyOf None ''k.order'')) one_create plain_gateway))) = Some Inflight"
proof -
  obtain g1 where mine: "claimed still 1 (Some (keyOf None (''k'' @ ''.'' @ ''order''))) one_create plain_gateway = (Some Mine, g1)"
    by (simp add: claimed_def claim_store_def on_ledger_def plain_gateway_def new_store_def new_ledger_def claimKey_def)
  have "seconds still 1 < seconds still 1 + CLAIM_LEASE_SECS" by (simp add: CLAIM_LEASE_SECS_def RESOLVE_TIMEOUT_MS_def)
  from anonymous_takes_the_key [OF mine this, of one_create] mine show ?thesis by simp
qed

text \<open>A gateway that watches one payment of an agent.\<close>

definition held_payment :: payment where
  "held_payment = (watched_payment agent_watch (Some agent_key) 1000)\<lparr>pay_id := ''p''\<rparr>"

definition held_row :: accepted where
  "held_row =
     \<lparr>fact_origin = ''o'', fact_seq = 1, fact_id = ''p'', fact_mac = [], accepted_payment = payment_text held_payment,
      accepted_at = 1000, accepted_expiresAt = 2000\<rparr>"

definition holding_gateway :: gateway where
  "holding_gateway = plain_gateway\<lparr>g_store := new_store ((new_ledger ''o'')\<lparr>accepted_rows := [held_row]\<rparr>) [7]\<rparr>"

lemma holding_gateway_holds: "get 1000 (g_store holding_gateway) ''p'' = Some held_payment"
  by (simp add: holding_gateway_def get_def new_store_def settlement_def new_ledger_def readPayment_def groupById_def
      inSeqOrder_def held_row_def revive_def oneFromEvery_def withStatus_def held_payment_def watched_payment_def agent_watch_def)

text \<open>
  The payment of the caller who signs: the signed request is handed it, and the same request without its signature is
  answered as by the gateway that holds nothing.
\<close>

definition signed_headers_here :: headers where
  "signed_headers_here = [(''content-digest'', ''nothing''), (''signature-input'', ''input''), (''signature'', ''signed'')]"

definition signed_asking :: "headers \<Rightarrow> incoming" where
  "signed_asking hs = (asking ''GET'' ''/incoming-payments/p'' [])\<lparr>in_headers := hs\<rparr>"

definition their_payment :: payment where
  "their_payment = held_payment\<lparr>caller := Some (publicKeyHex sample_key)\<rparr>"

definition their_gateway :: gateway where
  "their_gateway = plain_gateway\<lparr>g_store := new_store ((new_ledger ''o'')\<lparr>accepted_rows := [held_row\<lparr>accepted_payment := payment_text their_payment\<rparr>]\<rparr>) [7]\<rparr>"

lemma their_gateway_holds: "get 1000 (g_store their_gateway) ''p'' = Some their_payment"
  by (simp add: their_gateway_def get_def new_store_def settlement_def new_ledger_def readPayment_def groupById_def
      inSeqOrder_def held_row_def revive_def oneFromEvery_def withStatus_def their_payment_def held_payment_def watched_payment_def agent_watch_def)

lemma shown_to_its_own_caller_witness:
  "fst (respond quiet_world still (plain_serving\<lparr>sv_token := None\<rparr>) Serving (\<lambda>_ _. notFound) (signed_asking signed_headers_here) their_gateway)
     = Answered (opened (payment_reply their_payment 200)) \<and>
   fst (respond quiet_world still (plain_serving\<lparr>sv_token := None\<rparr>) Serving (\<lambda>_ _. notFound) (signed_asking []) their_gateway)
     = fst (respond quiet_world still (plain_serving\<lparr>sv_token := None\<rparr>) Serving (\<lambda>_ _. notFound) (signed_asking []) plain_gateway)"
proof -
  define sv where "sv = plain_serving\<lparr>sv_token := None\<rparr>"
  have open_to_all: "sv_token sv = None" "clientKeys sv = None" by (simp_all add: sv_def plain_serving_def)
  have theirs: "caller their_payment = Some (publicKeyHex sample_key)" by (simp add: their_payment_def)
  let ?path = "''/incoming-payments/'' @ ''p''"
  have path: "pathOf quiet_world (signed_asking hs) = Some ?path" "in_method (signed_asking hs) = ''GET''" for hs
    by (simp_all add: pathOf_def quiet_world_def signed_asking_def asking_def page_url_def)
  have named: "list_all word_or_dash ''p''" by code_simp
  have rest: "elsewhere still k g = g" "seconds still k = 1000" for k g
    by (simp_all add: still_def seconds_def secs_of_def)
  have passes: "refused quiet_world sv (signed_asking hs) = Some None" for hs
    by (simp add: refused_def open_to_all path(2))
  obtain target where req: "\<And>hs. asRequest quiet_world (signed_asking hs) = Inr target"
    by (simp add: asRequest_def signed_asking_def asking_def quiet_world_def)
  have plat: "w_plat quiet_world = sample_platform" by (simp add: quiet_world_def)
  have signer: "signerOf sample_platform 1000 (gateway_message ''GET'' target host signed_headers_here) [] CLIENT_SIGNS 300 =
      Inr (Some \<lparr>keyid = publicKeyHex sample_key, created = 1000, signer_nonce = Some sample_nonce\<rparr>)" for host
    by (rule sample_signer [OF _ _ _ _ sample_digests(2)]) (simp_all add: gateway_message_def signed_headers_here_def signed_headers)
  have nonce: "is_nonce sample_nonce" by code_simp
  obtain g1 where signed: "callerFor quiet_world still sv (signed_asking signed_headers_here) target their_gateway = (Inr (Some (publicKeyHex sample_key)), g1)"
    and kept: "g_store g1 = spent (g_store their_gateway) (nonce_once (publicKeyHex sample_key) sample_nonce) (1000 + 2 * TOLERANCE_SECS)"
    using signer nonce
    by (simp add: callerFor_def callerOf_def plat signed_asking_def asking_def rest TOLERANCE_SECS_def firstUse_def their_gateway_def plain_gateway_def)
  have unsigned: "callerFor quiet_world still sv (signed_asking []) target g = (Inr None, g)" for g
    by (simp add: callerFor_def callerOf_def signerOf_def chosen_def dictionaryOf_def header_get_def signed_asking_def asking_def gateway_message_def)
  have held: "get 1000 (g_store g1) ''p'' = Some their_payment"
  proof -
    have "st_ledger (g_store g1) = st_ledger (g_store their_gateway)" by (simp add: kept spent_def)
    then show ?thesis using their_gateway_holds by (simp only: get_def)
  qed
  have accepted: "accepted_caller who (clientKeys sv)" for who by (simp add: accepted_caller_def open_to_all)
  have asks: "who_asks quiet_world still sv (signed_asking signed_headers_here) their_gateway = Some (Inr (Some (publicKeyHex sample_key)))"
      "who_asks quiet_world still sv (signed_asking []) g = Some (Inr None)" for g
    by (simp_all add: who_asks_def req rest signed unsigned)
  let ?answer = "\<lambda>hs. respond quiet_world still sv Serving (\<lambda>_ _. notFound) (signed_asking hs)"
  have runs: "?answer signed_headers_here their_gateway = (Answered (opened (payment_reply their_payment 200)), g1)"
      "?answer [] their_gateway = (Answered (opened notFound), their_gateway)" "?answer [] plain_gateway = (Answered (opened notFound), plain_gateway)"
    using route_to_payment [OF path(1) _ named path(2), where t = still and sv = sv and v = Serving and page = "\<lambda>_ _. notFound"]
      held their_gateway_holds
    by (simp_all add: respond_def passes path(2) req rest signed unsigned accepted handedTo_def belongsTo_def theirs)
       (simp add: plain_gateway_def new_store_def new_ledger_def get_def settlement_def readPayment_def groupById_def inSeqOrder_def keptFor_def)
  have "fst (?answer signed_headers_here their_gateway) = Answered (opened (payment_reply their_payment 200))"
    using shown_to_its_own_caller [OF path(1) _ named path(2) runs(1) _ theirs] held by (simp add: rest passes asks accepted runs(1))
  moreover have "get 1000 (g_store plain_gateway) ''p'' = None" "keptFor (st_ledger (g_store plain_gateway)) ''p'' = None"
    by (simp_all add: plain_gateway_def new_store_def new_ledger_def get_def settlement_def readPayment_def groupById_def inSeqOrder_def keptFor_def)
  then have "fst (?answer [] plain_gateway) = fst (?answer [] their_gateway)"
    using shown_to_its_own_caller [OF path(1) _ named path(2) runs(2) _ theirs] their_gateway_holds runs
    by (simp add: rest asks)
  ultimately show ?thesis by (simp add: sv_def)
qed

end
