(* ===== verification/Sockets.thy ===== *)
theory Sockets
  imports Requests
begin

text \<open>
  \<^verbatim>\<open>src/index.ts\<close>, the sockets and the timers: followers of one payment or of a trigger, the frames
  they are sent, what an upgrade request is let into, the keepalive, the sweep and when the watch loop
  is armed. A socket is a number; \<open>closed\<close> collects the sockets the gateway closed or terminated,
  whose close event comes later as a step of its own. The lemmas show that a change is sent to those
  who follow it and to nobody else, that a ticket opens one socket, and when the loop runs next.
\<close>

definition PING_INTERVAL_MS :: int where "PING_INTERVAL_MS = 30000"
definition LONGEST_SLEEP_MS :: int where "LONGEST_SLEEP_MS = 60000"

subsection \<open>Followers\<close>

definition send_frame :: "socket \<Rightarrow> json \<Rightarrow> gateway \<Rightarrow> gateway" where
  "send_frame s frame g = g\<lparr>frames := frames g @ [(s, frame)]\<rparr>"

definition close_socket :: "socket \<Rightarrow> gateway \<Rightarrow> gateway" where
  "close_socket s g = g\<lparr>closed := closed g @ [s]\<rparr>"

definition payment_frame :: "'a public_payment_scheme \<Rightarrow> json" where
  "payment_frame p = JObj (paymentToWire p)"

definition add_follower :: "socket \<Rightarrow> follower \<Rightarrow> gateway \<Rightarrow> gateway" where
  "add_follower s f g = g\<lparr>followers := AList.update s f (followers g)\<rparr>"

definition follow :: "int \<Rightarrow> socket \<Rightarrow> string \<Rightarrow> gateway \<Rightarrow> gateway" where
  "follow now s i g =
     (case get now (g_store g) i of
        None \<Rightarrow> close_socket s g
      | Some p \<Rightarrow>
          (let g' = send_frame s (payment_frame p)
                (add_follower s \<lparr>follows_id = Some i, follows_trigger = None, follower_answered = True\<rparr> g)
           in if pay_status p \<noteq> Pending then close_socket s g' else g'))"

definition subscribe :: "socket \<Rightarrow> string \<Rightarrow> int \<Rightarrow> gateway \<Rightarrow> gateway" where
  "subscribe s trig depth g =
     fold (\<lambda>settled. send_frame s (payment_frame settled))
       (replayed (st_ledger (g_store g)) trig (nat depth))
       (add_follower s \<lparr>follows_id = None, follows_trigger = Some trig, follower_answered = True\<rparr> g)"

definition socket_closed :: "socket \<Rightarrow> gateway \<Rightarrow> gateway" where
  "socket_closed s g = g\<lparr>followers := AList.delete s (followers g)\<rparr>"

definition socket_pong :: "socket \<Rightarrow> gateway \<Rightarrow> gateway" where
  "socket_pong s g =
     g\<lparr>followers := map (\<lambda>(s', f). (s', if s' = s then f\<lparr>follower_answered := True\<rparr> else f)) (followers g)\<rparr>"

definition follows :: "follower \<Rightarrow> 'a public_payment_scheme \<Rightarrow> bool" where
  "follows f p \<longleftrightarrow> follows_id f = Some (pay_id p) \<or> (follows_trigger f \<noteq> None \<and> follows_trigger f = trigger p)"

definition publish :: "'a public_payment_scheme \<Rightarrow> gateway \<Rightarrow> gateway" where
  "publish p g =
     g\<lparr>frames := frames g @ map (\<lambda>(s, f). (s, payment_frame p)) (filter (\<lambda>(s, f). follows f p) (followers g))\<rparr>"

subsection \<open>Timers\<close>

definition keepalive :: "int \<Rightarrow> gateway \<Rightarrow> gateway" where
  "keepalive now g =
     (case keepAlive (g_agents g) of
        (silent, a) \<Rightarrow>
          forget_spent now
            (g\<lparr>closed := closed g @ map fst (filter (\<lambda>(s, f). \<not> follower_answered f) (followers g)) @ silent,
               followers := map (\<lambda>(s, f). (s, f\<lparr>follower_answered := False\<rparr>)) (followers g), g_agents := a\<rparr>))"

definition sweeper :: "int \<Rightarrow> serving \<Rightarrow> gateway \<Rightarrow> gateway" where
  "sweeper now sv g =
     (case sweep_store now (g_store g) EXPIRED_GRACE_SECS (keepSealedSecs sv) of
        (expired, s) \<Rightarrow> fold publish expired (with_store s g))"

text \<open>When the loop runs next; the timer fires after \<open>max 0 (p_tickDueAt - now)\<close> milliseconds.\<close>

definition arm_ticker :: "int \<Rightarrow> store \<Rightarrow> pulse \<Rightarrow> pulse" where
  "arm_ticker nowMs s p =
     (if p_ticking p \<or> p_draining p then p
      else (let ceiling = nowMs + LONGEST_SLEEP_MS
            in p\<lparr>p_tickDueAt := (case nextDueAt (st_ledger s) of None \<Rightarrow> ceiling | Some due \<Rightarrow> min ceiling (due * 1000))\<rparr>))"

definition timer_delay :: "int \<Rightarrow> pulse \<Rightarrow> int" where
  "timer_delay nowMs p = max 0 (p_tickDueAt p - nowMs)"

definition run_tick :: "int \<Rightarrow> pulse \<Rightarrow> pulse" where
  "run_tick nowMs p = p\<lparr>p_ticking := True, p_tickStartedAt := nowMs\<rparr>"

definition tick_done :: "int \<Rightarrow> store \<Rightarrow> pulse \<Rightarrow> pulse" where
  "tick_done nowMs s p = arm_ticker nowMs s (p\<lparr>p_ticking := False\<rparr>)"

subsection \<open>Upgrades\<close>

definition socketsOpen :: "gateway \<Rightarrow> nat" where
  "socketsOpen g = length (followers g) + sockets_held (g_agents g)"

datatype upgrade =
    UpgradeRefused string
  | SocketDestroyed
  | Upgraded
  | UpgradeEndsProcess

text \<open>The subject a ticket opens now, which spends it.\<close>

definition ticket_admits :: "bytes \<Rightarrow> int \<Rightarrow> string \<Rightarrow> gateway \<Rightarrow> subject option \<times> gateway" where
  "ticket_admits key now ticket g =
     (case read_ticket key ticket now of
        None \<Rightarrow> (None, g)
      | Some (subject, jti) \<Rightarrow>
          (case firstUse now (ticket_once jti) TICKET_TTL_SECS g of
             (fresh, g') \<Rightarrow> (if fresh then Some subject else None, g')))"

fun open_for :: "int \<Rightarrow> socket \<Rightarrow> subject \<Rightarrow> gateway \<Rightarrow> gateway" where
  "open_for now s (TriggerSubject trig depth) g = subscribe s trig depth g"
| "open_for now s (AgentSubject who) g = g\<lparr>g_agents := attend s who (g_agents g)\<rparr>"
| "open_for now s (PaymentSubject i) g = follow now s i g"

text \<open>\<open>gone\<close> says that the client left while the ticket was read.\<close>

definition openWhatTheTicketAllows :: "moment \<Rightarrow> serving \<Rightarrow> string \<Rightarrow> socket \<Rightarrow> bool \<Rightarrow> gateway \<Rightarrow> upgrade \<times> gateway" where
  "openWhatTheTicketAllows t sv ticket s left g0 =
     (let g = elsewhere t 0 g0
      in if left then (SocketDestroyed, g)
         else (case ticket_admits (sv_key sv) (seconds t 0) ticket g of
                 (None, g') \<Rightarrow> (UpgradeRefused ''401 Unauthorized'', g')
               | (Some subject, g') \<Rightarrow> (Upgraded, open_for (seconds t 0) s subject g')))"

definition ticket_char :: "char \<Rightarrow> bool" where
  "ticket_char c \<longleftrightarrow> word_or_dash c \<or> c = CHR ''.''"

definition on_upgrade :: "world \<Rightarrow> moment \<Rightarrow> serving \<Rightarrow> bool \<Rightarrow> nat \<Rightarrow> incoming \<Rightarrow> socket \<Rightarrow> bool \<Rightarrow> gateway \<Rightarrow> upgrade \<times> gateway" where
  "on_upgrade w t sv draining maxSockets r s left g =
     (if draining \<or> socketsOpen g \<ge> maxSockets then (UpgradeRefused ''503 Service Unavailable'', g)
      else (case pathOf w r of
              None \<Rightarrow> (UpgradeEndsProcess, g)
            | Some path \<Rightarrow>
                (case named_after ''/ws/tickets/'' ticket_char path of
                   Some ticket \<Rightarrow> openWhatTheTicketAllows t sv ticket s left g
                 | None \<Rightarrow>
                     if (case sv_token sv of None \<Rightarrow> False | Some token \<Rightarrow> \<not> bearerMatches r token)
                     then (UpgradeRefused ''401 Unauthorized'', g)
                     else if clientKeys sv \<noteq> None then (UpgradeRefused ''403 Forbidden'', g)
                     else (case named_after ''/ws/incoming-payments/'' word_or_dash path of
                             Some i \<Rightarrow> (Upgraded, follow (seconds t 0) s i g)
                           | None \<Rightarrow>
                               (case named_after ''/ws/triggers/'' word_or_dash path of
                                  None \<Rightarrow> (SocketDestroyed, g)
                                | Some secret \<Rightarrow>
                                    (case readReplayDepth (map_option JStr (in_query r ''replay'')) of
                                       Inl _ \<Rightarrow> (UpgradeRefused ''400 Bad Request'', g)
                                     | Inr depth \<Rightarrow> (Upgraded, subscribe s (hashed secret) depth g)))))))"

subsection \<open>Stopping\<close>

definition drained :: "gateway \<Rightarrow> gateway" where
  "drained g =
     g\<lparr>closed := closed g @ map fst (followers g) @
         concat (map (\<lambda>(who, at_set). held_sets (g_agents g) ! at_set) (held_at (g_agents g)))\<rparr>"

subsection \<open>Who is sent what\<close>

text \<open>What the gateway does to its followers; nothing else touches them.\<close>

inductive socket_step :: "gateway \<Rightarrow> gateway \<Rightarrow> bool" where
  following: "socket_step g (follow now s i g)"
| subscribing: "socket_step g (subscribe s trig depth g)"
| going: "socket_step g (socket_closed s g)"
| answering: "socket_step g (socket_pong s g)"
| publishing: "socket_step g (publish (p :: payment) g)"
| beating: "socket_step g (keepalive now g)"
| sweeping: "socket_step g (sweeper now sv g)"
| elsewhere_busy: "followers g' = followers g \<Longrightarrow> socket_step g g'"

definition once_each :: "gateway \<Rightarrow> bool" where
  "once_each g \<longleftrightarrow> distinct (map fst (followers g))"

lemma followers_simps [simp]:
  "followers (send_frame s frame g) = followers g" "followers (close_socket s g) = followers g"
  "followers (add_follower s f g) = AList.update s f (followers g)" "followers (publish p g) = followers g"
  "followers (forget_spent now g) = followers g" "followers (with_store st g) = followers g"
  by (simp_all add: send_frame_def close_socket_def add_follower_def publish_def forget_spent_def with_store_def)

lemma followers_fold_send [simp]: "followers (fold (\<lambda>p. send_frame s (f p)) ps g) = followers g"
  by (induction ps arbitrary: g) simp_all

lemma followers_fold_publish [simp]: "followers (fold publish ps g) = followers g"
  by (induction ps arbitrary: g) simp_all

lemma map_fst_keeping [simp]: "map (fst \<circ> (\<lambda>(s, f). (s, h s f))) xs = map fst xs"
  by (induction xs) auto

lemma once_each_step: "socket_step g g' \<Longrightarrow> once_each g \<Longrightarrow> once_each g'"
proof (induction rule: socket_step.induct)
  case (going g s)
  then show ?case by (simp add: once_each_def socket_closed_def distinct_delete)
next
  case (answering g s)
  then show ?case by (simp add: once_each_def socket_pong_def)
next
  case (beating g now)
  then show ?case by (simp add: once_each_def keepalive_def split: prod.split)
qed (auto simp: once_each_def follow_def subscribe_def sweeper_def Let_def distinct_update split: option.split prod.split)

lemma once_each_steps: "socket_step\<^sup>*\<^sup>* g g' \<Longrightarrow> once_each g \<Longrightarrow> once_each g'"
  by (induction rule: rtranclp_induct) (auto intro: once_each_step)

lemma frames_of_one:
  "distinct (map fst xs) \<Longrightarrow>
   map snd (filter (\<lambda>(s', frame). s' = s) (map (\<lambda>(s, f). (s, fr)) (filter (\<lambda>(s, f). P f) xs))) =
     (case map_of xs s of Some f \<Rightarrow> if P f then [fr] else [] | None \<Rightarrow> [])"
proof (induction xs)
  case (Cons x xs)
  then have "s \<notin> fst ` set xs \<Longrightarrow> map_of xs s = None" by (simp add: map_of_eq_None_iff)
  then show ?case using Cons by (cases x) (auto simp: image_iff split: option.splits)
qed simp

text \<open>
  A change is sent to those who follow it and to nobody else. Whatever opened, closed, answered
  or was published before, publishing a payment sends each follower its wire form, once, when it
  follows the payment's id or the trigger the payment has, and sends the others nothing; what is sent
  tells neither the caller nor the trigger nor the webhooks.
\<close>

theorem published_to_followers:
  assumes "socket_step\<^sup>*\<^sup>* g0 g" "followers g0 = []"
  shows "\<exists>sent. frames (publish p g) = frames g @ sent \<and>
    (\<forall>s. map snd (filter (\<lambda>(s', frame). s' = s) sent) =
      (case map_of (followers g) s of
         Some f \<Rightarrow> if follows_id f = Some (pay_id p) \<or> (\<exists>trig. follows_trigger f = Some trig \<and> trigger p = Some trig)
                    then [JObj (paymentToWire p)] else []
       | None \<Rightarrow> []))"
proof -
  have "once_each g0" using assms(2) by (simp add: once_each_def)
  then have each: "distinct (map fst (followers g))"
    using once_each_steps [OF assms(1)] by (simp add: once_each_def)
  have chosen: "follows f p \<longleftrightarrow> follows_id f = Some (pay_id p) \<or> (\<exists>trig. follows_trigger f = Some trig \<and> trigger p = Some trig)" for f
    by (cases "follows_trigger f") (auto simp: follows_def)
  show ?thesis
    unfolding chosen [symmetric]
    using frames_of_one [OF each, where P = "\<lambda>f. follows f p" and fr = "JObj (paymentToWire p)"]
    by (simp add: publish_def payment_frame_def)
qed

subsection \<open>A ticket opens one socket\<close>

text \<open>The expiry a ticket names.\<close>

definition ticket_expiry :: "string \<Rightarrow> int" where
  "ticket_expiry ticket = (case ticket_shape ticket of Some (kind, name, expires, rest) \<Rightarrow> int (number_of_digits expires) | None \<Rightarrow> 0)"

lemma read_ticket_alive: "read_ticket key ticket now = Some x \<Longrightarrow> now < ticket_expiry ticket"
  by (auto simp: read_ticket_def ticket_expiry_def split: option.splits if_splits)

lemma read_ticket_jti:
  "read_ticket key ticket now = Some (subject, jti) \<Longrightarrow> read_ticket key ticket now' = Some (subject', jti') \<Longrightarrow> jti' = jti"
  by (auto simp: read_ticket_def Let_def split: option.splits if_splits)

text \<open>
  C12: a ticket opens one socket. Once a ticket that expires within a minute opened a socket, it opens
  none again, at any time, whatever else is spent here or at the peers and whatever this instance has
  forgotten by then.
\<close>

theorem ticket_opens_once:
  assumes "ticket_admits key now ticket g = (Some subject, g1)" "ticket_expiry ticket \<le> now + TICKET_TTL_SECS"
    and "list_all (forgets_before (now' + 1)) es"
  shows "fst (ticket_admits key now' ticket (fold spent_happens es g1)) = None"
proof (cases "read_ticket key ticket now'")
  case None
  then show ?thesis by (simp add: ticket_admits_def)
next
  case (Some x)
  then obtain subject' jti where again: "read_ticket key ticket now' = Some (subject', jti)" by (cases x) auto
  from assms(1) obtain jti0 where first: "read_ticket key ticket now = Some (subject, jti0)"
    and use: "firstUse now (ticket_once jti0) TICKET_TTL_SECS g = (True, g1)"
    by (auto simp: ticket_admits_def split: option.splits prod.splits if_splits)
  have "jti = jti0" by (rule read_ticket_jti [OF first again])
  have "now' < now + TICKET_TTL_SECS" using read_ticket_alive [OF again] assms(2) by simp
  then have "list_all (forgets_before (now + TICKET_TTL_SECS)) es"
    using assms(3) by (auto simp: list_all_iff elim!: forgets_before.elims)
  then have "spent_until (fold spent_happens es g1) (ticket_once jti0) (now + TICKET_TTL_SECS)"
    by (intro spent.kept_through used_is_spent [OF use] forgets_before_all)
  then show ?thesis by (auto simp: ticket_admits_def again \<open>jti = jti0\<close> firstUse_def spent_until_def)
qed

subsection \<open>When the loop runs\<close>

text \<open>
  The loop is never idle past its work. When the timer is armed on an instance that is neither
  ticking nor leaving, it fires within a minute, and no later than the first poll or delivery is due
  or at once when that is past; from then on until the stall limit after it the instance does not
  count as stalled.
\<close>

theorem ticker_is_armed:
  assumes "\<not> p_ticking p" "\<not> p_draining p" "0 \<le> tickStallMs"
  shows "0 \<le> timer_delay nowMs (arm_ticker nowMs s p) \<and> timer_delay nowMs (arm_ticker nowMs s p) \<le> 60000 \<and>
    (\<forall>due. nextDueAt (st_ledger s) = Some due \<longrightarrow> timer_delay nowMs (arm_ticker nowMs s p) \<le> max 0 (due * 1000 - nowMs)) \<and>
    (\<forall>later. nowMs \<le> later \<and> later \<le> p_tickDueAt (arm_ticker nowMs s p) + tickStallMs \<longrightarrow>
       \<not> stalled later tickStallMs (arm_ticker nowMs s p))"
  using assms by (auto simp: arm_ticker_def timer_delay_def stalled_def LONGEST_SLEEP_MS_def Let_def split: option.split)

subsection \<open>Sockets at work\<close>

definition watching :: follower where
  "watching = \<lparr>follows_id = None, follows_trigger = Some ''door'', follower_answered = True\<rparr>"

definition door_payment :: payment where
  "door_payment = (watched_payment agent_watch None 1000)\<lparr>pay_id := ''p'', trigger := Some ''door''\<rparr>"

theorem published_to_followers_witness:
  "\<exists>sent. frames (publish door_payment (subscribe 4 ''door'' 0 plain_gateway)) = frames (subscribe 4 ''door'' 0 plain_gateway) @ sent \<and>
     map snd (filter (\<lambda>(s', frame). s' = 4) sent) = [JObj (paymentToWire door_payment)] \<and>
     map snd (filter (\<lambda>(s', frame). s' = 5) sent) = []"
proof -
  have opened: "socket_step\<^sup>*\<^sup>* plain_gateway (subscribe 4 ''door'' 0 plain_gateway)" "followers plain_gateway = []"
    by (simp_all add: r_into_rtranclp socket_step.subscribing plain_gateway_def)
  have "followers (subscribe 4 ''door'' 0 plain_gateway) = [(4, watching)]"
    by (simp add: subscribe_def plain_gateway_def watching_def)
  note now = this
  obtain sent where sent: "frames (publish door_payment (subscribe 4 ''door'' 0 plain_gateway)) = frames (subscribe 4 ''door'' 0 plain_gateway) @ sent"
    and each: "map snd (filter (\<lambda>(s', frame). s' = s) sent) =
      (case map_of [(4, watching)] s of
         Some f \<Rightarrow> if follows_id f = Some (pay_id door_payment) \<or> (\<exists>trig. follows_trigger f = Some trig \<and> trigger door_payment = Some trig)
                    then [JObj (paymentToWire door_payment)] else []
       | None \<Rightarrow> [])" for s
    using published_to_followers [OF opened, of door_payment] unfolding now by blast
  have "trigger door_payment = Some ''door''" by (simp add: door_payment_def)
  then show ?thesis using sent each [of 4] each [of 5] by (simp add: watching_def)
qed

definition agent_ticket :: ticket where
  "agent_ticket = Ticket.mint [7] (AgentSubject agent_key) TICKET_TTL_SECS 1000 [1]"

theorem ticket_opens_once_witness:
  "fst (ticket_admits [7] 1000 (ticket_text agent_ticket) plain_gateway) = Some (AgentSubject agent_key) \<and>
   fst (ticket_admits [7] 1059 (ticket_text agent_ticket)
     (fold spent_happens [Forgets 1059] (snd (ticket_admits [7] 1000 (ticket_text agent_ticket) plain_gateway)))) = None"
proof -
  have fine: "subject_ok (AgentSubject agent_key)" by code_simp
  have "bytesToHex [1] \<noteq> []" using length_bytesToHex [of "[1]"] by auto
  note shape = ticket_shape_minted [OF fine _ this lower_hex_bytesToHex is_hash_text_hmacHex, of 1060]
  have "ticket_text agent_ticket = ticket_claim (AgentSubject agent_key) 1060 (bytesToHex [1]) @ ''.'' @
      hmacHex [7] (utf8 (ticket_claim (AgentSubject agent_key) 1060 (bytesToHex [1])))"
    by (simp add: agent_ticket_def Ticket.mint_def Let_def TICKET_TTL_SECS_def)
  then have expires: "ticket_expiry (ticket_text agent_ticket) = 1060"
    by (simp only: ticket_expiry_def shape) (simp add: shape number_of_show_nat)
  have "read_ticket [7] (ticket_text agent_ticket) 1000 = Some (AgentSubject agent_key, ticket_jti agent_ticket)"
    unfolding agent_ticket_def by (rule read_ticket_minted [OF fine]) (simp_all add: TICKET_TTL_SECS_def)
  then obtain g1 where first: "ticket_admits [7] 1000 (ticket_text agent_ticket) plain_gateway = (Some (AgentSubject agent_key), g1)"
    by (simp add: ticket_admits_def firstUse_def plain_gateway_def)
  from ticket_opens_once [OF first, of 1059 "[Forgets 1059]"] first expires show ?thesis
    by (simp add: TICKET_TTL_SECS_def)
qed

theorem ticker_is_armed_witness:
  "timer_delay 5000 (arm_ticker 5000 (g_store plain_gateway)
     \<lparr>p_draining = False, p_ticking = False, p_tickDueAt = 0, p_tickStartedAt = 0, p_startedAt = 0\<rparr>) \<le> 60000"
  using ticker_is_armed [of "\<lparr>p_draining = False, p_ticking = False, p_tickDueAt = 0, p_tickStartedAt = 0, p_startedAt = 0\<rparr>" 30000]
  by simp

end
