(* ===== verification/Sealed.thy ===== *)
theory Sealed
  imports Hmac Wire
begin

text \<open>
  \<^verbatim>\<open>core/sealed.ts\<close>: what a watcher needs and the gateway must not read, padded to one of three
  sizes, encrypted and written as base64url. HKDF, AES-GCM and the text decoder of the platform are
  the fields of a record; padding, encoding, the versions and what a blob is bound to are defined.
  The lemmas show that a blob opens to what was sealed, that its length tells only its size class
  and that it fits what the gateway takes.
\<close>

definition VERSION :: string where "VERSION = ''v2''"
definition UNPADDED_VERSION :: string where "UNPADDED_VERSION = ''v1''"
definition PURPOSE_VERSION :: string where "PURPOSE_VERSION = ''v3''"
definition IV_BYTES :: nat where "IV_BYTES = 12"
definition MIN_SECRET_CHARS :: nat where "MIN_SECRET_CHARS = 32"
definition MAX_PLAIN_BYTES :: nat where "MAX_PLAIN_BYTES = 3000"
definition SIZE_CLASSES :: "nat list" where "SIZE_CLASSES = [256, 1024, MAX_PLAIN_BYTES]"
definition END_OF_TEXT :: "8 word" where "END_OF_TEXT = 0x80"
definition SEALED_INFO :: string where "SEALED_INFO = ''thunder-bridge/sealed''"

subsection \<open>Base64url\<close>

definition B64 :: string where
  "B64 = ''ABCDEFGHIJKLMNOPQRSTUVWXYZabcdefghijklmnopqrstuvwxyz0123456789+/''"

fun sextets :: "nat list \<Rightarrow> nat list" where
  "sextets (a # b # c # rest) =
     [a div 4, (a mod 4) * 16 + b div 16, (b mod 16) * 4 + c div 64, c mod 64] @ sextets rest"
| "sextets [a, b] = [a div 4, (a mod 4) * 16 + b div 16, (b mod 16) * 4]"
| "sextets [a] = [a div 4, (a mod 4) * 16]"
| "sextets [] = []"

fun octets :: "nat list \<Rightarrow> nat list" where
  "octets (p # q # r # s # rest) =
     [p * 4 + q div 16, (q mod 16) * 16 + r div 4, (r mod 4) * 64 + s] @ octets rest"
| "octets [p, q, r] = [p * 4 + q div 16, (q mod 16) * 16 + r div 4]"
| "octets [p, q] = [p * 4 + q div 16]"
| "octets _ = []"

text \<open>\<^verbatim>\<open>btoa\<close> of the platform: the sextets as letters, filled up to a multiple of four.\<close>

definition btoa :: "bytes \<Rightarrow> string" where
  "btoa bs = map (\<lambda>n. B64 ! n) (sextets (map unat bs)) @ replicate ((3 - length bs mod 3) mod 3) CHR ''=''"

definition url_char :: "char \<Rightarrow> char" where
  "url_char c = (if c = CHR ''+'' then CHR ''-'' else if c = CHR ''/'' then CHR ''_'' else c)"

definition plain_char :: "char \<Rightarrow> char" where
  "plain_char c = (if c = CHR ''-'' then CHR ''+'' else if c = CHR ''_'' then CHR ''/'' else c)"

definition toBase64Url :: "bytes \<Rightarrow> string" where
  "toBase64Url bs = rev (dropWhile (\<lambda>c. c = CHR ''='') (rev (map url_char (btoa bs))))"

text \<open>
  \<^verbatim>\<open>atob\<close> of the platform: white space is passed over, one or two signs that fill up a multiple of
  four are dropped, and bits that make no whole byte are.
\<close>

definition ascii_space :: "char \<Rightarrow> bool" where
  "ascii_space c \<longleftrightarrow> code c \<in> {9, 10, 12, 13, 32}"

definition unfilled :: "string \<Rightarrow> string" where
  "unfilled s =
     (if length s mod 4 = 0 then
        (if ends_with ''=='' s then take (length s - 2) s else if ends_with ''='' s then take (length s - 1) s else s)
      else s)"

definition atob :: "string \<Rightarrow> bytes option" where
  "atob text =
     (let s = unfilled (filter (\<lambda>c. \<not> ascii_space c) text)
      in if length s mod 4 = 1 \<or> \<not> list_all (\<lambda>c. c \<in> set B64) s then None
         else Some (map of_nat (octets (map (\<lambda>c. the (index_of c B64)) s))))"

definition fromBase64Url :: "string \<Rightarrow> bytes option" where
  "fromBase64Url text =
     (if text = [] \<or> \<not> list_all (\<lambda>c. is_word_char c \<or> c = CHR ''-'') text then None else atob (map plain_char text))"

subsection \<open>Padding\<close>

datatype seal_error = WeakSecret | TooLarge nat | NoPlatformKey

definition padToClass :: "string \<Rightarrow> seal_error + bytes" where
  "padToClass plaintext =
     (let text = utf8 plaintext
      in case find (\<lambda>limit. length text \<le> limit) SIZE_CLASSES of
           None \<Rightarrow> Inl (TooLarge (length text))
         | Some room \<Rightarrow> Inr (text @ END_OF_TEXT # replicate (room - length text) 0))"

definition unpad :: "bytes \<Rightarrow> bytes option" where
  "unpad body = map_option (\<lambda>stop. take stop body) (last_index_of END_OF_TEXT body)"

subsection \<open>Sealing and opening\<close>

text \<open>
  What the platform does: the key derived from a secret under an info text, AES-GCM over a nonce and
  additional data, where leaving the data out is giving none, and the decoder of UTF-8.
\<close>

record sealing =
  derive_key :: "bytes \<Rightarrow> bytes \<Rightarrow> bytes"
  encrypt :: "bytes \<Rightarrow> bytes \<Rightarrow> bytes \<Rightarrow> bytes \<Rightarrow> bytes"
  decrypt :: "bytes \<Rightarrow> bytes \<Rightarrow> bytes \<Rightarrow> bytes \<Rightarrow> bytes option"
  decode_utf8 :: "bytes \<Rightarrow> string"

definition weak_secret :: "string \<Rightarrow> bool" where
  "weak_secret secret \<longleftrightarrow> length secret < MIN_SECRET_CHARS"

definition keyFor :: "sealing \<Rightarrow> string \<Rightarrow> string \<Rightarrow> seal_error + bytes" where
  "keyFor plat secret info =
     (if weak_secret secret then Inl WeakSecret else Inr (derive_key plat (utf8 secret) (utf8 info)))"

definition boundTo :: "string option \<Rightarrow> bytes" where
  "boundTo hash = utf8 (case hash of None \<Rightarrow> VERSION | Some h \<Rightarrow> VERSION @ ''|'' @ lower h)"

definition sealUnder :: "sealing \<Rightarrow> bytes \<Rightarrow> string \<Rightarrow> bytes \<Rightarrow> string \<Rightarrow> bytes \<Rightarrow> seal_error + string" where
  "sealUnder plat key plaintext iv version bound =
     (case padToClass plaintext of
        Inl e \<Rightarrow> Inl e
      | Inr body \<Rightarrow> Inr (version @ ''.'' @ toBase64Url (iv @ encrypt plat key iv bound body)))"

definition seal :: "sealing \<Rightarrow> bytes \<Rightarrow> string \<Rightarrow> string \<Rightarrow> string option \<Rightarrow> seal_error + string" where
  "seal plat drawn secret plaintext hash =
     (case keyFor plat secret SEALED_INFO of
        Inl e \<Rightarrow> Inl e
      | Inr key \<Rightarrow> sealUnder plat key plaintext drawn VERSION (boundTo hash))"

datatype purpose = Relay | BankVerify | NwcVerify

fun purpose_text :: "purpose \<Rightarrow> string" where
  "purpose_text Relay = ''relay''"
| "purpose_text BankVerify = ''bank-verify''"
| "purpose_text NwcVerify = ''nwc-verify''"

definition purpose_info :: "purpose \<Rightarrow> string" where
  "purpose_info what = SEALED_INFO @ ''/'' @ purpose_text what"

definition nonceOf :: "string \<Rightarrow> string \<Rightarrow> bytes" where
  "nonceOf secret plaintext =
     hexToBytes (take (2 * IV_BYTES) (hmacHex (utf8 secret) (utf8 (''sealed-nonce|'' @ plaintext))))"

definition sealFor :: "sealing \<Rightarrow> bytes \<Rightarrow> purpose \<Rightarrow> string \<Rightarrow> string \<Rightarrow> bool \<Rightarrow> seal_error + string" where
  "sealFor plat drawn what secret plaintext fixed =
     (case keyFor plat secret (purpose_info what) of
        Inl e \<Rightarrow> Inl e
      | Inr key \<Rightarrow>
          sealUnder plat key plaintext (if fixed then nonceOf secret plaintext else drawn) PURPOSE_VERSION (utf8 PURPOSE_VERSION))"

definition opened_blob :: "sealing \<Rightarrow> bytes \<Rightarrow> string \<Rightarrow> bytes option \<Rightarrow> string option" where
  "opened_blob plat key encoded bound =
     (case fromBase64Url encoded of
        None \<Rightarrow> None
      | Some joined \<Rightarrow>
          if length joined \<le> IV_BYTES then None
          else (case decrypt plat key (take IV_BYTES joined) (case bound of None \<Rightarrow> [] | Some b \<Rightarrow> b) (drop IV_BYTES joined) of
                  None \<Rightarrow> None
                | Some body \<Rightarrow> map_option (decode_utf8 plat) (if bound = None then Some body else unpad body)))"

definition unsealFor :: "sealing \<Rightarrow> purpose \<Rightarrow> string \<Rightarrow> string \<Rightarrow> seal_error + string option" where
  "unsealFor plat what secret blob =
     (if \<not> starts_with (PURPOSE_VERSION @ ''.'') blob then Inr None
      else (case keyFor plat secret (purpose_info what) of
              Inl e \<Rightarrow> Inl e
            | Inr key \<Rightarrow>
                Inr (opened_blob plat key (drop (length PURPOSE_VERSION + 1) blob) (Some (utf8 PURPOSE_VERSION)))))"

definition unseal :: "sealing \<Rightarrow> string \<Rightarrow> string \<Rightarrow> string option \<Rightarrow> seal_error + string option" where
  "unseal plat secret blob hash =
     (case keyFor plat secret SEALED_INFO of
        Inl e \<Rightarrow> Inl e
      | Inr key \<Rightarrow>
          (let padded = starts_with (VERSION @ ''.'') blob;
               unbound = \<not> padded \<and> starts_with (UNPADDED_VERSION @ ''.'') blob
           in if \<not> padded \<and> (\<not> unbound \<or> hash \<noteq> None) then Inr None
              else Inr (opened_blob plat key (drop (length VERSION + 1) blob) (if padded then Some (boundTo hash) else None))))"

subsection \<open>Base64url reads back what it wrote\<close>

lemma octets_sextets: "list_all (\<lambda>n. n < 256) ns \<Longrightarrow> octets (sextets ns) = ns"
proof (induction ns rule: sextets.induct)
  case (1 a b c rest)
  then have "b div 16 < 16" "c div 64 < 4" by auto
  then have "(a div 4) * 4 + ((a mod 4) * 16 + b div 16) div 16 = a" by simp
  moreover have "((a mod 4) * 16 + b div 16) mod 16 * 16 + ((b mod 16) * 4 + c div 64) div 4 = b"
    using \<open>b div 16 < 16\<close> \<open>c div 64 < 4\<close> by simp
  moreover have "((b mod 16) * 4 + c div 64) mod 4 * 64 + c mod 64 = c"
    using \<open>c div 64 < 4\<close> by simp
  ultimately show ?case using 1 by simp
qed auto

lemma sextets_small: "list_all (\<lambda>n. n < 256) ns \<Longrightarrow> list_all (\<lambda>n. n < 64) (sextets ns)"
  by (induction ns rule: sextets.induct) auto

lemma length_sextets:
  "length (sextets ns) = 4 * (length ns div 3) + (if length ns mod 3 = 0 then 0 else length ns mod 3 + 1)"
  by (induction ns rule: sextets.induct) (auto simp: Let_def)

lemma length_B64 [simp]: "length B64 = 64"
  by (simp add: B64_def)

lemma B64_facts: "list_all (\<lambda>n. index_of (B64 ! n) B64 = Some n \<and> B64 ! n \<in> set B64 \<and>
    plain_char (url_char (B64 ! n)) = B64 ! n \<and> \<not> ascii_space (B64 ! n) \<and> B64 ! n \<noteq> CHR ''='' \<and> url_char (B64 ! n) \<noteq> CHR ''='' \<and>
    (is_word_char (url_char (B64 ! n)) \<or> url_char (B64 ! n) = CHR ''-'')) [0..<64]"
  by code_simp

lemma B64_letter:
  assumes "n < 64"
  shows "index_of (B64 ! n) B64 = Some n" "plain_char (url_char (B64 ! n)) = B64 ! n"
    "\<not> ascii_space (B64 ! n)" "B64 ! n \<noteq> CHR ''=''" "url_char (B64 ! n) \<noteq> CHR ''=''"
    "is_word_char (url_char (B64 ! n)) \<or> url_char (B64 ! n) = CHR ''-''"
  using assms B64_facts by (auto simp: list_all_iff)

definition letters :: "bytes \<Rightarrow> string" where
  "letters bs = map (\<lambda>n. url_char (B64 ! n)) (sextets (map unat bs))"

lemma bytes_small: "list_all (\<lambda>n. n < 256) (map unat (bs :: bytes))"
  by (simp add: list_all_iff unat_byte_less)

lemma sextet_small: "n \<in> set (sextets (map unat (bs :: bytes))) \<Longrightarrow> n < 64"
  using sextets_small [OF bytes_small, of bs] by (simp add: list_all_iff)

lemma toBase64Url_letters: "toBase64Url bs = letters bs"
proof -
  have url: "map url_char (btoa bs) = letters bs @ replicate ((3 - length bs mod 3) mod 3) CHR ''=''"
    by (simp add: btoa_def letters_def url_char_def)
  have "\<forall>c\<in>set (letters bs). c \<noteq> CHR ''=''"
    using B64_letter(5) sextet_small by (auto simp: letters_def)
  then have "dropWhile (\<lambda>c. c = CHR ''='') (rev (letters bs)) = rev (letters bs)"
    by (cases "rev (letters bs)") (auto simp: dropWhile_eq_self_iff dest: arg_cong [where f = set])
  then show ?thesis
    unfolding toBase64Url_def url by (simp add: dropWhile_append)
qed

lemma length_toBase64Url:
  "length (toBase64Url bs) = 4 * (length bs div 3) + (if length bs mod 3 = 0 then 0 else length bs mod 3 + 1)"
  by (simp add: toBase64Url_letters letters_def length_sextets)

text \<open>The letters of a text of bytes, without what fills them up.\<close>

definition plain_letters :: "bytes \<Rightarrow> string" where
  "plain_letters bs = map (\<lambda>n. B64 ! n) (sextets (map unat bs))"

lemma plain_letters_facts:
  "filter (\<lambda>c. \<not> ascii_space c) (plain_letters bs) = plain_letters bs" "CHR ''='' \<notin> set (plain_letters bs)"
  "length (plain_letters bs) = 4 * (length bs div 3) + (if length bs mod 3 = 0 then 0 else length bs mod 3 + 1)"
  "list_all (\<lambda>c. c \<in> set B64) (plain_letters bs)"
  "map of_nat (octets (map (\<lambda>c. the (index_of c B64)) (plain_letters bs))) = bs"
proof -
  let ?ns = "sextets (map unat bs)"
  show "filter (\<lambda>c. \<not> ascii_space c) (plain_letters bs) = plain_letters bs"
    by (auto simp: plain_letters_def filter_id_conv dest!: sextet_small dest: B64_letter(3))
  show "CHR ''='' \<notin> set (plain_letters bs)" by (auto simp: plain_letters_def dest!: sextet_small dest: B64_letter(4) [symmetric])
  show "length (plain_letters bs) = 4 * (length bs div 3) + (if length bs mod 3 = 0 then 0 else length bs mod 3 + 1)"
    by (simp add: plain_letters_def length_sextets)
  show "list_all (\<lambda>c. c \<in> set B64) (plain_letters bs)" by (auto simp: plain_letters_def list_all_iff dest: sextet_small)
  have "map (\<lambda>n. the (index_of (B64 ! n) B64)) ?ns = ?ns"
    by (rule map_idI) (simp add: B64_letter(1) sextet_small)
  then have "map (\<lambda>c. the (index_of c B64)) (plain_letters bs) = ?ns" by (simp add: plain_letters_def comp_def)
  then show "map of_nat (octets (map (\<lambda>c. the (index_of c B64)) (plain_letters bs))) = bs"
    by (simp add: octets_sextets [OF bytes_small] comp_def map_idI)
qed

lemma atob_filled:
  assumes "unfilled s = plain_letters bs" "filter (\<lambda>c. \<not> ascii_space c) text = s"
  shows "atob text = Some bs"
proof -
  have "length (plain_letters bs) mod 4 \<noteq> 1" by (simp add: plain_letters_facts(3) mod_add_eq)
  then show ?thesis using assms plain_letters_facts(4,5) [of bs] by (simp add: atob_def)
qed

lemma not_filled: "CHR ''='' \<notin> set s \<Longrightarrow> \<not> ends_with ''=='' s \<and> \<not> ends_with ''='' s"
  using set_mono_suffix [of "''==''" s] set_mono_suffix [of "''=''" s] by (auto simp: ends_with_def)

lemma fromBase64Url_toBase64Url:
  assumes "bs \<noteq> []"
  shows "fromBase64Url (toBase64Url bs) = Some bs"
proof -
  let ?ns = "sextets (map unat bs)"
  have "?ns \<noteq> []" using assms length_sextets [of "map unat bs"] by (cases "length bs") (auto split: if_splits)
  have undone: "map plain_char (letters bs) = plain_letters bs"
    by (auto simp: letters_def plain_letters_def dest!: sextet_small intro: B64_letter(2))
  have word: "list_all (\<lambda>c. is_word_char c \<or> c = CHR ''-'') (letters bs)"
    using B64_letter(6) sextet_small by (auto simp: letters_def list_all_iff)
  have "unfilled (plain_letters bs) = plain_letters bs"
    using not_filled [OF plain_letters_facts(2)] by (simp add: unfilled_def)
  then have "atob (plain_letters bs) = Some bs" using plain_letters_facts(1) by (rule atob_filled)
  then show ?thesis
    using \<open>?ns \<noteq> []\<close> word undone by (simp add: fromBase64Url_def toBase64Url_letters) (simp add: letters_def)
qed

lemma atob_btoa: "atob (btoa bs) = Some bs"
proof -
  let ?k = "(3 - length bs mod 3) mod 3"
  have btoa: "btoa bs = plain_letters bs @ replicate ?k CHR ''=''" by (simp add: btoa_def plain_letters_def)
  have whole: "length (btoa bs) mod 4 = 0"
  proof -
    consider "length bs mod 3 = 0" | "length bs mod 3 = 1" | "length bs mod 3 = 2" by linarith
    then show ?thesis by cases (simp_all add: btoa plain_letters_facts(3))
  qed
  have "unfilled (btoa bs) = plain_letters bs"
  proof -
    consider "?k = 0" | "?k = 1" | "?k = 2" by linarith
    then show ?thesis
    proof cases
      case 1
      then show ?thesis using not_filled [OF plain_letters_facts(2)] by (simp add: unfilled_def btoa)
    next
      case 2
      have "plain_letters bs = [] \<or> last (plain_letters bs) \<noteq> CHR ''=''" using plain_letters_facts(2) last_in_set by metis
      then have "\<not> ends_with ''=='' (btoa bs)" "ends_with ''='' (btoa bs)"
        by (auto simp: btoa 2 ends_with_def suffix_def append_eq_append_conv2 append_eq_Cons_conv)
      then show ?thesis using whole by (simp add: unfilled_def btoa 2)
    next
      case 3
      then have "btoa bs = plain_letters bs @ ''==''" by (simp add: btoa numeral_2_eq_2)
      then show ?thesis using whole by (auto simp: unfilled_def ends_with_def suffix_def)
    qed
  qed
  moreover have "\<not> ascii_space CHR ''=''" by code_simp
  then have "filter (\<lambda>c. \<not> ascii_space c) (btoa bs) = btoa bs" by (simp add: btoa plain_letters_facts(1))
  ultimately show ?thesis by (rule atob_filled)
qed

subsection \<open>A blob opens to what was sealed\<close>

lemma unpad_padded: "unpad (text @ END_OF_TEXT # replicate n 0) = Some text"
  by (simp add: unpad_def last_index_of_append_Cons END_OF_TEXT_def)

definition plain_class :: "string \<Rightarrow> nat" where
  "plain_class plaintext =
     (if length (utf8 plaintext) \<le> 256 then 256 else if length (utf8 plaintext) \<le> 1024 then 1024 else 3000)"

lemma padToClass_fits:
  "length (utf8 plaintext) \<le> 3000 \<Longrightarrow>
   padToClass plaintext =
     Inr (utf8 plaintext @ END_OF_TEXT # replicate (plain_class plaintext - length (utf8 plaintext)) 0)"
  by (simp add: padToClass_def Let_def SIZE_CLASSES_def MAX_PLAIN_BYTES_def plain_class_def)

lemma padToClass_too_large:
  "3000 < length (utf8 plaintext) \<Longrightarrow> padToClass plaintext = Inl (TooLarge (length (utf8 plaintext)))"
  by (simp add: padToClass_def Let_def SIZE_CLASSES_def MAX_PLAIN_BYTES_def)

lemma plain_class_le: "length (utf8 plaintext) \<le> 3000 \<Longrightarrow> length (utf8 plaintext) \<le> plain_class plaintext"
  by (simp add: plain_class_def)

text \<open>What the platform promises of AES-GCM, with its tag of sixteen bytes, and of its decoder.\<close>

definition platform_opens :: "sealing \<Rightarrow> bool" where
  "platform_opens plat \<longleftrightarrow>
     (\<forall>key iv bound body. decrypt plat key iv bound (encrypt plat key iv bound body) = Some body) \<and>
     (\<forall>key iv bound body. length (encrypt plat key iv bound body) = length body + 16) \<and>
     (\<forall>s. decode_utf8 plat (utf8 s) = s)"

lemma sealUnder_opens:
  assumes "platform_opens plat" "length (utf8 plaintext) \<le> 3000" "length iv = IV_BYTES" "length version = 2"
  obtains blob where "sealUnder plat key plaintext iv version bound = Inr blob" "starts_with (version @ ''.'') blob"
    "opened_blob plat key (drop 3 blob) (Some bound) = Some plaintext"
    "length blob = (if length (utf8 plaintext) \<le> 256 then 383 else if length (utf8 plaintext) \<le> 1024 then 1407 else 4042)"
proof -
  let ?body = "utf8 plaintext @ END_OF_TEXT # replicate (plain_class plaintext - length (utf8 plaintext)) 0"
  let ?joined = "iv @ encrypt plat key iv bound ?body"
  let ?blob = "version @ ''.'' @ toBase64Url ?joined"
  have "iv \<noteq> []" using assms(3) by (auto simp: IV_BYTES_def)
  have "sealUnder plat key plaintext iv version bound = Inr ?blob"
    using padToClass_fits [OF assms(2)] by (simp add: sealUnder_def)
  moreover have "starts_with (version @ ''.'') ?blob" by (simp add: starts_with_def)
  moreover have "opened_blob plat key (toBase64Url ?joined) (Some bound) = Some plaintext"
    using assms(1,3) \<open>iv \<noteq> []\<close>
    by (simp add: opened_blob_def fromBase64Url_toBase64Url platform_opens_def IV_BYTES_def unpad_padded)
  then have "opened_blob plat key (drop 3 ?blob) (Some bound) = Some plaintext"
    using assms(4) by simp
  moreover have "length ?joined = plain_class plaintext + 29"
    using assms(1,3) plain_class_le [OF assms(2)] by (simp add: platform_opens_def IV_BYTES_def)
  then have "length (toBase64Url ?joined) =
      (if length (utf8 plaintext) \<le> 256 then 380 else if length (utf8 plaintext) \<le> 1024 then 1404 else 4039)"
    by (simp only: length_toBase64Url) (simp add: plain_class_def)
  then have "length ?blob = (if length (utf8 plaintext) \<le> 256 then 383 else if length (utf8 plaintext) \<le> 1024 then 1407 else 4042)"
    using assms(4) by simp
  ultimately show ?thesis by (rule that)
qed

text \<open>
  A sealed blob opens to what was sealed and shows only its size class. On a platform whose AES-GCM
  opens what it sealed, a text of at most 3000 bytes sealed under a secret of at least 32 characters
  opens under that secret and that payment hash to the very text, in whatever case the hash is written;
  the blob has one of three lengths, told by the size class alone; and the gateway takes it as it is.
\<close>

theorem seal_opens:
  assumes "platform_opens plat" "\<not> weak_secret secret" "length (utf8 plaintext) \<le> 3000" "length drawn = 12"
    and "map_option lower hash' = map_option lower hash"
  shows "\<exists>blob. seal plat drawn secret plaintext hash = Inr blob \<and> unseal plat secret blob hash' = Inr (Some plaintext) \<and>
    length blob = (if length (utf8 plaintext) \<le> 256 then 383 else if length (utf8 plaintext) \<le> 1024 then 1407 else 4042) \<and>
    readSealed (Some (JStr blob)) = Inr (Some blob)"
proof -
  define key where "key = derive_key plat (utf8 secret) (utf8 SEALED_INFO)"
  have bound: "boundTo hash' = boundTo hash"
    using assms(5) by (cases hash; cases hash') (simp_all add: boundTo_def)
  obtain blob where blob: "sealUnder plat key plaintext drawn VERSION (boundTo hash) = Inr blob"
    "starts_with (VERSION @ ''.'') blob" "opened_blob plat key (drop 3 blob) (Some (boundTo hash)) = Some plaintext"
    and len: "length blob = (if length (utf8 plaintext) \<le> 256 then 383 else if length (utf8 plaintext) \<le> 1024 then 1407 else 4042)"
    by (rule sealUnder_opens [OF assms(1,3), of drawn VERSION key "boundTo hash"]) (simp_all add: assms(4) IV_BYTES_def VERSION_def)
  have "seal plat drawn secret plaintext hash = Inr blob"
    using assms(2) blob(1) by (simp add: seal_def keyFor_def key_def)
  moreover have "unseal plat secret blob hash' = Inr (Some plaintext)"
    using assms(2) blob(2,3) by (simp add: unseal_def keyFor_def bound key_def Let_def VERSION_def numeral_3_eq_3)
  moreover have "readSealed (Some (JStr blob)) = Inr (Some blob)"
    using len by (simp add: readSealed_def missing_def MAX_SEALED_CHARS_def)
  ultimately show ?thesis using len by blast
qed

text \<open>
  A blob sealed for a purpose opens for that purpose and is no blob for a payment. On such a platform
  what is sealed for a purpose, under a drawn nonce or the one of its content, opens under the secret for
  that purpose to the very text; whoever opens it as the blob of a payment is told it is none; a fixed
  blob does not depend on what was drawn; and a secret that is too short seals nothing and opens no blob.
\<close>

theorem sealed_for_its_purpose:
  assumes "platform_opens plat" "length (utf8 plaintext) \<le> 3000" "length drawn = 12"
  shows "if weak_secret secret then sealFor plat drawn what secret plaintext fixed = Inl WeakSecret
    else (\<exists>blob. sealFor plat drawn what secret plaintext fixed = Inr blob \<and>
      unsealFor plat what secret blob = Inr (Some plaintext) \<and>
      unseal plat secret blob hash = Inr None \<and>
      (fixed \<longrightarrow> sealFor plat drawn' what secret plaintext fixed = Inr blob))"
proof (cases "weak_secret secret")
  case True
  then show ?thesis by (simp add: sealFor_def keyFor_def)
next
  case False
  define key where "key = derive_key plat (utf8 secret) (utf8 (purpose_info what))"
  define iv where "iv = (if fixed then nonceOf secret plaintext else drawn)"
  have iv: "length iv = IV_BYTES"
    using assms(3) by (simp add: iv_def nonceOf_def IV_BYTES_def)
  obtain blob where blob: "sealUnder plat key plaintext iv PURPOSE_VERSION (utf8 PURPOSE_VERSION) = Inr blob"
    "starts_with (PURPOSE_VERSION @ ''.'') blob"
    "opened_blob plat key (drop 3 blob) (Some (utf8 PURPOSE_VERSION)) = Some plaintext"
    by (rule sealUnder_opens [OF assms(1,2) iv, of PURPOSE_VERSION key "utf8 PURPOSE_VERSION"]) (simp_all add: PURPOSE_VERSION_def)
  have sealed: "sealFor plat drawn what secret plaintext fixed = Inr blob"
    using False blob(1) by (simp add: sealFor_def keyFor_def key_def iv_def)
  moreover have "unsealFor plat what secret blob = Inr (Some plaintext)"
    using False blob(2,3) by (simp add: unsealFor_def keyFor_def key_def PURPOSE_VERSION_def numeral_3_eq_3)
  moreover have "unseal plat secret blob hash = Inr None"
    using False blob(2)
    by (auto simp: unseal_def keyFor_def starts_with_def PURPOSE_VERSION_def VERSION_def UNPADDED_VERSION_def prefix_def)
  moreover have "fixed \<longrightarrow> sealFor plat drawn' what secret plaintext fixed = Inr blob"
    using sealed False by (auto simp: sealFor_def keyFor_def)
  ultimately show ?thesis using False by auto
qed

text \<open>The texts of this model, whose characters are those below 256, are read back from their UTF-8.\<close>

fun utf8_read :: "bytes \<Rightarrow> string" where
  "utf8_read [] = []"
| "utf8_read (b # bs) =
     (if unat b < 128 then char_of (unat b) # utf8_read bs
      else (case bs of [] \<Rightarrow> [] | c # cs \<Rightarrow> char_of ((unat b - 192) * 64 + (unat c - 128)) # utf8_read cs))"

lemma utf8_units: "list_all (\<lambda>n. unat (192 OR of_nat n :: 8 word) = 192 + n) [0..<4]"
  "list_all (\<lambda>n. unat (128 OR of_nat n :: 8 word) = 128 + n) [0..<64]"
  by code_simp+

lemma utf8_read_char: "utf8_read (utf8_char c @ bs) = c # utf8_read bs"
proof (cases "code c < 128")
  case True
  then have "unat (of_nat (code c) :: 8 word) = code c" by (simp add: unat_of_nat_small)
  then show ?thesis using True by (simp add: utf8_char_def)
next
  case False
  have "code c div 64 < 4" "code c mod 64 < 64" using code_less [of c] by (simp_all add: less_mult_imp_div_less)
  then have "unat (192 OR of_nat (code c div 64) :: 8 word) = 192 + code c div 64"
    "unat (128 OR of_nat (code c mod 64) :: 8 word) = 128 + code c mod 64"
    using utf8_units by (auto simp: list_all_iff)
  then show ?thesis using False by (simp add: utf8_char_def div_mult_mod_eq)
qed

lemma utf8_read_utf8 [simp]: "utf8_read (utf8 s) = s"
  by (induction s) (simp_all add: utf8_def utf8_read_char)

text \<open>A platform that keeps its promises: the key and the data in the clear, in front of the body.\<close>

definition clear_platform :: sealing where
  "clear_platform =
     \<lparr>derive_key = (\<lambda>secret info. info), encrypt = (\<lambda>key iv bound body. replicate 16 (of_nat (length key)) @ body),
      decrypt = (\<lambda>key iv bound blob. if take 16 blob = replicate 16 (of_nat (length key)) then Some (drop 16 blob) else None),
      decode_utf8 = utf8_read\<rparr>"

lemma clear_platform_promises: "platform_opens clear_platform"
  by (simp add: platform_opens_def clear_platform_def)

lemma seal_opens_witness:
  "\<exists>blob. seal clear_platform (replicate 12 7) (replicate 32 CHR ''s'') ''order 7'' (Some ''AB'') = Inr blob \<and>
     unseal clear_platform (replicate 32 CHR ''s'') blob (Some ''ab'') = Inr (Some ''order 7'') \<and> length blob = 383"
proof -
  have "\<not> weak_secret (replicate 32 CHR ''s'')" by (simp add: weak_secret_def MIN_SECRET_CHARS_def)
  moreover have short: "length (utf8 ''order 7'') = 7" by code_simp
  moreover have "map_option lower (Some ''ab'') = map_option lower (Some ''AB'')" by code_simp
  ultimately have "\<exists>blob. seal clear_platform (replicate 12 7) (replicate 32 CHR ''s'') ''order 7'' (Some ''AB'') = Inr blob \<and>
     unseal clear_platform (replicate 32 CHR ''s'') blob (Some ''ab'') = Inr (Some ''order 7'') \<and>
     length blob = (if length (utf8 ''order 7'') \<le> 256 then 383 else if length (utf8 ''order 7'') \<le> 1024 then 1407 else 4042) \<and>
     readSealed (Some (JStr blob)) = Inr (Some blob)"
    by (intro seal_opens clear_platform_promises) (simp_all)
  then show ?thesis unfolding short by auto
qed

lemma sealed_for_its_purpose_witness:
  "\<exists>blob. sealFor clear_platform (replicate 12 7) Relay (replicate 32 CHR ''s'') ''order 7'' True = Inr blob \<and>
     unsealFor clear_platform Relay (replicate 32 CHR ''s'') blob = Inr (Some ''order 7'') \<and>
     sealFor clear_platform [] Relay (replicate 32 CHR ''s'') ''order 7'' True = Inr blob"
proof -
  have "\<not> weak_secret (replicate 32 CHR ''s'')" by (simp add: weak_secret_def MIN_SECRET_CHARS_def)
  moreover have "length (utf8 ''order 7'') \<le> 3000" by code_simp
  ultimately show ?thesis
    using sealed_for_its_purpose [OF clear_platform_promises, of "''order 7''" "replicate 12 7" "replicate 32 CHR ''s''" Relay True None "[]"]
    by auto
qed

end
