(* ===== verification/Prices.thy ===== *)
theory Prices
  imports Wire "HOL-Library.AList"
begin

text \<open>
  \<^verbatim>\<open>sdk/src/currency.ts\<close>, \<^verbatim>\<open>sdk/src/amount.ts\<close> and \<^verbatim>\<open>sdk/src/price.ts\<close>: the currencies and their minor
  units, the amounts a payment is asked for, and the price of a bitcoin as the middle of what several
  venues quote. Finite numbers are rationals; a product, quotient or sum the source computes in binary
  floating point goes through \<open>fl\<close>, the rounding of the platform, which is any function in the definitions
  and in the theorems one that rounds as IEEE 754 does. What the source computes in \<^verbatim>\<open>BigInt\<close> is exact.
\<close>

subsection \<open>Currencies\<close>

definition ISO_4217_MINOR_UNITS :: "(string \<times> nat) list" where
  "ISO_4217_MINOR_UNITS =
     [(''BHD'', 3), (''BIF'', 0), (''CLP'', 0), (''CZK'', 2), (''DJF'', 0), (''EUR'', 2), (''GBP'', 2), (''ISK'', 0),
      (''IQD'', 3), (''JOD'', 3), (''JPY'', 0), (''KRW'', 0), (''KWD'', 3), (''LYD'', 3), (''OMR'', 3), (''PLN'', 2),
      (''PYG'', 0), (''RWF'', 0), (''TND'', 3), (''UGX'', 0), (''USD'', 2), (''VND'', 0), (''VUV'', 0), (''XAF'', 0),
      (''XOF'', 0), (''XPF'', 0)]"

datatype amount_fault =
    NotWholeSatoshi
  | NotWholeMillisatoshi
  | NotADecimal
  | TooPrecise
  | UnknownCurrency

datatype price_error =
    Amount_Error amount_fault
  | BadAmountMinor
  | BadPrice
  | BadSpread
  | MoreThanExists
  | DivisionByZero
  | TooFewVenues nat
  | VenuesDisagree
  | EmptyRange

definition minorUnitsOf :: "string \<Rightarrow> price_error + nat" where
  "minorUnitsOf currency =
     (case map_of ISO_4217_MINOR_UNITS (upper currency) of
        None \<Rightarrow> Inl (Amount_Error UnknownCurrency) | Some digits \<Rightarrow> Inr digits)"

definition minorScaleOf :: "string \<Rightarrow> price_error + int" where
  "minorScaleOf currency = and_then (minorUnitsOf currency) (\<lambda>digits. Inr (10 ^ digits))"

subsection \<open>Numbers\<close>

text \<open>A number of the source: a rational, or \<^const>\<open>None\<close> for \<^verbatim>\<open>NaN\<close> and the infinities.\<close>

type_synonym number = "rat option"

type_synonym rounding = "rat \<Rightarrow> rat"

definition whole_number :: "number \<Rightarrow> int option" where
  "whole_number x = (case x of None \<Rightarrow> None | Some q \<Rightarrow> (if of_int \<lfloor>q\<rfloor> = q then Some \<lfloor>q\<rfloor> else None))"

text \<open>\<^verbatim>\<open>Math.round\<close>: halves go up.\<close>

definition math_round :: "rat \<Rightarrow> int" where
  "math_round q = \<lfloor>q + 1 / 2\<rfloor>"

subsection \<open>Amounts\<close>

definition MSAT_PER_SAT :: int where "MSAT_PER_SAT = 1000"
definition MAX_SATS :: int where "MAX_SATS = MAX_SAFE_INTEGER div MSAT_PER_SAT"

definition sats :: "number \<Rightarrow> price_error + int" where
  "sats amount =
     (case whole_number amount of
        Some n \<Rightarrow> if n < 1 \<or> n > MAX_SATS then Inl (Amount_Error NotWholeSatoshi) else Inr (n * MSAT_PER_SAT)
      | None \<Rightarrow> Inl (Amount_Error NotWholeSatoshi))"

definition msat :: "number \<Rightarrow> price_error + int" where
  "msat amount =
     (case whole_number amount of
        Some n \<Rightarrow> if \<bar>n\<bar> > MAX_SAFE_INTEGER \<or> n < 1 then Inl (Amount_Error NotWholeMillisatoshi) else Inr n
      | None \<Rightarrow> Inl (Amount_Error NotWholeMillisatoshi))"

definition payable :: "number \<Rightarrow> price_error + int" where
  "payable minor =
     (case whole_number minor of
        Some n \<Rightarrow> if \<bar>n\<bar> > MAX_SAFE_INTEGER \<or> n < 1 then Inl (Amount_Error NotADecimal) else Inr n
      | None \<Rightarrow> Inl (Amount_Error NotADecimal))"

text \<open>\<^verbatim>\<open>/^(\d+)(?:[.,](\d+))?$/\<close>: the digits before and after the point.\<close>

definition decimal_price :: "string \<Rightarrow> (string \<times> string) option" where
  "decimal_price text =
     (let before = takeWhile is_digit text; rest = drop (length before) text
      in if before = [] then None
         else (case rest of
                 [] \<Rightarrow> Some (before, [])
               | c # fraction \<Rightarrow>
                   if (c = CHR ''.'' \<or> c = CHR '','') \<and> is_decimal fraction then Some (before, fraction) else None))"

text \<open>What a price is named by: a number or a text.\<close>

datatype major = MajorNumber number | MajorText string

fun minorFrom :: "rounding \<Rightarrow> major \<Rightarrow> string \<Rightarrow> price_error + int" where
  "minorFrom fl (MajorNumber x) currency =
     and_then (minorScaleOf currency) (\<lambda>scale.
       payable (map_option (\<lambda>q. of_int (math_round (fl (q * of_int scale)))) x))"
| "minorFrom fl (MajorText text) currency =
     and_then (minorUnitsOf currency) (\<lambda>digits.
       (case decimal_price (trim text) of
          None \<Rightarrow> Inl (Amount_Error NotADecimal)
        | Some (before, fraction) \<Rightarrow>
            if length fraction > digits then Inl (Amount_Error TooPrecise)
            else payable (Some (of_nat (number_of_digits (before @ fraction @ replicate (digits - length fraction) CHR ''0''))))))"

subsection \<open>The price of a bitcoin\<close>

definition MSAT_PER_BTC :: int where "MSAT_PER_BTC = 100000000000"
definition BASIS_POINTS :: int where "BASIS_POINTS = 10000"
definition DEFAULT_HOLD_SECS :: int where "DEFAULT_HOLD_SECS = 60"
definition DEFAULT_MIN_VENUES :: nat where "DEFAULT_MIN_VENUES = 2"
definition DEFAULT_MAX_SPREAD_BPS :: rat where "DEFAULT_MAX_SPREAD_BPS = 200"
definition MILLIS :: int where "MILLIS = 1000"

definition msatFor :: "number \<Rightarrow> number \<Rightarrow> number \<Rightarrow> price_error + int" where
  "msatFor amountMinor priceMinorPerBtc spread =
     (case whole_number amountMinor of
        None \<Rightarrow> Inl BadAmountMinor
      | Some minor \<Rightarrow>
          if minor \<le> 0 then Inl BadAmountMinor
          else (case priceMinorPerBtc of
                  None \<Rightarrow> Inl BadPrice
                | Some price \<Rightarrow>
                    if price \<le> 0 then Inl BadPrice
                    else (case whole_number spread of
                            None \<Rightarrow> Inl BadSpread
                          | Some spreadBps \<Rightarrow>
                              if spreadBps < 0 then Inl BadSpread
                              else (let wanted = minor * MSAT_PER_BTC * (BASIS_POINTS + spreadBps);
                                        per = math_round price * BASIS_POINTS
                                    in if per = 0 then Inl DivisionByZero
                                       else (let amount = (wanted + per - 1) div per
                                             in if amount > MAX_SAFE_INTEGER then Inl MoreThanExists else Inr amount)))))"

text \<open>A fiat price; \<open>rate\<close> is what the ticker answers when the invoice is minted.\<close>

definition fiat :: "rounding \<Rightarrow> major \<Rightarrow> string \<Rightarrow> number \<Rightarrow> price_error + rat \<Rightarrow> price_error + int" where
  "fiat fl amount currency spread rate =
     and_then (minorFrom fl amount currency) (\<lambda>amountMinor.
     and_then rate (\<lambda>price.
     and_then (msatFor (Some (of_int amountMinor)) (Some price) spread) (\<lambda>wanted.
       sats (Some (of_int \<lceil>fl (of_int wanted / of_int MSAT_PER_SAT)\<rceil>)))))"

definition amountNow :: "price_error + rat \<Rightarrow> price_error + int" where
  "amountNow amount = and_then amount (\<lambda>q. msat (Some q))"

text \<open>\<^verbatim>\<open>asMinor\<close>: what a venue quotes, in minor units.\<close>

definition asMinor :: "rounding \<Rightarrow> json option \<Rightarrow> string \<Rightarrow> price_error + int" where
  "asMinor fl quoted currency =
     (case Option.bind quoted number_of_json of
        None \<Rightarrow> Inl BadPrice
      | Some major \<Rightarrow>
          if major \<le> 0 then Inl BadPrice
          else and_then (minorScaleOf currency) (\<lambda>scale. Inr (math_round (fl (major * of_int scale)))))"

definition spreadBpsOf :: "rounding \<Rightarrow> rat list \<Rightarrow> number" where
  "spreadBpsOf fl sorted_quotes =
     (let lowest = (case sorted_quotes of [] \<Rightarrow> 0 | q # _ \<Rightarrow> q);
          highest = (if sorted_quotes = [] then 0 else last sorted_quotes)
      in if lowest = 0 then None else Some (fl (fl (fl (highest - lowest) / lowest) * of_int BASIS_POINTS)))"

definition middleOf :: "rounding \<Rightarrow> rat list \<Rightarrow> rat" where
  "middleOf fl sorted_quotes =
     (let middle = length sorted_quotes div 2
      in if length sorted_quotes mod 2 = 1 then sorted_quotes ! middle
         else of_int (math_round (fl (fl (sorted_quotes ! (middle - 1) + sorted_quotes ! middle) / 2))))"

text \<open>
  The median of several venues with its memory of the last price per currency. The answers are what the
  venues said this time, \<^const>\<open>None\<close> for one that refused.
\<close>

record median =
  held_prices :: "(string \<times> int \<times> rat) list"
  min_venues :: nat
  max_spread :: rat
  hold_ms :: int

definition asking_venues :: "rounding \<Rightarrow> int \<Rightarrow> rat option list \<Rightarrow> string \<Rightarrow> median \<Rightarrow> (price_error + rat) \<times> median" where
  "asking_venues fl now answers asked m =
     (let quoted = sort (List.map_filter (\<lambda>a. a) answers)
      in if length quoted < min_venues m then (Inl (TooFewVenues (length quoted)), m)
         else if (case spreadBpsOf fl quoted of None \<Rightarrow> True | Some spread \<Rightarrow> spread > max_spread m) then (Inl VenuesDisagree, m)
         else (let price = middleOf fl quoted
               in (Inr price, m\<lparr>held_prices := AList.update asked (now, price) (held_prices m)\<rparr>)))"

definition medianOf :: "rounding \<Rightarrow> int \<Rightarrow> rat option list \<Rightarrow> string \<Rightarrow> median \<Rightarrow> (price_error + rat) \<times> median" where
  "medianOf fl now answers currency m =
     (let asked = upper currency
      in case map_of (held_prices m) asked of
           Some (asked_at, price) \<Rightarrow>
             if now - asked_at < hold_ms m then (Inr price, m) else asking_venues fl now answers asked m
         | None \<Rightarrow> asking_venues fl now answers asked m)"

subsection \<open>A price is never undercharged\<close>

text \<open>
  Binary floating point of 53 bits: monotone, within half a unit in the last place away from the ends of
  the exponent's range, exact on small halves.
\<close>

definition ieee :: "rounding \<Rightarrow> bool" where
  "ieee fl \<longleftrightarrow> mono fl \<and> (\<forall>x. 1 / 2 ^ 1000 \<le> \<bar>x\<bar> \<and> \<bar>x\<bar> \<le> 2 ^ 1000 \<longrightarrow> \<bar>fl x - x\<bar> \<le> \<bar>x\<bar> / 2 ^ 53) \<and>
     (\<forall>n :: int. \<bar>n\<bar> \<le> 2 ^ 53 \<longrightarrow> fl (of_int n) = of_int n \<and> fl (of_int n / 2) = of_int n / 2)"

lemma sats_ceiling:
  assumes "ieee fl" "0 < w" "w \<le> MAX_SAFE_INTEGER"
  shows "w \<le> \<lceil>fl (of_int w / 1000)\<rceil> * 1000" "\<lceil>fl (of_int w / 1000)\<rceil> * 1000 \<le> w + 1000"
proof -
  let ?x = "of_int w / 1000 :: rat" and ?r = "\<lceil>fl (of_int w / 1000)\<rceil>"
  have "w < 2 ^ 53" using assms(3) by (simp add: MAX_SAFE_INTEGER_def)
  then have small: "of_int w < (2 ^ 53 :: rat)" by (metis of_int_less_iff of_int_numeral of_int_power)
  have "(1 :: rat) \<le> of_int w" using assms(2) by simp
  then have "1 / 2 ^ 1000 \<le> \<bar>?x\<bar>" "\<bar>?x\<bar> \<le> 2 ^ 1000" using small by simp_all
  then have "\<bar>fl ?x - ?x\<bar> \<le> \<bar>?x\<bar> / 2 ^ 53" using assms(1) unfolding ieee_def by blast
  moreover note small
  then have "?x / 2 ^ 53 < 1 / 1000" by (simp add: field_simps)
  moreover have "\<bar>?x\<bar> = ?x" using assms(2) by simp
  ultimately have "\<bar>fl ?x - ?x\<bar> < 1 / 1000" by linarith
  then have near: "fl ?x > ?x - 1 / 1000" "fl ?x < ?x + 1 / 1000" by (simp_all only: abs_less_iff) linarith+
  have up: "fl ?x \<le> of_int ?r" "of_int ?r < fl ?x + 1" by linarith+
  have "?x - 1 / 1000 < of_int ?r" "of_int ?r < ?x + 1 / 1000 + 1" using near up by linarith+
  then have "(of_int (w - 1) :: rat) < of_int (?r * 1000)" "(of_int (?r * 1000) :: rat) < of_int (w + 1001)"
    by (simp_all add: field_simps)
  then show "w \<le> ?r * 1000" "?r * 1000 \<le> w + 1000" by linarith+
qed

lemma whole_number_of_int [simp]: "whole_number (Some (of_int n)) = Some n"
  by (simp add: whole_number_def)

lemma whole_number_of_nat [simp]: "whole_number (Some (of_nat n)) = Some (int n)"
  using whole_number_of_int [of "int n"] by simp

lemma whole_number_numeral [simp]: "whole_number (Some (numeral n)) = Some (numeral n)"
  by (simp add: whole_number_def)

lemma math_round_of_int [simp]: "math_round (of_int n) = n"
  by (simp add: math_round_def floor_eq_iff)

lemma math_round_numeral [simp]: "math_round (numeral n) = numeral n"
  using math_round_of_int [of "numeral n"] by simp

lemma msatFor_SomeD:
  assumes "msatFor amountMinor price spread = Inr amount"
  obtains minor q bps where "amountMinor = Some (of_int minor)" "price = Some q" "spread = Some (of_int bps)" "0 < minor" "0 < q"
    "0 \<le> bps" "0 < math_round q" "amount \<le> MAX_SAFE_INTEGER"
    "amount = (minor * MSAT_PER_BTC * (BASIS_POINTS + bps) + math_round q * BASIS_POINTS - 1) div (math_round q * BASIS_POINTS)"
proof -
  have whole: "x = Some (of_int n)" if "whole_number x = Some n" for x n
    using that by (auto simp: whole_number_def split: option.splits if_splits)
  obtain minor q bps where got: "whole_number amountMinor = Some minor" "price = Some q" "whole_number spread = Some bps"
    "0 < minor" "0 < q" "0 \<le> bps" "math_round q * BASIS_POINTS \<noteq> 0" "amount \<le> MAX_SAFE_INTEGER"
    "amount = (minor * MSAT_PER_BTC * (BASIS_POINTS + bps) + math_round q * BASIS_POINTS - 1) div (math_round q * BASIS_POINTS)"
    using assms by (auto simp: msatFor_def Let_def not_le split: option.splits if_splits)
  have "0 \<le> math_round q" using got(5) by (simp add: math_round_def)
  then have "0 < math_round q" using got(7) by auto
  with got that whole show ?thesis by blast
qed

lemma ceiling_div:
  assumes "(0 :: int) < per"
  shows "wanted \<le> (wanted + per - 1) div per * per" "((wanted + per - 1) div per - 1) * per < wanted"
proof -
  let ?q = "(wanted + per - 1) div per"
  have eq: "?q * per + (wanted + per - 1) mod per = wanted + per - 1" by (rule div_mult_mod_eq)
  have "0 \<le> (wanted + per - 1) mod per" "(wanted + per - 1) mod per < per" using assms by simp_all
  moreover have "(?q - 1) * per = ?q * per - per" by (simp add: left_diff_distrib)
  ultimately show "wanted \<le> ?q * per" "(?q - 1) * per < wanted" using eq by linarith+
qed

text \<open>
  C20: a fiat price is never undercharged, and overcharged by less than a satoshi and a rounding. Whatever
  the price in minor units, the rate and the spread, an amount that is charged is a whole number of
  satoshi that at the rate, rounded to whole minor units, is worth at least the price with its spread,
  and charging 1001 millisatoshi less would not be.
\<close>

theorem fiat_never_undercharges:
  assumes "ieee fl" "fiat fl amount currency spread (Inr price) = Inr charged"
  shows "\<exists>minor bps. minorFrom fl amount currency = Inr minor \<and> spread = Some (of_int bps) \<and> 0 < minor \<and> 0 \<le> bps \<and>
    1000 dvd charged \<and>
    minor * MSAT_PER_BTC * (BASIS_POINTS + bps) \<le> charged * math_round price * BASIS_POINTS \<and>
    (charged - 1001) * math_round price * BASIS_POINTS < minor * MSAT_PER_BTC * (BASIS_POINTS + bps)"
proof -
  obtain minor wanted where m: "minorFrom fl amount currency = Inr minor"
    and w: "msatFor (Some (of_int minor)) (Some price) spread = Inr wanted"
    and c: "sats (Some (of_int \<lceil>fl (of_int wanted / of_int MSAT_PER_SAT)\<rceil>)) = Inr charged"
    using assms(2) by (auto simp: fiat_def)
  obtain bps where bps: "spread = Some (of_int bps)" "0 < minor" "0 \<le> bps" "0 < math_round price" "wanted \<le> MAX_SAFE_INTEGER"
    and eq: "wanted = (minor * MSAT_PER_BTC * (BASIS_POINTS + bps) + math_round price * BASIS_POINTS - 1) div (math_round price * BASIS_POINTS)"
    using w by (rule msatFor_SomeD) simp
  define per where "per = math_round price * BASIS_POINTS"
  define total where "total = minor * MSAT_PER_BTC * (BASIS_POINTS + bps)"
  have per: "0 < per" using bps(4) by (simp add: per_def BASIS_POINTS_def)
  have exact: "total \<le> wanted * per" "(wanted - 1) * per < total"
    using ceiling_div [OF per, of total] by (simp_all add: eq per_def total_def)
  have "0 < total" using bps(2,3) by (simp add: total_def MSAT_PER_BTC_def BASIS_POINTS_def)
  then have "0 < wanted" using exact(1) per by (metis less_le_trans zero_less_mult_pos2)
  note near = sats_ceiling [OF assms(1) this bps(5)]
  have charged: "charged = \<lceil>fl (of_int wanted / 1000)\<rceil> * 1000"
    using c by (auto simp: sats_def whole_number_def MSAT_PER_SAT_def split: if_splits)
  have "total \<le> charged * per"
    using exact(1) near(1) per unfolding charged by (meson mult_right_mono less_imp_le order_trans)
  moreover have "(charged - 1001) * per < total"
  proof -
    have "charged - 1001 \<le> wanted - 1" using near(2) by (simp add: charged)
    then have "(charged - 1001) * per \<le> (wanted - 1) * per" using per by (intro mult_right_mono) simp_all
    then show ?thesis using exact(2) by simp
  qed
  ultimately have "total \<le> charged * per" "(charged - 1001) * per < total" by blast+
  then have "total \<le> charged * math_round price * BASIS_POINTS" "(charged - 1001) * math_round price * BASIS_POINTS < total"
    by (simp_all only: per_def mult.assoc)
  moreover have "1000 dvd charged" by (simp add: charged)
  ultimately show ?thesis using m bps(1-3) unfolding total_def by blast
qed

lemma fiat_never_undercharges_witness:
  "\<exists>minor. minorFrom id (MajorText ''480.55'') ''czk'' = Inr minor \<and> minor = 48055 \<and>
     minor * MSAT_PER_BTC * (BASIS_POINTS + 100) \<le> 35984000 * math_round (of_int 134883815) * BASIS_POINTS"
proof -
  have "ieee id" by (auto simp: ieee_def mono_def)
  have digits: "decimal_price (trim ''480.55'') = Some (''480'', ''55'')" "minorUnitsOf ''czk'' = Inr 2"
    by code_simp+
  have number: "number_of_digits ''48055'' = 48055" by (simp add: number_of_digits_def digit_value_def code_def)
  have minor: "minorFrom id (MajorText ''480.55'') ''czk'' = Inr 48055"
    using number by (simp add: digits payable_def MAX_SAFE_INTEGER_def)
  have wanted: "msatFor (Some (of_int 48055)) (Some (of_int 134883815)) (Some (of_int 100)) = Inr 35983228"
    unfolding msatFor_def whole_number_of_int math_round_of_int
    by (simp add: MSAT_PER_BTC_def BASIS_POINTS_def MAX_SAFE_INTEGER_def Let_def)
  have "\<lceil>of_int 35983228 / of_int MSAT_PER_SAT :: rat\<rceil> = 35984" by (simp add: ceiling_eq_iff MSAT_PER_SAT_def)
  then have "sats (Some (of_int \<lceil>id (of_int 35983228 / of_int MSAT_PER_SAT :: rat)\<rceil>)) = Inr 35984000"
    unfolding sats_def id_apply whole_number_of_int by (simp add: MAX_SATS_def MAX_SAFE_INTEGER_def MSAT_PER_SAT_def)
  then have "fiat id (MajorText ''480.55'') ''czk'' (Some (of_int 100)) (Inr (of_int 134883815)) = Inr 35984000"
    unfolding fiat_def minor by (simp only: and_then.simps wanted)
  from fiat_never_undercharges [OF \<open>ieee id\<close> this] show ?thesis
    by (simp only: minor sum.inject) auto
qed

subsection \<open>The middle of what the venues quote\<close>

lemma sorted_middle_bounds:
  assumes "sorted qs" "i < length qs"
  shows "hd qs \<le> qs ! i" "qs ! i \<le> last qs"
proof -
  have "qs \<noteq> []" using assms(2) by auto
  then show "hd qs \<le> qs ! i" using assms by (simp add: hd_conv_nth sorted_nth_mono)
  show "qs ! i \<le> last qs" using assms \<open>qs \<noteq> []\<close> by (simp add: last_conv_nth sorted_nth_mono)
qed

lemma math_round_half_bounds:
  assumes "a \<le> b"
  shows "a \<le> math_round (of_int (a + b) / 2)" "math_round (of_int (a + b) / 2) \<le> b"
proof -
  show "a \<le> math_round (of_int (a + b) / 2)"
    unfolding math_round_def using assms by (simp add: le_floor_iff field_simps)
  have "of_int (a + b) / 2 + 1 / 2 < (of_int (b + 1) :: rat)" if "a < b"
    using that by (simp add: field_simps)
  moreover have "math_round (of_int (a + b) / 2 :: rat) = b" if "a = b"
    using math_round_of_int [of b] that by simp
  ultimately show "math_round (of_int (a + b) / 2) \<le> b"
    using assms by (cases "a = b") (auto simp: math_round_def floor_le_iff)
qed

text \<open>A quote a venue can make here: a whole positive number of minor units that stays exact when two are added.\<close>

definition fair_quote :: "rat \<Rightarrow> bool" where
  "fair_quote q \<longleftrightarrow> (\<exists>n. q = of_int n \<and> 0 < n \<and> n \<le> 2 ^ 52)"

lemma middleOf_within:
  assumes "ieee fl" "sorted qs" "qs \<noteq> []" "\<forall>q\<in>set qs. fair_quote q"
  shows "hd qs \<le> middleOf fl qs \<and> middleOf fl qs \<le> last qs"
proof (cases "length qs mod 2 = 1")
  case True
  have "length qs div 2 < length qs" using assms(3) by simp
  then show ?thesis using sorted_middle_bounds [OF assms(2)] True by (simp add: middleOf_def Let_def)
next
  case False
  let ?i = "length qs div 2"
  have "2 \<le> length qs" using assms(3) False by (cases qs; cases "tl qs") auto
  then have i: "?i - 1 < length qs" "?i < length qs" "?i - 1 \<le> ?i" by auto
  then obtain a b where q: "qs ! (?i - 1) = of_int a" "qs ! ?i = of_int b" "0 < a" "0 < b" "a \<le> 2 ^ 52" "b \<le> 2 ^ 52"
    using assms(4) by (metis fair_quote_def nth_mem)
  have "(of_int a :: rat) \<le> of_int b" using sorted_nth_mono [OF assms(2) i(3,2)] q(1,2) by simp
  then have ab: "a \<le> b" by simp
  have "\<bar>a + b\<bar> \<le> 2 ^ 53" using q(3-6) by simp
  then have "fl (of_int a + of_int b) = of_int (a + b)" "fl (of_int (a + b) / 2) = of_int (a + b) / 2"
    using assms(1) unfolding ieee_def by (metis of_int_add, blast)
  then have mid: "middleOf fl qs = of_int (math_round (of_int (a + b) / 2))"
    unfolding middleOf_def Let_def q(1,2) using False by (simp only: if_False)
  have "(of_int a :: rat) \<le> middleOf fl qs" "middleOf fl qs \<le> of_int b"
    unfolding mid using math_round_half_bounds [OF ab] by simp_all
  then show ?thesis
    using sorted_middle_bounds [OF assms(2)] i q(1,2) by (metis order_trans)
qed

text \<open>
  A price is one the venues agree on. When the median of several venues answers a price it did not
  remember, at least the wanted number of venues quoted, the price lies between the lowest and the
  highest quote, these two are no further apart than allowed, and for the time it is held every later
  question about the currency, however it is written, answers that very price.
\<close>

theorem median_between_the_venues:
  assumes "ieee fl" "\<forall>q. Some q \<in> set answers \<longrightarrow> fair_quote q" "map_of (held_prices m) (upper currency) = None" "0 < min_venues m"
    and "medianOf fl now answers currency m = (Inr price, m')"
  shows "\<exists>lowest highest. Some lowest \<in> set answers \<and> Some highest \<in> set answers \<and>
    (\<forall>q. Some q \<in> set answers \<longrightarrow> lowest \<le> q \<and> q \<le> highest) \<and> lowest \<le> price \<and> price \<le> highest \<and>
    min_venues m \<le> length (filter (\<lambda>a. a \<noteq> None) answers) \<and>
    fl (fl (fl (highest - lowest) / lowest) * of_int BASIS_POINTS) \<le> max_spread m \<and>
    (\<forall>later answers' currency'. later - now < hold_ms m \<and> upper currency' = upper currency \<longrightarrow>
       medianOf fl later answers' currency' m' = (Inr price, m'))"
proof -
  define quoted where "quoted = sort (List.map_filter (\<lambda>a. a) answers)"
  have members: "q \<in> set quoted \<longleftrightarrow> Some q \<in> set answers" for q
    by (force simp: quoted_def map_filter_def image_iff)
  have count: "length quoted = length (filter (\<lambda>a. a \<noteq> None) answers)"
    by (simp add: quoted_def map_filter_def)
  have ran: "min_venues m \<le> length quoted" "price = middleOf fl quoted"
    "m' = m\<lparr>held_prices := AList.update (upper currency) (now, price) (held_prices m)\<rparr>"
    and spread: "\<exists>s. spreadBpsOf fl quoted = Some s \<and> s \<le> max_spread m"
    using assms(3,5)
    by (auto simp: medianOf_def asking_venues_def quoted_def Let_def not_less split: if_splits option.splits)
  have "quoted \<noteq> []" using ran(1) assms(4) by auto
  have "sorted quoted" by (simp add: quoted_def)
  have fair: "\<forall>q\<in>set quoted. fair_quote q" using assms(2) members by blast
  have ends: "hd quoted \<in> set quoted" "last quoted \<in> set quoted" using \<open>quoted \<noteq> []\<close> by simp_all
  have all: "hd quoted \<le> q \<and> q \<le> last quoted" if "q \<in> set quoted" for q
    using sorted_middle_bounds [OF \<open>sorted quoted\<close>] that by (metis in_set_conv_nth)
  have "fl (fl (fl (last quoted - hd quoted) / hd quoted) * of_int BASIS_POINTS) \<le> max_spread m"
    using spread \<open>quoted \<noteq> []\<close> by (cases quoted) (auto simp: spreadBpsOf_def split: if_splits)
  moreover have "medianOf fl later answers' currency' m' = (Inr price, m')"
    if "later - now < hold_ms m" "upper currency' = upper currency" for later answers' currency'
    using that by (simp add: medianOf_def Let_def ran(3) update_conv')
  moreover have "hd quoted \<le> price" "price \<le> last quoted"
    using middleOf_within [OF assms(1) \<open>sorted quoted\<close> \<open>quoted \<noteq> []\<close> fair] ran(2) by simp_all
  ultimately show ?thesis
    using ends all members count ran(1) by (metis (no_types, lifting))
qed

lemma median_between_the_venues_witness:
  "\<exists>lowest highest. Some lowest \<in> set [Some 101, None, Some 100] \<and> Some highest \<in> set [Some 101, None, Some (100 :: rat)] \<and>
     lowest \<le> (101 :: rat) \<and> 101 \<le> highest"
proof -
  let ?m = "\<lparr>held_prices = [], min_venues = 2, max_spread = 200, hold_ms = 60000\<rparr>"
  have ieee: "ieee id" by (auto simp: ieee_def mono_def)
  have fair: "fair_quote 101" "fair_quote 100"
    by (auto simp: fair_quote_def intro: exI [of _ 101] exI [of _ 100])
  have "math_round (201 / 2) = 101" by (simp add: math_round_def floor_eq_iff)
  then have "medianOf id 5 [Some 101, None, Some 100] ''czk'' ?m =
      (Inr 101, ?m\<lparr>held_prices := [(upper ''czk'', 5, 101)]\<rparr>)"
    by (simp add: medianOf_def asking_venues_def Let_def map_filter_simps spreadBpsOf_def middleOf_def BASIS_POINTS_def)
  from median_between_the_venues [OF ieee _ _ _ this] fair show ?thesis by fastforce
qed

end
