(* ===== verification/ClientWire.thy ===== *)
theory ClientWire
  imports Wire Prices
begin

text \<open>
  \<^verbatim>\<open>sdk/src/types.ts\<close>, \<^verbatim>\<open>sdk/src/charge.ts\<close> and \<^verbatim>\<open>sdk/src/wire.ts\<close>: what the client library
  sends a gateway and what it takes of the answers. The readers are total: a body is a parsed JSON value
  and a record that does not fit is \<^const>\<open>None\<close>. The lemmas put the two ends of the wire together: the
  client reads every payment the gateway writes as the payment it is, and the gateway reads every
  request the client writes as what was asked.
\<close>

subsection \<open>Types\<close>

record reported =
  rep_id :: string
  rep_status :: status
  rep_hash :: string
  rep_verifyUrl :: string
  rep_preimage :: "string option"
  rep_expiresAt :: int
  rep_createdAt :: int
  rep_sealed :: "string option"

text \<open>What a payment the gateway minted carries besides; a watched one carries none of the three.\<close>

record minted = reported +
  mint_address :: string
  mint_amountMsat :: int
  mint_bolt11 :: string

datatype client_payment = MintedPayment minted | WatchedPayment reported

fun reported_of :: "client_payment \<Rightarrow> reported" where
  "reported_of (MintedPayment m) = reported.truncate m"
| "reported_of (WatchedPayment r) = r"

record held = held_id :: string held_hash :: string

record priced = priced_to :: "string list" priced_msat :: int

record handover =
  hand_paymentHash :: string
  hand_verifyUrl :: string
  hand_expiresAt :: int
  hand_trigger :: "string option"
  hand_replay :: "int option"
  hand_sealed :: "string option"
  hand_webhookUrl :: "string option"

record quote_offer =
  offer_address :: string
  offer_amountMsat :: int
  offer_feeMsat :: int
  offer_minMsat :: int
  offer_maxMsat :: int
  offer_metadata :: string
  offer_refusals :: "walletFailure list"

record socketTicket = sock_ticket :: string sock_expiresAt :: int

record client_settlement =
  del_id :: string
  del_status :: status
  del_hash :: string
  del_preimage :: "string option"
  del_settledAt :: int

text \<open>Whom a charge names: one address or a list, and the amount, a number or a function that is asked.\<close>

datatype paid_to = OneAddress string | Addresses "string list"

fun addresses_of :: "paid_to \<Rightarrow> string list" where
  "addresses_of (OneAddress a) = [a]"
| "addresses_of (Addresses as) = as"

datatype charge_error = NoAddress | Amount_Refused price_error

definition price_charge :: "paid_to \<Rightarrow> price_error + rat \<Rightarrow> charge_error + priced" where
  "price_charge to amount =
     (if addresses_of to = [] then Inl NoAddress
      else (case amountNow amount of
              Inl e \<Rightarrow> Inl (Amount_Refused e)
            | Inr asked \<Rightarrow> Inr \<lparr>priced_to = addresses_of to, priced_msat = asked\<rparr>))"

subsection \<open>What is sent\<close>

text \<open>\<^verbatim>\<open>JSON.stringify\<close> leaves out the members that are \<^verbatim>\<open>undefined\<close>.\<close>

definition present :: "(string \<times> json option) list \<Rightarrow> (string \<times> json) list" where
  "present ms = List.map_filter (\<lambda>(k, v). map_option (Pair k) v) ms"

text \<open>\<^verbatim>\<open>text ? ... : ...\<close>: no text and the empty text are false.\<close>

definition truthy :: "string option \<Rightarrow> string option" where
  "truthy s = (if s = Some [] then None else s)"

definition hook_member :: "string option \<Rightarrow> json option" where
  "hook_member url = map_option (\<lambda>u. JObj [(''url'', JStr u)]) (truthy url)"

definition create_json :: "priced \<Rightarrow> string option \<Rightarrow> string option \<Rightarrow> int option \<Rightarrow> json" where
  "create_json asked webhookUrl trig keep =
     JObj (present
       [(''ln_addresses'', Some (JArr (map JStr (priced_to asked)))),
        (''incoming_amount'', Some (amount_of_msat (priced_msat asked))),
        (''webhook'', hook_member webhookUrl),
        (''trigger'', map_option JStr trig),
        (''replay'', map_option JNum keep)])"

definition createRequestBody :: "priced \<Rightarrow> string option \<Rightarrow> string option \<Rightarrow> int option \<Rightarrow> string" where
  "createRequestBody asked webhookUrl trig keep = stringify (create_json asked webhookUrl trig keep)"

definition quote_json :: "priced \<Rightarrow> json" where
  "quote_json asked =
     JObj [(''ln_addresses'', JArr (map JStr (priced_to asked))), (''amount'', amount_of_msat (priced_msat asked))]"

definition quoteRequestBody :: "priced \<Rightarrow> string" where
  "quoteRequestBody asked = stringify (quote_json asked)"

text \<open>\<^verbatim>\<open>new Date(ms)\<close> holds a time of at most \<open>8.64e15\<close> milliseconds from 1970.\<close>

definition MAX_TIME :: int where "MAX_TIME = 8640000000000000"

definition usable_time :: "int \<Rightarrow> bool" where
  "usable_time unixSeconds \<longleftrightarrow> \<bar>unixSeconds * 1000\<bar> \<le> MAX_TIME"

definition watch_json :: "handover \<Rightarrow> string option \<Rightarrow> json" where
  "watch_json h trig =
     JObj (present
       [(''payment_hash'', Some (JStr (hand_paymentHash h))),
        (''verify_url'', Some (JStr (hand_verifyUrl h))),
        (''expires_at'', Some (JStr (toTimestamp (hand_expiresAt h)))),
        (''trigger'', map_option JStr trig),
        (''replay'', map_option JNum (hand_replay h)),
        (''sealed'', map_option JStr (hand_sealed h)),
        (''webhook'', hook_member (hand_webhookUrl h))])"

text \<open>\<^const>\<open>None\<close> is the \<^verbatim>\<open>TypeError\<close> over a time that is none.\<close>

definition watchRequestBody :: "handover \<Rightarrow> string option \<Rightarrow> string option" where
  "watchRequestBody h trig = (if usable_time (hand_expiresAt h) then Some (stringify (watch_json h trig)) else None)"

subsection \<open>What is taken of an answer\<close>

fun wire_object :: "json option \<Rightarrow> (string \<times> json) list option" where
  "wire_object (Some (JObj ms)) = Some ms"
| "wire_object _ = None"

text \<open>\<^verbatim>\<open>value ?? null\<close> with nothing but a text allowed: \<^const>\<open>None\<close> is a record that is refused.\<close>

definition text_or_null :: "json option \<Rightarrow> string option option" where
  "text_or_null v = (if missing v then Some None else map_option Some (json_string v))"

definition msatFrom :: "json option \<Rightarrow> int \<Rightarrow> int option" where
  "msatFrom value least =
     (case wire_object value of
        None \<Rightarrow> None
      | Some amount \<Rightarrow>
          if field amount ''asset_code'' \<noteq> Some (JStr ASSET_CODE) \<or> field amount ''asset_scale'' \<noteq> Some (JNum ASSET_SCALE) then None
          else (case json_string (field amount ''value'') of
                  None \<Rightarrow> None
                | Some digits \<Rightarrow>
                    if \<not> is_decimal digits then None
                    else (let count = int (number_of_digits digits)
                          in if count \<le> MAX_SAFE_INTEGER \<and> count \<ge> least then Some count else None)))"

definition secondsFrom :: "(string \<Rightarrow> int option) \<Rightarrow> json option \<Rightarrow> int option" where
  "secondsFrom date_parse value =
     (case json_string value of None \<Rightarrow> None | Some t \<Rightarrow> map_option (\<lambda>milliseconds. milliseconds div 1000) (date_parse t))"

definition wire_status :: "json option \<Rightarrow> status option" where
  "wire_status value = Option.bind (json_string value) status_of"

definition REASONS :: "walletReason list" where
  "REASONS = [AddressUnusable, Unreachable, AmountNotAccepted, CannotProveDelivery, InvoiceRefused]"

definition reason_named :: "string \<Rightarrow> walletReason option" where
  "reason_named s = find (\<lambda>r. reason_text r = s) REASONS"

fun refusalsFrom_entries :: "json list \<Rightarrow> walletFailure list option" where
  "refusalsFrom_entries [] = Some []"
| "refusalsFrom_entries (entry # rest) =
     (case wire_object (Some entry) of
        None \<Rightarrow> None
      | Some failure \<Rightarrow>
          (case (json_string (field failure ''address''), Option.bind (json_string (field failure ''reason'')) reason_named) of
             (Some address, Some reason) \<Rightarrow>
               map_option (\<lambda>more. \<lparr>failed_address = address, failed_reason = reason\<rparr> # more) (refusalsFrom_entries rest)
           | _ \<Rightarrow> None))"

fun refusalsFrom :: "json option \<Rightarrow> walletFailure list option" where
  "refusalsFrom (Some (JArr entries)) = refusalsFrom_entries entries"
| "refusalsFrom _ = None"

definition quoteFromWire :: "json \<Rightarrow> quote_offer option" where
  "quoteFromWire body =
     (case wire_object (Some body) of
        None \<Rightarrow> None
      | Some wire \<Rightarrow>
          (case (json_string (field wire ''ln_address''), msatFrom (field wire ''amount'') 1, msatFrom (field wire ''fee'') 0) of
             (Some address, Some amount, Some fee) \<Rightarrow>
               (case (msatFrom (field wire ''min_amount'') 0, msatFrom (field wire ''max_amount'') 0,
                      json_string (field wire ''metadata''), refusalsFrom (field wire ''refusals'')) of
                  (Some least, Some most, Some metadata, Some refusals) \<Rightarrow>
                    Some \<lparr>offer_address = address, offer_amountMsat = amount, offer_feeMsat = fee, offer_minMsat = least,
                          offer_maxMsat = most, offer_metadata = metadata, offer_refusals = refusals\<rparr>
                | _ \<Rightarrow> None)
           | _ \<Rightarrow> None))"

definition reportedFrom :: "(string \<Rightarrow> int option) \<Rightarrow> (string \<times> json) list \<Rightarrow> reported option" where
  "reportedFrom date_parse wire =
     (case (json_string (field wire ''id''), json_string (field wire ''payment_hash''), json_string (field wire ''verify_url'')) of
        (Some i, Some hash, Some verify) \<Rightarrow>
          (case (secondsFrom date_parse (field wire ''expires_at''), secondsFrom date_parse (field wire ''created_at''),
                 wire_status (field wire ''status'')) of
             (Some expires, Some created, Some st) \<Rightarrow>
               (case (text_or_null (field wire ''preimage''), text_or_null (field wire ''sealed'')) of
                  (Some secret, Some blob) \<Rightarrow>
                    Some \<lparr>rep_id = i, rep_status = st, rep_hash = hash, rep_verifyUrl = verify, rep_preimage = secret,
                          rep_expiresAt = expires, rep_createdAt = created, rep_sealed = blob\<rparr>
                | _ \<Rightarrow> None)
           | _ \<Rightarrow> None)
      | _ \<Rightarrow> None)"

definition minted_of :: "reported \<Rightarrow> string \<Rightarrow> int \<Rightarrow> string \<Rightarrow> minted" where
  "minted_of r address amount invoice =
     reported.extend r \<lparr>mint_address = address, mint_amountMsat = amount, mint_bolt11 = invoice\<rparr>"

definition paymentFromWire :: "(string \<Rightarrow> int option) \<Rightarrow> json \<Rightarrow> client_payment option" where
  "paymentFromWire date_parse body =
     (case wire_object (Some body) of
        None \<Rightarrow> None
      | Some wire \<Rightarrow>
          (case reportedFrom date_parse wire of
             None \<Rightarrow> None
           | Some r \<Rightarrow>
               (case (json_string (field wire ''ln_address''),
                      (if field wire ''incoming_amount'' = None then None else msatFrom (field wire ''incoming_amount'') 1),
                      json_string (field wire ''bolt11'')) of
                  (Some address, Some amount, Some invoice) \<Rightarrow> Some (MintedPayment (minted_of r address amount invoice))
                | (None, None, None) \<Rightarrow> Some (WatchedPayment r)
                | _ \<Rightarrow> None)))"

definition mintedFromWire :: "(string \<Rightarrow> int option) \<Rightarrow> json \<Rightarrow> minted option" where
  "mintedFromWire date_parse body =
     (case paymentFromWire date_parse body of Some (MintedPayment m) \<Rightarrow> Some m | _ \<Rightarrow> None)"

definition settlementFromWire :: "(string \<Rightarrow> int option) \<Rightarrow> json \<Rightarrow> client_settlement option" where
  "settlementFromWire date_parse body =
     (case wire_object (Some body) of
        None \<Rightarrow> None
      | Some wire \<Rightarrow>
          (case (json_string (field wire ''id''), json_string (field wire ''payment_hash''),
                 secondsFrom date_parse (field wire ''settled_at''), wire_status (field wire ''status''),
                 text_or_null (field wire ''preimage'')) of
             (Some i, Some hash, Some settled, Some st, Some secret) \<Rightarrow>
               Some \<lparr>del_id = i, del_status = st, del_hash = hash, del_preimage = secret, del_settledAt = settled\<rparr>
           | _ \<Rightarrow> None))"

definition socketTicketFromWire :: "(string \<Rightarrow> int option) \<Rightarrow> json \<Rightarrow> socketTicket option" where
  "socketTicketFromWire date_parse body =
     (case wire_object (Some body) of
        None \<Rightarrow> None
      | Some wire \<Rightarrow>
          (case (json_string (field wire ''ticket''), secondsFrom date_parse (field wire ''expires_at'')) of
             (Some t, Some expires) \<Rightarrow> Some \<lparr>sock_ticket = t, sock_expiresAt = expires\<rparr>
           | _ \<Rightarrow> None))"

subsection \<open>The client reads what the gateway writes\<close>

lemma json_string_iff [simp]: "json_string v = Some s \<longleftrightarrow> v = Some (JStr s)"
  by (cases v; cases "the v") auto

lemma reason_named_text [simp]: "reason_named (reason_text r) = Some r"
  by (cases r) (simp_all add: reason_named_def REASONS_def)

lemma refusalsFrom_written [simp]: "refusalsFrom (Some (JArr (map failure_json fs))) = Some fs"
  by (induction fs) (simp_all add: failure_json_def)

lemma number_of_digits_show_int: "0 \<le> n \<Longrightarrow> int (number_of_digits (show_int n)) = n \<and> is_decimal (show_int n)"
  by (simp add: show_int_def number_of_show_nat is_decimal_show_nat)

lemma msatFrom_written [simp]:
  "0 \<le> n \<Longrightarrow> msatFrom (Some (amount_of_msat n)) least = (if n \<le> MAX_SAFE_INTEGER \<and> least \<le> n then Some n else None)"
  by (simp add: msatFrom_def amount_of_msat_def toAmount_def number_of_digits_show_int)

lemma text_or_null_nullable [simp]: "text_or_null (Some (nullable JStr v)) = Some v"
  by (cases v) (simp_all add: text_or_null_def nullable_def missing_def)

lemma wire_status_text [simp]: "wire_status (Some (JStr (status_text st))) = Some st"
  by (simp add: wire_status_def)

lemma field_present [simp]:
  "field (present []) k = None"
  "field (present ((k', v) # ms)) k = (if k' = k \<and> v \<noteq> None then v else field (present ms) k)"
  by (auto simp: present_def List.map_filter_def)

lemma field_present_fixed:
  "k \<notin> fst ` set ms \<Longrightarrow> field (present ((k, v) # ms)) k = v"
  "k' \<noteq> k \<Longrightarrow> field (present ((k', v) # ms)) k = field (present ms) k"
proof -
  have "field (present ms) k = None" if "k \<notin> fst ` set ms"
    using that by (induction ms) auto
  then show "k \<notin> fst ` set ms \<Longrightarrow> field (present ((k, v) # ms)) k = v" by (cases v) simp_all
qed simp

lemma set_present: "(k, j) \<in> set (present ms) \<longleftrightarrow> (k, Some j) \<in> set ms"
  by (induction ms) (auto simp: present_def List.map_filter_def)

lemma json_plain_present:
  assumes "distinct (map fst ms)" "\<And>k j. (k, Some j) \<in> set ms \<Longrightarrow> json_plain j"
  shows "json_plain (JObj (present ms))"
proof -
  have "distinct (map fst (present ms))"
    using assms(1) by (induction ms) (force simp: present_def List.map_filter_def)+
  moreover have "list_all (\<lambda>(k, v). json_plain v) (present ms)"
    using assms(2) set_present by (fastforce simp: list_all_iff)
  ultimately show ?thesis by simp
qed

text \<open>The view a client has of a payment: what the wire shows of it.\<close>

definition seen_report :: "'a public_payment_scheme \<Rightarrow> reported" where
  "seen_report p =
     \<lparr>rep_id = pay_id p, rep_status = pay_status p, rep_hash = paymentHash p, rep_verifyUrl = verifyUrl p,
      rep_preimage = preimage p, rep_expiresAt = expiresAt p, rep_createdAt = createdAt p, rep_sealed = sealed p\<rparr>"

definition seen_payment :: "'a public_payment_scheme \<Rightarrow> client_payment" where
  "seen_payment p =
     (case (lnAddress p, amountMsat p, bolt11 p) of
        (Some a, Some m, Some b) \<Rightarrow> MintedPayment (minted_of (seen_report p) a m b)
      | _ \<Rightarrow> WatchedPayment (seen_report p))"

text \<open>What the gateway writes: the address, the amount and the invoice together or none of them.\<close>

definition whole_payment :: "'a public_payment_scheme \<Rightarrow> bool" where
  "whole_payment p \<longleftrightarrow>
     (lnAddress p = None \<longleftrightarrow> amountMsat p = None) \<and> (bolt11 p = None \<longleftrightarrow> amountMsat p = None) \<and>
     (case amountMsat p of None \<Rightarrow> True | Some m \<Rightarrow> 1 \<le> m \<and> m \<le> MAX_SAFE_INTEGER)"

definition reads_time :: "(string \<Rightarrow> int option) \<Rightarrow> int \<Rightarrow> bool" where
  "reads_time date_parse t \<longleftrightarrow> date_parse (toTimestamp t) = Some (t * 1000)"

lemma secondsFrom_written [simp]: "reads_time date_parse t \<Longrightarrow> secondsFrom date_parse (Some (JStr (toTimestamp t))) = Some t"
  by (simp add: secondsFrom_def reads_time_def)

lemma json_plain_paymentToWire [simp]: "json_plain (JObj (paymentToWire p))"
  by (auto simp: paymentToWire_def amount_of_msat_def toAmount_def split: option.split)

lemma json_plain_deliveryToWire [simp]: "json_plain (JObj (deliveryToWire p t))"
  by (simp add: deliveryToWire_def)

lemma paymentFromWire_written:
  assumes "reads_time date_parse (expiresAt p)" "reads_time date_parse (createdAt p)" "whole_payment p"
  shows "paymentFromWire date_parse (JObj (paymentToWire p)) = Some (seen_payment p)"
proof -
  have "text_or_null (map_option JStr (sealed p)) = Some (sealed p)"
    by (cases "sealed p") (simp_all add: text_or_null_def missing_def)
  moreover have "(case sealed p of None \<Rightarrow> [] | Some s \<Rightarrow> [(''sealed'', JStr s)]) =
      (case map_option JStr (sealed p) of None \<Rightarrow> [] | Some j \<Rightarrow> [(''sealed'', j)])"
    by (cases "sealed p") simp_all
  ultimately have "reportedFrom date_parse (paymentToWire p) = Some (seen_report p)"
    using assms(1,2)
    by (cases "lnAddress p"; cases "amountMsat p"; cases "bolt11 p"; cases "sealed p")
      (simp_all add: reportedFrom_def paymentToWire_def seen_report_def)
  moreover have "json_string (field (paymentToWire p) ''ln_address'') = lnAddress p"
    "json_string (field (paymentToWire p) ''bolt11'') = bolt11 p"
    "field (paymentToWire p) ''incoming_amount'' = map_option amount_of_msat (amountMsat p)"
    by (cases "lnAddress p"; cases "amountMsat p"; cases "bolt11 p"; cases "sealed p"; simp add: paymentToWire_def)+
  ultimately show ?thesis
    using assms(3)
    by (cases "lnAddress p"; cases "amountMsat p"; cases "bolt11 p")
      (simp_all add: paymentFromWire_def seen_payment_def whole_payment_def)
qed

lemma settlementFromWire_written:
  assumes "reads_time date_parse settledAt"
  shows "settlementFromWire date_parse (JObj (deliveryToWire p settledAt)) =
      Some \<lparr>del_id = pay_id p, del_status = pay_status p, del_hash = paymentHash p, del_preimage = preimage p,
        del_settledAt = settledAt\<rparr>"
  using assms by (simp add: settlementFromWire_def deliveryToWire_def)

text \<open>
  C26: the client reads what the gateway writes. The text of a payment, minted or watched, parses to a body
  the client takes as exactly that payment, and the text of a delivery to one it takes as exactly that
  settlement; only the record that is left of a payment after it was swept, which the gateway still
  shows under its id, is none the client reads.
\<close>

theorem client_reads_gateway:
  fixes p :: "'a public_payment_scheme"
  assumes "reads_time date_parse (expiresAt p)" "reads_time date_parse (createdAt p)" "reads_time date_parse settledAt"
    and "whole_payment p"
  shows "Option.bind (parse_json (stringify (JObj (paymentToWire p)))) (paymentFromWire date_parse) = Some (seen_payment p) \<and>
    Option.bind (parse_json (stringify (JObj (deliveryToWire p settledAt)))) (settlementFromWire date_parse) =
      Some \<lparr>del_id = pay_id p, del_status = pay_status p, del_hash = paymentHash p, del_preimage = preimage p,
        del_settledAt = settledAt\<rparr> \<and>
    paymentFromWire date_parse (JObj (keptToWire k)) = None"
proof -
  have "paymentFromWire date_parse (JObj (keptToWire k)) = None"
    by (simp add: paymentFromWire_def reportedFrom_def keptToWire_def split: option.split)
  moreover note settlementFromWire_written [OF assms(3), of p]
  ultimately show ?thesis
    using paymentFromWire_written [OF assms(1,2,4)]
    by (simp add: parse_stringify [OF json_plain_paymentToWire] parse_stringify [OF json_plain_deliveryToWire] del: stringify.simps)
qed

subsection \<open>The gateway reads what the client writes\<close>

definition asked_watch :: "handover \<Rightarrow> string option \<Rightarrow> watchRequest" where
  "asked_watch h trig =
     \<lparr>watch_paymentHash = hand_paymentHash h, watch_verifyUrl = hand_verifyUrl h, watch_expiresAt = hand_expiresAt h,
      watch_trigger = trig, watch_replay = (case hand_replay h of None \<Rightarrow> 0 | Some n \<Rightarrow> n),
      watch_sealed = hand_sealed h, watch_webhook = truthy (hand_webhookUrl h)\<rparr>"

definition asked_create :: "priced \<Rightarrow> string option \<Rightarrow> string option \<Rightarrow> int option \<Rightarrow> createRequest" where
  "asked_create asked webhookUrl trig keep =
     \<lparr>create_addresses = priced_to asked, create_amountMsat = priced_msat asked, create_webhook = truthy webhookUrl,
      create_trigger = trig, create_replay = (case keep of None \<Rightarrow> 0 | Some n \<Rightarrow> n)\<rparr>"

definition create_ok :: "url_parser \<Rightarrow> createRequest \<Rightarrow> bool" where
  "create_ok parse r \<longleftrightarrow>
     create_addresses r \<noteq> [] \<and> length (create_addresses r) \<le> MAX_ADDRESSES \<and>
     list_all (\<lambda>one. length one \<le> MAX_ADDRESS_CHARS) (create_addresses r) \<and>
     domainAskedTooOften (create_addresses r) = None \<and>
     1 \<le> create_amountMsat r \<and> create_amountMsat r \<le> MAX_SAFE_INTEGER \<and>
     webhook_ok parse (create_webhook r) \<and>
     (case create_trigger r of None \<Rightarrow> True | Some t \<Rightarrow> is_hash32 t) \<and>
     0 \<le> create_replay r \<and> (create_trigger r = None \<longrightarrow> create_replay r = 0)"

lemma string_items_map [simp]: "string_items (map JStr ss) = Some ss"
  by (induction ss) simp_all

lemma readTrigger_present [simp]:
  "(case t of None \<Rightarrow> True | Some s \<Rightarrow> is_hash32 s) \<Longrightarrow> readTrigger (map_option JStr t) = Inr t"
  by (cases t) (simp_all add: readTrigger_def missing_def)

lemma readSealed_present [simp]:
  "(case b of None \<Rightarrow> True | Some s \<Rightarrow> length s \<le> MAX_SEALED_CHARS) \<Longrightarrow> readSealed (map_option JStr b) = Inr b"
  by (cases b) (simp_all add: readSealed_def missing_def)

lemma readReplay_present [simp]:
  "0 \<le> (case n of None \<Rightarrow> 0 | Some n \<Rightarrow> n) \<Longrightarrow> (t = None \<Longrightarrow> (case n of None \<Rightarrow> 0 | Some n \<Rightarrow> n) = 0) \<Longrightarrow>
   readReplay (map_option JNum n) (map_option JStr t) = Inr (case n of None \<Rightarrow> 0 | Some n \<Rightarrow> n)"
  by (cases n; cases t) (simp_all add: readReplay_def missing_def)

lemma readWebhook_present [simp]:
  "webhook_ok parse (truthy url) \<Longrightarrow> readWebhook parse (hook_member url) = Inr (truthy url)"
  by (cases "truthy url") (simp_all add: readWebhook_def hook_member_def webhook_ok_def missing_def)

lemma readAmount_written [simp]:
  "1 \<le> n \<Longrightarrow> n \<le> MAX_SAFE_INTEGER \<Longrightarrow> readAmount (Some (amount_of_msat n)) name = Inr n"
  using number_of_digits_show_int [of n] by (simp add: readAmount_def amount_of_msat_def toAmount_def)

lemma readAddresses_written [simp]:
  "as \<noteq> [] \<Longrightarrow> length as \<le> MAX_ADDRESSES \<Longrightarrow> list_all (\<lambda>one. length one \<le> MAX_ADDRESS_CHARS) as \<Longrightarrow>
   domainAskedTooOften as = None \<Longrightarrow> readAddresses (Some (JArr (map JStr as))) = Inr as"
  by (simp add: readAddresses_def list_ex_iff list_all_iff not_less)

lemma field_present_id [simp]:
  "(if v \<noteq> None then v else None) = (v :: json option)" "map_option JStr t = None \<longleftrightarrow> t = None"
  by simp_all

lemma some_map_option: "Some y = map_option f v \<longleftrightarrow> (\<exists>x. v = Some x \<and> f x = y)"
  by (cases v) auto

lemma json_plain_hook: "hook_member url = Some j \<Longrightarrow> json_plain j"
  by (auto simp: hook_member_def)

lemma json_plain_watch: "json_plain (watch_json h trig)"
  unfolding watch_json_def by (rule json_plain_present) (auto simp: some_map_option intro: json_plain_hook)

lemma json_plain_create: "json_plain (create_json asked webhookUrl trig keep)"
  unfolding create_json_def
  by (rule json_plain_present) (auto simp: amount_of_msat_def toAmount_def list_all_iff some_map_option intro: json_plain_hook)

lemma readWatchRequest_sent:
  assumes "reads_time date_parse (hand_expiresAt h)" "watch_ok parse (asked_watch h trig)"
  shows "readWatchRequest parse date_parse (watch_json h trig) = Inr (asked_watch h trig)"
proof -
  have hash: "readHash (Some (JStr (hand_paymentHash h))) = Inr (hand_paymentHash h)"
    and url: "watchable parse (hand_verifyUrl h)"
    and until: "readExpiry date_parse (Some (JStr (toTimestamp (hand_expiresAt h)))) = Inr (hand_expiresAt h)"
    using assms by (simp_all add: readHash_def readExpiry_def watch_ok_def asked_watch_def reads_time_def)
  have rest: "readTrigger (map_option JStr trig) = Inr trig"
    "readReplay (map_option JNum (hand_replay h)) (map_option JStr trig) = Inr (watch_replay (asked_watch h trig))"
    "readSealed (map_option JStr (hand_sealed h)) = Inr (hand_sealed h)"
    "readWebhook parse (hook_member (hand_webhookUrl h)) = Inr (truthy (hand_webhookUrl h))"
    using assms(2) by (simp_all add: watch_ok_def asked_watch_def)
  show ?thesis
    unfolding readWatchRequest_def watch_json_def
    using url hash until rest by (simp add: asked_watch_def field_present_fixed del: field_present)
qed

lemma readCreateRequest_sent:
  assumes "create_ok parse (asked_create asked webhookUrl trig keep)"
  shows "readCreateRequest parse (create_json asked webhookUrl trig keep) = Inr (asked_create asked webhookUrl trig keep)"
proof -
  have parts: "readAddresses (Some (JArr (map JStr (priced_to asked)))) = Inr (priced_to asked)"
    "readAmount (Some (amount_of_msat (priced_msat asked))) ''incoming_amount'' = Inr (priced_msat asked)"
    "readTrigger (map_option JStr trig) = Inr trig"
    "readReplay (map_option JNum keep) (map_option JStr trig) = Inr (create_replay (asked_create asked webhookUrl trig keep))"
    "readWebhook parse (hook_member webhookUrl) = Inr (truthy webhookUrl)"
    using assms by (simp_all add: create_ok_def asked_create_def)
  show ?thesis
    unfolding readCreateRequest_def create_json_def
    using parts by (simp add: asked_create_def field_present_fixed del: field_present)
qed

text \<open>
  C27: the gateway reads what the client writes. A handover whose time a date can hold becomes a body whose
  text the watch endpoint reads as exactly what was handed over, and a charge a body the mint endpoint
  reads as exactly what was asked, whenever what is asked is something the endpoint takes at all; a
  webhook named by the empty text is none.
\<close>

theorem gateway_reads_client:
  assumes "reads_time date_parse (hand_expiresAt h)"
  shows "(usable_time (hand_expiresAt h) \<and> watch_ok parse (asked_watch h trig) \<longrightarrow>
      (\<exists>text body. watchRequestBody h trig = Some text \<and> parse_json text = Some body \<and>
         readWatchRequest parse date_parse body = Inr (asked_watch h trig))) \<and>
    (create_ok parse (asked_create asked webhookUrl trig keep) \<longrightarrow>
      (\<exists>body. parse_json (createRequestBody asked webhookUrl trig keep) = Some body \<and>
         readCreateRequest parse body = Inr (asked_create asked webhookUrl trig keep)))"
  using readWatchRequest_sent [OF assms] readCreateRequest_sent parse_stringify [OF json_plain_watch]
    parse_stringify [OF json_plain_create]
  by (auto simp: watchRequestBody_def createRequestBody_def simp del: stringify.simps)

text \<open>A payment and a handover to apply the two theorems to, with a clock that reads one time.\<close>

definition sold :: public_payment where
  "sold =
     \<lparr>pay_id = ''p-1'', lnAddress = Some ''shop@pay.example'', amountMsat = Some 21000, pay_status = Paid,
      paymentHash = ''ab'', bolt11 = Some ''lnbc1'', preimage = Some ''cd'', expiresAt = 1700000000, createdAt = 1700000000,
      verifyUrl = ''https://pay.example/v'', trigger = None, replay = 0, sealed = None, caller = None\<rparr>"

definition one_clock :: "string \<Rightarrow> int option" where
  "one_clock text = (if text = toTimestamp 1700000000 then Some 1700000000000 else None)"

lemma client_reads_gateway_witness:
  "Option.bind (parse_json (stringify (JObj (paymentToWire sold)))) (paymentFromWire one_clock) =
     Some (MintedPayment (minted_of (seen_report sold) ''shop@pay.example'' 21000 ''lnbc1''))"
  using client_reads_gateway [of one_clock sold 1700000000]
  by (simp add: reads_time_def one_clock_def sold_def whole_payment_def MAX_SAFE_INTEGER_def seen_payment_def del: stringify.simps)

definition handed :: handover where
  "handed =
     \<lparr>hand_paymentHash = replicate 64 CHR ''a'', hand_verifyUrl = ''https://pay.example/v'', hand_expiresAt = 1700000000,
      hand_trigger = None, hand_replay = None, hand_sealed = None, hand_webhookUrl = Some []\<rparr>"

definition charged :: priced where
  "charged = \<lparr>priced_to = [''shop@pay.example.com''], priced_msat = 21000\<rparr>"

lemma gateway_reads_client_witness:
  "(\<exists>text body. watchRequestBody handed None = Some text \<and> parse_json text = Some body \<and>
      readWatchRequest (\<lambda>_. Some sample_url) one_clock body = Inr (asked_watch handed None)) \<and>
   (\<exists>body. parse_json (createRequestBody charged None None None) = Some body \<and>
      readCreateRequest (\<lambda>_. Some sample_url) body = Inr (asked_create charged None None None))"
proof -
  have "reads_time one_clock (hand_expiresAt handed)"
    by (simp add: reads_time_def one_clock_def handed_def)
  moreover have "usable_time (hand_expiresAt handed)" by (simp add: handed_def usable_time_def MAX_TIME_def)
  moreover have "watch_ok (\<lambda>_. Some sample_url) (asked_watch handed None)"
    using sample_public
    by (simp add: handed_def asked_watch_def watch_ok_def watchable_def is_hash32_def is_lower_hex_def list_all_iff
        code_def truthy_def webhook_ok_def)
  moreover have "create_ok (\<lambda>_. Some sample_url) (asked_create charged None None None)"
    by (simp add: charged_def asked_create_def create_ok_def MAX_ADDRESSES_def MAX_ADDRESS_CHARS_def MAX_SAFE_INTEGER_def
        domainAskedTooOften_def MAX_PER_DOMAIN_def truthy_def webhook_ok_def split: option.split)
  ultimately show ?thesis using gateway_reads_client [of one_clock handed] by blast
qed

end
