(* ===== verification/Verify.thy ===== *)
theory Verify
  imports ClientWire
begin

text \<open>
  \<^verbatim>\<open>sdk/src/verify.ts\<close> and the errors of \<^verbatim>\<open>sdk/src/errors.ts\<close> it throws: how the client proves
  that an invoice a gateway returned is the one the recipient issued, that money arrived, and that a
  wrapped invoice is the recipient's in disguise. The platform's \<^verbatim>\<open>fetch\<close>, which follows redirects by
  itself, and its URL parser and text decoder are the fields of a record; what was fetched is a list of
  URLs that the functions thread through, so an answer may depend on what came before it.
\<close>

subsection \<open>Errors\<close>

datatype cheat_code =
    AddressNotRequested
  | HashMismatch
  | AmountMismatch
  | DescriptionHashMismatch
  | VerifyUrlForeign
  | InvoiceNotIssued
  | PreimageMismatch
  | IdNotMine
  | InvoiceSettled
  | InvoiceStale
  | InvoiceReused

datatype proof_error =
    GatewayCheat cheat_code string
  | UnverifiedRecipient string string

datatype wrap_refusal =
    Undecodable
  | WrapHashMismatch
  | AmountBelowRecipient
  | FeeAboveAllowance
  | RecipientExpiresFirst
  | WrapAmount price_error

subsection \<open>Asking the recipient\<close>

definition ISSUED_SKEW_SECS :: int where "ISSUED_SKEW_SECS = 300"

text \<open>What a fetch ends with; a body that breaks off counts as a fetch that failed.\<close>

record web_reply =
  came_redirected :: bool
  came_from :: string
  came_status :: nat
  came_chunks :: "bytes list option"

record web =
  web_parse :: url_parser
  web_get :: "string list \<Rightarrow> string \<Rightarrow> web_reply option"
  web_decode :: "bytes \<Rightarrow> string"

definition equalIgnoringCase :: "string \<Rightarrow> string \<Rightarrow> bool" where
  "equalIgnoringCase one other \<longleftrightarrow> lower one = lower other"

text \<open>The chunks of a body, \<^const>\<open>None\<close> as soon as they are more than a proof reads.\<close>

fun bounded_chunks :: "nat \<Rightarrow> bytes list \<Rightarrow> bytes option" where
  "bounded_chunks count [] = Some []"
| "bounded_chunks count (chunk # chunks) =
     (if count + length chunk > BODY_LIMIT_BYTES then None
      else map_option (\<lambda>rest. chunk @ rest) (bounded_chunks (count + length chunk) chunks))"

definition boundedText :: "web \<Rightarrow> web_reply \<Rightarrow> string option" where
  "boundedText w reply =
     (case came_chunks reply of
        None \<Rightarrow> Some []
      | Some chunks \<Rightarrow> map_option (web_decode w) (bounded_chunks 0 chunks))"

text \<open>An array counts as an object, one without the members that are read.\<close>

fun object_body :: "json \<Rightarrow> (string \<times> json) list option" where
  "object_body (JObj ms) = Some ms"
| "object_body (JArr _) = Some []"
| "object_body _ = None"

definition reply_body :: "web \<Rightarrow> string \<Rightarrow> web_reply \<Rightarrow> (string \<times> json) list option" where
  "reply_body w url reply =
     (if came_redirected reply \<and> \<not> sameOrigin (web_parse w) (came_from reply) url then None
      else if came_status reply < 200 \<or> 299 < came_status reply then None
      else Option.bind (Option.bind (boundedText w reply) parse_json) object_body)"

definition reachable :: "web \<Rightarrow> string \<Rightarrow> minted \<Rightarrow> string list \<Rightarrow>
    (proof_error + (string \<times> json) list) \<times> string list" where
  "reachable w url payment fetched =
     (if \<not> publicHttps (web_parse w) url then (Inl (UnverifiedRecipient (mint_address payment) (rep_id payment)), fetched)
      else (case Option.bind (web_get w fetched url) (reply_body w url) of
              None \<Rightarrow> Inl (UnverifiedRecipient (mint_address payment) (rep_id payment))
            | Some body \<Rightarrow> Inr body, fetched @ [url]))"

definition pay_host :: "string \<Rightarrow> string" where
  "pay_host listed =
     (case index_of CHR ''@'' listed of None \<Rightarrow> lower listed | Some i \<Rightarrow> lower (drop (i + 1) listed))"

definition pay_url :: "string \<Rightarrow> string" where
  "pay_url listed =
     ''https://'' @ pay_host listed @ ''/.well-known/lnurlp/'' @ (case index_of CHR ''@'' listed of None \<Rightarrow> butlast listed | Some i \<Rightarrow> take i listed)"

definition payRequestFor :: "web \<Rightarrow> string \<Rightarrow> minted \<Rightarrow> string list \<Rightarrow>
    (proof_error + (string \<times> json) list) \<times> string list" where
  "payRequestFor w listed payment fetched =
     (if index_of CHR ''@'' listed \<in> {None, Some 0} \<or> \<not> publicHttps (web_parse w) (''https://'' @ pay_host listed @ ''/'')
      then (Inl (UnverifiedRecipient (mint_address payment) (rep_id payment)), fetched)
      else reachable w (pay_url listed) payment fetched)"

subsection \<open>Where an invoice comes from\<close>

text \<open>The checks that ask nobody: the address that was listed, or how the gateway cheated.\<close>

definition prove_invoice :: "minted \<Rightarrow> priced \<Rightarrow> int option \<Rightarrow> proof_error + string" where
  "prove_invoice payment asked askedAt =
     (let cheat = (\<lambda>code. Inl (GatewayCheat code (rep_id payment))); invoice = decodeInvoice (mint_bolt11 payment)
      in case find (\<lambda>address. equalIgnoringCase address (mint_address payment)) (priced_to asked) of
           None \<Rightarrow> cheat AddressNotRequested
         | Some listed \<Rightarrow>
             if mint_amountMsat payment \<noteq> priced_msat asked then cheat AmountMismatch
             else if (case invoice_paymentHash invoice of None \<Rightarrow> True | Some hash \<Rightarrow> \<not> equalIgnoringCase hash (rep_hash payment))
             then cheat HashMismatch
             else if map_option int (invoice_amountMsat invoice) \<noteq> Some (priced_msat asked) then cheat AmountMismatch
             else if (case askedAt of None \<Rightarrow> False
                      | Some asked_at \<Rightarrow> int (case invoice_issuedAt invoice of None \<Rightarrow> 0 | Some t \<Rightarrow> t) < asked_at - ISSUED_SKEW_SECS)
             then cheat InvoiceStale
             else Inr listed)"

text \<open>What the recipient's pay request has to say, and then its own endpoint.\<close>

definition prove_served :: "web \<Rightarrow> minted \<Rightarrow> string \<Rightarrow> (string \<times> json) list \<Rightarrow> proof_error + unit" where
  "prove_served w payment listed body =
     (let cheat = (\<lambda>code. Inl (GatewayCheat code (rep_id payment)));
          unverified = Inl (UnverifiedRecipient (mint_address payment) (rep_id payment))
      in case (json_string (field body ''metadata''), json_string (field body ''callback'')) of
           (Some metadata, Some callback) \<Rightarrow>
             if \<not> namesTheAddress (Some (JStr metadata)) listed then unverified
             else if invoice_descriptionHash (decodeInvoice (mint_bolt11 payment)) \<noteq> Some (sha256Hex metadata)
             then cheat DescriptionHashMismatch
             else if \<not> sameOrigin (web_parse w) (rep_verifyUrl payment) callback then cheat VerifyUrlForeign
             else Inr ()
         | _ \<Rightarrow> unverified)"

definition prove_issued :: "minted \<Rightarrow> int option \<Rightarrow> (string \<times> json) list \<Rightarrow> proof_error + unit" where
  "prove_issued payment askedAt issued =
     (if (case json_string (field issued ''pr'') of None \<Rightarrow> True | Some pr \<Rightarrow> \<not> equalIgnoringCase pr (mint_bolt11 payment))
      then Inl (GatewayCheat InvoiceNotIssued (rep_id payment))
      else if askedAt \<noteq> None \<and> field issued ''settled'' = Some (JBool True)
      then Inl (GatewayCheat InvoiceSettled (rep_id payment))
      else Inr ())"

definition proveOrigin :: "web \<Rightarrow> minted \<Rightarrow> priced \<Rightarrow> int option \<Rightarrow> string list \<Rightarrow> (proof_error + unit) \<times> string list" where
  "proveOrigin w payment asked askedAt fetched =
     (case prove_invoice payment asked askedAt of
        Inl e \<Rightarrow> (Inl e, fetched)
      | Inr listed \<Rightarrow>
          (case payRequestFor w listed payment fetched of
             (Inl e, fetched') \<Rightarrow> (Inl e, fetched')
           | (Inr body, fetched') \<Rightarrow>
               (case prove_served w payment listed body of
                  Inl e \<Rightarrow> (Inl e, fetched')
                | Inr _ \<Rightarrow>
                    (case reachable w (rep_verifyUrl payment) payment fetched' of
                       (Inl e, fetched'') \<Rightarrow> (Inl e, fetched'')
                     | (Inr issued, fetched'') \<Rightarrow> (prove_issued payment askedAt issued, fetched'')))))"

subsection \<open>Whether money arrived\<close>

definition proveSettlement :: "web \<Rightarrow> minted \<Rightarrow> priced \<Rightarrow> string list \<Rightarrow> (proof_error + string option) \<times> string list" where
  "proveSettlement w payment asked fetched =
     (case proveOrigin w payment asked None fetched of
        (Inl e, fetched') \<Rightarrow> (Inl e, fetched')
      | (Inr _, fetched') \<Rightarrow>
          (case reachable w (rep_verifyUrl payment) payment fetched' of
             (Inl e, fetched'') \<Rightarrow> (Inl e, fetched'')
           | (Inr verified, fetched'') \<Rightarrow>
               (case json_string (field verified ''preimage'') of
                  Some secret \<Rightarrow>
                    if field verified ''settled'' \<noteq> Some (JBool True) then (Inr None, fetched'')
                    else if \<not> preimageMatchesHash secret (rep_hash payment)
                    then (Inl (GatewayCheat PreimageMismatch (rep_id payment)), fetched'')
                    else (Inr (Some secret), fetched'')
                | None \<Rightarrow> (Inr None, fetched''))))"

text \<open>A report: its status, preimage and hash, and the invoice where one comes with it.\<close>

definition agreesWithItself :: "status \<Rightarrow> string option \<Rightarrow> string \<Rightarrow> string option \<Rightarrow> bool" where
  "agreesWithItself st secret hash invoice =
     (case secret of
        None \<Rightarrow> False
      | Some s \<Rightarrow>
          if st \<noteq> Paid then False
          else if (case invoice of
                     None \<Rightarrow> False
                   | Some b \<Rightarrow> (case invoice_paymentHash (decodeInvoice b) of None \<Rightarrow> True | Some h \<Rightarrow> \<not> equalIgnoringCase h hash))
          then False
          else preimageMatchesHash s hash)"

fun payment_agrees :: "client_payment \<Rightarrow> bool" where
  "payment_agrees (MintedPayment m) = agreesWithItself (rep_status m) (rep_preimage m) (rep_hash m) (Some (mint_bolt11 m))"
| "payment_agrees (WatchedPayment r) = agreesWithItself (rep_status r) (rep_preimage r) (rep_hash r) None"

definition settlement_agrees :: "client_settlement \<Rightarrow> bool" where
  "settlement_agrees s = agreesWithItself (del_status s) (del_preimage s) (del_hash s) None"

subsection \<open>Wrapped invoices\<close>

record allowance =
  allow_proportion :: "number option"
  allow_baseMsat :: "number option"

definition DEFAULT_WRAP_PROPORTION :: "rounding \<Rightarrow> rat" where "DEFAULT_WRAP_PROPORTION fl = fl (1 / 100)"
definition DEFAULT_WRAP_BASE_MSAT :: rat where "DEFAULT_WRAP_BASE_MSAT = 1000"

text \<open>\<^verbatim>\<open>Math.max(base, Math.floor(amountMsat * proportion))\<close>, which is \<^verbatim>\<open>NaN\<close> when either is.\<close>

definition wrapFeeCeiling :: "rounding \<Rightarrow> int \<Rightarrow> allowance \<Rightarrow> price_error + int" where
  "wrapFeeCeiling fl amount allowed =
     (let proportion = (case allow_proportion allowed of None \<Rightarrow> Some (DEFAULT_WRAP_PROPORTION fl) | Some q \<Rightarrow> q);
          base = (case allow_baseMsat allowed of None \<Rightarrow> Some DEFAULT_WRAP_BASE_MSAT | Some b \<Rightarrow> b)
      in msat (case (proportion, base) of
                 (Some q, Some b) \<Rightarrow> Some (max b (of_int \<lfloor>fl (of_int amount * q)\<rfloor>))
               | _ \<Rightarrow> None))"

definition proveWrapped :: "rounding \<Rightarrow> string \<Rightarrow> string \<Rightarrow> allowance \<Rightarrow> wrap_refusal + unit" where
  "proveWrapped fl wrapped recipient allowed =
     (let offered = decodeInvoice wrapped; owed = decodeInvoice recipient
      in case (invoice_paymentHash offered, invoice_amountMsat offered, invoice_expiresAt offered) of
           (Some hash, Some asked, Some until) \<Rightarrow>
             (case (invoice_paymentHash owed, invoice_amountMsat owed, invoice_expiresAt owed) of
                (Some hash', Some due, Some until') \<Rightarrow>
                  if lower hash \<noteq> lower hash' then Inl WrapHashMismatch
                  else if asked < due then Inl AmountBelowRecipient
                  else (case wrapFeeCeiling fl (int due) allowed of
                          Inl e \<Rightarrow> Inl (WrapAmount e)
                        | Inr limit \<Rightarrow>
                            if int asked - int due > limit then Inl FeeAboveAllowance
                            else if until' \<le> until then Inl RecipientExpiresFirst
                            else Inr ())
              | _ \<Rightarrow> Inl Undecodable)
         | _ \<Rightarrow> Inl Undecodable)"

subsection \<open>What a proof proves\<close>

lemma reachable_InrD:
  assumes "reachable w url payment fetched = (Inr body, fetched')"
  shows "publicHttps (web_parse w) url" "fetched' = fetched @ [url]"
    and "\<exists>reply. web_get w fetched url = Some reply \<and> reply_body w url reply = Some body"
  using assms by (auto simp: reachable_def split: if_splits option.splits bind_splits)

lemma payRequestFor_InrD:
  assumes "payRequestFor w listed payment fetched = (Inr body, fetched')"
  shows "reachable w (pay_url listed) payment fetched = (Inr body, fetched')"
  using assms by (simp add: payRequestFor_def split: if_splits)

lemma prove_invoice_InrD:
  assumes "prove_invoice payment asked askedAt = Inr listed"
  shows "listed \<in> set (priced_to asked)" "lower listed = lower (mint_address payment)"
    "mint_amountMsat payment = priced_msat asked"
    "map_option lower (invoice_paymentHash (decodeInvoice (mint_bolt11 payment))) = Some (lower (rep_hash payment))"
    "map_option int (invoice_amountMsat (decodeInvoice (mint_bolt11 payment))) = Some (priced_msat asked)"
    "\<forall>t. askedAt = Some t \<longrightarrow> t - 300 \<le> int (case invoice_issuedAt (decodeInvoice (mint_bolt11 payment)) of None \<Rightarrow> 0 | Some t \<Rightarrow> t)"
  using assms
  by (auto simp: prove_invoice_def Let_def equalIgnoringCase_def ISSUED_SKEW_SECS_def
      dest: find_SomeD split: option.splits if_splits)

lemma prove_served_InrD:
  assumes "prove_served w payment listed body = Inr ()"
  obtains metadata callback where "field body ''metadata'' = Some (JStr metadata)" "field body ''callback'' = Some (JStr callback)"
    "namesTheAddress (Some (JStr metadata)) listed"
    "invoice_descriptionHash (decodeInvoice (mint_bolt11 payment)) = Some (sha256Hex metadata)"
    "sameOrigin (web_parse w) (rep_verifyUrl payment) callback"
  using assms by (auto simp: prove_served_def Let_def split: option.splits if_splits)

lemma prove_issued_InrD:
  assumes "prove_issued payment askedAt issued = Inr ()"
  shows "\<exists>pr. field issued ''pr'' = Some (JStr pr) \<and> lower pr = lower (mint_bolt11 payment)"
    "askedAt \<noteq> None \<longrightarrow> field issued ''settled'' \<noteq> Some (JBool True)"
  using assms by (auto simp: prove_issued_def equalIgnoringCase_def split: option.splits if_splits)

text \<open>\<open>served w fetched url body\<close>: the answer to one more fetch, from a public host and its own origin.\<close>

definition served :: "web \<Rightarrow> string list \<Rightarrow> string \<Rightarrow> (string \<times> json) list \<Rightarrow> bool" where
  "served w fetched url body \<longleftrightarrow>
     publicHttps (web_parse w) url \<and>
     (\<exists>reply. web_get w fetched url = Some reply \<and> reply_body w url reply = Some body)"

lemma reachable_served: "reachable w url payment fetched = (Inr body, fetched') \<Longrightarrow> served w fetched url body"
  using reachable_InrD unfolding served_def by metis

definition proven_invoice :: "web \<Rightarrow> minted \<Rightarrow> priced \<Rightarrow> int option \<Rightarrow> string \<Rightarrow> (string \<times> json) list \<Rightarrow> (string \<times> json) list \<Rightarrow> bool" where
  "proven_invoice w payment asked askedAt listed pay issued \<longleftrightarrow>
     (let invoice = decodeInvoice (mint_bolt11 payment)
      in listed \<in> set (priced_to asked) \<and> lower listed = lower (mint_address payment) \<and>
         mint_amountMsat payment = priced_msat asked \<and>
         map_option int (invoice_amountMsat invoice) = Some (priced_msat asked) \<and>
         map_option lower (invoice_paymentHash invoice) = Some (lower (rep_hash payment)) \<and>
         (\<exists>metadata callback. field pay ''metadata'' = Some (JStr metadata) \<and> field pay ''callback'' = Some (JStr callback) \<and>
            namesTheAddress (Some (JStr metadata)) listed \<and> invoice_descriptionHash invoice = Some (sha256Hex metadata) \<and>
            sameOrigin (web_parse w) (rep_verifyUrl payment) callback) \<and>
         (\<exists>pr. field issued ''pr'' = Some (JStr pr) \<and> lower pr = lower (mint_bolt11 payment)) \<and>
         (\<forall>t. askedAt = Some t \<longrightarrow> field issued ''settled'' \<noteq> Some (JBool True) \<and>
            t - 300 \<le> int (case invoice_issuedAt invoice of None \<Rightarrow> 0 | Some t \<Rightarrow> t)))"

lemma proveOrigin_InrD:
  assumes "proveOrigin w payment asked askedAt fetched = (Inr (), fetched')"
  obtains listed pay issued where "fetched' = fetched @ [pay_url listed, rep_verifyUrl payment]"
    "served w fetched (pay_url listed) pay" "served w (fetched @ [pay_url listed]) (rep_verifyUrl payment) issued"
    "proven_invoice w payment asked askedAt listed pay issued"
proof -
  obtain listed where listed: "prove_invoice payment asked askedAt = Inr listed"
    using assms by (cases "prove_invoice payment asked askedAt") (auto simp: proveOrigin_def)
  obtain pay mid where pay: "payRequestFor w listed payment fetched = (Inr pay, mid)"
    using assms listed by (auto simp: proveOrigin_def split: prod.splits sum.splits)
  then have asking: "reachable w (pay_url listed) payment fetched = (Inr pay, mid)" by (rule payRequestFor_InrD)
  have named: "prove_served w payment listed pay = Inr ()"
    using assms listed pay by (auto simp: proveOrigin_def split: sum.splits)
  obtain issued where verify: "reachable w (rep_verifyUrl payment) payment mid = (Inr issued, fetched')"
    and issue: "prove_issued payment askedAt issued = Inr ()"
    using assms listed pay named by (auto simp: proveOrigin_def split: sum.splits prod.splits)
  have mid: "mid = fetched @ [pay_url listed]" by (rule reachable_InrD(2) [OF asking])
  have "fetched' = fetched @ [pay_url listed, rep_verifyUrl payment]"
    using reachable_InrD(2) [OF verify] mid by simp
  moreover have "served w (fetched @ [pay_url listed]) (rep_verifyUrl payment) issued"
    using reachable_served [OF verify] mid by simp
  moreover have "proven_invoice w payment asked askedAt listed pay issued"
    using prove_invoice_InrD [OF listed] prove_issued_InrD [OF issue] prove_served_InrD [OF named]
    unfolding proven_invoice_def Let_def by blast
  ultimately show ?thesis using that reachable_served [OF asking] by blast
qed

text \<open>
  A proof of origin asks the recipient and nobody else. When it passes, exactly two fetches were made,
  both to public https: one to the host of the listed address, whose metadata names that address and
  hashes to the invoice's description hash, and one to the verify endpoint on the origin of the callback
  served there, which says it issued this very invoice; and the invoice is for the hash, the address and
  the amount that were asked, is not settled and not older than five minutes when it is new.
\<close>

theorem proveOrigin_asks_the_recipient:
  assumes "proveOrigin w payment asked askedAt fetched = (Inr (), fetched')"
  shows "\<exists>listed pay issued. fetched' = fetched @ [pay_url listed, rep_verifyUrl payment] \<and>
    served w fetched (pay_url listed) pay \<and> served w (fetched @ [pay_url listed]) (rep_verifyUrl payment) issued \<and>
    proven_invoice w payment asked askedAt listed pay issued"
  using assms by (rule proveOrigin_InrD) blast

text \<open>
  A settlement is the recipient's word and its preimage. Whatever a gateway says, a preimage is answered
  only after the whole proof of origin, when the recipient's endpoint was asked once more, said it
  settled, and released a preimage that hashes to the payment hash.
\<close>

theorem proveSettlement_takes_no_word:
  assumes "proveSettlement w payment asked fetched = (Inr (Some secret), fetched')"
  shows "preimageMatchesHash secret (rep_hash payment) \<and>
    (\<exists>listed pay issued verified. fetched' = fetched @ [pay_url listed, rep_verifyUrl payment, rep_verifyUrl payment] \<and>
      served w fetched (pay_url listed) pay \<and> served w (fetched @ [pay_url listed]) (rep_verifyUrl payment) issued \<and>
      proven_invoice w payment asked None listed pay issued \<and>
      served w (fetched @ [pay_url listed, rep_verifyUrl payment]) (rep_verifyUrl payment) verified \<and>
      field verified ''settled'' = Some (JBool True) \<and> field verified ''preimage'' = Some (JStr secret))"
proof -
  obtain mid where origin: "proveOrigin w payment asked None fetched = (Inr (), mid)"
    using assms by (auto simp: proveSettlement_def split: prod.splits sum.splits)
  obtain verified where asking: "reachable w (rep_verifyUrl payment) payment mid = (Inr verified, fetched')"
    using assms origin by (auto simp: proveSettlement_def split: prod.splits sum.splits option.splits if_splits)
  have said: "field verified ''preimage'' = Some (JStr secret)" "field verified ''settled'' = Some (JBool True)"
    "preimageMatchesHash secret (rep_hash payment)"
    using assms origin asking by (auto simp: proveSettlement_def split: option.splits if_splits)
  from origin obtain listed pay issued where got: "mid = fetched @ [pay_url listed, rep_verifyUrl payment]"
    "served w fetched (pay_url listed) pay" "served w (fetched @ [pay_url listed]) (rep_verifyUrl payment) issued"
    "proven_invoice w payment asked None listed pay issued"
    by (rule proveOrigin_InrD)
  moreover have "fetched' = mid @ [rep_verifyUrl payment]" by (rule reachable_InrD(2) [OF asking])
  moreover have "served w mid (rep_verifyUrl payment) verified" by (rule reachable_served [OF asking])
  ultimately show ?thesis using said by auto
qed

subsection \<open>A wrap settles the recipient\<close>

lemma proveWrapped_InrD:
  assumes "proveWrapped fl wrapped recipient allowed = Inr ()"
  obtains hash hash' asked due until until' limit where
    "invoice_paymentHash (decodeInvoice wrapped) = Some hash" "invoice_paymentHash (decodeInvoice recipient) = Some hash'"
    "invoice_amountMsat (decodeInvoice wrapped) = Some asked" "invoice_amountMsat (decodeInvoice recipient) = Some due"
    "invoice_expiresAt (decodeInvoice wrapped) = Some until" "invoice_expiresAt (decodeInvoice recipient) = Some until'"
    "lower hash = lower hash'" "due \<le> asked" "until < until'"
    "wrapFeeCeiling fl (int due) allowed = Inr limit" "int asked - int due \<le> limit"
  using assms by (auto simp: proveWrapped_def Let_def not_less not_le split: option.splits sum.splits if_splits)

lemma msat_InrD: "msat n = Inr k \<Longrightarrow> n = Some (of_int k) \<and> 1 \<le> k \<and> k \<le> MAX_SAFE_INTEGER"
  by (auto simp: msat_def whole_number_def split: option.splits if_splits)

lemma one_percent:
  assumes "ieee fl" "int due \<le> MAX_SAFE_INTEGER"
  shows "100 * \<lfloor>fl (of_int (int due) * fl (1 / 100))\<rfloor> \<le> int due + 3"
proof (cases "due = 0")
  case True
  have "fl (of_int 0) = of_int 0" using assms(1) unfolding ieee_def by (metis abs_zero zero_le_numeral zero_le_power)
  with True show ?thesis by simp
next
  case False
  let ?e = "1 / 2 ^ 53 :: rat" and ?x = "of_int (int due) :: rat" and ?p = "fl (1 / 100)"
  have near: "\<bar>fl y - y\<bar> \<le> \<bar>y\<bar> * ?e" if "1 / 1000 \<le> y" "y \<le> 2 ^ 60" for y
  proof -
    have "1 / 2 ^ 1000 \<le> \<bar>y\<bar>" "\<bar>y\<bar> \<le> 2 ^ 1000" using that by simp_all
    then show ?thesis using assms(1) unfolding ieee_def by auto
  qed
  have x: "1 \<le> ?x" "?x \<le> 2 ^ 53" using False assms(2) by (simp_all add: MAX_SAFE_INTEGER_def)
  have p: "\<bar>?p - 1 / 100\<bar> \<le> 1 / 100 * ?e" using near [of "1 / 100"] by simp
  then have "?p - 1 / 100 \<le> 1 / 100 * ?e" "- (?p - 1 / 100) \<le> 1 / 100 * ?e" by (simp_all only: abs_le_iff)
  then have p': "1 / 200 \<le> ?p" "?p \<le> (1 + ?e) / 100" by (simp_all add: field_simps)
  have y: "1 / 200 \<le> ?x * ?p" using mult_mono [OF x(1) p'(1)] x by simp
  have top: "?x * ?p \<le> ?x * (1 + ?e) / 100" using mult_left_mono [OF p'(2), of ?x] x by simp
  also have "\<dots> \<le> 2 ^ 53 * (1 + ?e) / 100" using x by simp
  finally have top': "?x * ?p \<le> (2 ^ 53 + 1) / 100" by simp
  have "fl (?x * ?p) \<le> ?x * ?p + ?x * ?p * ?e"
  proof -
    have "1 / 1000 \<le> ?x * ?p" using y by linarith
    moreover have "(2 ^ 53 + 1) / 100 \<le> (2 ^ 60 :: rat)" by simp
    then have "?x * ?p \<le> 2 ^ 60" using top' by (rule order_trans [rotated])
    ultimately have near_y: "1 / 1000 \<le> ?x * ?p" "?x * ?p \<le> 2 ^ 60" by blast+
    have "\<bar>fl (?x * ?p) - ?x * ?p\<bar> \<le> \<bar>?x * ?p\<bar> * ?e" by (rule near [OF near_y])
    moreover have "\<bar>?x * ?p\<bar> = ?x * ?p" using y by (intro abs_of_nonneg) linarith
    ultimately show ?thesis by linarith
  qed
  moreover have "?x * ?p * ?e \<le> 1 / 50" using top' by simp
  moreover have "?x * (1 + ?e) / 100 \<le> ?x / 100 + 1 / 100" using x by (simp add: field_simps)
  ultimately have "fl (?x * ?p) \<le> ?x / 100 + 3 / 100" using top by linarith
  then have "of_int \<lfloor>fl (?x * ?p)\<rfloor> \<le> ?x / 100 + 3 / 100" by linarith
  then have "of_int (100 * \<lfloor>fl (?x * ?p)\<rfloor>) \<le> (of_int (int due + 3) :: rat)" by simp
  then show ?thesis by linarith
qed

text \<open>
  C25: paying a wrapped invoice that was accepted is paying the recipient. The two invoices are settled by the
  same preimages, the wrap asks for at least what the recipient is due and for no more than a thousand
  millisatoshi or one percent above it, and it expires before the recipient's own does.
\<close>

theorem wrapped_settles_the_recipient:
  assumes "ieee fl" "proveWrapped fl wrapped recipient \<lparr>allow_proportion = None, allow_baseMsat = None\<rparr> = Inr ()"
  shows "\<exists>hash hash' asked due until until'.
    invoice_paymentHash (decodeInvoice wrapped) = Some hash \<and> invoice_paymentHash (decodeInvoice recipient) = Some hash' \<and>
    invoice_amountMsat (decodeInvoice wrapped) = Some asked \<and> invoice_amountMsat (decodeInvoice recipient) = Some due \<and>
    invoice_expiresAt (decodeInvoice wrapped) = Some until \<and> invoice_expiresAt (decodeInvoice recipient) = Some until' \<and>
    (\<forall>secret. preimageMatchesHash secret hash \<longleftrightarrow> preimageMatchesHash secret hash') \<and>
    due \<le> asked \<and> until < until' \<and>
    (int due \<le> MAX_SAFE_INTEGER \<longrightarrow> int asked - int due \<le> 1000 \<or> 100 * (int asked - int due) \<le> int due + 3)"
proof -
  obtain hash hash' asked due until until' limit where got:
    "invoice_paymentHash (decodeInvoice wrapped) = Some hash" "invoice_paymentHash (decodeInvoice recipient) = Some hash'"
    "invoice_amountMsat (decodeInvoice wrapped) = Some asked" "invoice_amountMsat (decodeInvoice recipient) = Some due"
    "invoice_expiresAt (decodeInvoice wrapped) = Some until" "invoice_expiresAt (decodeInvoice recipient) = Some until'"
    "lower hash = lower hash'" "due \<le> asked" "until < until'"
    and limit: "wrapFeeCeiling fl (int due) \<lparr>allow_proportion = None, allow_baseMsat = None\<rparr> = Inr limit" "int asked - int due \<le> limit"
    using assms(2) by (rule proveWrapped_InrD)
  define z where "z = \<lfloor>fl (of_int (int due) * fl (1 / 100))\<rfloor>"
  have "of_int limit = max 1000 (of_int z :: rat)"
    using limit(1) by (auto simp: wrapFeeCeiling_def DEFAULT_WRAP_PROPORTION_def DEFAULT_WRAP_BASE_MSAT_def z_def dest!: msat_InrD)
  then have "of_int limit \<le> (of_int 1000 :: rat) \<or> of_int limit \<le> (of_int z :: rat)"
    by (auto simp: max_def split: if_splits)
  then have bound: "limit \<le> 1000 \<or> limit \<le> z" by (simp only: of_int_le_iff)
  have "int due \<le> MAX_SAFE_INTEGER \<longrightarrow> int asked - int due \<le> 1000 \<or> 100 * (int asked - int due) \<le> int due + 3"
  proof
    assume "int due \<le> MAX_SAFE_INTEGER"
    then have "100 * z \<le> int due + 3" by (unfold z_def) (rule one_percent [OF assms(1)])
    then have "100 * (int asked - int due) \<le> int due + 3" if "limit \<le> z"
      using mult_left_mono [OF order_trans [OF limit(2) that], of 100] by (rule order_trans [rotated]) simp
    moreover have "limit \<le> 1000 \<Longrightarrow> int asked - int due \<le> 1000" using limit(2) by linarith
    ultimately show "int asked - int due \<le> 1000 \<or> 100 * (int asked - int due) \<le> int due + 3"
      using bound by blast
  qed
  moreover have "preimageMatchesHash secret hash \<longleftrightarrow> preimageMatchesHash secret hash'" for secret
    using got(7) by (simp add: preimageMatchesHash_def)
  ultimately show ?thesis using got by blast
qed

subsection \<open>A sale to apply the theorems to\<close>

definition sale_hash :: bytes where
  "sale_hash = sha256 (hexToBytes ''00ff'')"

definition sale_invoice :: string where
  "sale_invoice = sample_invoice sale_hash (sha256 (utf8 sample_metadata))"

definition sale :: minted where
  "sale =
     \<lparr>rep_id = ''p-1'', rep_status = Pending, rep_hash = bytesToHex sale_hash,
      rep_verifyUrl = ''https://pay.example.com/v'', rep_preimage = None, rep_expiresAt = 1700003600, rep_createdAt = 1700000000,
      rep_sealed = None, mint_address = ''me@pay.example.com'', mint_amountMsat = 1000, mint_bolt11 = sale_invoice\<rparr>"

definition sale_asked :: priced where
  "sale_asked = \<lparr>priced_to = [''me@pay.example.com''], priced_msat = 1000\<rparr>"

definition sale_issue :: json where
  "sale_issue = JObj [(''pr'', JStr sale_invoice), (''settled'', JBool True), (''preimage'', JStr ''00ff'')]"

definition fresh_issue :: json where
  "fresh_issue = JObj [(''pr'', JStr sale_invoice), (''settled'', JBool False)]"

definition sale_web :: "json list \<Rightarrow> web" where
  "sale_web answers =
     \<lparr>web_parse = (\<lambda>_. Some sample_url),
      web_get = (\<lambda>fetched url. Some \<lparr>came_redirected = False, came_from = url, came_status = 200,
        came_chunks = Some [replicate (length fetched) 0]\<rparr>),
      web_decode = (\<lambda>bs. stringify (answers ! length bs))\<rparr>"

lemma sale_reachable:
  assumes "length fetched < length answers" "length fetched \<le> 10" "answers ! length fetched = JObj ms" "json_plain (JObj ms)"
  shows "reachable (sale_web answers) u payment fetched = (Inr ms, fetched @ [u])"
proof -
  have "publicHttps (web_parse (sale_web answers)) u" using sample_public by (simp add: sale_web_def)
  moreover have "parse_json (stringify (JObj ms)) = Some (JObj ms)" by (rule parse_stringify [OF assms(4)])
  ultimately show ?thesis
    using assms by (simp add: reachable_def reply_body_def boundedText_def sale_web_def BODY_LIMIT_BYTES_def)
qed

lemma sale_decoded:
  "invoice_paymentHash (decodeInvoice sale_invoice) = Some (rep_hash sale)"
  "invoice_amountMsat (decodeInvoice sale_invoice) = Some 1000"
  "invoice_descriptionHash (decodeInvoice sale_invoice) = Some (sha256Hex sample_metadata)"
  "length sale_hash = 32"
proof -
  show hash: "length sale_hash = 32" by (simp only: sale_hash_def length_sha256)
  then show "invoice_paymentHash (decodeInvoice sale_invoice) = Some (rep_hash sale)"
    "invoice_amountMsat (decodeInvoice sale_invoice) = Some 1000"
    "invoice_descriptionHash (decodeInvoice sale_invoice) = Some (sha256Hex sample_metadata)"
    by (simp_all add: sale_invoice_def decodeInvoice_sample sale_def sha256Hex_def)
qed

lemma sale_payRequest:
  assumes "answers ! 0 = sample_pay" "answers \<noteq> []"
  shows "payRequestFor (sale_web answers) ''me@pay.example.com'' sale [] =
    (Inr [(''tag'', JStr ''payRequest''), (''callback'', JStr ''https://pay.example.com/cb''), (''metadata'', JStr sample_metadata),
      (''minSendable'', JNum 1), (''maxSendable'', JNum 100000)], [pay_url ''me@pay.example.com''])"
proof -
  have "publicHttps (web_parse (sale_web answers)) u" for u using sample_public by (simp add: sale_web_def)
  moreover have "reachable (sale_web answers) (pay_url ''me@pay.example.com'') sale [] =
      (Inr [(''tag'', JStr ''payRequest''), (''callback'', JStr ''https://pay.example.com/cb''), (''metadata'', JStr sample_metadata),
        (''minSendable'', JNum 1), (''maxSendable'', JNum 100000)], [] @ [pay_url ''me@pay.example.com''])"
    by (rule sale_reachable) (use assms in \<open>simp_all add: sample_pay_def\<close>)
  ultimately show ?thesis by (simp add: payRequestFor_def)
qed

lemma sale_origin:
  assumes "answers ! 0 = sample_pay" "answers ! 1 = JObj issue" "1 < length answers" "json_plain (JObj issue)"
    and "prove_issued sale askedAt issue = Inr ()" "askedAt \<in> {None, Some 0}"
  shows "proveOrigin (sale_web answers) sale sale_asked askedAt [] =
    (Inr (), [pay_url ''me@pay.example.com'', rep_verifyUrl sale])"
proof -
  have "prove_invoice sale sale_asked askedAt = Inr ''me@pay.example.com''"
    using assms(6) sale_decoded
    by (auto simp: prove_invoice_def sale_asked_def equalIgnoringCase_def ISSUED_SKEW_SECS_def sale_def Let_def split: option.split)
  moreover have "answers \<noteq> []" using assms(3) by auto
  moreover have "prove_served (sale_web answers) sale ''me@pay.example.com''
      [(''tag'', JStr ''payRequest''), (''callback'', JStr ''https://pay.example.com/cb''), (''metadata'', JStr sample_metadata),
       (''minSendable'', JNum 1), (''maxSendable'', JNum 100000)] = Inr ()"
    using sample_names sale_decoded by (simp add: prove_served_def sale_web_def sameOrigin_def) (simp add: sale_def)
  moreover have "reachable (sale_web answers) (rep_verifyUrl sale) sale [pay_url ''me@pay.example.com''] =
      (Inr issue, [pay_url ''me@pay.example.com''] @ [rep_verifyUrl sale])"
    by (rule sale_reachable) (use assms in simp_all)
  ultimately show ?thesis
    using sale_payRequest assms by (simp add: proveOrigin_def)
qed

lemma proveOrigin_asks_the_recipient_witness:
  "\<exists>listed pay issued. [pay_url ''me@pay.example.com'', rep_verifyUrl sale] = [] @ [pay_url listed, rep_verifyUrl sale] \<and>
    served (sale_web [sample_pay, fresh_issue]) [] (pay_url listed) pay \<and>
    served (sale_web [sample_pay, fresh_issue]) ([] @ [pay_url listed]) (rep_verifyUrl sale) issued \<and>
    proven_invoice (sale_web [sample_pay, fresh_issue]) sale sale_asked (Some 0) listed pay issued"
proof (rule proveOrigin_asks_the_recipient [OF sale_origin])
  show "[sample_pay, fresh_issue] ! 1 = JObj [(''pr'', JStr sale_invoice), (''settled'', JBool False)]"
    by (simp add: fresh_issue_def)
qed (simp_all add: prove_issued_def equalIgnoringCase_def sale_def)

lemma proveSettlement_preimage: "preimageMatchesHash ''00ff'' (rep_hash sale)"
proof -
  have "lower (bytesToHex sale_hash) = bytesToHex sale_hash" by (rule lower_lower_hex) (rule lower_hex_bytesToHex)
  then show ?thesis
    by (simp add: preimageMatchesHash_def isHex_def is_hex_char_def is_lower_hex_def is_digit_def code_def sale_def sale_hash_def)
qed

lemma proveSettlement_takes_no_word_witness:
  "preimageMatchesHash ''00ff'' (rep_hash sale)"
proof -
  let ?web = "sale_web [sample_pay, sale_issue, sale_issue]"
  let ?issue = "[(''pr'', JStr sale_invoice), (''settled'', JBool True), (''preimage'', JStr ''00ff'')]"
  let ?asked = "[pay_url ''me@pay.example.com'', rep_verifyUrl sale]"
  have "proveOrigin ?web sale sale_asked None [] = (Inr (), ?asked)"
    by (rule sale_origin [where issue = ?issue]) (simp_all add: sale_issue_def prove_issued_def equalIgnoringCase_def sale_def)
  moreover have "reachable ?web (rep_verifyUrl sale) sale ?asked = (Inr ?issue, ?asked @ [rep_verifyUrl sale])"
    by (rule sale_reachable) (simp_all add: sale_issue_def)
  ultimately have "proveSettlement ?web sale sale_asked [] = (Inr (Some ''00ff''), ?asked @ [rep_verifyUrl sale])"
    using proveSettlement_preimage by (simp add: proveSettlement_def)
  from proveSettlement_takes_no_word [OF this] show ?thesis by blast
qed

definition own_invoice :: string where
  "own_invoice = write_invoice ''lnbc10n'' (invoice_data (replicate 7 2) (sample_fields sale_hash sale_hash) (replicate 104 0))"

lemma own_decoded:
  "decodeInvoice own_invoice =
    \<lparr>invoice_paymentHash = Some (bytesToHex sale_hash), invoice_descriptionHash = Some (bytesToHex sale_hash),
     invoice_amountMsat = Some 1000, invoice_issuedAt = Some (readNumber (replicate 7 2)),
     invoice_expiresAt = Some (readNumber (replicate 7 2) + 3600)\<rparr>"
proof -
  have len: "length sale_hash = 32" by (rule sale_decoded)
  have "\<forall>w\<in>set (invoice_data (replicate 7 2) (sample_fields sale_hash sale_hash) (replicate 104 0)). w < 32"
    using sample_small [OF len len] by (auto simp: invoice_data_def)
  from decode_written [OF sample_hrp(1) _ _ _ this sample_written(3) [OF len len] sample_written(1) [OF len len]
      sample_written(4) [OF len len] sample_written(2) [OF len len]]
  show ?thesis
    by (simp add: own_invoice_def sample_hrp invoice_sizes sample_written [OF len len] DEFAULT_EXPIRY_SECS_def)
qed

lemma wrapped_settles_the_recipient_witness:
  "\<exists>hash hash' asked due until until'.
    invoice_paymentHash (decodeInvoice sale_invoice) = Some hash \<and> invoice_paymentHash (decodeInvoice own_invoice) = Some hash' \<and>
    invoice_amountMsat (decodeInvoice sale_invoice) = Some asked \<and> invoice_amountMsat (decodeInvoice own_invoice) = Some due \<and>
    invoice_expiresAt (decodeInvoice sale_invoice) = Some until \<and> invoice_expiresAt (decodeInvoice own_invoice) = Some until' \<and>
    (\<forall>secret. preimageMatchesHash secret hash \<longleftrightarrow> preimageMatchesHash secret hash') \<and>
    due \<le> asked \<and> until < until' \<and>
    (int due \<le> MAX_SAFE_INTEGER \<longrightarrow> int asked - int due \<le> 1000 \<or> 100 * (int asked - int due) \<le> int due + 3)"
proof (rule wrapped_settles_the_recipient [where fl = id])
  show "ieee id" by (simp add: ieee_def mono_def)
  have "invoice_expiresAt (decodeInvoice sale_invoice) = Some (readNumber (replicate 7 1) + 3600)"
    "invoice_amountMsat (decodeInvoice sale_invoice) = Some 1000" "invoice_paymentHash (decodeInvoice sale_invoice) = Some (bytesToHex sale_hash)"
    using sale_decoded by (simp_all add: sale_invoice_def decodeInvoice_sample)
  moreover have "replicate 7 n = [n, n, n, n, n, n, n]" for n :: nat by (simp add: eval_nat_numeral)
  then have "readNumber (replicate 7 1) < readNumber (replicate 7 2)" by (simp only: readNumber_def foldl.simps) simp
  moreover have "wrapFeeCeiling id 1000 \<lparr>allow_proportion = None, allow_baseMsat = None\<rparr> = Inr 1000"
    by (simp add: wrapFeeCeiling_def DEFAULT_WRAP_PROPORTION_def DEFAULT_WRAP_BASE_MSAT_def msat_def MAX_SAFE_INTEGER_def)
  ultimately show "proveWrapped id sale_invoice own_invoice \<lparr>allow_proportion = None, allow_baseMsat = None\<rparr> = Inr ()"
    by (simp add: proveWrapped_def own_decoded)
qed

end
