(* ===== verification/Client.thy ===== *)
theory Client
  imports Verify Signature Facts
begin

text \<open>
  \<^verbatim>\<open>sdk/src/client.ts\<close>: the calls a client makes to one gateway. The client is a record of what it was
  constructed with, what it remembers (the invoices it given out, whether the gateway refuses strangers,
  the key it published) and the calls and fetches it made so far; an operation gives its result and the
  client afterwards. The gateway is a function from the calls made so far to an answer, anything at all,
  because the client trusts it for nothing. The sockets are theory Waiting.
\<close>

definition RECONNECT_DELAY_MS :: int where "RECONNECT_DELAY_MS = 3000"
definition RECONNECT_CAP_MS :: int where "RECONNECT_CAP_MS = 30000"
definition UNANSWERED_ATTEMPTS :: nat where "UNANSWERED_ATTEMPTS = 5"
definition TRIGGER_MIN_CHARS :: nat where "TRIGGER_MIN_CHARS = 16"
definition STRANGER_PROBE :: string where "STRANGER_PROBE = ''is-this-gateway-yours''"

subsection \<open>The client and its surroundings\<close>

record call =
  call_method :: string
  call_url :: string
  call_headers :: headers
  call_body :: "string option"

text \<open>An answer: its status and the value of its body, \<^const>\<open>None\<close> when that is no JSON.\<close>

record reply =
  reply_status :: nat
  reply_json :: "json option"

text \<open>
  The gateway, the recipients, the clock in whole seconds, the drawn nonces and the platform. Time and
  randomness may depend on the calls made so far.
\<close>

record around =
  ar_gateway :: "call list \<Rightarrow> call \<Rightarrow> reply option"
  ar_web :: web
  ar_clock :: "call list \<Rightarrow> string list \<Rightarrow> int"
  ar_draw :: "call list \<Rightarrow> string"
  ar_platform :: platform
  ar_date :: "string \<Rightarrow> int option"
  ar_encode :: "string \<Rightarrow> string"

record client =
  base_url :: string
  cl_token :: "string option"
  cl_secret :: "string option"
  handed_out :: "(string \<times> string option \<times> int) list"
  strangers :: "bool option"
  published :: "string option"
  calls :: "call list"
  fetched :: "string list"

datatype conflict = RequestInFlight | KeyReused

record problem =
  prob_type :: json
  prob_title :: json
  prob_status :: nat
  prob_detail :: "json option"

datatype client_error =
    NotProven proof_error
  | Problem problem
  | NoWalletAvailable problem "json list"
  | IdempotencyConflict problem conflict
  | NotAnswered
  | TypeError
  | NotAUrl
  | NotWhatWasAsked nat string
  | NoSigningKey
  | WeakTrigger
  | Charge_Refused charge_error
  | UnusableTime

subsection \<open>Construction\<close>

definition strip_slashes :: "string \<Rightarrow> string" where
  "strip_slashes s = rev (dropWhile (\<lambda>c. c = CHR ''/'') (rev s))"

definition gatewayAt :: "url_parser \<Rightarrow> string \<Rightarrow> client_error + string" where
  "gatewayAt parse baseUrl =
     (case parse baseUrl of
        None \<Rightarrow> Inl NotAUrl
      | Some u \<Rightarrow> if url_protocol u \<noteq> ''http:'' \<and> url_protocol u \<noteq> ''https:'' then Inl NotAUrl else Inr (strip_slashes baseUrl))"

definition ThunderBridge :: "url_parser \<Rightarrow> string \<Rightarrow> string option \<Rightarrow> string option \<Rightarrow> client_error + client" where
  "ThunderBridge parse baseUrl token secret =
     and_then (gatewayAt parse baseUrl) (\<lambda>base.
       Inr \<lparr>base_url = base, cl_token = token, cl_secret = secret, handed_out = [], strangers = None, published = None,
            calls = [], fetched = []\<rparr>)"

definition unguessable :: "string \<Rightarrow> client_error + string" where
  "unguessable secret = (if length secret < TRIGGER_MIN_CHARS then Inl WeakTrigger else Inr secret)"

text \<open>\<^verbatim>\<open>trigger ? sha256Hex(unguessable(trigger)) : null\<close>.\<close>

definition trigger_sent :: "string option \<Rightarrow> client_error + string option" where
  "trigger_sent asked =
     (case truthy asked of None \<Rightarrow> Inr None | Some secret \<Rightarrow> and_then (unguessable secret) (\<lambda>s. Inr (Some (sha256Hex s))))"

definition hasToken :: "client \<Rightarrow> bool" where
  "hasToken c \<longleftrightarrow> cl_token c \<noteq> None"

definition needsTicket :: "client \<Rightarrow> bool option \<Rightarrow> bool" where
  "needsTicket c asked \<longleftrightarrow> asked = Some True \<or> cl_token c \<noteq> None \<or> cl_secret c \<noteq> None"

subsection \<open>Calling\<close>

definition speaking :: "around \<Rightarrow> client \<Rightarrow> signing_key option" where
  "speaking a c = callerKey (ar_platform a) (case cl_secret c of None \<Rightarrow> [] | Some s \<Rightarrow> s)"

definition reading_headers :: "around \<Rightarrow> client \<Rightarrow> string \<Rightarrow> string \<Rightarrow> string \<Rightarrow> client_error + headers" where
  "reading_headers a c method path body =
     (let bearer = (case cl_token c of None \<Rightarrow> [] | Some t \<Rightarrow> [(''authorization'', ''Bearer '' @ t)])
      in if cl_secret c = None then Inr bearer
         else (case (speaking a c, web_parse (ar_web a) (base_url c)) of
                 (Some key, Some u) \<Rightarrow>
                   (case signedAs (ar_platform a) key method path body (url_host u) (ar_clock a (calls c) (fetched c)) (ar_draw a (calls c)) of
                      None \<Rightarrow> Inl NoSigningKey
                    | Some hs \<Rightarrow> Inr (bearer @ hs))
               | _ \<Rightarrow> Inl NoSigningKey))"

definition sending_headers :: "around \<Rightarrow> client \<Rightarrow> string \<Rightarrow> string \<Rightarrow> client_error + headers" where
  "sending_headers a c path body =
     and_then (reading_headers a c ''POST'' path body) (\<lambda>hs. Inr ((''content-type'', ''application/json'') # hs))"

definition fetch_gateway :: "around \<Rightarrow> call \<Rightarrow> client \<Rightarrow> (client_error + reply) \<times> client" where
  "fetch_gateway a k c =
     (case ar_gateway a (calls c) k of None \<Rightarrow> Inl NotAnswered | Some r \<Rightarrow> Inr r, c\<lparr>calls := calls c @ [k]\<rparr>)"

definition reply_ok :: "reply \<Rightarrow> bool" where
  "reply_ok r \<longleftrightarrow> 200 \<le> reply_status r \<and> reply_status r \<le> 299"

text \<open>\<^verbatim>\<open>problem.type\<close> of \<^verbatim>\<open>null\<close> throws; any value but an object has no such member.\<close>

definition problem_of :: "(string \<times> json) list \<Rightarrow> nat \<Rightarrow> problem" where
  "problem_of ms st =
     \<lparr>prob_type = (if missing (field ms ''type'') then JStr ''about:blank'' else the (field ms ''type'')),
      prob_title = (if missing (field ms ''title'') then JStr ''Request failed'' else the (field ms ''title'')),
      prob_status = st,
      prob_detail = (if missing (field ms ''detail'') then None else field ms ''detail'')\<rparr>"

fun has_address :: "json \<Rightarrow> bool" where
  "has_address (JObj ms) \<longleftrightarrow> field ms ''address'' \<noteq> None"
| "has_address _ \<longleftrightarrow> False"

fun wallets_refused :: "json option \<Rightarrow> json list" where
  "wallets_refused (Some (JArr ws)) = filter has_address ws"
| "wallets_refused _ = []"

definition problemFrom :: "reply \<Rightarrow> client_error" where
  "problemFrom r =
     (if reply_json r = Some JNull then TypeError
      else (let ms = (case reply_json r of Some (JObj ms) \<Rightarrow> ms | _ \<Rightarrow> []);
                document = problem_of ms (reply_status r)
            in if field ms ''type'' = Some (JStr NO_WALLET_AVAILABLE) then NoWalletAvailable document (wallets_refused (field ms ''wallets''))
               else if field ms ''type'' = Some (JStr REQUEST_IN_FLIGHT) then IdempotencyConflict document RequestInFlight
               else if field ms ''type'' = Some (JStr KEY_REUSED) then IdempotencyConflict document KeyReused
               else Problem document))"

text \<open>
  \<open>exchanged\<close> sends one call whose headers may fail to be made, and gives the answer when it is a success.
\<close>

definition exchanged :: "around \<Rightarrow> string \<Rightarrow> string \<Rightarrow> client_error + headers \<Rightarrow> string option \<Rightarrow> client \<Rightarrow>
    (client_error + reply) \<times> client" where
  "exchanged a method path headers body c =
     (case headers of
        Inl e \<Rightarrow> (Inl e, c)
      | Inr hs \<Rightarrow>
          (case fetch_gateway a \<lparr>call_method = method, call_url = base_url c @ path, call_headers = hs, call_body = body\<rparr> c of
             (Inl e, c') \<Rightarrow> (Inl e, c')
           | (Inr r, c') \<Rightarrow> (if reply_ok r then Inr r else Inl (problemFrom r), c')))"

definition body_of :: "reply \<Rightarrow> json" where
  "body_of r = (case reply_json r of None \<Rightarrow> JNull | Some v \<Rightarrow> v)"

subsection \<open>Invoices that were given out\<close>

definition handOut :: "minted \<Rightarrow> string option \<Rightarrow> int \<Rightarrow> (string \<times> string option \<times> int) list \<Rightarrow>
    (client_error + unit) \<times> (string \<times> string option \<times> int) list" where
  "handOut payment key now given =
     (let live = filter (\<lambda>(hash, earlier, until). \<not> until \<le> now) given; hash = lower (rep_hash payment)
      in case map_of live hash of
           Some (earlier, until) \<Rightarrow>
             if earlier = None \<or> earlier \<noteq> key then (Inl (NotProven (GatewayCheat InvoiceReused (rep_id payment))), live)
             else (Inr (), AList.update hash (key, rep_expiresAt payment) live)
         | None \<Rightarrow> (Inr (), AList.update hash (key, rep_expiresAt payment) live))"

subsection \<open>Asking for an invoice\<close>

record create_options =
  opt_key :: "string option"
  opt_trigger :: "string option"
  opt_replay :: "int option"

definition proven_mint :: "around \<Rightarrow> priced \<Rightarrow> int \<Rightarrow> string option \<Rightarrow> reply \<Rightarrow> client \<Rightarrow> (client_error + minted) \<times> client" where
  "proven_mint a asked askedAt key r c =
     (case mintedFromWire (ar_date a) (body_of r) of
        None \<Rightarrow> (Inl (NotWhatWasAsked (reply_status r) ''minted payment''), c)
      | Some payment \<Rightarrow>
          (case proveOrigin (ar_web a) payment asked (Some askedAt) (fetched c) of
             (Inl e, urls) \<Rightarrow> (Inl (NotProven e), c\<lparr>fetched := urls\<rparr>)
           | (Inr _, urls) \<Rightarrow>
               (let c' = c\<lparr>fetched := urls\<rparr>
                in case handOut payment key (ar_clock a (calls c') (fetched c')) (handed_out c') of
                     (Inl e, given) \<Rightarrow> (Inl e, c'\<lparr>handed_out := given\<rparr>)
                   | (Inr _, given) \<Rightarrow> (Inr payment, c'\<lparr>handed_out := given\<rparr>))))"

definition with_key :: "string option \<Rightarrow> headers \<Rightarrow> headers" where
  "with_key key hs = (case truthy key of None \<Rightarrow> hs | Some k \<Rightarrow> put_header ''idempotency-key'' k hs)"

definition mint :: "around \<Rightarrow> paid_to \<Rightarrow> price_error + rat \<Rightarrow> string option \<Rightarrow> create_options \<Rightarrow> client \<Rightarrow>
    (client_error + minted) \<times> client" where
  "mint a to amount webhookUrl opts c =
     (let askedAt = ar_clock a (calls c) (fetched c)
      in case price_charge to amount of
           Inl e \<Rightarrow> (Inl (Charge_Refused e), c)
         | Inr asked \<Rightarrow>
             (case trigger_sent (opt_trigger opts) of
                Inl e \<Rightarrow> (Inl e, c)
              | Inr trig \<Rightarrow>
                  (let body = createRequestBody asked webhookUrl trig (opt_replay opts);
                       headers = and_then (sending_headers a c ''/incoming-payments'' body) (\<lambda>hs. Inr (with_key (opt_key opts) hs))
                   in case exchanged a ''POST'' ''/incoming-payments'' headers (Some body) c of
                        (Inl e, c') \<Rightarrow> (Inl e, c')
                      | (Inr r, c') \<Rightarrow> proven_mint a asked askedAt (opt_key opts) r c')))"

definition quote_charge :: "around \<Rightarrow> paid_to \<Rightarrow> price_error + rat \<Rightarrow> client \<Rightarrow> (client_error + quote_offer) \<times> client" where
  "quote_charge a to amount c =
     (case price_charge to amount of
        Inl e \<Rightarrow> (Inl (Charge_Refused e), c)
      | Inr asked \<Rightarrow>
          (let body = quoteRequestBody asked
           in case exchanged a ''POST'' ''/quotes'' (sending_headers a c ''/quotes'' body) (Some body) c of
                (Inl e, c') \<Rightarrow> (Inl e, c')
              | (Inr r, c') \<Rightarrow>
                  (case quoteFromWire (body_of r) of
                     None \<Rightarrow> (Inl (NotWhatWasAsked (reply_status r) ''quote''), c')
                   | Some offer \<Rightarrow>
                       if \<not> list_ex (\<lambda>address. lower address = lower (offer_address offer)) (priced_to asked)
                       then (Inl (NotProven (GatewayCheat AddressNotRequested [])), c') else (Inr offer, c'))))"

subsection \<open>Asking about payments\<close>

text \<open>\<^verbatim>\<open>proven\<close>: what a report is held against, the name and hash the caller already has where it has any.\<close>

definition proven :: "client_payment \<Rightarrow> held option \<Rightarrow> client_error + client_payment" where
  "proven payment known =
     (let r = reported_of payment
      in if (case known of None \<Rightarrow> False | Some h \<Rightarrow> rep_id r \<noteq> held_id h \<or> lower (rep_hash r) \<noteq> lower (held_hash h))
         then Inl (NotProven (GatewayCheat HashMismatch (rep_id r)))
         else if rep_status r = Paid \<and> \<not> payment_agrees payment
         then Inl (NotProven (GatewayCheat PreimageMismatch (rep_id r)))
         else Inr payment)"

definition payment_read :: "around \<Rightarrow> held \<Rightarrow> client \<Rightarrow> (client_error + client_payment option) \<times> client" where
  "payment_read a known c =
     (let path = ''/incoming-payments/'' @ ar_encode a (held_id known)
      in case reading_headers a c ''GET'' path [] of
           Inl e \<Rightarrow> (Inl e, c)
         | Inr hs \<Rightarrow>
             (case fetch_gateway a \<lparr>call_method = ''GET'', call_url = base_url c @ path, call_headers = hs, call_body = None\<rparr> c of
                (Inl e, c') \<Rightarrow> (Inl e, c')
              | (Inr r, c') \<Rightarrow>
                  (if reply_status r = 404 then Inr None
                   else if \<not> reply_ok r then Inl (problemFrom r)
                   else (case paymentFromWire (ar_date a) (body_of r) of
                           None \<Rightarrow> Inl (NotWhatWasAsked (reply_status r) ''payment'')
                         | Some p \<Rightarrow> and_then (proven p (Some known)) (\<lambda>q. Inr (Some q))), c')))"

fun is_number :: "json \<Rightarrow> bool" where
  "is_number (JNum _) \<longleftrightarrow> True"
| "is_number (JFraction _) \<longleftrightarrow> True"
| "is_number _ \<longleftrightarrow> False"

definition listed_payments :: "(string \<Rightarrow> int option) \<Rightarrow> json \<Rightarrow> (client_payment list \<times> json) option" where
  "listed_payments date_parse body =
     (case body of
        JObj ms \<Rightarrow>
          (case (field ms ''payments'', field ms ''settled_scanned'') of
             (Some (JArr entries), Some scanned) \<Rightarrow>
               if is_number scanned
               then Some (filter (\<lambda>one. rep_status (reported_of one) \<noteq> Paid \<or> payment_agrees one)
                      (List.map_filter (paymentFromWire date_parse) entries), scanned)
               else None
           | _ \<Rightarrow> None)
      | _ \<Rightarrow> None)"

definition payments_list :: "around \<Rightarrow> int option \<Rightarrow> client \<Rightarrow> (client_error + (client_payment list \<times> json)) \<times> client" where
  "payments_list a limit c =
     (let path = ''/incoming-payments'' @ (case limit of None \<Rightarrow> [] | Some n \<Rightarrow> ''?limit='' @ show_int n)
      in case exchanged a ''GET'' path (reading_headers a c ''GET'' path []) None c of
           (Inl e, c') \<Rightarrow> (Inl e, c')
         | (Inr r, c') \<Rightarrow>
             (case listed_payments (ar_date a) (body_of r) of
                None \<Rightarrow> Inl (NotWhatWasAsked (reply_status r) ''payment list'') | Some l \<Rightarrow> Inr l, c'))"

subsection \<open>Handing over a payment to watch\<close>

definition nameFor :: "around \<Rightarrow> client \<Rightarrow> string \<Rightarrow> client_error + string option" where
  "nameFor a c hash =
     (if cl_secret c = None then Inr None
      else (case speaking a c of None \<Rightarrow> Inl NoSigningKey | Some key \<Rightarrow> Inr (Some (paymentNamedBy (publicKeyHex key) hash))))"

definition watched_as_named :: "around \<Rightarrow> client \<Rightarrow> handover \<Rightarrow> reply \<Rightarrow> client_error + client_payment" where
  "watched_as_named a c h r =
     (case paymentFromWire (ar_date a) (body_of r) of
        None \<Rightarrow> Inl (NotWhatWasAsked (reply_status r) ''watched payment'')
      | Some p \<Rightarrow>
          and_then (nameFor a c (hand_paymentHash h)) (\<lambda>named.
            if named \<noteq> None \<and> named \<noteq> Some (rep_id (reported_of p))
            then Inl (NotProven (GatewayCheat IdNotMine (rep_id (reported_of p))))
            else if lower (rep_hash (reported_of p)) \<noteq> lower (hand_paymentHash h)
            then Inl (NotProven (GatewayCheat HashMismatch (rep_id (reported_of p))))
            else Inr p))"

definition client_watch :: "around \<Rightarrow> handover \<Rightarrow> client \<Rightarrow> (client_error + client_payment) \<times> client" where
  "client_watch a h c =
     (case trigger_sent (hand_trigger h) of
        Inl e \<Rightarrow> (Inl e, c)
      | Inr trig \<Rightarrow>
          (case watchRequestBody h trig of
             None \<Rightarrow> (Inl UnusableTime, c)
           | Some body \<Rightarrow>
               (case exchanged a ''POST'' ''/watched-payments'' (sending_headers a c ''/watched-payments'' body) (Some body) c of
                  (Inl e, c') \<Rightarrow> (Inl e, c')
                | (Inr r, c') \<Rightarrow> (watched_as_named a c' h r, c'))))"

subsection \<open>Tickets and what the gateway is asked once\<close>

definition mintedTicket :: "around \<Rightarrow> (string \<times> json option) list \<Rightarrow> client \<Rightarrow> (client_error + socketTicket) \<times> client" where
  "mintedTicket a asked c =
     (let body = stringify (JObj (present asked))
      in case exchanged a ''POST'' ''/ws-tickets'' (sending_headers a c ''/ws-tickets'' body) (Some body) c of
           (Inl e, c') \<Rightarrow> (Inl e, c')
         | (Inr r, c') \<Rightarrow>
             (case socketTicketFromWire (ar_date a) (body_of r) of
                None \<Rightarrow> Inl (NotWhatWasAsked (reply_status r) ''ticket'') | Some t \<Rightarrow> Inr t, c'))"

definition wsTicket :: "around \<Rightarrow> (string \<times> json option) list \<Rightarrow> client \<Rightarrow> (client_error + string) \<times> client" where
  "wsTicket a asked c =
     (case mintedTicket a asked c of (got, c') \<Rightarrow> (and_then got (\<lambda>t. Inr (ar_encode a (sock_ticket t))), c'))"

definition client_ticket :: "around \<Rightarrow> string \<Rightarrow> int option \<Rightarrow> client \<Rightarrow> (client_error + socketTicket) \<times> client" where
  "client_ticket a trig depth c =
     (case unguessable trig of
        Inl e \<Rightarrow> (Inl e, c)
      | Inr secret \<Rightarrow> mintedTicket a [(''trigger_secret'', Some (JStr secret)), (''replay'', map_option JNum depth)] c)"

definition refusesStrangers :: "around \<Rightarrow> client \<Rightarrow> bool \<times> client" where
  "refusesStrangers a c =
     (case strangers c of
        Some known \<Rightarrow> (known, c)
      | None \<Rightarrow>
          (case fetch_gateway a \<lparr>call_method = ''GET'', call_url = base_url c @ ''/incoming-payments/'' @ STRANGER_PROBE,
                  call_headers = [(''accept'', ''application/json'')], call_body = None\<rparr> c of
             (got, c') \<Rightarrow>
               (let refuses = (case got of Inl _ \<Rightarrow> False | Inr r \<Rightarrow> reply_status r = 401)
                in (refuses, c'\<lparr>strangers := Some refuses\<rparr>))))"

definition publishedKey :: "around \<Rightarrow> client \<Rightarrow> (client_error + string) \<times> client" where
  "publishedKey a c =
     (case exchanged a ''GET'' ''/webhook-key'' (Inr []) None c of
        (Inl e, c') \<Rightarrow> (Inl e, c')
      | (Inr r, c') \<Rightarrow>
          (let ms = (case body_of r of JObj ms \<Rightarrow> ms | _ \<Rightarrow> [])
           in case json_string (field ms ''public_key'') of
                Some key \<Rightarrow> if field ms ''algorithm'' = Some (JStr ''ed25519'') then Inr key
                            else Inl (NotWhatWasAsked (reply_status r) ''ed25519 webhook key'')
              | None \<Rightarrow> Inl (NotWhatWasAsked (reply_status r) ''ed25519 webhook key''), c'))"

definition webhookKey :: "around \<Rightarrow> client \<Rightarrow> (client_error + string) \<times> client" where
  "webhookKey a c =
     (case published c of
        Some key \<Rightarrow> (Inr key, c)
      | None \<Rightarrow>
          (case publishedKey a c of
             (Inl e, c') \<Rightarrow> (Inl e, c')
           | (Inr key, c') \<Rightarrow> (Inr key, c'\<lparr>published := Some key\<rparr>)))"

subsection \<open>What a client takes a gateway's word for\<close>

lemma proven_InrD:
  assumes "proven payment (Some known) = Inr got"
  shows "got = payment" "rep_id (reported_of got) = held_id known" "lower (rep_hash (reported_of got)) = lower (held_hash known)"
    "rep_status (reported_of got) = Paid \<longrightarrow> payment_agrees got"
  using assms by (auto simp: proven_def Let_def split: if_splits)

lemma agrees_preimage: "agreesWithItself st secret hash invoice \<Longrightarrow> \<exists>s. secret = Some s \<and> preimageMatchesHash s hash"
  by (auto simp: agreesWithItself_def split: option.splits if_splits)

lemma payment_agrees_preimage:
  "payment_agrees p \<Longrightarrow> \<exists>s. rep_preimage (reported_of p) = Some s \<and> preimageMatchesHash s (rep_hash (reported_of p))"
  by (cases p) (auto simp: reported.defs dest: agrees_preimage)

lemma proven_paid:
  assumes "proven payment (Some known) = Inr got" "rep_status (reported_of got) = Paid"
  shows "\<exists>s. rep_preimage (reported_of got) = Some s \<and> preimageMatchesHash s (held_hash known)"
  using payment_agrees_preimage [of got] proven_InrD [OF assms(1)] assms(2)
  by (auto simp: preimageMatchesHash_def split: if_splits)

lemma exchanged_InrD:
  assumes "exchanged a method path headers body c = (Inr r, c')"
  obtains hs where "headers = Inr hs" "reply_ok r"
    "ar_gateway a (calls c) \<lparr>call_method = method, call_url = base_url c @ path, call_headers = hs, call_body = body\<rparr> = Some r"
    "c' = c\<lparr>calls := calls c @ [\<lparr>call_method = method, call_url = base_url c @ path, call_headers = hs, call_body = body\<rparr>]\<rparr>"
  using assms by (auto simp: exchanged_def fetch_gateway_def split: sum.splits option.splits if_splits)

lemma proven_mint_InrD:
  assumes "proven_mint a asked askedAt key r c = (Inr payment, c')"
  obtains urls given where "mintedFromWire (ar_date a) (body_of r) = Some payment"
    "proveOrigin (ar_web a) payment asked (Some askedAt) (fetched c) = (Inr (), urls)"
    "handOut payment key (ar_clock a (calls c) urls) (handed_out c) = (Inr (), given)"
    "c' = c\<lparr>fetched := urls, handed_out := given\<rparr>"
  using assms by (auto simp: proven_mint_def Let_def split: option.splits sum.splits prod.splits)

lemma handOut_InrD:
  assumes "handOut payment key now given = (Inr (), given')"
  shows "map_of given' (lower (rep_hash payment)) = Some (key, rep_expiresAt payment)"
    and "\<forall>earlier until. (map_of (filter (\<lambda>(hash, earlier, until). \<not> until \<le> now) given) (lower (rep_hash payment)) = Some (earlier, until))
      \<longrightarrow> earlier \<noteq> None \<and> earlier = key"
    and "given' = AList.update (lower (rep_hash payment)) (key, rep_expiresAt payment)
      (filter (\<lambda>(hash, earlier, until). \<not> until \<le> now) given)"
  using assms by (auto simp: handOut_def Let_def update_conv' split: option.splits if_splits)

text \<open>
  C21: an invoice that is handed to a payer came from the recipient. When a mint succeeds, one request was
  posted, for the addresses and the price that were charged; whatever the gateway answered, the invoice
  passed the proof of origin against the recipient's own server for that very price, is not older than
  five minutes; and it is remembered as handed out.
\<close>

theorem mint_proves_the_invoice:
  assumes "mint a to amount webhookUrl opts c = (Inr payment, c')"
  shows "\<exists>asked trig sent listed pay issued.
    price_charge to amount = Inr asked \<and> trigger_sent (opt_trigger opts) = Inr trig \<and>
    calls c' = calls c @ [sent] \<and> call_method sent = ''POST'' \<and> call_url sent = base_url c @ ''/incoming-payments'' \<and>
    call_body sent = Some (createRequestBody asked webhookUrl trig (opt_replay opts)) \<and>
    fetched c' = fetched c @ [pay_url listed, rep_verifyUrl payment] \<and>
    served (ar_web a) (fetched c) (pay_url listed) pay \<and>
    served (ar_web a) (fetched c @ [pay_url listed]) (rep_verifyUrl payment) issued \<and>
    proven_invoice (ar_web a) payment asked (Some (ar_clock a (calls c) (fetched c))) listed pay issued \<and>
    map_of (handed_out c') (lower (rep_hash payment)) = Some (opt_key opts, rep_expiresAt payment)"
proof -
  obtain asked where asked: "price_charge to amount = Inr asked"
    using assms by (auto simp: mint_def Let_def split: sum.splits)
  obtain trig where trig: "trigger_sent (opt_trigger opts) = Inr trig"
    using assms asked by (auto simp: mint_def Let_def split: sum.splits)
  let ?body = "createRequestBody asked webhookUrl trig (opt_replay opts)"
  obtain r mid where
    ex: "exchanged a ''POST'' ''/incoming-payments'' (and_then (sending_headers a c ''/incoming-payments'' ?body)
        (\<lambda>hs. Inr (with_key (opt_key opts) hs))) (Some ?body) c = (Inr r, mid)"
    and fin: "proven_mint a asked (ar_clock a (calls c) (fetched c)) (opt_key opts) r mid = (Inr payment, c')"
    using assms asked trig by (auto simp: mint_def Let_def split: sum.splits prod.splits)
  obtain hs where mid: "mid = c\<lparr>calls := calls c @ [\<lparr>call_method = ''POST'', call_url = base_url c @ ''/incoming-payments'',
      call_headers = hs, call_body = Some ?body\<rparr>]\<rparr>"
    using ex by (rule exchanged_InrD)
  obtain urls given where out: "proveOrigin (ar_web a) payment asked (Some (ar_clock a (calls c) (fetched c))) (fetched mid) = (Inr (), urls)"
    "handOut payment (opt_key opts) (ar_clock a (calls mid) urls) (handed_out mid) = (Inr (), given)"
    "c' = mid\<lparr>fetched := urls, handed_out := given\<rparr>"
    using fin by (rule proven_mint_InrD)
  obtain listed pay issued where "urls = fetched mid @ [pay_url listed, rep_verifyUrl payment]"
    "served (ar_web a) (fetched mid) (pay_url listed) pay"
    "served (ar_web a) (fetched mid @ [pay_url listed]) (rep_verifyUrl payment) issued"
    "proven_invoice (ar_web a) payment asked (Some (ar_clock a (calls c) (fetched c))) listed pay issued"
    using out(1) by (rule proveOrigin_InrD)
  then show ?thesis
    using asked trig handOut_InrD(1) [OF out(2)]
    by (intro exI [where x = asked] exI [where x = trig] exI [where x = listed] exI [where x = pay] exI [where x = issued]
        exI [where x = "\<lparr>call_method = ''POST'', call_url = base_url c @ ''/incoming-payments'', call_headers = hs, call_body = Some ?body\<rparr>"])
      (simp add: mid out(3))
qed

text \<open>
  What a client reads of a payment is about the payment it asked for. A report is answered only under
  the name and the hash the caller holds, and one that says paid carries a preimage of the hash the
  caller holds, whatever hash the gateway names.
\<close>

theorem payment_read_is_proven:
  assumes "payment_read a known c = (Inr (Some p), c')"
  shows "rep_id (reported_of p) = held_id known \<and> lower (rep_hash (reported_of p)) = lower (held_hash known) \<and>
    (rep_status (reported_of p) = Paid \<longrightarrow>
      (\<exists>s. rep_preimage (reported_of p) = Some s \<and> preimageMatchesHash s (held_hash known)))"
proof -
  obtain q where q: "proven q (Some known) = Inr p"
    using assms
    by (auto simp: payment_read_def Let_def split: sum.splits prod.splits option.splits if_splits elim!: and_then_InrE)
  show ?thesis using proven_InrD [OF q] proven_paid [OF q] by blast
qed

lemma watched_named:
  assumes "client_watch a h c = (Inr p, c')"
  shows "lower (rep_hash (reported_of p)) = lower (hand_paymentHash h) \<and>
    (cl_secret c \<noteq> None \<longrightarrow>
      (\<exists>key. speaking a c = Some key \<and> rep_id (reported_of p) = paymentNamedBy (publicKeyHex key) (hand_paymentHash h)))"
proof -
  obtain body r where ex: "exchanged a ''POST'' ''/watched-payments'' (sending_headers a c ''/watched-payments'' body) (Some body) c = (Inr r, c')"
    and p: "watched_as_named a c' h r = Inr p"
    using assms by (auto simp: client_watch_def split: sum.splits option.splits prod.splits)
  obtain hs where "c' = c\<lparr>calls := calls c @ [\<lparr>call_method = ''POST'', call_url = base_url c @ ''/watched-payments'',
      call_headers = hs, call_body = Some body\<rparr>]\<rparr>"
    using ex by (rule exchanged_InrD)
  then have same: "cl_secret c' = cl_secret c" "speaking a c' = speaking a c" by (simp_all add: speaking_def)
  show ?thesis
    using p same
    by (cases "speaking a c") (auto simp: watched_as_named_def nameFor_def split: option.splits if_splits elim!: and_then_InrE)
qed

text \<open>
  A payment that is handed over keeps its name and its hash. When a watch succeeds and the client speaks
  under a key, the gateway watches the payment under the very name the client works out for itself, and
  for the hash that was handed over.
\<close>

theorem watched_under_its_own_name:
  assumes "client_watch a h c = (Inr p, c')"
  shows "lower (rep_hash (reported_of p)) = lower (hand_paymentHash h) \<and>
    (cl_secret c \<noteq> None \<longrightarrow>
      (\<exists>key. speaking a c = Some key \<and> rep_id (reported_of p) = paymentNamedBy (publicKeyHex key) (hand_paymentHash h)))"
  using assms by (rule watched_named)

subsection \<open>One invoice, one order\<close>

text \<open>A history of attempts to hand an invoice out, each with its key and its time, and those that went through.\<close>

fun hand_outs :: "(minted \<times> string option \<times> int) list \<Rightarrow> (string \<times> string option \<times> int) list \<Rightarrow>
    (minted \<times> string option) list" where
  "hand_outs [] given = []"
| "hand_outs ((payment, key, now) # attempts) given =
     (case handOut payment key now given of
        (Inl _, given') \<Rightarrow> hand_outs attempts given'
      | (Inr _, given') \<Rightarrow> (payment, key) # hand_outs attempts given')"

definition all_live :: "(minted \<times> string option \<times> int) list \<Rightarrow> (string \<times> string option \<times> int) list \<Rightarrow> bool" where
  "all_live attempts given \<longleftrightarrow>
     (\<forall>a\<in>set attempts. (\<forall>g\<in>set given. snd (snd a) < snd (snd g)) \<and>
        (\<forall>b\<in>set attempts. snd (snd a) < rep_expiresAt (fst b)))"

lemma all_live_filter:
  "all_live ((payment, key, now) # attempts) given \<Longrightarrow> filter (\<lambda>(hash, earlier, until). \<not> until \<le> now) given = given"
  by (rule filter_True) (fastforce simp: all_live_def)

lemma set_update_subset: "set (AList.update k v al) \<subseteq> insert (k, v) (set al)"
  by (induction al) auto

lemma all_live_next:
  assumes "all_live ((payment, key, now) # attempts) given"
  shows "all_live attempts given" "all_live attempts (AList.update h (key, rep_expiresAt payment) given)"
proof -
  show "all_live attempts given" using assms by (simp add: all_live_def)
  have "\<And>x. x \<in> set (AList.update h (key, rep_expiresAt payment) given) \<Longrightarrow>
      x = (h, key, rep_expiresAt payment) \<or> x \<in> set given"
    using set_update_subset [of h "(key, rep_expiresAt payment)" given] by blast
  then show "all_live attempts (AList.update h (key, rep_expiresAt payment) given)"
    using assms unfolding all_live_def by fastforce
qed

lemma handOut_live:
  assumes "all_live ((payment, key, now) # attempts) given"
  shows "handOut payment key now given =
    (let hash = lower (rep_hash payment)
     in case map_of given hash of
          Some (earlier, until) \<Rightarrow>
            if earlier = None \<or> earlier \<noteq> key then (Inl (NotProven (GatewayCheat InvoiceReused (rep_id payment))), given)
            else (Inr (), AList.update hash (key, rep_expiresAt payment) given)
        | None \<Rightarrow> (Inr (), AList.update hash (key, rep_expiresAt payment) given))"
  unfolding handOut_def all_live_filter [OF assms] Let_def by simp

lemma hand_outs_step:
  assumes "all_live ((payment, key, now) # attempts) given"
  obtains (refused) "hand_outs ((payment, key, now) # attempts) given = hand_outs attempts given" "all_live attempts given"
  | (out) given' where "given' = AList.update (lower (rep_hash payment)) (key, rep_expiresAt payment) given"
      "hand_outs ((payment, key, now) # attempts) given = (payment, key) # hand_outs attempts given'" "all_live attempts given'"
      "\<And>k u. map_of given (lower (rep_hash payment)) = Some (k, u) \<Longrightarrow> k \<noteq> None \<and> k = key"
proof (cases "fst (handOut payment key now given)")
  case (Inl e)
  then have "handOut payment key now given = (Inl e, given)"
    using handOut_live [OF assms] by (auto simp: Let_def split: option.splits if_splits)
  then show ?thesis using refused all_live_next(1) [OF assms] by simp
next
  case (Inr u)
  let ?given = "AList.update (lower (rep_hash payment)) (key, rep_expiresAt payment) given"
  have "handOut payment key now given = (Inr (), ?given)"
    and held: "\<And>k u. map_of given (lower (rep_hash payment)) = Some (k, u) \<Longrightarrow> k \<noteq> None \<and> k = key"
    using Inr handOut_live [OF assms] by (auto simp: Let_def split: option.splits if_splits)
  then show ?thesis using out [OF refl _ all_live_next(2) [OF assms] held] by simp
qed

lemma held_key_binds:
  assumes "all_live attempts given" "map_of given h = Some (key, until)" "(payment, key') \<in> set (hand_outs attempts given)"
    and "lower (rep_hash payment) = h"
  shows "key' = key \<and> key \<noteq> None"
  using assms(1-3)
proof (induction attempts arbitrary: given until)
  case (Cons attempt attempts)
  obtain payment' key'' now where a: "attempt = (payment', key'', now)" by (cases attempt)
  from Cons.prems(1) [unfolded a] show ?case
  proof (cases rule: hand_outs_step)
    case refused
    then show ?thesis using Cons.IH [OF refused(2) Cons.prems(2)] Cons.prems(3) a by simp
  next
    case (out given')
    obtain until' where there: "map_of given' h = Some (key, until')"
      using Cons.prems(2) out(4) by (cases "lower (rep_hash payment') = h") (auto simp: out(1) update_conv')
    show ?thesis
    proof (cases "(payment, key') = (payment', key'')")
      case True
      then show ?thesis using out(4) Cons.prems(2) assms(4) by auto
    next
      case False
      then have "(payment, key') \<in> set (hand_outs attempts given')"
        using Cons.prems(3) unfolding a out(2) by auto
      then show ?thesis by (rule Cons.IH [OF out(3) there])
    qed
  qed
qed simp

text \<open>
  C22: one invoice is handed to one order. As long as the expiries the gateway reports lie ahead, two mints
  that both handed out an invoice of the same payment hash were made under the same idempotency key, and
  under a key at all, whatever the gateway answered and however many came between.
\<close>

theorem invoice_handed_out_once:
  assumes "all_live attempts []" "i < j" "j < length (hand_outs attempts [])"
    and "lower (rep_hash (fst (hand_outs attempts [] ! i))) = lower (rep_hash (fst (hand_outs attempts [] ! j)))"
  shows "snd (hand_outs attempts [] ! i) = snd (hand_outs attempts [] ! j) \<and> snd (hand_outs attempts [] ! i) \<noteq> None"
proof -
  define outs where "outs = hand_outs attempts []"
  have "snd (outs ! i) = snd (outs ! j) \<and> snd (outs ! i) \<noteq> None"
    if "all_live attempts given" "outs = hand_outs attempts given" "i < j" "j < length outs"
      "lower (rep_hash (fst (outs ! i))) = lower (rep_hash (fst (outs ! j)))" for given outs
    using that
  proof (induction attempts arbitrary: given outs i j)
    case (Cons attempt attempts)
    obtain payment key now where a: "attempt = (payment, key, now)" by (cases attempt)
    from Cons.prems(1) [unfolded a] show ?case
    proof (cases rule: hand_outs_step)
      case refused
      have "outs = hand_outs attempts given" using Cons.prems(2) a refused(1) by simp
      from Cons.IH [OF refused(2) this Cons.prems(3-5)] show ?thesis .
    next
      case (out given')
      let ?rest = "hand_outs attempts given'"
      have outs: "outs = (payment, key) # ?rest" using out(2) Cons.prems(2) a by simp
      obtain j' where j: "j = Suc j'" "j' < length ?rest" using Cons.prems(3,4) outs by (cases j) auto
      show ?thesis
      proof (cases i)
        case 0
        have there: "map_of given' (lower (rep_hash payment)) = Some (key, rep_expiresAt payment)"
          by (simp add: out(1) update_conv')
        have "(fst (?rest ! j'), snd (?rest ! j')) \<in> set ?rest" using j(2) by simp
        moreover have "lower (rep_hash (fst (?rest ! j'))) = lower (rep_hash payment)" using Cons.prems(5) outs 0 j by simp
        ultimately have "snd (?rest ! j') = key \<and> key \<noteq> None" by (rule held_key_binds [OF out(3) there])
        then show ?thesis using outs 0 j by simp
      next
        case (Suc i')
        then have "i' < j'" "lower (rep_hash (fst (?rest ! i'))) = lower (rep_hash (fst (?rest ! j')))"
          using Cons.prems(3,5) outs j by simp_all
        from Cons.IH [OF out(3) refl this(1) j(2) this(2)] show ?thesis unfolding outs Suc j nth_Cons_Suc .
      qed
    qed
  qed simp
  from this [OF assms(1) refl assms(2-4)] show ?thesis .
qed

text \<open>
  That condition is not the client's to keep. The expiry it files an invoice under is the gateway's word:
  no proof looks at it, and a gateway that reports one already past is handed a second order for the very
  same invoice, under any keys or none.
\<close>

theorem past_expiry_hides_reuse:
  assumes "expired \<le> now" "now \<le> later" "distinct (map fst given)" "lower (rep_hash payment) \<notin> fst ` set given"
    and "lower (rep_hash again) = lower (rep_hash payment)"
  shows "proveOrigin w (payment\<lparr>rep_expiresAt := expired\<rparr>) asked askedAt urls = proveOrigin w payment asked askedAt urls \<and>
    (\<exists>given'. handOut (payment\<lparr>rep_expiresAt := expired\<rparr>) key now given = (Inr (), given') \<and>
      fst (handOut again key' later given') = Inr ())"
proof -
  let ?live = "filter (\<lambda>(hash, earlier, until). \<not> until \<le> now) given" and ?h = "lower (rep_hash payment)"
  have new: "map_of ?live ?h = None" using assms(4) by (force simp: map_of_eq_None_iff)
  have first: "handOut (payment\<lparr>rep_expiresAt := expired\<rparr>) key now given = (Inr (), AList.update ?h (key, expired) ?live)"
    using new by (simp add: handOut_def Let_def)
  have "AList.update ?h (key, expired) ?live = ?live @ [(?h, key, expired)]"
    using new by (induction given) (auto split: if_splits)
  moreover have "map_of (filter (\<lambda>(hash, earlier, until). \<not> until \<le> later) (?live @ [(?h, key, expired)])) ?h = None"
    using assms(1,2,4) by (auto simp: map_of_eq_None_iff)
  ultimately have gone: "map_of (filter (\<lambda>(hash, earlier, until). \<not> until \<le> later) (AList.update ?h (key, expired) ?live)) ?h = None"
    by (simp only:)
  have "fst (handOut again key' later (AList.update ?h (key, expired) ?live)) = Inr ()"
    unfolding handOut_def Let_def assms(5) gone by simp
  moreover have "proveOrigin w (payment\<lparr>rep_expiresAt := expired\<rparr>) asked askedAt urls = proveOrigin w payment asked askedAt urls"
    by (simp add: proveOrigin_def prove_invoice_def prove_served_def prove_issued_def payRequestFor_def reachable_def
        cong: option.case_cong if_cong sum.case_cong prod.case_cong)
  ultimately show ?thesis using first by blast
qed

subsection \<open>A client at work\<close>

definition sale_wire :: json where
  "sale_wire =
     JObj [(''id'', JStr ''p-1''), (''ln_address'', JStr ''me@pay.example.com''), (''incoming_amount'', amount_of_msat 1000),
           (''status'', JStr ''pending''), (''bolt11'', JStr sale_invoice), (''payment_hash'', JStr (bytesToHex sale_hash)),
           (''verify_url'', JStr ''https://pay.example.com/v''), (''expires_at'', JStr ''later''), (''created_at'', JStr ''now'')]"

definition client_here :: "string option \<Rightarrow> client" where
  "client_here secret =
     \<lparr>base_url = ''https://gateway.example'', cl_token = None, cl_secret = secret, handed_out = [], strangers = None,
      published = None, calls = [], fetched = []\<rparr>"

definition around_here :: "json \<Rightarrow> around" where
  "around_here said =
     \<lparr>ar_gateway = (\<lambda>_ _. Some \<lparr>reply_status = 200, reply_json = Some said\<rparr>), ar_web = sale_web [sample_pay, fresh_issue],
      ar_clock = (\<lambda>_ _. 0), ar_draw = (\<lambda>_. sample_nonce),
      ar_platform = sample_platform\<lparr>ed25519_import := (\<lambda>_. Some (hex_times ''5a'' 32, \<lambda>_. hex_times ''07'' 64))\<rparr>,
      ar_date = (\<lambda>text. Some (if text = ''later'' then 1700003600000 else 1700000000000)), ar_encode = id\<rparr>"

lemma sale_wire_read: "mintedFromWire (ar_date (around_here said)) sale_wire = Some sale"
  by (simp add: mintedFromWire_def paymentFromWire_def reportedFrom_def sale_wire_def secondsFrom_def around_here_def
      text_or_null_def wire_status_def status_of_def msatFrom_written MAX_SAFE_INTEGER_def minted_of_def sale_def reported.defs minted.defs)

lemma exchanged_here:
  "exchanged (around_here said) method path (Inr hs) body c =
     (Inr \<lparr>reply_status = 200, reply_json = Some said\<rparr>,
      c\<lparr>calls := calls c @ [\<lparr>call_method = method, call_url = base_url c @ path, call_headers = hs, call_body = body\<rparr>]\<rparr>)"
  by (simp add: exchanged_def fetch_gateway_def around_here_def reply_ok_def)

lemma clock_here: "ar_clock (around_here said) k f = 0"
  by (simp add: around_here_def)

lemma web_here: "ar_web (around_here said) = sale_web [sample_pay, fresh_issue]"
  by (simp add: around_here_def)

lemma sale_minted:
  "\<exists>c. mint (around_here sale_wire) (OneAddress ''me@pay.example.com'') (Inr 1000) None
     \<lparr>opt_key = None, opt_trigger = None, opt_replay = None\<rparr> (client_here None) = (Inr sale, c)"
proof -
  let ?a = "around_here sale_wire" and ?c = "client_here None"
  have priced: "price_charge (OneAddress ''me@pay.example.com'') (Inr 1000) = Inr sale_asked"
    by (simp add: price_charge_def amountNow_def msat_def MAX_SAFE_INTEGER_def sale_asked_def)
  have origin: "proveOrigin (sale_web [sample_pay, fresh_issue]) sale sale_asked (Some 0) [] =
      (Inr (), [pay_url ''me@pay.example.com'', rep_verifyUrl sale])"
  proof (rule sale_origin)
    show "[sample_pay, fresh_issue] ! 1 = JObj [(''pr'', JStr sale_invoice), (''settled'', JBool False)]"
      by (simp add: fresh_issue_def)
  qed (simp_all add: prove_issued_def equalIgnoringCase_def sale_def)
  have "proven_mint ?a sale_asked 0 None r c' = (Inr sale, c'\<lparr>fetched := [pay_url ''me@pay.example.com'', rep_verifyUrl sale],
      handed_out := [(lower (rep_hash sale), None, rep_expiresAt sale)]\<rparr>)"
    if "r = \<lparr>reply_status = 200, reply_json = Some sale_wire\<rparr>" "fetched c' = []" "handed_out c' = []" for r c'
    using that origin sale_wire_read by (simp add: proven_mint_def body_of_def around_here_def handOut_def Let_def)
  then show ?thesis
    by (simp add: mint_def priced trigger_sent_def truthy_def sending_headers_def reading_headers_def client_here_def
        exchanged_here clock_here with_key_def Let_def)
qed

lemma mint_proves_the_invoice_witness:
  "\<exists>(c' :: client) asked trig sent listed pay issued.
    price_charge (OneAddress ''me@pay.example.com'') (Inr 1000) = Inr asked \<and> trigger_sent None = Inr trig \<and>
    calls c' = [sent] \<and> call_method sent = ''POST'' \<and> call_url sent = ''https://gateway.example/incoming-payments'' \<and>
    call_body sent = Some (createRequestBody asked None trig None) \<and>
    fetched c' = [pay_url listed, rep_verifyUrl sale] \<and>
    served (sale_web [sample_pay, fresh_issue]) [] (pay_url listed) pay \<and>
    served (sale_web [sample_pay, fresh_issue]) [pay_url listed] (rep_verifyUrl sale) issued \<and>
    proven_invoice (sale_web [sample_pay, fresh_issue]) sale asked (Some 0) listed pay issued \<and>
    map_of (handed_out c') (lower (rep_hash sale)) = Some (None, rep_expiresAt sale)"
proof -
  obtain c' where "mint (around_here sale_wire) (OneAddress ''me@pay.example.com'') (Inr 1000) None
     \<lparr>opt_key = None, opt_trigger = None, opt_replay = None\<rparr> (client_here None) = (Inr sale, c')"
    using sale_minted by blast
  from mint_proves_the_invoice [OF this] show ?thesis
    by - (rule exI [where x = c'], simp add: client_here_def clock_here web_here)
qed

definition paid_wire :: json where
  "paid_wire =
     JObj [(''id'', JStr ''p-1''), (''status'', JStr ''paid''), (''payment_hash'', JStr (bytesToHex sale_hash)),
           (''verify_url'', JStr ''https://pay.example.com/v''), (''preimage'', JStr ''00ff''), (''expires_at'', JStr ''later''),
           (''created_at'', JStr ''now'')]"

definition paid_report :: reported where
  "paid_report =
     \<lparr>rep_id = ''p-1'', rep_status = Paid, rep_hash = bytesToHex sale_hash, rep_verifyUrl = ''https://pay.example.com/v'',
      rep_preimage = Some ''00ff'', rep_expiresAt = 1700003600, rep_createdAt = 1700000000, rep_sealed = None\<rparr>"

lemma paid_wire_read: "paymentFromWire (ar_date (around_here said)) paid_wire = Some (WatchedPayment paid_report)"
  by (simp add: paymentFromWire_def reportedFrom_def paid_wire_def secondsFrom_def around_here_def text_or_null_def
      wire_status_def status_of_def paid_report_def missing_def)

lemma sale_preimage: "preimageMatchesHash ''00ff'' (bytesToHex sale_hash)"
  using proveSettlement_preimage by (simp add: sale_def)

lemma payment_read_is_proven_witness:
  "\<exists>c'. payment_read (around_here paid_wire) \<lparr>held_id = ''p-1'', held_hash = bytesToHex sale_hash\<rparr> (client_here None) =
      (Inr (Some (WatchedPayment paid_report)), c') \<and> preimageMatchesHash ''00ff'' (bytesToHex sale_hash)"
proof -
  let ?known = "\<lparr>held_id = ''p-1'', held_hash = bytesToHex sale_hash\<rparr>"
  have "proven (WatchedPayment paid_report) (Some ?known) = Inr (WatchedPayment paid_report)"
    using sale_preimage by (simp add: proven_def paid_report_def agreesWithItself_def)
  then obtain c' where "payment_read (around_here paid_wire) ?known (client_here None) = (Inr (Some (WatchedPayment paid_report)), c')"
    using paid_wire_read [of paid_wire]
    by (simp add: payment_read_def reading_headers_def client_here_def fetch_gateway_def Let_def)
      (simp add: around_here_def reply_ok_def body_of_def)
  from this payment_read_is_proven [OF this] show ?thesis by (auto simp: paid_report_def)
qed

definition watched_wire :: json where
  "watched_wire =
     JObj [(''id'', JStr (paymentNamedBy (hex_times ''5a'' 32) ''ab'')), (''status'', JStr ''pending''), (''payment_hash'', JStr ''ab''),
           (''verify_url'', JStr ''https://pay.example.com/v''), (''expires_at'', JStr ''later''), (''created_at'', JStr ''now'')]"

definition handed_ab :: handover where
  "handed_ab =
     \<lparr>hand_paymentHash = ''ab'', hand_verifyUrl = ''https://pay.example.com/v'', hand_expiresAt = 1700003600, hand_trigger = None,
      hand_replay = None, hand_sealed = None, hand_webhookUrl = None\<rparr>"

lemma speaking_here:
  "speaking (around_here said) (client_here (Some ''secret'')\<lparr>base_url := base\<rparr>) =
     Some \<lparr>publicKeyHex = hex_times ''5a'' 32, sign_payload = (\<lambda>_. hex_times ''07'' 64)\<rparr>"
  by (simp add: speaking_def client_here_def callerKey_def signingKeyFromSeed_def SEED_BYTES_def around_here_def)

lemma signed_here:
  "\<exists>hs. signedAs (ar_platform (around_here said)) \<lparr>publicKeyHex = hex_times ''5a'' 32, sign_payload = (\<lambda>_. hex_times ''07'' 64)\<rparr>
     method path body host 0 (ar_draw (around_here said) k) = Some hs"
  by (simp add: signedAs_def signedBy_def signatureBase_def client_message_def covered_by_def CLIENT_SIGNS_def componentValue_def
      is_header_name_def is_token_char_def is_digit_def is_letter_def code_def starts_with_code Let_def header_get_def around_here_def
      sample_platform_def lower_def lower_char_def split: option.split sum.split)

lemma watch_here:
  "\<exists>p c'. client_watch (around_here watched_wire) handed_ab (client_here (Some ''secret'')\<lparr>base_url := base\<rparr>) = (Inr p, c')"
proof -
  let ?a = "around_here watched_wire" and ?c = "client_here (Some ''secret'')\<lparr>base_url := base\<rparr>"
  have parsed: "web_parse (ar_web ?a) (base_url ?c) = Some sample_url" by (simp add: web_here sale_web_def)
  obtain body where body: "watchRequestBody handed_ab None = Some body"
    by (simp add: watchRequestBody_def handed_ab_def usable_time_def MAX_TIME_def del: stringify.simps)
  obtain hs where "sending_headers ?a ?c ''/watched-payments'' body = Inr hs"
    using signed_here [of watched_wire "''POST''" "''/watched-payments''" body "url_host sample_url" "[]"] speaking_here [of watched_wire base] parsed
    by (auto simp: sending_headers_def reading_headers_def clock_here client_here_def Let_def)
  moreover have "paymentFromWire (ar_date ?a) watched_wire = Some (WatchedPayment
      \<lparr>rep_id = paymentNamedBy (hex_times ''5a'' 32) ''ab'', rep_status = Pending, rep_hash = ''ab'', rep_verifyUrl = ''https://pay.example.com/v'',
       rep_preimage = None, rep_expiresAt = 1700003600, rep_createdAt = 1700000000, rep_sealed = None\<rparr>)"
    by (simp add: paymentFromWire_def reportedFrom_def watched_wire_def secondsFrom_def around_here_def text_or_null_def
        wire_status_def status_of_def missing_def)
  ultimately show ?thesis
    using body speaking_here [of watched_wire base]
    by (simp add: client_watch_def trigger_sent_def truthy_def exchanged_here handed_ab_def watched_as_named_def body_of_def nameFor_def
        speaking_def)
qed

lemma watched_under_its_own_name_witness:
  "\<exists>p c'. client_watch (around_here watched_wire) handed_ab (client_here (Some ''secret'')) = (Inr p, c') \<and>
     rep_id (reported_of p) = paymentNamedBy (hex_times ''5a'' 32) ''ab''"
proof -
  obtain p c' where "client_watch (around_here watched_wire) handed_ab (client_here (Some ''secret'')) = (Inr p, c')"
    using watch_here [of "base_url (client_here (Some ''secret''))"] by (auto simp: client_here_def)
  from this watched_under_its_own_name [OF this] show ?thesis
    using speaking_here [of watched_wire "base_url (client_here (Some ''secret''))"] by (auto simp: handed_ab_def client_here_def)
qed

lemma invoice_handed_out_once_witness:
  "length (hand_outs [(sale, Some ''k'', 0), (sale, Some ''j'', 1), (sale, Some ''k'', 2)] []) = 2 \<and>
   snd (hand_outs [(sale, Some ''k'', 0), (sale, Some ''j'', 1), (sale, Some ''k'', 2)] [] ! 0) =
     snd (hand_outs [(sale, Some ''k'', 0), (sale, Some ''j'', 1), (sale, Some ''k'', 2)] [] ! 1)"
proof -
  let ?attempts = "[(sale, Some ''k'', 0), (sale, Some ''j'', 1), (sale, Some ''k'', 2)]"
  have outs: "hand_outs ?attempts [] = [(sale, Some ''k''), (sale, Some ''k'')]"
    by (simp add: handOut_def Let_def sale_def)
  have "all_live ?attempts []" by (simp add: all_live_def sale_def)
  from invoice_handed_out_once [OF this, of 0 1, unfolded outs] show ?thesis unfolding outs by simp
qed

lemma past_expiry_hides_reuse_witness:
  "\<exists>given'. handOut (sale\<lparr>rep_expiresAt := 0\<rparr>) None 10 [] = (Inr (), given') \<and> fst (handOut sale None 20 given') = Inr ()"
  using past_expiry_hides_reuse [of 0 10 20 "[]" sale sale "sale_web []" sale_asked None "[]" None None] by simp

end
