(* ===== verification/Waiting.thy ===== *)
theory Waiting
  imports Client Agents
begin

text \<open>
  The sockets of \<^verbatim>\<open>sdk/src/client.ts\<close>, the waits of \<^verbatim>\<open>sdk/src/gateways.ts\<close> and
  \<^verbatim>\<open>sdk/src/request.ts\<close>: a wait on one payment with its reconnections, the race between several payments
  and between several gateways, following a trigger and attending. A wait is a state that reacts to what
  happens to it; what can happen in which state is the relation \<open>waits\<close>. The lemmas show which lost
  connections end a wait, that an open silent socket does not, what a wait ends with, and who wins a race.
\<close>

subsection \<open>Backing off\<close>

text \<open>\<open>drawn\<close> is \<^verbatim>\<open>Math.random()\<close>, at least 0 and below 1.\<close>

definition backoffMs :: "rounding \<Rightarrow> int \<Rightarrow> nat \<Rightarrow> rat \<Rightarrow> int" where
  "backoffMs fl firstDelay attempt drawn =
     (let grown = min (firstDelay * 2 ^ (attempt - 1)) RECONNECT_CAP_MS
      in math_round (fl (of_int grown * fl (1 / 2 + drawn / 2))))"

lemma backoff_bounds:
  assumes "ieee fl" "0 \<le> drawn" "drawn \<le> 1" "2 \<le> firstDelay"
  shows "1 \<le> backoffMs fl firstDelay attempt drawn \<and> backoffMs fl firstDelay attempt drawn \<le> RECONNECT_CAP_MS"
proof -
  define grown where "grown = min (firstDelay * 2 ^ (attempt - 1)) RECONNECT_CAP_MS"
  have "1 \<le> (2 :: int) ^ (attempt - 1)" by simp
  then have "firstDelay * 1 \<le> firstDelay * 2 ^ (attempt - 1)" using assms(4) by (intro mult_left_mono) simp_all
  then have "2 \<le> firstDelay * 2 ^ (attempt - 1)" using assms(4) by linarith
  then have grown: "2 \<le> grown" "grown \<le> 30000"
    unfolding grown_def RECONNECT_CAP_MS_def by linarith+
  have mono: "fl x \<le> fl y" if "x \<le> y" for x y using assms(1) that by (simp add: ieee_def mono_def)
  have exact: "fl (of_int n) = of_int n" "fl (of_int n / 2) = of_int n / 2" if "\<bar>n\<bar> \<le> 2 ^ 53" for n
    using assms(1) that by (simp_all add: ieee_def)
  have "fl (of_int 1 / 2) = of_int 1 / 2" "fl (of_int 1) = of_int 1" by (rule exact; simp)+
  then have part: "1 / 2 \<le> fl (1 / 2 + drawn / 2)" "fl (1 / 2 + drawn / 2) \<le> 1"
    using mono [of "1 / 2" "1 / 2 + drawn / 2"] mono [of "1 / 2 + drawn / 2" 1] assms(2,3) by simp_all
  have "of_int grown * (1 / 2) \<le> of_int grown * fl (1 / 2 + drawn / 2)"
    "of_int grown * fl (1 / 2 + drawn / 2) \<le> of_int grown * 1"
    using part grown by (intro mult_left_mono; simp)+
  then have "fl (of_int grown / 2) \<le> fl (of_int grown * fl (1 / 2 + drawn / 2))"
    "fl (of_int grown * fl (1 / 2 + drawn / 2)) \<le> fl (of_int grown)"
    using mono by simp_all
  then have "of_int grown / 2 \<le> fl (of_int grown * fl (1 / 2 + drawn / 2))"
    "fl (of_int grown * fl (1 / 2 + drawn / 2)) \<le> of_int grown"
    using exact [of grown] grown by simp_all
  moreover have "(1 :: rat) \<le> of_int grown / 2" using grown by simp
  ultimately have "1 \<le> fl (of_int grown * fl (1 / 2 + drawn / 2))" "fl (of_int grown * fl (1 / 2 + drawn / 2)) \<le> of_int 30000"
    using grown by (linarith, linarith)
  then have "1 \<le> math_round (fl (of_int grown * fl (1 / 2 + drawn / 2)))"
    "math_round (fl (of_int grown * fl (1 / 2 + drawn / 2))) \<le> 30000"
    unfolding math_round_def by linarith+
  then show ?thesis by (simp add: backoffMs_def grown_def RECONNECT_CAP_MS_def Let_def)
qed

subsection \<open>Waiting for one payment\<close>

datatype wait_end =
    EndedWith json
  | Aborted
  | TicketRefused client_error
  | NobodyAnswered
  | PastExpiry
  | BadFrame

text \<open>Where a wait is: asking for a ticket, with a socket, or until its timer fires.\<close>

datatype stage = Ticketing | Connected | Retrying

record waiting =
  w_stage :: stage
  w_attempt :: nat
  w_expires :: "int option"
  w_end :: "wait_end option"

text \<open>What happens to a wait; a time is in milliseconds and a frame \<^const>\<open>None\<close> when it is no JSON.\<close>

datatype wait_event =
    TicketCame "client_error + string" int
  | Frame "json option"
  | Dropped int
  | TimerFired
  | AbortAsked

definition wait_settle :: "wait_end \<Rightarrow> waiting \<Rightarrow> waiting" where
  "wait_settle e w = (if w_end w \<noteq> None then w else w\<lparr>w_end := Some e\<rparr>)"

definition wait_again :: "int \<Rightarrow> waiting \<Rightarrow> waiting" where
  "wait_again now w =
     (if w_end w \<noteq> None then w
      else if w_expires w = None \<and> w_attempt w \<ge> UNANSWERED_ATTEMPTS then wait_settle NobodyAnswered w
      else if (case w_expires w of None \<Rightarrow> False | Some e \<Rightarrow> now \<ge> e * 1000) then wait_settle PastExpiry w
      else w\<lparr>w_stage := Retrying\<rparr>)"

definition wait_connect :: "bool \<Rightarrow> waiting \<Rightarrow> waiting" where
  "wait_connect tickets w =
     (if w_end w \<noteq> None then w
      else w\<lparr>w_attempt := w_attempt w + 1, w_stage := (if tickets then Ticketing else Connected)\<rparr>)"

definition wait_begins :: "bool \<Rightarrow> bool \<Rightarrow> waiting" where
  "wait_begins aborted tickets =
     (let w = \<lparr>w_stage = Retrying, w_attempt = 0, w_expires = None, w_end = None\<rparr>
      in if aborted then w\<lparr>w_end := Some Aborted\<rparr> else wait_connect tickets w)"

text \<open>\<^verbatim>\<open>instanceof ProblemError\<close>.\<close>

fun is_problem :: "client_error \<Rightarrow> bool" where
  "is_problem (Problem _) \<longleftrightarrow> True"
| "is_problem (NoWalletAvailable _ _) \<longleftrightarrow> True"
| "is_problem (IdempotencyConflict _ _) \<longleftrightarrow> True"
| "is_problem (NotWhatWasAsked _ _) \<longleftrightarrow> True"
| "is_problem _ \<longleftrightarrow> False"

definition TERMINAL :: "status list" where "TERMINAL = [Paid, Expired]"

definition wait_hears :: "(string \<Rightarrow> int option) \<Rightarrow> json option \<Rightarrow> waiting \<Rightarrow> waiting" where
  "wait_hears date_parse frame w =
     (case frame of
        None \<Rightarrow> wait_settle BadFrame w
      | Some v \<Rightarrow>
          (case paymentFromWire date_parse v of
             None \<Rightarrow> w
           | Some p \<Rightarrow>
               (let w' = w\<lparr>w_expires := Some (rep_expiresAt (reported_of p)), w_attempt := 1\<rparr>
                in if rep_status (reported_of p) \<in> set TERMINAL then wait_settle (EndedWith v) w' else w')))"

fun wait_step :: "(string \<Rightarrow> int option) \<Rightarrow> bool \<Rightarrow> wait_event \<Rightarrow> waiting \<Rightarrow> waiting" where
  "wait_step date_parse tickets (TicketCame got now) w =
     (case got of
        Inl e \<Rightarrow> if is_problem e then wait_settle (TicketRefused e) w else wait_again now w
      | Inr _ \<Rightarrow> if w_end w \<noteq> None then w else w\<lparr>w_stage := Connected\<rparr>)"
| "wait_step date_parse tickets (Frame frame) w = wait_hears date_parse frame w"
| "wait_step date_parse tickets (Dropped now) w = wait_again now w"
| "wait_step date_parse tickets TimerFired w = wait_connect tickets w"
| "wait_step date_parse tickets AbortAsked w = wait_settle Aborted w"

text \<open>An event reaches a wait in the stage it belongs to; once a wait has ended nothing does.\<close>

fun can_happen :: "wait_event \<Rightarrow> waiting \<Rightarrow> bool" where
  "can_happen (TicketCame _ _) w \<longleftrightarrow> w_stage w = Ticketing \<and> w_end w = None"
| "can_happen (Frame _) w \<longleftrightarrow> w_stage w = Connected \<and> w_end w = None"
| "can_happen (Dropped _) w \<longleftrightarrow> w_stage w = Connected \<and> w_end w = None"
| "can_happen TimerFired w \<longleftrightarrow> w_stage w = Retrying \<and> w_end w = None"
| "can_happen AbortAsked w \<longleftrightarrow> w_end w = None"

inductive waits :: "(string \<Rightarrow> int option) \<Rightarrow> bool \<Rightarrow> waiting \<Rightarrow> wait_event list \<Rightarrow> waiting \<Rightarrow> bool"
  for date_parse tickets where
  none: "waits date_parse tickets w [] w"
| more: "can_happen e w \<Longrightarrow> waits date_parse tickets (wait_step date_parse tickets e w) es w' \<Longrightarrow>
    waits date_parse tickets w (e # es) w'"

inductive_cases waits_NilE: "waits date_parse tickets w [] w'"
inductive_cases waits_ConsE: "waits date_parse tickets w (e # es) w'"
inductive_simps waits_Nil [simp]: "waits date_parse tickets w [] w'"
inductive_simps waits_Cons [simp]: "waits date_parse tickets w (e # es) w'"

text \<open>What \<^verbatim>\<open>settled\<close> makes of the end of a wait.\<close>

datatype settled_error = WaitFailed wait_end | Client_Error client_error

definition settled_with :: "(string \<Rightarrow> int option) \<Rightarrow> held \<Rightarrow> wait_end \<Rightarrow> settled_error + client_payment" where
  "settled_with date_parse known e =
     (case e of
        EndedWith v \<Rightarrow>
          (case paymentFromWire date_parse v of
             None \<Rightarrow> Inl (Client_Error (NotWhatWasAsked 200 ''payment''))
           | Some p \<Rightarrow> (case proven p (Some known) of Inl err \<Rightarrow> Inl (Client_Error err) | Inr q \<Rightarrow> Inr q))
      | _ \<Rightarrow> Inl (WaitFailed e))"

subsection \<open>A wait comes to an end\<close>

text \<open>A frame that reads as a payment, which is what an answer is.\<close>

fun answers :: "(string \<Rightarrow> int option) \<Rightarrow> wait_event \<Rightarrow> bool" where
  "answers date_parse (Frame (Some v)) \<longleftrightarrow> paymentFromWire date_parse v \<noteq> None"
| "answers date_parse _ \<longleftrightarrow> False"

fun is_frame :: "wait_event \<Rightarrow> bool" where
  "is_frame (Frame _) \<longleftrightarrow> True"
| "is_frame _ \<longleftrightarrow> False"

definition stage_rank :: "stage \<Rightarrow> nat" where
  "stage_rank s = (case s of Ticketing \<Rightarrow> 2 | Connected \<Rightarrow> 1 | Retrying \<Rightarrow> 0)"

text \<open>How much can still happen to a wait that nobody answers.\<close>

definition patience :: "waiting \<Rightarrow> nat" where
  "patience w = (if w_end w \<noteq> None then 0 else 3 * (UNANSWERED_ATTEMPTS - w_attempt w) + stage_rank (w_stage w) + 1)"

definition not_answered :: "waiting \<Rightarrow> bool" where
  "not_answered w \<longleftrightarrow> w_expires w = None \<and>
     (w_end w = None \<longrightarrow> w_attempt w \<le> UNANSWERED_ATTEMPTS \<and> (w_stage w = Retrying \<longrightarrow> w_attempt w < UNANSWERED_ATTEMPTS))"

lemmas wait_ops = wait_settle_def wait_again_def wait_connect_def wait_hears_def

lemma not_answered_step:
  assumes "not_answered w" "can_happen e w" "\<not> answers date_parse e"
  shows "not_answered (wait_step date_parse tickets e w)"
  using assms
  by (cases e; cases "w_stage w")
    (auto simp: not_answered_def wait_ops UNANSWERED_ATTEMPTS_def split: sum.split option.splits)

lemma patience_step:
  assumes "not_answered w" "can_happen e w" "\<not> answers date_parse e"
  shows "patience (wait_step date_parse tickets e w) + (if is_frame e then 0 else 1) \<le> patience w"
  using assms
  by (cases e; cases "w_stage w")
    (auto simp: not_answered_def patience_def stage_rank_def wait_ops UNANSWERED_ATTEMPTS_def split: sum.split option.splits)

lemma patience_runs_out:
  assumes "waits date_parse tickets w es w'" "not_answered w" "\<forall>e\<in>set es. \<not> answers date_parse e"
  shows "length (filter (\<lambda>e. \<not> is_frame e) es) + patience w' \<le> patience w \<and> not_answered w'"
  using assms
proof (induction rule: waits.induct)
  case (more e w es w')
  then show ?case
    using not_answered_step [OF more.prems(1) more.hyps(1), of date_parse tickets]
      patience_step [OF more.prems(1) more.hyps(1), of date_parse tickets] by auto
qed simp

lemma wait_begins_end [simp]: "w_end (wait_begins aborted tickets) = (if aborted then Some Aborted else None)"
  by (simp add: wait_begins_def Let_def wait_connect_def)

lemma wait_begins_not_answered: "not_answered (wait_begins aborted tickets)"
  "patience (wait_begins aborted tickets) \<le> 15"
  by (simp_all add: wait_begins_def Let_def not_answered_def patience_def wait_connect_def UNANSWERED_ATTEMPTS_def stage_rank_def)

text \<open>A connection that is lost, or that cannot be made for want of a ticket.\<close>

fun lost :: "wait_event \<Rightarrow> bool" where
  "lost (Dropped _) \<longleftrightarrow> True"
| "lost (TicketCame (Inl e) _) \<longleftrightarrow> \<not> is_problem e"
| "lost _ \<longleftrightarrow> False"

definition losses :: "waiting \<Rightarrow> nat" where
  "losses w = (if w_stage w = Retrying then w_attempt w else w_attempt w - 1)"

definition connecting :: "waiting \<Rightarrow> bool" where
  "connecting w \<longleftrightarrow> not_answered w \<and> (w_end w = None \<longrightarrow> w_stage w \<noteq> Retrying \<longrightarrow> 0 < w_attempt w)"

lemma connecting_step:
  fixes tickets date_parse e w
  defines "w' \<equiv> wait_step date_parse tickets e w"
  assumes "connecting w" "can_happen e w" "\<not> answers date_parse e"
  shows "connecting w' \<and> losses w < UNANSWERED_ATTEMPTS \<and>
    (w_end w' = None \<longrightarrow> losses w' = losses w + (if lost e then 1 else 0)) \<and>
    (w_end w' = Some NobodyAnswered \<longleftrightarrow> lost e \<and> Suc (losses w) = UNANSWERED_ATTEMPTS) \<and>
    w_end w' \<noteq> Some PastExpiry \<and> (\<forall>v. w_end w' \<noteq> Some (EndedWith v))"
  using assms(2-4) unfolding w'_def
  by (cases e; cases "w_stage w")
    (auto simp: connecting_def not_answered_def losses_def wait_ops UNANSWERED_ATTEMPTS_def split: sum.split option.splits)

lemma can_happen_open: "can_happen e w \<Longrightarrow> w_end w = None"
  by (cases e) simp_all

lemma losses_counted:
  assumes "waits date_parse tickets w es w'" "connecting w" "\<forall>e\<in>set es. \<not> answers date_parse e" "w_end w = None"
  shows "(w_end w' = None \<longrightarrow> losses w' = losses w + length (filter lost es)) \<and>
    (w_end w' = Some NobodyAnswered \<longleftrightarrow> losses w + length (filter lost es) = UNANSWERED_ATTEMPTS) \<and>
    losses w + length (filter lost es) \<le> UNANSWERED_ATTEMPTS \<and>
    w_end w' \<noteq> Some PastExpiry \<and> (\<forall>v. w_end w' \<noteq> Some (EndedWith v))"
  using assms
proof (induction rule: waits.induct)
  case (none w)
  then have "losses w < UNANSWERED_ATTEMPTS"
    by (auto simp: connecting_def not_answered_def losses_def UNANSWERED_ATTEMPTS_def split: if_splits)
  with none show ?case by simp
next
  case (more e w es w')
  let ?w1 = "wait_step date_parse tickets e w"
  have step: "connecting ?w1 \<and> losses w < UNANSWERED_ATTEMPTS \<and>
      (w_end ?w1 = None \<longrightarrow> losses ?w1 = losses w + (if lost e then 1 else 0)) \<and>
      (w_end ?w1 = Some NobodyAnswered \<longleftrightarrow> lost e \<and> Suc (losses w) = UNANSWERED_ATTEMPTS) \<and>
      w_end ?w1 \<noteq> Some PastExpiry \<and> (\<forall>v. w_end ?w1 \<noteq> Some (EndedWith v))"
    using more.prems more.hyps(1) by (intro connecting_step) simp_all
  show ?case
  proof (cases "w_end ?w1")
    case None
    with more.IH more.prems step show ?thesis by (cases "lost e") auto
  next
    case (Some ended)
    then have "es = [] \<and> w' = ?w1"
      using more.hyps(2) can_happen_open by (cases es) (auto elim: waits_ConsE)
    with step Some show ?thesis by auto
  qed
qed


text \<open>A connection that is lost, or cannot be made, once every expiry that was reported is past.\<close>

fun late :: "int \<Rightarrow> wait_event \<Rightarrow> bool" where
  "late expiry (Dropped now) \<longleftrightarrow> expiry * 1000 \<le> now"
| "late expiry (TicketCame (Inl e) now) \<longleftrightarrow> expiry * 1000 \<le> now"
| "late expiry _ \<longleftrightarrow> False"

fun reports_by :: "(string \<Rightarrow> int option) \<Rightarrow> int \<Rightarrow> wait_event \<Rightarrow> bool" where
  "reports_by date_parse expiry (Frame (Some v)) \<longleftrightarrow>
     (case paymentFromWire date_parse v of None \<Rightarrow> True | Some p \<Rightarrow> rep_expiresAt (reported_of p) \<le> expiry)"
| "reports_by date_parse expiry _ \<longleftrightarrow> True"

definition tries_left :: "waiting \<Rightarrow> nat" where
  "tries_left w =
     (if w_end w \<noteq> None then 0
      else if w_expires w \<noteq> None then 1
      else UNANSWERED_ATTEMPTS - w_attempt w + (if w_stage w = Retrying then 0 else 1))"

definition answered_by :: "int \<Rightarrow> waiting \<Rightarrow> bool" where
  "answered_by expiry w \<longleftrightarrow> (w_expires w = None \<longrightarrow> not_answered w) \<and> (\<forall>e. w_expires w = Some e \<longrightarrow> e \<le> expiry)"

lemma tries_step:
  assumes "answered_by expiry w" "can_happen e w" "reports_by date_parse expiry e"
  shows "tries_left (wait_step date_parse tickets e w) + (if late expiry e then 1 else 0) \<le> tries_left w \<and>
    answered_by expiry (wait_step date_parse tickets e w)"
proof (cases e)
  case (TicketCame got now)
  then show ?thesis
    using assms by (cases got)
      (auto simp: answered_by_def tries_left_def not_answered_def wait_ops UNANSWERED_ATTEMPTS_def split: option.splits)
next
  case (Frame f)
  then show ?thesis
    using assms by (cases f)
      (auto simp: answered_by_def tries_left_def not_answered_def wait_ops UNANSWERED_ATTEMPTS_def Let_def split: option.splits)
qed (use assms in \<open>auto simp: answered_by_def tries_left_def not_answered_def wait_ops UNANSWERED_ATTEMPTS_def split: option.splits\<close>)

text \<open>
  A wait ends once its payment can no longer be paid. Whatever the gateway reports, at most five
  connections are lost or refused after the last expiry it reported: the fifth loss at the latest ends
  the wait, and the first does when the gateway ever answered.
\<close>

theorem expired_wait_ends:
  assumes "waits date_parse tickets (wait_begins aborted tickets) es w" "\<forall>e\<in>set es. reports_by date_parse expiry e"
  shows "length (filter (late expiry) es) \<le> UNANSWERED_ATTEMPTS \<and>
    (\<forall>now. w_stage w = Connected \<and> w_expires w \<noteq> None \<and> expiry * 1000 \<le> now \<longrightarrow>
      w_end (wait_step date_parse tickets (Dropped now) w) \<noteq> None)"
proof -
  have "length (filter (late expiry) es) + tries_left w \<le> tries_left x \<and> answered_by expiry w"
    if "waits date_parse tickets x es w" "answered_by expiry x" "\<forall>e\<in>set es. reports_by date_parse expiry e" for x
    using that
  proof (induction rule: waits.induct)
    case (more e x es w')
    have "tries_left (wait_step date_parse tickets e x) + (if late expiry e then 1 else 0) \<le> tries_left x \<and>
        answered_by expiry (wait_step date_parse tickets e x)"
      using more.prems more.hyps(1) by (intro tries_step) simp_all
    with more show ?case by (auto split: if_splits)
  qed simp
  moreover have "answered_by expiry (wait_begins aborted tickets)" "tries_left (wait_begins aborted tickets) \<le> UNANSWERED_ATTEMPTS"
    using wait_begins_not_answered(1) [of aborted tickets]
    by (simp_all add: answered_by_def tries_left_def wait_begins_def Let_def wait_connect_def UNANSWERED_ATTEMPTS_def)
  ultimately have "length (filter (late expiry) es) + tries_left w \<le> UNANSWERED_ATTEMPTS" "answered_by expiry w"
    using assms by (meson order_trans)+
  then show ?thesis by (auto simp: answered_by_def wait_again_def wait_settle_def split: option.splits)
qed

text \<open>
  C23: a wait answers only for the payment it was asked to wait for. Whatever frames came, what \<open>settled\<close>
  answers was one of them, is under the name and the hash the caller holds, has come to an end, and when
  that end is paid carries a preimage of the hash the caller holds.
\<close>

theorem settled_is_proven:
  assumes "waits date_parse tickets (wait_begins aborted tickets) es w" "w_end w = Some e"
    and "settled_with date_parse known e = Inr p"
  shows "(\<exists>v. Frame (Some v) \<in> set es \<and> paymentFromWire date_parse v = Some p) \<and>
    rep_id (reported_of p) = held_id known \<and> lower (rep_hash (reported_of p)) = lower (held_hash known) \<and>
    rep_status (reported_of p) \<in> {Paid, Expired} \<and>
    (rep_status (reported_of p) = Paid \<longrightarrow>
      (\<exists>s. rep_preimage (reported_of p) = Some s \<and> preimageMatchesHash s (held_hash known)))"
proof -
  obtain v where e: "e = EndedWith v" using assms(3) by (cases e) (auto simp: settled_with_def)
  obtain q where q: "paymentFromWire date_parse v = Some q" "proven q (Some known) = Inr p"
    using assms(3) by (auto simp: settled_with_def e split: option.splits sum.splits)
  note facts = proven_InrD [OF q(2)]
  have "w_end x = Some (EndedWith v) \<or>
      (Frame (Some v) \<in> set es \<and> (\<exists>p. paymentFromWire date_parse v = Some p \<and> rep_status (reported_of p) \<in> set TERMINAL))"
    if "waits date_parse tickets x es w" "w_end w = Some (EndedWith v)" for x
    using that
  proof (induction rule: waits.induct)
    case (more e x es w')
    have "w_end x = Some (EndedWith v) \<or> e = Frame (Some v) \<and>
        (\<exists>p. paymentFromWire date_parse v = Some p \<and> rep_status (reported_of p) \<in> set TERMINAL)"
      if "w_end (wait_step date_parse tickets e x) = Some (EndedWith v)"
      using that by (cases e) (auto simp: wait_ops Let_def split: sum.splits option.splits if_splits)
    with more show ?case by auto
  qed simp
  from this [OF assms(1) assms(2) [unfolded e]]
  have "Frame (Some v) \<in> set es" "rep_status (reported_of q) \<in> {Paid, Expired}"
    using q(1) by (auto simp: wait_begins_def Let_def wait_connect_def TERMINAL_def split: if_splits)
  then show ?thesis using q facts proven_paid [OF q(2)] by auto
qed

subsection \<open>Waiting for several payments\<close>

fun is_cheat :: "settled_error \<Rightarrow> bool" where
  "is_cheat (Client_Error (NotProven (GatewayCheat _ _))) \<longleftrightarrow> True"
| "is_cheat _ \<longleftrightarrow> False"

type_synonym ending = "settled_error + client_payment"

definition is_paid :: "client_payment \<Rightarrow> bool" where
  "is_paid p \<longleftrightarrow> rep_status (reported_of p) = Paid"

definition first_of :: "settled_error option \<Rightarrow> settled_error \<Rightarrow> settled_error option" where
  "first_of refused e = (case refused of None \<Rightarrow> Some e | Some _ \<Rightarrow> refused)"

definition all_lost :: "settled_error option \<Rightarrow> settled_error + client_payment option" where
  "all_lost refused = (case refused of None \<Rightarrow> Inr None | Some e \<Rightarrow> Inl e)"

text \<open>The legs end one after another; \<^const>\<open>None\<close> is a race that still runs.\<close>

fun race :: "nat \<Rightarrow> settled_error option \<Rightarrow> ending list \<Rightarrow> (settled_error + client_payment option) option" where
  "race remaining refused [] = None"
| "race remaining refused (Inr p # endings) =
     (if is_paid p then Some (Inr (Some p))
      else if remaining - 1 = 0 then Some (all_lost refused) else race (remaining - 1) refused endings)"
| "race remaining refused (Inl e # endings) =
     (if is_cheat e then Some (Inl e)
      else if remaining - 1 = 0 then Some (all_lost (first_of refused e)) else race (remaining - 1) (first_of refused e) endings)"

definition firstSettled :: "nat \<Rightarrow> ending list \<Rightarrow> (settled_error + client_payment option) option" where
  "firstSettled legs endings = (if legs = 0 then Some (Inr None) else race legs None endings)"

text \<open>What decides a race before every leg has ended.\<close>

fun decides :: "ending \<Rightarrow> bool" where
  "decides (Inr p) \<longleftrightarrow> is_paid p"
| "decides (Inl e) \<longleftrightarrow> is_cheat e"

definition first_failure :: "ending list \<Rightarrow> settled_error option" where
  "first_failure endings = map_option projl (find isl endings)"

lemma race_decided:
  assumes "length endings \<le> remaining" "0 < remaining"
  shows "race remaining refused endings =
    (case find decides endings of
       Some (Inr p) \<Rightarrow> Some (Inr (Some p))
     | Some (Inl e) \<Rightarrow> Some (Inl e)
     | None \<Rightarrow> if length endings < remaining then None
               else Some (all_lost (case refused of None \<Rightarrow> first_failure endings | Some e \<Rightarrow> Some e)))"
  using assms
proof (induction remaining refused endings rule: race.induct)
  case (2 remaining refused p endings)
  then show ?case by (cases endings) (auto simp: first_failure_def split: option.split)
next
  case (3 remaining refused e endings)
  then show ?case by (cases endings) (auto simp: first_failure_def first_of_def split: option.split)
qed simp

text \<open>
  The first payment that is really paid wins, and a lie that is caught before it ends the wait. Among
  the endings that came, the first that is a paid payment or a caught gateway is the outcome; without
  one the race goes on until every leg has ended, and is then lost, with the first failure if any leg
  failed and without one when all just ended unpaid.
\<close>

theorem first_settled_decides:
  assumes "length endings \<le> legs"
  shows "firstSettled legs endings =
    (case find decides endings of
       Some (Inr p) \<Rightarrow> Some (Inr (Some p))
     | Some (Inl e) \<Rightarrow> Some (Inl e)
     | None \<Rightarrow> if length endings < legs then None else Some (all_lost (first_failure endings)))"
  using race_decided [OF assms, of None] assms
  by (cases legs) (auto simp: firstSettled_def all_lost_def first_failure_def split: option.split sum.split)

subsection \<open>Several gateways\<close>

record gateways =
  gw_urls :: "string list"
  gw_each :: "client list"

definition Gateways :: "url_parser \<Rightarrow> string list \<Rightarrow> string option \<Rightarrow> string option \<Rightarrow> (client_error + gateways) option" where
  "Gateways parse baseUrls token secret =
     (if baseUrls = [] then None
      else Some (case those_of (map (\<lambda>u. case ThunderBridge parse u token secret of Inl _ \<Rightarrow> None | Inr c \<Rightarrow> Some c) baseUrls) of
                   None \<Rightarrow> Inl NotAUrl
                 | Some each \<Rightarrow> Inr \<lparr>gw_urls = baseUrls, gw_each = each\<rparr>))"

definition gateways_nameFor :: "around \<Rightarrow> gateways \<Rightarrow> string \<Rightarrow> client_error + string option" where
  "gateways_nameFor a g hash = nameFor a (hd (gw_each g)) hash"

text \<open>The answers in the order of the gateways: the payment to go on with, and the refusals that are reported.\<close>

definition gateways_watch :: "gateways \<Rightarrow> (client_error + client_payment) list \<Rightarrow>
    (client_error + client_payment) \<times> (string \<times> client_error) list" where
  "gateways_watch g asked =
     (let refusals = List.map_filter (\<lambda>(url, answer). case answer of Inl e \<Rightarrow> Some (url, e) | Inr _ \<Rightarrow> None) (zip (gw_urls g) asked);
          taken = List.map_filter (\<lambda>answer. case answer of Inl _ \<Rightarrow> None | Inr p \<Rightarrow> Some p) asked
      in (case taken of
            p # _ \<Rightarrow> Inr p
          | [] \<Rightarrow> Inl (snd (hd refusals)), refusals))"

text \<open>The endings in the order they came, each with its gateway; the liars are reported as they are caught.\<close>

fun gateways_race :: "nat \<Rightarrow> client_payment list \<Rightarrow> settled_error option \<Rightarrow> (string \<times> ending) list \<Rightarrow>
    ending option \<times> (string \<times> settled_error) list" where
  "gateways_race remaining unpaid refused [] = (None, [])"
| "gateways_race remaining unpaid refused ((url, Inr p) # endings) =
     (if is_paid p then (Some (Inr p), [])
      else if remaining - 1 = 0 then (Some (Inr (hd (unpaid @ [p]))), [])
      else gateways_race (remaining - 1) (unpaid @ [p]) refused endings)"
| "gateways_race remaining unpaid refused ((url, Inl e) # endings) =
     (let caught = (if is_cheat e then [(url, e)] else []); refused' = first_of refused e
      in if remaining - 1 = 0
         then (Some (case unpaid of p # _ \<Rightarrow> Inr p | [] \<Rightarrow> Inl (the refused')), caught)
         else (case gateways_race (remaining - 1) unpaid refused' endings of (got, later) \<Rightarrow> (got, caught @ later)))"

definition gateways_settled :: "gateways \<Rightarrow> (string \<times> ending) list \<Rightarrow> ending option \<times> (string \<times> settled_error) list" where
  "gateways_settled g endings = gateways_race (length (gw_each g)) [] None endings"

definition pays_here :: "ending \<Rightarrow> bool" where
  "pays_here e = (case e of Inr p \<Rightarrow> is_paid p | Inl _ \<Rightarrow> False)"

definition caught_of :: "(string \<times> ending) list \<Rightarrow> (string \<times> settled_error) list" where
  "caught_of endings =
     List.map_filter (\<lambda>(url, e). case e of Inl err \<Rightarrow> if is_cheat err then Some (url, err) else None | Inr _ \<Rightarrow> None) endings"

lemma gateways_race_decided:
  assumes "length endings \<le> remaining" "0 < remaining"
  shows "gateways_race remaining unpaid refused endings =
    (case find pays_here (map snd endings) of
       Some e \<Rightarrow> Some e
     | None \<Rightarrow> if length endings < remaining then None
               else Some (case unpaid @ List.map_filter (\<lambda>e. case e of Inr p \<Rightarrow> Some p | Inl _ \<Rightarrow> None) (map snd endings) of
                            p # _ \<Rightarrow> Inr p
                          | [] \<Rightarrow> Inl (the (case refused of None \<Rightarrow> first_failure (map snd endings) | Some e \<Rightarrow> Some e))),
     caught_of (takeWhile (\<lambda>(_, e). \<not> pays_here e) endings))"
  using assms
proof (induction endings arbitrary: remaining unpaid refused)
  case (Cons head endings)
  obtain url e where head: "head = (url, e)" by (cases head)
  show ?case
  proof (cases "remaining - 1 = 0")
    case True
    then have "endings = []" "remaining = 1" using Cons.prems by (cases endings; simp)+
    then show ?thesis
      by (cases e; cases unpaid; cases refused)
        (simp_all add: head pays_here_def caught_of_def List.map_filter_simps first_failure_def first_of_def)
  next
    case False
    then have left: "length endings \<le> remaining - 1" "0 < remaining - 1" "(length (head # endings) < remaining) = (length endings < remaining - 1)"
      using Cons.prems by auto
    note IH = Cons.IH [OF left(1,2)]
    show ?thesis
    proof (cases e)
      case (Inl err)
      have a: "first_failure (map snd (head # endings)) = Some err" by (simp add: first_failure_def head Inl)
      have b: "find pays_here (map snd (head # endings)) = find pays_here (map snd endings)"
        by (simp add: head Inl pays_here_def)
      have c: "caught_of (takeWhile (\<lambda>(_, e). \<not> pays_here e) (head # endings)) =
          (if is_cheat err then [(url, err)] else []) @ caught_of (takeWhile (\<lambda>(_, e). \<not> pays_here e) endings)"
        by (simp add: head Inl pays_here_def caught_of_def List.map_filter_simps)
      have d: "List.map_filter (\<lambda>e. case e of Inr p \<Rightarrow> Some p | Inl _ \<Rightarrow> None) (map snd (head # endings)) =
          List.map_filter (\<lambda>e. case e of Inr p \<Rightarrow> Some p | Inl _ \<Rightarrow> None) (map snd endings)"
        by (simp add: head Inl List.map_filter_simps)
      have e: "gateways_race remaining unpaid refused (head # endings) =
          (case gateways_race (remaining - 1) unpaid (first_of refused err) endings of
             (got, later) \<Rightarrow> (got, (if is_cheat err then [(url, err)] else []) @ later))"
        using False by (simp add: head Inl Let_def)
      show ?thesis
        unfolding e IH left(3) a b c d by (cases refused) (simp_all add: first_of_def cong: option.case_cong list.case_cong)
    next
      case (Inr p)
      show ?thesis
      proof (cases "is_paid p")
        case True
        then show ?thesis by (simp add: head Inr pays_here_def caught_of_def List.map_filter_simps)
      next
        case unpaid_leg: False
        have e: "gateways_race remaining unpaid refused (head # endings) = gateways_race (remaining - 1) (unpaid @ [p]) refused endings"
          using False unpaid_leg by (simp add: head Inr)
        have a: "first_failure (map snd (head # endings)) = first_failure (map snd endings)"
          by (simp add: first_failure_def head Inr)
        have b: "find pays_here (map snd (head # endings)) = find pays_here (map snd endings)"
          using unpaid_leg by (simp add: head Inr pays_here_def)
        have c: "caught_of (takeWhile (\<lambda>(_, e). \<not> pays_here e) (head # endings)) =
            caught_of (takeWhile (\<lambda>(_, e). \<not> pays_here e) endings)"
          using unpaid_leg by (simp add: head Inr pays_here_def caught_of_def List.map_filter_simps)
        have d: "List.map_filter (\<lambda>e. case e of Inr p \<Rightarrow> Some p | Inl _ \<Rightarrow> None) (map snd (head # endings)) =
            p # List.map_filter (\<lambda>e. case e of Inr p \<Rightarrow> Some p | Inl _ \<Rightarrow> None) (map snd endings)"
          by (simp add: head Inr List.map_filter_simps)
        show ?thesis unfolding e IH left(3) a b c d by (cases unpaid) (simp_all cong: option.case_cong list.case_cong)
      qed
    qed
  qed
qed (simp add: caught_of_def List.map_filter_simps)

text \<open>
  One gateway that speaks the truth is enough, and one that lies is named. Watching at several gateways,
  the wait answers the first payment that is really paid, however many failed or were caught before it;
  without one it ends when the last gateway did, with the first that ended unpaid or else the first
  failure; and exactly the gateways that were caught before that are reported, in the order they were.
\<close>

theorem gateways_settle:
  assumes "length endings \<le> length (gw_each g)" "gw_each g \<noteq> []"
  shows "gateways_settled g endings =
    (case find pays_here (map snd endings) of
       Some e \<Rightarrow> Some e
     | None \<Rightarrow> if length endings < length (gw_each g) then None
               else Some (case List.map_filter (\<lambda>e. case e of Inr p \<Rightarrow> Some p | Inl _ \<Rightarrow> None) (map snd endings) of
                            p # _ \<Rightarrow> Inr p
                          | [] \<Rightarrow> Inl (the (first_failure (map snd endings)))),
     caught_of (takeWhile (\<lambda>(_, e). \<not> pays_here e) endings))"
  using assms by (simp add: gateways_settled_def gateways_race_decided cong: option.case_cong list.case_cong)

text \<open>
  Every gateway gives a payment the same name. Two watches that succeed for one handover, at any two
  gateways and in any surroundings on one platform, under one secret, are of payments of the same name
  and, up to case, the same hash.
\<close>

theorem gateways_agree_on_the_name:
  assumes "client_watch a h c = (Inr p, c')" "client_watch b h d = (Inr q, d')"
    and "ar_platform a = ar_platform b" "cl_secret c = Some secret" "cl_secret d = Some secret"
  shows "rep_id (reported_of p) = rep_id (reported_of q) \<and> lower (rep_hash (reported_of p)) = lower (rep_hash (reported_of q))"
proof -
  have "speaking a c = speaking b d" using assms(3-5) by (simp add: speaking_def)
  moreover note watched_named [OF assms(1)] watched_named [OF assms(2)]
  ultimately show ?thesis using assms(4,5) by auto
qed

subsection \<open>Following a trigger\<close>

record follow_options =
  fo_replay :: "int option"
  fo_reconnect :: "bool option"
  fo_tickets :: "bool option"

record following =
  k_stopped :: bool
  k_stage :: "stage option"
  k_attempt :: nat

datatype follow_event =
    FollowTicket "client_error + string"
  | Opened
  | Heard "json option"
  | Failed
  | Lost
  | Fired
  | Stopped

text \<open>What a follower is told: a payment, or an error.\<close>

datatype follow_error = NoTicket client_error | NoJson | NotBelieved client_error | SocketError

datatype told = OnPayment client_payment | OnError follow_error

definition again_unless :: "bool option \<Rightarrow> following \<Rightarrow> following" where
  "again_unless reconnect k = (if k_stopped k \<or> reconnect = Some False then k\<lparr>k_stage := None\<rparr> else k\<lparr>k_stage := Some Retrying\<rparr>)"

definition follow_connect :: "bool \<Rightarrow> following \<Rightarrow> following" where
  "follow_connect tickets k =
     k\<lparr>k_attempt := k_attempt k + 1, k_stage := (if tickets then Some Ticketing else if k_stopped k then None else Some Connected)\<rparr>"

definition follow_begins :: "bool \<Rightarrow> string \<Rightarrow> client_error + following" where
  "follow_begins tickets secret =
     and_then (unguessable secret) (\<lambda>_. Inr (follow_connect tickets \<lparr>k_stopped = False, k_stage = None, k_attempt = 0\<rparr>))"

definition follow_hears :: "(string \<Rightarrow> int option) \<Rightarrow> json option \<Rightarrow> told list" where
  "follow_hears date_parse frame =
     (case frame of
        None \<Rightarrow> [OnError NoJson]
      | Some v \<Rightarrow>
          (case paymentFromWire date_parse v of
             None \<Rightarrow> []
           | Some p \<Rightarrow> (case proven p None of Inl e \<Rightarrow> [OnError (NotBelieved e)] | Inr q \<Rightarrow> [OnPayment q])))"

fun follow_step :: "(string \<Rightarrow> int option) \<Rightarrow> bool \<Rightarrow> bool option \<Rightarrow> follow_event \<Rightarrow> following \<Rightarrow> told list \<times> following" where
  "follow_step date_parse tickets reconnect (FollowTicket got) k =
     (case got of
        Inl e \<Rightarrow> ([OnError (NoTicket e)], again_unless reconnect k)
      | Inr _ \<Rightarrow> ([], k\<lparr>k_stage := (if k_stopped k then None else Some Connected)\<rparr>))"
| "follow_step date_parse tickets reconnect Opened k = ([], k\<lparr>k_attempt := 1\<rparr>)"
| "follow_step date_parse tickets reconnect (Heard frame) k = (follow_hears date_parse frame, k)"
| "follow_step date_parse tickets reconnect Failed k = ([OnError SocketError], k)"
| "follow_step date_parse tickets reconnect Lost k = ([], again_unless reconnect k)"
| "follow_step date_parse tickets reconnect Fired k = ([], follow_connect tickets k)"
| "follow_step date_parse tickets reconnect Stopped k =
     ([], k\<lparr>k_stopped := True, k_stage := (if k_stage k = Some Retrying then None else k_stage k)\<rparr>)"

fun follow_can :: "follow_event \<Rightarrow> following \<Rightarrow> bool" where
  "follow_can (FollowTicket _) k \<longleftrightarrow> k_stage k = Some Ticketing"
| "follow_can Opened k \<longleftrightarrow> k_stage k = Some Connected \<and> \<not> k_stopped k"
| "follow_can (Heard _) k \<longleftrightarrow> k_stage k = Some Connected \<and> \<not> k_stopped k"
| "follow_can Failed k \<longleftrightarrow> k_stage k = Some Connected"
| "follow_can Lost k \<longleftrightarrow> k_stage k = Some Connected"
| "follow_can Fired k \<longleftrightarrow> k_stage k = Some Retrying"
| "follow_can Stopped k \<longleftrightarrow> True"

inductive follows_on :: "(string \<Rightarrow> int option) \<Rightarrow> bool \<Rightarrow> bool option \<Rightarrow> following \<Rightarrow> follow_event list \<Rightarrow> told list \<Rightarrow> following \<Rightarrow> bool"
  for date_parse tickets reconnect where
  still: "follows_on date_parse tickets reconnect k [] [] k"
| step: "follow_can e k \<Longrightarrow> follow_step date_parse tickets reconnect e k = (now, k') \<Longrightarrow>
    follows_on date_parse tickets reconnect k' es rest k'' \<Longrightarrow> follows_on date_parse tickets reconnect k (e # es) (now @ rest) k''"

inductive_simps follows_on_Nil [simp]: "follows_on date_parse tickets reconnect k [] said k'"
inductive_simps follows_on_Cons: "follows_on date_parse tickets reconnect k (e # es) said k'"

definition connects :: "follow_event \<Rightarrow> bool" where
  "connects e \<longleftrightarrow> e = Fired"

lemma stopped_stays:
  assumes "follows_on date_parse tickets reconnect k es said k'" "k_stopped k" "k_stage k \<noteq> Some Retrying"
  shows "k_stopped k' \<and> k_stage k' \<noteq> Some Retrying \<and> \<not> list_ex connects es \<and> (\<forall>p. OnPayment p \<notin> set said)"
  using assms
proof (induction rule: follows_on.induct)
  case (step e k now k' es rest k'')
  have "k_stopped k' \<and> k_stage k' \<noteq> Some Retrying \<and> \<not> connects e \<and> (\<forall>p. OnPayment p \<notin> set now)"
    using step.hyps(1,2) step.prems
    by (cases e) (auto simp: again_unless_def follow_connect_def connects_def split: sum.splits)
  with step show ?case by auto
qed simp

text \<open>
  Who follows a trigger hears only reports that prove themselves, and nothing once stopped. Whatever
  arrives, a payment that is passed on was read from a frame that came, and one that says paid carries
  a preimage of its own hash; once the follower has been stopped no payment is passed on any more and
  no new connection is made.
\<close>

theorem followed_payments_prove_themselves:
  assumes "follows_on date_parse tickets reconnect k es said k'"
  shows "(\<forall>p. OnPayment p \<in> set said \<longrightarrow>
      (\<exists>v. Heard (Some v) \<in> set es \<and> paymentFromWire date_parse v = Some p) \<and>
      (is_paid p \<longrightarrow> (\<exists>s. rep_preimage (reported_of p) = Some s \<and> preimageMatchesHash s (rep_hash (reported_of p))))) \<and>
    (\<forall>before after. es = before @ Stopped # after \<longrightarrow>
      \<not> list_ex connects after \<and> (\<exists>first last. said = first @ last \<and> (\<forall>p. OnPayment p \<notin> set last) \<and>
         (\<exists>k1. follows_on date_parse tickets reconnect k before first k1)))"
  using assms
proof (induction rule: follows_on.induct)
  case (step e k now k' es rest k'')
  have heard: "\<exists>v. e = Heard (Some v) \<and> paymentFromWire date_parse v = Some p \<and> proven p None = Inr p" if "OnPayment p \<in> set now" for p
    using step.hyps(2) that
    by (cases e) (auto simp: follow_hears_def proven_def Let_def split: option.splits sum.splits if_splits)
  have agrees: "\<exists>s. rep_preimage (reported_of p) = Some s \<and> preimageMatchesHash s (rep_hash (reported_of p))"
    if "proven p None = Inr p" "is_paid p" for p
    using that payment_agrees_preimage [of p] by (auto simp: proven_def is_paid_def Let_def split: if_splits)
  have "\<not> list_ex connects after \<and> (\<exists>first last. now @ rest = first @ last \<and> (\<forall>p. OnPayment p \<notin> set last) \<and>
      (\<exists>k1. follows_on date_parse tickets reconnect k before first k1))"
    if split: "e # es = before @ Stopped # after" for before after
  proof (cases before)
    case Nil
    then have "e = Stopped" "es = after" using split by simp_all
    then have "k_stopped k'" "k_stage k' \<noteq> Some Retrying" "now = []" using step.hyps(2) by (auto split: if_splits)
    with stopped_stays [OF step.hyps(3)] show ?thesis
      unfolding Nil \<open>es = after\<close> by auto
  next
    case (Cons e' before')
    then have es: "e' = e" "es = before' @ Stopped # after" using split by simp_all
    from step.IH es(2) obtain first last k1 where "\<not> list_ex connects after" "rest = first @ last" "\<forall>p. OnPayment p \<notin> set last"
      "follows_on date_parse tickets reconnect k' before' first k1" by blast
    then show ?thesis
      unfolding Cons es(1) using follows_on.step [OF step.hyps(1,2)] by (metis append_assoc)
  qed
  moreover have "(\<exists>v. Heard (Some v) \<in> set (e # es) \<and> paymentFromWire date_parse v = Some p) \<and>
      (is_paid p \<longrightarrow> (\<exists>s. rep_preimage (reported_of p) = Some s \<and> preimageMatchesHash s (rep_hash (reported_of p))))"
    if "OnPayment p \<in> set (now @ rest)" for p
  proof (cases "OnPayment p \<in> set now")
    case True
    from heard [OF this] show ?thesis using agrees by auto
  next
    case False
    then show ?thesis using that step.IH by auto
  qed
  ultimately show ?case by blast
qed simp

subsection \<open>Attending\<close>

text \<open>What a gateway asks over the socket and what is said in return.\<close>

definition askFromWire :: "string \<Rightarrow> (string \<times> string) option" where
  "askFromWire raw =
     (case Option.bind (parse_json raw) object_body of
        None \<Rightarrow> None
      | Some ms \<Rightarrow>
          (case (json_string (field ms ''ask''), json_string (field ms ''payment_hash'')) of
             (Some question, Some hash) \<Rightarrow> Some (question, hash)
           | _ \<Rightarrow> None))"

definition attend_reply :: "string \<Rightarrow> string option \<Rightarrow> string" where
  "attend_reply question secret =
     stringify (case secret of
        None \<Rightarrow> JObj [(''ask'', JStr question), (''settled'', JBool False)]
      | Some p \<Rightarrow> JObj [(''ask'', JStr question), (''settled'', JBool True), (''preimage'', JStr p)])"

definition answered_frame :: "(string \<Rightarrow> string option) \<Rightarrow> string \<Rightarrow> string option" where
  "answered_frame answer raw = map_option (\<lambda>(question, hash). attend_reply question (answer hash)) (askFromWire raw)"

text \<open>
  What a device answers is what the gateway hears. A device that attends reads the question of the
  gateway as it was asked, and its reply is heard as its answer to that question and to no other; so when
  every open socket of a caller but one says nothing and that one holds the preimage, the payment settles.
\<close>

theorem attending_answers_the_gateway:
  assumes "s \<in> set (held_by ag who)" "answer hash = Some secret" "preimageMatchesHash secret hash"
  shows "(\<exists>raw. answered_frame answer (question_text question hash) = Some raw \<and>
      answerTo question raw = Some (answer hash) \<and> (\<forall>other. other \<noteq> question \<longrightarrow> answerTo other raw = None) \<and>
      askAnAgent ag who hash question [(s, raw)] = Inr (Some (agent_says (Some secret))))"
proof -
  let ?raw = "attend_reply question (Some secret)"
  have "askFromWire (question_text question hash) = Some (question, hash)"
    by (simp add: askFromWire_def question_text_def parse_stringify del: stringify.simps)
  then have "answered_frame answer (question_text question hash) = Some ?raw"
    using assms(2) by (simp add: answered_frame_def)
  moreover have parsed: "parse_json ?raw = Some (JObj [(''ask'', JStr question), (''settled'', JBool True), (''preimage'', JStr secret)])"
    by (simp add: attend_reply_def parse_stringify del: stringify.simps)
  then have "answerTo question ?raw = Some (Some secret)" "\<forall>other. other \<noteq> question \<longrightarrow> answerTo other ?raw = None"
    by (simp_all add: answerTo_def)
  moreover have "askAnAgent ag who hash question [(s, ?raw)] = Inr (Some (agent_says (Some secret)))"
    using assms(1,3) calculation(2) by (cases "held_by ag who") (auto simp: askAnAgent_def Let_def answer_proves_def)
  ultimately show ?thesis using assms(2) by auto
qed

subsection \<open>A payment that was asked for\<close>

text \<open>\<^verbatim>\<open>sdk/src/request.ts\<close>: the one payment a request is about, \<^const>\<open>None\<close> when its wait did not end with it paid.\<close>

definition paidOnly :: "client_payment \<Rightarrow> minted option" where
  "paidOnly ended = (if \<not> is_paid ended then None else (case ended of MintedPayment m \<Rightarrow> Some m | WatchedPayment _ \<Rightarrow> None))"

definition request_prove :: "web \<Rightarrow> minted \<Rightarrow> string list \<Rightarrow> (proof_error + string option) \<times> string list" where
  "request_prove w payment urls =
     proveSettlement w payment \<lparr>priced_to = [mint_address payment], priced_msat = mint_amountMsat payment\<rparr> urls"

subsection \<open>Waits to apply the theorems to\<close>

definition here_date :: "string \<Rightarrow> int option" where
  "here_date = ar_date (around_here JNull)"

lemma paid_wire_here: "paymentFromWire here_date paid_wire = Some (WatchedPayment paid_report)"
  unfolding here_date_def by (rule paid_wire_read)

lemma watched_wire_here: "paymentFromWire here_date watched_wire = Some (WatchedPayment
    \<lparr>rep_id = paymentNamedBy (hex_times ''5a'' 32) ''ab'', rep_status = Pending, rep_hash = ''ab'', rep_verifyUrl = ''https://pay.example.com/v'',
     rep_preimage = None, rep_expiresAt = 1700003600, rep_createdAt = 1700000000, rep_sealed = None\<rparr>)"
  by (simp add: here_date_def paymentFromWire_def reportedFrom_def watched_wire_def secondsFrom_def around_here_def text_or_null_def
      wire_status_def status_of_def missing_def)

lemma paid_report_proven:
  "proven (WatchedPayment paid_report) (Some \<lparr>held_id = ''p-1'', held_hash = bytesToHex sale_hash\<rparr>) = Inr (WatchedPayment paid_report)"
  "proven (WatchedPayment paid_report) None = Inr (WatchedPayment paid_report)"
  using sale_preimage by (simp_all add: proven_def paid_report_def agreesWithItself_def)


definition four_lost :: "wait_event list" where
  "four_lost = [Frame (Some JNull), Dropped 0, TimerFired, Dropped 0, TimerFired, Dropped 0, TimerFired, Dropped 0, TimerFired]"


lemma expired_wait_ends_witness:
  "\<exists>w. waits here_date False (wait_begins False False) [Frame (Some watched_wire), Dropped 0, TimerFired] w \<and>
     w_end (wait_step here_date False (Dropped 1700003600000) w) \<noteq> None"
proof -
  let ?es = "[Frame (Some watched_wire), Dropped 0, TimerFired]"
  have "\<exists>w. waits here_date False (wait_begins False False) ?es w \<and> w_stage w = Connected \<and> w_expires w \<noteq> None"
    by (simp add: wait_begins_def Let_def wait_ops watched_wire_here TERMINAL_def)
  then obtain w where w: "waits here_date False (wait_begins False False) ?es w" "w_stage w = Connected" "w_expires w \<noteq> None" by blast
  have "\<forall>e\<in>set ?es. reports_by here_date 1700003600 e" by (simp add: watched_wire_here)
  from expired_wait_ends [OF w(1) this] show ?thesis using w by auto
qed

lemma settled_is_proven_witness:
  "settled_with here_date \<lparr>held_id = ''p-1'', held_hash = bytesToHex sale_hash\<rparr> (EndedWith paid_wire) = Inr (WatchedPayment paid_report) \<and>
   preimageMatchesHash ''00ff'' (bytesToHex sale_hash)"
proof -
  let ?known = "\<lparr>held_id = ''p-1'', held_hash = bytesToHex sale_hash\<rparr>"
  have got: "settled_with here_date ?known (EndedWith paid_wire) = Inr (WatchedPayment paid_report)"
    by (simp add: settled_with_def paid_wire_here paid_report_proven)
  have "\<exists>w. waits here_date False (wait_begins False False) [Frame (Some watched_wire), Frame (Some paid_wire)] w \<and>
      w_end w = Some (EndedWith paid_wire)"
    by (simp add: wait_begins_def Let_def wait_ops watched_wire_here paid_wire_here TERMINAL_def paid_report_def)
  then obtain w where "waits here_date False (wait_begins False False) [Frame (Some watched_wire), Frame (Some paid_wire)] w"
    "w_end w = Some (EndedWith paid_wire)" by blast
  from settled_is_proven [OF this got] got show ?thesis by (simp add: paid_report_def)
qed

definition unpaid_report :: reported where
  "unpaid_report = paid_report\<lparr>rep_status := Expired, rep_preimage := None\<rparr>"

lemma first_settled_decides_witness:
  "firstSettled 3 [Inr (WatchedPayment unpaid_report), Inl (WaitFailed NobodyAnswered), Inr (WatchedPayment paid_report)] =
     Some (Inr (Some (WatchedPayment paid_report)))"
  using first_settled_decides [of "[Inr (WatchedPayment unpaid_report), Inl (WaitFailed NobodyAnswered), Inr (WatchedPayment paid_report)]" 3]
  by (simp add: is_paid_def unpaid_report_def paid_report_def)

lemma gateways_settle_witness:
  "gateways_settled \<lparr>gw_urls = [''a'', ''b''], gw_each = [client_here None, client_here None]\<rparr>
     [(''a'', Inl (Client_Error (NotProven (GatewayCheat HashMismatch ''p-1'')))), (''b'', Inr (WatchedPayment paid_report))] =
   (Some (Inr (WatchedPayment paid_report)), [(''a'', Client_Error (NotProven (GatewayCheat HashMismatch ''p-1'')))])"
  using gateways_settle [of "[(''a'', Inl (Client_Error (NotProven (GatewayCheat HashMismatch ''p-1'')))), (''b'', Inr (WatchedPayment paid_report))]"
      "\<lparr>gw_urls = [''a'', ''b''], gw_each = [client_here None, client_here None]\<rparr>"]
  by (simp add: pays_here_def caught_of_def List.map_filter_simps is_paid_def paid_report_def)

lemma gateways_agree_on_the_name_witness:
  "\<exists>p c' q d'. client_watch (around_here watched_wire) handed_ab (client_here (Some ''secret'')\<lparr>base_url := ''https://one.example''\<rparr>) = (Inr p, c') \<and>
     client_watch (around_here watched_wire) handed_ab (client_here (Some ''secret'')\<lparr>base_url := ''https://two.example''\<rparr>) = (Inr q, d') \<and>
     rep_id (reported_of p) = rep_id (reported_of q)"
proof -
  let ?c = "client_here (Some ''secret'')\<lparr>base_url := ''https://one.example''\<rparr>" and ?d = "client_here (Some ''secret'')\<lparr>base_url := ''https://two.example''\<rparr>"
  obtain p c' q d' where w: "client_watch (around_here watched_wire) handed_ab ?c = (Inr p, c')"
    "client_watch (around_here watched_wire) handed_ab ?d = (Inr q, d')"
    using watch_here by blast
  have "cl_secret ?c = Some ''secret''" "cl_secret ?d = Some ''secret''" by (simp_all add: client_here_def)
  from gateways_agree_on_the_name [OF w refl this] w show ?thesis by blast
qed

lemma followed_payments_prove_themselves_witness:
  "\<exists>k said k'. follows_on here_date False None k [Heard (Some paid_wire), Stopped] said k' \<and>
     OnPayment (WatchedPayment paid_report) \<in> set said \<and> preimageMatchesHash ''00ff'' (bytesToHex sale_hash)"
proof -
  let ?k = "\<lparr>k_stopped = False, k_stage = Some Connected, k_attempt = 1\<rparr>"
  have "\<exists>said k'. follows_on here_date False None ?k [Heard (Some paid_wire), Stopped] said k' \<and> OnPayment (WatchedPayment paid_report) \<in> set said"
    by (simp add: follows_on_Cons follow_hears_def paid_wire_here paid_report_proven)
  then obtain said k' where f: "follows_on here_date False None ?k [Heard (Some paid_wire), Stopped] said k'"
    "OnPayment (WatchedPayment paid_report) \<in> set said" by blast
  have "is_paid (WatchedPayment paid_report)" by (simp add: is_paid_def paid_report_def)
  then have "\<exists>s. rep_preimage (reported_of (WatchedPayment paid_report)) = Some s \<and>
      preimageMatchesHash s (rep_hash (reported_of (WatchedPayment paid_report)))"
    using followed_payments_prove_themselves [OF f(1)] f(2) by blast
  then have "preimageMatchesHash ''00ff'' (bytesToHex sale_hash)" by (simp add: paid_report_def)
  with f show ?thesis by blast
qed

lemma attending_answers_the_gateway_witness:
  "askAnAgent (attend 7 ''c'' no_agents) ''c'' (bytesToHex sale_hash) ''q'' [(7, attend_reply ''q'' (Some ''00ff''))] =
     Inr (Some (agent_says (Some ''00ff'')))"
proof -
  have "7 \<in> set (held_by (attend 7 ''c'' no_agents) ''c'')" by (simp add: attend_def no_agents_def held_by_def)
  from attending_answers_the_gateway [OF this, of "\<lambda>_. Some ''00ff''" "bytesToHex sale_hash" "''00ff''" "''q''"] sale_preimage
  obtain raw where raw: "answered_frame (\<lambda>_. Some ''00ff'') (question_text ''q'' (bytesToHex sale_hash)) = Some raw"
    "askAnAgent (attend 7 ''c'' no_agents) ''c'' (bytesToHex sale_hash) ''q'' [(7, raw)] = Inr (Some (agent_says (Some ''00ff'')))"
    by auto
  have "askFromWire (question_text ''q'' (bytesToHex sale_hash)) = Some (''q'', bytesToHex sale_hash)"
    by (simp add: askFromWire_def question_text_def parse_stringify del: stringify.simps)
  then show ?thesis using raw by (simp add: answered_frame_def)
qed

end
