(* ===== verification/Serving.thy ===== *)
theory Serving
  imports Client Watch Windows
begin

text \<open>
  \<^verbatim>\<open>sdk/src/webhook.ts\<close> and \<^verbatim>\<open>sdk/src/serving.ts\<close>: what a client believes of a delivery a gateway
  posts, the challenges it answers, and the route that acts on each delivery once. The lemmas show that
  a settlement is acted on only under the gateway's signature over this very delivery and with its preimage, that what the
  gateway posts is what the route hears, and how long a delivery is remembered.
\<close>

subsection \<open>Requests and responses of a route\<close>

record incoming =
  in_method :: string
  in_url :: string
  in_headers :: headers
  in_body :: string

record served_reply =
  out_status :: nat
  out_headers :: headers
  out_body :: string

definition JSON_TYPE :: headers where "JSON_TYPE = [(''content-type'', ''application/json'')]"

text \<open>\<^verbatim>\<open>Response.json(value, {status, headers})\<close> and \<^verbatim>\<open>new Response(text)\<close>.\<close>

definition json_reply :: "nat \<Rightarrow> headers \<Rightarrow> json \<Rightarrow> served_reply" where
  "json_reply st hs v = \<lparr>out_status = st, out_headers = hs @ JSON_TYPE, out_body = stringify v\<rparr>"

definition text_reply :: "nat \<Rightarrow> string \<Rightarrow> served_reply" where
  "text_reply st body = \<lparr>out_status = st, out_headers = [(''content-type'', ''text/plain;charset=UTF-8'')], out_body = body\<rparr>"

subsection \<open>Believing a delivery\<close>

record webhook_options =
  hook_tolerance :: "int option"
  hook_url :: "string option"

definition tolerance_of :: "int option \<Rightarrow> int" where
  "tolerance_of asked = (case asked of None \<Rightarrow> TOLERANCE_SECS | Some t \<Rightarrow> t)"

text \<open>The message a delivery has to be signed as: for the URL that was registered where one was given.\<close>

definition delivered_message :: "incoming \<Rightarrow> webhook_options \<Rightarrow> message" where
  "delivered_message r opts =
     \<lparr>message_method = in_method r, message_url = (case hook_url opts of None \<Rightarrow> in_url r | Some u \<Rightarrow> u),
      message_authority = None, message_headers = in_headers r\<rparr>"

definition believable :: "platform \<Rightarrow> int \<Rightarrow> incoming \<Rightarrow> string \<Rightarrow> webhook_options \<Rightarrow> thrown + string option" where
  "believable plat now r publicKey opts =
     and_then (signerOf plat now (delivered_message r opts) (in_body r) GATEWAY_SIGNS (tolerance_of (hook_tolerance opts))) (\<lambda>found.
       Inr (case found of
              None \<Rightarrow> None
            | Some sg \<Rightarrow> if keyid sg = lower publicKey then Some (in_body r) else None))"

definition decoded :: "string \<Rightarrow> (json \<Rightarrow> 'a option) \<Rightarrow> 'a option" where
  "decoded body from_wire = Option.bind (parse_json body) from_wire"

definition proved :: "('a \<Rightarrow> status) \<Rightarrow> ('a \<Rightarrow> bool) \<Rightarrow> 'a option \<Rightarrow> 'a option" where
  "proved status_in agrees found =
     (case found of None \<Rightarrow> None | Some x \<Rightarrow> if status_in x = Paid \<and> \<not> agrees x then None else Some x)"

definition readPayment :: "platform \<Rightarrow> (string \<Rightarrow> int option) \<Rightarrow> int \<Rightarrow> incoming \<Rightarrow> string \<Rightarrow> webhook_options \<Rightarrow>
    thrown + client_payment option" where
  "readPayment plat date_parse now r publicKey opts =
     and_then (believable plat now r publicKey opts) (\<lambda>body.
       Inr (case body of
              None \<Rightarrow> None
            | Some b \<Rightarrow> proved (\<lambda>p. rep_status (reported_of p)) payment_agrees (decoded b (paymentFromWire date_parse))))"

definition readSettlement :: "platform \<Rightarrow> (string \<Rightarrow> int option) \<Rightarrow> int \<Rightarrow> incoming \<Rightarrow> string \<Rightarrow> webhook_options \<Rightarrow>
    thrown + client_settlement option" where
  "readSettlement plat date_parse now r publicKey opts =
     and_then (believable plat now r publicKey opts) (\<lambda>body.
       Inr (case body of
              None \<Rightarrow> None
            | Some b \<Rightarrow> proved del_status settlement_agrees (decoded b (settlementFromWire date_parse))))"

subsection \<open>Challenges\<close>

definition nonce_in :: "string \<Rightarrow> string \<Rightarrow> string option" where
  "nonce_in body type_name =
     (case parse_json body of
        Some (JObj ms) \<Rightarrow>
          if field ms ''type'' \<noteq> Some (JStr type_name) then None else json_string (field ms ''nonce'')
      | _ \<Rightarrow> None)"

definition nonce_answered :: "string \<Rightarrow> served_reply" where
  "nonce_answered nonce = \<lparr>out_status = 200, out_headers = JSON_TYPE, out_body = stringify (JObj [(''nonce'', JStr nonce)])\<rparr>"

definition answerWebhookChallenge :: "platform \<Rightarrow> int \<Rightarrow> incoming \<Rightarrow> string \<Rightarrow> webhook_options \<Rightarrow> thrown + served_reply option" where
  "answerWebhookChallenge plat now r publicKey opts =
     and_then (believable plat now r publicKey opts) (\<lambda>body.
       Inr (map_option nonce_answered (Option.bind body (\<lambda>b. nonce_in b CHALLENGE))))"

definition answerVerifyChallenge :: "incoming \<Rightarrow> served_reply option" where
  "answerVerifyChallenge r =
     (if in_method r \<noteq> ''POST'' then None else map_option nonce_answered (nonce_in (in_body r) VERIFY_CHALLENGE))"

subsection \<open>The webhook route\<close>

text \<open>Which callbacks were given, the key that was pinned, the tolerance and the URL that was registered.\<close>

record handlers =
  on_settled :: bool
  on_unproven :: bool
  on_payment :: bool
  credential_pinned :: "string option"
  toleranceSecs :: "int option"
  registered_url :: "string option"

datatype act = Settles client_settlement | Unproven client_settlement | Passes client_payment

text \<open>The callback to run, and what to answer once it is through.\<close>

definition acted :: "client_settlement \<Rightarrow> handlers \<Rightarrow> act option \<times> served_reply" where
  "acted s h =
     (if settlement_agrees s then (if on_settled h then Some (Settles s) else None, text_reply 200 ''ok'')
      else if \<not> on_unproven h then (None, text_reply 202 ''the recipient released no preimage'')
      else (Some (Unproven s), text_reply 200 ''ok''))"

datatype what_to_do =
    Answers served_reply
  | Acts string "act option \<times> served_reply"

definition options_of :: "handlers \<Rightarrow> webhook_options" where
  "options_of h = \<lparr>hook_tolerance = toleranceSecs h, hook_url = registered_url h\<rparr>"

text \<open>
  What a delivery asks of the route; it is checked up to three times, each at its own time. The name a
  delivery is remembered under is its payment's with how that ended.
\<close>

definition delivery_name :: "string \<Rightarrow> status \<Rightarrow> string" where
  "delivery_name payment ended = payment @ '':'' @ status_text ended"

definition webhook_reads :: "platform \<Rightarrow> (string \<Rightarrow> int option) \<Rightarrow> (nat \<Rightarrow> int) \<Rightarrow> handlers \<Rightarrow> string \<Rightarrow> incoming \<Rightarrow> thrown + what_to_do" where
  "webhook_reads plat date_parse now h publicKey r =
     and_then (answerWebhookChallenge plat (now 0) r publicKey (options_of h)) (\<lambda>challenge.
       case challenge of
         Some reply \<Rightarrow> Inr (Answers reply)
       | None \<Rightarrow>
           and_then (readSettlement plat date_parse (now 1) r publicKey (options_of h)) (\<lambda>settlement.
             case settlement of
               Some s \<Rightarrow> Inr (Acts (delivery_name (del_id s) (del_status s)) (acted s h))
             | None \<Rightarrow>
                 and_then (readPayment plat date_parse (now 2) r publicKey (options_of h)) (\<lambda>payment.
                   case payment of
                     Some p \<Rightarrow>
                       Inr (Acts (delivery_name (rep_id (reported_of p)) (rep_status (reported_of p)))
                         (if on_payment h then Some (Passes p) else None, text_reply 200 ''ok''))
                   | None \<Rightarrow> Inr (Answers (text_reply 401 ''bad signature'')))))"

subsection \<open>Once while replayable\<close>

text \<open>
  What the route acts on or acted on lately: each delivery with the time in milliseconds it is forgotten
  at and the number of the run that acts on it; and all runs with what they are about.
\<close>

record remembered =
  acting :: "(string \<times> int \<times> nat) list"
  runs :: "string list"

definition nothing_yet :: remembered where "nothing_yet = \<lparr>acting = [], runs = []\<rparr>"

definition replayable_ms :: "int \<Rightarrow> int" where "replayable_ms tolerance = 2 * tolerance * 1000"

definition live_at :: "int \<Rightarrow> (string \<times> int \<times> nat) list \<Rightarrow> (string \<times> int \<times> nat) list" where
  "live_at now kept = dropWhile (\<lambda>(_, forgetAt, _). \<not> forgetAt > now) kept"

text \<open>The run whose outcome a repeated delivery waits for, or the new run.\<close>

datatype begun = Repeats nat | Begins nat

definition once_arrives :: "int \<Rightarrow> int \<Rightarrow> string \<Rightarrow> remembered \<Rightarrow> begun \<times> remembered" where
  "once_arrives tolerance now name m =
     (let live = live_at now (acting m)
      in case map_of live name of
           Some (_, n) \<Rightarrow> (Repeats n, m\<lparr>acting := live\<rparr>)
         | None \<Rightarrow>
             (Begins (length (runs m)),
              m\<lparr>acting := live @ [(name, now + replayable_ms tolerance, length (runs m))], runs := runs m @ [name]\<rparr>))"

definition once_ends :: "nat \<Rightarrow> bool \<Rightarrow> remembered \<Rightarrow> remembered" where
  "once_ends n well m =
     (if well \<or> \<not> n < length (runs m) then m
      else m\<lparr>acting := filter (\<lambda>(name, _). name \<noteq> runs m ! n) (acting m)\<rparr>)"

datatype once_event = Comes string int | Ended nat bool

fun once_happens :: "int \<Rightarrow> once_event \<Rightarrow> remembered \<Rightarrow> remembered" where
  "once_happens tolerance (Comes name now) m = snd (once_arrives tolerance now name m)"
| "once_happens tolerance (Ended n well) m = once_ends n well m"

text \<open>The whole route: the key it checks with, what the delivery asks, and what becomes of it.\<close>

datatype served =
    Threw
  | NoKey client_error
  | Replies served_reply
  | Acting begun "act option" served_reply

definition credential :: "around \<Rightarrow> handlers \<Rightarrow> client \<Rightarrow> (client_error + string) \<times> client" where
  "credential a h c = (case credential_pinned h of Some key \<Rightarrow> (Inr key, c) | None \<Rightarrow> webhookKey a c)"

definition webhook_route :: "around \<Rightarrow> (nat \<Rightarrow> int) \<Rightarrow> int \<Rightarrow> handlers \<Rightarrow> incoming \<Rightarrow> client \<times> remembered \<Rightarrow> served \<times> client \<times> remembered" where
  "webhook_route a now ms h r s =
     (case credential a h (fst s) of
        (Inl e, c) \<Rightarrow> (NoKey e, c, snd s)
      | (Inr key, c) \<Rightarrow>
          (case webhook_reads (ar_platform a) (ar_date a) now h key r of
             Inl _ \<Rightarrow> (Threw, c, snd s)
           | Inr (Answers reply) \<Rightarrow> (Replies reply, c, snd s)
           | Inr (Acts name (callback, reply)) \<Rightarrow>
               (case once_arrives (tolerance_of (toleranceSecs h)) ms name (snd s) of
                  (Repeats n, m) \<Rightarrow> (Acting (Repeats n) None (text_reply 200 ''ok''), c, m)
                | (Begins n, m) \<Rightarrow> (Acting (Begins n) callback reply, c, m))))"

subsection \<open>What the route believes\<close>

lemma believable_SomeD:
  assumes "believable plat now r key opts = Inr (Some body)"
  shows "body = in_body r" "\<exists>sg. signerOf plat now (delivered_message r opts) (in_body r) GATEWAY_SIGNS (tolerance_of (hook_tolerance opts)) = Inr (Some sg) \<and>
    keyid sg = lower key"
  using assms by (auto simp: believable_def split: option.splits if_splits)

lemma readSettlement_SomeD:
  assumes "readSettlement plat date_parse now r key opts = Inr (Some s)"
  obtains sg v where
    "signerOf plat now (delivered_message r opts) (in_body r) GATEWAY_SIGNS (tolerance_of (hook_tolerance opts)) = Inr (Some sg)"
    "keyid sg = lower key" "parse_json (in_body r) = Some v" "settlementFromWire date_parse v = Some s"
proof -
  obtain body where body: "believable plat now r key opts = Inr (Some body)"
      "proved del_status settlement_agrees (decoded body (settlementFromWire date_parse)) = Some s"
    using assms by (auto simp: readSettlement_def split: option.splits)
  with that believable_SomeD [OF body(1)] show ?thesis
    by (auto simp: proved_def decoded_def bind_eq_Some_conv split: option.splits if_splits)
qed

lemma settlement_agrees_preimage:
  "settlement_agrees s \<Longrightarrow> del_status s = Paid \<and> (\<exists>secret. del_preimage s = Some secret \<and> preimageMatchesHash secret (del_hash s))"
  by (auto simp: settlement_agrees_def agreesWithItself_def split: option.splits if_splits)

lemma webhook_reads_SettlesD:
  assumes "webhook_reads plat date_parse now h key r = Inr (Acts name (Some (Settles s), reply))"
  shows "readSettlement plat date_parse (now 1) r key (options_of h) = Inr (Some s)" "settlement_agrees s" "on_settled h"
    "name = delivery_name (del_id s) Paid" "reply = text_reply 200 ''ok''"
  using assms settlement_agrees_preimage [of s]
  by (auto simp: webhook_reads_def acted_def split: option.splits if_splits)

text \<open>
  C28: a settlement is acted on only with proof of both kinds. When the route runs the callback of a settlement,
  the delivery carries a signature that the key the route checks with accepts over bytes that hold, a line each,
  the method of the delivery, the scheme, host and path of the URL that is registered, and the digest field of the
  delivery; all five are named by the signed list of components, which was made within the tolerance of the clock, and
  the digest is that of the very body. The settlement is what the body says, says paid, and carries a preimage of
  its own payment hash.
\<close>

theorem webhook_settles_only_proofs:
  assumes "webhook_route a now ms h r (c, m) = (Acting run (Some (Settles s)) reply, c', m')"
  shows "\<exists>key covered signature base ls u digest sent v secret.
    fst (credential a h c) = Inr key \<and>
    chosen (ar_platform a) (in_headers r) ''thunder-bridge-gateway'' = Some (covered, signature) \<and>
    signatureBase (ar_platform a) (delivered_message r (options_of h)) covered = Inr (Some base) \<and>
    (\<forall>name\<in>{''@method'', ''@scheme'', ''@authority'', ''@path'', ''content-digest''}. BareString name \<in> fst ` set (fst covered)) \<and>
    base = join [CHR 0x0A] (ls @ [params_line (ar_platform a) covered]) \<and>
    url_of (ar_platform a) (case hook_url (options_of h) of None \<Rightarrow> in_url r | Some registered \<Rightarrow> registered) = Some u \<and>
    header_get (in_headers r) ''content-digest'' = Some digest \<and>
    (\<forall>(name, x)\<in>{(''@method'', in_method r), (''@scheme'', lower (butlast (url_protocol u))), (''@authority'', lower (url_host u)),
         (''@path'', if url_pathname u = [] then ''/'' else url_pathname u), (''content-digest'', trim digest)}.
       serialize_string (ar_platform a) name @ '': '' @ x \<in> set ls) \<and>
    ed25519_verify (ar_platform a) (hexToBytes (lower key)) signature (utf8 base) \<and>
    map_of (snd covered) ''created'' = Some (BareInt sent) \<and> \<bar>now 1 - sent\<bar> \<le> tolerance_of (toleranceSecs h) \<and>
    digestMatches (ar_platform a) (Some digest) (in_body r) \<and>
    parse_json (in_body r) = Some v \<and> settlementFromWire (ar_date a) v = Some s \<and>
    del_status s = Paid \<and> del_preimage s = Some secret \<and> preimageMatchesHash secret (del_hash s)"
proof -
  obtain key name where key: "fst (credential a h c) = Inr key"
    and reads: "webhook_reads (ar_platform a) (ar_date a) now h key r = Inr (Acts name (Some (Settles s), reply))"
    using assms by (auto simp: webhook_route_def split: prod.splits sum.splits what_to_do.splits begun.splits)
  note settles = webhook_reads_SettlesD [OF reads]
  obtain sg v where sg: "signerOf (ar_platform a) (now 1) (delivered_message r (options_of h)) (in_body r) GATEWAY_SIGNS
        (tolerance_of (hook_tolerance (options_of h))) = Inr (Some sg)"
    and "keyid sg = lower key" and v: "parse_json (in_body r) = Some v" "settlementFromWire (ar_date a) v = Some s"
    using settles(1) by (rule readSettlement_SomeD)
  let ?m = "delivered_message r (options_of h)"
  obtain covered signature k base where
    chosen: "chosen (ar_platform a) (message_headers ?m) (profile_tag GATEWAY_SIGNS) = Some (covered, signature)"
    and names: "\<forall>name\<in>set (profile_covers GATEWAY_SIGNS). BareString name \<in> fst ` set (fst covered)"
    and stamp: "stamp_ok (now 1) (tolerance_of (hook_tolerance (options_of h))) (snd covered) = Some (k, created sg, signer_nonce sg)"
    and digests: "digestMatches (ar_platform a) (header_get (message_headers ?m) ''content-digest'') (in_body r)"
    and base: "signatureBase (ar_platform a) ?m covered = Inr (Some base)"
    using sg by (rule signerOf_SomeD)
  obtain ls where ls: "base = join [CHR 0x0A] (ls @ [params_line (ar_platform a) covered])"
    and signs: "\<forall>name. BareString name \<in> fst ` set (fst covered) \<longrightarrow> (\<exists>l\<in>set ls. line_of (ar_platform a) ?m name l)"
    using base by (rule signatureBase_signs)
  have signed: "\<exists>x. componentValue (ar_platform a) ?m name = Inr (Some x) \<and> serialize_string (ar_platform a) name @ '': '' @ x \<in> set ls"
    if "name \<in> set (profile_covers GATEWAY_SIGNS)" for name
    using signs names that unfolding line_of_def by metis
  obtain u where u: "url_of (ar_platform a) (message_url ?m) = Some u"
    using signed [of "''@method''"] componentValue_url by (force simp: GATEWAY_SIGNS_def)
  obtain digest where digest: "header_get (message_headers ?m) ''content-digest'' = Some digest"
    using digests by (rule digestMatchesD)
  note here = componentValue_simps [OF u]
  have lines: "\<forall>(name, x)\<in>{(''@method'', in_method r), (''@scheme'', lower (butlast (url_protocol u))), (''@authority'', lower (url_host u)),
         (''@path'', if url_pathname u = [] then ''/'' else url_pathname u), (''content-digest'', trim digest)}.
       serialize_string (ar_platform a) name @ '': '' @ x \<in> set ls"
    using signed [of "''@method''"] signed [of "''@scheme''"] signed [of "''@authority''"] signed [of "''@path''"] signed [of "''content-digest''"]
    by (simp add: GATEWAY_SIGNS_def here digest) (simp add: delivered_message_def)
  have tolerance: "hook_tolerance (options_of h) = toleranceSecs h" by (simp add: options_of_def)
  have same: "message_url ?m = (case hook_url (options_of h) of None \<Rightarrow> in_url r | Some registered \<Rightarrow> registered)" "message_headers ?m = in_headers r"
    by (simp_all add: delivered_message_def)
  obtain secret where paid: "del_status s = Paid" "del_preimage s = Some secret" "preimageMatchesHash secret (del_hash s)"
    using settlement_agrees_preimage [OF settles(2)] by blast
  have tag: "profile_tag GATEWAY_SIGNS = ''thunder-bridge-gateway''"
    "set (profile_covers GATEWAY_SIGNS) = {''@method'', ''@scheme'', ''@authority'', ''@path'', ''content-digest''}"
    by (simp_all add: GATEWAY_SIGNS_def)
  have checked: "ed25519_verify (ar_platform a) (hexToBytes (lower key)) signature (utf8 base)"
    using signerOf_proves [OF sg] chosen base \<open>keyid sg = lower key\<close> by auto
  show ?thesis
    using key chosen [unfolded tag same] base names [unfolded tag] ls u [unfolded same] digest [unfolded same] lines checked
      stamp_ok_SomeD [OF stamp] digests [unfolded same] v paid
    unfolding tolerance by (metis (no_types, lifting))
qed

subsection \<open>What the gateway posts\<close>

lemma posted_signer:
  assumes "signedHeaders plat key url body t drawn = Some hs"
    and "honest_key plat key" "\<bar>now - t\<bar> \<le> tolerance"
    and "\<forall>p. list_all (understood plat) (written_fields plat key GATEWAY_SIGNS body t drawn (hexToBytes (sign_payload key p)))"
    and "url_of plat url = Some u" "url_of plat (message_url m) = Some u"
    and "message_method m = ''POST''" "message_headers m = hs" "message_authority m = None"
  shows "signerOf plat now m body GATEWAY_SIGNS tolerance =
    Inr (Some \<lparr>keyid = publicKeyHex key, created = t, signer_nonce = Some drawn\<rparr>)"
proof -
  let ?m0 = "\<lparr>message_method = ''POST'', message_url = url, message_authority = None, message_headers = []\<rparr>"
  let ?stamped = "?m0\<lparr>message_headers := [(''content-digest'', contentDigest plat body)]\<rparr>"
  obtain ss where signed: "signedBy plat key GATEWAY_SIGNS ?m0 body t drawn = Some ss"
    and hs: "hs = (''content-type'', ''application/json'') # ss"
    using assms(1) by (auto simp: signedHeaders_def)
  have type: "lower ''content-type'' = ''content-type''" by code_simp
  then have among: "header_get (message_headers m) n = header_get ss n" if "n \<in> {''content-digest'', ''signature-input'', ''signature''}" for n
    using that by (auto simp: assms(8) hs header_get_def)
  have digest: "header_get ss ''content-digest'' = Some (contentDigest plat body)"
    using signed by (rule signedBy_SomeD) (simp only: signed_headers)
  have "url_of plat (message_url ?stamped) = Some u" using assms(5) by simp
  note here = componentValue_simps [OF this] and there = componentValue_simps [OF assms(6)]
  have "componentValue plat ?stamped ''@method'' = componentValue plat m ''@method''"
      "componentValue plat ?stamped ''@scheme'' = componentValue plat m ''@scheme''"
      "componentValue plat ?stamped ''@authority'' = componentValue plat m ''@authority''"
      "componentValue plat ?stamped ''@path'' = componentValue plat m ''@path''"
      "componentValue plat ?stamped ''content-digest'' = componentValue plat m ''content-digest''"
    unfolding here there using digest among [of "''content-digest''"]
    by (simp_all add: assms(7,9) header_get_def lower_header_names)
  then have same: "componentValue plat ?stamped n = componentValue plat m n" if "n \<in> set (profile_covers GATEWAY_SIGNS)" for n
    using that unfolding GATEWAY_SIGNS_def profile.simps list.set by blast
  show ?thesis by (rule signed_is_read_among [OF signed among same assms(2-4)])
qed

text \<open>What arrives of a request the gateway posts under one of its keys.\<close>

definition arrives_as_posted :: "platform \<Rightarrow> signing_key \<Rightarrow> string \<Rightarrow> string \<Rightarrow> int \<Rightarrow> string \<Rightarrow> webhook_options \<Rightarrow> incoming \<Rightarrow> bool" where
  "arrives_as_posted plat key url body t drawn opts r \<longleftrightarrow>
     (\<exists>u. signedHeaders plat key url body t drawn = Some (in_headers r) \<and> in_method r = ''POST'' \<and> in_body r = body \<and>
        url_of plat url = Some u \<and> url_of plat (message_url (delivered_message r opts)) = Some u \<and> honest_key plat key \<and>
        (\<forall>p. list_all (understood plat) (written_fields plat key GATEWAY_SIGNS body t drawn (hexToBytes (sign_payload key p)))))"

lemma posted_believable:
  assumes "arrives_as_posted plat key url body t drawn opts r" "\<bar>now - t\<bar> \<le> tolerance_of (hook_tolerance opts)"
  shows "believable plat now r (publicKeyHex key) opts = Inr (Some body)"
proof -
  have "lower (publicKeyHex key) = publicKeyHex key"
    using assms(1) by (auto simp: arrives_as_posted_def honest_key_def lower_fixes)
  moreover have "in_body r = body" using assms(1) by (auto simp: arrives_as_posted_def)
  moreover have "signerOf plat now (delivered_message r opts) body GATEWAY_SIGNS (tolerance_of (hook_tolerance opts)) =
      Inr (Some \<lparr>keyid = publicKeyHex key, created = t, signer_nonce = Some drawn\<rparr>)"
    using assms unfolding arrives_as_posted_def by (auto intro!: posted_signer simp: delivered_message_def)
  ultimately show ?thesis by (simp add: believable_def)
qed

lemma delivery_is_no_challenge: "nonce_in (stringify (JObj (deliveryToWire p settledAt))) type_name = None"
  by (simp add: nonce_in_def parse_stringify [OF json_plain_deliveryToWire]) (simp add: deliveryToWire_def)

lemma posted_delivery_read:
  assumes "arrives_as_posted plat key url (stringify (JObj (deliveryToWire p settledAt))) t drawn (options_of h) r"
    and "\<forall>i. \<bar>now i - t\<bar> \<le> tolerance_of (toleranceSecs h)" "reads_time date_parse settledAt"
    and "pay_status p = Paid" "preimage p = Some secret" "preimageMatchesHash secret (paymentHash p)"
  shows "webhook_reads plat date_parse now h (publicKeyHex key) r =
      Inr (Acts (delivery_name (pay_id p) Paid)
        (if on_settled h
         then Some (Settles \<lparr>del_id = pay_id p, del_status = Paid, del_hash = paymentHash p, del_preimage = Some secret,
           del_settledAt = settledAt\<rparr>)
         else None, text_reply 200 ''ok''))"
proof -
  let ?body = "stringify (JObj (deliveryToWire p settledAt))"
  have "\<bar>now i - t\<bar> \<le> tolerance_of (hook_tolerance (options_of h))" for i
    using assms(2) by (simp add: options_of_def)
  then have believed: "believable plat (now i) r (publicKeyHex key) (options_of h) = Inr (Some ?body)" for i
    by (rule posted_believable [OF assms(1)])
  have "decoded ?body (settlementFromWire date_parse) =
      Some \<lparr>del_id = pay_id p, del_status = Paid, del_hash = paymentHash p, del_preimage = Some secret, del_settledAt = settledAt\<rparr>"
    using settlementFromWire_written [OF assms(3), of p]
    by (simp add: decoded_def parse_stringify [OF json_plain_deliveryToWire] assms(4,5))
  moreover have "settlement_agrees \<lparr>del_id = pay_id p, del_status = Paid, del_hash = paymentHash p, del_preimage = Some secret,
      del_settledAt = settledAt\<rparr>"
    using assms(6) by (simp add: settlement_agrees_def agreesWithItself_def)
  ultimately show ?thesis
    by (simp add: webhook_reads_def answerWebhookChallenge_def readSettlement_def believed delivery_is_no_challenge
        proved_def acted_def)
qed

lemma posted_challenge_answered:
  assumes "arrives_as_posted plat key url (challenge_body CHALLENGE nonce) t drawn (options_of h) r"
    and "\<forall>i. \<bar>now i - t\<bar> \<le> tolerance_of (toleranceSecs h)"
  shows "webhook_reads plat date_parse now h (publicKeyHex key) r = Inr (Answers (nonce_answered nonce))"
proof -
  have "\<bar>now 0 - t\<bar> \<le> tolerance_of (hook_tolerance (options_of h))" using assms(2) by (simp add: options_of_def)
  from posted_believable [OF assms(1) this]
  have "believable plat (now 0) r (publicKeyHex key) (options_of h) = Inr (Some (challenge_body CHALLENGE nonce))" .
  moreover have "nonce_in (challenge_body CHALLENGE nonce) CHALLENGE = Some nonce"
    by (simp add: nonce_in_def challenge_body_def parse_stringify del: stringify.simps)
  ultimately show ?thesis by (simp add: webhook_reads_def answerWebhookChallenge_def)
qed

lemma nonce_answered_proves: "challenge_proves (out_body (nonce_answered nonce)) nonce"
  by (simp add: nonce_answered_def challenge_proves_def parse_stringify del: stringify.simps)

text \<open>
  What the gateway posts is acted on. A delivery of a paid payment that arrives as the gateway signed it,
  at the URL that is registered and within the tolerance, reaches the callback as exactly the settlement
  the gateway wrote, under a name that is the payment's own; and a challenge the gateway sends before it
  is answered the way the gateway wants it answered.
\<close>

theorem posted_is_acted_on:
  fixes p :: "'a public_payment_scheme"
  assumes "arrives_as_posted plat key url (stringify (JObj (deliveryToWire p settledAt))) t drawn (options_of h) r"
    and "arrives_as_posted plat key url (challenge_body CHALLENGE nonce) t' drawn' (options_of h) r'"
    and "\<forall>i. \<bar>now i - t\<bar> \<le> tolerance_of (toleranceSecs h)" "\<forall>i. \<bar>now i - t'\<bar> \<le> tolerance_of (toleranceSecs h)"
    and "reads_time date_parse settledAt"
    and "pay_status p = Paid" "preimage p = Some secret" "preimageMatchesHash secret (paymentHash p)"
  shows "webhook_reads plat date_parse now h (publicKeyHex key) r =
      Inr (Acts (delivery_name (pay_id p) Paid)
        (if on_settled h
         then Some (Settles \<lparr>del_id = pay_id p, del_status = Paid, del_hash = paymentHash p, del_preimage = Some secret,
           del_settledAt = settledAt\<rparr>)
         else None, text_reply 200 ''ok'')) \<and>
    (\<exists>reply. webhook_reads plat date_parse now h (publicKeyHex key) r' = Inr (Answers reply) \<and>
      out_status reply = 200 \<and> challenge_proves (out_body reply) nonce)"
  using posted_delivery_read [OF assms(1,3,5-8)] posted_challenge_answered [OF assms(2,4)] nonce_answered_proves
  by (auto simp: nonce_answered_def)

subsection \<open>Each delivery once\<close>

definition keeps_delivery :: "remembered \<Rightarrow> string \<Rightarrow> int \<Rightarrow> bool" where
  "keeps_delivery m name until \<longleftrightarrow> (\<exists>forgetAt n. (name, forgetAt, n) \<in> set (acting m) \<and> until \<le> forgetAt)"

fun spares_delivery :: "string \<Rightarrow> int \<Rightarrow> remembered \<Rightarrow> once_event \<Rightarrow> bool" where
  "spares_delivery name until m (Comes _ now) \<longleftrightarrow> now < until"
| "spares_delivery name until m (Ended n well) \<longleftrightarrow> well \<or> (n < length (runs m) \<longrightarrow> runs m ! n \<noteq> name)"

definition takes_delivery :: "int \<Rightarrow> remembered \<Rightarrow> string \<Rightarrow> once_event \<Rightarrow> bool" where
  "takes_delivery tolerance m name e \<longleftrightarrow> (\<exists>now n. e = Comes name now \<and> fst (once_arrives tolerance now name m) = Begins n)"

lemma live_at_keeps: "x \<in> set kept \<Longrightarrow> now < fst (snd x) \<Longrightarrow> x \<in> set (live_at now kept)"
  unfolding live_at_def by (induction kept) auto

lemma set_live_at: "x \<in> set (live_at now kept) \<Longrightarrow> x \<in> set kept"
  unfolding live_at_def by (rule set_dropWhileD)

interpretation deliveries: remembering "once_happens tolerance" keeps_delivery spares_delivery "takes_delivery tolerance" for tolerance
proof
  fix m name until e
  assume keeps: "keeps_delivery m name until" and spares: "spares_delivery name until m e"
  from keeps obtain forgetAt n where held: "(name, forgetAt, n) \<in> set (acting m)" "until \<le> forgetAt"
    by (auto simp: keeps_delivery_def)
  have live: "(name, forgetAt, n) \<in> set (live_at now (acting m))" if "now < until" for now
    using live_at_keeps [OF held(1)] held(2) that by simp
  show "keeps_delivery (once_happens tolerance e m) name until"
  proof (cases e)
    case (Comes x now)
    with live spares held(2) show ?thesis
      by (auto simp: keeps_delivery_def once_arrives_def Let_def split: option.split)
  next
    case (Ended k well)
    with held spares show ?thesis by (auto simp: keeps_delivery_def once_ends_def)
  qed
  show "\<not> takes_delivery tolerance m name e"
  proof
    assume "takes_delivery tolerance m name e"
    then obtain now k where e: "e = Comes name now" "fst (once_arrives tolerance now name m) = Begins k"
      by (auto simp: takes_delivery_def)
    have "(name, forgetAt, n) \<in> set (live_at now (acting m))" using spares e(1) by (intro live) simp
    then obtain v where "map_of (live_at now (acting m)) name = Some v" by (blast dest: weak_map_of_SomeI)
    with e(2) show False by (cases v) (simp add: once_arrives_def Let_def)
  qed
qed

definition runs_named :: "remembered \<Rightarrow> bool" where
  "runs_named m \<longleftrightarrow> (\<forall>(name, _, n)\<in>set (acting m). n < length (runs m) \<and> runs m ! n = name)"

lemma runs_named_step: "runs_named m \<Longrightarrow> runs_named (once_happens tolerance e m)"
  by (cases e)
    (auto simp: runs_named_def once_arrives_def once_ends_def Let_def nth_append dest!: set_live_at split: option.split)

lemma runs_named_run: "runs_named m \<Longrightarrow> runs_named (fold (once_happens tolerance) es m)"
  by (induction es arbitrary: m) (simp_all add: runs_named_step)

lemma runs_grow: "prefix (runs m) (runs (fold (once_happens tolerance) es m))"
proof (induction es arbitrary: m)
  case (Cons e es)
  have "prefix (runs m) (runs (once_happens tolerance e m))"
    by (cases e) (auto simp: once_arrives_def once_ends_def Let_def split: option.split)
  with Cons show ?case by (auto intro: prefix_order.trans)
qed simp

lemma spared_run:
  assumes "\<forall>x now. Comes x now \<in> set es \<longrightarrow> now < until"
    and "\<forall>k. Ended k False \<in> set es \<and> k < length (runs (fold (once_happens tolerance) es m)) \<longrightarrow>
      runs (fold (once_happens tolerance) es m) ! k \<noteq> name"
  shows "all_spare (once_happens tolerance) (spares_delivery name until) m es"
  using assms
proof (induction es arbitrary: m)
  case (Cons e es)
  have "runs m ! k \<noteq> name" if "e = Ended k False" "k < length (runs m)" for k
    using Cons.prems(2) that runs_grow [of m tolerance "e # es"]
    by (metis list.set_intros(1) nth_append order_less_le_trans prefixE prefix_length_le)
  then have "spares_delivery name until m e" using Cons.prems(1) by (cases e) auto
  with Cons show ?case by simp
qed simp

text \<open>
  C29: a delivery is acted on once. From when a route began to act on a delivery, every repetition that comes
  within twice the tolerance waits for a run that is about that very delivery instead of beginning
  another, whatever else is delivered and however the other runs end, unless a run about this delivery
  failed in between.
\<close>

theorem delivery_acts_once:
  assumes "once_arrives tolerance t name (fold (once_happens tolerance) earlier nothing_yet) = (Begins n, m)"
    and "m' = fold (once_happens tolerance) es m"
    and "\<forall>x now. Comes x now \<in> set es \<longrightarrow> now < t + 2 * tolerance * 1000" "t' < t + 2 * tolerance * 1000"
    and "\<forall>k. Ended k False \<in> set es \<and> k < length (runs m') \<longrightarrow> runs m' ! k \<noteq> name"
  shows "\<exists>k. fst (once_arrives tolerance t' name m') = Repeats k \<and> k < length (runs m') \<and> runs m' ! k = name"
proof -
  let ?until = "t + replayable_ms tolerance"
  have m: "m = once_happens tolerance (Comes name t) (fold (once_happens tolerance) earlier nothing_yet)"
    using assms(1) by simp
  have "(name, ?until, n) \<in> set (acting m)"
    using assms(1) by (auto simp: once_arrives_def Let_def split: option.splits)
  then have "keeps_delivery m name ?until" unfolding keeps_delivery_def by blast
  moreover have "all_spare (once_happens tolerance) (spares_delivery name ?until) m (es @ [Comes name t'])"
    unfolding all_spare_append using spared_run [of es ?until tolerance m name] assms(2-5)
    by (simp add: replayable_ms_def)
  ultimately have "\<not> takes_delivery tolerance m' name (Comes name t')"
    unfolding assms(2) by (rule deliveries.taken_once)
  then obtain k where k: "fst (once_arrives tolerance t' name m') = Repeats k"
    by (cases "fst (once_arrives tolerance t' name m')") (auto simp: takes_delivery_def)
  have "runs_named m'"
    unfolding assms(2) m by (intro runs_named_run runs_named_step) (simp add: runs_named_def nothing_yet_def)
  with k show ?thesis
    by (fastforce simp: once_arrives_def Let_def runs_named_def dest!: map_of_SomeD set_live_at split: option.splits)
qed

text \<open>
  In its last second a delivery is good again. One that arrives signed for the very end of the tolerance
  is forgotten exactly when that second ends, while its signature still counts: the same request, posted
  again, is acted on a second time.
\<close>

theorem delivery_replayed_in_the_last_second:
  assumes "stamp_ok now tolerance ps = Some (k, now + tolerance, drawn)" "0 \<le> tolerance"
    and "\<forall>(x, forgetAt, i)\<in>set (acting m). forgetAt \<le> (now + 2 * tolerance) * 1000"
    and "once_arrives tolerance (now * 1000) name m = (Begins n, m')"
  shows "stamp_ok (now + 2 * tolerance) tolerance ps = Some (k, now + tolerance, drawn) \<and>
    fst (once_arrives tolerance ((now + 2 * tolerance) * 1000) name m') = Begins (length (runs m'))"
proof
  show "stamp_ok (now + 2 * tolerance) tolerance ps = Some (k, now + tolerance, drawn)"
    using assms(1,2) by (auto simp: stamp_ok_def split: option.splits bare.splits if_splits)
  have "\<forall>x\<in>set (acting m'). \<not> (now + 2 * tolerance) * 1000 < fst (snd x)"
    using assms(3,4) by (fastforce simp: once_arrives_def Let_def replayable_ms_def algebra_simps dest!: set_live_at split: option.splits)
  then have "live_at ((now + 2 * tolerance) * 1000) (acting m') = []"
    by (auto simp: live_at_def dropWhile_eq_Nil_conv split_beta)
  then show "fst (once_arrives tolerance ((now + 2 * tolerance) * 1000) name m') = Begins (length (runs m'))"
    by (simp add: once_arrives_def Let_def)
qed

subsection \<open>A route at work\<close>

text \<open>A platform that writes and reads the three fields of a signature, and a gateway that posts under its key.\<close>

definition posting_covered :: inner_list where
  "posting_covered = covered_by GATEWAY_SIGNS sample_key 1000 sample_nonce"

definition posting_platform :: platform where
  "posting_platform = sample_platform
     \<lparr>parse_dictionary := (\<lambda>s.
        if s = ''input'' then Some [(SIGNATURE_LABEL, Inner posting_covered)]
        else if s = ''signed'' then Some [(SIGNATURE_LABEL, Single (BareBytes (hexToBytes (hex_times ''07'' 64)), []))]
        else Some [(''sha-256'', Single (BareBytes (hexToBytes (tl s)), []))]),
      serialize_dictionary := (\<lambda>d. case d of
        [(label, Inner _)] \<Rightarrow> ''input''
      | [(label, Single (BareBytes bs, _))] \<Rightarrow> if label = SIGNATURE_LABEL then ''signed'' else CHR '':'' # bytesToHex bs
      | _ \<Rightarrow> [])\<rparr>"

lemma posting_understood:
  "list_all (understood posting_platform)
     (written_fields posting_platform sample_key GATEWAY_SIGNS body 1000 sample_nonce (hexToBytes (sign_payload sample_key p)))"
  by (simp add: written_fields_def understood_def posting_platform_def SIGNATURE_LABEL_def posting_covered_def hexToBytes_bytesToHex
      sample_key_def)

lemma posting_honest: "honest_key posting_platform sample_key"
  using sample_key_honest by (simp add: honest_key_def posting_platform_def)

lemma posting_url: "\<exists>u. url_of posting_platform url = Some u"
  by (simp add: posting_platform_def sample_platform_def)

lemma posted_here: "\<exists>hs. signedHeaders posting_platform sample_key url body 1000 sample_nonce = Some hs"
  by (simp add: signedHeaders_def signedBy_def signatureBase_def covered_by_def GATEWAY_SIGNS_def componentValue_def
      is_header_name_def is_token_char_def is_digit_def is_letter_def code_def starts_with_code Let_def header_get_def
      posting_platform_def sample_platform_def lower_def lower_char_def split: option.split sum.split)

definition posted_to_shop :: "string \<Rightarrow> incoming" where
  "posted_to_shop body =
     \<lparr>in_method = ''POST'', in_url = ''https://shop.example/hook'',
      in_headers = (case signedHeaders posting_platform sample_key ''https://shop.example/hook'' body 1000 sample_nonce of
        Some hs \<Rightarrow> hs | None \<Rightarrow> []), in_body = body\<rparr>"

definition shop_handlers :: handlers where
  "shop_handlers =
     \<lparr>on_settled = True, on_unproven = False, on_payment = False, credential_pinned = Some (publicKeyHex sample_key),
      toleranceSecs = None, registered_url = None\<rparr>"

lemma arrived_here: "arrives_as_posted posting_platform sample_key ''https://shop.example/hook'' body 1000 sample_nonce (options_of shop_handlers) (posted_to_shop body)"
proof -
  obtain hs where "signedHeaders posting_platform sample_key ''https://shop.example/hook'' body 1000 sample_nonce = Some hs"
    using posted_here by blast
  with posting_url [of "''https://shop.example/hook''"] posting_honest posting_understood [of body]
  show ?thesis by (auto simp: arrives_as_posted_def posted_to_shop_def delivered_message_def options_of_def shop_handlers_def)
qed

definition sold_here :: public_payment where
  "sold_here = sold\<lparr>paymentHash := bytesToHex sale_hash, preimage := Some ''00ff''\<rparr>"

lemma sold_here_facts:
  "pay_status sold_here = Paid" "preimage sold_here = Some ''00ff''" "preimageMatchesHash ''00ff'' (paymentHash sold_here)"
  "pay_id sold_here = ''p-1''" "paymentHash sold_here = bytesToHex sale_hash" "reads_time one_clock 1700000000"
  using sale_preimage by (simp_all add: sold_here_def sold_def reads_time_def one_clock_def)

lemma tolerance_here: "\<forall>i. \<bar>(1200 :: int) - 1000\<bar> \<le> tolerance_of (toleranceSecs shop_handlers)"
  by (simp add: shop_handlers_def tolerance_of_def TOLERANCE_SECS_def)

lemma shop_facts:
  "on_settled shop_handlers" "credential_pinned shop_handlers = Some (publicKeyHex sample_key)"
  "delivery_name ''p-1'' Paid = ''p-1:paid''"
  by (simp_all add: shop_handlers_def delivery_name_def)

lemma posted_is_acted_on_witness:
  "(\<exists>reply. webhook_reads posting_platform one_clock (\<lambda>_. 1200) shop_handlers (publicKeyHex sample_key)
      (posted_to_shop (stringify (JObj (deliveryToWire sold_here 1700000000)))) =
      Inr (Acts ''p-1:paid'' (Some (Settles \<lparr>del_id = ''p-1'', del_status = Paid, del_hash = bytesToHex sale_hash,
        del_preimage = Some ''00ff'', del_settledAt = 1700000000\<rparr>), reply))) \<and>
   (\<exists>reply. webhook_reads posting_platform one_clock (\<lambda>_. 1200) shop_handlers (publicKeyHex sample_key)
      (posted_to_shop (challenge_body CHALLENGE ''n'')) = Inr (Answers reply) \<and> challenge_proves (out_body reply) ''n'')"
  using posted_is_acted_on [OF arrived_here arrived_here tolerance_here tolerance_here sold_here_facts(6,1-3), of "''n''"]
  by (auto simp: sold_here_facts shop_facts)

definition around_shop :: around where
  "around_shop = (around_here JNull)\<lparr>ar_platform := posting_platform, ar_date := one_clock\<rparr>"

lemma webhook_settles_only_proofs_witness:
  "\<exists>covered signature. chosen posting_platform (in_headers (posted_to_shop (stringify (JObj (deliveryToWire sold_here 1700000000)))))
      ''thunder-bridge-gateway'' = Some (covered, signature) \<and> preimageMatchesHash ''00ff'' (bytesToHex sale_hash)"
proof -
  let ?r = "posted_to_shop (stringify (JObj (deliveryToWire sold_here 1700000000)))"
  let ?s = "\<lparr>del_id = ''p-1'', del_status = Paid, del_hash = bytesToHex sale_hash, del_preimage = Some ''00ff'', del_settledAt = 1700000000\<rparr>"
  have "\<exists>c m. webhook_route around_shop (\<lambda>_. 1200) 1200000 shop_handlers ?r (client_here None, nothing_yet) =
      (Acting (Begins 0) (Some (Settles ?s)) (text_reply 200 ''ok''), c, m)"
    using posted_delivery_read [OF arrived_here tolerance_here sold_here_facts(6,1-3)]
    by (simp add: webhook_route_def credential_def around_shop_def sold_here_facts shop_facts once_arrives_def nothing_yet_def live_at_def)
  then obtain c m where "webhook_route around_shop (\<lambda>_. 1200) 1200000 shop_handlers ?r (client_here None, nothing_yet) =
      (Acting (Begins 0) (Some (Settles ?s)) (text_reply 200 ''ok''), c, m)" by blast
  from webhook_settles_only_proofs [OF this] show ?thesis by (auto simp: around_shop_def)
qed

lemma delivery_acts_once_witness:
  "fst (once_arrives 300 599999 ''p-1:paid''
     (fold (once_happens 300) [Comes ''p-2:paid'' 1000, Ended 1 False] (snd (once_arrives 300 0 ''p-1:paid'' nothing_yet)))) = Repeats 0"
proof -
  let ?m = "snd (once_arrives 300 0 ''p-1:paid'' nothing_yet)"
  have "once_arrives 300 0 ''p-1:paid'' (fold (once_happens 300) [] nothing_yet) = (Begins 0, ?m)"
    by (simp add: once_arrives_def nothing_yet_def live_at_def)
  from delivery_acts_once [OF this refl, of "[Comes ''p-2:paid'' 1000, Ended 1 False]" 599999]
  obtain k where "fst (once_arrives 300 599999 ''p-1:paid''
     (fold (once_happens 300) [Comes ''p-2:paid'' 1000, Ended 1 False] ?m)) = Repeats k" "k < 2"
      "[''p-1:paid'', ''p-2:paid''] ! k = ''p-1:paid''"
    by (auto simp: once_arrives_def nothing_yet_def live_at_def once_ends_def replayable_ms_def Let_def)
  then show ?thesis by (cases k) auto
qed

lemma delivery_replayed_in_the_last_second_witness:
  "fst (once_arrives 300 1600000 ''p-1:paid'' (snd (once_arrives 300 1000000 ''p-1:paid'' nothing_yet))) = Begins 1"
proof -
  let ?m = "snd (once_arrives 300 1000000 ''p-1:paid'' nothing_yet)"
  have "stamp_ok 1000 300 (snd (covered_by GATEWAY_SIGNS sample_key 1300 sample_nonce)) = Some (publicKeyHex sample_key, 1000 + 300, Some sample_nonce)"
    using stamp_ok_covered_by [OF sample_key_honest, of 1000 1300 300] by simp
  from delivery_replayed_in_the_last_second [OF this, of nothing_yet "''p-1:paid''" 0 ?m]
  show ?thesis by (simp add: once_arrives_def nothing_yet_def live_at_def)
qed

end
