(* ===== verification/Relay.thy ===== *)
theory Relay
  imports Serving Sealed
begin

text \<open>
  \<^verbatim>\<open>sdk/src/relay.ts\<close>: a verify endpoint that asks the recipient's wallet for the gateway, with the
  wallet's own address sealed into its query. The lemmas show that a gateway that polls the relay learns
  exactly what it would learn from the wallet, at the pace the relay asks for.
\<close>

subsection \<open>Pages\<close>

text \<open>
  \<^verbatim>\<open>new URL(text)\<close> and \<^verbatim>\<open>toString\<close> of the platform on what the code reads and sets: the origin, the path
  and the parameters of the query in their order. What else a URL holds, its scheme, credentials and fragment,
  the code neither reads nor sets: it goes along as \<open>page_rest\<close>.
\<close>

record page =
  page_origin :: string
  page_path :: string
  page_query :: "(string \<times> string) list"
  page_rest :: string

record pages =
  read_page :: "string \<Rightarrow> page option"
  write_page :: "page \<Rightarrow> string"

text \<open>\<^verbatim>\<open>searchParams.get\<close> and \<^verbatim>\<open>searchParams.set\<close>: the first of a name counts, and setting removes the others.\<close>

definition get_param :: "string \<Rightarrow> page \<Rightarrow> string option" where
  "get_param name p = map_of (page_query p) name"

fun set_pair :: "string \<Rightarrow> string \<Rightarrow> (string \<times> string) list \<Rightarrow> (string \<times> string) list" where
  "set_pair name v [] = [(name, v)]"
| "set_pair name v ((n, w) # ps) =
     (if n = name then (name, v) # filter (\<lambda>(m, _). m \<noteq> name) ps else (n, w) # set_pair name v ps)"

definition set_param :: "string \<Rightarrow> string \<Rightarrow> page \<Rightarrow> page" where
  "set_param name v p = p\<lparr>page_query := set_pair name v (page_query p)\<rparr>"

definition with_params :: "(string \<times> string) list \<Rightarrow> page \<Rightarrow> page" where
  "with_params sets p = fold (\<lambda>(name, v). set_param name v) sets p"

text \<open>
  What the code relies on of the platform: a URL that was read, and had parameters set, is written so that it
  reads back. Nothing is asked of a page that no text gives, such as one without an origin.
\<close>

definition pages_keep :: "pages \<Rightarrow> bool" where
  "pages_keep ps \<longleftrightarrow> (\<forall>text p sets. read_page ps text = Some p \<longrightarrow> sets \<noteq> [] \<longrightarrow>
     read_page ps (write_page ps (with_params sets p)) = Some (with_params sets p))"

lemma pages_keep_many:
  "pages_keep ps \<Longrightarrow> read_page ps text = Some p \<Longrightarrow> sets \<noteq> [] \<Longrightarrow>
    read_page ps (write_page ps (with_params sets p)) = Some (with_params sets p)"
  unfolding pages_keep_def by blast

lemma pages_keep_one:
  "pages_keep ps \<Longrightarrow> read_page ps text = Some p \<Longrightarrow>
    read_page ps (write_page ps (set_param name v p)) = Some (set_param name v p)"
  using pages_keep_many [where sets = "[(name, v)]"] by (simp add: with_params_def)

lemma origin_set_param [simp]: "page_origin (set_param name v p) = page_origin p"
  by (simp add: set_param_def)

lemma origin_with_params [simp]: "page_origin (with_params sets p) = page_origin p"
  unfolding with_params_def by (induction sets arbitrary: p) auto

lemma map_of_set_pair [simp]: "map_of (set_pair name v ps) n = (if n = name then Some v else map_of ps n)"
proof (induction ps)
  case (Cons p ps)
  have "map_of (filter (\<lambda>(m, _). m \<noteq> name) ps) n = map_of ps n" if "n \<noteq> name"
    using that by (induction ps) auto
  with Cons show ?case by (cases p) auto
qed simp

lemma get_set_param [simp]: "get_param n (set_param name v p) = (if n = name then Some v else get_param n p)"
  by (simp add: get_param_def set_param_def)

subsection \<open>The relay\<close>

definition DEFAULT_POLL_EVERY_SECS :: int where "DEFAULT_POLL_EVERY_SECS = 5"
definition WALLET :: string where "WALLET = ''w''"

record relayed =
  relayed_url :: string
  relayed_hash :: string

record verify_through =
  through_endpoint :: string
  through_secret :: string

datatype path_error = TwoPaths | NoPath

text \<open>Who the gateway polls: \<open>minting\<close> is \<^verbatim>\<open>gatewayMints\<close>.\<close>

definition verifiedThrough :: "verify_through option \<Rightarrow> bool option \<Rightarrow> path_error + verify_through option" where
  "verifiedThrough through minting =
     (if through \<noteq> None \<and> minting = Some True then Inl TwoPaths
      else if through = None \<and> minting \<noteq> Some True then Inl NoPath
      else Inr through)"

datatype relay_error = BadUrl | Sealing seal_error

definition relayed_json :: "relayed \<Rightarrow> json" where
  "relayed_json w = JObj [(''url'', JStr (relayed_url w)), (''hash'', JStr (relayed_hash w))]"

definition relayedVerifyUrl :: "pages \<Rightarrow> sealing \<Rightarrow> bytes \<Rightarrow> string \<Rightarrow> relayed \<Rightarrow> string \<Rightarrow> relay_error + string" where
  "relayedVerifyUrl ps plat drawn endpoint wallet secret =
     (case read_page ps endpoint of
        None \<Rightarrow> Inl BadUrl
      | Some p \<Rightarrow>
          (case sealFor plat drawn Relay secret (stringify (relayed_json wallet)) False of
             Inl e \<Rightarrow> Inl (Sealing e)
           | Inr blob \<Rightarrow> Inr (write_page ps (set_param WALLET blob p))))"

definition relayedFrom :: "string \<Rightarrow> relayed option" where
  "relayedFrom opened =
     (case parse_json opened of
        Some (JObj ms) \<Rightarrow>
          (case (json_string (field ms ''url''), json_string (field ms ''hash'')) of
             (Some u, Some h) \<Rightarrow> Some \<lparr>relayed_url = u, relayed_hash = h\<rparr>
           | _ \<Rightarrow> None)
      | _ \<Rightarrow> None)"

record relay_config =
  relay_secret :: string
  relay_pollEverySecs :: "int option"

definition paced :: "int option \<Rightarrow> int \<Rightarrow> headers" where
  "paced asked usual = [(''cache-control'', ''max-age='' @ show_int (case asked of None \<Rightarrow> usual | Some n \<Rightarrow> n))]"

definition unsettled :: "nat \<Rightarrow> headers \<Rightarrow> served_reply" where
  "unsettled st hs = json_reply st hs (JObj [(''settled'', JBool False)])"

definition lightningVerifyEndpoint :: "network \<Rightarrow> pages \<Rightarrow> sealing \<Rightarrow> relay_config \<Rightarrow> incoming \<Rightarrow> request list \<Rightarrow>
    (relay_error + served_reply) \<times> request list" where
  "lightningVerifyEndpoint net ps plat cfg r trace =
     (case answerVerifyChallenge r of
        Some consented \<Rightarrow> (Inr consented, trace)
      | None \<Rightarrow>
          (case read_page ps (in_url r) of
             None \<Rightarrow> (Inl BadUrl, trace)
           | Some p \<Rightarrow>
               (case get_param WALLET p of
                  None \<Rightarrow> (Inr (unsettled 400 []), trace)
                | Some blob \<Rightarrow>
                    (case unsealFor plat Relay (relay_secret cfg) blob of
                       Inl e \<Rightarrow> (Inl (Sealing e), trace)
                     | Inr opened \<Rightarrow>
                         (case Option.bind opened relayedFrom of
                            None \<Rightarrow> (Inr (unsettled 403 []), trace)
                          | Some wallet \<Rightarrow>
                              (case checkSettled net (relayed_url wallet) (relayed_hash wallet) trace of
                                 (None, trace') \<Rightarrow> (Inr (unsettled 502 []), trace')
                               | (Some found, trace') \<Rightarrow>
                                   (Inr (json_reply 200 (paced (relay_pollEverySecs cfg) DEFAULT_POLL_EVERY_SECS)
                                      (JObj [(''settled'', JBool (settled_preimage found \<noteq> None)),
                                             (''preimage'', nullable JStr (settled_preimage found))])), trace')))))))"

subsection \<open>Asking the relay is asking the wallet\<close>

lemma search_here: "match_here s = Some x \<Longrightarrow> search match_here s = Some x"
  by (cases s) simp_all

lemma pace_written:
  assumes "0 \<le> n"
  shows "paceAskedFor (paced (Some n) usual @ JSON_TYPE) = Some (min (max (nat n) MIN_PACE_SECS) MAX_PACE_SECS)"
proof -
  let ?d = "show_nat (nat n)"
  have digits: "list_all is_digit ?d" "number_of_digits ?d = nat n"
    using is_decimal_show_nat [of "nat n"] by (simp_all add: is_decimal_def text_simps)
  have "skip_blank ?d = ?d"
    using digits(1) by (cases ?d) (auto simp: skip_blank_def dest: is_digit_not_space)
  then have "digits_here (skip_blank ?d) = Some (nat n, dropWhile is_digit ?d)"
    using digits by (simp add: digits_here_def takeWhile_all Let_def)
  moreover have "skip_blank (CHR ''='' # s) = CHR ''='' # s" for s by (simp add: skip_blank_def is_space_def code_def)
  moreover have "lower ''max-age'' = ''max-age''" by code_simp
  ultimately have "max_age_here (''max-age='' @ ?d) = Some (nat n)"
    by (simp add: max_age_here_def equals_number_def)
  then have "search max_age_here (''max-age='' @ show_nat (nat n)) = Some (nat n)" by (rule search_here)
  moreover have "header_text (paced (Some n) usual @ JSON_TYPE) ''cache-control'' = ''max-age='' @ show_nat (nat n)"
  proof -
    have "lower ''cache-control'' = ''cache-control''" "lower ''content-type'' \<noteq> ''cache-control''" by code_simp+
    then show ?thesis using assms by (simp add: header_text_def header_get_def paced_def JSON_TYPE_def show_int_def)
  qed
  ultimately show ?thesis by (simp add: paceAskedFor_def)
qed

lemma json_plain_relayed [simp]: "json_plain (relayed_json w)"
  by (simp add: relayed_json_def)

lemma relayedFrom_json: "relayedFrom (stringify (relayed_json w)) = Some w"
  by (simp add: relayedFrom_def parse_stringify) (simp add: relayed_json_def)

lemma relayed_opens:
  assumes "relayedVerifyUrl ps plat drawn endpoint wallet secret = Inr url" "platform_opens plat" "pages_keep ps"
    and "length drawn = 12" "length (utf8 (stringify (relayed_json wallet))) \<le> 3000"
  obtains p blob where "read_page ps url = Some p" "get_param WALLET p = Some blob"
    "unsealFor plat Relay secret blob = Inr (Some (stringify (relayed_json wallet)))"
proof -
  obtain p blob where p: "read_page ps endpoint = Some p" "url = write_page ps (set_param WALLET blob p)"
    and blob: "sealFor plat drawn Relay secret (stringify (relayed_json wallet)) False = Inr blob"
    using assms(1) by (auto simp: relayedVerifyUrl_def split: option.splits sum.splits)
  have "unsealFor plat Relay secret blob = Inr (Some (stringify (relayed_json wallet)))"
    using sealed_for_its_purpose [OF assms(2,5,4), of secret Relay False None drawn] blob by (auto split: if_splits)
  moreover have "read_page ps url = Some (set_param WALLET blob p)" using pages_keep_one [OF assms(3) p(1)] p(2) by simp
  ultimately show ?thesis using that by simp
qed

lemma checkSettled_preimage:
  assumes "checkSettled net url hash trace = (Some s, trace')" "settled_preimage s = Some secret"
  shows "preimageMatchesHash secret hash" "secret \<noteq> []"
  using assms by (auto simp: checkSettled_def Let_def split: sum.splits prod.splits option.splits if_splits json.splits)

lemma checkSettled_relayed:
  assumes "answeredJson net url True trace =
      (Inr (JObj [(''settled'', JBool (said \<noteq> None)), (''preimage'', nullable JStr said)], hs), trace')"
    and "\<forall>secret. said = Some secret \<longrightarrow> preimageMatchesHash secret hash \<and> secret \<noteq> []"
  shows "checkSettled net url hash trace =
    (Some \<lparr>settled_preimage = said, settled_pace = paceAskedFor hs, settled_ceiling = ceilingAskedFor hs\<rparr>, trace')"
  using assms by (cases said) (simp_all add: checkSettled_def nullable_def)

text \<open>
  C30: asking the relay is asking the wallet. For the address that was handed to the gateway in place of the
  wallet's own, the relay asks the wallet once; when the wallet gives an answer the relay passes it on
  such that the gateway, whatever lies between it and the relay, concludes from it what it would have
  concluded from the wallet, preimage and all, and polls again at the pace of the relay; and when the
  wallet gives none, the relay says that it could not be asked rather than that nothing settled.
\<close>

theorem relay_asks_the_wallet:
  assumes "relayedVerifyUrl ps plat drawn endpoint \<lparr>relayed_url = wallet, relayed_hash = hash\<rparr> (relay_secret cfg) = Inr url"
    and "platform_opens plat" "pages_keep ps" "length drawn = 12"
    and "length (utf8 (stringify (relayed_json \<lparr>relayed_url = wallet, relayed_hash = hash\<rparr>))) \<le> 3000"
    and "relay_pollEverySecs cfg = Some n" "0 \<le> n" "checkSettled net wallet hash trace = (found, trace')"
  shows "\<exists>reply. lightningVerifyEndpoint net ps plat cfg
      \<lparr>in_method = ''GET'', in_url = url, in_headers = hs, in_body = body\<rparr> trace = (Inr reply, trace') \<and>
    (case found of
       None \<Rightarrow> out_status reply = 502
     | Some s \<Rightarrow> out_status reply = 200 \<and>
         (\<forall>net2 trace2 said trace2'. parse_json (out_body reply) = Some said \<and>
            answeredJson net2 url True trace2 = (Inr (said, out_headers reply), trace2') \<longrightarrow>
            (\<exists>s2. checkSettled net2 url hash trace2 = (Some s2, trace2') \<and> settled_preimage s2 = settled_preimage s \<and>
               settled_pace s2 = Some (min (max (nat n) MIN_PACE_SECS) MAX_PACE_SECS))))"
proof -
  let ?w = "\<lparr>relayed_url = wallet, relayed_hash = hash\<rparr>"
  let ?r = "\<lparr>in_method = ''GET'', in_url = url, in_headers = hs, in_body = body\<rparr>"
  let ?paced = "paced (relay_pollEverySecs cfg) DEFAULT_POLL_EVERY_SECS"
  let ?said = "\<lambda>s. JObj [(''settled'', JBool (settled_preimage s \<noteq> None)), (''preimage'', nullable JStr (settled_preimage s))]"
  obtain p blob where opens: "read_page ps url = Some p" "get_param WALLET p = Some blob"
    "unsealFor plat Relay (relay_secret cfg) blob = Inr (Some (stringify (relayed_json ?w)))"
    using assms(1-5) by (rule relayed_opens)
  have "answerVerifyChallenge ?r = None" by (simp add: answerVerifyChallenge_def)
  with opens have asked: "lightningVerifyEndpoint net ps plat cfg ?r trace =
      (case found of
         None \<Rightarrow> (Inr (unsettled 502 []), trace')
       | Some s \<Rightarrow> (Inr (json_reply 200 ?paced (?said s)), trace'))"
    by (simp add: lightningVerifyEndpoint_def relayedFrom_json assms(8) split: option.split)
  show ?thesis
  proof (cases found)
    case None
    then show ?thesis using asked by (simp add: unsettled_def json_reply_def)
  next
    case (Some s)
    let ?reply = "json_reply 200 ?paced (?said s)"
    have "json_plain (?said s)" by (cases "settled_preimage s") simp_all
    then have parsed: "parse_json (out_body ?reply) = Some (?said s)" by (simp only: json_reply_def served_reply.simps parse_stringify)
    have "checkSettled net2 url hash trace2 = (Some \<lparr>settled_preimage = settled_preimage s,
        settled_pace = paceAskedFor (out_headers ?reply), settled_ceiling = ceilingAskedFor (out_headers ?reply)\<rparr>, trace2')"
      if "answeredJson net2 url True trace2 = (Inr (?said s, out_headers ?reply), trace2')" for net2 trace2 trace2'
      using that by (rule checkSettled_relayed) (use assms(8) checkSettled_preimage in \<open>auto simp: Some\<close>)
    moreover have "paceAskedFor (out_headers ?reply) = Some (min (max (nat n) MIN_PACE_SECS) MAX_PACE_SECS)"
      using pace_written [OF assms(7), of DEFAULT_POLL_EVERY_SECS] by (simp add: json_reply_def assms(6))
    ultimately show ?thesis using asked parsed by (auto simp: Some json_reply_def)
  qed
qed

subsection \<open>A relay at work\<close>

text \<open>Pages that are written as JSON, which reads back when the page has an origin, as every page that was read has.\<close>

fun pair_of :: "json \<Rightarrow> (string \<times> string) option" where
  "pair_of (JArr [JStr n, JStr v]) = Some (n, v)"
| "pair_of _ = None"

definition json_pages :: pages where
  "json_pages =
     \<lparr>read_page = (\<lambda>text. case parse_json text of
        Some (JArr [JStr base, JStr path, JArr ps, JStr rest]) \<Rightarrow>
          (if base = [] then None
           else Some \<lparr>page_origin = base, page_path = path, page_query = List.map_filter pair_of ps, page_rest = rest\<rparr>)
      | _ \<Rightarrow> None),
      write_page = (\<lambda>p. stringify (JArr [JStr (page_origin p), JStr (page_path p),
        JArr (map (\<lambda>(n, v). JArr [JStr n, JStr v]) (page_query p)), JStr (page_rest p)]))\<rparr>"

lemma json_pages_read:
  assumes "page_origin p \<noteq> []"
  shows "read_page json_pages (write_page json_pages p) = Some p"
proof -
  let ?v = "JArr [JStr (page_origin p), JStr (page_path p), JArr (map (\<lambda>(n, v). JArr [JStr n, JStr v]) (page_query p)), JStr (page_rest p)]"
  have "json_plain ?v" by (auto simp: list_all_iff)
  then have "parse_json (stringify ?v) = Some ?v" by (rule parse_stringify)
  moreover have "List.map_filter pair_of (map (\<lambda>(n, v). JArr [JStr n, JStr v]) ps) = ps" for ps
    by (induction ps) (auto simp: List.map_filter_simps)
  ultimately show ?thesis using assms by (simp add: json_pages_def)
qed

lemma json_pages_origin: "read_page json_pages text = Some p \<Longrightarrow> page_origin p \<noteq> []"
  by (auto simp: json_pages_def split: option.splits json.splits list.splits if_splits)

lemma json_pages_keep: "pages_keep json_pages"
  by (auto simp: pages_keep_def intro!: json_pages_read dest: json_pages_origin)

definition relay_here :: relay_config where
  "relay_here = \<lparr>relay_secret = replicate 32 CHR ''s'', relay_pollEverySecs = Some 5\<rparr>"

definition wallet_here :: relayed where
  "wallet_here = \<lparr>relayed_url = ''https://pay.example.com/v'', relayed_hash = bytesToHex sale_hash\<rparr>"

definition endpoint_here :: string where
  "endpoint_here = write_page json_pages \<lparr>page_origin = ''https://shop.example'', page_path = ''/verify'', page_query = [], page_rest = []\<rparr>"

lemma utf8_length_hex: "length (utf8 s) \<le> 2 * length s"
  by (induction s) (auto simp: utf8_def utf8_char_def)

lemma quote_length: "length (quote s) \<le> 6 * length s + 2"
proof -
  have "length (concat (map escape_char s)) \<le> 6 * length s"
    by (induction s) (auto simp: escape_char_def)
  then show ?thesis by (simp add: quote_def)
qed

lemma wallet_here_length: "length (utf8 (stringify (relayed_json wallet_here))) \<le> 3000"
proof -
  have "length (relayed_hash wallet_here) = 64" "length (relayed_url wallet_here) = 25"
    by (simp_all add: wallet_here_def sale_hash_def length_bytesToHex length_sha256)
  then have "length (stringify (relayed_json wallet_here)) \<le> 1000"
    using quote_length [of "relayed_hash wallet_here"] quote_length [of "relayed_url wallet_here"]
      quote_length [of "''url''"] quote_length [of "''hash''"]
    by (simp add: relayed_json_def stringify.simps)
  with utf8_length_hex [of "stringify (relayed_json wallet_here)"] show ?thesis by simp
qed

lemma relay_asks_the_wallet_witness:
  "\<exists>url reply r. relayedVerifyUrl json_pages clear_platform (replicate 12 7) endpoint_here wallet_here (relay_secret relay_here) = Inr url \<and>
     lightningVerifyEndpoint (sample_net [JObj [(''settled'', JBool True), (''preimage'', JStr ''00ff'')]]) json_pages clear_platform relay_here
       \<lparr>in_method = ''GET'', in_url = url, in_headers = [], in_body = []\<rparr> [] = (Inr reply, [r]) \<and> out_status reply = 200"
proof -
  let ?said = "JObj [(''settled'', JBool True), (''preimage'', JStr ''00ff'')]"
  obtain r where "answeredJson (sample_net [?said]) (relayed_url wallet_here) True [] = (Inr (?said, []), [r])"
    using sample_answered [of "[]" "[?said]" "relayed_url wallet_here" True] by auto
  then obtain s where checked: "checkSettled (sample_net [?said]) (relayed_url wallet_here) (relayed_hash wallet_here) [] = (Some s, [r])"
    using sale_preimage by (simp add: checkSettled_def wallet_here_def)
  have "read_page json_pages endpoint_here = Some \<lparr>page_origin = ''https://shop.example'', page_path = ''/verify'', page_query = [], page_rest = []\<rparr>"
    unfolding endpoint_here_def by (rule json_pages_read) simp
  moreover have "\<not> weak_secret (relay_secret relay_here)" by (simp add: weak_secret_def MIN_SECRET_CHARS_def relay_here_def)
  then obtain blob where "sealFor clear_platform (replicate 12 7) Relay (relay_secret relay_here) (stringify (relayed_json wallet_here)) False = Inr blob"
    using sealed_for_its_purpose [OF clear_platform_promises wallet_here_length, of "replicate 12 7" "relay_secret relay_here" Relay False]
    by auto
  ultimately obtain url where url: "relayedVerifyUrl json_pages clear_platform (replicate 12 7) endpoint_here wallet_here (relay_secret relay_here) = Inr url"
    by (simp add: relayedVerifyUrl_def)
  have wallet: "\<lparr>relayed_url = relayed_url wallet_here, relayed_hash = relayed_hash wallet_here\<rparr> = wallet_here" by simp
  have "relay_pollEverySecs relay_here = Some 5" by (simp add: relay_here_def)
  note asked = relay_asks_the_wallet [where wallet = "relayed_url wallet_here" and hash = "relayed_hash wallet_here", unfolded wallet,
      OF url clear_platform_promises json_pages_keep _ wallet_here_length this _ checked, of "[]" "[]"]
  have "\<exists>reply. lightningVerifyEndpoint (sample_net [?said]) json_pages clear_platform relay_here
      \<lparr>in_method = ''GET'', in_url = url, in_headers = [], in_body = []\<rparr> [] = (Inr reply, [r]) \<and> out_status reply = 200"
    using asked by (simp only: option.case length_replicate zero_le_numeral simp_thms) blast
  with url show ?thesis by blast
qed

end
