(* ===== verification/Numbers.thy ===== *)
theory Numbers
  imports Prices JsonText
begin

text \<open>
  Numbers of the language as its code converts them: \<^verbatim>\<open>Number(text)\<close>, \<^verbatim>\<open>String(number)\<close>, comparisons and
  \<^verbatim>\<open>Number.isSafeInteger\<close>, with the infinities and \<^verbatim>\<open>NaN\<close>, and \<^verbatim>\<open>toUpperCase\<close>. The lemmas say that a safe
  integer survives its text and that no other number has the text of one.
\<close>

subsection \<open>Doubles\<close>

text \<open>\<^verbatim>\<open>Number(text)\<close> in full: a double, an infinity or \<^verbatim>\<open>NaN\<close>.\<close>

datatype double = Finite rat | PlusInfinity | MinusInfinity | NotANumber

definition OVERFLOW :: rat where "OVERFLOW = 2 ^ 1024 - 2 ^ 970"

definition double_of :: "rounding \<Rightarrow> string \<Rightarrow> double" where
  "double_of fl text =
     (let s = trim text
      in if s = ''Infinity'' \<or> s = ''+Infinity'' then PlusInfinity
         else if s = ''-Infinity'' then MinusInfinity
         else (case js_number text of
                 None \<Rightarrow> NotANumber
               | Some q \<Rightarrow> if OVERFLOW \<le> q then PlusInfinity else if q \<le> - OVERFLOW then MinusInfinity else Finite (fl q)))"

fun double_less :: "double \<Rightarrow> double \<Rightarrow> bool" where
  "double_less (Finite p) (Finite q) \<longleftrightarrow> p < q"
| "double_less (Finite p) PlusInfinity \<longleftrightarrow> True"
| "double_less MinusInfinity (Finite q) \<longleftrightarrow> True"
| "double_less MinusInfinity PlusInfinity \<longleftrightarrow> True"
| "double_less _ _ \<longleftrightarrow> False"

definition double_equal :: "double \<Rightarrow> double \<Rightarrow> bool" where
  "double_equal x y \<longleftrightarrow> x = y \<and> x \<noteq> NotANumber"

definition safe_whole :: "rat \<Rightarrow> bool" where
  "safe_whole q \<longleftrightarrow> of_int \<lfloor>q\<rfloor> = q \<and> \<bar>\<lfloor>q\<rfloor>\<bar> \<le> MAX_SAFE_INTEGER"

fun safe_integer :: "double \<Rightarrow> int option" where
  "safe_integer (Finite q) = (if safe_whole q then Some \<lfloor>q\<rfloor> else None)"
| "safe_integer _ = None"

text \<open>
  \<^verbatim>\<open>String(number)\<close>, as a template writes it: \<open>shortest\<close> is the platform's shortest text that reads back,
  asked for a double that is no safe integer.
\<close>

fun double_text :: "(rat \<Rightarrow> string) \<Rightarrow> double \<Rightarrow> string" where
  "double_text shortest (Finite q) = (if safe_whole q then show_int \<lfloor>q\<rfloor> else shortest q)"
| "double_text shortest PlusInfinity = ''Infinity''"
| "double_text shortest MinusInfinity = ''-Infinity''"
| "double_text shortest NotANumber = ''NaN''"

subsection \<open>Numbers that are written and read\<close>

lemma js_whole_trim: "trim s = trim t \<Longrightarrow> js_whole s = js_whole t"
  by (simp add: js_whole_def)

lemma double_of_whole:
  assumes "js_whole text = Some n" "ieee fl" "\<bar>n\<bar> \<le> MAX_SAFE_INTEGER"
  shows "double_of fl text = Finite (of_int n)"
proof -
  have "js_whole ''Infinity'' = None" "trim ''Infinity'' = ''Infinity''" "js_whole ''+Infinity'' = None"
    "trim ''+Infinity'' = ''+Infinity''" "js_whole ''-Infinity'' = None" "trim ''-Infinity'' = ''-Infinity''" by code_simp+
  then have "trim text \<noteq> ''Infinity''" "trim text \<noteq> ''+Infinity''" "trim text \<noteq> ''-Infinity''"
    using assms(1) js_whole_trim by (metis option.distinct(1))+
  moreover have "\<bar>n\<bar> \<le> 2 ^ 53" using assms(3) by (simp add: MAX_SAFE_INTEGER_def)
  then have "fl (of_int n) = of_int n" using assms(2) by (simp add: ieee_def)
  moreover have "of_int n < OVERFLOW" "- OVERFLOW < of_int n"
    using assms(3) by (auto simp: OVERFLOW_def MAX_SAFE_INTEGER_def)
  ultimately show ?thesis using assms(1) by (simp add: double_of_def js_number_def Let_def)
qed

lemma double_of_show_int [simp]: "ieee fl \<Longrightarrow> \<bar>n\<bar> \<le> MAX_SAFE_INTEGER \<Longrightarrow> double_of fl (show_int n) = Finite (of_int n)"
  by (rule double_of_whole [OF js_whole_show_int])

lemma safe_whole_of_int [simp]: "safe_whole (of_int n) \<longleftrightarrow> \<bar>n\<bar> \<le> MAX_SAFE_INTEGER"
  by (simp add: safe_whole_def)

text \<open>The text of another number is no safe integer's, and has no bar.\<close>

definition numbers_apart :: "(rat \<Rightarrow> string) \<Rightarrow> bool" where
  "numbers_apart shortest \<longleftrightarrow>
     (\<forall>q. \<not> safe_whole q \<longrightarrow> CHR ''|'' \<notin> set (shortest q) \<and> (\<forall>n. \<bar>n\<bar> \<le> MAX_SAFE_INTEGER \<longrightarrow> shortest q \<noteq> show_int n))"

lemma bar_not_in_show_int [simp]: "CHR ''|'' \<notin> set (show_int n)"
  using is_decimal_notin [OF is_decimal_show_nat, of "CHR ''|''"] by (simp add: show_int_def is_digit_def code_def)

lemma double_text_no_bar: "numbers_apart shortest \<Longrightarrow> CHR ''|'' \<notin> set (double_text shortest x)"
  by (cases x) (auto simp: numbers_apart_def)

lemma double_text_whole:
  assumes "numbers_apart shortest" "double_text shortest x = show_int n" "\<bar>n\<bar> \<le> MAX_SAFE_INTEGER"
  shows "x = Finite (of_int n)"
proof -
  have "js_whole ''Infinity'' = None" "js_whole ''NaN'' = None" "js_whole ''-Infinity'' = None" by code_simp+
  then have "show_int n \<noteq> ''Infinity''" "show_int n \<noteq> ''NaN''" "show_int n \<noteq> ''-Infinity''"
    using js_whole_show_int [of n] by auto
  with assms show ?thesis by (cases x) (auto simp: numbers_apart_def safe_whole_def split: if_splits)
qed

lemma ieee_id: "ieee id"
  by (simp add: ieee_def mono_def)

lemma numbers_apart_question_mark: "numbers_apart (\<lambda>_. ''?'')"
proof -
  have "js_whole ''?'' = None" by code_simp
  then have "''?'' \<noteq> show_int n" for n using js_whole_show_int [of n] by auto
  then show ?thesis by (simp add: numbers_apart_def)
qed

subsection \<open>Capitals\<close>

text \<open>
  \<^verbatim>\<open>toUpperCase\<close> below 256: a sharp s becomes two letters. The capitals of the micro sign and of y with
  diaeresis lie above and stay as they are here, which keeps them letters and apart from every other.
\<close>

definition capital :: "char \<Rightarrow> string" where
  "capital c =
     (if 97 \<le> code c \<and> code c \<le> 122 \<or> 224 \<le> code c \<and> code c \<le> 254 \<and> code c \<noteq> 247 then [char_of (code c - 32)]
      else if code c = 223 then ''SS'' else [c])"

definition toUpperCase :: "string \<Rightarrow> string" where
  "toUpperCase s = concat (map capital s)"

lemma capital_capital: "toUpperCase (capital c) = capital c"
proof -
  have "capital d = [d]" if "code d < 97" for d using that by (simp add: capital_def)
  moreover have "capital d = [d]" if "192 \<le> code d" "code d \<le> 222" for d using that by (simp add: capital_def)
  moreover have "code c < 256" by simp
  moreover have "code CHR ''S'' = 83" by (simp add: code_def)
  ultimately show ?thesis by (auto simp: capital_def toUpperCase_def)
qed

lemma toUpperCase_append [simp]: "toUpperCase (s @ t) = toUpperCase s @ toUpperCase t"
  by (simp add: toUpperCase_def)

lemma toUpperCase_Nil [simp]: "toUpperCase [] = []"
  by (simp add: toUpperCase_def)

lemma toUpperCase_Cons: "toUpperCase (c # s) = capital c @ toUpperCase s"
  by (simp add: toUpperCase_def)

lemma toUpperCase_idem [simp]: "toUpperCase (toUpperCase s) = toUpperCase s"
  by (induction s) (simp_all add: toUpperCase_Cons capital_capital)

lemma capital_not_Nil [simp]: "capital c \<noteq> []"
  by (simp add: capital_def)

lemma toUpperCase_eq_Nil [simp]: "toUpperCase s = [] \<longleftrightarrow> s = []"
  by (cases s) (simp_all add: toUpperCase_Cons)

lemma capital_other: "d \<in> set (capital c) \<Longrightarrow> code d < 65 \<or> 90 < code d \<and> code d < 192 \<Longrightarrow> c = d"
proof -
  have "code CHR ''S'' = 83" by (simp add: code_def)
  then show "d \<in> set (capital c) \<Longrightarrow> code d < 65 \<or> 90 < code d \<and> code d < 192 \<Longrightarrow> c = d"
    by (auto simp: capital_def split: if_splits)
qed

lemma bar_in_toUpperCase: "CHR ''|'' \<in> set (toUpperCase s) \<Longrightarrow> CHR ''|'' \<in> set s"
proof -
  have "code CHR ''|'' = 124" by (simp add: code_def)
  then show "CHR ''|'' \<in> set (toUpperCase s) \<Longrightarrow> CHR ''|'' \<in> set s"
    using capital_other [of "CHR ''|''"] by (fastforce simp: toUpperCase_def)
qed

lemma length_toUpperCase: "length (toUpperCase s) \<le> 2 * length s"
  by (induction s) (auto simp: toUpperCase_Cons capital_def)

lemma length_show_nat: "n < 10 ^ Suc k \<Longrightarrow> length (show_nat n) \<le> Suc k"
proof (induction n arbitrary: k rule: show_nat.induct)
  case (1 n)
  show ?case
  proof (cases "n < 10")
    case False
    with 1(2) obtain j where "k = Suc j" by (cases k) auto
    with 1 False show ?thesis by (subst show_nat.simps) (simp add: less_mult_imp_div_less)
  qed (subst show_nat.simps, simp)
qed

lemma length_show_int:
  assumes "\<bar>n\<bar> \<le> MAX_SAFE_INTEGER"
  shows "length (show_int n) \<le> 17"
proof -
  have "nat \<bar>n\<bar> < 10 ^ Suc 15" using assms by (simp add: MAX_SAFE_INTEGER_def)
  then have "length (show_nat (nat \<bar>n\<bar>)) \<le> Suc 15" by (rule length_show_nat)
  then show ?thesis by (cases "n < 0") (simp_all add: show_int_def)
qed

end
