(* ===== verification/Trigger.thy ===== *)
theory Trigger
  imports Relay Numbers
begin

text \<open>
  \<^verbatim>\<open>sdk/src/trigger.ts\<close>: an LNURL-pay endpoint that stands in front of a list of addresses, and the endpoints
  that trade a watch secret for a ticket. Between the offer and the callback nothing is stored: the callback
  carries whom it pays and how much, signed. The lemmas show that the signature lets through what was offered
  and nothing else, and that every answer is one of the three a payer's wallet knows.
\<close>

subsection \<open>Settings\<close>

definition NONCE_BYTES :: nat where "NONCE_BYTES = 16"

text \<open>An amount is what it comes to when it is asked.\<close>

datatype trigger_amount =
    Exactly "price_error + rat"
  | Between "price_error + rat" "price_error + rat"

text \<open>\<^verbatim>\<open>Minted\<close>, what \<open>data\<close> of the sealed payload is given.\<close>

record minted_here =
  here_lnAddress :: string
  here_amountMsat :: int
  here_bolt11 :: string
  here_paymentHash :: string
  here_verifyUrl :: string
  here_expiresAt :: nat

record trigger_settings =
  tr_paidTo :: paid_to
  tr_amount :: trigger_amount
  tr_secret :: string
  tr_watchSecret :: "string option"
  tr_replay :: "int option"
  tr_baseUrl :: "string option"
  tr_sealed :: "(string \<times> (minted_here \<Rightarrow> json)) option"

datatype trigger_error =
    PriceFailed price_error
  | EmptyRange int int
  | ClientFailed client_error
  | WalletsFailed resolve_error
  | RelayFailed relay_error
  | SealFailed seal_error
  | UnreadableUrl
  | EmptySecret

text \<open>
  What the endpoint runs on: the gateway and what the client has around it, the network of its own
  (\<^verbatim>\<open>send\<close>), pages, the platform's sealing and numbers, and the message of a failure.
\<close>

record shop =
  sh_around :: around
  sh_net :: network
  sh_pages :: pages
  sh_sealing :: sealing
  sh_fl :: rounding
  sh_shortest :: "rat \<Rightarrow> string"
  sh_message :: "trigger_error \<Rightarrow> string"

text \<open>The random bytes of one request, and what its handlers change: the client and the requests sent.\<close>

record drawn =
  dr_nonce :: bytes
  dr_relay :: bytes
  dr_seal :: bytes

type_synonym asked_so_far = "client \<times> request list"

subsection \<open>The callback's signature\<close>

text \<open>\<^verbatim>\<open>Number(searchParams.get(name))\<close>: of \<^verbatim>\<open>null\<close> it is zero.\<close>

definition param_number :: "rounding \<Rightarrow> string option \<Rightarrow> double" where
  "param_number fl text = (case text of None \<Rightarrow> Finite 0 | Some s \<Rightarrow> double_of fl s)"

definition listed_paidTo :: "paid_to \<Rightarrow> string list" where
  "listed_paidTo paidTo = (case paidTo of OneAddress one \<Rightarrow> [one] | Addresses all \<Rightarrow> all)"

definition callback_text :: "(rat \<Rightarrow> string) \<Rightarrow> string \<Rightarrow> double \<Rightarrow> double \<Rightarrow> string \<Rightarrow> string" where
  "callback_text shortest address least most nonce =
     ''lnurl-callback|'' @ address @ ''|'' @ double_text shortest least @ ''|'' @ double_text shortest most @ ''|'' @ nonce"

text \<open>The platform imports no empty key.\<close>

definition sign :: "(rat \<Rightarrow> string) \<Rightarrow> string \<Rightarrow> string \<Rightarrow> double \<Rightarrow> double \<Rightarrow> string \<Rightarrow> trigger_error + string" where
  "sign shortest secret address least most nonce =
     (if secret = [] then Inl EmptySecret
      else Inr (hmacHex (utf8 secret) (utf8 (callback_text shortest address least most nonce))))"

definition randomNonce :: "bytes \<Rightarrow> string" where
  "randomNonce drawn = bytesToHex (take NONCE_BYTES drawn)"

definition refuse :: "string \<Rightarrow> served_reply" where
  "refuse reason = json_reply 200 [] (JObj [(''status'', JStr ''ERROR''), (''reason'', JStr reason)])"

subsection \<open>The offer\<close>

definition spread_of :: "trigger_amount \<Rightarrow> trigger_error + (int \<times> int)" where
  "spread_of amount =
     (case amount of
        Exactly price \<Rightarrow> (case amountNow price of Inl e \<Rightarrow> Inl (PriceFailed e) | Inr pinned \<Rightarrow> Inr (pinned, pinned))
      | Between from to \<Rightarrow>
          (case amountNow from of
             Inl e \<Rightarrow> Inl (PriceFailed e)
           | Inr least \<Rightarrow>
               (case amountNow to of
                  Inl e \<Rightarrow> Inl (PriceFailed e)
                | Inr most \<Rightarrow> if most < least then Inl (EmptyRange most least) else Inr (least, most))))"

text \<open>The winner's address and metadata: of the wallets themselves, or of the gateway.\<close>

definition quoted_by :: "shop \<Rightarrow> trigger_settings \<Rightarrow> verify_through option \<Rightarrow> int \<Rightarrow> asked_so_far \<Rightarrow>
    (trigger_error + (string \<times> string)) \<times> asked_so_far" where
  "quoted_by sh cfg through price seen =
     (case seen of (c, trace) \<Rightarrow>
        if through \<noteq> None
        then (case quote_wallets (sh_net sh) (listed_paidTo (tr_paidTo cfg)) price trace of
                (Inl e, trace') \<Rightarrow> (Inl (WalletsFailed e), (c, trace'))
              | (Inr (won, _), trace') \<Rightarrow> (Inr (quote_address won, quote_metadata won), (c, trace')))
        else (case msat (Some (of_int price)) of
                Inl e \<Rightarrow> (Inl (PriceFailed e), seen)
              | Inr asked \<Rightarrow>
                  (case quote_charge (sh_around sh) (tr_paidTo cfg) (Inr (of_int asked)) c of
                     (Inl e, c') \<Rightarrow> (Inl (ClientFailed e), (c', trace))
                   | (Inr won, c') \<Rightarrow> (Inr (offer_address won, offer_metadata won), (c', trace)))))"

definition callback_page :: "string \<Rightarrow> int \<Rightarrow> int \<Rightarrow> string \<Rightarrow> string \<Rightarrow> page \<Rightarrow> page" where
  "callback_page address least most nonce sig p =
     set_param ''sig'' sig (set_param ''n'' nonce (set_param ''most'' (show_int most)
       (set_param ''least'' (show_int least) (set_param ''to'' address p))))"

definition offer :: "shop \<Rightarrow> trigger_settings \<Rightarrow> verify_through option \<Rightarrow> drawn \<Rightarrow> page \<Rightarrow> asked_so_far \<Rightarrow>
    (trigger_error + served_reply) \<times> asked_so_far" where
  "offer sh cfg through drawn url seen =
     (case spread_of (tr_amount cfg) of
        Inl e \<Rightarrow> (Inl e, seen)
      | Inr (least, most) \<Rightarrow>
          (case quoted_by sh cfg through least seen of
             (Inl e, seen') \<Rightarrow> (Inl e, seen')
           | (Inr (address, metadata), seen') \<Rightarrow>
               (let nonce = randomNonce (dr_nonce drawn)
                in case read_page (sh_pages sh) (case tr_baseUrl cfg of None \<Rightarrow> page_origin url @ page_path url | Some b \<Rightarrow> b) of
                     None \<Rightarrow> (Inl UnreadableUrl, seen')
                   | Some base \<Rightarrow>
                       (case sign (sh_shortest sh) (tr_secret cfg) address (Finite (of_int least)) (Finite (of_int most)) nonce of
                          Inl e \<Rightarrow> (Inl e, seen')
                        | Inr sig \<Rightarrow>
                            (Inr (json_reply 200 [] (JObj
                               [(''tag'', JStr ''payRequest''),
                                (''callback'', JStr (write_page (sh_pages sh) (callback_page address least most nonce sig base))),
                                (''metadata'', JStr metadata),
                                (''minSendable'', JNum least),
                                (''maxSendable'', JNum most)])), seen')))))"

subsection \<open>The callback\<close>

definition mintThroughGateway :: "shop \<Rightarrow> trigger_settings \<Rightarrow> string \<Rightarrow> int \<Rightarrow> string \<Rightarrow> asked_so_far \<Rightarrow>
    (trigger_error + (string \<times> string)) \<times> asked_so_far" where
  "mintThroughGateway sh cfg address price nonce seen =
     (case msat (Some (of_int price)) of
        Inl e \<Rightarrow> (Inl (PriceFailed e), seen)
      | Inr asked \<Rightarrow>
          (case seen of (c, trace) \<Rightarrow>
             (case mint (sh_around sh) (OneAddress address) (Inr (of_int asked)) None
                     \<lparr>opt_key = Some nonce, opt_trigger = tr_watchSecret cfg, opt_replay = tr_replay cfg\<rparr> c of
                (Inl e, c') \<Rightarrow> (Inl (ClientFailed e), (c', trace))
              | (Inr payment, c') \<Rightarrow> (Inr (mint_bolt11 payment, rep_verifyUrl payment), (c', trace)))))"

definition alreadyWatched :: "client_error \<Rightarrow> bool" where
  "alreadyWatched refused = (case refused of Problem p \<Rightarrow> prob_type p = JStr ALREADY_WATCHED | _ \<Rightarrow> False)"

text \<open>The handover to the gateway: the address of the relay in place of the wallet's, and the sealed payload.\<close>

definition handed_over :: "shop \<Rightarrow> trigger_settings \<Rightarrow> verify_through \<Rightarrow> drawn \<Rightarrow> resolution \<Rightarrow> int \<Rightarrow> trigger_error + handover" where
  "handed_over sh cfg through drawn won price =
     (case relayedVerifyUrl (sh_pages sh) (sh_sealing sh) (dr_relay drawn) (through_endpoint through)
             \<lparr>relayed_url = resolved_verifyUrl won, relayed_hash = resolved_paymentHash won\<rparr> (through_secret through) of
        Inl e \<Rightarrow> Inl (RelayFailed e)
      | Inr url \<Rightarrow>
          (let minted = \<lparr>here_lnAddress = resolved_address won, here_amountMsat = price, here_bolt11 = resolved_bolt11 won,
                 here_paymentHash = resolved_paymentHash won, here_verifyUrl = resolved_verifyUrl won,
                 here_expiresAt = resolved_expiresAt won\<rparr>;
               locked = (case tr_sealed cfg of
                  None \<Rightarrow> Inr None
                | Some (secret, data) \<Rightarrow>
                    (case seal (sh_sealing sh) (dr_seal drawn) secret (stringify (data minted)) (Some (here_paymentHash minted)) of
                       Inl e \<Rightarrow> Inl (SealFailed e) | Inr blob \<Rightarrow> Inr (Some blob)))
           in and_then locked (\<lambda>blob.
                Inr \<lparr>hand_paymentHash = resolved_paymentHash won, hand_verifyUrl = url, hand_expiresAt = int (resolved_expiresAt won),
                     hand_trigger = tr_watchSecret cfg, hand_replay = tr_replay cfg, hand_sealed = blob, hand_webhookUrl = None\<rparr>)))"

definition mintHere :: "shop \<Rightarrow> trigger_settings \<Rightarrow> verify_through \<Rightarrow> drawn \<Rightarrow> string \<Rightarrow> int \<Rightarrow> asked_so_far \<Rightarrow>
    (trigger_error + (string \<times> string)) \<times> asked_so_far" where
  "mintHere sh cfg through drawn address price seen =
     (case seen of (c, trace) \<Rightarrow>
        (case resolve (sh_net sh) [address] price trace of
           (Inl e, trace') \<Rightarrow> (Inl (WalletsFailed e), (c, trace'))
         | (Inr won, trace') \<Rightarrow>
             (case handed_over sh cfg through drawn won price of
                Inl e \<Rightarrow> (Inl e, (c, trace'))
              | Inr h \<Rightarrow>
                  (case client_watch (sh_around sh) h c of
                     (Inl e, c') \<Rightarrow>
                       (if alreadyWatched e then Inr (resolved_bolt11 won, resolved_verifyUrl won) else Inl (ClientFailed e), (c', trace'))
                   | (Inr _, c') \<Rightarrow> (Inr (resolved_bolt11 won, resolved_verifyUrl won), (c', trace'))))))"

definition wrong_amount :: "shop \<Rightarrow> double \<Rightarrow> double \<Rightarrow> string" where
  "wrong_amount sh least most =
     (let said = double_text (sh_shortest sh)
      in if double_equal least most then ''this trigger costs exactly '' @ said least @ '' msat''
         else ''this trigger takes between '' @ said least @ '' and '' @ said most @ '' msat'')"

text \<open>\<open>mint\<close> up to where it mints: the nonce and the amount, or the reason of the refusal.\<close>

definition callback_asked :: "shop \<Rightarrow> trigger_settings \<Rightarrow> page \<Rightarrow> string \<Rightarrow> trigger_error + (string + (string \<times> int))" where
  "callback_asked sh cfg url address =
     (let least = param_number (sh_fl sh) (get_param ''least'' url);
          most = param_number (sh_fl sh) (get_param ''most'' url);
          nonce = (case get_param ''n'' url of None \<Rightarrow> [] | Some n \<Rightarrow> n);
          signature = (case get_param ''sig'' url of None \<Rightarrow> [] | Some s \<Rightarrow> s)
      in and_then (sign (sh_shortest sh) (tr_secret cfg) address least most nonce) (\<lambda>expected.
           if \<not> equalInConstantTime signature expected then Inr (Inl ''this callback was not signed here'')
           else if \<not> list_ex (\<lambda>one. lower one = lower address) (listed_paidTo (tr_paidTo cfg))
           then Inr (Inl (address @ '' is not paid through this trigger''))
           else (let amount = (case get_param ''amount'' url of None \<Rightarrow> least | Some s \<Rightarrow> double_of (sh_fl sh) s)
                 in case safe_integer amount of
                      Some n \<Rightarrow>
                        if double_less amount least \<or> double_less most amount then Inr (Inl (wrong_amount sh least most)) else Inr (Inr (nonce, n))
                    | None \<Rightarrow> Inr (Inl (wrong_amount sh least most)))))"

definition paid_out :: "shop \<Rightarrow> trigger_settings \<Rightarrow> verify_through option \<Rightarrow> drawn \<Rightarrow> string \<Rightarrow> string \<times> int \<Rightarrow> asked_so_far \<Rightarrow>
    (trigger_error + served_reply) \<times> asked_so_far" where
  "paid_out sh cfg through drawn address asked seen =
     (case (case through of
              None \<Rightarrow> mintThroughGateway sh cfg address (snd asked) (fst asked) seen
            | Some here \<Rightarrow> mintHere sh cfg here drawn address (snd asked) seen) of
        (Inl e, seen') \<Rightarrow> (Inl e, seen')
      | (Inr (invoice, where_to_ask), seen') \<Rightarrow>
          (Inr (json_reply 200 [] (JObj
             [(''status'', JStr ''OK''), (''pr'', JStr invoice), (''routes'', JArr []), (''verify'', JStr where_to_ask)])), seen'))"

definition mint_callback :: "shop \<Rightarrow> trigger_settings \<Rightarrow> verify_through option \<Rightarrow> drawn \<Rightarrow> page \<Rightarrow> string \<Rightarrow> asked_so_far \<Rightarrow>
    (trigger_error + served_reply) \<times> asked_so_far" where
  "mint_callback sh cfg through drawn url address seen =
     (case callback_asked sh cfg url address of
        Inl e \<Rightarrow> (Inl e, seen)
      | Inr (Inl reason) \<Rightarrow> (Inr (refuse reason), seen)
      | Inr (Inr asked) \<Rightarrow> paid_out sh cfg through drawn address asked seen)"

subsection \<open>The endpoints\<close>

text \<open>What a handler throws becomes a refusal.\<close>

definition caught_by :: "shop \<Rightarrow> (trigger_error + served_reply) \<times> asked_so_far \<Rightarrow> (trigger_error + served_reply) \<times> asked_so_far" where
  "caught_by sh r =
     (case r of (Inl e, seen) \<Rightarrow> (Inr (refuse (sh_message sh e)), seen) | (Inr reply, seen) \<Rightarrow> (Inr reply, seen))"

text \<open>The settings are checked when the endpoint is made; after that it throws over a URL that is none only.\<close>

definition lnurl_answered :: "shop \<Rightarrow> trigger_settings \<Rightarrow> verify_through option \<Rightarrow> drawn \<Rightarrow> string \<Rightarrow> asked_so_far \<Rightarrow>
    (trigger_error + served_reply) \<times> asked_so_far" where
  "lnurl_answered sh cfg through drawn asked_url seen =
     (case read_page (sh_pages sh) asked_url of
        None \<Rightarrow> (Inl UnreadableUrl, seen)
      | Some url \<Rightarrow>
          caught_by sh (case get_param ''to'' url of
                       None \<Rightarrow> offer sh cfg through drawn url seen
                     | Some address \<Rightarrow> mint_callback sh cfg through drawn url address seen))"

definition lnurlPayEndpoint :: "shop \<Rightarrow> trigger_settings \<Rightarrow> verify_through option \<Rightarrow> bool option \<Rightarrow>
    path_error + (drawn \<Rightarrow> string \<Rightarrow> asked_so_far \<Rightarrow> (trigger_error + served_reply) \<times> asked_so_far)" where
  "lnurlPayEndpoint sh cfg verifyThrough gatewayMints =
     and_then (verifiedThrough verifyThrough gatewayMints) (\<lambda>through. Inr (lnurl_answered sh cfg through))"

record ticket_config =
  tc_watchSecret :: string
  tc_replay :: "int option"

definition offeredSecret :: "incoming \<Rightarrow> string" where
  "offeredSecret r =
     (case parse_json (in_body r) of
        Some (JObj ms) \<Rightarrow> (case json_string (field ms ''secret'') of None \<Rightarrow> [] | Some s \<Rightarrow> s)
      | _ \<Rightarrow> [])"

definition issue :: "around \<Rightarrow> ticket_config \<Rightarrow> client \<Rightarrow> (client_error + served_reply) \<times> client" where
  "issue a cfg c =
     (case client_ticket a (tc_watchSecret cfg) (tc_replay cfg) c of
        (Inl e, c') \<Rightarrow> (Inl e, c')
      | (Inr t, c') \<Rightarrow>
          (if usable_time (sock_expiresAt t)
           then Inr (json_reply 200 [] (JObj [(''ticket'', JStr (sock_ticket t)), (''expires_at'', JStr (toTimestamp (sock_expiresAt t)))]))
           else Inl UnusableTime, c'))"

definition watchTicketEndpoint :: "around \<Rightarrow> ticket_config \<Rightarrow> incoming \<Rightarrow> client \<Rightarrow> (client_error + served_reply) \<times> client" where
  "watchTicketEndpoint a cfg r c =
     (if \<not> equalInConstantTime (sha256Hex (offeredSecret r)) (sha256Hex (tc_watchSecret cfg))
      then (Inr (json_reply 403 [] (JObj [(''reason'', JStr ''not the watch secret'')])), c)
      else issue a cfg c)"

definition publicWatchTicketEndpoint :: "around \<Rightarrow> ticket_config \<Rightarrow> incoming \<Rightarrow> client \<Rightarrow> (client_error + served_reply) \<times> client" where
  "publicWatchTicketEndpoint a cfg r c = issue a cfg c"

subsection \<open>The text that is signed\<close>

lemma until_bar: "c \<notin> set s \<Longrightarrow> c \<notin> set t \<Longrightarrow> s @ c # x = t @ c # y \<longleftrightarrow> s = t \<and> x = y"
proof (induction s arbitrary: t)
  case Nil
  then show ?case by (cases t) auto
next
  case (Cons a s)
  then show ?case by (cases t) auto
qed

lemma callback_text_inject:
  assumes "numbers_apart shortest" "CHR ''|'' \<notin> set address" "CHR ''|'' \<notin> set address'"
    and "callback_text shortest address least most nonce = callback_text shortest address' least' most' nonce'"
  shows "address = address' \<and> double_text shortest least = double_text shortest least' \<and>
    double_text shortest most = double_text shortest most' \<and> nonce = nonce'"
  using assms(4) assms(2,3) double_text_no_bar [OF assms(1)] by (auto simp: callback_text_def until_bar)

subsection \<open>What an offer promises\<close>

lemma spread_InrD: "spread_of amount = Inr (least, most) \<Longrightarrow> 1 \<le> least \<and> least \<le> most \<and> most \<le> MAX_SAFE_INTEGER"
  by (auto simp: spread_of_def amountNow_def split: trigger_amount.splits sum.splits if_splits dest!: msat_InrD)

lemma listed_addresses [simp]: "listed_paidTo paidTo = addresses_of paidTo"
  by (cases paidTo) (simp_all add: listed_paidTo_def)

lemma price_charge_to: "price_charge to amount = Inr asked \<Longrightarrow> priced_to asked = addresses_of to"
  by (auto simp: price_charge_def split: if_splits sum.splits)

lemma quoted_listed:
  assumes "quoted_by sh cfg through n seen = (Inr (address, metadata), seen')"
  shows "list_ex (\<lambda>one. lower one = lower address) (listed_paidTo (tr_paidTo cfg))"
proof (cases through)
  case None
  then obtain c asked won c' where "quote_charge (sh_around sh) (tr_paidTo cfg) (Inr (of_int asked)) c = (Inr won, c')"
    and "address = offer_address won"
    using assms by (auto simp: quoted_by_def split: prod.splits sum.splits)
  then show ?thesis
    by (auto simp: quote_charge_def price_charge_to Let_def split: sum.splits prod.splits option.splits if_splits)
next
  case (Some here)
  then obtain c trace won refusals trace' where
    "quote_wallets (sh_net sh) (listed_paidTo (tr_paidTo cfg)) n trace = (Inr (won, refusals), trace')" "address = quote_address won"
    using assms by (auto simp: quoted_by_def split: prod.splits sum.splits)
  then have "address \<in> set (listed_paidTo (tr_paidTo cfg))"
    by (auto simp: quote_wallets_def split: prod.splits sum.splits dest!: firstThatServes_won)
  then show ?thesis by (auto simp: list_ex_iff)
qed

lemma offer_InrD:
  assumes "offer sh cfg through drawn url seen = (Inr reply, seen')"
  obtains least most address metadata base sig callback where
    "spread_of (tr_amount cfg) = Inr (least, most)" "quoted_by sh cfg through least seen = (Inr (address, metadata), seen')"
    "sign (sh_shortest sh) (tr_secret cfg) address (Finite (of_int least)) (Finite (of_int most)) (randomNonce (dr_nonce drawn)) = Inr sig"
    "read_page (sh_pages sh) (case tr_baseUrl cfg of None \<Rightarrow> page_origin url @ page_path url | Some b \<Rightarrow> b) = Some base"
    "callback = callback_page address least most (randomNonce (dr_nonce drawn)) sig base"
    "reply = json_reply 200 [] (JObj [(''tag'', JStr ''payRequest''), (''callback'', JStr (write_page (sh_pages sh) callback)),
       (''metadata'', JStr metadata), (''minSendable'', JNum least), (''maxSendable'', JNum most)])"
  using assms by (auto simp: offer_def Let_def split: sum.splits prod.splits option.splits)

lemma out_body_reply: "json_plain v \<Longrightarrow> parse_json (out_body (json_reply st hs v)) = Some v"
  by (simp add: json_reply_def parse_stringify)

lemma callback_page_get [simp]:
  "get_param name (callback_page address least most nonce sig p) =
     (if name = ''sig'' then Some sig else if name = ''n'' then Some nonce else if name = ''most'' then Some (show_int most)
      else if name = ''least'' then Some (show_int least) else if name = ''to'' then Some address else get_param name p)"
  by (simp add: callback_page_def)

lemma callback_page_params:
  "callback_page address least most nonce sig p =
     with_params [(''to'', address), (''least'', show_int least), (''most'', show_int most), (''n'', nonce), (''sig'', sig)] p"
  by (simp add: callback_page_def with_params_def)

lemma callback_asked_offered:
  assumes "ieee (sh_fl sh)" "\<bar>least\<bar> \<le> MAX_SAFE_INTEGER" "\<bar>most\<bar> \<le> MAX_SAFE_INTEGER" "\<bar>n\<bar> \<le> MAX_SAFE_INTEGER"
    and "sign (sh_shortest sh) (tr_secret cfg) address (Finite (of_int least)) (Finite (of_int most)) nonce = Inr sig"
    and "list_ex (\<lambda>one. lower one = lower address) (listed_paidTo (tr_paidTo cfg))"
  shows "callback_asked sh cfg (set_param ''amount'' (show_int n) (callback_page address least most nonce sig p)) address =
    Inr (if least \<le> n \<and> n \<le> most then Inr (nonce, n) else Inl (wrong_amount sh (Finite (of_int least)) (Finite (of_int most))))"
  using assms by (auto simp: callback_asked_def param_number_def equalInConstantTime_iff Let_def)


lemma lower_char_bar: "lower_char c = CHR ''|'' \<longleftrightarrow> c = CHR ''|''"
proof
  assume "lower_char c = CHR ''|''"
  then have "code (lower_char c) = 124" by (simp add: code_def)
  moreover have "code (lower_char c) = code c \<or> (code (lower_char c) = code c + 32 \<and> (code c \<le> 90 \<or> 192 \<le> code c))"
    by (simp add: lower_char_def)
  ultimately have "code c = 124" by linarith
  also have "124 = code CHR ''|''" by (simp add: code_def)
  finally show "c = CHR ''|''" by (simp only: code_inject)
next
  assume "c = CHR ''|''"
  then show "lower_char c = CHR ''|''" by (simp add: lower_char_def code_def)
qed

lemma lower_bar: "lower s = lower t \<Longrightarrow> CHR ''|'' \<notin> set s \<Longrightarrow> CHR ''|'' \<notin> set t"
proof -
  have "CHR ''|'' \<in> set (lower r) \<longleftrightarrow> CHR ''|'' \<in> set r" for r
  proof (induction r)
    case (Cons c r)
    then show ?case using lower_char_bar [of c] by (auto simp only: lower_def list.map list.set insert_iff)
  qed (simp add: lower_def)
  then show "lower s = lower t \<Longrightarrow> CHR ''|'' \<notin> set s \<Longrightarrow> CHR ''|'' \<notin> set t" by metis
qed

text \<open>The text whose signature a callback has to carry.\<close>

definition text_to_sign :: "shop \<Rightarrow> page \<Rightarrow> string \<Rightarrow> string" where
  "text_to_sign sh url address =
     callback_text (sh_shortest sh) address (param_number (sh_fl sh) (get_param ''least'' url)) (param_number (sh_fl sh) (get_param ''most'' url))
       (case get_param ''n'' url of None \<Rightarrow> [] | Some n \<Rightarrow> n)"

lemma callback_asked_InrD:
  assumes "callback_asked sh cfg url address = Inr (Inr (nonce, n))"
  shows "nonce = (case get_param ''n'' url of None \<Rightarrow> [] | Some n \<Rightarrow> n)"
    "hmacHex (utf8 (tr_secret cfg)) (utf8 (text_to_sign sh url address)) = (case get_param ''sig'' url of None \<Rightarrow> [] | Some s \<Rightarrow> s)"
    "list_ex (\<lambda>one. lower one = lower address) (listed_paidTo (tr_paidTo cfg))"
    "\<not> double_less (Finite (of_int n)) (param_number (sh_fl sh) (get_param ''least'' url))"
    "\<not> double_less (param_number (sh_fl sh) (get_param ''most'' url)) (Finite (of_int n))"
proof -
  let ?least = "param_number (sh_fl sh) (get_param ''least'' url)" and ?most = "param_number (sh_fl sh) (get_param ''most'' url)"
  have whole: "x = Finite (of_int k)" if "safe_integer x = Some k" for x k
    using that by (cases x) (auto simp: safe_whole_def split: if_splits)
  have "\<exists>amount. safe_integer amount = Some n \<and> \<not> double_less amount ?least \<and> \<not> double_less ?most amount"
    using assms by (auto simp: callback_asked_def Let_def simp del: double_less.simps split: if_splits option.splits)
  then show "\<not> double_less (Finite (of_int n)) ?least" "\<not> double_less ?most (Finite (of_int n))" using whole by blast+
  show "list_ex (\<lambda>one. lower one = lower address) (listed_paidTo (tr_paidTo cfg))"
    "nonce = (case get_param ''n'' url of None \<Rightarrow> [] | Some n \<Rightarrow> n)"
    "hmacHex (utf8 (tr_secret cfg)) (utf8 (text_to_sign sh url address)) = (case get_param ''sig'' url of None \<Rightarrow> [] | Some s \<Rightarrow> s)"
    using assms by (auto simp: callback_asked_def sign_def text_to_sign_def equalInConstantTime_iff Let_def simp del: double_less.simps
        split: if_splits option.splits)
qed

lemma asks_nobody_unless:
  assumes "lnurl_answered sh cfg through drawn asked_url seen = (got, seen')" "seen' \<noteq> seen"
    and "read_page (sh_pages sh) asked_url = Some url" "get_param ''to'' url = Some address"
  obtains asked where "callback_asked sh cfg url address = Inr (Inr asked)"
    "(got, seen') = caught_by sh (paid_out sh cfg through drawn address asked seen)"
  using assms by (auto simp: lnurl_answered_def mint_callback_def caught_by_def split: sum.splits)

text \<open>
  C32: nothing is minted that was not offered. When a callback that carries the signature of an offer makes
  the endpoint ask anybody for anything, it names the offer's own address and nonce, the address is on the
  list, and what is minted lies in the range that was offered, whatever else its query says: fractions,
  infinities and \<^verbatim>\<open>NaN\<close> for the ends of the range, bars in the nonce, a parameter twice. It takes that the
  hash of the text that is checked is not by accident that of the text that was signed, and addresses
  without a bar.
\<close>

theorem minted_only_as_offered:
  assumes "numbers_apart (sh_shortest sh)" "\<forall>one\<in>set (address # listed_paidTo (tr_paidTo cfg)). CHR ''|'' \<notin> set one"
    and "spread_of (tr_amount offering) = Inr (least, most)"
    and "sign (sh_shortest sh) (tr_secret cfg) address (Finite (of_int least)) (Finite (of_int most)) nonce = Inr sig"
    and "read_page (sh_pages sh) asked_url = Some url" "get_param ''sig'' url = Some sig" "get_param ''to'' url = Some address'"
    and "lnurl_answered sh cfg through drawn asked_url seen = (got, seen')" "seen' \<noteq> seen"
    and "hmacHex (utf8 (tr_secret cfg)) (utf8 (text_to_sign sh url address')) = sig \<longrightarrow>
      text_to_sign sh url address' = callback_text (sh_shortest sh) address (Finite (of_int least)) (Finite (of_int most)) nonce"
  shows "address' = address \<and> list_ex (\<lambda>one. lower one = lower address) (listed_paidTo (tr_paidTo cfg)) \<and>
    (\<exists>n. least \<le> n \<and> n \<le> most \<and> (got, seen') = caught_by sh (paid_out sh cfg through drawn address (nonce, n) seen))"
proof -
  obtain nonce' n where passed: "callback_asked sh cfg url address' = Inr (Inr (nonce', n))"
    and paid: "(got, seen') = caught_by sh (paid_out sh cfg through drawn address' (nonce', n) seen)"
    using asks_nobody_unless [OF assms(8,9,5,7)] by (metis surj_pair)
  note checked = callback_asked_InrD [OF passed]
  have "CHR ''|'' \<notin> set address'"
    using checked(3) assms(2) by (auto simp: list_ex_iff dest: lower_bar)
  moreover have "hmacHex (utf8 (tr_secret cfg)) (utf8 (text_to_sign sh url address')) = sig" using checked(2) by (simp add: assms(6))
  then have "text_to_sign sh url address' = callback_text (sh_shortest sh) address (Finite (of_int least)) (Finite (of_int most)) nonce"
    using assms(10) by blast
  then have "callback_text (sh_shortest sh) address' (param_number (sh_fl sh) (get_param ''least'' url))
      (param_number (sh_fl sh) (get_param ''most'' url)) nonce' =
    callback_text (sh_shortest sh) address (Finite (of_int least)) (Finite (of_int most)) nonce"
    by (simp only: text_to_sign_def checked(1))
  moreover have "CHR ''|'' \<notin> set address" using assms(2) by simp
  ultimately have same: "address' = address" "nonce' = nonce"
    "double_text (sh_shortest sh) (param_number (sh_fl sh) (get_param ''least'' url)) = double_text (sh_shortest sh) (Finite (of_int least))"
    "double_text (sh_shortest sh) (param_number (sh_fl sh) (get_param ''most'' url)) = double_text (sh_shortest sh) (Finite (of_int most))"
    using callback_text_inject [OF assms(1), of address' address] by blast+
  have "\<bar>least\<bar> \<le> MAX_SAFE_INTEGER" "\<bar>most\<bar> \<le> MAX_SAFE_INTEGER" using spread_InrD [OF assms(3)] by auto
  then have "param_number (sh_fl sh) (get_param ''least'' url) = Finite (of_int least)"
    "param_number (sh_fl sh) (get_param ''most'' url) = Finite (of_int most)"
    using double_text_whole [OF assms(1)] same(3,4) by simp_all
  with checked(4,5) have "least \<le> n" "n \<le> most" by simp_all
  with checked(3) same paid show ?thesis by blast
qed

text \<open>The three answers of LUD-06 and LUD-21.\<close>

definition wallet_understands :: "(string \<times> json) list \<Rightarrow> bool" where
  "wallet_understands ms \<longleftrightarrow>
     (field ms ''tag'' = Some (JStr ''payRequest'') \<and>
      json_string (field ms ''callback'') \<noteq> None \<and> json_string (field ms ''metadata'') \<noteq> None \<and>
      (case (json_int (field ms ''minSendable''), json_int (field ms ''maxSendable'')) of
         (Some least, Some most) \<Rightarrow> 1 \<le> least \<and> least \<le> most \<and> most \<le> MAX_SAFE_INTEGER
       | _ \<Rightarrow> False)) \<or>
     (field ms ''status'' = Some (JStr ''OK'') \<and>
      json_string (field ms ''pr'') \<noteq> None \<and> json_string (field ms ''verify'') \<noteq> None) \<or>
     (field ms ''status'' = Some (JStr ''ERROR'') \<and> json_string (field ms ''reason'') \<noteq> None)"

definition lud_reply :: "served_reply \<Rightarrow> bool" where
  "lud_reply reply \<longleftrightarrow> out_status reply = 200 \<and> (\<exists>ms. parse_json (out_body reply) = Some (JObj ms) \<and> wallet_understands ms)"

lemma lud_json: "json_plain (JObj ms) \<Longrightarrow> wallet_understands ms \<Longrightarrow> lud_reply (json_reply 200 [] (JObj ms))"
  unfolding lud_reply_def using out_body_reply by (fastforce simp: json_reply_def)

lemma lud_refuse [simp]: "lud_reply (refuse reason)"
  unfolding refuse_def by (rule lud_json) (simp_all add: wallet_understands_def)

lemma lud_paid_out: "paid_out sh cfg through drawn address asked seen = (Inr reply, seen') \<Longrightarrow> lud_reply reply"
  by (auto simp: paid_out_def wallet_understands_def intro!: lud_json split: sum.splits prod.splits option.splits)

lemma lud_offer: "offer sh cfg through drawn url seen = (Inr reply, seen') \<Longrightarrow> lud_reply reply"
  by (elim offer_InrD) (auto simp: wallet_understands_def intro!: lud_json dest!: spread_InrD)

lemma lud_caught: "(\<And>reply seen'. r = (Inr reply, seen') \<Longrightarrow> lud_reply reply) \<Longrightarrow> \<exists>reply seen'. caught_by sh r = (Inr reply, seen') \<and> lud_reply reply"
  by (cases r; cases "fst r") (auto simp: caught_by_def)

text \<open>
  C33: every answer is one a payer's wallet knows. Whatever the query, the gateway, the wallets and the clock
  do, the endpoint answers a request whose URL can be read with status 200 and a JSON object that is a
  payRequest of a non-empty range of payable amounts, an invoice with its verify address, or an error with
  its reason; it never throws.
\<close>

theorem trigger_answers_a_wallet:
  assumes "read_page (sh_pages sh) asked_url \<noteq> None"
  shows "\<exists>reply seen'. lnurl_answered sh cfg through drawn asked_url seen = (Inr reply, seen') \<and> lud_reply reply"
proof -
  have "lud_reply reply" if "mint_callback sh cfg through drawn url address seen = (Inr reply, seen')" for url address reply seen'
    using that by (auto simp: mint_callback_def dest: lud_paid_out split: sum.splits)
  then have "\<exists>reply seen'. caught_by sh (case get_param ''to'' url of
                       None \<Rightarrow> offer sh cfg through drawn url seen
                     | Some address \<Rightarrow> mint_callback sh cfg through drawn url address seen) = (Inr reply, seen') \<and> lud_reply reply" for url
    by (intro lud_caught) (auto dest: lud_offer split: option.splits)
  with assms show ?thesis by (auto simp: lnurl_answered_def)
qed

subsection \<open>An endpoint at work\<close>

definition shop_here :: shop where
  "shop_here = \<lparr>sh_around = around_here JNull, sh_net = sample_net [sample_pay], sh_pages = json_pages, sh_sealing = clear_platform,
     sh_fl = id, sh_shortest = (\<lambda>_. ''?''), sh_message = (\<lambda>_. ''refused'')\<rparr>"

definition tips_here :: trigger_settings where
  "tips_here = \<lparr>tr_paidTo = OneAddress ''me@pay.example.com'', tr_amount = Between (Inr 1000) (Inr 5000), tr_secret = ''s'',
     tr_watchSecret = None, tr_replay = None, tr_baseUrl = Some endpoint_here, tr_sealed = None\<rparr>"

lemma shop_here_facts [simp]:
  "sh_around shop_here = around_here JNull" "sh_net shop_here = sample_net [sample_pay]" "sh_pages shop_here = json_pages"
  "sh_fl shop_here = id"
  by (simp_all add: shop_here_def)

lemma tips_here_facts [simp]:
  "tr_paidTo tips_here = OneAddress ''me@pay.example.com''" "tr_secret tips_here = ''s''" "tr_watchSecret tips_here = None"
  "tr_replay tips_here = None" "tr_baseUrl tips_here = Some endpoint_here"
  by (simp_all add: tips_here_def)

definition drawn_here :: drawn where
  "drawn_here = \<lparr>dr_nonce = replicate 16 7, dr_relay = replicate 12 7, dr_seal = replicate 12 7\<rparr>"

definition through_here :: verify_through where
  "through_here = \<lparr>through_endpoint = endpoint_here, through_secret = replicate 32 CHR ''s''\<rparr>"

definition page_here :: page where
  "page_here = \<lparr>page_origin = ''https://shop.example'', page_path = ''/verify'', page_query = [], page_rest = []\<rparr>"

lemma page_read_here [simp]: "page_origin p \<noteq> [] \<Longrightarrow> read_page json_pages (write_page json_pages p) = Some p"
  by (rule json_pages_read)

lemma endpoint_read_here: "read_page json_pages endpoint_here = Some page_here"
  unfolding endpoint_here_def page_here_def by (rule page_read_here) simp

lemma numbers_apart_here: "numbers_apart (sh_shortest shop_here)"
  using numbers_apart_question_mark by (simp add: shop_here_def)

lemma spread_here: "spread_of (tr_amount tips_here) = Inr (1000, 5000)"
  by (simp add: spread_of_def tips_here_def amountNow_def msat_def whole_number_def MAX_SAFE_INTEGER_def)

lemma quoted_here: "\<exists>metadata seen'. quoted_by shop_here tips_here (Some through_here) 1000 (c, []) = (Inr (''me@pay.example.com'', metadata), seen')"
proof -
  let ?net = "sample_net [sample_pay]" and ?u = "''https://'' @ sample_host @ ''/.well-known/lnurlp/'' @ ''me''"
  have net: "parse_url ?net = (\<lambda>_. Some sample_url)" "\<not> out_of_time ?net t" for t by (simp_all add: sample_net_def)
  have "json_plain sample_pay" by (simp add: sample_pay_def)
  then obtain r where "answeredJson ?net ?u False [] = (Inr (sample_pay, []), [r])"
    using sample_answered [of "[]" "[sample_pay]" ?u False] by auto
  then have "answered ?net ?u [] = (Inr sample_pay, [r])" by (simp add: answered_def)
  moreover have "\<not> cannotReleaseAPreimage sample_host"
    by (simp add: cannotReleaseAPreimage_def sample_host_def VERIFY_WITHOUT_PREIMAGE_def ends_with_code
        lower_def lower_char_def code_def Let_def)
  ultimately have "probe ?net 1000 ''me@pay.example.com'' [] = (readPay ''me@pay.example.com'' 1000 sample_pay, [r])"
    unfolding probe_def net sample_split by simp
  moreover have "\<exists>pay. readPay ''me@pay.example.com'' 1000 sample_pay = Inr pay"
    using sample_names by (simp add: readPay_def sample_pay_def amount_below_def amount_above_def)
  ultimately show ?thesis by (auto simp: quoted_by_def quote_wallets_def net)
qed

lemma offered_here:
  "\<exists>reply seen'. offer shop_here tips_here (Some through_here) drawn_here page_here (client_here None, []) = (Inr reply, seen')"
proof -
  obtain metadata seen' where "quoted_by shop_here tips_here (Some through_here) 1000 (client_here None, []) =
      (Inr (''me@pay.example.com'', metadata), seen')" using quoted_here by blast
  then show ?thesis by (simp add: offer_def spread_here Let_def endpoint_read_here sign_def)
qed


definition callback_here :: page where
  "callback_here = set_param ''amount'' (show_int 2000) (callback_page ''me@pay.example.com'' 1000 5000 (randomNonce (dr_nonce drawn_here))
     (hmacHex (utf8 ''s'') (utf8 (callback_text (sh_shortest shop_here) ''me@pay.example.com'' (Finite 1000) (Finite 5000)
       (randomNonce (dr_nonce drawn_here))))) page_here)"

lemma callback_read_here [simp]: "read_page json_pages (write_page json_pages callback_here) = Some callback_here"
  by (rule page_read_here) (simp add: callback_here_def callback_page_def page_here_def)

lemma asks_the_gateway_here:
  "\<exists>got seen'. lnurl_answered shop_here tips_here None drawn_here (write_page json_pages callback_here) (client_here None, []) = (got, seen') \<and>
     seen' \<noteq> (client_here None, [])"
proof -
  let ?nonce = "randomNonce (dr_nonce drawn_here)"
  have "callback_asked shop_here tips_here callback_here ''me@pay.example.com'' = Inr (Inr (?nonce, 2000))"
    using callback_asked_offered [of shop_here 1000 5000 2000 tips_here "''me@pay.example.com''" ?nonce _ page_here]
    by (simp add: callback_here_def ieee_id MAX_SAFE_INTEGER_def sign_def)
  moreover have "body_of \<lparr>reply_status = 200, reply_json = Some JNull\<rparr> = JNull" by (simp add: body_of_def)
  then have "\<exists>e c'. mint (around_here JNull) (OneAddress ''me@pay.example.com'') (Inr 2000) None
      \<lparr>opt_key = Some ?nonce, opt_trigger = None, opt_replay = None\<rparr> (client_here None) = (Inl e, c') \<and> calls c' \<noteq> []"
    by (simp add: mint_def price_charge_def amountNow_def msat_def whole_number_def MAX_SAFE_INTEGER_def Let_def trigger_sent_def truthy_def
        exchanged_def fetch_gateway_def sending_headers_def reading_headers_def client_here_def around_here_def reply_ok_def proven_mint_def
        mintedFromWire_def paymentFromWire_def)
  moreover have "get_param ''to'' callback_here = Some ''me@pay.example.com''" "calls (client_here None) = []"
    by (simp_all add: callback_here_def client_here_def)
  ultimately show ?thesis
    by (auto simp: lnurl_answered_def mint_callback_def paid_out_def mintThroughGateway_def msat_def whole_number_def MAX_SAFE_INTEGER_def caught_by_def)
qed

lemma minted_only_as_offered_witness:
  "\<exists>n got seen'. 1000 \<le> n \<and> n \<le> 5000 \<and>
     lnurl_answered shop_here tips_here None drawn_here (write_page json_pages callback_here) (client_here None, []) = (got, seen') \<and>
     (got, seen') = caught_by shop_here (paid_out shop_here tips_here None drawn_here ''me@pay.example.com''
       (randomNonce (dr_nonce drawn_here), n) (client_here None, []))"
proof -
  let ?nonce = "randomNonce (dr_nonce drawn_here)" and ?asked = "write_page json_pages callback_here"
  have page: "read_page (sh_pages shop_here) ?asked = Some callback_here" by simp
  have signed: "sign (sh_shortest shop_here) (tr_secret tips_here) ''me@pay.example.com'' (Finite (of_int 1000)) (Finite (of_int 5000)) ?nonce =
      Inr (hmacHex (utf8 ''s'') (utf8 (callback_text (sh_shortest shop_here) ''me@pay.example.com'' (Finite 1000) (Finite 5000) ?nonce)))"
    by (simp add: sign_def)
  have covered: "text_to_sign shop_here callback_here ''me@pay.example.com'' =
      callback_text (sh_shortest shop_here) ''me@pay.example.com'' (Finite (of_int 1000)) (Finite (of_int 5000)) ?nonce"
    using double_of_show_int [OF ieee_id, of 1000] double_of_show_int [OF ieee_id, of 5000]
    by (simp add: text_to_sign_def callback_here_def param_number_def MAX_SAFE_INTEGER_def)
  obtain got seen' where answered: "lnurl_answered shop_here tips_here None drawn_here ?asked (client_here None, []) = (got, seen')"
    and "seen' \<noteq> (client_here None, [])" using asks_the_gateway_here by blast
  show ?thesis
    using minted_only_as_offered [OF numbers_apart_here _ spread_here signed page _ _ answered \<open>seen' \<noteq> (client_here None, [])\<close>, of "''me@pay.example.com''"] answered covered
    by (auto simp: callback_here_def)
qed

lemma trigger_answers_a_wallet_witness:
  "\<exists>reply seen'. lnurl_answered shop_here tips_here None drawn_here endpoint_here (client_here None, []) = (Inr reply, seen') \<and> lud_reply reply"
  by (rule trigger_answers_a_wallet) (simp add: endpoint_read_here)

end
