(* ===== verification/Bank.thy ===== *)
theory Bank
  imports Trigger
begin

text \<open>
  \<^verbatim>\<open>sdk/src/bank.ts\<close>: a bank transfer that settles the way a Lightning payment does. What is asked for is written
  into one text, the subject; the preimage is a keyed hash of it, and the gateway is given the hash of that. The
  endpoint and the agent derive the preimage again once a credit that pays the subject is on the statement. The
  lemmas show that the subject reads back, that a reference is matched as a whole word and nothing like it may stand
  beside it, and that a transfer is settled exactly when it was paid.
\<close>

definition DEFAULT_CURRENCY :: string where "DEFAULT_CURRENCY = ''CZK''"
definition DEFAULT_LOOK_BACK_SECS :: int where "DEFAULT_LOOK_BACK_SECS = 7 * 24 * 60 * 60"
definition BANK_POLL_EVERY_SECS :: int where "BANK_POLL_EVERY_SECS = 30"
definition FORBIDDEN_IN_SPD :: char where "FORBIDDEN_IN_SPD = CHR ''*''"
definition MAX_REFERENCE_CHARS :: nat where "MAX_REFERENCE_CHARS = 60"

subsection \<open>Accounts and credits\<close>

definition accountOf :: "string \<Rightarrow> string" where
  "accountOf iban = toUpperCase (filter (\<lambda>c. \<not> is_space c) iban)"

definition capital_letter :: "char \<Rightarrow> bool" where
  "capital_letter c \<longleftrightarrow> 65 \<le> code c \<and> code c \<le> 90"

text \<open>\<^verbatim>\<open>/^[A-Z]{2}[0-9]{2}[0-9A-Z]{8,30}$/\<close>.\<close>

definition IBAN :: "string \<Rightarrow> bool" where
  "IBAN s \<longleftrightarrow>
     list_all capital_letter (take 2 s) \<and> list_all is_digit (take 2 (drop 2 s)) \<and>
     list_all (\<lambda>c. is_digit c \<or> capital_letter c) (drop 4 s) \<and> 12 \<le> length s \<and> length s \<le> 34"

record credit =
  credit_minor :: double
  credit_currency :: string
  credit_reference :: string
  credit_bookedAt :: int

text \<open>\<^verbatim>\<open>Asked\<close>: what a transfer asks for.\<close>

record asked_for =
  for_iban :: string
  for_reference :: string
  for_minor :: double
  for_currency :: string
  for_expiresAt :: double

definition subjectOf :: "(rat \<Rightarrow> string) \<Rightarrow> asked_for \<Rightarrow> string" where
  "subjectOf shortest q =
     for_iban q @ ''|'' @ double_text shortest (for_minor q) @ ''|'' @ toUpperCase (for_currency q) @ ''|'' @
     double_text shortest (for_expiresAt q) @ ''|'' @ for_reference q"

fun whole_double :: "double \<Rightarrow> bool" where
  "whole_double (Finite q) \<longleftrightarrow> of_int \<lfloor>q\<rfloor> = q"
| "whole_double _ \<longleftrightarrow> False"

text \<open>\<^verbatim>\<open>Number(undefined)\<close> is \<^verbatim>\<open>NaN\<close>, which the checks refuse like any text that is no number.\<close>

definition askedFrom :: "rounding \<Rightarrow> string \<Rightarrow> asked_for option" where
  "askedFrom fl subject =
     (case split_on (CHR ''|'') subject of
        iban # minorText # currency # expiresText # rest \<Rightarrow>
          (let reference = join ''|'' rest; minor = double_of fl minorText; expires = double_of fl expiresText
           in if iban = [] \<or> currency = [] \<or> reference = [] then None
              else if \<not> whole_double minor \<or> \<not> double_less (Finite 0) minor \<or> safe_integer expires = None then None
              else Some \<lparr>for_iban = iban, for_reference = reference, for_minor = minor, for_currency = currency,
                         for_expiresAt = expires\<rparr>)
      | _ \<Rightarrow> None)"

subsection \<open>Matching a reference\<close>

text \<open>\<^verbatim>\<open>\p{L}\<close> and \<^verbatim>\<open>\p{N}\<close> below 256.\<close>

definition letter :: "char \<Rightarrow> bool" where
  "letter c \<longleftrightarrow> is_letter c \<or> code c \<in> {170, 181, 186} \<or> 192 \<le> code c \<and> code c \<noteq> 215 \<and> code c \<noteq> 247"

definition numeric :: "char \<Rightarrow> bool" where
  "numeric c \<longleftrightarrow> is_digit c \<or> code c \<in> {178, 179, 185, 188, 189, 190}"

text \<open>One position of the expression: a digit for a digit, a letter for a letter, and itself for any other.\<close>

definition fits :: "char \<Rightarrow> char \<Rightarrow> bool" where
  "fits r c = (if is_digit r then is_digit c else if letter r then letter c else c = r)"

definition apart :: "char option \<Rightarrow> bool" where
  "apart c \<longleftrightarrow> (case c of None \<Rightarrow> True | Some d \<Rightarrow> \<not> letter d \<and> \<not> numeric d)"

definition head_char :: "'a list \<Rightarrow> 'a option" where
  "head_char xs = (case xs of [] \<Rightarrow> None | x # _ \<Rightarrow> Some x)"

text \<open>
  \<^verbatim>\<open>matchAll\<close> of \<^verbatim>\<open>wordsShapedLike(reference)\<close>: \<open>before\<close> is the character before the position, if any. After a
  match it goes on behind it, and one further when it was empty.
\<close>

function words_like :: "string \<Rightarrow> char option \<Rightarrow> string \<Rightarrow> string list" where
  "words_like reference before s =
     (let n = length reference; word = take n s
      in if n \<le> length s \<and> apart before \<and> list_all2 fits reference word \<and> apart (head_char (drop n s))
         then word # (if s = [] then [] else if n = 0 then words_like reference (Some (hd s)) (tl s)
                      else words_like reference (Some (last word)) (drop n s))
         else (case s of [] \<Rightarrow> [] | c # cs \<Rightarrow> words_like reference (Some c) cs))"
  by pat_completeness auto
termination
  by (relation "measure (\<lambda>(_, _, s). length s)") auto

declare words_like.simps [simp del]

definition namesOnly :: "string \<Rightarrow> string \<Rightarrow> bool" where
  "namesOnly written reference =
     (let wanted = toUpperCase reference; alike = words_like wanted None (toUpperCase written)
      in list_ex (\<lambda>word. word = wanted) alike \<and> (\<not> list_ex is_digit wanted \<or> list_all (\<lambda>word. word = wanted) alike))"

definition pays :: "credit \<Rightarrow> asked_for \<Rightarrow> bool" where
  "pays c q \<longleftrightarrow>
     double_equal (credit_minor c) (for_minor q) \<and> toUpperCase (credit_currency c) = toUpperCase (for_currency q) \<and>
     namesOnly (credit_reference c) (for_reference q)"

subsection \<open>The preimage\<close>

definition preimage_of :: "(rat \<Rightarrow> string) \<Rightarrow> string \<Rightarrow> asked_for \<Rightarrow> string" where
  "preimage_of shortest secret q = hmacHex (utf8 secret) (utf8 (''preimage|'' @ subjectOf shortest q))"

definition hashOf :: "string \<Rightarrow> string" where
  "hashOf secret = bytesToHex (sha256 (hexToBytes secret))"

datatype bank_error =
    BankSealing seal_error
  | NothingToPoll
  | NotAnIban
  | BadAmount
  | NoReference
  | LongReference
  | ForbiddenReference
  | BadVariableSymbol
  | OpenGateway
  | BankPrice price_error
  | BankUrl
  | BankClient client_error
  | StatementFailed

text \<open>
  A statement is asked for what came since a time and gives the credits, or throws. How often it can have anything
  new is beside it.
\<close>

type_synonym statement = "int \<Rightarrow> credit list option"

definition creditedPreimage :: "(rat \<Rightarrow> string) \<Rightarrow> int \<Rightarrow> string \<Rightarrow> asked_for \<Rightarrow> statement \<Rightarrow> int option \<Rightarrow>
    bank_error + string option" where
  "creditedPreimage shortest now secret q read lookBackSecs =
     (case read (now - (case lookBackSecs of None \<Rightarrow> DEFAULT_LOOK_BACK_SECS | Some n \<Rightarrow> n)) of
        None \<Rightarrow> Inl StatementFailed
      | Some credits \<Rightarrow> Inr (if list_ex (\<lambda>c. pays c q) credits then Some (preimage_of shortest secret q) else None))"

subsection \<open>Asking for a transfer\<close>

record transfer_params =
  tp_secret :: string
  tp_reference :: string
  tp_minor :: double
  tp_iban :: string
  tp_verifyUrl :: "string option"
  tp_agent :: bool
  tp_expiresAt :: int
  tp_currency :: "string option"
  tp_variableSymbol :: "string option"
  tp_trigger :: "string option"
  tp_replay :: "int option"
  tp_sealed :: "(string \<times> json) option"
  tp_webhookUrl :: "string option"
  tp_allowPublicGateway :: "bool option"

record bank_transfer =
  bt_id :: string
  bt_paymentHash :: string
  bt_verifyUrl :: string
  bt_spd :: string

definition currency_of :: "transfer_params \<Rightarrow> string" where
  "currency_of params = (case tp_currency params of None \<Rightarrow> DEFAULT_CURRENCY | Some c \<Rightarrow> c)"

definition payable_minor :: "double \<Rightarrow> bool" where
  "payable_minor x \<longleftrightarrow> (case safe_integer x of None \<Rightarrow> False | Some n \<Rightarrow> 0 < n)"

definition refuseUnusable :: "transfer_params \<Rightarrow> string \<Rightarrow> bank_error option" where
  "refuseUnusable params iban =
     (if weak_secret (tp_secret params) then Some (BankSealing WeakSecret)
      else if \<not> tp_agent params \<and> tp_verifyUrl params = None then Some NothingToPoll
      else if \<not> IBAN iban then Some NotAnIban
      else if \<not> payable_minor (tp_minor params) then Some BadAmount
      else if tp_reference params = [] then Some NoReference
      else if MAX_REFERENCE_CHARS < length (tp_reference params) then Some LongReference
      else if FORBIDDEN_IN_SPD \<in> set (tp_reference params) then Some ForbiddenReference
      else (case truthy (tp_variableSymbol params) of
              Some v \<Rightarrow> if is_decimal v \<and> length v \<le> 10 then None else Some BadVariableSymbol
            | None \<Rightarrow> None))"

text \<open>\<^verbatim>\<open>toFixed(digits)\<close> below \<open>10\<^sup>2\<^sup>1\<close>: the digits of the nearest multiple, the larger of two.\<close>

definition toFixed :: "nat \<Rightarrow> rat \<Rightarrow> string" where
  "toFixed digits x =
     (let n = math_round (\<bar>x\<bar> * 10 ^ digits); text = show_nat (nat n);
          padded = replicate (Suc digits - length text) (CHR ''0'') @ text
      in (if x < 0 then ''-'' else []) @
         (if digits = 0 then padded
          else take (length padded - digits) padded @ ''.'' @ drop (length padded - digits) padded))"

definition major_of :: "rounding \<Rightarrow> int \<Rightarrow> string \<Rightarrow> price_error + string" where
  "major_of fl minor currency =
     and_then (minorScaleOf currency) (\<lambda>scale.
     and_then (minorUnitsOf currency) (\<lambda>digits. Inr (toFixed digits (fl (of_int minor / of_int scale)))))"

definition shortPaymentDescriptor :: "rounding \<Rightarrow> transfer_params \<Rightarrow> int \<Rightarrow> string \<Rightarrow> string \<Rightarrow> price_error + string" where
  "shortPaymentDescriptor fl params minor iban currency =
     and_then (major_of fl minor currency) (\<lambda>amount.
       Inr (''SPD*1.0*'' @ join ''*''
         ([''ACC:'' @ iban, ''AM:'' @ amount, ''CC:'' @ toUpperCase currency, ''MSG:'' @ tp_reference params] @
          (case truthy (tp_variableSymbol params) of None \<Rightarrow> [] | Some v \<Rightarrow> [''X-VS:'' @ v]))))"

definition refuseAnOpenGateway :: "around \<Rightarrow> transfer_params \<Rightarrow> client \<Rightarrow> bank_error option \<times> client" where
  "refuseAnOpenGateway a params c =
     (if tp_allowPublicGateway params = Some True then (None, c)
      else (case refusesStrangers a c of (refuses, c') \<Rightarrow> (if refuses then None else Some OpenGateway, c')))"

definition QUERY :: string where "QUERY = ''q''"

definition answeredAt :: "shop \<Rightarrow> transfer_params \<Rightarrow> string \<Rightarrow> bank_error + string" where
  "answeredAt sh params subject =
     (if tp_agent params
      then (case callerKey (ar_platform (sh_around sh)) (tp_secret params) of
              None \<Rightarrow> Inl (BankClient NoSigningKey) | Some key \<Rightarrow> Inr (''agent:'' @ publicKeyHex key))
      else (case read_page (sh_pages sh) (case tp_verifyUrl params of None \<Rightarrow> [] | Some u \<Rightarrow> u) of
              None \<Rightarrow> Inl BankUrl
            | Some p \<Rightarrow>
                (case sealFor (sh_sealing sh) [] BankVerify (tp_secret params) subject True of
                   Inl e \<Rightarrow> Inl (BankSealing e)
                 | Inr blob \<Rightarrow> Inr (write_page (sh_pages sh) (set_param QUERY blob p)))))"

definition asked_by :: "transfer_params \<Rightarrow> asked_for" where
  "asked_by params =
     \<lparr>for_iban = accountOf (tp_iban params), for_reference = tp_reference params, for_minor = tp_minor params,
      for_currency = currency_of params, for_expiresAt = Finite (of_int (tp_expiresAt params))\<rparr>"

definition transfer_handover :: "shop \<Rightarrow> bytes \<Rightarrow> transfer_params \<Rightarrow> string \<Rightarrow> string \<Rightarrow> bank_error + handover" where
  "transfer_handover sh drawn params hash url =
     and_then (case tp_sealed params of
                 None \<Rightarrow> Inr None
               | Some (secret, data) \<Rightarrow>
                   (case seal (sh_sealing sh) drawn secret (stringify data) (Some hash) of
                      Inl e \<Rightarrow> Inl (BankSealing e) | Inr blob \<Rightarrow> Inr (Some blob))) (\<lambda>blob.
       Inr \<lparr>hand_paymentHash = hash, hand_verifyUrl = url, hand_expiresAt = tp_expiresAt params, hand_trigger = tp_trigger params,
            hand_replay = tp_replay params, hand_sealed = blob, hand_webhookUrl = tp_webhookUrl params\<rparr>)"

definition bankTransfer :: "shop \<Rightarrow> bytes \<Rightarrow> transfer_params \<Rightarrow> client \<Rightarrow> (bank_error + bank_transfer) \<times> client" where
  "bankTransfer sh drawn params c =
     (let iban = accountOf (tp_iban params)
      in case refuseUnusable params iban of
           Some e \<Rightarrow> (Inl e, c)
         | None \<Rightarrow>
             (case refuseAnOpenGateway (sh_around sh) params c of
                (Some e, c') \<Rightarrow> (Inl e, c')
              | (None, c') \<Rightarrow>
                  (case shortPaymentDescriptor (sh_fl sh) params (the (safe_integer (tp_minor params))) iban (currency_of params) of
                     Inl e \<Rightarrow> (Inl (BankPrice e), c')
                   | Inr spd \<Rightarrow>
                       (case answeredAt sh params (subjectOf (sh_shortest sh) (asked_by params)) of
                          Inl e \<Rightarrow> (Inl e, c')
                        | Inr url \<Rightarrow>
                            (let hash = hashOf (preimage_of (sh_shortest sh) (tp_secret params) (asked_by params))
                             in case transfer_handover sh drawn params hash url of
                                  Inl e \<Rightarrow> (Inl e, c')
                                | Inr h \<Rightarrow>
                                    (case client_watch (sh_around sh) h c' of
                                       (Inl e, c'') \<Rightarrow> (Inl (BankClient e), c'')
                                     | (Inr watched, c'') \<Rightarrow>
                                         (Inr \<lparr>bt_id = rep_id (reported_of watched), bt_paymentHash = hash, bt_verifyUrl = url,
                                               bt_spd = spd\<rparr>, c'')))))))"

subsection \<open>Answering for it\<close>

record bank_verify =
  bv_secret :: string
  bv_iban :: string
  bv_statement :: statement
  bv_freshEverySecs :: "int option"
  bv_lookBackSecs :: "int option"
  bv_pollEverySecs :: "int option"

definition bank_paced :: "bank_verify \<Rightarrow> headers" where
  "bank_paced cfg =
     paced (case bv_pollEverySecs cfg of Some n \<Rightarrow> Some n | None \<Rightarrow> bv_freshEverySecs cfg) BANK_POLL_EVERY_SECS"

definition bank_answered :: "shop \<Rightarrow> int \<Rightarrow> bank_verify \<Rightarrow> incoming \<Rightarrow> bank_error + served_reply" where
  "bank_answered sh now cfg r =
     (case answerVerifyChallenge r of
        Some consented \<Rightarrow> Inr consented
      | None \<Rightarrow>
          (case read_page (sh_pages sh) (in_url r) of
             None \<Rightarrow> Inl BankUrl
           | Some p \<Rightarrow>
               (case get_param QUERY p of
                  None \<Rightarrow> Inr (unsettled 400 [])
                | Some blob \<Rightarrow>
                    (case unsealFor (sh_sealing sh) BankVerify (bv_secret cfg) blob of
                       Inl e \<Rightarrow> Inl (BankSealing e)
                     | Inr subject \<Rightarrow>
                         (case Option.bind subject (askedFrom (sh_fl sh)) of
                            None \<Rightarrow> Inr (unsettled 403 [])
                          | Some q \<Rightarrow>
                              if for_iban q \<noteq> accountOf (bv_iban cfg) then Inr (unsettled 403 [])
                              else and_then (creditedPreimage (sh_shortest sh) now (bv_secret cfg) q (bv_statement cfg) (bv_lookBackSecs cfg))
                                (\<lambda>found. Inr (case found of
                                   None \<Rightarrow> unsettled 200 (bank_paced cfg)
                                 | Some secret \<Rightarrow>
                                     json_reply 200 (bank_paced cfg) (JObj [(''settled'', JBool True), (''preimage'', JStr secret)]))))))))"

definition bankVerifyEndpoint :: "shop \<Rightarrow> bank_verify \<Rightarrow> bank_error + (int \<Rightarrow> incoming \<Rightarrow> bank_error + served_reply)" where
  "bankVerifyEndpoint sh cfg =
     (if weak_secret (bv_secret cfg) then Inl (BankSealing WeakSecret)
      else if \<not> IBAN (accountOf (bv_iban cfg)) then Inl NotAnIban
      else Inr (\<lambda>now. bank_answered sh now cfg))"

text \<open>The agent's answer, \<^verbatim>\<open>answer\<close> of what it attends with.\<close>

record bank_order =
  bo_iban :: string
  bo_reference :: string
  bo_minor :: double
  bo_currency :: "string option"
  bo_expiresAt :: double
  bo_statement :: statement

definition order_asked :: "bank_order \<Rightarrow> asked_for" where
  "order_asked order =
     \<lparr>for_iban = accountOf (bo_iban order), for_reference = bo_reference order, for_minor = bo_minor order,
      for_currency = (case bo_currency order of None \<Rightarrow> DEFAULT_CURRENCY | Some c \<Rightarrow> c), for_expiresAt = bo_expiresAt order\<rparr>"

definition agent_answer :: "(rat \<Rightarrow> string) \<Rightarrow> int \<Rightarrow> string \<Rightarrow> (string \<Rightarrow> bank_order option) \<Rightarrow> int option \<Rightarrow> string \<Rightarrow>
    bank_error + string option" where
  "agent_answer shortest now secret orders lookBackSecs hash =
     (case orders hash of
        None \<Rightarrow> Inr None
      | Some order \<Rightarrow> creditedPreimage shortest now secret (order_asked order) (bo_statement order) lookBackSecs)"

definition bankAgent :: "(rat \<Rightarrow> string) \<Rightarrow> string \<Rightarrow> (string \<Rightarrow> bank_order option) \<Rightarrow> int option \<Rightarrow>
    bank_error + (int \<Rightarrow> string \<Rightarrow> bank_error + string option)" where
  "bankAgent shortest secret orders lookBackSecs =
     (if weak_secret secret then Inl (BankSealing WeakSecret)
      else Inr (\<lambda>now. agent_answer shortest now secret orders lookBackSecs))"

subsection \<open>The subject reads back\<close>

definition clean :: "asked_for \<Rightarrow> bool" where
  "clean q \<longleftrightarrow> for_iban q \<noteq> [] \<and> CHR ''|'' \<notin> set (for_iban q) \<and> for_currency q \<noteq> [] \<and> CHR ''|'' \<notin> set (for_currency q) \<and>
     for_reference q \<noteq> [] \<and> payable_minor (for_minor q) \<and> safe_integer (for_expiresAt q) \<noteq> None"

lemma safe_integer_SomeD: "safe_integer x = Some k \<Longrightarrow> x = Finite (of_int k) \<and> \<bar>k\<bar> \<le> MAX_SAFE_INTEGER"
  by (cases x) (auto simp: safe_whole_def split: if_splits)

lemma subject_reads_back:
  assumes "clean q" "ieee fl"
  shows "askedFrom fl (subjectOf shortest q) = Some (q\<lparr>for_currency := toUpperCase (for_currency q)\<rparr>)"
proof -
  obtain n t where found: "safe_integer (for_minor q) = Some n" "0 < n" "safe_integer (for_expiresAt q) = Some t"
    using assms(1) by (auto simp: clean_def payable_minor_def split: option.splits)
  note n = safe_integer_SomeD [OF found(1)] and t = safe_integer_SomeD [OF found(3)]
  have "CHR ''|'' \<notin> set (toUpperCase (for_currency q))" using assms(1) bar_in_toUpperCase by (auto simp: clean_def)
  moreover have "join ''|'' (split_on CHR ''|'' (for_reference q)) = for_reference q" by (rule join_split_on)
  ultimately show ?thesis
    using assms n t found(2) by (simp add: askedFrom_def subjectOf_def split_on_append clean_def Let_def)
qed

lemma pays_capitals [simp]: "pays c (q\<lparr>for_currency := toUpperCase (for_currency q)\<rparr>) = pays c q"
  by (simp add: pays_def)

lemma preimage_capitals [simp]: "preimage_of shortest secret (q\<lparr>for_currency := toUpperCase (for_currency q)\<rparr>) = preimage_of shortest secret q"
  by (simp add: preimage_of_def subjectOf_def)

lemma IBAN_clean: "IBAN s \<Longrightarrow> s \<noteq> [] \<and> CHR ''|'' \<notin> set s"
proof -
  assume iban: "IBAN s"
  have "code CHR ''|'' = 124" by (simp add: code_def)
  then have "\<not> is_digit CHR ''|''" "\<not> capital_letter CHR ''|''" by (simp_all add: is_digit_def capital_letter_def)
  moreover have "s = take 2 s @ take 2 (drop 2 s) @ drop 4 s"
    by (metis append_take_drop_id drop_drop numeral_Bit0 add_2_eq_Suc' numeral_2_eq_2 one_add_one)
  then have "set s = set (take 2 s) \<union> set (take 2 (drop 2 s)) \<union> set (drop 4 s)" by (metis set_append Un_assoc)
  ultimately show ?thesis using iban by (auto simp: IBAN_def list_all_iff)
qed

lemma known_currency:
  assumes "minorUnitsOf currency = Inr digits"
  shows "currency \<noteq> []" "CHR ''|'' \<notin> set currency" "length currency = 3"
proof -
  have "upper currency \<in> fst ` set ISO_4217_MINOR_UNITS"
    using assms weak_map_of_SomeI by (force simp: minorUnitsOf_def split: option.splits dest: map_of_SomeD)
  moreover have "\<forall>one\<in>fst ` set ISO_4217_MINOR_UNITS. length one = 3 \<and> CHR ''|'' \<notin> set one"
    by (simp add: ISO_4217_MINOR_UNITS_def)
  ultimately have known: "length (upper currency) = 3" "CHR ''|'' \<notin> set (upper currency)" by auto
  then show "length currency = 3" by (simp add: upper_def)
  then show "currency \<noteq> []" by auto
  have "upper_char CHR ''|'' = CHR ''|''" by code_simp
  then show "CHR ''|'' \<notin> set currency" using known(2) by (force simp: upper_def)
qed

lemma preimage_of_hash: "preimageMatchesHash (preimage_of shortest secret q) (hashOf (preimage_of shortest secret q))"
proof -
  have "isHex (preimage_of shortest secret q)"
    using lower_hex_hmacHex [of "utf8 secret" "utf8 (''preimage|'' @ subjectOf shortest q)"]
      length_hmacHex [of "utf8 secret" "utf8 (''preimage|'' @ subjectOf shortest q)"]
    unfolding isHex_def preimage_of_def by (auto simp: list_all_iff simp del: length_hmacHex append.simps)
  moreover have "lower (hashOf s) = hashOf s" for s
    by (simp add: hashOf_def lower_lower_hex lower_hex_bytesToHex)
  ultimately show ?thesis by (simp add: preimageMatchesHash_def hashOf_def)
qed

subsection \<open>A transfer settles when it was paid\<close>

lemma client_watch_time: "client_watch a h c = (Inr p, c') \<Longrightarrow> usable_time (hand_expiresAt h)"
  by (auto simp: client_watch_def watchRequestBody_def split: sum.splits option.splits if_splits)

lemma bankTransfer_InrD:
  assumes "bankTransfer sh drawn params c = (Inr t, c')"
  shows "refuseUnusable params (accountOf (tp_iban params)) = None"
    "answeredAt sh params (subjectOf (sh_shortest sh) (asked_by params)) = Inr (bt_verifyUrl t)"
    "bt_paymentHash t = hashOf (preimage_of (sh_shortest sh) (tp_secret params) (asked_by params))"
    "\<exists>digits. minorUnitsOf (currency_of params) = Inr digits" "usable_time (tp_expiresAt params)"
  using assms
  by (auto simp: bankTransfer_def Let_def shortPaymentDescriptor_def major_of_def transfer_handover_def
      split: option.splits prod.splits sum.splits dest!: client_watch_time)

lemma bankTransfer_clean:
  assumes "bankTransfer sh drawn params c = (Inr t, c')"
  shows "clean (asked_by params)" "length (subjectOf shortest (asked_by params)) \<le> 200" "\<not> weak_secret (tp_secret params)"
proof -
  note made = bankTransfer_InrD [OF assms]
  then obtain digits where known: "minorUnitsOf (currency_of params) = Inr digits" by blast
  have fit: "IBAN (accountOf (tp_iban params))" "payable_minor (tp_minor params)" "tp_reference params \<noteq> []"
    "length (tp_reference params) \<le> 60" and strong: "\<not> weak_secret (tp_secret params)"
    using made(1) by (auto simp: refuseUnusable_def MAX_REFERENCE_CHARS_def split: if_splits)
  from strong show "\<not> weak_secret (tp_secret params)" .
  have until: "\<bar>tp_expiresAt params\<bar> \<le> MAX_SAFE_INTEGER"
    using made(5) by (simp add: usable_time_def MAX_TIME_def MAX_SAFE_INTEGER_def)
  then show "clean (asked_by params)"
    using fit IBAN_clean known_currency [OF known] by (simp add: clean_def asked_by_def)
  obtain n where n: "tp_minor params = Finite (of_int n)" "\<bar>n\<bar> \<le> MAX_SAFE_INTEGER"
    using fit(2) safe_integer_SomeD by (auto simp: payable_minor_def split: option.splits)
  have "length (accountOf (tp_iban params)) \<le> 34" using fit(1) by (simp add: IBAN_def)
  moreover have "length (toUpperCase (currency_of params)) \<le> 6"
    using length_toUpperCase [of "currency_of params"] known_currency(3) [OF known] by simp
  ultimately show "length (subjectOf shortest (asked_by params)) \<le> 200"
    using fit(4) length_show_int [OF n(2)] length_show_int [OF until] n until by (simp add: subjectOf_def asked_by_def)
qed

lemma transfer_opens:
  assumes "bankTransfer sh drawn params c = (Inr t, c')" "\<not> tp_agent params" "platform_opens (sh_sealing sh)" "pages_keep (sh_pages sh)"
  obtains p blob where "read_page (sh_pages sh) (bt_verifyUrl t) = Some p" "get_param QUERY p = Some blob"
    "unsealFor (sh_sealing sh) BankVerify (tp_secret params) blob = Inr (Some (subjectOf (sh_shortest sh) (asked_by params)))"
proof -
  let ?subject = "subjectOf (sh_shortest sh) (asked_by params)"
  note clean = bankTransfer_clean [OF assms(1)]
  have "length (utf8 ?subject) \<le> 3000"
    using clean(2) [of "sh_shortest sh"] utf8_length_hex [of ?subject] by simp
  from sealed_for_its_purpose [OF assms(3) this, of "replicate 12 0" "tp_secret params" BankVerify True None "[]"] clean(3)
  obtain blob where blob: "sealFor (sh_sealing sh) [] BankVerify (tp_secret params) ?subject True = Inr blob"
    "unsealFor (sh_sealing sh) BankVerify (tp_secret params) blob = Inr (Some ?subject)"
    by auto
  obtain p endpoint where "read_page (sh_pages sh) endpoint = Some p" "write_page (sh_pages sh) (set_param QUERY blob p) = bt_verifyUrl t"
    using bankTransfer_InrD(2) [OF assms(1)] assms(2) blob(1) by (auto simp: answeredAt_def split: option.splits)
  then have "read_page (sh_pages sh) (bt_verifyUrl t) = Some (set_param QUERY blob p)"
    using pages_keep_one [OF assms(4)] by metis
  then show ?thesis using that blob(2) by simp
qed

text \<open>
  C34: a transfer is settled exactly when it was paid. For a transfer that was registered, the endpoint of the same
  secret and account answers the address the gateway was given, and the gateway, whatever lies between, concludes
  from the answer that the payment was made when a credit of the amount, currency and reference is on the statement
  and only then, with a preimage of the very hash it was given.
\<close>

theorem transfer_settles_when_paid:
  assumes "bankTransfer sh drawn params c = (Inr t, c')" "\<not> tp_agent params"
    and "platform_opens (sh_sealing sh)" "pages_keep (sh_pages sh)" "ieee (sh_fl sh)"
    and "bv_secret cfg = tp_secret params" "accountOf (bv_iban cfg) = accountOf (tp_iban params)"
    and "bv_statement cfg (now - (case bv_lookBackSecs cfg of None \<Rightarrow> DEFAULT_LOOK_BACK_SECS | Some n \<Rightarrow> n)) = Some credits"
  shows "\<exists>reply. bank_answered sh now cfg \<lparr>in_method = ''GET'', in_url = bt_verifyUrl t, in_headers = hs, in_body = body\<rparr> = Inr reply \<and>
    (\<forall>net trace said trace'. parse_json (out_body reply) = Some said \<and>
       answeredJson net (bt_verifyUrl t) True trace = (Inr (said, out_headers reply), trace') \<longrightarrow>
       (\<exists>s. checkSettled net (bt_verifyUrl t) (bt_paymentHash t) trace = (Some s, trace') \<and>
          (settled_preimage s \<noteq> None \<longleftrightarrow> (\<exists>one\<in>set credits. pays one (asked_by params)))))"
proof -
  let ?r = "\<lparr>in_method = ''GET'', in_url = bt_verifyUrl t, in_headers = hs, in_body = body\<rparr>"
  let ?secret = "preimage_of (sh_shortest sh) (tp_secret params) (asked_by params)"
  let ?paid = "list_ex (\<lambda>one. pays one (asked_by params)) credits"
  let ?said = "if ?paid then JObj [(''settled'', JBool True), (''preimage'', JStr ?secret)] else JObj [(''settled'', JBool False)]"
  obtain p blob where opens: "read_page (sh_pages sh) (bt_verifyUrl t) = Some p" "get_param QUERY p = Some blob"
    "unsealFor (sh_sealing sh) BankVerify (tp_secret params) blob = Inr (Some (subjectOf (sh_shortest sh) (asked_by params)))"
    using assms(1-4) by (rule transfer_opens)
  have "answerVerifyChallenge ?r = None" by (simp add: answerVerifyChallenge_def)
  moreover have "for_iban (asked_by params) = accountOf (tp_iban params)" by (simp add: asked_by_def)
  ultimately have answered: "bank_answered sh now cfg ?r = Inr (json_reply 200 (bank_paced cfg) ?said)"
    using opens subject_reads_back [OF bankTransfer_clean(1) [OF assms(1)] assms(5)]
    by (simp add: bank_answered_def assms(6-8) creditedPreimage_def unsettled_def)
  have "json_plain ?said" by simp
  then have parsed: "parse_json (out_body (json_reply 200 (bank_paced cfg) ?said)) = Some ?said" by (rule out_body_reply)
  have "length ?secret = 64" by (simp add: preimage_of_def)
  then have matches: "preimageMatchesHash ?secret (bt_paymentHash t)" "?secret \<noteq> []"
    using preimage_of_hash bankTransfer_InrD(3) [OF assms(1)] by auto
  have "\<exists>s. checkSettled net (bt_verifyUrl t) (bt_paymentHash t) trace = (Some s, trace') \<and> (settled_preimage s \<noteq> None \<longleftrightarrow> ?paid)"
    if "answeredJson net (bt_verifyUrl t) True trace = (Inr (?said, out), trace')" for net trace out trace'
    using that matches by (cases ?paid) (simp_all add: checkSettled_def)
  with answered parsed show ?thesis by (auto simp: list_ex_iff)
qed

subsection \<open>A reference is matched as a whole word\<close>

text \<open>
  Where a word of the reference's shape stands on its own: at the position, with neither a letter nor a number before
  or behind it.
\<close>

definition char_before :: "char option \<Rightarrow> string \<Rightarrow> nat \<Rightarrow> char option" where
  "char_before before s i = (if i = 0 then before else Some (s ! (i - 1)))"

definition stands :: "string \<Rightarrow> char option \<Rightarrow> string \<Rightarrow> nat \<Rightarrow> bool" where
  "stands reference before s i \<longleftrightarrow>
     i + length reference \<le> length s \<and> apart (char_before before s i) \<and>
     list_all2 fits reference (take (length reference) (drop i s)) \<and> apart (head_char (drop (i + length reference) s))"

definition words_of :: "string \<Rightarrow> char option \<Rightarrow> string \<Rightarrow> string set" where
  "words_of reference before s = {take (length reference) (drop i s) |i. stands reference before s i}"

definition plain_word :: "string \<Rightarrow> bool" where
  "plain_word w \<longleftrightarrow> w \<noteq> [] \<and> list_all (\<lambda>c. letter c \<or> is_digit c) w"

lemma fits_plain: "fits r c \<Longrightarrow> letter r \<or> is_digit r \<Longrightarrow> \<not> apart (Some c)"
  by (auto simp: fits_def apart_def numeric_def split: if_splits)

lemma stands_beyond:
  assumes "0 < k" "k \<le> length s"
  shows "stands reference before s (k + j) \<longleftrightarrow> stands reference (Some (s ! (k - 1))) (drop k s) j"
proof -
  have "char_before before s (k + j) = char_before (Some (s ! (k - 1))) (drop k s) j"
    using assms by (cases j) (auto simp: char_before_def)
  then show ?thesis using assms by (auto simp: stands_def add.commute add.left_commute)
qed

lemma words_of_beyond:
  assumes "0 < k" "k \<le> length s" "\<forall>i. 0 < i \<and> i < k \<longrightarrow> \<not> stands reference before s i"
  shows "words_of reference before s =
    (if stands reference before s 0 then {take (length reference) s} else {}) \<union> words_of reference (Some (s ! (k - 1))) (drop k s)"
proof -
  have split: "(\<exists>i. P i) \<longleftrightarrow> P 0 \<or> (\<exists>i. 0 < i \<and> i < k \<and> P i) \<or> (\<exists>j. P (k + j))" for P :: "nat \<Rightarrow> bool"
    using assms(1) by (metis le_Suc_ex linorder_not_le gr0I)
  have "(\<exists>i. x = take (length reference) (drop i s) \<and> stands reference before s i) \<longleftrightarrow>
    (x = take (length reference) s \<and> stands reference before s 0) \<or>
    (\<exists>j. x = take (length reference) (drop j (drop k s)) \<and> stands reference (Some (s ! (k - 1))) (drop k s) j)" for x
  proof -
    have "(\<exists>j. x = take (length reference) (drop (k + j) s) \<and> stands reference before s (k + j)) \<longleftrightarrow>
      (\<exists>j. x = take (length reference) (drop j (drop k s)) \<and> stands reference (Some (s ! (k - 1))) (drop k s) j)"
      by (simp only: drop_drop add.commute [of k] stands_beyond [OF assms(1,2), unfolded add.commute [of k]])
    then show ?thesis by (subst split) (use assms(3) in auto)
  qed
  then show ?thesis by (auto simp: words_of_def)
qed

lemma inside_not_stands:
  assumes "plain_word reference" "list_all2 fits reference (take (length reference) s)" "0 < i" "i < length reference"
  shows "\<not> stands reference before s i"
proof -
  have "fits (reference ! (i - 1)) (s ! (i - 1))" "i - 1 < length reference"
    using assms by (auto simp: list_all2_conv_all_nth)
  then have "\<not> apart (Some (s ! (i - 1)))"
    using assms(1) fits_plain by (auto simp: plain_word_def list_all_length)
  then show ?thesis using assms(3) by (auto simp: stands_def char_before_def)
qed

lemma words_like_all: "plain_word reference \<Longrightarrow> set (words_like reference before s) = words_of reference before s"
proof (induction reference before s rule: words_like.induct)
  case (1 reference before s)
  let ?n = "length reference"
  have n: "0 < ?n" using 1(4) by (auto simp: plain_word_def)
  have here: "stands reference before s 0 \<longleftrightarrow>
      ?n \<le> length s \<and> apart before \<and> list_all2 fits reference (take ?n s) \<and> apart (head_char (drop ?n s))"
    by (simp add: stands_def char_before_def)
  show ?case
  proof (cases "stands reference before s 0")
    case True
    then have long: "?n \<le> length s" "s \<noteq> []" using here n by auto
    then have last: "last (take ?n s) = s ! (?n - 1)" using n by (simp add: last_conv_nth)
    have "set (words_like reference (Some (last (take ?n s))) (drop ?n s)) = words_of reference (Some (last (take ?n s))) (drop ?n s)"
      using 1(2) [OF refl refl] True here long n 1(4) by simp
    moreover have "words_of reference before s = {take ?n s} \<union> words_of reference (Some (s ! (?n - 1))) (drop ?n s)"
      using words_of_beyond [OF n long(1)] inside_not_stands [OF 1(4)] True here by auto
    ultimately show ?thesis using True here long n last by (subst words_like.simps) (simp add: Let_def)
  next
    case False
    show ?thesis
    proof (cases s)
      case Nil
      then show ?thesis using n False here by (subst words_like.simps) (auto simp: words_of_def stands_def)
    next
      case (Cons c cs)
      have "set (words_like reference (Some c) cs) = words_of reference (Some c) cs"
        using 1(3) [OF refl refl] False here Cons 1(4) by simp
      moreover have "words_of reference before s = words_of reference (Some c) cs"
        using words_of_beyond [of 1 s reference before] False by (simp add: Cons)
      moreover have "words_like reference before s = words_like reference (Some c) cs"
        using False here Cons n by (subst words_like.simps) (auto simp: Let_def)
      ultimately show ?thesis by simp
    qed
  qed
qed

text \<open>
  C35: a reference is matched as a whole word. For a reference of letters and digits, a text names it exactly when
  its capitals stand in the text's with no letter or number against them, and, when the reference has a digit, every
  other word of the same shape that stands there is the reference too: a transfer for order 41 never pays for order 42.
\<close>

theorem namesOnly_whole_words:
  assumes "plain_word (toUpperCase reference)"
  shows "namesOnly written reference \<longleftrightarrow>
    toUpperCase reference \<in> words_of (toUpperCase reference) None (toUpperCase written) \<and>
    (list_ex is_digit (toUpperCase reference) \<longrightarrow> words_of (toUpperCase reference) None (toUpperCase written) = {toUpperCase reference})"
  using words_like_all [OF assms, of None "toUpperCase written"]
  by (auto simp: namesOnly_def Let_def list_ex_iff list_all_iff)

subsection \<open>A transfer at work\<close>

lemma namesOnly_whole_words_witness:
  "plain_word (toUpperCase ''a41'') \<and> namesOnly ''for a41, thanks'' ''a41'' \<and> words_of ''A41'' None ''FOR A41, THANKS'' = {''A41''} \<and>
     \<not> namesOnly ''a41 and a42'' ''a41''"
proof -
  have capitals: "toUpperCase ''a41'' = ''A41''" "toUpperCase ''for a41, thanks'' = ''FOR A41, THANKS''" "list_ex is_digit ''A41''" by code_simp+
  have plain: "plain_word (toUpperCase ''a41'')" by code_simp
  have "namesOnly ''for a41, thanks'' ''a41''" "\<not> namesOnly ''a41 and a42'' ''a41''" by code_simp+
  then show ?thesis
    using namesOnly_whole_words [OF plain, of "''for a41, thanks''"] plain capitals(3) unfolding capitals(1,2) by blast
qed

definition transfer_here :: transfer_params where
  "transfer_here = \<lparr>tp_secret = replicate 32 CHR ''s'', tp_reference = ''order 7'', tp_minor = Finite 48055,
     tp_iban = ''CZ6508000000192000145399'', tp_verifyUrl = Some endpoint_here, tp_agent = False, tp_expiresAt = 1700003600,
     tp_currency = None, tp_variableSymbol = None, tp_trigger = None, tp_replay = None, tp_sealed = None, tp_webhookUrl = None,
     tp_allowPublicGateway = Some True\<rparr>"

definition transfer_hash :: string where
  "transfer_hash = hashOf (preimage_of (\<lambda>_. ''?'') (tp_secret transfer_here) (asked_by transfer_here))"

definition bank_here :: shop where
  "bank_here = shop_here\<lparr>sh_around := around_here (JObj
     [(''id'', JStr ''w-1''), (''status'', JStr ''pending''), (''payment_hash'', JStr transfer_hash), (''verify_url'', JStr ''https://shop.example''),
      (''expires_at'', JStr ''later''), (''created_at'', JStr ''now'')])\<rparr>"

lemma bank_here_facts [simp]:
  "sh_pages bank_here = json_pages" "sh_sealing bank_here = clear_platform" "sh_fl bank_here = id" "sh_shortest bank_here = (\<lambda>_. ''?'')"
  by (simp_all add: bank_here_def shop_here_def)

lemma account_here: "accountOf (tp_iban transfer_here) = ''CZ6508000000192000145399''" "IBAN ''CZ6508000000192000145399''"
  unfolding transfer_here_def transfer_params.simps by code_simp+

lemma watched_at_bank:
  "\<exists>p c'. client_watch (sh_around bank_here) \<lparr>hand_paymentHash = transfer_hash, hand_verifyUrl = url, hand_expiresAt = 1700003600,
     hand_trigger = None, hand_replay = None, hand_sealed = None, hand_webhookUrl = None\<rparr> (client_here None) = (Inr p, c')"
  by (simp add: client_watch_def trigger_sent_def truthy_def watchRequestBody_def usable_time_def MAX_TIME_def sending_headers_def
      reading_headers_def client_here_def exchanged_def fetch_gateway_def reply_ok_def body_of_def bank_here_def around_here_def
      watched_as_named_def nameFor_def paymentFromWire_def reportedFrom_def secondsFrom_def text_or_null_def wire_status_def
      status_of_def missing_def Let_def)

lemma transferred_here: "\<exists>t c'. bankTransfer bank_here [] transfer_here (client_here None) = (Inr t, c')"
proof -
  have usable: "refuseUnusable transfer_here (accountOf (tp_iban transfer_here)) = None"
    unfolding account_here(1) refuseUnusable_def using account_here(2)
    by (simp add: transfer_here_def weak_secret_def MIN_SECRET_CHARS_def payable_minor_def safe_whole_def MAX_SAFE_INTEGER_def
        MAX_REFERENCE_CHARS_def FORBIDDEN_IN_SPD_def truthy_def)
  have "upper ''CZK'' = ''CZK''" by code_simp
  then have "\<exists>spd. shortPaymentDescriptor id transfer_here 48055 iban (currency_of transfer_here) = Inr spd" for iban
    by (simp add: shortPaymentDescriptor_def major_of_def minorScaleOf_def minorUnitsOf_def currency_of_def transfer_here_def
        DEFAULT_CURRENCY_def ISO_4217_MINOR_UNITS_def)
  moreover have "the (safe_integer (tp_minor transfer_here)) = 48055" "tp_allowPublicGateway transfer_here = Some True"
    by (simp_all add: transfer_here_def safe_whole_def MAX_SAFE_INTEGER_def)
  moreover have "\<exists>url. answeredAt bank_here transfer_here subject = Inr url" if "length (utf8 subject) \<le> 3000" for subject
  proof -
    have "\<not> weak_secret (tp_secret transfer_here)" by (simp add: transfer_here_def weak_secret_def MIN_SECRET_CHARS_def)
    with sealed_for_its_purpose [OF clear_platform_promises that, of "replicate 12 0" "tp_secret transfer_here" BankVerify True None "[]"]
    obtain blob where "sealFor clear_platform [] BankVerify (tp_secret transfer_here) subject True = Inr blob" by auto
    moreover have "\<not> tp_agent transfer_here" "tp_verifyUrl transfer_here = Some endpoint_here" by (simp_all add: transfer_here_def)
    ultimately show ?thesis by (simp add: answeredAt_def endpoint_read_here)
  qed
  moreover have "length (subjectOf (\<lambda>_. ''?'') (asked_by transfer_here)) \<le> 100"
    using length_show_int [of 48055] length_show_int [of 1700003600] length_toUpperCase [of "''CZK''"]
    by (simp add: subjectOf_def asked_by_def account_here(1))
      (simp add: transfer_here_def safe_whole_def MAX_SAFE_INTEGER_def currency_of_def DEFAULT_CURRENCY_def)
  then have "length (utf8 (subjectOf (\<lambda>_. ''?'') (asked_by transfer_here))) \<le> 3000"
    using utf8_length_hex [of "subjectOf (\<lambda>_. ''?'') (asked_by transfer_here)"] by simp
  ultimately obtain spd url where made: "shortPaymentDescriptor id transfer_here 48055 (accountOf (tp_iban transfer_here))
      (currency_of transfer_here) = Inr spd"
    "answeredAt bank_here transfer_here (subjectOf (\<lambda>_. ''?'') (asked_by transfer_here)) = Inr url"
    "the (safe_integer (tp_minor transfer_here)) = 48055" "tp_allowPublicGateway transfer_here = Some True" by metis
  let ?h = "\<lparr>hand_paymentHash = transfer_hash, hand_verifyUrl = url, hand_expiresAt = 1700003600, hand_trigger = None,
    hand_replay = None, hand_sealed = None, hand_webhookUrl = None\<rparr>"
  have "transfer_handover bank_here [] transfer_here transfer_hash url = Inr ?h"
    by (simp add: transfer_handover_def transfer_here_def)
  with usable made watched_at_bank [of url] show ?thesis
    by (auto simp: bankTransfer_def refuseAnOpenGateway_def Let_def simp flip: transfer_hash_def)
qed

definition credit_here :: credit where
  "credit_here = \<lparr>credit_minor = Finite 48055, credit_currency = ''czk'', credit_reference = ''thanks, Order 7'', credit_bookedAt = 0\<rparr>"

definition bank_verify_here :: bank_verify where
  "bank_verify_here = \<lparr>bv_secret = replicate 32 CHR ''s'', bv_iban = ''cz65 0800 0000 1920 0014 5399'', bv_statement = (\<lambda>_. Some [credit_here]),
     bv_freshEverySecs = Some 6, bv_lookBackSecs = None, bv_pollEverySecs = None\<rparr>"

lemma credit_pays_here: "pays credit_here (asked_by transfer_here)"
proof -
  have "namesOnly ''thanks, Order 7'' ''order 7''" "toUpperCase ''czk'' = ''CZK''" "toUpperCase ''CZK'' = ''CZK''" by code_simp+
  then show ?thesis
    by (simp add: pays_def credit_here_def asked_by_def transfer_here_def double_equal_def currency_of_def DEFAULT_CURRENCY_def)
qed

lemma transfer_settles_when_paid_witness:
  "\<exists>t c' reply. bankTransfer bank_here [] transfer_here (client_here None) = (Inr t, c') \<and>
     bank_answered bank_here 0 bank_verify_here \<lparr>in_method = ''GET'', in_url = bt_verifyUrl t, in_headers = [], in_body = []\<rparr> = Inr reply \<and>
     (\<forall>net trace said trace'. parse_json (out_body reply) = Some said \<and>
        answeredJson net (bt_verifyUrl t) True trace = (Inr (said, out_headers reply), trace') \<longrightarrow>
        (\<exists>s. checkSettled net (bt_verifyUrl t) (bt_paymentHash t) trace = (Some s, trace') \<and> settled_preimage s \<noteq> None))"
proof -
  obtain t c' where t: "bankTransfer bank_here [] transfer_here (client_here None) = (Inr t, c')" using transferred_here by blast
  have "accountOf ''cz65 0800 0000 1920 0014 5399'' = ''CZ6508000000192000145399''" by code_simp
  then have cfg: "bv_secret bank_verify_here = tp_secret transfer_here" "accountOf (bv_iban bank_verify_here) = accountOf (tp_iban transfer_here)"
    "bv_statement bank_verify_here (0 - (case bv_lookBackSecs bank_verify_here of None \<Rightarrow> DEFAULT_LOOK_BACK_SECS | Some n \<Rightarrow> n)) = Some [credit_here]"
    "\<not> tp_agent transfer_here"
    by (simp_all add: account_here(1) bank_verify_here_def) (simp_all add: transfer_here_def)
  have env: "platform_opens (sh_sealing bank_here)" "pages_keep (sh_pages bank_here)" "ieee (sh_fl bank_here)"
    by (simp_all add: clear_platform_promises json_pages_keep ieee_id)
  from transfer_settles_when_paid [OF t cfg(4) env cfg(1-3), of "[]" "[]"] t credit_pays_here show ?thesis by fastforce
qed

end
