(* ===== verification/Fio.thy ===== *)
theory Fio
  imports Bank
begin

text \<open>
  \<^verbatim>\<open>sdk/src/fio.ts\<close>: the statement of an account at Fio. A read takes the token that was not used the longest and
  hands back the last answer inside the bank's window. Between the request and its answer other reads may come, so
  the two are steps of their own. The lemmas show that no token is asked twice within its window, that the requests
  keep their distance, and that only an answer about the configured account is taken.
\<close>

definition BASE_URL :: string where "BASE_URL = ''https://fioapi.fio.cz/v1/rest''"
definition MINOR_UNITS :: rat where "MINOR_UNITS = 100"
definition DATE_CHARS :: nat where "DATE_CHARS = 10"
definition DEFAULT_MIN_INTERVAL_SECS :: rat where "DEFAULT_MIN_INTERVAL_SECS = 30"
definition TOO_SOON :: nat where "TOO_SOON = 409"
definition BOOKED_AT :: string where "BOOKED_AT = ''column0''"
definition AMOUNT :: string where "AMOUNT = ''column1''"
definition CURRENCY :: string where "CURRENCY = ''column14''"
definition VARIABLE_SYMBOL :: string where "VARIABLE_SYMBOL = ''column5''"
definition USER_IDENTIFICATION :: string where "USER_IDENTIFICATION = ''column7''"
definition MESSAGE_FOR_RECIPIENT :: string where "MESSAGE_FOR_RECIPIENT = ''column16''"
definition PAYER_REFERENCE :: string where "PAYER_REFERENCE = ''column27''"
definition WHERE_A_PAYER_WRITES :: "string list" where
  "WHERE_A_PAYER_WRITES = [MESSAGE_FOR_RECIPIENT, VARIABLE_SYMBOL, USER_IDENTIFICATION, PAYER_REFERENCE]"

subsection \<open>Cells of a transaction\<close>

text \<open>\<^verbatim>\<open>value?.name\<close>: absent of \<^verbatim>\<open>undefined\<close>, of \<^verbatim>\<open>null\<close> and of what is no object.\<close>

fun optional_member :: "json option \<Rightarrow> string \<Rightarrow> json option" where
  "optional_member (Some (JObj ms)) name = field ms name"
| "optional_member _ name = None"

text \<open>\<^verbatim>\<open>String(value)\<close>.\<close>

fun json_text :: "rounding \<Rightarrow> (rat \<Rightarrow> string) \<Rightarrow> json \<Rightarrow> string" where
  "json_text fl shortest JNull = ''null''"
| "json_text fl shortest (JBool b) = (if b then ''true'' else ''false'')"
| "json_text fl shortest (JNum n) = double_text shortest (double_of fl (show_int n))"
| "json_text fl shortest (JFraction t) = double_text shortest (double_of fl t)"
| "json_text fl shortest (JStr s) = s"
| "json_text fl shortest (JArr vs) = join '','' (map (\<lambda>v. if v = JNull then [] else json_text fl shortest v) vs)"
| "json_text fl shortest (JObj ms) = ''[object Object]''"

definition numberIn :: "rounding \<Rightarrow> json option \<Rightarrow> rat" where
  "numberIn fl cell =
     (let v = optional_member cell ''value''
      in if missing v then 0
         else (case Option.bind v number_of_json of
                 None \<Rightarrow> 0
               | Some q \<Rightarrow> if OVERFLOW \<le> \<bar>q\<bar> then 0 else fl q))"

definition textIn :: "rounding \<Rightarrow> (rat \<Rightarrow> string) \<Rightarrow> json option \<Rightarrow> string" where
  "textIn fl shortest cell =
     (let v = optional_member cell ''value'' in if missing v then [] else trim (json_text fl shortest (the v)))"

definition UTC_OFFSET :: "string \<Rightarrow> bool" where
  "UTC_OFFSET zone \<longleftrightarrow> (case zone of c # ds \<Rightarrow> (c = CHR ''+'' \<or> c = CHR ''-'') \<and> length ds = 4 \<and> list_all is_digit ds | [] \<Rightarrow> False)"

definition asIso8601 :: "string \<Rightarrow> string" where
  "asIso8601 booked =
     (let day = take DATE_CHARS booked; zone = drop DATE_CHARS booked
      in if \<not> UTC_OFFSET zone then day @ ''T00:00:00Z'' else day @ ''T00:00:00'' @ take 3 zone @ '':'' @ drop 3 zone)"

definition bookedAtIn :: "rounding \<Rightarrow> (rat \<Rightarrow> string) \<Rightarrow> (string \<Rightarrow> int option) \<Rightarrow> json option \<Rightarrow> int" where
  "bookedAtIn fl shortest date_parse cell =
     (case optional_member cell ''value'' of
        Some (JNum n) \<Rightarrow> \<lfloor>fl (fl (of_int n) / of_int MILLIS)\<rfloor>
      | Some (JFraction t) \<Rightarrow> (case js_number t of None \<Rightarrow> 0 | Some q \<Rightarrow> \<lfloor>fl (fl q / of_int MILLIS)\<rfloor>)
      | _ \<Rightarrow> (case date_parse (asIso8601 (textIn fl shortest cell)) of None \<Rightarrow> 0 | Some ms \<Rightarrow> ms div MILLIS))"

definition isCredit :: "rounding \<Rightarrow> (string \<times> json) list \<Rightarrow> bool" where
  "isCredit fl transaction \<longleftrightarrow> 0 < numberIn fl (field transaction AMOUNT)"

text \<open>\<^verbatim>\<open>Math.round\<close> of a product that may overflow.\<close>

definition minor_of :: "rounding \<Rightarrow> rat \<Rightarrow> double" where
  "minor_of fl x =
     (if OVERFLOW \<le> x * MINOR_UNITS then PlusInfinity
      else if x * MINOR_UNITS \<le> - OVERFLOW then MinusInfinity
      else Finite (of_int (math_round (fl (x * MINOR_UNITS)))))"

definition asCredit :: "rounding \<Rightarrow> (rat \<Rightarrow> string) \<Rightarrow> (string \<Rightarrow> int option) \<Rightarrow> (string \<times> json) list \<Rightarrow> credit" where
  "asCredit fl shortest date_parse transaction =
     \<lparr>credit_minor = minor_of fl (numberIn fl (field transaction AMOUNT)),
      credit_currency = textIn fl shortest (field transaction CURRENCY),
      credit_reference = join '' '' (filter (\<lambda>written. written \<noteq> [])
        (map (\<lambda>column. textIn fl shortest (field transaction column)) WHERE_A_PAYER_WRITES)),
      credit_bookedAt = bookedAtIn fl shortest date_parse (field transaction BOOKED_AT)\<rparr>"

subsection \<open>Reading the account\<close>

record fio_config =
  fio_tokens :: "string list"
  fio_minIntervalSecs :: "rat option"
  fio_iban :: "string option"
  fio_baseUrl :: "string option"

record fio_answer =
  ans_status :: nat
  ans_json :: "json option"

datatype fio_error =
    NoToken
  | FioUnusableTime
  | FioUnanswered
  | FioTooSoon
  | FioAnswered nat
  | FioNotJson
  | FioCrashed
  | OtherAccount

text \<open>
  The tokens in the order of the map with when each was used, the last read and the credits it gave; a token that was
  never used and a statement never read are \<^verbatim>\<open>-Infinity\<close>, here \<^const>\<open>None\<close>. Times are milliseconds.
\<close>

record fio =
  used_at :: "(string \<times> int option) list"
  last_read :: "int option"
  last_credits :: "credit list"

text \<open>\<^verbatim>\<open>new Map(named.map(...))\<close>: a token named twice keeps its first place.\<close>

definition fio_unused :: "string list \<Rightarrow> fio" where
  "fio_unused named = \<lparr>used_at = map (\<lambda>token. (token, None)) (rev (remdups (rev named))), last_read = None, last_credits = []\<rparr>"

definition fioStatement :: "fio_config \<Rightarrow> fio_error + fio" where
  "fioStatement cfg = (if fio_tokens cfg = [] then Inl NoToken else Inr (fio_unused (fio_tokens cfg)))"

definition token_window :: "fio_config \<Rightarrow> rounding \<Rightarrow> rat" where
  "token_window cfg fl = fl ((case fio_minIntervalSecs cfg of None \<Rightarrow> DEFAULT_MIN_INTERVAL_SECS | Some n \<Rightarrow> n) * of_int MILLIS)"

definition pace :: "fio_config \<Rightarrow> rounding \<Rightarrow> nat \<Rightarrow> rat" where
  "pace cfg fl tokens = fl (token_window cfg fl / of_nat tokens)"

definition freshEverySecs :: "fio_config \<Rightarrow> rounding \<Rightarrow> fio \<Rightarrow> int" where
  "freshEverySecs cfg fl st = \<lceil>fl (pace cfg fl (length (used_at st)) / of_int MILLIS)\<rceil>"

text \<open>\<^verbatim>\<open>now - at < room\<close>, never of \<^verbatim>\<open>-Infinity\<close>.\<close>

definition in_span :: "int \<Rightarrow> int option \<Rightarrow> rat \<Rightarrow> bool" where
  "in_span now used room \<longleftrightarrow> (case used of None \<Rightarrow> False | Some t \<Rightarrow> of_int (now - t) < room)"

fun earlier :: "int option \<Rightarrow> int option \<Rightarrow> bool" where
  "earlier None (Some _) \<longleftrightarrow> True"
| "earlier (Some s) (Some t) \<longleftrightarrow> s < t"
| "earlier _ None \<longleftrightarrow> False"

text \<open>The scan starts from \<^verbatim>\<open>+Infinity\<close>, which the first token is earlier than.\<close>

definition longestUnused :: "(string \<times> int option) list \<Rightarrow> string \<times> int option" where
  "longestUnused tokens =
     (case tokens of
        [] \<Rightarrow> ([], None)
      | first # others \<Rightarrow> fold (\<lambda>candidate best. if earlier (snd candidate) (snd best) then candidate else best) others first)"

definition asDate :: "int \<Rightarrow> fio_error + string" where
  "asDate unix = (if usable_time unix then Inr (take DATE_CHARS (toTimestamp unix)) else Inl FioUnusableTime)"

text \<open>A read up to its request: the last answer, or the token and the URL that is fetched.\<close>

datatype fio_begun = LastAnswer "credit list" | Fetches string "fio_error + string"

definition fio_url :: "fio_config \<Rightarrow> string \<Rightarrow> int \<Rightarrow> int \<Rightarrow> fio_error + string" where
  "fio_url cfg token sinceUnix now =
     and_then (asDate sinceUnix) (\<lambda>from.
     and_then (asDate (now div MILLIS)) (\<lambda>until.
       Inr (join ''/'' [case fio_baseUrl cfg of None \<Rightarrow> BASE_URL | Some b \<Rightarrow> b, ''periods'', token, from, until, ''transactions.json''])))"

definition fio_begin :: "fio_config \<Rightarrow> rounding \<Rightarrow> int \<Rightarrow> int \<Rightarrow> fio \<Rightarrow> fio_begun \<times> fio" where
  "fio_begin cfg fl now sinceUnix st =
     (if in_span now (last_read st) (pace cfg fl (length (used_at st))) then (LastAnswer (last_credits st), st)
      else (case longestUnused (used_at st) of
              (token, used) \<Rightarrow>
                if in_span now used (token_window cfg fl) then (LastAnswer (last_credits st), st)
                else (Fetches token (fio_url cfg token sinceUnix now),
                      st\<lparr>used_at := map (\<lambda>(t, u). (t, if t = token then Some now else u)) (used_at st), last_read := Some now\<rparr>)))"

fun objects_of :: "json list \<Rightarrow> (string \<times> json) list list option" where
  "objects_of [] = Some []"
| "objects_of (JNull # vs) = None"
| "objects_of (JObj ms # vs) = map_option (Cons ms) (objects_of vs)"
| "objects_of (v # vs) = map_option (Cons []) (objects_of vs)"

definition fio_credits :: "rounding \<Rightarrow> (rat \<Rightarrow> string) \<Rightarrow> (string \<Rightarrow> int option) \<Rightarrow> json option \<Rightarrow> fio_error + credit list" where
  "fio_credits fl shortest date_parse listed_there =
     (if missing listed_there then Inr []
      else (case listed_there of
              Some (JArr vs) \<Rightarrow>
                (case objects_of vs of
                   None \<Rightarrow> Inl FioCrashed
                 | Some transactions \<Rightarrow> Inr (map (asCredit fl shortest date_parse) (filter (isCredit fl) transactions)))
            | _ \<Rightarrow> Inl FioCrashed))"

text \<open>\<^verbatim>\<open>reads ?? ""\<close> and the account it names; what is no text has no \<^verbatim>\<open>replace\<close>.\<close>

definition reads_account :: "fio_config \<Rightarrow> json option \<Rightarrow> fio_error + bool" where
  "reads_account cfg reads =
     (case fio_iban cfg of
        None \<Rightarrow> Inr True
      | Some wanted \<Rightarrow>
          (case (if missing reads then Some [] else json_string reads) of
             None \<Rightarrow> Inl FioCrashed
           | Some named \<Rightarrow> Inr (accountOf named = accountOf wanted)))"

definition fio_statement_of :: "fio_config \<Rightarrow> rounding \<Rightarrow> (rat \<Rightarrow> string) \<Rightarrow> (string \<Rightarrow> int option) \<Rightarrow> json \<Rightarrow> fio_error + credit list" where
  "fio_statement_of cfg fl shortest date_parse said =
     (case said_member said ''accountStatement'' of
        Inl _ \<Rightarrow> Inl FioCrashed
      | Inr statement \<Rightarrow>
          and_then (reads_account cfg (optional_member (optional_member statement ''info'') ''iban'')) (\<lambda>ours.
            if \<not> ours then Inl OtherAccount
            else fio_credits fl shortest date_parse (optional_member (optional_member statement ''transactionList'') ''transaction'')))"

definition fio_answered :: "fio_config \<Rightarrow> rounding \<Rightarrow> (rat \<Rightarrow> string) \<Rightarrow> (string \<Rightarrow> int option) \<Rightarrow> fio_answer option \<Rightarrow> fio \<Rightarrow>
    (fio_error + credit list) \<times> fio" where
  "fio_answered cfg fl shortest date_parse answer st =
     (case answer of
        None \<Rightarrow> (Inl FioUnanswered, st)
      | Some r \<Rightarrow>
          if ans_status r = TOO_SOON then (Inl FioTooSoon, st)
          else if \<not> (200 \<le> ans_status r \<and> ans_status r \<le> 299) then (Inl (FioAnswered (ans_status r)), st)
          else (case ans_json r of
                  None \<Rightarrow> (Inl FioNotJson, st)
                | Some said \<Rightarrow>
                    (case fio_statement_of cfg fl shortest date_parse said of
                       Inl e \<Rightarrow> (Inl e, st)
                     | Inr credits \<Rightarrow> (Inr credits, st\<lparr>last_credits := credits\<rparr>))))"

subsection \<open>No token is asked twice in its window\<close>

text \<open>What may happen: a read is asked for at a time, and an answer comes to one that was sent.\<close>

datatype fio_event = ReadAt int int | AnswerComes "fio_answer option"

definition fio_happens :: "fio_config \<Rightarrow> rounding \<Rightarrow> (rat \<Rightarrow> string) \<Rightarrow> (string \<Rightarrow> int option) \<Rightarrow> fio_event \<Rightarrow>
    fio \<times> (string \<times> int) list \<Rightarrow> fio \<times> (string \<times> int) list" where
  "fio_happens cfg fl shortest date_parse e run =
     (case (e, run) of
        (ReadAt now from_when, (st, asked)) \<Rightarrow>
          (case fio_begin cfg fl now from_when st of
             (Fetches token _, st') \<Rightarrow> (st', asked @ [(token, now)])
           | (LastAnswer _, st') \<Rightarrow> (st', asked))
      | (AnswerComes answer, (st, asked)) \<Rightarrow> (snd (fio_answered cfg fl shortest date_parse answer st), asked))"

definition fio_spaced :: "rat \<Rightarrow> rat \<Rightarrow> string \<times> int \<Rightarrow> string \<times> int \<Rightarrow> bool" where
  "fio_spaced window between a b \<longleftrightarrow> between \<le> of_int (snd b - snd a) \<and> (fst a = fst b \<longrightarrow> window \<le> of_int (snd b - snd a))"

text \<open>Every request is remembered by its token, and the last one bounds them all.\<close>

definition fio_ok :: "fio_config \<Rightarrow> rounding \<Rightarrow> nat \<Rightarrow> fio \<times> (string \<times> int) list \<Rightarrow> bool" where
  "fio_ok cfg fl n run \<longleftrightarrow>
     (case run of (st, asked) \<Rightarrow>
        length (used_at st) = n \<and> used_at st \<noteq> [] \<and> distinct (map fst (used_at st)) \<and>
        (\<forall>(token, t)\<in>set asked. \<exists>u. (token, Some u) \<in> set (used_at st) \<and> t \<le> u) \<and>
        (\<forall>(token, t)\<in>set asked. \<exists>l. last_read st = Some l \<and> t \<le> l) \<and>
        sorted_wrt (fio_spaced (token_window cfg fl) (pace cfg fl n)) asked)"

lemma longestUnused_in: "used \<noteq> [] \<Longrightarrow> longestUnused used \<in> set used"
proof -
  have best: "fold (\<lambda>candidate best. if earlier (snd candidate) (snd best) then candidate else best) others first \<in> set (first # others)" for first others
    by (induction others arbitrary: first) auto
  assume "used \<noteq> []"
  then obtain first others where "used = first # others" by (cases used) auto
  with best [of others first] show ?thesis by (simp only: longestUnused_def list.case)
qed

lemma fio_answered_keeps:
  "used_at (snd (fio_answered cfg fl shortest date_parse answer st)) = used_at st \<and>
   last_read (snd (fio_answered cfg fl shortest date_parse answer st)) = last_read st"
  by (auto simp: fio_answered_def split: option.split sum.split)

lemma fio_ok_happens:
  assumes "fio_ok cfg fl n run" "0 \<le> pace cfg fl n"
  shows "fio_ok cfg fl n (fio_happens cfg fl shortest date_parse e run)"
proof -
  obtain st asked where run: "run = (st, asked)" by fastforce
  show ?thesis
  proof (cases e)
    case (AnswerComes answer)
    then show ?thesis using assms fio_answered_keeps [of cfg fl shortest date_parse answer st] by (simp add: fio_happens_def run fio_ok_def)
  next
    case (ReadAt now from_when)
    obtain token used where idle: "longestUnused (used_at st) = (token, used)" by fastforce
    have ok: "length (used_at st) = n" "used_at st \<noteq> []" "distinct (map fst (used_at st))"
      "\<And>one t. (one, t) \<in> set asked \<Longrightarrow> \<exists>u. (one, Some u) \<in> set (used_at st) \<and> t \<le> u"
      "\<And>one t. (one, t) \<in> set asked \<Longrightarrow> \<exists>l. last_read st = Some l \<and> t \<le> l"
      "sorted_wrt (fio_spaced (token_window cfg fl) (pace cfg fl n)) asked"
      using assms(1) by (auto simp: fio_ok_def run)
    show ?thesis
    proof (cases "in_span now (last_read st) (pace cfg fl n) \<or> in_span now used (token_window cfg fl)")
      case True
      then have "fio_happens cfg fl shortest date_parse e run = run"
        by (auto simp: fio_happens_def ReadAt run fio_begin_def ok(1) idle)
      then show ?thesis using assms(1) by simp
    next
      case False
      define used' where "used' = map (\<lambda>(t, u). (t, if t = token then Some now else u)) (used_at st)"
      have happens: "fio_happens cfg fl shortest date_parse e run = (st\<lparr>used_at := used', last_read := Some now\<rparr>, asked @ [(token, now)])"
        using False by (simp add: fio_happens_def ReadAt run fio_begin_def ok(1) idle used'_def)
      have mem: "(token, used) \<in> set (used_at st)" using longestUnused_in [OF ok(2)] by (simp add: idle)
      have far: "pace cfg fl n \<le> of_int (now - t)" "t \<le> now" if "(one, t) \<in> set asked" for one t
      proof -
        from ok(5) [OF that] obtain l where l: "last_read st = Some l" "t \<le> l" by blast
        have "pace cfg fl n \<le> of_int (now - l)" using False l(1) by (simp add: in_span_def not_less)
        moreover have "rat_of_int (now - l) \<le> of_int (now - t)" using l(2) by (simp only: of_int_le_iff)
        ultimately show "pace cfg fl n \<le> of_int (now - t)" by (rule order_trans)
        then have "0 \<le> rat_of_int (now - t)" using assms(2) by (rule order_trans [rotated])
        then show "t \<le> now" by (simp only: of_int_0_le_iff)
      qed
      have rested: "token_window cfg fl \<le> of_int (now - t)" if "(token, t) \<in> set asked" for t
      proof -
        from ok(4) [OF that] obtain u where u: "(token, Some u) \<in> set (used_at st)" "t \<le> u" by blast
        have "used = Some u" using ok(3) mem u(1) by (metis eq_key_imp_eq_value)
        then have "token_window cfg fl \<le> of_int (now - u)" using False by (simp add: in_span_def not_less)
        moreover have "rat_of_int (now - u) \<le> of_int (now - t)" using u(2) by (simp only: of_int_le_iff)
        ultimately show ?thesis by (rule order_trans)
      qed
      have "map fst used' = map fst (used_at st)" by (simp add: used'_def comp_def case_prod_beta)
      then have "length used' = n" "used' \<noteq> []" "distinct (map fst used')"
        using ok(1-3) by (metis length_map, metis list.map_disc_iff, metis)
      moreover have "\<exists>u. (one, Some u) \<in> set used' \<and> t \<le> u" if "(one, t) \<in> set (asked @ [(token, now)])" for one t
      proof (cases "one = token")
        case True
        then show ?thesis using mem far(2) that by (force simp: image_iff used'_def)
      next
        case False
        then have "(one, t) \<in> set asked" using that by auto
        with ok(4) obtain u where "(one, Some u) \<in> set (used_at st)" "t \<le> u" by blast
        with False show ?thesis by (force simp: image_iff used'_def)
      qed
      moreover have "sorted_wrt (fio_spaced (token_window cfg fl) (pace cfg fl n)) (asked @ [(token, now)])"
        using ok(6) far(1) rested by (auto simp: sorted_wrt_append fio_spaced_def)
      ultimately show ?thesis using far(2) unfolding happens by (auto simp: fio_ok_def)
    qed
  qed
qed

lemma fio_ok_unused: "named \<noteq> [] \<Longrightarrow> fio_ok cfg fl (length (used_at (fio_unused named))) (fio_unused named, [])"
  by (simp add: fio_ok_def fio_unused_def comp_def)

text \<open>
  C36: no token is asked twice in its window. However often and whenever a statement is read, and whatever
  the bank answers in between, two requests with one token are at least the window apart, and any two requests
  at least the window divided by the number of tokens.
\<close>

theorem fio_token_rests:
  assumes "fioStatement cfg = Inr st" "0 \<le> pace cfg fl (length (used_at st))"
  shows "sorted_wrt (fio_spaced (token_window cfg fl) (pace cfg fl (length (used_at st))))
    (snd (fold (fio_happens cfg fl shortest date_parse) es (st, [])))"
proof -
  have "st = fio_unused (fio_tokens cfg)" "fio_tokens cfg \<noteq> []" using assms(1) by (auto simp: fioStatement_def split: if_splits)
  then have "fio_ok cfg fl (length (used_at st)) (st, [])" using fio_ok_unused by simp
  then have "fio_ok cfg fl (length (used_at st)) (fold (fio_happens cfg fl shortest date_parse) es (st, []))"
    using fio_ok_happens [OF _ assms(2)] by (induction es rule: rev_induct) auto
  then show ?thesis by (auto simp: fio_ok_def split: prod.splits)
qed

subsection \<open>Whose credits they are\<close>

definition account_named :: "json \<Rightarrow> string option" where
  "account_named said =
     (case said_member said ''accountStatement'' of
        Inl _ \<Rightarrow> None | Inr statement \<Rightarrow> json_string (optional_member (optional_member statement ''info'') ''iban''))"

lemma numberIn_not_negative:
  assumes "ieee fl" "0 < x"
  shows "\<not> double_less (minor_of fl x) (Finite 0)"
proof -
  have "0 \<le> x * MINOR_UNITS" using assms(2) by (simp add: MINOR_UNITS_def)
  then have "fl 0 \<le> fl (x * MINOR_UNITS)" using assms(1) by (simp add: ieee_def mono_def)
  moreover have "fl (of_int 0) = of_int 0" using assms(1) unfolding ieee_def by (metis abs_zero zero_le_numeral zero_le_power)
  ultimately have "0 \<le> math_round (fl (x * MINOR_UNITS))" by (simp add: math_round_def)
  moreover have "- OVERFLOW < 0" by (simp add: OVERFLOW_def)
  with \<open>0 \<le> x * MINOR_UNITS\<close> have "\<not> x * MINOR_UNITS \<le> - OVERFLOW" by linarith
  ultimately show ?thesis by (simp add: minor_of_def)
qed

lemma fio_credits_came_in:
  assumes "fio_credits fl shortest date_parse listed_there = Inr credits" "ieee fl" "one \<in> set credits"
  shows "\<not> double_less (credit_minor one) (Finite 0)"
  using assms(1,3) numberIn_not_negative [OF assms(2)]
  by (auto simp: fio_credits_def asCredit_def isCredit_def split: if_splits option.splits json.splits)

lemma reads_account_InrD:
  assumes "reads_account cfg reads = Inr True" "fio_iban cfg = Some wanted" "IBAN (accountOf wanted)"
  shows "\<exists>named. json_string reads = Some named \<and> accountOf named = accountOf wanted"
proof -
  have "accountOf wanted \<noteq> []" using assms(3) IBAN_clean by blast
  moreover have "accountOf [] = []" by (simp add: accountOf_def)
  ultimately show ?thesis using assms(1,2) by (auto simp: reads_account_def split: option.splits if_splits)
qed

text \<open>
  Only the configured account's own credits are taken. A read that succeeds was answered with success by the
  account that is configured, whatever spaces and case its number is written in, and gives credits that came in; a
  read that fails, over the status, the text or another account, leaves what the next reads hand back as it was.
\<close>

theorem fio_takes_its_own_account:
  assumes "fio_answered cfg fl shortest date_parse answer st = (got, st')" "fio_iban cfg = Some wanted" "IBAN (accountOf wanted)" "ieee fl"
  shows "case got of
      Inl e \<Rightarrow> st' = st
    | Inr credits \<Rightarrow> last_credits st' = credits \<and> (\<forall>one\<in>set credits. \<not> double_less (credit_minor one) (Finite 0)) \<and>
        (\<exists>r said named. answer = Some r \<and> 200 \<le> ans_status r \<and> ans_status r \<le> 299 \<and> ans_json r = Some said \<and>
           account_named said = Some named \<and> accountOf named = accountOf wanted)"
proof (cases got)
  case (Inl e)
  then show ?thesis using assms(1) by (auto simp: fio_answered_def split: option.splits if_splits sum.splits)
next
  case (Inr credits)
  then obtain r said where answered: "answer = Some r" "200 \<le> ans_status r" "ans_status r \<le> 299" "ans_json r = Some said"
    "fio_statement_of cfg fl shortest date_parse said = Inr credits" "last_credits st' = credits"
    using assms(1) by (auto simp: fio_answered_def split: option.splits if_splits sum.splits)
  then obtain statement where statement: "said_member said ''accountStatement'' = Inr statement"
    "reads_account cfg (optional_member (optional_member statement ''info'') ''iban'') = Inr True"
    "fio_credits fl shortest date_parse (optional_member (optional_member statement ''transactionList'') ''transaction'') = Inr credits"
    by (auto simp: fio_statement_of_def split: sum.splits if_splits)
  from reads_account_InrD [OF statement(2) assms(2,3)] fio_credits_came_in [OF statement(3) assms(4)] answered statement(1) Inr
  show ?thesis by (auto simp: account_named_def)
qed

subsection \<open>An account at work\<close>

definition fio_here :: fio_config where
  "fio_here = \<lparr>fio_tokens = [''a'', ''b''], fio_minIntervalSecs = None, fio_iban = Some ''cz65 0800 0000 1920 0014 5399'', fio_baseUrl = None\<rparr>"

lemma fio_token_rests_witness:
  "let asked = snd (fold (fio_happens fio_here id (\<lambda>_. ''?'') (\<lambda>_. None)) [ReadAt 0 0, ReadAt 14999 0, ReadAt 15000 0, ReadAt 30000 0] (fio_unused [''a'', ''b''], []))
   in asked = [(''a'', 0), (''b'', 15000), (''a'', 30000)] \<and> sorted_wrt (fio_spaced 30000 15000) asked"
proof -
  have spans: "token_window fio_here id = 30000" "pace fio_here id 2 = 15000"
    by (simp_all add: token_window_def pace_def fio_here_def DEFAULT_MIN_INTERVAL_SECS_def MILLIS_def)
  have made: "fioStatement fio_here = Inr (fio_unused [''a'', ''b''])" by (simp add: fioStatement_def fio_here_def)
  have two: "length (used_at (fio_unused [''a'', ''b''])) = 2" by (simp add: fio_unused_def)
  have "snd (fold (fio_happens fio_here id (\<lambda>_. ''?'') (\<lambda>_. None)) [ReadAt 0 0, ReadAt 14999 0, ReadAt 15000 0, ReadAt 30000 0]
      (fio_unused [''a'', ''b''], [])) = [(''a'', 0), (''b'', 15000), (''a'', 30000)]"
    by (simp add: fio_happens_def fio_begin_def fio_unused_def in_span_def longestUnused_def spans [unfolded id_def numeral_2_eq_2] id_def)
  moreover have "sorted_wrt (fio_spaced 30000 15000) (snd (fold (fio_happens fio_here id (\<lambda>_. ''?'') (\<lambda>_. None))
      [ReadAt 0 0, ReadAt 14999 0, ReadAt 15000 0, ReadAt 30000 0] (fio_unused [''a'', ''b''], [])))"
    using fio_token_rests [OF made, of id "\<lambda>_. ''?''" "\<lambda>_. None"] by (simp only: two spans)
  ultimately show ?thesis by (simp only: Let_def)
qed

definition fio_said :: json where
  "fio_said = JObj [(''accountStatement'', JObj
     [(''info'', JObj [(''iban'', JStr ''CZ6508000000192000145399'')]),
      (''transactionList'', JObj [(''transaction'', JArr [JObj [(''column1'', JObj [(''value'', JNum 7)])]])])])]"

lemma fio_takes_its_own_account_witness:
  "\<exists>credits st'. fio_answered fio_here id (\<lambda>_. ''?'') (\<lambda>_. None) (Some \<lparr>ans_status = 200, ans_json = Some fio_said\<rparr>) (fio_unused [''a'', ''b'']) =
     (Inr credits, st') \<and> last_credits st' = credits \<and> (\<forall>one\<in>set credits. \<not> double_less (credit_minor one) (Finite 0)) \<and> credits \<noteq> []"
proof -
  have "accountOf ''cz65 0800 0000 1920 0014 5399'' = ''CZ6508000000192000145399''" "accountOf ''CZ6508000000192000145399'' = ''CZ6508000000192000145399''"
    by code_simp+
  then have "\<exists>credits st'. fio_answered fio_here id (\<lambda>_. ''?'') (\<lambda>_. None) (Some \<lparr>ans_status = 200, ans_json = Some fio_said\<rparr>)
      (fio_unused [''a'', ''b'']) = (Inr credits, st') \<and> credits \<noteq> []"
    by (simp add: fio_answered_def TOO_SOON_def fio_statement_of_def fio_said_def reads_account_def fio_here_def missing_def fio_credits_def
        isCredit_def AMOUNT_def numberIn_def OVERFLOW_def)
  then obtain credits st' where answered: "fio_answered fio_here id (\<lambda>_. ''?'') (\<lambda>_. None) (Some \<lparr>ans_status = 200, ans_json = Some fio_said\<rparr>)
      (fio_unused [''a'', ''b'']) = (Inr credits, st')" "credits \<noteq> []" by blast
  have "fio_iban fio_here = Some ''cz65 0800 0000 1920 0014 5399''" "IBAN (accountOf ''cz65 0800 0000 1920 0014 5399'')"
    by (simp add: fio_here_def) code_simp
  from fio_takes_its_own_account [OF answered(1) this ieee_id] answered show ?thesis by auto
qed

end
