(* ===== verification/Nostr.thy ===== *)
theory Nostr
  imports Sealed JsonText
begin

text \<open>
  \<^verbatim>\<open>sdk/src/nostr.ts\<close>: events signed and hashed the way NIP-01 says, and the messages of NIP-44. The curve, the
  cipher, the hash and its key derivation are packages, here the fields of a record; the layout of a message, its
  padding and its checks are the code's. The lemmas show that a message reads back, how much its length still says,
  and that an event that was signed verifies.
\<close>

definition NIP44_SALT :: bytes where "NIP44_SALT = utf8 ''nip44-v2''"
definition NIP44_VERSION :: "8 word" where "NIP44_VERSION = 2"
definition NIP44_NONCE_BYTES :: nat where "NIP44_NONCE_BYTES = 32"
definition MAC_BYTES :: nat where "MAC_BYTES = 32"
definition MESSAGE_KEYS_BYTES :: nat where "MESSAGE_KEYS_BYTES = 76"
definition CHACHA_KEY_END :: nat where "CHACHA_KEY_END = 32"
definition CHACHA_NONCE_END :: nat where "CHACHA_NONCE_END = 44"
definition LENGTH_PREFIX_BYTES :: nat where "LENGTH_PREFIX_BYTES = 2"
definition SMALLEST_PAD :: nat where "SMALLEST_PAD = 32"
definition CHUNKS_STAY_SMALL_TO :: nat where "CHUNKS_STAY_SMALL_TO = 256"
definition MAX_PLAINTEXT_BYTES :: nat where "MAX_PLAINTEXT_BYTES = 65535"

text \<open>What throws on bytes that are no key is \<^const>\<open>None\<close>; a signature that cannot be read does not verify.\<close>

record nostr =
  schnorr_public :: "bytes \<Rightarrow> bytes option"
  schnorr_sign :: "bytes \<Rightarrow> bytes \<Rightarrow> bytes option"
  schnorr_verify :: "bytes \<Rightarrow> bytes \<Rightarrow> bytes \<Rightarrow> bool"
  shared_secret :: "bytes \<Rightarrow> bytes \<Rightarrow> bytes option"
  noble_sha256 :: "bytes \<Rightarrow> bytes"
  noble_hmac :: "bytes \<Rightarrow> bytes \<Rightarrow> bytes"
  hkdf_extract :: "bytes \<Rightarrow> bytes \<Rightarrow> bytes"
  hkdf_expand :: "bytes \<Rightarrow> bytes \<Rightarrow> nat \<Rightarrow> bytes"
  chacha20 :: "bytes \<Rightarrow> bytes \<Rightarrow> bytes \<Rightarrow> bytes"
  nostr_text :: "bytes \<Rightarrow> string"

subsection \<open>Keys and events\<close>

definition publicKeyFor :: "nostr \<Rightarrow> string \<Rightarrow> string option" where
  "publicKeyFor k privateKeyHex = map_option bytesToHex (schnorr_public k (hexToBytes privateKeyHex))"

definition conversationKeyFor :: "nostr \<Rightarrow> string \<Rightarrow> string \<Rightarrow> bytes option" where
  "conversationKeyFor k privateKeyHex publicKeyHex =
     map_option (\<lambda>shared. hkdf_extract k (slice 1 33 shared) NIP44_SALT)
       (shared_secret k (hexToBytes privateKeyHex) (hexToBytes (''02'' @ publicKeyHex)))"

record event_draft =
  draft_kind :: int
  draft_tags :: "string list list"
  draft_content :: string
  draft_created_at :: int

type_synonym event = "(string \<times> json) list"

text \<open>A member that is absent is written as \<^verbatim>\<open>null\<close> in an array.\<close>

definition member_or_null :: "event \<Rightarrow> string \<Rightarrow> json" where
  "member_or_null ms name = (case field ms name of None \<Rightarrow> JNull | Some v \<Rightarrow> v)"

definition idOf :: "nostr \<Rightarrow> json \<Rightarrow> event \<Rightarrow> string" where
  "idOf k pubkey ms =
     bytesToHex (noble_sha256 k (utf8 (stringify (JArr
       [JNum 0, pubkey, member_or_null ms ''created_at'', member_or_null ms ''kind'', member_or_null ms ''tags'', member_or_null ms ''content'']))))"

definition draft_event :: "event_draft \<Rightarrow> event" where
  "draft_event d =
     [(''created_at'', JNum (draft_created_at d)), (''kind'', JNum (draft_kind d)),
      (''tags'', JArr (map (\<lambda>tag. JArr (map JStr tag)) (draft_tags d))), (''content'', JStr (draft_content d))]"

definition signEvent :: "nostr \<Rightarrow> string \<Rightarrow> event_draft \<Rightarrow> event option" where
  "signEvent k privateKeyHex d =
     Option.bind (publicKeyFor k privateKeyHex) (\<lambda>pubkey.
       (let eid = idOf k (JStr pubkey) (draft_event d)
        in map_option (\<lambda>sig.
             [(''id'', JStr eid), (''pubkey'', JStr pubkey)] @ draft_event d @ [(''sig'', JStr (bytesToHex sig))])
             (schnorr_sign k (hexToBytes eid) (hexToBytes privateKeyHex))))"

text \<open>An event as a relay hands it over: any members. A name, key or signature that is no text is none.\<close>

definition verifyEvent :: "nostr \<Rightarrow> event \<Rightarrow> bool" where
  "verifyEvent k ms \<longleftrightarrow>
     (case (field ms ''id'', field ms ''pubkey'', field ms ''sig'') of
        (Some (JStr eid), Some (JStr pubkey), Some (JStr sig)) \<Rightarrow>
          idOf k (JStr pubkey) ms = eid \<and> schnorr_verify k (hexToBytes sig) (hexToBytes eid) (hexToBytes pubkey)
      | _ \<Rightarrow> False)"

subsection \<open>Padding\<close>

text \<open>\<^verbatim>\<open>Math.floor(Math.log2(n))\<close> of a whole number above zero.\<close>

fun log2_floor :: "nat \<Rightarrow> nat" where
  "log2_floor n = (if n \<le> 1 then 0 else Suc (log2_floor (n div 2)))"

declare log2_floor.simps [simp del]

definition paddedLengthFor :: "nat \<Rightarrow> nat" where
  "paddedLengthFor unpadded =
     (if unpadded \<le> SMALLEST_PAD then SMALLEST_PAD
      else let nextPower = 2 ^ (log2_floor (unpadded - 1) + 1);
               chunk = (if nextPower \<le> CHUNKS_STAY_SMALL_TO then SMALLEST_PAD else nextPower div 8)
           in chunk * ((unpadded - 1) div chunk + 1))"

datatype nip44_error =
    WrongKeyLength
  | WrongPlainLength nat
  | OtherScheme
  | NotBase64
  | TooShort nat
  | OtherVersion
  | WrongMac
  | WrongPadding

definition pad44 :: "string \<Rightarrow> nip44_error + bytes" where
  "pad44 plaintext =
     (let body = utf8 plaintext; n = length body
      in if n = 0 \<or> MAX_PLAINTEXT_BYTES < n then Inl (WrongPlainLength n)
         else Inr ([of_nat (n div 256), of_nat (n mod 256)] @ body @ replicate (paddedLengthFor n - n) 0))"

definition unpad44 :: "nostr \<Rightarrow> bytes \<Rightarrow> nip44_error + string" where
  "unpad44 k buffer =
     (let first = (case buffer of b # _ \<Rightarrow> unat b | [] \<Rightarrow> 0); second = (case buffer of _ # b # _ \<Rightarrow> unat b | _ \<Rightarrow> 0);
          n = first * 256 + second
      in if n = 0 \<or> length buffer \<noteq> LENGTH_PREFIX_BYTES + paddedLengthFor n then Inl WrongPadding
         else Inr (nostr_text k (slice LENGTH_PREFIX_BYTES (LENGTH_PREFIX_BYTES + n) buffer)))"

subsection \<open>Messages\<close>

record message_keys =
  chacha_key :: bytes
  chacha_nonce :: bytes
  mac_key :: bytes

definition messageKeysFrom :: "nostr \<Rightarrow> bytes \<Rightarrow> bytes \<Rightarrow> nip44_error + message_keys" where
  "messageKeysFrom k conversationKey nonce =
     (if length conversationKey \<noteq> NIP44_NONCE_BYTES \<or> length nonce \<noteq> NIP44_NONCE_BYTES then Inl WrongKeyLength
      else let keys = hkdf_expand k conversationKey nonce MESSAGE_KEYS_BYTES
           in Inr \<lparr>chacha_key = slice 0 CHACHA_KEY_END keys, chacha_nonce = slice CHACHA_KEY_END CHACHA_NONCE_END keys,
                   mac_key = drop CHACHA_NONCE_END keys\<rparr>)"

text \<open>\<^verbatim>\<open>sameBytes\<close>: the differences of the lengths and of the bytes that both have are gathered with \<^verbatim>\<open>|=\<close>.\<close>

definition sameBytes :: "bytes \<Rightarrow> bytes \<Rightarrow> bool" where
  "sameBytes left right =
     (fold (\<lambda>(a, b) different. different OR ucast (a XOR b)) (zip left right)
        (of_nat (length left) XOR of_nat (length right) :: 32 word) = 0)"

definition sealNip44 :: "nostr \<Rightarrow> bytes \<Rightarrow> string \<Rightarrow> bytes \<Rightarrow> nip44_error + string" where
  "sealNip44 k conversationKey plaintext nonce =
     and_then (messageKeysFrom k conversationKey nonce) (\<lambda>keys.
     and_then (pad44 plaintext) (\<lambda>body.
       (let ciphertext = chacha20 k (chacha_key keys) (chacha_nonce keys) body;
            mac = noble_hmac k (mac_key keys) (nonce @ ciphertext)
        in Inr (btoa ([NIP44_VERSION] @ nonce @ ciphertext @ mac)))))"

definition encryptNip44 :: "nostr \<Rightarrow> bytes \<Rightarrow> bytes \<Rightarrow> string \<Rightarrow> nip44_error + string" where
  "encryptNip44 k drawn conversationKey plaintext = sealNip44 k conversationKey plaintext (take NIP44_NONCE_BYTES drawn)"

definition decryptNip44 :: "nostr \<Rightarrow> bytes \<Rightarrow> string \<Rightarrow> nip44_error + string" where
  "decryptNip44 k conversationKey payload =
     (if starts_with ''#'' payload then Inl OtherScheme
      else (case atob payload of
              None \<Rightarrow> Inl NotBase64
            | Some raw \<Rightarrow>
                if length raw < 1 + NIP44_NONCE_BYTES + MAC_BYTES then Inl (TooShort (length raw))
                else if hd raw \<noteq> NIP44_VERSION then Inl OtherVersion
                else (let nonce = slice 1 (1 + NIP44_NONCE_BYTES) raw;
                          ciphertext = slice (1 + NIP44_NONCE_BYTES) (length raw - MAC_BYTES) raw;
                          mac = drop (length raw - MAC_BYTES) raw
                      in and_then (messageKeysFrom k conversationKey nonce) (\<lambda>keys.
                           if \<not> sameBytes (noble_hmac k (mac_key keys) (nonce @ ciphertext)) mac then Inl WrongMac
                           else unpad44 k (chacha20 k (chacha_key keys) (chacha_nonce keys) ciphertext)))))"

subsection \<open>How long a padded text is\<close>

lemma log2_floor_bounds: "0 < n \<Longrightarrow> 2 ^ log2_floor n \<le> n \<and> n < 2 ^ Suc (log2_floor n)"
proof (induction n rule: log2_floor.induct)
  case (1 n)
  show ?case
  proof (cases "n \<le> 1")
    case True
    with 1(2) have "n = 1" by simp
    then show ?thesis by (simp add: log2_floor.simps)
  next
    case False
    then have "2 ^ log2_floor (n div 2) \<le> n div 2 \<and> n div 2 < 2 ^ Suc (log2_floor (n div 2))" using 1 by simp
    then show ?thesis using False by (subst (1 2) log2_floor.simps) auto
  qed
qed

definition chunk_log :: "nat \<Rightarrow> nat" where
  "chunk_log l = (if l \<le> 7 then 5 else l - 2)"

lemma paddedLengthFor_large:
  assumes "32 < n"
  obtains l where "5 \<le> l" "2 ^ l \<le> n - 1" "n - 1 < 2 ^ Suc l" "l = log2_floor (n - 1)"
    "paddedLengthFor n = 2 ^ chunk_log l * ((n - 1) div 2 ^ chunk_log l + 1)"
proof -
  let ?l = "log2_floor (n - 1)"
  have bounds: "2 ^ ?l \<le> n - 1" "n - 1 < 2 ^ Suc ?l" using log2_floor_bounds [of "n - 1"] assms by auto
  have "(2 :: nat) ^ 5 < 2 ^ Suc ?l" using bounds(2) assms by simp
  then have five: "5 \<le> ?l" using power_less_imp_less_exp [of "2 :: nat" 5 "Suc ?l"] by simp
  have "(2 :: nat) ^ (?l + 1) \<le> 256 \<longleftrightarrow> ?l \<le> 7"
    using power_le_imp_le_exp [of "2 :: nat" "?l + 1" 8] power_increasing [of "?l + 1" 8 "2 :: nat"] by auto
  moreover have "(2 :: nat) ^ (?l + 1) div 8 = 2 ^ (?l - 2)"
    using five power_add [of "2 :: nat" 3 "?l - 2"] by simp
  ultimately have "paddedLengthFor n = 2 ^ chunk_log ?l * ((n - 1) div 2 ^ chunk_log ?l + 1)"
    using assms by (simp add: paddedLengthFor_def SMALLEST_PAD_def CHUNKS_STAY_SMALL_TO_def chunk_log_def Let_def)
  with bounds five that show ?thesis by blast
qed

lemma chunk_up: "0 < c \<Longrightarrow> (n :: nat) < c * (n div c + 1) \<and> c * (n div c + 1) \<le> n + c"
proof -
  assume "0 < c"
  then have "n mod c < c" by simp
  moreover have "c * (n div c + 1) = c * (n div c) + c" by simp
  moreover have "c * (n div c) + n mod c = n" by (rule mult_div_mod_eq)
  ultimately show ?thesis by linarith
qed

lemma paddedLengthFor_covers: "n \<le> paddedLengthFor n"
proof (cases "32 < n")
  case True
  then obtain l where "paddedLengthFor n = 2 ^ chunk_log l * ((n - 1) div 2 ^ chunk_log l + 1)" by (rule paddedLengthFor_large)
  with chunk_up [of "2 ^ chunk_log l" "n - 1"] show ?thesis by simp
qed (simp add: paddedLengthFor_def SMALLEST_PAD_def)

lemma paddedLengthFor_within_power:
  assumes "32 < n"
  shows "paddedLengthFor n \<le> 2 ^ Suc (log2_floor (n - 1))"
proof -
  obtain l where l: "5 \<le> l" "n - 1 < 2 ^ Suc l" "l = log2_floor (n - 1)"
    "paddedLengthFor n = 2 ^ chunk_log l * ((n - 1) div 2 ^ chunk_log l + 1)" using assms by (rule paddedLengthFor_large)
  have "chunk_log l \<le> Suc l" using l(1) by (auto simp: chunk_log_def)
  then have split: "(2 :: nat) ^ Suc l = 2 ^ chunk_log l * 2 ^ (Suc l - chunk_log l)" by (metis le_add_diff_inverse power_add)
  then have "(n - 1) div 2 ^ chunk_log l < 2 ^ (Suc l - chunk_log l)" using l(2) by (simp add: less_mult_imp_div_less mult.commute)
  then have "2 ^ chunk_log l * ((n - 1) div 2 ^ chunk_log l + 1) \<le> 2 ^ chunk_log l * 2 ^ (Suc l - chunk_log l)"
    by (intro mult_le_mono2) simp
  then show ?thesis using split l(3,4) by metis
qed

lemma paddedLengthFor_mono:
  assumes "n \<le> m"
  shows "paddedLengthFor n \<le> paddedLengthFor m"
proof (cases "32 < n")
  case False
  then have "paddedLengthFor n = 32" by (simp add: paddedLengthFor_def SMALLEST_PAD_def)
  moreover have "32 \<le> paddedLengthFor m"
    using paddedLengthFor_covers [of m] by (cases "32 < m") (simp_all add: paddedLengthFor_def SMALLEST_PAD_def)
  ultimately show ?thesis by simp
next
  case True
  then have "32 < m" using assms by simp
  obtain l where l: "2 ^ l \<le> n - 1" "l = log2_floor (n - 1)" "paddedLengthFor n = 2 ^ chunk_log l * ((n - 1) div 2 ^ chunk_log l + 1)"
    using True by (rule paddedLengthFor_large)
  obtain k where k: "2 ^ k \<le> m - 1" "m - 1 < 2 ^ Suc k" "k = log2_floor (m - 1)"
    "paddedLengthFor m = 2 ^ chunk_log k * ((m - 1) div 2 ^ chunk_log k + 1)"
    using \<open>32 < m\<close> by (rule paddedLengthFor_large)
  have "(2 :: nat) ^ l < 2 ^ Suc k" using l(1) k(2) assms by linarith
  then have "l < Suc k" by (rule power_less_imp_less_exp [rotated]) simp
  then have "l \<le> k" by simp
  show ?thesis
  proof (cases "l = k")
    case True
    have "(n - 1) div 2 ^ chunk_log k \<le> (m - 1) div 2 ^ chunk_log k" using assms by (intro div_le_mono) simp
    then show ?thesis using l(3) k(4) True by simp
  next
    case False
    then have "(2 :: nat) ^ Suc l \<le> 2 ^ k" using \<open>l \<le> k\<close> by (intro power_increasing) auto
    then show ?thesis
      using paddedLengthFor_within_power [OF \<open>32 < n\<close>] l(2) k(1) paddedLengthFor_covers [of m] by simp
  qed
qed

text \<open>
  What the length of a padded text still says. The padded length covers the text and is a multiple of thirty-two
  that depends on the length alone; it adds less than a quarter to a text of more than two hundred and fifty-six
  bytes, and at most thirty-one bytes to a shorter one; and a longer text is never padded to less.
\<close>

theorem paddedLengthFor_bounds:
  assumes "0 < n"
  shows "n \<le> paddedLengthFor n \<and> 32 dvd paddedLengthFor n \<and>
    (n \<le> 256 \<longrightarrow> paddedLengthFor n \<le> n + 31) \<and> (256 < n \<longrightarrow> 4 * paddedLengthFor n < 5 * n) \<and>
    (\<forall>m\<ge>n. paddedLengthFor n \<le> paddedLengthFor m)"
proof (cases "32 < n")
  case False
  then have "paddedLengthFor n = 32" by (simp add: paddedLengthFor_def SMALLEST_PAD_def)
  then show ?thesis using assms paddedLengthFor_covers [of n] paddedLengthFor_mono [of n] False by auto
next
  case True
  then obtain l where l: "5 \<le> l" "2 ^ l \<le> n - 1" "n - 1 < 2 ^ Suc l"
    "paddedLengthFor n = 2 ^ chunk_log l * ((n - 1) div 2 ^ chunk_log l + 1)" by (rule paddedLengthFor_large)
  have five: "5 \<le> chunk_log l" using l(1) by (auto simp: chunk_log_def)
  have "32 dvd paddedLengthFor n" using le_imp_power_dvd [OF five, of "2 :: nat"] l(4) by (simp add: dvd_mult2)
  moreover have "paddedLengthFor n \<le> n + 31" if "n \<le> 256"
  proof -
    have "(2 :: nat) ^ l < 2 ^ 8" using l(2) that by simp
    then have "l < 8" by (rule power_less_imp_less_exp [rotated]) simp
    then have "chunk_log l = 5" by (simp add: chunk_log_def)
    then show ?thesis using chunk_up [of 32 "n - 1"] l(4) True by simp
  qed
  moreover have "4 * paddedLengthFor n < 5 * n" if "256 < n"
  proof -
    have "(2 :: nat) ^ 8 < 2 ^ Suc l" using l(3) that by simp
    then have eight: "8 \<le> l" using power_less_imp_less_exp [of "2 :: nat" 8 "Suc l"] by simp
    then obtain j where "l = 2 + j" by (metis le_Suc_ex le_trans numeral_le_iff semiring_norm(68,71,72))
    then have "(2 :: nat) ^ l = 4 * 2 ^ chunk_log l" using eight by (simp add: chunk_log_def power_add)
    moreover have "paddedLengthFor n \<le> n - 1 + 2 ^ chunk_log l" using chunk_up [of "2 ^ chunk_log l" "n - 1"] l(4) by simp
    ultimately show ?thesis using l(2) True by linarith
  qed
  ultimately show ?thesis using paddedLengthFor_covers paddedLengthFor_mono by blast
qed

subsection \<open>A message reads back\<close>

text \<open>What the packages promise: a cipher that undoes itself, tags of their length, a decoder of what the encoder wrote.\<close>

definition nostr_reads :: "nostr \<Rightarrow> bool" where
  "nostr_reads k \<longleftrightarrow>
     (\<forall>key nonce body. chacha20 k key nonce (chacha20 k key nonce body) = body) \<and>
     (\<forall>key nonce body. length (chacha20 k key nonce body) = length body) \<and>
     (\<forall>key body. length (noble_hmac k key body) = 32) \<and> (\<forall>s. nostr_text k (utf8 s) = s)"

lemma ucast_byte_eq_zero: "(ucast (b :: 8 word) :: 32 word) = 0 \<longleftrightarrow> b = 0"
  by transfer simp

lemma gathered: "fold (\<lambda>(a, b) different. different OR ucast (a XOR b)) ps (d :: 32 word) = 0 \<longleftrightarrow>
    d = 0 \<and> (\<forall>(a, b)\<in>set ps. a = (b :: 8 word))"
  by (induction ps arbitrary: d) (auto simp: or_eq_0_iff ucast_byte_eq_zero xor_word_eq_0_iff)

lemma sameBytes_iff:
  assumes "length left < 2 ^ 32" "length right < 2 ^ 32"
  shows "sameBytes left right \<longleftrightarrow> left = right"
proof -
  have "unat (of_nat (length left) :: 32 word) = length left" "unat (of_nat (length right) :: 32 word) = length right"
    using assms by (simp_all add: unat_of_nat_small)
  then have "(of_nat (length left) :: 32 word) = of_nat (length right) \<longleftrightarrow> length left = length right" by metis
  moreover have "length left = length right \<Longrightarrow> (\<forall>(a, b)\<in>set (zip left right). a = b) \<longleftrightarrow> left = right"
    by (auto simp: list_eq_iff_zip_eq)
  moreover have "sameBytes left right \<longleftrightarrow> (of_nat (length left) :: 32 word) = of_nat (length right) \<and> (\<forall>(a, b)\<in>set (zip left right). a = b)"
    unfolding sameBytes_def gathered xor_word_eq_0_iff by (rule refl)
  ultimately show ?thesis by metis
qed

lemma unpad_pad44:
  assumes "pad44 plaintext = Inr body" "\<forall>s. nostr_text k (utf8 s) = s"
  shows "unpad44 k body = Inr plaintext"
proof -
  let ?n = "length (utf8 plaintext)"
  have n: "0 < ?n" "?n \<le> 65535"
    and body: "body = [of_nat (?n div 256), of_nat (?n mod 256)] @ utf8 plaintext @ replicate (paddedLengthFor ?n - ?n) 0"
    using assms(1) by (auto simp: pad44_def Let_def MAX_PLAINTEXT_BYTES_def split: if_splits)
  have "?n div 256 < 256" using n(2) by simp
  then have "unat (of_nat (?n div 256) :: 8 word) = ?n div 256" "unat (of_nat (?n mod 256) :: 8 word) = ?n mod 256"
    by (simp_all add: unat_of_nat_small)
  then have said: "unat (of_nat (?n div 256) :: 8 word) * 256 + unat (of_nat (?n mod 256) :: 8 word) = ?n" by simp
  have "length body = LENGTH_PREFIX_BYTES + paddedLengthFor ?n"
    using body paddedLengthFor_covers [of ?n] by (simp add: LENGTH_PREFIX_BYTES_def)
  moreover have "slice LENGTH_PREFIX_BYTES (LENGTH_PREFIX_BYTES + ?n) body = utf8 plaintext"
    by (simp add: body slice_def LENGTH_PREFIX_BYTES_def)
  moreover have "(case body of b # _ \<Rightarrow> unat b | [] \<Rightarrow> 0) * 256 + (case body of _ # b # _ \<Rightarrow> unat b | _ \<Rightarrow> 0) = ?n"
    using said by (simp add: body)
  ultimately show ?thesis using n(1) assms(2) by (simp only: unpad44_def Let_def) simp
qed

lemma no_hash_in_btoa: "CHR ''#'' \<notin> set (btoa bs)"
proof -
  have "CHR ''#'' \<notin> set B64" by code_simp
  then have "CHR ''#'' \<noteq> B64 ! n" if "n < 64" for n using that nth_mem [of n B64] by auto
  then show ?thesis by (auto simp: btoa_def dest!: sextet_small)
qed

lemma sealNip44_opens:
  assumes "nostr_reads k" "length nonce = 32" "sealNip44 k key plaintext nonce = Inr payload"
  shows "decryptNip44 k key payload = Inr plaintext"
proof -
  obtain keys body where keys: "messageKeysFrom k key nonce = Inr keys" and body: "pad44 plaintext = Inr body"
    using assms(3) by (auto simp: sealNip44_def split: sum.splits)
  define ciphertext where "ciphertext = chacha20 k (chacha_key keys) (chacha_nonce keys) body"
  define mac where "mac = noble_hmac k (mac_key keys) (nonce @ ciphertext)"
  define raw where "raw = [NIP44_VERSION] @ nonce @ ciphertext @ mac"
  have sealed: "payload = btoa raw"
    using assms(3) by (simp add: sealNip44_def keys body Let_def raw_def mac_def ciphertext_def)
  have opened: "chacha20 k (chacha_key keys) (chacha_nonce keys) ciphertext = body" and mac: "length mac = 32"
    using assms(1) by (simp_all add: nostr_reads_def ciphertext_def mac_def)
  have split: "raw = ([NIP44_VERSION] @ nonce @ ciphertext) @ mac" by (simp add: raw_def)
  then have "length raw - MAC_BYTES = length ([NIP44_VERSION] @ nonce @ ciphertext)" by (simp add: MAC_BYTES_def mac)
  then have "drop (length raw - MAC_BYTES) raw = drop (length ([NIP44_VERSION] @ nonce @ ciphertext)) raw" by simp
  also have "\<dots> = mac" by (simp add: raw_def)
  finally have "drop (length raw - MAC_BYTES) raw = mac" .
  moreover have "hd raw = NIP44_VERSION" "slice 1 (1 + NIP44_NONCE_BYTES) raw = nonce"
    "slice (1 + NIP44_NONCE_BYTES) (length raw - MAC_BYTES) raw = ciphertext" "\<not> length raw < 1 + NIP44_NONCE_BYTES + MAC_BYTES"
    using assms(2) mac by (simp_all add: raw_def slice_def NIP44_NONCE_BYTES_def MAC_BYTES_def)
  moreover have "\<not> starts_with ''#'' (btoa raw)" using no_hash_in_btoa [of raw] by (auto simp: starts_with_def prefix_def)
  moreover have "sameBytes mac mac" using sameBytes_iff mac by simp
  moreover have "unpad44 k body = Inr plaintext" using unpad_pad44 [OF body] assms(1) by (simp add: nostr_reads_def)
  ultimately show ?thesis
    by (simp add: decryptNip44_def atob_btoa keys opened sealed flip: mac_def)
qed

lemma sealNip44_defined:
  assumes "length key = 32" "length nonce = 32"
  shows "(\<exists>payload. sealNip44 k key plaintext nonce = Inr payload) \<longleftrightarrow> \<not> (utf8 plaintext = [] \<or> 65535 < length (utf8 plaintext))"
    and "sealNip44 k key plaintext nonce = Inl e \<Longrightarrow> e = WrongPlainLength (length (utf8 plaintext))"
proof -
  obtain keys where "messageKeysFrom k key nonce = Inr keys"
    using assms by (simp add: messageKeysFrom_def NIP44_NONCE_BYTES_def Let_def)
  then show "(\<exists>payload. sealNip44 k key plaintext nonce = Inr payload) \<longleftrightarrow> \<not> (utf8 plaintext = [] \<or> 65535 < length (utf8 plaintext))"
    "sealNip44 k key plaintext nonce = Inl e \<Longrightarrow> e = WrongPlainLength (length (utf8 plaintext))"
    by (auto simp: sealNip44_def pad44_def Let_def MAX_PLAINTEXT_BYTES_def split: if_splits)
qed

text \<open>
  C37: a message of NIP-44 reads back. Under a key and a nonce of thirty-two bytes a text of one to 65535 bytes is
  sealed, and what was sealed opens under the same key to the very text; a text of another length is refused.
\<close>

theorem nip44_reads_back:
  assumes "nostr_reads k" "length key = 32" "length nonce = 32"
  shows "if utf8 plaintext = [] \<or> 65535 < length (utf8 plaintext)
    then sealNip44 k key plaintext nonce = Inl (WrongPlainLength (length (utf8 plaintext)))
    else (\<exists>payload. sealNip44 k key plaintext nonce = Inr payload \<and> decryptNip44 k key payload = Inr plaintext)"
  using sealNip44_opens [OF assms(1,3)] sealNip44_defined [OF assms(2,3)] by (metis sum.exhaust)

text \<open>The checks of a message that is not one of ours.\<close>

lemma decrypt_needs_its_tag:
  assumes "decryptNip44 k key payload = Inr text"
  shows "\<exists>raw keys. atob payload = Some raw \<and> hd raw = NIP44_VERSION \<and>
    messageKeysFrom k key (slice 1 (1 + NIP44_NONCE_BYTES) raw) = Inr keys \<and>
    sameBytes (noble_hmac k (mac_key keys) (slice 1 (1 + NIP44_NONCE_BYTES) raw @ slice (1 + NIP44_NONCE_BYTES) (length raw - MAC_BYTES) raw))
      (drop (length raw - MAC_BYTES) raw)"
  using assms by (auto simp: decryptNip44_def Let_def split: if_splits option.splits)

subsection \<open>An event that was signed verifies\<close>

definition nostr_signs :: "nostr \<Rightarrow> bool" where
  "nostr_signs k \<longleftrightarrow>
     (\<forall>secret public message sig. schnorr_public k secret = Some public \<longrightarrow> schnorr_sign k message secret = Some sig \<longrightarrow>
        schnorr_verify k sig message public)"

lemma signEvent_SomeD:
  assumes "nostr_signs k" "signEvent k secret d = Some ms" "publicKeyFor k secret = Some pubkey"
  shows "\<exists>sig. ms = [(''id'', JStr (idOf k (JStr pubkey) (draft_event d))), (''pubkey'', JStr pubkey)] @ draft_event d @ [(''sig'', JStr sig)]"
    "verifyEvent k ms"
proof -
  let ?eid = "idOf k (JStr pubkey) (draft_event d)"
  obtain sig where sig: "schnorr_sign k (hexToBytes ?eid) (hexToBytes secret) = Some sig"
    and ms: "ms = [(''id'', JStr ?eid), (''pubkey'', JStr pubkey)] @ draft_event d @ [(''sig'', JStr (bytesToHex sig))]"
    using assms(2,3) by (auto simp: signEvent_def Let_def split: option.splits)
  then show "\<exists>sig. ms = [(''id'', JStr ?eid), (''pubkey'', JStr pubkey)] @ draft_event d @ [(''sig'', JStr sig)]" by blast
  obtain public where public: "schnorr_public k (hexToBytes secret) = Some public" "pubkey = bytesToHex public"
    using assms(3) by (auto simp: publicKeyFor_def)
  have "idOf k (JStr pubkey) ms = ?eid" by (simp add: idOf_def ms draft_event_def member_or_null_def)
  moreover have "schnorr_verify k sig (hexToBytes ?eid) public" using assms(1) public(1) sig by (simp add: nostr_signs_def)
  ultimately show "verifyEvent k ms" using public(2) by (simp add: verifyEvent_def ms draft_event_def hexToBytes_bytesToHex)
qed

text \<open>
  An event that was signed verifies, and says what the draft said. The event carries the public key of the
  signing key and the draft's own members, its id is the hash of exactly those, and whoever checks it finds it good.
\<close>

theorem signed_event_verifies:
  assumes "nostr_signs k" "signEvent k secret d = Some ms" "publicKeyFor k secret = Some pubkey"
  shows "verifyEvent k ms \<and> field ms ''pubkey'' = Some (JStr pubkey) \<and> field ms ''content'' = Some (JStr (draft_content d)) \<and>
    field ms ''kind'' = Some (JNum (draft_kind d)) \<and> json_string (field ms ''id'') = Some (idOf k (JStr pubkey) (draft_event d))"
  using signEvent_SomeD [OF assms] by (auto simp: draft_event_def)

subsection \<open>Packages at work\<close>

definition nostr_here :: nostr where
  "nostr_here = \<lparr>schnorr_public = Some, schnorr_sign = (\<lambda>message secret. Some (message @ secret)),
     schnorr_verify = (\<lambda>sig message public. sig = message @ public), shared_secret = (\<lambda>secret public. Some (replicate 33 7)),
     noble_sha256 = (\<lambda>bs. replicate 32 (of_nat (length bs))), noble_hmac = (\<lambda>key body. replicate 32 (of_nat (length body))),
     hkdf_extract = (\<lambda>key salt. take 32 (key @ replicate 32 0)), hkdf_expand = (\<lambda>key info n. replicate n 1),
     chacha20 = (\<lambda>key nonce body. map (\<lambda>b. b XOR 0xff) body), nostr_text = utf8_read\<rparr>"

lemma nostr_here_promises: "nostr_reads nostr_here" "nostr_signs nostr_here"
  by (simp_all add: nostr_reads_def nostr_signs_def nostr_here_def xor.assoc map_idI comp_def)

lemma paddedLengthFor_bounds_witness: "paddedLengthFor 300 = 320 \<and> (300 :: nat) \<le> paddedLengthFor 300 \<and> 4 * paddedLengthFor 300 < 5 * 300"
proof -
  have "paddedLengthFor 300 = 320" by code_simp
  with paddedLengthFor_bounds [of 300] show ?thesis by simp
qed

lemma nip44_reads_back_witness:
  "\<exists>payload. sealNip44 nostr_here (replicate 32 1) ''hello'' (replicate 32 2) = Inr payload \<and>
     decryptNip44 nostr_here (replicate 32 1) payload = Inr ''hello''"
proof -
  have "length (utf8 ''hello'') = 5" by code_simp
  moreover from this have "utf8 ''hello'' \<noteq> []" by force
  ultimately show ?thesis
    using nip44_reads_back [OF nostr_here_promises(1), of "replicate 32 1" "replicate 32 2" "''hello''"] by simp
qed

lemma signed_event_verifies_witness:
  "\<exists>ms. signEvent nostr_here ''00ff'' \<lparr>draft_kind = 1, draft_tags = [[''p'', ''x'']], draft_content = ''hi'', draft_created_at = 7\<rparr> = Some ms \<and>
     verifyEvent nostr_here ms"
proof -
  let ?d = "\<lparr>draft_kind = 1, draft_tags = [[''p'', ''x'']], draft_content = ''hi'', draft_created_at = 7\<rparr>"
  have key: "publicKeyFor nostr_here ''00ff'' = Some (bytesToHex (hexToBytes ''00ff''))" by (simp add: publicKeyFor_def nostr_here_def)
  then obtain ms where ms: "signEvent nostr_here ''00ff'' ?d = Some ms" by (simp add: signEvent_def Let_def) (simp add: nostr_here_def)
  from signed_event_verifies [OF nostr_here_promises(2) ms key] ms show ?thesis by blast
qed

end
