(* ===== verification/Rails.thy ===== *)
theory Rails
  imports Bank
begin

text \<open>
  \<^verbatim>\<open>sdk/src/rail.ts\<close> and \<^verbatim>\<open>sdk/src/qr.ts\<close>: one way to pay one order. A rail asks for the money, puts the payment under
  the gateway's watch and gives the leg a shop shows; the other file draws it. The lemmas show that what a payer
  scans asks for the order's own price and carries the hash that the gateway watches.
\<close>

subsection \<open>Drawing\<close>

definition isLnAddress :: "string \<Rightarrow> bool" where
  "isLnAddress destination \<longleftrightarrow>
     (case index_of CHR ''@'' destination of
        None \<Rightarrow> False | Some i \<Rightarrow> 0 < i \<and> CHR ''.'' \<in> set (drop (i + 1) destination))"

definition toLightningUri :: "string \<Rightarrow> string" where
  "toLightningUri destination = ''LIGHTNING:'' @ (if isLnAddress destination then destination else toUpperCase destination)"

definition hex_color :: "string \<Rightarrow> bool" where
  "hex_color c \<longleftrightarrow> length c \<in> {3, 4, 6, 8} \<and> list_all is_hex_char c"

definition rgb_color :: "string \<Rightarrow> bool" where
  "rgb_color body \<longleftrightarrow>
     2 \<le> length body \<and> hd body = CHR ''('' \<and> last body = CHR '')'' \<and>
     (let inside = butlast (tl body)
      in inside \<noteq> [] \<and> list_all (\<lambda>c. is_digit c \<or> c \<in> set ''.,%/'' \<or> is_space c) inside)"

text \<open>\<^verbatim>\<open>SAFE_COLOR\<close>, in either case.\<close>

definition SAFE_COLOR :: "string \<Rightarrow> bool" where
  "SAFE_COLOR color \<longleftrightarrow>
     (starts_with ''#'' color \<and> hex_color (drop 1 color)) \<or>
     (lower (take 4 color) = ''rgba'' \<and> rgb_color (drop 4 color)) \<or> (lower (take 3 color) = ''rgb'' \<and> rgb_color (drop 3 color)) \<or>
     (color \<noteq> [] \<and> list_all is_letter color)"

record qr_options =
  qr_size :: "rat option"
  qr_color :: "string option"

text \<open>The package that makes the modules is \<open>modules\<close>; sides are doubles. \<open>shown\<close> is the text of one.\<close>

definition renderSvg :: "rounding \<Rightarrow> (rat \<Rightarrow> string) \<Rightarrow> (string \<Rightarrow> bool list list) \<Rightarrow> string \<Rightarrow> rat \<Rightarrow> string \<Rightarrow> string" where
  "renderSvg fl shortest modules content side color =
     (let data = modules content; n = length data; cell = fl (side / of_nat n);
          shown = (\<lambda>q. double_text shortest (Finite q));
          path = concat (map (\<lambda>y. concat (map (\<lambda>x.
            if x < length (data ! y) \<and> data ! y ! x
            then ''M'' @ shown (fl (of_nat x * cell)) @ '','' @ shown (fl (of_nat y * cell)) @ ''h'' @ shown cell @ ''v'' @ shown cell @ ''h-'' @ shown cell @ ''z''
            else []) [0..<n])) [0..<n])
      in ''<svg xmlns=\"http://www.w3.org/2000/svg\" viewBox=\"0 0 '' @ shown side @ '' '' @ shown side @ ''\" width=\"'' @ shown side @
         ''\" height=\"'' @ shown side @ ''\">'' @
         ''<rect width=\"100%\" height=\"100%\" fill=\"white\"/>'' @
         ''<path d=\"'' @ path @ ''\" fill=\"'' @ color @ ''\"/>'' @
         ''</svg>'')"

definition svgOf :: "rounding \<Rightarrow> (rat \<Rightarrow> string) \<Rightarrow> (string \<Rightarrow> bool list list) \<Rightarrow> string \<Rightarrow> qr_options \<Rightarrow> string option" where
  "svgOf fl shortest modules scanned opts =
     (let side = (case qr_size opts of None \<Rightarrow> 256 | Some s \<Rightarrow> s); color = (case qr_color opts of None \<Rightarrow> ''#000'' | Some c \<Rightarrow> c)
      in if \<not> SAFE_COLOR color then None else Some (renderSvg fl shortest modules scanned side color))"

definition invoiceToSvg :: "rounding \<Rightarrow> (rat \<Rightarrow> string) \<Rightarrow> (string \<Rightarrow> bool list list) \<Rightarrow> string \<Rightarrow> qr_options \<Rightarrow> string option" where
  "invoiceToSvg fl shortest modules destination opts = svgOf fl shortest modules (toLightningUri destination) opts"

definition lnurlEndpointToSvg :: "url_parser \<Rightarrow> rounding \<Rightarrow> (rat \<Rightarrow> string) \<Rightarrow> (string \<Rightarrow> bool list list) \<Rightarrow> string \<Rightarrow> qr_options \<Rightarrow> string option" where
  "lnurlEndpointToSvg parse fl shortest modules endpoint opts =
     Option.bind (toLnurl parse endpoint) (\<lambda>text. svgOf fl shortest modules text opts)"

definition asDataUrl :: "(string \<Rightarrow> string) \<Rightarrow> string \<Rightarrow> string" where
  "asDataUrl encodeURIComponent svg = ''data:image/svg+xml,'' @ encodeURIComponent svg"

text \<open>What would end an attribute or open a tag.\<close>

definition markup :: "char \<Rightarrow> bool" where
  "markup c \<longleftrightarrow> code c \<in> {34, 38, 39, 60, 62}"

lemma rgb_color_no_markup: "rgb_color body \<Longrightarrow> c \<in> set body \<Longrightarrow> \<not> markup c"
proof -
  assume body: "rgb_color body" and "c \<in> set body"
  have codes: "code CHR ''('' = 40" "code CHR '')'' = 41" "code CHR ''.'' = 46" "code CHR '','' = 44" "code CHR ''%'' = 37" "code CHR ''/'' = 47"
    by (simp_all add: code_def)
  obtain b bs where bs: "body = b # bs" "bs \<noteq> []" using body by (cases body; cases "tl body") (auto simp: rgb_color_def)
  have ends: "b = CHR ''(''" "last bs = CHR '')''" and inside: "\<forall>c\<in>set (butlast bs). is_digit c \<or> c \<in> set ''.,%/'' \<or> is_space c"
    using body bs by (simp_all add: rgb_color_def Let_def list_all_iff)
  have "set bs = set (butlast bs) \<union> {last bs}" using arg_cong [OF append_butlast_last_id [OF bs(2)], of set] by simp
  then consider "c = CHR ''(''" | "c = CHR '')''" | "is_digit c \<or> is_space c" | "c = CHR ''.'' \<or> c = CHR '','' \<or> c = CHR ''%'' \<or> c = CHR ''/''"
    using \<open>c \<in> set body\<close> bs(1) ends inside by auto
  then show "\<not> markup c"
  proof cases
    case 3
    then show ?thesis by (auto simp: markup_def is_digit_def is_space_def)
  next
    case 4
    then show ?thesis using codes by (elim disjE) (simp_all add: markup_def)
  qed (simp_all add: markup_def codes)
qed

lemma prefix_no_markup:
  assumes "lower (take n color) = w" "list_all (\<lambda>c. \<not> markup c) w" "c \<in> set (take n color)"
  shows "\<not> markup c"
proof
  assume "markup c"
  then have "lower_char c = c" by (auto simp: markup_def lower_char_def)
  then have "c \<in> set w" using assms(1,3) unfolding lower_def by (metis imageI list.set_map)
  with \<open>markup c\<close> assms(2) show False by (simp add: list_all_iff)
qed

lemma safe_color_no_markup:
  assumes "SAFE_COLOR color" "c \<in> set color"
  shows "\<not> markup c"
proof -
  have plain: "\<not> markup c" if "is_letter c \<or> is_hex_char c" for c
    using that by (auto simp: markup_def is_letter_def is_hex_char_def is_lower_hex_def is_digit_def)
  have in_parts: "c \<in> set (take n color) \<or> c \<in> set (drop n color)" for n
    using assms(2) by (metis append_take_drop_id Un_iff set_append)
  have letters: "list_all (\<lambda>c. \<not> markup c) ''rgb''" "list_all (\<lambda>c. \<not> markup c) ''rgba''" "\<not> markup CHR ''#''"
    by (simp_all add: markup_def code_def)
  consider "starts_with ''#'' color" "hex_color (drop 1 color)" | "lower (take 4 color) = ''rgba''" "rgb_color (drop 4 color)"
    | "lower (take 3 color) = ''rgb''" "rgb_color (drop 3 color)" | "list_all is_letter color"
    using assms(1) by (auto simp: SAFE_COLOR_def)
  then show ?thesis
  proof cases
    case 1
    then obtain rest where "color = CHR ''#'' # rest" by (auto simp: starts_with_def prefix_def)
    with 1(2) assms(2) letters(3) plain show ?thesis by (auto simp: hex_color_def list_all_iff)
  next
    case 2
    with in_parts [of 4] prefix_no_markup [OF 2(1) letters(2)] rgb_color_no_markup show ?thesis by blast
  next
    case 3
    with in_parts [of 3] prefix_no_markup [OF 3(1) letters(1)] rgb_color_no_markup show ?thesis by blast
  next
    case 4
    with assms(2) plain show ?thesis by (auto simp: list_all_iff)
  qed
qed

subsection \<open>Orders and legs\<close>

definition BANK :: string where "BANK = ''bank''"
definition LIGHTNING :: string where "LIGHTNING = ''lightning''"

record order =
  ord_reference :: string
  ord_minor :: double
  ord_currency :: string

record leg =
  leg_id :: string
  leg_paymentHash :: string
  leg_rail :: string
  leg_scan :: string
  leg_qr :: string
  leg_expiresAt :: int

record rail_config =
  rail_trigger :: "string option"
  rail_replay :: "int option"
  rail_webhookUrl :: "string option"
  rail_name :: "string option"

record lightning_rail = rail_config +
  lr_paidTo :: paid_to
  lr_amount :: "(order \<Rightarrow> price_error + rat) option"
  lr_key :: "order \<Rightarrow> string option"
  lr_sealed :: "(string \<times> (order \<Rightarrow> json)) option"

record bank_rail = rail_config +
  br_secret :: string
  br_iban :: string
  br_verifyUrl :: string
  br_expiresAt :: "order \<Rightarrow> int"
  br_sealed :: "(string \<times> (order \<Rightarrow> json)) option"
  br_variableSymbol :: "order \<Rightarrow> string option"
  br_allowPublicGateway :: "bool option"

datatype rail_error =
    RailPrice price_error
  | RailClient client_error
  | NoWallet "walletFailure list"
  | WalletCrashed
  | RailRelay relay_error
  | RailSeal seal_error
  | RailBank bank_error

definition rail_called :: "string \<Rightarrow> string option \<Rightarrow> string" where
  "rail_called usual name = (case name of None \<Rightarrow> usual | Some n \<Rightarrow> n)"

fun number_of_double :: "double \<Rightarrow> number" where
  "number_of_double (Finite q) = Some q"
| "number_of_double _ = None"

text \<open>\<open>rate\<close> is what the configured rate, or the median of the venues, says for a currency now.\<close>

definition msatForOrder :: "order \<Rightarrow> (order \<Rightarrow> price_error + rat) option \<Rightarrow> (string \<Rightarrow> price_error + rat) \<Rightarrow> price_error + int" where
  "msatForOrder ord amount rate =
     (case amount of
        Some price \<Rightarrow> amountNow (price ord)
      | None \<Rightarrow>
          and_then (rate (ord_currency ord)) (\<lambda>said.
          and_then (msatFor (number_of_double (ord_minor ord)) (Some said) None) (\<lambda>asked. msat (Some (of_int asked)))))"

definition invoiceFrom :: "network \<Rightarrow> paid_to \<Rightarrow> price_error + rat \<Rightarrow> request list \<Rightarrow> (rail_error + resolution) \<times> request list" where
  "invoiceFrom net paidTo amount trace =
     (case amountNow amount of
        Inl e \<Rightarrow> (Inl (RailPrice e), trace)
      | Inr asked \<Rightarrow>
          (case resolve net (addresses_of paidTo) asked trace of
             (Inl (resolve_error.NoWalletAvailable refusals), trace') \<Rightarrow> (Inl (NoWallet refusals), trace')
           | (Inl ResolveCrashed, trace') \<Rightarrow> (Inl WalletCrashed, trace')
           | (Inr won, trace') \<Rightarrow> (Inr won, trace')))"

subsection \<open>The rails\<close>

text \<open>What is sealed for the watcher of an order, under the payment's hash.\<close>

definition sealed_for :: "sealing \<Rightarrow> bytes \<Rightarrow> (string \<times> (order \<Rightarrow> json)) option \<Rightarrow> order \<Rightarrow> string \<Rightarrow> seal_error + string option" where
  "sealed_for plat drawn locked ord hash =
     (case locked of
        None \<Rightarrow> Inr None
      | Some (secret, data) \<Rightarrow>
          (case seal plat drawn secret (stringify (data ord)) (Some hash) of Inl e \<Rightarrow> Inl e | Inr blob \<Rightarrow> Inr (Some blob)))"

definition bankRail :: "shop \<Rightarrow> bytes \<Rightarrow> bank_rail \<Rightarrow> order \<Rightarrow> client \<Rightarrow> (rail_error + leg) \<times> client" where
  "bankRail sh drawn cfg ord c =
     (case bankTransfer sh drawn
        \<lparr>tp_secret = br_secret cfg, tp_reference = ord_reference ord, tp_minor = ord_minor ord, tp_iban = br_iban cfg,
         tp_verifyUrl = Some (br_verifyUrl cfg), tp_agent = False, tp_expiresAt = br_expiresAt cfg ord,
         tp_currency = Some (ord_currency ord), tp_variableSymbol = br_variableSymbol cfg ord, tp_trigger = rail_trigger cfg,
         tp_replay = rail_replay cfg, tp_sealed = map_option (\<lambda>(secret, data). (secret, data ord)) (br_sealed cfg),
         tp_webhookUrl = rail_webhookUrl cfg, tp_allowPublicGateway = br_allowPublicGateway cfg\<rparr> c of
        (Inl e, c') \<Rightarrow> (Inl (RailBank e), c')
      | (Inr t, c') \<Rightarrow>
          (Inr \<lparr>leg_id = bt_id t, leg_paymentHash = bt_paymentHash t, leg_rail = rail_called BANK (rail_name cfg), leg_scan = bt_spd t,
                leg_qr = bt_spd t, leg_expiresAt = br_expiresAt cfg ord\<rparr>, c'))"

definition mintedByGateway :: "shop \<Rightarrow> (string \<Rightarrow> price_error + rat) \<Rightarrow> lightning_rail \<Rightarrow> order \<Rightarrow> client \<Rightarrow> (rail_error + leg) \<times> client" where
  "mintedByGateway sh rate cfg ord c =
     (case msatForOrder ord (lr_amount cfg) rate of
        Inl e \<Rightarrow> (Inl (RailPrice e), c)
      | Inr asked \<Rightarrow>
          (case mint (sh_around sh) (lr_paidTo cfg) (Inr (of_int asked)) (rail_webhookUrl cfg)
                  \<lparr>opt_key = lr_key cfg ord, opt_trigger = rail_trigger cfg, opt_replay = rail_replay cfg\<rparr> c of
             (Inl e, c') \<Rightarrow> (Inl (RailClient e), c')
           | (Inr payment, c') \<Rightarrow>
               (Inr \<lparr>leg_id = rep_id payment, leg_paymentHash = rep_hash payment, leg_rail = rail_called LIGHTNING (rail_name cfg),
                     leg_scan = mint_bolt11 payment, leg_qr = toLightningUri (mint_bolt11 payment),
                     leg_expiresAt = rep_expiresAt payment\<rparr>, c')))"

definition resolved_handover :: "shop \<Rightarrow> drawn \<Rightarrow> verify_through \<Rightarrow> lightning_rail \<Rightarrow> order \<Rightarrow> resolution \<Rightarrow> rail_error + handover" where
  "resolved_handover sh drawn through cfg ord won =
     (case relayedVerifyUrl (sh_pages sh) (sh_sealing sh) (dr_relay drawn) (through_endpoint through)
             \<lparr>relayed_url = resolved_verifyUrl won, relayed_hash = resolved_paymentHash won\<rparr> (through_secret through) of
        Inl e \<Rightarrow> Inl (RailRelay e)
      | Inr url \<Rightarrow>
          (case sealed_for (sh_sealing sh) (dr_seal drawn) (lr_sealed cfg) ord (resolved_paymentHash won) of
             Inl e \<Rightarrow> Inl (RailSeal e)
           | Inr blob \<Rightarrow>
               Inr \<lparr>hand_paymentHash = resolved_paymentHash won, hand_verifyUrl = url, hand_expiresAt = int (resolved_expiresAt won),
                    hand_trigger = rail_trigger cfg, hand_replay = rail_replay cfg, hand_sealed = blob,
                    hand_webhookUrl = rail_webhookUrl cfg\<rparr>))"

definition resolvedHere :: "shop \<Rightarrow> (string \<Rightarrow> price_error + rat) \<Rightarrow> drawn \<Rightarrow> verify_through \<Rightarrow> lightning_rail \<Rightarrow> order \<Rightarrow> asked_so_far \<Rightarrow>
    (rail_error + leg) \<times> asked_so_far" where
  "resolvedHere sh rate drawn through cfg ord seen =
     (case seen of (c, trace) \<Rightarrow>
        (case msatForOrder ord (lr_amount cfg) rate of
           Inl e \<Rightarrow> (Inl (RailPrice e), seen)
         | Inr asked \<Rightarrow>
             (case invoiceFrom (sh_net sh) (lr_paidTo cfg) (Inr (of_int asked)) trace of
                (Inl e, trace') \<Rightarrow> (Inl e, (c, trace'))
              | (Inr won, trace') \<Rightarrow>
                  (case resolved_handover sh drawn through cfg ord won of
                     Inl e \<Rightarrow> (Inl e, (c, trace'))
                   | Inr h \<Rightarrow>
                       (case client_watch (sh_around sh) h c of
                          (Inl e, c') \<Rightarrow> (Inl (RailClient e), (c', trace'))
                        | (Inr watched, c') \<Rightarrow>
                            (Inr \<lparr>leg_id = rep_id (reported_of watched), leg_paymentHash = resolved_paymentHash won,
                                  leg_rail = rail_called LIGHTNING (rail_name cfg), leg_scan = resolved_bolt11 won,
                                  leg_qr = toLightningUri (resolved_bolt11 won), leg_expiresAt = int (resolved_expiresAt won)\<rparr>,
                             (c', trace')))))))"

definition lightningRail :: "shop \<Rightarrow> (string \<Rightarrow> price_error + rat) \<Rightarrow> drawn \<Rightarrow> verify_through option \<Rightarrow> bool option \<Rightarrow> lightning_rail \<Rightarrow>
    path_error + (order \<Rightarrow> asked_so_far \<Rightarrow> (rail_error + leg) \<times> asked_so_far)" where
  "lightningRail sh rate drawn verifyThrough gatewayMints cfg =
     and_then (verifiedThrough verifyThrough gatewayMints) (\<lambda>through. Inr (\<lambda>ord (c, trace).
       case through of
         None \<Rightarrow> (case mintedByGateway sh rate cfg ord c of (got, c') \<Rightarrow> (got, (c', trace)))
       | Some here \<Rightarrow> resolvedHere sh rate drawn here cfg ord (c, trace)))"

subsection \<open>What is scanned is what is watched\<close>

lemma client_watch_InrD:
  assumes "client_watch a h c = (Inr p, c')"
  obtains trig hs where "trigger_sent (hand_trigger h) = Inr trig"
    "calls c' = calls c @ [\<lparr>call_method = ''POST'', call_url = base_url c @ ''/watched-payments'', call_headers = hs,
       call_body = Some (stringify (watch_json h trig))\<rparr>]"
    "lower (rep_hash (reported_of p)) = lower (hand_paymentHash h)"
proof -
  obtain trig where trig: "trigger_sent (hand_trigger h) = Inr trig" using assms by (auto simp: client_watch_def split: sum.splits)
  then obtain r mid where sent: "exchanged a ''POST'' ''/watched-payments'' (sending_headers a c ''/watched-payments'' (stringify (watch_json h trig)))
      (Some (stringify (watch_json h trig))) c = (Inr r, mid)"
    and named: "watched_as_named a mid h r = Inr p" "c' = mid"
    using assms by (auto simp: client_watch_def watchRequestBody_def split: sum.splits option.splits prod.splits if_splits)
  from sent obtain hs where "mid = c\<lparr>calls := calls c @ [\<lparr>call_method = ''POST'', call_url = base_url c @ ''/watched-payments'', call_headers = hs,
       call_body = Some (stringify (watch_json h trig))\<rparr>]\<rparr>" by (rule exchanged_InrD)
  moreover have "lower (rep_hash (reported_of p)) = lower (hand_paymentHash h)"
    using named(1) by (auto simp: watched_as_named_def split: option.splits if_splits)
  ultimately show ?thesis using that trig named(2) by simp
qed

lemma invoiceFrom_InrD:
  assumes "invoiceFrom net paidTo (Inr (of_int asked)) trace = (Inr won, trace')" "amountNow (Inr (of_int asked)) = Inr asked"
  shows "resolved_address won \<in> set (addresses_of paidTo)" "\<exists>metadata. proven_by (parse_url net) asked won metadata"
proof -
  obtain refusals where "firstThatServes net (resolveAddress net asked) (addresses_of paidTo) [] trace = (Inr (won, refusals), trace')"
    using assms by (auto simp: invoiceFrom_def resolve_def split: sum.splits prod.splits resolve_error.splits)
  then obtain address t where "address \<in> set (addresses_of paidTo)" "resolveAddress net asked address t = (Inr won, trace')"
    using firstThatServes_won by (metis in_set_conv_decomp)
  then show "resolved_address won \<in> set (addresses_of paidTo)" "\<exists>metadata. proven_by (parse_url net) asked won metadata"
    using resolveAddress_sound by metis+
qed

lemma msatForOrder_payable:
  assumes "msatForOrder ord amount rate = Inr asked"
  shows "amountNow (Inr (of_int asked)) = Inr asked"
proof -
  have "1 \<le> asked \<and> asked \<le> MAX_SAFE_INTEGER"
    using assms by (auto simp: msatForOrder_def amountNow_def split: option.splits dest!: msat_InrD)
  then show ?thesis by (simp add: amountNow_def msat_def)
qed

text \<open>
  C38: what is scanned is what is watched. A leg that is resolved here carries the invoice of an address on the list,
  bound to that address by its description, for the order's own price and not a unit more; its QR is that invoice;
  and the gateway was told of it by one call, which names the invoice's payment hash and the relay's address and
  neither the recipient nor the amount.
\<close>

theorem scanned_is_watched:
  assumes "resolvedHere sh rate drawn through cfg ord (c, trace) = (Inr leg, (c', trace'))"
  shows "\<exists>asked address metadata url blob trig hs verify.
    msatForOrder ord (lr_amount cfg) rate = Inr asked \<and> address \<in> set (addresses_of (lr_paidTo cfg)) \<and>
    namesTheAddress (Some (JStr metadata)) address \<and>
    invoice_descriptionHash (decodeInvoice (leg_scan leg)) = Some (sha256Hex metadata) \<and>
    invoice_paymentHash (decodeInvoice (leg_scan leg)) = Some (leg_paymentHash leg) \<and>
    map_option int (invoice_amountMsat (decodeInvoice (leg_scan leg))) = Some asked \<and>
    leg_qr leg = toLightningUri (leg_scan leg) \<and>
    relayedVerifyUrl (sh_pages sh) (sh_sealing sh) (dr_relay drawn) (through_endpoint through)
      \<lparr>relayed_url = verify, relayed_hash = leg_paymentHash leg\<rparr> (through_secret through) = Inr url \<and>
    calls c' = calls c @ [\<lparr>call_method = ''POST'', call_url = base_url c @ ''/watched-payments'', call_headers = hs,
      call_body = Some (stringify (watch_json
        \<lparr>hand_paymentHash = leg_paymentHash leg, hand_verifyUrl = url, hand_expiresAt = leg_expiresAt leg, hand_trigger = rail_trigger cfg,
         hand_replay = rail_replay cfg, hand_sealed = blob, hand_webhookUrl = rail_webhookUrl cfg\<rparr> trig))\<rparr>]"
proof -
  obtain asked where asked: "msatForOrder ord (lr_amount cfg) rate = Inr asked"
    using assms by (auto simp: resolvedHere_def split: sum.splits)
  then obtain won h watched where steps: "invoiceFrom (sh_net sh) (lr_paidTo cfg) (Inr (of_int asked)) trace = (Inr won, trace')"
    "resolved_handover sh drawn through cfg ord won = Inr h" "client_watch (sh_around sh) h c = (Inr watched, c')"
    and leg: "leg_paymentHash leg = resolved_paymentHash won" "leg_scan leg = resolved_bolt11 won"
      "leg_qr leg = toLightningUri (resolved_bolt11 won)" "leg_expiresAt leg = int (resolved_expiresAt won)"
    using assms by (auto simp: resolvedHere_def split: sum.splits prod.splits)
  obtain metadata where proved: "resolved_address won \<in> set (addresses_of (lr_paidTo cfg))" "proven_by (parse_url (sh_net sh)) asked won metadata"
    using invoiceFrom_InrD [OF steps(1) msatForOrder_payable [OF asked]] by blast
  obtain url blob where handed: "relayedVerifyUrl (sh_pages sh) (sh_sealing sh) (dr_relay drawn) (through_endpoint through)
      \<lparr>relayed_url = resolved_verifyUrl won, relayed_hash = resolved_paymentHash won\<rparr> (through_secret through) = Inr url"
    "h = \<lparr>hand_paymentHash = resolved_paymentHash won, hand_verifyUrl = url, hand_expiresAt = int (resolved_expiresAt won),
       hand_trigger = rail_trigger cfg, hand_replay = rail_replay cfg, hand_sealed = blob, hand_webhookUrl = rail_webhookUrl cfg\<rparr>"
    using steps(2) by (auto simp: resolved_handover_def split: sum.splits)
  obtain trig hs where "calls c' = calls c @ [\<lparr>call_method = ''POST'', call_url = base_url c @ ''/watched-payments'', call_headers = hs,
       call_body = Some (stringify (watch_json h trig))\<rparr>]"
    using steps(3) by (rule client_watch_InrD)
  with asked proved handed leg show ?thesis unfolding proven_by_def by metis
qed

subsection \<open>A rail at work\<close>

definition won_hash :: string where "won_hash = bytesToHex (replicate 32 7)"

definition rail_here :: shop where
  "rail_here = shop_here\<lparr>sh_net := sample_net [sample_pay, sample_issue], sh_around := around_here (JObj
     [(''id'', JStr ''w-1''), (''status'', JStr ''pending''), (''payment_hash'', JStr won_hash), (''verify_url'', JStr ''https://shop.example''),
      (''expires_at'', JStr ''later''), (''created_at'', JStr ''now'')])\<rparr>"

definition lightning_here :: lightning_rail where
  "lightning_here = \<lparr>rail_trigger = None, rail_replay = None, rail_webhookUrl = None, rail_name = None,
     lr_paidTo = OneAddress ''me@pay.example.com'', lr_amount = Some (\<lambda>_. Inr 1000), lr_key = (\<lambda>_. None), lr_sealed = None\<rparr>"

definition order_here :: order where
  "order_here = \<lparr>ord_reference = ''order 7'', ord_minor = Finite 48055, ord_currency = ''CZK''\<rparr>"

lemma rail_here_facts [simp]:
  "sh_pages rail_here = json_pages" "sh_sealing rail_here = clear_platform" "sh_net rail_here = sample_net [sample_pay, sample_issue]"
  by (simp_all add: rail_here_def shop_here_def)

lemma watched_on_rail:
  assumes "usable_time expires"
  shows "\<exists>p c'. client_watch (sh_around rail_here) \<lparr>hand_paymentHash = won_hash, hand_verifyUrl = url, hand_expiresAt = expires,
     hand_trigger = None, hand_replay = None, hand_sealed = None, hand_webhookUrl = None\<rparr> (client_here None) = (Inr p, c')"
  using assms
  by (simp add: client_watch_def trigger_sent_def truthy_def watchRequestBody_def sending_headers_def
      reading_headers_def client_here_def exchanged_def fetch_gateway_def reply_ok_def body_of_def rail_here_def around_here_def
      watched_as_named_def nameFor_def paymentFromWire_def reportedFrom_def secondsFrom_def text_or_null_def wire_status_def
      status_of_def missing_def Let_def)

lemma relayed_won:
  "\<exists>url. relayedVerifyUrl json_pages clear_platform (replicate 12 7) endpoint_here
     \<lparr>relayed_url = ''https://pay.example.com/v'', relayed_hash = won_hash\<rparr> (replicate 32 CHR ''s'') = Inr url"
proof -
  let ?w = "\<lparr>relayed_url = ''https://pay.example.com/v'', relayed_hash = won_hash\<rparr>"
  have "length won_hash = 64" by (simp add: won_hash_def length_bytesToHex)
  then have "length (stringify (relayed_json ?w)) \<le> 1000"
    using quote_length [of won_hash] quote_length [of "relayed_url ?w"] quote_length [of "''url''"] quote_length [of "''hash''"]
    by (simp add: relayed_json_def stringify.simps)
  then have "length (utf8 (stringify (relayed_json ?w))) \<le> 3000"
    using utf8_length_hex [of "stringify (relayed_json ?w)"] by simp
  moreover have "\<not> weak_secret (replicate 32 CHR ''s'')" by (simp add: weak_secret_def MIN_SECRET_CHARS_def)
  ultimately obtain blob where "sealFor clear_platform (replicate 12 7) Relay (replicate 32 CHR ''s'') (stringify (relayed_json ?w)) False = Inr blob"
    using sealed_for_its_purpose [OF clear_platform_promises, of _ "replicate 12 7" "replicate 32 CHR ''s''" Relay False] by auto
  then show ?thesis by (simp add: relayedVerifyUrl_def endpoint_read_here)
qed

lemma resolved_on_rail:
  "\<exists>leg c' trace'. resolvedHere rail_here (\<lambda>_. Inr 0) drawn_here through_here lightning_here order_here (client_here None, []) =
     (Inr leg, (c', trace'))"
proof -
  have asked: "msatForOrder order_here (lr_amount lightning_here) (\<lambda>_. Inr 0) = Inr 1000" "amountNow (Inr 1000) = Inr 1000"
    by (simp_all add: msatForOrder_def lightning_here_def amountNow_def msat_def whole_number_def MAX_SAFE_INTEGER_def)
  obtain r trace where won: "resolve (sample_net [sample_pay, sample_issue]) [''me@pay.example.com''] 1000 [] = (Inr r, trace)"
    "resolved_verifyUrl r = ''https://pay.example.com/v''" "resolved_paymentHash r = won_hash"
    "resolved_expiresAt r = readNumber (replicate 7 1) + 3600"
    using sample_resolves unfolding won_hash_def by blast
  then have from_it: "invoiceFrom (sample_net [sample_pay, sample_issue]) (lr_paidTo lightning_here) (Inr 1000) [] = (Inr r, trace)"
    using asked(2) by (simp add: invoiceFrom_def lightning_here_def)
  obtain url where url: "relayedVerifyUrl json_pages clear_platform (replicate 12 7) endpoint_here
     \<lparr>relayed_url = ''https://pay.example.com/v'', relayed_hash = won_hash\<rparr> (replicate 32 CHR ''s'') = Inr url"
    using relayed_won by blast
  have "replicate 7 (1::nat) = [1, 1, 1, 1, 1, 1, 1]" by (simp add: numeral_eq_Suc)
  then have "readNumber (replicate 7 1) = 1108378657" by (simp add: readNumber_def)
  then have "usable_time (int (resolved_expiresAt r))" unfolding won(4) by (simp add: usable_time_def MAX_TIME_def)
  from watched_on_rail [OF this, of url] obtain p c' where "client_watch (sh_around rail_here) \<lparr>hand_paymentHash = won_hash,
      hand_verifyUrl = url, hand_expiresAt = int (resolved_expiresAt r), hand_trigger = None, hand_replay = None, hand_sealed = None,
      hand_webhookUrl = None\<rparr> (client_here None) = (Inr p, c')" by blast
  moreover have "resolved_handover rail_here drawn_here through_here lightning_here order_here r = Inr \<lparr>hand_paymentHash = won_hash,
      hand_verifyUrl = url, hand_expiresAt = int (resolved_expiresAt r), hand_trigger = None, hand_replay = None, hand_sealed = None,
      hand_webhookUrl = None\<rparr>"
    using url won by (simp add: resolved_handover_def sealed_for_def lightning_here_def drawn_here_def through_here_def)
  ultimately show ?thesis using asked from_it by (simp add: resolvedHere_def)
qed

lemma scanned_is_watched_witness:
  "\<exists>leg c' trace'. resolvedHere rail_here (\<lambda>_. Inr 0) drawn_here through_here lightning_here order_here (client_here None, []) =
     (Inr leg, (c', trace')) \<and> leg_qr leg = toLightningUri (leg_scan leg) \<and>
     map_option int (invoice_amountMsat (decodeInvoice (leg_scan leg))) = Some 1000 \<and>
     invoice_paymentHash (decodeInvoice (leg_scan leg)) = Some (leg_paymentHash leg)"
proof -
  obtain leg c' trace' where shown: "resolvedHere rail_here (\<lambda>_. Inr 0) drawn_here through_here lightning_here order_here (client_here None, []) =
      (Inr leg, (c', trace'))" using resolved_on_rail by blast
  have "msatForOrder order_here (lr_amount lightning_here) (\<lambda>_. Inr 0) = Inr 1000"
    by (simp add: msatForOrder_def lightning_here_def amountNow_def msat_def whole_number_def MAX_SAFE_INTEGER_def)
  with scanned_is_watched [OF shown] shown show ?thesis by fastforce
qed

end
