(* ===== verification/Nwc.thy ===== *)
theory Nwc
  imports Rails Fio Nostr
begin

text \<open>
  \<^verbatim>\<open>sdk/src/nwc.ts\<close>: a wallet that is reached over relays of Nostr, as NIP-47 says. The curve and the cipher are the
  packages of Nostr; what happens on a socket is an argument. The lemmas show that an answer is the wallet's own and to
  the very request, that a wallet that answers is heard, and that a gateway that polls the verify endpoint concludes
  what the wallet released.
\<close>

definition REQUEST_KIND :: int where "REQUEST_KIND = 23194"
definition RESPONSE_KIND :: int where "RESPONSE_KIND = 23195"
definition NIP44_V2 :: string where "NIP44_V2 = ''nip44_v2''"
definition SCHEME :: string where "SCHEME = ''nostr+walletconnect:''"
definition HEX_32_BYTES :: "string \<Rightarrow> bool" where "HEX_32_BYTES s \<longleftrightarrow> length s = 64 \<and> list_all is_hex_char s"
definition DEFAULT_ASK_TIMEOUT_MS :: nat where "DEFAULT_ASK_TIMEOUT_MS = 10000"
definition PAY_TIMEOUT_MS :: nat where "PAY_TIMEOUT_MS = 90000"
definition NWC_POLL_EVERY_SECS :: int where "NWC_POLL_EVERY_SECS = 5"
definition HASH_PARAM :: string where "HASH_PARAM = ''h''"

text \<open>
  The reason of a refusal. The record of codes is an object literal, so a code that names a member of every object
  finds that member and not a reason.
\<close>

datatype nwc_reason = Reason walletReason | Inherited string

definition REFUSAL_BY_CODE :: "(string \<times> walletReason) list" where
  "REFUSAL_BY_CODE =
     [(''INSUFFICIENT_BALANCE'', AmountNotAccepted), (''QUOTA_EXCEEDED'', AmountNotAccepted), (''RESTRICTED'', AddressUnusable),
      (''UNAUTHORIZED'', AddressUnusable), (''UNSUPPORTED_ENCRYPTION'', AddressUnusable)]"

definition OBJECT_MEMBERS :: "string list" where
  "OBJECT_MEMBERS =
     [''constructor'', ''__defineGetter__'', ''__defineSetter__'', ''hasOwnProperty'', ''__lookupGetter__'', ''__lookupSetter__'',
      ''isPrototypeOf'', ''propertyIsEnumerable'', ''toString'', ''valueOf'', ''__proto__'', ''toLocaleString'']"

definition refusal_by_code :: "string \<Rightarrow> nwc_reason" where
  "refusal_by_code told =
     (case map_of REFUSAL_BY_CODE told of
        Some reason \<Rightarrow> Reason reason
      | None \<Rightarrow> if told \<in> set OBJECT_MEMBERS then Inherited told else Reason InvoiceRefused)"

datatype nwc_error =
    NwcRefused nwc_reason
  | KeyUnusable
  | Uncrypted nip44_error
  | Unreadable
  | Lied

subsection \<open>The connection\<close>

record nwc_connection =
  nwc_walletPubkey :: string
  nwc_relays :: "string list"
  nwc_secret :: string

definition unusable :: nwc_error where
  "unusable = NwcRefused (Reason AddressUnusable)"

definition parsedUri :: "url_parser \<Rightarrow> string \<Rightarrow> nwc_error + url" where
  "parsedUri parse uri =
     (case parse uri of
        None \<Rightarrow> Inl unusable
      | Some u \<Rightarrow> if url_protocol u = SCHEME then Inr u else Inl unusable)"

definition isSecureRelay :: "url_parser \<Rightarrow> string \<Rightarrow> bool" where
  "isSecureRelay parse relay \<longleftrightarrow> (case parse relay of None \<Rightarrow> False | Some u \<Rightarrow> url_protocol u = ''wss:'')"

text \<open>\<open>params\<close> are the \<^verbatim>\<open>searchParams\<close> of a parsed URL.\<close>

definition nwcConnection :: "url_parser \<Rightarrow> (url \<Rightarrow> (string \<times> string) list) \<Rightarrow> string \<Rightarrow> nwc_error + nwc_connection" where
  "nwcConnection parse params uri =
     and_then (parsedUri parse uri) (\<lambda>u.
       (let path = dropWhile (\<lambda>c. c = CHR ''/'') (url_pathname u);
            walletPubkey = (if path \<noteq> [] then path else url_host u);
            secret = (case map_of (params u) ''secret'' of None \<Rightarrow> [] | Some s \<Rightarrow> s);
            relays = map snd (filter (\<lambda>(n, _). n = ''relay'') (params u))
        in if \<not> HEX_32_BYTES walletPubkey then Inl unusable
           else if \<not> HEX_32_BYTES secret then Inl unusable
           else if relays = [] \<or> \<not> list_all (isSecureRelay parse) relays then Inl unusable
           else Inr \<lparr>nwc_walletPubkey = lower walletPubkey, nwc_relays = relays, nwc_secret = lower secret\<rparr>))"

subsection \<open>One relay\<close>

text \<open>
  What comes from a socket before the deadline, in its order: it opens, it fails, or a message arrives. When it ends
  the deadline passes. A message that is no text is no JSON either, so messages are texts.
\<close>

datatype socket_event = Opened | Broken | Frame string

datatype relay_outcome = Answered event | Rejected | DeadlinePassed

definition parsedFrame :: "string \<Rightarrow> json list option" where
  "parsedFrame frame = (case parse_json frame of Some (JArr vs) \<Rightarrow> Some vs | _ \<Rightarrow> None)"

definition nth_of :: "'a list \<Rightarrow> nat \<Rightarrow> 'a option" where
  "nth_of xs i = (if i < length xs then Some (xs ! i) else None)"

definition rejectionOf :: "string \<Rightarrow> string \<Rightarrow> string option" where
  "rejectionOf frame requestId =
     (case parsedFrame frame of
        None \<Rightarrow> None
      | Some vs \<Rightarrow>
          if nth_of vs 0 \<noteq> Some (JStr ''OK'') \<or> nth_of vs 1 \<noteq> Some (JStr requestId) \<or> nth_of vs 2 \<noteq> Some (JBool False) then None
          else (case nth_of vs 3 of
                  Some (JStr s) \<Rightarrow> if s \<noteq> [] then Some s else Some ''no reason given''
                | _ \<Rightarrow> Some ''no reason given''))"

text \<open>\<^verbatim>\<open>tag?.[i]\<close> of a value that was read, and \<^verbatim>\<open>value === n\<close>.\<close>

fun element_of :: "json \<Rightarrow> nat \<Rightarrow> json option" where
  "element_of (JArr vs) i = nth_of vs i"
| "element_of (JObj ms) i = field ms (show_nat i)"
| "element_of (JStr s) i = map_option (\<lambda>c. JStr [c]) (nth_of s i)"
| "element_of _ i = None"

fun same_number :: "rounding \<Rightarrow> json option \<Rightarrow> int \<Rightarrow> bool" where
  "same_number fl (Some (JNum m)) n \<longleftrightarrow> m = n"
| "same_number fl (Some (JFraction t)) n \<longleftrightarrow> double_equal (double_of fl t) (Finite (of_int n))"
| "same_number fl _ n \<longleftrightarrow> False"

record nwc_platform =
  nw_nostr :: nostr
  nw_fl :: rounding
  nw_shortest :: "rat \<Rightarrow> string"
  nw_socket :: "nat \<Rightarrow> string \<Rightarrow> event \<Rightarrow> socket_event list"

definition names_request :: "json option \<Rightarrow> string \<Rightarrow> bool" where
  "names_request tags requestId \<longleftrightarrow>
     (case tags of
        Some (JArr ts) \<Rightarrow> list_ex (\<lambda>tag. element_of tag 0 = Some (JStr ''e'') \<and> element_of tag 1 = Some (JStr requestId)) ts
      | _ \<Rightarrow> False)"

definition answer_to :: "nwc_platform \<Rightarrow> nwc_connection \<Rightarrow> string \<Rightarrow> event \<Rightarrow> bool" where
  "answer_to w c requestId ms \<longleftrightarrow>
     same_number (nw_fl w) (field ms ''kind'') RESPONSE_KIND \<and> field ms ''pubkey'' = Some (JStr (nwc_walletPubkey c)) \<and>
     names_request (field ms ''tags'') requestId \<and> verifyEvent (nw_nostr w) ms"

definition answeredEvent :: "nwc_platform \<Rightarrow> string \<Rightarrow> string \<Rightarrow> nwc_connection \<Rightarrow> string \<Rightarrow> event option" where
  "answeredEvent w frame subscription c requestId =
     (case parsedFrame frame of
        None \<Rightarrow> None
      | Some vs \<Rightarrow>
          if nth_of vs 0 \<noteq> Some (JStr ''EVENT'') \<or> nth_of vs 1 \<noteq> Some (JStr subscription) then None
          else (case nth_of vs 2 of
                  Some (JObj ms) \<Rightarrow> if answer_to w c requestId ms then Some ms else None
                | _ \<Rightarrow> None))"

text \<open>
  What is sent once the socket opens: the subscription first, then the request. A key that names no public key
  has signed no request.
\<close>

definition request_frames :: "nwc_platform \<Rightarrow> nwc_connection \<Rightarrow> string \<Rightarrow> event \<Rightarrow> string list" where
  "request_frames w c requestId request =
     (case publicKeyFor (nw_nostr w) (nwc_secret c) of
        None \<Rightarrow> []
      | Some ours \<Rightarrow>
          [stringify (JArr [JStr ''REQ'', JStr (take 16 requestId),
             JObj [(''kinds'', JArr [JNum RESPONSE_KIND]), (''authors'', JArr [JStr (nwc_walletPubkey c)]),
                   (''#p'', JArr [JStr ours]), (''#e'', JArr [JStr requestId])]]),
           stringify (JArr [JStr ''EVENT'', JObj request])])"

fun heard :: "nwc_platform \<Rightarrow> nwc_connection \<Rightarrow> string \<Rightarrow> event \<Rightarrow> socket_event list \<Rightarrow> string list \<Rightarrow> relay_outcome \<times> string list" where
  "heard w c requestId request [] sent = (DeadlinePassed, sent)"
| "heard w c requestId request (Opened # es) sent =
     heard w c requestId request es (sent @ request_frames w c requestId request)"
| "heard w c requestId request (Broken # es) sent = (Rejected, sent)"
| "heard w c requestId request (Frame frame # es) sent =
     (if rejectionOf frame requestId \<noteq> None then (Rejected, sent)
      else (case answeredEvent w frame (take 16 requestId) c requestId of
              None \<Rightarrow> heard w c requestId request es sent
            | Some answer \<Rightarrow> (Answered answer, sent)))"

definition event_id :: "event \<Rightarrow> string" where
  "event_id ms = (case field ms ''id'' of Some (JStr i) \<Rightarrow> i | _ \<Rightarrow> [])"

definition overRelay :: "nwc_platform \<Rightarrow> nat \<Rightarrow> string \<Rightarrow> nwc_connection \<Rightarrow> event \<Rightarrow> relay_outcome \<times> string list" where
  "overRelay w timeoutMs relay c request = heard w c (event_id request) request (nw_socket w timeoutMs relay request) []"

text \<open>What was sent is kept with the relay it went to. A deadline that has passed ends the search.\<close>

type_synonym sent_over = "(string \<times> string) list"

fun overFirstRelayThatAnswers :: "nwc_platform \<Rightarrow> nat \<Rightarrow> nwc_connection \<Rightarrow> event \<Rightarrow> string list \<Rightarrow> sent_over \<Rightarrow>
    (nwc_error + event) \<times> sent_over" where
  "overFirstRelayThatAnswers w timeoutMs c request [] sent = (Inl (NwcRefused (Reason Unreachable)), sent)"
| "overFirstRelayThatAnswers w timeoutMs c request (relay # relays) sent =
     (case overRelay w timeoutMs relay c request of
        (Answered answer, frames) \<Rightarrow> (Inr answer, sent @ map (Pair relay) frames)
      | (Rejected, frames) \<Rightarrow> overFirstRelayThatAnswers w timeoutMs c request relays (sent @ map (Pair relay) frames)
      | (DeadlinePassed, frames) \<Rightarrow> (Inl (NwcRefused (Reason Unreachable)), sent @ map (Pair relay) frames))"

subsection \<open>One call\<close>

text \<open>A member of a value that need be no object.\<close>

fun member_of :: "json \<Rightarrow> string \<Rightarrow> json option" where
  "member_of (JObj ms) name = field ms name"
| "member_of _ name = None"

definition code_told :: "nwc_platform \<Rightarrow> json \<Rightarrow> string" where
  "code_told w failure =
     (let told = member_of failure ''code'' in if missing told then [] else json_text (nw_fl w) (nw_shortest w) (the told))"

definition resultOf :: "nwc_platform \<Rightarrow> json \<Rightarrow> nwc_error + json" where
  "resultOf w said =
     (if said = JNull then Inl Unreadable
      else if \<not> falsy (member_of said ''error'') then Inl (NwcRefused (refusal_by_code (code_told w (the (member_of said ''error'')))))
      else (case member_of said ''result'' of
              Some (JObj ms) \<Rightarrow> Inr (JObj ms)
            | Some (JArr vs) \<Rightarrow> Inr (JArr vs)
            | _ \<Rightarrow> Inl (NwcRefused (Reason InvoiceRefused))))"

text \<open>The random bytes of the message and the time of the request, in milliseconds.\<close>

type_synonym moment = "bytes \<times> int"

definition signed_request :: "nwc_platform \<Rightarrow> nwc_connection \<Rightarrow> bytes \<Rightarrow> string \<Rightarrow> json \<Rightarrow> moment \<Rightarrow> nwc_error + event" where
  "signed_request w c key way params m =
     (case encryptNip44 (nw_nostr w) (fst m) key (stringify (JObj [(''method'', JStr way), (''params'', params)])) of
        Inl e \<Rightarrow> Inl (Uncrypted e)
      | Inr content \<Rightarrow>
          (case signEvent (nw_nostr w) (nwc_secret c)
                  \<lparr>draft_kind = REQUEST_KIND, draft_tags = [[''p'', nwc_walletPubkey c], [''encryption'', NIP44_V2]],
                   draft_content = content, draft_created_at = snd m div 1000\<rparr> of
             None \<Rightarrow> Inl KeyUnusable
           | Some request \<Rightarrow> Inr request))"

definition read_answer :: "nwc_platform \<Rightarrow> bytes \<Rightarrow> event \<Rightarrow> nwc_error + json" where
  "read_answer w key answer =
     (case field answer ''content'' of
        Some (JStr content) \<Rightarrow>
          (case decryptNip44 (nw_nostr w) key content of
             Inl e \<Rightarrow> Inl (Uncrypted e)
           | Inr opened \<Rightarrow> (case parse_json opened of None \<Rightarrow> Inl Unreadable | Some said \<Rightarrow> resultOf w said))
      | _ \<Rightarrow> Inl Unreadable)"

definition askWallet :: "nwc_platform \<Rightarrow> nwc_connection \<Rightarrow> string \<Rightarrow> json \<Rightarrow> nat \<Rightarrow> moment \<Rightarrow> (nwc_error + json) \<times> sent_over" where
  "askWallet w c way params timeoutMs m =
     (case conversationKeyFor (nw_nostr w) (nwc_secret c) (nwc_walletPubkey c) of
        None \<Rightarrow> (Inl KeyUnusable, [])
      | Some key \<Rightarrow>
          (case signed_request w c key way params m of
             Inl e \<Rightarrow> (Inl e, [])
           | Inr request \<Rightarrow>
               (case overFirstRelayThatAnswers w timeoutMs c request (nwc_relays c) [] of
                  (Inl e, sent) \<Rightarrow> (Inl e, sent)
                | (Inr answer, sent) \<Rightarrow> (read_answer w key answer, sent))))"

definition then_read :: "('e + 'a) \<times> 's \<Rightarrow> ('a \<Rightarrow> 'e + 'b) \<Rightarrow> ('e + 'b) \<times> 's" where
  "then_read r f = (and_then (fst r) f, snd r)"

subsection \<open>Invoices, settlements and payments\<close>

record nwc_invoice =
  ni_bolt11 :: string
  ni_paymentHash :: string
  ni_expiresAt :: int

definition invoice_refused :: nwc_error where
  "invoice_refused = NwcRefused (Reason InvoiceRefused)"

definition invoice_told :: "nwc_platform \<Rightarrow> json \<Rightarrow> string" where
  "invoice_told w said =
     (let told = member_of said ''invoice'' in if missing told then [] else json_text (nw_fl w) (nw_shortest w) (the told))"

definition issued_for :: "nwc_platform \<Rightarrow> int \<Rightarrow> string option \<Rightarrow> json \<Rightarrow> nwc_error + nwc_invoice" where
  "issued_for w asked hash said =
     (let text = invoice_told w said; issued = decodeInvoice text
      in case (invoice_paymentHash issued, invoice_expiresAt issued) of
           (Some carried, Some expires) \<Rightarrow>
             if (case hash of None \<Rightarrow> False | Some h \<Rightarrow> lower carried \<noteq> lower h) then Inl invoice_refused
             else if map_option int (invoice_amountMsat issued) \<noteq> Some asked then Inl invoice_refused
             else Inr \<lparr>ni_bolt11 = text, ni_paymentHash = carried, ni_expiresAt = int expires\<rparr>
         | _ \<Rightarrow> Inl invoice_refused)"

definition nwcInvoice :: "nwc_platform \<Rightarrow> nwc_connection \<Rightarrow> int \<Rightarrow> string \<Rightarrow> nat option \<Rightarrow> moment \<Rightarrow> (nwc_error + nwc_invoice) \<times> sent_over" where
  "nwcInvoice w c asked description timeoutMs m =
     then_read (askWallet w c ''make_invoice'' (JObj [(''amount'', JNum asked), (''description'', JStr description)])
       (case timeoutMs of None \<Rightarrow> DEFAULT_ASK_TIMEOUT_MS | Some t \<Rightarrow> t) m) (issued_for w asked None)"

record held_terms =
  held_paymentHash :: string
  held_amountMsat :: int
  held_description :: string
  held_expirySecs :: int
  held_minCltvExpiryDelta :: "int option"

definition held_json :: "held_terms \<Rightarrow> json" where
  "held_json h = JObj
     ([(''amount'', JNum (held_amountMsat h)), (''description'', JStr (held_description h)), (''payment_hash'', JStr (held_paymentHash h)),
       (''expiry'', JNum (held_expirySecs h))] @
      (case held_minCltvExpiryDelta h of None \<Rightarrow> [] | Some d \<Rightarrow> [(''min_cltv_expiry_delta'', JNum d)]))"

definition nwcHoldInvoice :: "nwc_platform \<Rightarrow> nwc_connection \<Rightarrow> held_terms \<Rightarrow> nat option \<Rightarrow> moment \<Rightarrow> (nwc_error + nwc_invoice) \<times> sent_over" where
  "nwcHoldInvoice w c h timeoutMs m =
     then_read (askWallet w c ''make_hold_invoice'' (held_json h) (case timeoutMs of None \<Rightarrow> DEFAULT_ASK_TIMEOUT_MS | Some t \<Rightarrow> t) m)
       (issued_for w (held_amountMsat h) (Some (held_paymentHash h)))"

definition preimage_released :: "string \<Rightarrow> json \<Rightarrow> nwc_error + string option" where
  "preimage_released wanted said =
     (case member_of said ''preimage'' of
        Some (JStr secret) \<Rightarrow>
          if secret = [] then Inr None else if \<not> preimageMatchesHash secret wanted then Inl Lied else Inr (Some secret)
      | _ \<Rightarrow> Inr None)"

definition nwcSettlement :: "nwc_platform \<Rightarrow> nwc_connection \<Rightarrow> string \<Rightarrow> nat option \<Rightarrow> moment \<Rightarrow> (nwc_error + string option) \<times> sent_over" where
  "nwcSettlement w c wanted timeoutMs m =
     then_read (askWallet w c ''lookup_invoice'' (JObj [(''payment_hash'', JStr wanted)])
       (case timeoutMs of None \<Rightarrow> DEFAULT_ASK_TIMEOUT_MS | Some t \<Rightarrow> t) m) (preimage_released wanted)"

definition receipt_of :: "string \<Rightarrow> json \<Rightarrow> nwc_error + string" where
  "receipt_of owed said =
     (case member_of said ''preimage'' of
        Some (JStr secret) \<Rightarrow> if preimageMatchesHash secret owed then Inr secret else Inl Lied
      | _ \<Rightarrow> Inl Lied)"

definition nwcPay :: "nwc_platform \<Rightarrow> nwc_connection \<Rightarrow> string \<Rightarrow> nat option \<Rightarrow> moment \<Rightarrow> (nwc_error + string) \<times> sent_over" where
  "nwcPay w c text timeoutMs m =
     (case invoice_paymentHash (decodeInvoice text) of
        None \<Rightarrow> (Inl invoice_refused, [])
      | Some owed \<Rightarrow>
          then_read (askWallet w c ''pay_invoice'' (JObj [(''invoice'', JStr text)])
            (case timeoutMs of None \<Rightarrow> PAY_TIMEOUT_MS | Some t \<Rightarrow> t) m) (receipt_of owed))"

subsection \<open>The verify endpoint and the rail\<close>

record nwc_verify =
  nv_connection :: nwc_connection
  nv_secret :: string
  nv_pollEverySecs :: "int option"
  nv_askTimeoutMs :: "nat option"

definition nwcVerifyEndpoint :: "nwc_platform \<Rightarrow> pages \<Rightarrow> sealing \<Rightarrow> nwc_verify \<Rightarrow> incoming \<Rightarrow> moment \<Rightarrow>
    (relay_error + served_reply) \<times> sent_over" where
  "nwcVerifyEndpoint w ps plat cfg r m =
     (case answerVerifyChallenge r of
        Some consented \<Rightarrow> (Inr consented, [])
      | None \<Rightarrow>
          (case read_page ps (in_url r) of
             None \<Rightarrow> (Inl BadUrl, [])
           | Some p \<Rightarrow>
               (case get_param HASH_PARAM p of
                  None \<Rightarrow> (Inr (unsettled 400 []), [])
                | Some blob \<Rightarrow>
                    (case unsealFor plat NwcVerify (nv_secret cfg) blob of
                       Inl e \<Rightarrow> (Inl (Sealing e), [])
                     | Inr None \<Rightarrow> (Inr (unsettled 403 []), [])
                     | Inr (Some wanted) \<Rightarrow>
                         (case nwcSettlement w (nv_connection cfg) wanted (nv_askTimeoutMs cfg) m of
                            (Inl _, sent) \<Rightarrow> (Inr (unsettled 502 []), sent)
                          | (Inr secret, sent) \<Rightarrow>
                              (Inr (json_reply 200 (paced (nv_pollEverySecs cfg) NWC_POLL_EVERY_SECS)
                                 (JObj [(''settled'', JBool (secret \<noteq> None)), (''preimage'', nullable JStr secret)])), sent))))))"

definition nwcVerifyUrl :: "pages \<Rightarrow> sealing \<Rightarrow> bytes \<Rightarrow> string \<Rightarrow> string \<Rightarrow> string \<Rightarrow> relay_error + string" where
  "nwcVerifyUrl ps plat drawn endpoint wanted secret =
     (case read_page ps endpoint of
        None \<Rightarrow> Inl BadUrl
      | Some p \<Rightarrow>
          (case sealFor plat drawn NwcVerify secret wanted False of
             Inl e \<Rightarrow> Inl (Sealing e)
           | Inr blob \<Rightarrow> Inr (write_page ps (set_param HASH_PARAM blob p))))"

record nwc_rail = rail_config +
  nr_connection :: nwc_connection
  nr_amount :: "(order \<Rightarrow> price_error + rat) option"
  nr_verifyThrough :: verify_through
  nr_description :: "order \<Rightarrow> string option"
  nr_sealed :: "(string \<times> (order \<Rightarrow> json)) option"

datatype nwc_rail_error = WalletFailed nwc_error | RailFailed rail_error

definition nwc_handover :: "shop \<Rightarrow> drawn \<Rightarrow> nwc_rail \<Rightarrow> order \<Rightarrow> nwc_invoice \<Rightarrow> rail_error + handover" where
  "nwc_handover sh drawn cfg ord invoice =
     (case nwcVerifyUrl (sh_pages sh) (sh_sealing sh) (dr_relay drawn) (through_endpoint (nr_verifyThrough cfg)) (ni_paymentHash invoice)
             (through_secret (nr_verifyThrough cfg)) of
        Inl e \<Rightarrow> Inl (RailRelay e)
      | Inr url \<Rightarrow>
          (case sealed_for (sh_sealing sh) (dr_seal drawn) (nr_sealed cfg) ord (ni_paymentHash invoice) of
             Inl e \<Rightarrow> Inl (RailSeal e)
           | Inr blob \<Rightarrow>
               Inr \<lparr>hand_paymentHash = ni_paymentHash invoice, hand_verifyUrl = url, hand_expiresAt = ni_expiresAt invoice,
                    hand_trigger = rail_trigger cfg, hand_replay = rail_replay cfg, hand_sealed = blob,
                    hand_webhookUrl = rail_webhookUrl cfg\<rparr>))"

definition nwcRail :: "shop \<Rightarrow> nwc_platform \<Rightarrow> (string \<Rightarrow> price_error + rat) \<Rightarrow> drawn \<Rightarrow> int \<Rightarrow> nwc_rail \<Rightarrow> order \<Rightarrow> client \<Rightarrow>
    (nwc_rail_error + leg) \<times> (client \<times> sent_over)" where
  "nwcRail sh w rate drawn now cfg ord c =
     (case msatForOrder ord (nr_amount cfg) rate of
        Inl e \<Rightarrow> (Inl (RailFailed (RailPrice e)), (c, []))
      | Inr asked \<Rightarrow>
          (case nwcInvoice w (nr_connection cfg) asked
                  (case nr_description cfg ord of None \<Rightarrow> ord_reference ord | Some d \<Rightarrow> d) None (dr_nonce drawn, now) of
             (Inl e, sent) \<Rightarrow> (Inl (WalletFailed e), (c, sent))
           | (Inr invoice, sent) \<Rightarrow>
               (case nwc_handover sh drawn cfg ord invoice of
                  Inl e \<Rightarrow> (Inl (RailFailed e), (c, sent))
                | Inr h \<Rightarrow>
                    (case client_watch (sh_around sh) h c of
                       (Inl e, c') \<Rightarrow> (Inl (RailFailed (RailClient e)), (c', sent))
                     | (Inr watched, c') \<Rightarrow>
                         (Inr \<lparr>leg_id = rep_id (reported_of watched), leg_paymentHash = ni_paymentHash invoice,
                               leg_rail = rail_called LIGHTNING (rail_name cfg), leg_scan = ni_bolt11 invoice,
                               leg_qr = toLightningUri (ni_bolt11 invoice), leg_expiresAt = ni_expiresAt invoice\<rparr>, (c', sent))))))"

subsection \<open>An answer is the wallet's own\<close>

definition came_over :: "nwc_platform \<Rightarrow> nat \<Rightarrow> nwc_connection \<Rightarrow> event \<Rightarrow> event \<Rightarrow> bool" where
  "came_over w timeoutMs c request answer \<longleftrightarrow>
     (\<exists>relay\<in>set (nwc_relays c). \<exists>frame vs. Frame frame \<in> set (nw_socket w timeoutMs relay request) \<and>
        parse_json frame = Some (JArr vs) \<and> nth_of vs 2 = Some (JObj answer))"

lemma answeredEvent_SomeD:
  assumes "answeredEvent w frame subscription c requestId = Some answer"
  shows "answer_to w c requestId answer" "\<exists>vs. parse_json frame = Some (JArr vs) \<and> nth_of vs 2 = Some (JObj answer)"
  using assms by (auto simp: answeredEvent_def parsedFrame_def split: option.splits json.splits if_splits)

lemma heard_AnsweredD:
  "heard w c requestId request es sent = (Answered answer, sent') \<Longrightarrow>
     \<exists>frame. Frame frame \<in> set es \<and> answeredEvent w frame (take 16 requestId) c requestId = Some answer"
  by (induction w c requestId request es sent rule: heard.induct) (auto split: if_splits option.splits)

lemma overFirst_InrD:
  "overFirstRelayThatAnswers w timeoutMs c request relays sent = (Inr answer, sent') \<Longrightarrow>
     \<exists>relay\<in>set relays. \<exists>frame. Frame frame \<in> set (nw_socket w timeoutMs relay request) \<and>
       answeredEvent w frame (take 16 (event_id request)) c (event_id request) = Some answer"
  by (induction w timeoutMs c request relays sent rule: overFirstRelayThatAnswers.induct)
    (auto simp: overRelay_def dest!: heard_AnsweredD split: prod.splits relay_outcome.splits)

lemma resultOf_InrD:
  assumes "resultOf w said = Inr result"
  shows "member_of said ''result'' = Some result" "falsy (member_of said ''error'')"
  using assms by (auto simp: resultOf_def split: if_splits option.splits json.splits)

text \<open>
  An answer is the wallet's own, and to the very request. What a call gives came in a message of one of the
  connection's relays on the socket that was opened for this request; the event in it carries a good signature of the
  wallet's key over its own members, names the request's id, and its content opens under the key that only the two
  sides share, to a result that stands beside no error. An event that answers another request is no answer.
\<close>

theorem answer_is_the_wallets:
  assumes "askWallet w c way params timeoutMs m = (Inr result, sent)"
  shows "\<exists>key request answer content opened said.
    conversationKeyFor (nw_nostr w) (nwc_secret c) (nwc_walletPubkey c) = Some key \<and>
    signed_request w c key way params m = Inr request \<and> came_over w timeoutMs c request answer \<and>
    verifyEvent (nw_nostr w) answer \<and> field answer ''pubkey'' = Some (JStr (nwc_walletPubkey c)) \<and>
    names_request (field answer ''tags'') (event_id request) \<and>
    field answer ''content'' = Some (JStr content) \<and> decryptNip44 (nw_nostr w) key content = Inr opened \<and>
    parse_json opened = Some said \<and> member_of said ''result'' = Some result \<and> falsy (member_of said ''error'')"
proof -
  obtain key request where made: "conversationKeyFor (nw_nostr w) (nwc_secret c) (nwc_walletPubkey c) = Some key"
    "signed_request w c key way params m = Inr request"
    using assms by (auto simp: askWallet_def split: option.splits sum.splits)
  with assms obtain answer where got: "overFirstRelayThatAnswers w timeoutMs c request (nwc_relays c) [] = (Inr answer, sent)"
    "read_answer w key answer = Inr result"
    by (auto simp: askWallet_def split: sum.splits prod.splits)
  obtain content opened said where "field answer ''content'' = Some (JStr content)" "decryptNip44 (nw_nostr w) key content = Inr opened"
    "parse_json opened = Some said" "resultOf w said = Inr result"
    using got(2) by (auto simp: read_answer_def split: option.splits json.splits sum.splits)
  moreover obtain relay frame where "relay \<in> set (nwc_relays c)" "Frame frame \<in> set (nw_socket w timeoutMs relay request)"
    and ev: "answeredEvent w frame (take 16 (event_id request)) c (event_id request) = Some answer"
    using overFirst_InrD [OF got(1)] by blast
  moreover have "answer_to w c (event_id request) answer" using answeredEvent_SomeD [OF ev] by blast
  ultimately show ?thesis
    using made answeredEvent_SomeD(2) [OF ev] resultOf_InrD unfolding came_over_def answer_to_def by blast
qed

text \<open>What comes before an answer and does not stop it: the socket opening, and messages that are neither a refusal nor an answer.\<close>

fun passes :: "nwc_platform \<Rightarrow> nwc_connection \<Rightarrow> string \<Rightarrow> socket_event \<Rightarrow> bool" where
  "passes w c requestId Opened \<longleftrightarrow> True"
| "passes w c requestId Broken \<longleftrightarrow> False"
| "passes w c requestId (Frame frame) \<longleftrightarrow>
     rejectionOf frame requestId = None \<and> answeredEvent w frame (take 16 requestId) c requestId = None"

text \<open>
  A relay that takes the socket and stays silent uses up the deadline that all relays share, so none after it is tried;
  and a wallet that refuses with a code that names a member of every object gives a reason that is no reason.
\<close>

lemma silent_relay_ends_the_search:
  assumes "list_all (passes w c (event_id request)) (nw_socket w timeoutMs relay request)"
  shows "\<exists>sent'. overFirstRelayThatAnswers w timeoutMs c request (relay # relays) sent = (Inl (NwcRefused (Reason Unreachable)), sent')"
proof -
  have "\<exists>frames. heard w c (event_id request) request es sent0 = (DeadlinePassed, frames)"
    if "list_all (passes w c (event_id request)) es" for es sent0
    using that
  proof (induction es arbitrary: sent0)
    case (Cons e es)
    then show ?case by (cases e) simp_all
  qed simp
  then obtain frames where "overRelay w timeoutMs relay c request = (DeadlinePassed, frames)"
    using assms unfolding overRelay_def by blast
  then show ?thesis by simp
qed

lemma refusal_without_a_reason:
  "resultOf w (JObj [(''error'', JObj [(''code'', JStr ''constructor'')])]) = Inl (NwcRefused (Inherited ''constructor''))"
  by (simp add: resultOf_def code_told_def missing_def refusal_by_code_def REFUSAL_BY_CODE_def OBJECT_MEMBERS_def)

subsection \<open>A wallet that answers is heard\<close>

lemma heard_passes:
  assumes "list_all (passes w c requestId) before" "rejectionOf frame requestId = None"
    "answeredEvent w frame (take 16 requestId) c requestId = Some answer"
  shows "\<exists>sent'. heard w c requestId request (before @ Frame frame # after) sent = (Answered answer, sent')"
  using assms(1)
proof (induction before arbitrary: sent)
  case (Cons e before)
  then show ?case by (cases e) simp_all
qed (simp add: assms(2,3))

lemma overFirst_tried:
  assumes "\<forall>relay\<in>set tried. \<exists>frames. overRelay w timeoutMs relay c request = (Rejected, frames)"
    "overRelay w timeoutMs relay c request = (Answered answer, frames)"
  shows "\<exists>sent'. overFirstRelayThatAnswers w timeoutMs c request (tried @ relay # rest) sent = (Inr answer, sent')"
  using assms(1) by (induction tried arbitrary: sent) (auto simp: assms(2))

definition answer_frame :: "string \<Rightarrow> event \<Rightarrow> string" where
  "answer_frame requestId reply = stringify (JArr [JStr ''EVENT'', JStr (take 16 requestId), JObj reply])"

text \<open>What a wallet service sends when a request asks it: its answer sealed under the common key, and signed.\<close>

definition wallet_reply :: "nostr \<Rightarrow> bytes \<Rightarrow> string \<Rightarrow> bytes \<Rightarrow> int \<Rightarrow> string list list \<Rightarrow> json \<Rightarrow> event \<Rightarrow> bool" where
  "wallet_reply k key wallet_secret nonce stamp tags said reply \<longleftrightarrow>
     (\<exists>content. sealNip44 k key (stringify said) nonce = Inr content \<and>
        signEvent k wallet_secret \<lparr>draft_kind = 23195, draft_tags = tags, draft_content = content, draft_created_at = stamp\<rparr> = Some reply)"

lemma wallet_reply_answers:
  assumes "nostr_reads (nw_nostr w)" "nostr_signs (nw_nostr w)" "length nonce = 32"
    and "publicKeyFor (nw_nostr w) wallet_secret = Some (nwc_walletPubkey c)"
    and "wallet_reply (nw_nostr w) key wallet_secret nonce stamp tags said reply"
    and "[''e'', requestId] \<in> set tags" "json_plain said"
  shows "rejectionOf (answer_frame requestId reply) requestId = None"
    "answeredEvent w (answer_frame requestId reply) (take 16 requestId) c requestId = Some reply"
    "read_answer w key reply = resultOf w said"
proof -
  obtain content where content: "sealNip44 (nw_nostr w) key (stringify said) nonce = Inr content"
    and signed: "signEvent (nw_nostr w) wallet_secret \<lparr>draft_kind = 23195, draft_tags = tags, draft_content = content, draft_created_at = stamp\<rparr> = Some reply"
    using assms(5) unfolding wallet_reply_def by blast
  let ?d = "\<lparr>draft_kind = 23195, draft_tags = tags, draft_content = content, draft_created_at = stamp\<rparr>"
  obtain eid sig where reply: "reply = [(''id'', JStr eid), (''pubkey'', JStr (nwc_walletPubkey c))] @ draft_event ?d @ [(''sig'', JStr sig)]"
    using signEvent_SomeD(1) [OF assms(2) signed assms(4)] by blast
  have "json_plain (JArr [JStr ''EVENT'', JStr (take 16 requestId), JObj reply])"
    by (simp add: reply draft_event_def list_all_iff)
  then have frame: "parsedFrame (answer_frame requestId reply) = Some [JStr ''EVENT'', JStr (take 16 requestId), JObj reply]"
    by (simp only: parsedFrame_def answer_frame_def parse_stringify option.case json.case)
  then show "rejectionOf (answer_frame requestId reply) requestId = None"
    by (simp add: rejectionOf_def nth_of_def)
  have "names_request (field reply ''tags'') requestId"
    using assms(6) by (auto simp: names_request_def reply draft_event_def list_ex_iff nth_of_def intro!: bexI [of _ "[''e'', requestId]"])
  then have "answer_to w c requestId reply"
    using signEvent_SomeD(2) [OF assms(2) signed assms(4)]
    by (simp add: answer_to_def RESPONSE_KIND_def) (simp add: reply draft_event_def)
  then show "answeredEvent w (answer_frame requestId reply) (take 16 requestId) c requestId = Some reply"
    by (simp add: answeredEvent_def frame nth_of_def)
  have "decryptNip44 (nw_nostr w) key content = Inr (stringify said)" using assms(1,3) content by (rule sealNip44_opens)
  then show "read_answer w key reply = resultOf w said"
    using assms(7) by (simp add: read_answer_def reply draft_event_def parse_stringify)
qed

lemma wallet_heard:
  assumes "nostr_reads (nw_nostr w)" "nostr_signs (nw_nostr w)"
    and "conversationKeyFor (nw_nostr w) (nwc_secret c) (nwc_walletPubkey c) = Some key"
    and "publicKeyFor (nw_nostr w) wallet_secret = Some (nwc_walletPubkey c)"
    and "signed_request w c key way params m = Inr request"
    and "nwc_relays c = tried @ relay # rest" "\<forall>relay\<in>set tried. \<exists>frames. overRelay w timeoutMs relay c request = (Rejected, frames)"
    and "nw_socket w timeoutMs relay request = before @ Frame (answer_frame (event_id request) reply) # after"
    and "list_all (passes w c (event_id request)) before"
    and "wallet_reply (nw_nostr w) key wallet_secret nonce stamp tags said reply" "length nonce = 32"
    and "[''e'', event_id request] \<in> set tags" "json_plain said"
  shows "fst (askWallet w c way params timeoutMs m) = resultOf w said"
proof -
  note reply = wallet_reply_answers [OF assms(1,2,11,4,10,12,13)]
  obtain frames where "overRelay w timeoutMs relay c request = (Answered reply, frames)"
    using heard_passes [OF assms(9) reply(1,2), of request "after" "[]"] by (auto simp: overRelay_def assms(8))
  then obtain sent where "overFirstRelayThatAnswers w timeoutMs c request (nwc_relays c) [] = (Inr reply, sent)"
    using overFirst_tried [OF assms(7)] assms(6) by metis
  then show ?thesis using reply(3) by (simp add: askWallet_def assms(3,5))
qed

text \<open>
  C40: a wallet that answers is heard, and believed only with a proof. Over the first relay that does not refuse, whatever
  other messages come before, the answer that the wallet seals under the common key and signs for this request
  reaches the caller: nothing that was released is none, a preimage of the hash is that preimage, and a preimage of
  anything else is a lie that is not passed on.
\<close>

theorem released_preimage_is_found:
  assumes "nostr_reads (nw_nostr w)" "nostr_signs (nw_nostr w)"
    and "conversationKeyFor (nw_nostr w) (nwc_secret c) (nwc_walletPubkey c) = Some key"
    and "publicKeyFor (nw_nostr w) wallet_secret = Some (nwc_walletPubkey c)"
    and "signed_request w c key ''lookup_invoice'' (JObj [(''payment_hash'', JStr wanted)]) m = Inr request"
    and "nwc_relays c = tried @ relay # rest" "\<forall>relay\<in>set tried. \<exists>frames. overRelay w timeoutMs relay c request = (Rejected, frames)"
    and "nw_socket w timeoutMs relay request = before @ Frame (answer_frame (event_id request) reply) # after"
    and "list_all (passes w c (event_id request)) before"
    and "wallet_reply (nw_nostr w) key wallet_secret nonce stamp tags
      (JObj [(''result_type'', JStr ''lookup_invoice''), (''result'', JObj [(''preimage'', nullable JStr secret)])]) reply"
    and "length nonce = 32" "[''e'', event_id request] \<in> set tags"
  shows "fst (nwcSettlement w c wanted (Some timeoutMs) m) =
    (case secret of
       None \<Rightarrow> Inr None
     | Some told \<Rightarrow> if told = [] then Inr None else if preimageMatchesHash told wanted then Inr (Some told) else Inl Lied)"
proof -
  let ?said = "JObj [(''result_type'', JStr ''lookup_invoice''), (''result'', JObj [(''preimage'', nullable JStr secret)])]"
  have "json_plain ?said" by (cases secret) (simp_all add: nullable_def)
  with assms(1-12) have "fst (askWallet w c ''lookup_invoice'' (JObj [(''payment_hash'', JStr wanted)]) timeoutMs m) = resultOf w ?said"
    by (rule wallet_heard)
  moreover have "resultOf w ?said = Inr (JObj [(''preimage'', nullable JStr secret)])" by (simp add: resultOf_def)
  ultimately show ?thesis
    by (auto simp: nwcSettlement_def then_read_def preimage_released_def nullable_def split: option.split)
qed

subsection \<open>The gateway learns what the wallet released\<close>

lemma nwc_opens:
  assumes "nwcVerifyUrl ps plat drawn endpoint wanted secret = Inr url" "platform_opens plat" "pages_keep ps"
    and "length drawn = 12" "length (utf8 wanted) \<le> 3000"
  obtains p blob where "read_page ps url = Some p" "get_param HASH_PARAM p = Some blob"
    "unsealFor plat NwcVerify secret blob = Inr (Some wanted)"
proof -
  obtain p blob where p: "read_page ps endpoint = Some p" "url = write_page ps (set_param HASH_PARAM blob p)"
    and blob: "sealFor plat drawn NwcVerify secret wanted False = Inr blob"
    using assms(1) by (auto simp: nwcVerifyUrl_def split: option.splits sum.splits)
  have "unsealFor plat NwcVerify secret blob = Inr (Some wanted)"
    using sealed_for_its_purpose [OF assms(2,5,4), of secret NwcVerify False None drawn] blob by (auto split: if_splits)
  moreover have "read_page ps url = Some (set_param HASH_PARAM blob p)" using pages_keep_one [OF assms(3) p(1)] p(2) by simp
  ultimately show ?thesis using that by simp
qed

lemma nwcSettlement_proves:
  assumes "nwcSettlement w c wanted timeoutMs m = (Inr (Some secret), sent)"
  shows "preimageMatchesHash secret wanted \<and> secret \<noteq> []"
  using assms by (auto simp: nwcSettlement_def then_read_def preimage_released_def split: option.splits json.splits if_splits sum.splits elim!: and_then.elims)

text \<open>
  C39: the gateway learns what the wallet released. For the address that was handed to the gateway, the endpoint asks
  the wallet for the very hash that is sealed in it, once. When the wallet gives no answer, or one that lies, the
  endpoint says that it could not be asked and not that nothing settled; when it gives one, the gateway, whatever
  lies between it and the endpoint, concludes that the payment settled exactly when the wallet released a preimage
  of the hash, holds that preimage, and polls again at the pace of the endpoint.
\<close>

theorem gateway_learns_from_the_wallet:
  assumes "nwcVerifyUrl ps plat drawn endpoint wanted (nv_secret cfg) = Inr url"
    and "platform_opens plat" "pages_keep ps" "length drawn = 12" "length (utf8 wanted) \<le> 3000"
    and "nv_pollEverySecs cfg = Some n" "0 \<le> n"
    and "nwcSettlement w (nv_connection cfg) wanted (nv_askTimeoutMs cfg) m = (found, sent)"
  shows "\<exists>reply. nwcVerifyEndpoint w ps plat cfg
      \<lparr>in_method = ''GET'', in_url = url, in_headers = hs, in_body = body\<rparr> m = (Inr reply, sent) \<and>
    (case found of
       Inl _ \<Rightarrow> out_status reply = 502
     | Inr got \<Rightarrow> out_status reply = 200 \<and> (\<forall>secret. got = Some secret \<longrightarrow> preimageMatchesHash secret wanted) \<and>
         (\<forall>net trace said trace'. parse_json (out_body reply) = Some said \<and>
            answeredJson net url True trace = (Inr (said, out_headers reply), trace') \<longrightarrow>
            (\<exists>s. checkSettled net url wanted trace = (Some s, trace') \<and> settled_preimage s = got \<and>
               settled_pace s = Some (min (max (nat n) MIN_PACE_SECS) MAX_PACE_SECS))))"
proof -
  let ?r = "\<lparr>in_method = ''GET'', in_url = url, in_headers = hs, in_body = body\<rparr>"
  let ?paced = "paced (nv_pollEverySecs cfg) NWC_POLL_EVERY_SECS"
  let ?said = "\<lambda>got. JObj [(''settled'', JBool (got \<noteq> None)), (''preimage'', nullable JStr got)]"
  obtain p blob where opens: "read_page ps url = Some p" "get_param HASH_PARAM p = Some blob"
    "unsealFor plat NwcVerify (nv_secret cfg) blob = Inr (Some wanted)" using assms(1-5) by (rule nwc_opens)
  have "answerVerifyChallenge ?r = None" by (simp add: answerVerifyChallenge_def)
  with opens have asked: "nwcVerifyEndpoint w ps plat cfg ?r m =
      (case found of
         Inl _ \<Rightarrow> (Inr (unsettled 502 []), sent)
       | Inr got \<Rightarrow> (Inr (json_reply 200 ?paced (?said got)), sent))"
    by (simp add: nwcVerifyEndpoint_def assms(8) split: sum.split)
  show ?thesis
  proof (cases found)
    case (Inl e)
    then show ?thesis using asked by (simp add: unsettled_def json_reply_def)
  next
    case (Inr got)
    let ?reply = "json_reply 200 ?paced (?said got)"
    have "json_plain (?said got)" by (cases got) (simp_all add: nullable_def)
    then have parsed: "parse_json (out_body ?reply) = Some (?said got)" by (simp only: json_reply_def served_reply.simps parse_stringify)
    have proved: "\<forall>secret. got = Some secret \<longrightarrow> preimageMatchesHash secret wanted \<and> secret \<noteq> []"
      using nwcSettlement_proves assms(8) Inr by blast
    have "checkSettled net url wanted trace = (Some \<lparr>settled_preimage = got, settled_pace = paceAskedFor (out_headers ?reply),
        settled_ceiling = ceilingAskedFor (out_headers ?reply)\<rparr>, trace')"
      if "answeredJson net url True trace = (Inr (?said got, out_headers ?reply), trace')" for net trace trace'
      using that proved by (rule checkSettled_relayed)
    moreover have "paceAskedFor (out_headers ?reply) = Some (min (max (nat n) MIN_PACE_SECS) MAX_PACE_SECS)"
      using pace_written [OF assms(7), of NWC_POLL_EVERY_SECS] by (simp add: json_reply_def assms(6))
    ultimately show ?thesis using asked parsed proved by (auto simp: Inr json_reply_def)
  qed
qed

subsection \<open>What the rail shows\<close>

lemma issued_for_InrD:
  assumes "issued_for w asked hash said = Inr invoice"
  shows "invoice_paymentHash (decodeInvoice (ni_bolt11 invoice)) = Some (ni_paymentHash invoice)"
    "map_option int (invoice_amountMsat (decodeInvoice (ni_bolt11 invoice))) = Some asked"
    "map_option int (invoice_expiresAt (decodeInvoice (ni_bolt11 invoice))) = Some (ni_expiresAt invoice)"
    "hash = Some h \<Longrightarrow> lower (ni_paymentHash invoice) = lower h"
  using assms by (auto simp: issued_for_def Let_def split: option.splits if_splits)

lemma then_read_InrD:
  assumes "then_read r f = (Inr x, s)"
  obtains y where "r = (Inr y, s)" "f y = Inr x"
  using assms by (cases r) (auto simp: then_read_def elim!: and_then.elims)

lemma hold_invoice_holds_the_hash:
  assumes "nwcHoldInvoice w c h timeoutMs m = (Inr invoice, sent)"
  shows "lower (ni_paymentHash invoice) = lower (held_paymentHash h)"
    "map_option int (invoice_amountMsat (decodeInvoice (ni_bolt11 invoice))) = Some (held_amountMsat h)"
proof -
  obtain said where "issued_for w (held_amountMsat h) (Some (held_paymentHash h)) said = Inr invoice"
    using assms unfolding nwcHoldInvoice_def by (blast elim!: then_read_InrD)
  note issued = issued_for_InrD [OF this]
  show "lower (ni_paymentHash invoice) = lower (held_paymentHash h)" using issued(4) by simp
  show "map_option int (invoice_amountMsat (decodeInvoice (ni_bolt11 invoice))) = Some (held_amountMsat h)" by (rule issued(2))
qed

lemma paid_with_a_receipt:
  assumes "nwcPay w c text timeoutMs m = (Inr secret, sent)"
  shows "\<exists>owed. invoice_paymentHash (decodeInvoice text) = Some owed \<and> preimageMatchesHash secret owed"
  using assms by (auto simp: nwcPay_def receipt_of_def split: option.splits json.splits if_splits elim!: then_read_InrD)

text \<open>
  What is scanned is what is watched, with a wallet of the shop's own. The leg carries the invoice that the wallet
  issued for the order's own price and not a unit more, whatever the wallet said of it; its QR is that invoice; and the
  gateway was told of it by one call, which names the invoice's payment hash and an address of the shop's with that
  hash sealed in it, and neither the wallet nor the amount.
\<close>

theorem wallet_leg_is_watched:
  assumes "nwcRail sh w rate drawn now cfg ord c = (Inr leg, (c', sent))"
  shows "\<exists>asked url blob trig hs.
    msatForOrder ord (nr_amount cfg) rate = Inr asked \<and>
    invoice_paymentHash (decodeInvoice (leg_scan leg)) = Some (leg_paymentHash leg) \<and>
    map_option int (invoice_amountMsat (decodeInvoice (leg_scan leg))) = Some asked \<and>
    map_option int (invoice_expiresAt (decodeInvoice (leg_scan leg))) = Some (leg_expiresAt leg) \<and>
    leg_qr leg = toLightningUri (leg_scan leg) \<and>
    nwcVerifyUrl (sh_pages sh) (sh_sealing sh) (dr_relay drawn) (through_endpoint (nr_verifyThrough cfg)) (leg_paymentHash leg)
      (through_secret (nr_verifyThrough cfg)) = Inr url \<and>
    calls c' = calls c @ [\<lparr>call_method = ''POST'', call_url = base_url c @ ''/watched-payments'', call_headers = hs,
      call_body = Some (stringify (watch_json
        \<lparr>hand_paymentHash = leg_paymentHash leg, hand_verifyUrl = url, hand_expiresAt = leg_expiresAt leg, hand_trigger = rail_trigger cfg,
         hand_replay = rail_replay cfg, hand_sealed = blob, hand_webhookUrl = rail_webhookUrl cfg\<rparr> trig))\<rparr>]"
proof -
  obtain asked where asked: "msatForOrder ord (nr_amount cfg) rate = Inr asked"
    using assms by (auto simp: nwcRail_def split: sum.splits)
  then obtain invoice description h watched where steps: "nwcInvoice w (nr_connection cfg) asked description None (dr_nonce drawn, now) = (Inr invoice, sent)"
    "nwc_handover sh drawn cfg ord invoice = Inr h" "client_watch (sh_around sh) h c = (Inr watched, c')"
    and leg: "leg_paymentHash leg = ni_paymentHash invoice" "leg_scan leg = ni_bolt11 invoice"
      "leg_qr leg = toLightningUri (ni_bolt11 invoice)" "leg_expiresAt leg = ni_expiresAt invoice"
    using assms by (auto simp: nwcRail_def split: sum.splits prod.splits)
  obtain said where "issued_for w asked None said = Inr invoice"
    using steps(1) unfolding nwcInvoice_def by (blast elim!: then_read_InrD)
  note issued = issued_for_InrD(1-3) [OF this]
  obtain url blob where handed: "nwcVerifyUrl (sh_pages sh) (sh_sealing sh) (dr_relay drawn) (through_endpoint (nr_verifyThrough cfg))
      (ni_paymentHash invoice) (through_secret (nr_verifyThrough cfg)) = Inr url"
    "h = \<lparr>hand_paymentHash = ni_paymentHash invoice, hand_verifyUrl = url, hand_expiresAt = ni_expiresAt invoice,
       hand_trigger = rail_trigger cfg, hand_replay = rail_replay cfg, hand_sealed = blob, hand_webhookUrl = rail_webhookUrl cfg\<rparr>"
    using steps(2) by (auto simp: nwc_handover_def split: sum.splits)
  obtain trig hs where "calls c' = calls c @ [\<lparr>call_method = ''POST'', call_url = base_url c @ ''/watched-payments'', call_headers = hs,
       call_body = Some (stringify (watch_json h trig))\<rparr>]"
    using steps(3) by (rule client_watch_InrD)
  with asked issued handed leg show ?thesis by metis
qed

subsection \<open>A wallet at work\<close>

definition key_here :: bytes where "key_here = replicate 32 7"
definition wallet_secret_here :: string where "wallet_secret_here = bytesToHex [0, 170]"

definition connection_here :: nwc_connection where
  "connection_here = \<lparr>nwc_walletPubkey = wallet_secret_here, nwc_relays = [''wss://down.example'', ''wss://relay.example''], nwc_secret = ''00ff''\<rparr>"

definition reply_here :: "json \<Rightarrow> string \<Rightarrow> event" where
  "reply_here said requestId =
     (case sealNip44 nostr_here key_here (stringify said) (replicate 32 2) of
        Inl _ \<Rightarrow> []
      | Inr content \<Rightarrow>
          the (signEvent nostr_here wallet_secret_here
            \<lparr>draft_kind = 23195, draft_tags = [[''e'', requestId]], draft_content = content, draft_created_at = 0\<rparr>))"

definition service_here :: "json \<Rightarrow> nwc_platform" where
  "service_here said =
     \<lparr>nw_nostr = nostr_here, nw_fl = id, nw_shortest = (\<lambda>_. ''?''),
      nw_socket = (\<lambda>t relay request. if relay = ''wss://down.example'' then [Broken]
        else [Opened, Frame (answer_frame (event_id request) (reply_here said (event_id request)))])\<rparr>"

lemma key_is_here: "conversationKeyFor nostr_here secret pubkey = Some key_here"
proof -
  have "slice 1 33 (replicate 33 (7 :: 8 word)) = replicate 32 7" by (simp add: slice_def)
  then show ?thesis by (simp add: conversationKeyFor_def nostr_here_def key_here_def)
qed

lemma keys_here:
  "publicKeyFor nostr_here wallet_secret_here = Some wallet_secret_here" "publicKeyFor nostr_here ''00ff'' = Some (bytesToHex (hexToBytes ''00ff''))"
  by (simp_all add: publicKeyFor_def nostr_here_def wallet_secret_here_def hexToBytes_bytesToHex del: bytesToHex_simps)

lemma reply_is_here:
  assumes "utf8 (stringify said) \<noteq> []" "length (utf8 (stringify said)) \<le> 65535"
  shows "wallet_reply nostr_here key_here wallet_secret_here (replicate 32 2) 0 [[''e'', requestId]] said (reply_here said requestId)"
proof -
  obtain content where content: "sealNip44 nostr_here key_here (stringify said) (replicate 32 2) = Inr content"
    using sealNip44_defined(1) [of key_here "replicate 32 2" nostr_here "stringify said"] assms by (auto simp: key_here_def)
  have "\<exists>ms. signEvent nostr_here wallet_secret_here d = Some ms" for d
    by (simp add: signEvent_def keys_here Let_def) (simp add: nostr_here_def)
  then show ?thesis using content by (auto simp: wallet_reply_def reply_here_def)
qed

lemma request_here:
  assumes "length (utf8 (stringify (JObj [(''method'', JStr way), (''params'', params)]))) \<le> 65535"
  shows "\<exists>request. signed_request (service_here said) connection_here key_here way params (replicate 32 9, 0) = Inr request"
proof -
  have "utf8 (stringify (JObj [(''method'', JStr way), (''params'', params)])) \<noteq> []" by (simp add: stringify.simps utf8_def utf8_char_def)
  then obtain content where "encryptNip44 nostr_here (replicate 32 9) key_here (stringify (JObj [(''method'', JStr way), (''params'', params)])) = Inr content"
    using sealNip44_defined(1) [of key_here "replicate 32 9" nostr_here "stringify (JObj [(''method'', JStr way), (''params'', params)])"] assms
    by (auto simp: encryptNip44_def key_here_def NIP44_NONCE_BYTES_def)
  moreover have "\<exists>ms. signEvent nostr_here ''00ff'' d = Some ms" for d
    by (simp add: signEvent_def keys_here Let_def) (simp add: nostr_here_def)
  then obtain ms where "signEvent nostr_here ''00ff'' \<lparr>draft_kind = REQUEST_KIND,
      draft_tags = [[''p'', nwc_walletPubkey connection_here], [''encryption'', NIP44_V2]], draft_content = content, draft_created_at = 0 div 1000\<rparr> = Some ms"
    by blast
  ultimately show ?thesis by (simp add: signed_request_def service_here_def connection_here_def)
qed

lemma down_here: "\<exists>frames. overRelay (service_here said) t ''wss://down.example'' connection_here request = (Rejected, frames)"
  by (simp add: overRelay_def service_here_def)

definition released_here :: json where
  "released_here = JObj [(''result_type'', JStr ''lookup_invoice''), (''result'', JObj [(''preimage'', nullable JStr (Some ''00ff''))])]"

lemma lookup_here:
  "\<exists>request. signed_request (service_here said) connection_here key_here ''lookup_invoice''
     (JObj [(''payment_hash'', JStr (bytesToHex sale_hash))]) (replicate 32 9, 0) = Inr request"
proof (rule request_here)
  let ?v = "JObj [(''method'', JStr ''lookup_invoice''), (''params'', JObj [(''payment_hash'', JStr (bytesToHex sale_hash))])]"
  have "length (bytesToHex sale_hash) = 64" by (simp add: sale_hash_def length_bytesToHex length_sha256)
  then have "length (stringify ?v) \<le> 1000"
    using quote_length [of "bytesToHex sale_hash"] quote_length [of "''method''"] quote_length [of "''lookup_invoice''"]
      quote_length [of "''params''"] quote_length [of "''payment_hash''"]
    by (simp add: stringify.simps)
  then show "length (utf8 (stringify ?v)) \<le> 65535" using utf8_length_hex [of "stringify ?v"] by simp
qed

lemma reply_released_here:
  "wallet_reply nostr_here key_here wallet_secret_here (replicate 32 2) 0 [[''e'', requestId]] released_here (reply_here released_here requestId)"
proof -
  have "length (utf8 (stringify released_here)) = 61" unfolding released_here_def nullable_def option.case by code_simp
  then show ?thesis by (intro reply_is_here) auto
qed

lemma service_here_ready:
  "nostr_reads (nw_nostr (service_here said))" "nostr_signs (nw_nostr (service_here said))"
  "conversationKeyFor (nw_nostr (service_here said)) (nwc_secret connection_here) (nwc_walletPubkey connection_here) = Some key_here"
  "publicKeyFor (nw_nostr (service_here said)) wallet_secret_here = Some (nwc_walletPubkey connection_here)"
  "nwc_relays connection_here = [''wss://down.example''] @ ''wss://relay.example'' # []"
  "\<forall>relay\<in>set [''wss://down.example'']. \<exists>frames. overRelay (service_here said) t relay connection_here request = (Rejected, frames)"
  "nw_socket (service_here said) t ''wss://relay.example'' request =
     [Opened] @ Frame (answer_frame (event_id request) (reply_here said (event_id request))) # []"
  "list_all (passes (service_here said) connection_here requestId) [Opened]"
  using nostr_here_promises down_here by (simp_all add: service_here_def key_is_here keys_here connection_here_def)

lemma reply_ready_here:
  "wallet_reply (nw_nostr (service_here said)) key_here wallet_secret_here (replicate 32 2) 0 [[''e'', event_id request]]
     (JObj [(''result_type'', JStr ''lookup_invoice''), (''result'', JObj [(''preimage'', nullable JStr (Some ''00ff''))])])
     (reply_here released_here (event_id request))"
  using reply_released_here by (simp add: service_here_def released_here_def)

lemma released_preimage_is_found_witness:
  "fst (nwcSettlement (service_here released_here) connection_here (bytesToHex sale_hash) (Some 10000) (replicate 32 9, 0)) =
     Inr (Some ''00ff'')"
proof -
  obtain request where "signed_request (service_here released_here) connection_here key_here ''lookup_invoice''
      (JObj [(''payment_hash'', JStr (bytesToHex sale_hash))]) (replicate 32 9, 0) = Inr request"
    using lookup_here by blast
  from released_preimage_is_found [OF service_here_ready(1-4) this service_here_ready(5-8) reply_ready_here] sale_preimage
  show ?thesis by simp
qed

lemma heard_here:
  "fst (askWallet (service_here released_here) connection_here ''lookup_invoice'' (JObj [(''payment_hash'', JStr (bytesToHex sale_hash))])
     10000 (replicate 32 9, 0)) = Inr (JObj [(''preimage'', JStr ''00ff'')])"
proof -
  obtain request where "signed_request (service_here released_here) connection_here key_here ''lookup_invoice''
      (JObj [(''payment_hash'', JStr (bytesToHex sale_hash))]) (replicate 32 9, 0) = Inr request"
    using lookup_here by blast
  from wallet_heard [OF service_here_ready(1-4) this service_here_ready(5-8) reply_ready_here]
  show ?thesis by (simp add: resultOf_def nullable_def)
qed

lemma answer_is_the_wallets_witness:
  "\<exists>sent request answer. askWallet (service_here released_here) connection_here ''lookup_invoice'' (JObj [(''payment_hash'', JStr (bytesToHex sale_hash))])
     10000 (replicate 32 9, 0) = (Inr (JObj [(''preimage'', JStr ''00ff'')]), sent) \<and>
     came_over (service_here released_here) 10000 connection_here request answer \<and> verifyEvent nostr_here answer"
proof -
  obtain sent where asked: "askWallet (service_here released_here) connection_here ''lookup_invoice'' (JObj [(''payment_hash'', JStr (bytesToHex sale_hash))])
     10000 (replicate 32 9, 0) = (Inr (JObj [(''preimage'', JStr ''00ff'')]), sent)"
    using heard_here by (metis prod.collapse)
  have "nw_nostr (service_here released_here) = nostr_here" by (simp add: service_here_def)
  with answer_is_the_wallets [OF asked] asked show ?thesis by metis
qed

definition verify_here :: nwc_verify where
  "verify_here = \<lparr>nv_connection = connection_here, nv_secret = replicate 32 CHR ''s'', nv_pollEverySecs = Some 5, nv_askTimeoutMs = None\<rparr>"

lemma gateway_learns_from_the_wallet_witness:
  "\<exists>url reply sent. nwcVerifyUrl json_pages clear_platform (replicate 12 7) endpoint_here (bytesToHex sale_hash) (nv_secret verify_here) = Inr url \<and>
     nwcVerifyEndpoint (service_here released_here) json_pages clear_platform verify_here
       \<lparr>in_method = ''GET'', in_url = url, in_headers = [], in_body = []\<rparr> (replicate 32 9, 0) = (Inr reply, sent) \<and>
     out_status reply = 200 \<and>
     (\<forall>net trace said trace'. parse_json (out_body reply) = Some said \<and>
        answeredJson net url True trace = (Inr (said, out_headers reply), trace') \<longrightarrow>
        (\<exists>s. checkSettled net url (bytesToHex sale_hash) trace = (Some s, trace') \<and> settled_preimage s = Some ''00ff''))"
proof -
  have "length (bytesToHex sale_hash) = 64" by (simp add: sale_hash_def length_bytesToHex length_sha256)
  then have short: "length (utf8 (bytesToHex sale_hash)) \<le> 3000" using utf8_length_hex [of "bytesToHex sale_hash"] by simp
  have "\<not> weak_secret (nv_secret verify_here)" by (simp add: weak_secret_def MIN_SECRET_CHARS_def verify_here_def)
  with sealed_for_its_purpose [OF clear_platform_promises short, of "replicate 12 7" "nv_secret verify_here" NwcVerify False]
  obtain blob where "sealFor clear_platform (replicate 12 7) NwcVerify (nv_secret verify_here) (bytesToHex sale_hash) False = Inr blob" by auto
  then obtain url where url: "nwcVerifyUrl json_pages clear_platform (replicate 12 7) endpoint_here (bytesToHex sale_hash) (nv_secret verify_here) = Inr url"
    by (simp add: nwcVerifyUrl_def endpoint_read_here)
  have "fst (nwcSettlement (service_here released_here) (nv_connection verify_here) (bytesToHex sale_hash) (nv_askTimeoutMs verify_here)
      (replicate 32 9, 0)) = Inr (Some ''00ff'')"
    using heard_here sale_preimage by (simp add: nwcSettlement_def then_read_def verify_here_def DEFAULT_ASK_TIMEOUT_MS_def preimage_released_def)
  then obtain sent where found: "nwcSettlement (service_here released_here) (nv_connection verify_here) (bytesToHex sale_hash)
      (nv_askTimeoutMs verify_here) (replicate 32 9, 0) = (Inr (Some ''00ff''), sent)" by (metis prod.collapse)
  have "nv_pollEverySecs verify_here = Some 5" by (simp add: verify_here_def)
  from gateway_learns_from_the_wallet [OF url clear_platform_promises json_pages_keep _ short this _ found, of "[]" "[]"] url
  show ?thesis by (fastforce simp del: preimageMatchesHash_def)
qed

end
