(* ===== verification/Spec2Isabelle.thy ===== *)
theory Spec2Isabelle
  imports JsonText Sockets Sealed Prices Waiting Serving Relay Trigger Bank Fio Nostr Rails Nwc
begin

text \<open>
  A verification development of Thunder Bridge: a gateway that obtains a Lightning invoice from the
  recipient's own wallet or watches one it is handed, learns from the recipient's own verify endpoint
  when it was paid, and says so over sockets and webhooks; and the client library that trusts the
  gateway for nothing it can check.

  \<^bold>\<open>How the parts interact.\<close> A request reaches \<^verbatim>\<open>src/index.ts\<close>, which reads it (\<^verbatim>\<open>src/wire.ts\<close>), finds
  out who signed it (\<^verbatim>\<open>core/signature.ts\<close>), asks wallets for an invoice (\<^verbatim>\<open>core/lnurl.ts\<close> over
  \<^verbatim>\<open>core/outbound.ts\<close>) and writes to the store (\<^verbatim>\<open>src/store.ts\<close>), which holds the ledger
  (\<^verbatim>\<open>src/ledger.ts\<close>) and tells the other instances of the cluster (\<^verbatim>\<open>src/gossip.ts\<close>). The loop of
  \<^verbatim>\<open>src/watch.ts\<close> asks what is due, settles what was paid and delivers the webhooks that are owed;
  \<^verbatim>\<open>src/agents.ts\<close> asks devices that hold a socket. On the other side \<^verbatim>\<open>sdk/src/client.ts\<close> calls the
  gateway, proves what it answers (\<^verbatim>\<open>sdk/src/verify.ts\<close>) and waits over sockets, at one gateway or at
  several (\<^verbatim>\<open>sdk/src/gateways.ts\<close>).

  \<^bold>\<open>Theories and sources.\<close> The theories name the operations as the source does; a name that clashes with
  one of the library has a suffix.

    \<^item> Prelude: strings, lists and options. Bytes, Sha256, Hmac, Ticket, Url, Bech32, Bolt11, Problem,
      Outbound, Lnurl, Signature, Sealed: the files of \<^verbatim>\<open>core/\<close> of the same names (Bech32 and Bolt11 are
      \<^verbatim>\<open>bolt11.ts\<close>; Signature has \<^verbatim>\<open>ed25519.ts\<close> and \<^verbatim>\<open>caller.ts\<close> too, Outbound \<^verbatim>\<open>pinned.ts\<close>).
    \<^item> Json, JsonText: JSON values, the text of JSON and how numbers read, as the standard library does.
    \<^item> Payment, Wire: \<^verbatim>\<open>src/payment.ts\<close> and \<^verbatim>\<open>src/wire.ts\<close>.
    \<^item> Facts, Ledger, LedgerInvariant, LedgerSteps, LedgerMarks: \<^verbatim>\<open>src/ledger.ts\<close>. A table is the list of
      its rows in the order they were inserted, a statement an operation on the lists.
    \<^item> Gossip, CatchUp, Store: \<^verbatim>\<open>src/gossip.ts\<close> and \<^verbatim>\<open>src/store.ts\<close>.
    \<^item> Agents, Watch: \<^verbatim>\<open>src/agents.ts\<close> and \<^verbatim>\<open>src/watch.ts\<close>.
    \<^item> Server, Requests, Sockets: \<^verbatim>\<open>src/index.ts\<close>, its handlers, what holds across them, its sockets and timers.
    \<^item> Prices: \<^verbatim>\<open>currency.ts\<close>, \<^verbatim>\<open>amount.ts\<close> and \<^verbatim>\<open>price.ts\<close> of \<^verbatim>\<open>sdk/src\<close>. ClientWire: \<^verbatim>\<open>types.ts\<close>, \<^verbatim>\<open>charge.ts\<close>
      and \<^verbatim>\<open>wire.ts\<close>. Verify: \<^verbatim>\<open>verify.ts\<close> and \<^verbatim>\<open>errors.ts\<close>. Client: the calls of \<^verbatim>\<open>client.ts\<close>. Waiting: its
      sockets, \<^verbatim>\<open>gateways.ts\<close> and \<^verbatim>\<open>request.ts\<close>. Serving: \<^verbatim>\<open>webhook.ts\<close> and \<^verbatim>\<open>serving.ts\<close>.
    \<^item> Relay, Trigger, Bank, Fio, Nostr, Nwc: the files of \<^verbatim>\<open>sdk/src\<close> of the same names. Rails: \<^verbatim>\<open>rail.ts\<close> and \<^verbatim>\<open>qr.ts\<close>.
      Numbers: doubles that need not be finite, and their text, for Trigger and Bank.
    \<^item> Windows: the interface of what remembers for a while, interpreted by Requests and Serving.

  \<^bold>\<open>State, errors and the world.\<close> Stateful code is a record that is passed and returned. What the program
  throws or answers as a refusal is the left of a sum. A handler that waits is cut where it waits, and the
  steps of other handlers may come between. The platform and the network are arguments: the WHATWG URL
  parser, \<^verbatim>\<open>Date.parse\<close>, Ed25519, AES-GCM and HKDF, the structured field parser, DNS, what each request
  is answered, the clock and every random draw. What a theorem needs of them is one of its hypotheses, and
  its witness instantiates them. Of the URL API the endpoints need that an address that was read, and had parameters
  of its query set, reads back from its text as that (\<open>pages_keep\<close> of Relay). \<^verbatim>\<open>Math.round\<close> and the rounding of floating point are \<^verbatim>\<open>math_round\<close> and the
  function \<open>fl\<close>, of which \<^verbatim>\<open>ieee\<close> says that it is monotone and exact on what a double holds.

  \<^bold>\<open>What the lemmas show.\<close>

    \<^item> The ledger: every operation keeps the invariant \<open>ledger_ok\<close>; a settlement stays until it is swept, and
      what was swept never comes back; two instances that exchange notes catch up within the distance of
      their marks.
    \<^item> The service: whatever is asked changes the ledger by its own operations only; what a create request is
      answered is the payment it asked for; a payment is shown to its own caller, and is to anybody else as if it
      were not there; a signature, a ticket and an idempotency key are each good for one request; what is
      watched was consented to; a poll settles on the preimage it was answered and on nothing else, and a delivery
      that was taken is never due again.
    \<^item> The formats: tickets, invoices, JSON and sealed blobs read back as they were written; the client reads
      what the gateway writes, and the gateway what the client writes.
    \<^item> The hash equals the reference of FIPS 180-4, an address is public exactly when it lies in no reserved block.
    \<^item> The client: an invoice that is shown came from the recipient; one invoice is given to one order; a wait
      ends with the payment it was asked for, or with the fifth connection lost on a gateway that said nothing
      (while a socket stays open and silent it does not end, as the source has it); the first gateway that speaks the truth is enough; a webhook
      route acts once on each delivery, and only on one that proves itself.
    \<^item> The shop: a relay says to the gateway what the wallet says; an offer of the LNURL-pay endpoint mints exactly
      what was offered, and every wallet gets an answer; the gateway concludes that a bank transfer was paid
      exactly when a credit that pays it is on the statement, and a token of Fio rests between its reads; what a
      payer scans on a rail is an invoice for the order's price, and its hash is what the gateway watches; a
      message of NIP-44 reads back; a gateway that polls the endpoint of a wallet over Nostr concludes what the wallet
      released, and a wallet that answers is heard.

  \<^bold>\<open>Bounds and fuel.\<close> Loops are structural recursions or have a measure. Redirects are followed with the
  program's own limit of hops as the argument of the recursion. \<open>parse_json\<close> recurses on the text with its
  length as fuel, which is enough for every text \<open>stringify\<close> writes of a value without a fraction
  (\<open>parse_stringify\<close>). SHA-256 agrees with its reference below \<open>2 ^ 29\<close> bytes, where the length field of the code
  ends. The catch-up of two instances is bounded by the sum of the distances of their marks; a wait that
  hears nothing by five lost connections and by fifteen events that are no frames, three for each connection; what a relay of Nostr says is a finite
  list that the deadline ends.

  \<^bold>\<open>Not modelled.\<close> Strings are code units below 256. The SQL that creates the tables, the transport of
  the cluster (the packages hyperdht and hyperswarm), logging, the start of the process from its
  environment, the pages that show a file, the test doubles, the tools, the examples and the demo page.
  Of the client library: the venues that \<^verbatim>\<open>price.ts\<close> asks over HTTP.
\<close>

end
